(* ===== verification/Fc_Prelude.thy ===== *)
theory Fc_Prelude
  imports Main "HOL-Library.Word"
begin

text \<open>
  What every component of the development shares: the fixed-width integer types of the
  sources, the errors a call can end in, the sequencing of calls that may fail, and the
  little-endian byte image of an integer (what \<^verbatim>\<open>(char*)&v\<close> shows on the platforms
  the library supports).
\<close>

unbundle bit_operations_syntax

subsection \<open>Types\<close>

type_synonym byte = "8 word"
type_synonym u16 = "16 word"
type_synonym u32 = "32 word"
type_synonym u64 = "64 word"
type_synonym bytes = "byte list"

text \<open>The codes of \<^verbatim>\<open>fc::exception_code\<close>, in the order of the enumeration.\<close>

datatype exception_code =
    unspecified_exception_code
  | unhandled_exception_code
  | timeout_exception_code
  | file_not_found_exception_code
  | parse_error_exception_code
  | invalid_arg_exception_code
  | key_not_found_exception_code
  | bad_cast_exception_code
  | out_of_range_exception_code
  | canceled_exception_code
  | assert_exception_code
  | eof_exception_code
  | std_exception_code
  | invalid_operation_exception_code
  | unknown_host_exception_code
  | null_optional_code
  | udt_error_code
  | aes_error_code
  | overflow_code
  | underflow_code
  | divide_by_zero_code

text \<open>
  How a call can end other than by returning: an \<^verbatim>\<open>fc\<close> exception with its code, a
  standard exception, the end of the process, or a step whose behaviour the language
  leaves undefined (a read outside an array, a pointer moved outside its buffer). The last one is
  a value of the model, so that its absence can be stated and proved.
\<close>

datatype fc_error =
    Fc_exception exception_code
  | Std_domain_error
  | Std_ios_failure
  | Std_length_error
  | Std_out_of_range
  | Std_range_error
  | Std_runtime_error
  | Process_exit nat
  | Undefined_behaviour

type_synonym 'a result = "fc_error + 'a"

abbreviation Out_of_range :: fc_error where
  "Out_of_range \<equiv> Fc_exception out_of_range_exception_code"

abbreviation Assert_failed :: fc_error where
  "Assert_failed \<equiv> Fc_exception assert_exception_code"

text \<open>A check the caller passes in, without arguments: what its \<open>k\<close>-th call does, return or throw.\<close>

type_synonym yield_calls = "nat \<Rightarrow> unit result"

text \<open>The characters of a literal as their 8-bit codes.\<close>

definition ascii :: "string \<Rightarrow> bytes" where
  "ascii s = map of_char s"

text \<open>What a reader of a string's \<^verbatim>\<open>c_str()\<close> sees of it.\<close>

definition c_str :: "bytes \<Rightarrow> bytes" where
  "c_str s = takeWhile (\<lambda>c. c \<noteq> 0) s"

named_theorems fc_result "sequencing of calls that may fail"
named_theorems fc_eval "evaluation at numerals"
named_theorems fc_bytes "lengths and contents of byte images"

subsection \<open>Calls that may fail\<close>

text \<open>Run the continuation on the value a call returns; an error ends the sequence.\<close>

definition and_then :: "'a result \<Rightarrow> ('a \<Rightarrow> 'b result) \<Rightarrow> 'b result" where
  "and_then m f = (case m of Inl e \<Rightarrow> Inl e | Inr x \<Rightarrow> f x)"

text \<open>\<^verbatim>\<open>FC_ASSERT(c)\<close> before the rest of a function.\<close>

definition fc_assert :: "bool \<Rightarrow> 'a result \<Rightarrow> 'a result" where
  "fc_assert c r = (if c then r else Inl Assert_failed)"

definition is_ok :: "'a result \<Rightarrow> bool" where
  "is_ok r = (case r of Inl _ \<Rightarrow> False | Inr _ \<Rightarrow> True)"

text \<open>Apply a step to a state once per element of a list, from left to right.\<close>

fun each_then :: "('a \<Rightarrow> 's \<Rightarrow> 's result) \<Rightarrow> 'a list \<Rightarrow> 's \<Rightarrow> 's result" where
  "each_then f [] s = Inr s"
| "each_then f (x # xs) s = and_then (f x s) (each_then f xs)"

text \<open>Run a reader a number of times and collect what it returns.\<close>

fun times_then :: "('s \<Rightarrow> ('a \<times> 's) result) \<Rightarrow> nat \<Rightarrow> 's \<Rightarrow> ('a list \<times> 's) result" where
  "times_then f 0 s = Inr ([], s)"
| "times_then f (Suc n) s =
     and_then (f s) (\<lambda>(x, s'). and_then (times_then f n s') (\<lambda>(xs, s''). Inr (x # xs, s'')))"

subsection \<open>Little-endian images\<close>

text \<open>The low \<open>n\<close> base-256 digits of a number, least significant first, and back.\<close>

fun le_bytes :: "nat \<Rightarrow> nat \<Rightarrow> bytes" where
  "le_bytes 0 v = []"
| "le_bytes (Suc n) v = of_nat v # le_bytes n (v div 256)"

fun of_le_bytes :: "bytes \<Rightarrow> nat" where
  "of_le_bytes [] = 0"
| "of_le_bytes (b # bs) = unat b + 256 * of_le_bytes bs"

text \<open>Integer division that truncates, as the language and the libraries have it.\<close>

definition tdiv :: "int \<Rightarrow> int \<Rightarrow> int" where
  "tdiv a b = sgn a * sgn b * (\<bar>a\<bar> div \<bar>b\<bar>)"

definition trem :: "int \<Rightarrow> int \<Rightarrow> int" where
  "trem a b = sgn a * (\<bar>a\<bar> mod \<bar>b\<bar>)"

subsection \<open>Lemmas\<close>

lemma tdiv_nonneg: "0 \<le> a \<Longrightarrow> 0 < b \<Longrightarrow> tdiv a b = a div b"
  by (cases "a = 0") (simp_all add: tdiv_def)

lemma trem_nonneg: "0 \<le> a \<Longrightarrow> 0 < b \<Longrightarrow> trem a b = a mod b"
  by (cases "a = 0") (simp_all add: trem_def)

lemma and_then_simps [simp, fc_result]:
  "and_then (Inl e) f = Inl e"
  "and_then (Inr x) f = f x"
  by (simp_all add: and_then_def)

lemma and_then_assoc [fc_result]:
  "and_then (and_then m f) g = and_then m (\<lambda>x. and_then (f x) g)"
  by (cases m) simp_all

lemma and_then_return [simp]: "and_then m Inr = m"
  by (cases m) simp_all

lemma and_then_InrE:
  assumes "and_then m f = Inr y"
  obtains x where "m = Inr x" "f x = Inr y"
  using assms by (cases m) auto

lemma and_then_Inr_iff: "and_then m f = Inr y \<longleftrightarrow> (\<exists>x. m = Inr x \<and> f x = Inr y)"
  by (cases m) auto

lemma and_then_cong [fundef_cong]:
  assumes "m = m'" and "\<And>x. m' = Inr x \<Longrightarrow> f x = g x"
  shows "and_then m f = and_then m' g"
  using assms by (cases m') auto

lemma fc_assert_simps [simp, fc_result]:
  "fc_assert True r = r"
  "fc_assert False r = Inl Assert_failed"
  by (simp_all add: fc_assert_def)

lemma fc_assert_Inr_iff: "fc_assert c r = Inr y \<longleftrightarrow> c \<and> r = Inr y"
  by (simp add: fc_assert_def)

lemma fc_assert_cong [fundef_cong]:
  "c = c' \<Longrightarrow> (c' \<Longrightarrow> r = r') \<Longrightarrow> fc_assert c r = fc_assert c' r'"
  by (simp add: fc_assert_def)

lemma is_ok_simps [simp]: "is_ok (Inl e) = False" "is_ok (Inr x) = True"
  by (simp_all add: is_ok_def)

lemma is_ok_iff: "is_ok r \<longleftrightarrow> (\<exists>x. r = Inr x)"
  by (cases r) simp_all

lemma each_then_append:
  "each_then f (xs @ ys) s = and_then (each_then f xs s) (each_then f ys)"
proof (induction xs arbitrary: s)
  case (Cons x xs)
  then show ?case by (cases "f x s") simp_all
qed simp

lemma each_then_cong [fundef_cong]:
  assumes "xs = ys" and "s = t" and "\<And>x u. x \<in> set ys \<Longrightarrow> f x u = g x u"
  shows "each_then f xs s = each_then g ys t"
  using assms(3) unfolding assms(1,2)
  by (induction ys arbitrary: t) (auto intro!: and_then_cong)

lemma drop_past_prefix: "drop k m = xs @ ys \<Longrightarrow> drop (k + length xs) m = ys"
  by (metis add.commute append_eq_conv_conj drop_drop)

lemma length_past_prefix: "drop k m = xs @ ys \<Longrightarrow> k \<le> length m \<Longrightarrow> length m = k + length xs + length ys"
  by (drule arg_cong [of _ _ length]) simp

lemma drop_past_cons:
  assumes "drop k m = x # ys" and "k \<le> length m"
  shows "drop (Suc k) m = ys" and "length m = Suc (k + length ys)" and "m ! k = x"
  using drop_past_prefix [of k m "[x]" ys] length_past_prefix [of k m "[x]" ys] assms
    nth_append_length [of "take k m" x ys] append_take_drop_id [of k m]
  by (simp_all add: min_def)

lemma length_le_bytes [simp, fc_bytes]: "length (le_bytes n v) = n"
  by (induction n arbitrary: v) simp_all

lemma unat_byte_lt: "unat (b :: byte) < 256"
  using unsigned_less [of b, where 'a = nat] by simp

lemma le_bytes_numeral [fc_eval]:
  "le_bytes (numeral k) v = of_nat v # le_bytes (pred_numeral k) (v div 256)"
  using le_bytes.simps(2) [of "pred_numeral k" v] by (simp only: numeral_eq_Suc [of k])

lemma times_then_numeral [fc_eval]:
  "times_then f (numeral k) s =
     and_then (f s) (\<lambda>(x, s'). and_then (times_then f (pred_numeral k) s') (\<lambda>(xs, s''). Inr (x # xs, s'')))"
  using times_then.simps(2) [of f "pred_numeral k" s] by (simp only: numeral_eq_Suc [of k])

lemma of_le_bytes_bound: "of_le_bytes bs < 256 ^ length bs"
proof (induction bs)
  case (Cons b bs)
  have "unat b < 256" by (rule unat_byte_lt)
  with Cons show ?case by simp
qed simp

lemma unat_of_nat_byte: "unat (of_nat v :: byte) = v mod 256"
  by (simp add: unat_of_nat)

lemma of_le_bytes_le_bytes: "of_le_bytes (le_bytes n v) = v mod 256 ^ n"
proof (induction n arbitrary: v)
  case (Suc n)
  have "v mod (256 * 256 ^ n) = 256 * (v div 256 mod 256 ^ n) + v mod 256"
    by (rule mod_mult2_eq)
  with Suc show ?case by (simp add: unat_of_nat_byte)
qed simp

lemma le_bytes_of_le_bytes: "le_bytes (length bs) (of_le_bytes bs) = bs"
proof (induction bs)
  case (Cons b bs)
  have b: "unat b < 256" by (rule unat_byte_lt)
  then have "(unat b + 256 * of_le_bytes bs) div 256 = of_le_bytes bs" by simp
  moreover have "(256 :: byte) = 0" by simp
  then have "(of_nat (unat b + 256 * of_le_bytes bs) :: byte) = b"
    by (simp only: of_nat_add of_nat_mult of_nat_numeral) simp
  ultimately show ?case using Cons by simp
qed simp

subsection \<open>Bits of words as numbers\<close>

lemma unat_and_0xff: "unat ((x :: 32 word) AND 0xff) < 256"
proof -
  have "x AND 0xff = take_bit 8 x" by (simp add: take_bit_eq_mask mask_eq_exp_minus_1)
  then show ?thesis using take_bit_nat_less_exp [of 8 "unat x"] by (simp add: unsigned_take_bit_eq)
qed

lemma unat_ucast_mod: "unat (ucast (x :: 'a::len word) :: 'b::len word) = unat x mod 2 ^ LENGTH('b)"
  by (simp add: unsigned_ucast_eq) (simp add: take_bit_eq_mod)

lemma word_unat_lt: "unat (x :: 'a::len word) < 2 ^ LENGTH('a)"
  by (rule unsigned_less)

lemma unat_of_nat_lt: "n < 2 ^ LENGTH('a) \<Longrightarrow> unat (of_nat n :: 'a::len word) = n"
  by (simp add: unat_of_nat)

lemma ucast_unat_eq: "unat x = n \<Longrightarrow> ucast x = of_nat n"
  by (metis of_nat_unat)

lemma unat_and_mask: "unat (x AND mask n) = unat x mod 2 ^ n"
  by (simp add: unsigned_take_bit_eq flip: take_bit_eq_mask) (simp add: take_bit_eq_mod)

lemma unat_drop_bit: "unat (drop_bit n x) = unat x div 2 ^ n"
  by (simp add: unsigned_drop_bit_eq take_bit_nat_eq_self) (simp add: drop_bit_eq_div)

lemma nat_or_shifted:
  fixes v m :: nat
  assumes "v < 2 ^ k"
  shows "v OR push_bit k m = v + m * 2 ^ k"
proof -
  have "\<not> bit v n" if "k \<le> n" for n
  proof -
    from that assms have "v < 2 ^ n" by (metis less_le_trans one_le_numeral power_increasing)
    then show ?thesis by (simp add: bit_iff_odd)
  qed
  then have "v + push_bit k m = v OR push_bit k m"
    by (intro disjunctive_add) (auto simp: bit_push_bit_iff)
  then show ?thesis by (simp add: push_bit_eq_mult)
qed

lemma byte_and_127: "unat ((b :: byte) AND 127) = unat b mod 128"
  using unat_and_mask [of b 7] by (simp add: mask_eq_exp_minus_1)

lemma byte_and_128: "((b :: byte) AND 128 = 0) = (unat b < 128)"
proof -
  have "((b :: byte) AND 128 = 0) = (\<not> bit b 7)"
    using and_exp_eq_0_iff_not_bit [of b 7] by simp
  also have "\<dots> = (\<not> bit (unat b) 7)"
    by (simp add: bit_unsigned_iff)
  also have "\<dots> = even (unat b div 128)"
    by (simp add: bit_iff_odd)
  also have "\<dots> = (unat b div 128 = 0)"
    using less_mult_imp_div_less [of "unat b" 2 128] unat_byte_lt [of b]
    by (auto simp: less_2_cases_iff)
  also have "\<dots> = (unat b < 128)"
    by (simp add: div_eq_0_iff)
  finally show ?thesis .
qed

subsection \<open>Equal blocks in a row\<close>

lemma length_concat_blocks: "\<forall>b \<in> set bs. length b = l \<Longrightarrow> length (concat bs) = length bs * l"
  by (induction bs) auto

lemma drop_concat_blocks:
  "\<forall>b \<in> set bs. length b = l \<Longrightarrow> k \<le> length bs \<Longrightarrow> drop (k * l) (concat bs) = concat (drop k bs)"
proof (induction bs arbitrary: k)
  case (Cons b bs)
  then show ?case by (cases k) auto
qed simp

lemma take_in_block:
  assumes "\<forall>b \<in> set bs. length b = l" and "i < length bs" and "j + n \<le> l"
  shows "take n (drop j (bs ! i)) = take n (drop (i * l + j) (concat bs))"
proof -
  have "drop (i * l) (concat bs) = concat (drop i bs)"
    using assms by (intro drop_concat_blocks) auto
  also have "\<dots> = bs ! i @ concat (drop (Suc i) bs)"
    using assms(2) by (simp add: Cons_nth_drop_Suc [symmetric])
  finally have "drop (i * l + j) (concat bs) = drop j (bs ! i @ concat (drop (Suc i) bs))"
    by (metis add.commute drop_drop)
  moreover have "length (bs ! i) = l" using assms by simp
  ultimately show ?thesis using assms(3) by simp
qed

subsection \<open>Differences of words that do not borrow\<close>

lemma unat_add_lt: "unat x + unat y < 2 ^ LENGTH('a) \<Longrightarrow> unat (x + y :: 'a::len word) = unat x + unat y"
  by (simp add: unat_word_ariths)

lemma unat_of_nat_diff:
  assumes "b \<le> a" and "a < 2 ^ LENGTH('a)"
  shows "unat (of_nat a - of_nat b :: 'a::len word) = a - b"
proof -
  have "of_nat a - of_nat b = (of_nat (a - b) :: 'a word)" using assms(1) by simp
  moreover have "a - b < 2 ^ LENGTH('a)" using assms(2) by (rule le_less_trans [rotated]) simp
  ultimately show ?thesis by (simp only: unat_of_nat_lt)
qed

subsection \<open>Sizes stored in a signed integer\<close>

lemma sint_of_nat_u32: "n < 2 ^ 31 \<Longrightarrow> sint (of_nat n :: u32) = int n"
  by (simp add: signed_of_nat signed_take_bit_int_eq_self_iff)

end
