(* ===== verification/Stream_Interfaces.thy ===== *)
theory Stream_Interfaces
  imports Fc_Prelude
begin

text \<open>
  The two interfaces through which the serializer sees a stream. The templates of
  \<^verbatim>\<open>fc/io/raw.hpp\<close> take any class with \<^verbatim>\<open>write\<close>, or with \<^verbatim>\<open>read\<close> and
  \<^verbatim>\<open>get\<close>; a locale states what they rely on, and the lemmas about sequences of calls are
  proved once here. The datastreams and the message buffer interpret them.
\<close>

subsection \<open>The element loop of an encoding\<close>

text \<open>The concatenation of the encodings of a list of values.\<close>

fun enc_list :: "('a \<Rightarrow> bytes result) \<Rightarrow> 'a list \<Rightarrow> bytes result" where
  "enc_list enc [] = Inr []"
| "enc_list enc (v # vs) =
     and_then (enc v) (\<lambda>bs. and_then (enc_list enc vs) (\<lambda>cs. Inr (bs @ cs)))"

lemma enc_list_cong [fundef_cong]:
  assumes "vs = ws" and "\<And>v. v \<in> set ws \<Longrightarrow> enc v = enc' v"
  shows "enc_list enc vs = enc_list enc' ws"
  using assms(2) unfolding assms(1) by (induction ws) auto

subsection \<open>Streams that are written\<close>

text \<open>
  \<open>room s n\<close>: the stream's own bookkeeping stays in range while \<open>n\<close> more bytes are written.
  A \<open>emit\<close> may still fail (a full buffer). The laws say that \<open>emit\<close> depends only on the
  bytes written and not on how they are cut into calls.
\<close>

locale out_stream =
  fixes emit :: "bytes \<Rightarrow> 's \<Rightarrow> 's result"
    and room :: "'s \<Rightarrow> nat \<Rightarrow> bool"
  assumes write_nil: "room s 0 \<Longrightarrow> emit [] s = Inr s"
    and write_append: "room s (length xs + length ys) \<Longrightarrow>
      emit (xs @ ys) s = and_then (emit xs s) (emit ys)"
    and room_write: "room s (length xs + n) \<Longrightarrow> emit xs s = Inr s' \<Longrightarrow> room s' n"
    and room_mono: "room s n \<Longrightarrow> m \<le> n \<Longrightarrow> room s m"
begin

text \<open>
  \<open>writes p enc\<close>: the packer \<open>p\<close> writes exactly the bytes \<open>enc\<close> specifies, and fails on
  every value that has no encoding.
\<close>

definition writes :: "('a \<Rightarrow> 's \<Rightarrow> 's result) \<Rightarrow> ('a \<Rightarrow> bytes result) \<Rightarrow> bool" where
  "writes p enc \<longleftrightarrow>
     (\<forall>v s bs. enc v = Inr bs \<longrightarrow> room s (length bs) \<longrightarrow> p v s = emit bs s) \<and>
     (\<forall>v s e. enc v = Inl e \<longrightarrow> \<not> is_ok (p v s))"

lemma writesI:
  assumes "\<And>v s bs. enc v = Inr bs \<Longrightarrow> room s (length bs) \<Longrightarrow> p v s = emit bs s"
    and "\<And>v s e. enc v = Inl e \<Longrightarrow> \<not> is_ok (p v s)"
  shows "writes p enc"
  using assms by (auto simp: writes_def)

lemma writesD: "writes p enc \<Longrightarrow> enc v = Inr bs \<Longrightarrow> room s (length bs) \<Longrightarrow> p v s = emit bs s"
  by (simp add: writes_def)

lemma writes_fails: "writes p enc \<Longrightarrow> enc v = Inl e \<Longrightarrow> \<not> is_ok (p v s)"
  by (simp add: writes_def)

text \<open>Two packers in sequence emit the two encodings in sequence.\<close>

lemma writes_seq:
  assumes p: "\<And>s. room s (length xs) \<Longrightarrow> p s = emit xs s"
    and q: "\<And>s. room s (length ys) \<Longrightarrow> q s = emit ys s"
    and r: "room s (length xs + length ys)"
  shows "and_then (p s) q = emit (xs @ ys) s"
proof -
  have "p s = emit xs s" using p r room_mono by (meson le_add1)
  moreover have "q s' = emit ys s'" if "emit xs s = Inr s'" for s'
    using room_write [OF r that] by (rule q)
  ultimately show ?thesis
    unfolding write_append [OF r] by (cases "emit xs s") simp_all
qed

text \<open>The element loop of every container.\<close>

lemma writes_each:
  assumes p: "writes p enc"
  shows "enc_list enc vs = Inr bs \<Longrightarrow> room s (length bs) \<Longrightarrow> each_then p vs s = emit bs s"
proof (induction vs arbitrary: bs s)
  case (Cons v vs)
  then obtain xs ys where xs: "enc v = Inr xs" and ys: "enc_list enc vs = Inr ys" and bs: "bs = xs @ ys"
    by (auto elim!: and_then_InrE)
  have "and_then (p v s) (each_then p vs) = emit (xs @ ys) s"
    by (rule writes_seq) (use Cons bs writesD [OF p xs] ys in auto)
  then show ?case by (simp add: bs)
qed (simp add: write_nil)

lemma writes_each_fails:
  assumes p: "writes p enc"
  shows "enc_list enc vs = Inl e \<Longrightarrow> \<not> is_ok (each_then p vs s)"
proof (induction vs arbitrary: e s)
  case (Cons v vs)
  show ?case
  proof (cases "enc v")
    case (Inl e')
    then have "\<not> is_ok (p v s)" by (rule writes_fails [OF p])
    then show ?thesis by (cases "p v s") simp_all
  next
    case (Inr xs)
    with Cons.prems obtain e' where "enc_list enc vs = Inl e'"
      by (cases "enc_list enc vs") auto
    then have "\<not> is_ok (each_then p vs s')" for s' by (rule Cons.IH)
    then show ?thesis by (cases "p v s") simp_all
  qed
qed simp

end

subsection \<open>Streams that are read\<close>

text \<open>
  \<open>pending s\<close> is what is left to read. A read within it returns its front and moves on.
\<close>

locale in_source =
  fixes read :: "nat \<Rightarrow> 's \<Rightarrow> (bytes \<times> 's) result"
    and get :: "'s \<Rightarrow> (byte \<times> 's) result"
    and pending :: "'s \<Rightarrow> bytes"
    and invar :: "'s \<Rightarrow> bool"
  assumes read_ok: "invar s \<Longrightarrow> pending s = xs @ ys \<Longrightarrow>
      \<exists>s'. read (length xs) s = Inr (xs, s') \<and> invar s' \<and> pending s' = ys"
    and get_ok: "invar s \<Longrightarrow> pending s = x # ys \<Longrightarrow>
      \<exists>s'. get s = Inr (x, s') \<and> invar s' \<and> pending s' = ys"
begin

text \<open>
  \<open>reads d enc\<close>: wherever the pending bytes start with an encoding, \<open>d\<close> returns the value and
  consumes exactly that encoding.
\<close>

definition reads :: "('s \<Rightarrow> ('a \<times> 's) result) \<Rightarrow> ('a \<Rightarrow> bytes result) \<Rightarrow> bool" where
  "reads d enc \<longleftrightarrow>
     (\<forall>v bs s rest. enc v = Inr bs \<longrightarrow> invar s \<longrightarrow> pending s = bs @ rest \<longrightarrow>
        (\<exists>s'. d s = Inr (v, s') \<and> invar s' \<and> pending s' = rest))"

lemma readsI:
  assumes "\<And>v bs s rest. enc v = Inr bs \<Longrightarrow> invar s \<Longrightarrow> pending s = bs @ rest \<Longrightarrow>
      \<exists>s'. d s = Inr (v, s') \<and> invar s' \<and> pending s' = rest"
  shows "reads d enc"
  using assms by (auto simp: reads_def)

lemma readsE:
  assumes "reads d enc" and "enc v = Inr bs" and "invar s" and "pending s = bs @ rest"
  obtains s' where "d s = Inr (v, s')" and "invar s'" and "pending s' = rest"
  using assms unfolding reads_def by blast

lemma reads_times:
  assumes d: "reads d enc"
  shows "enc_list enc vs = Inr bs \<Longrightarrow> invar s \<Longrightarrow> pending s = bs @ rest \<Longrightarrow>
    \<exists>s'. times_then d (length vs) s = Inr (vs, s') \<and> invar s' \<and> pending s' = rest"
proof (induction vs arbitrary: bs s)
  case (Cons v vs)
  then obtain xs ys where xs: "enc v = Inr xs" and ys: "enc_list enc vs = Inr ys" and bs: "bs = xs @ ys"
    by (auto elim!: and_then_InrE)
  from Cons.prems bs have "pending s = xs @ ys @ rest" by simp
  with d xs Cons.prems obtain t where "d s = Inr (v, t)" "invar t" "pending t = ys @ rest"
    by (blast elim: readsE)
  with Cons.IH [OF ys, of t] show ?case by auto
qed simp

end

text \<open>
  A stream that reports its end: a read past it throws and moves nothing. The bound on the size of a read is what every caller in the
  serializer keeps: a size near \<open>2 ^ 64\<close> would wrap around in the container stream's check.
\<close>

locale in_stream = in_source read get pending invar
  for read :: "nat \<Rightarrow> 's \<Rightarrow> (bytes \<times> 's) result" and get :: "'s \<Rightarrow> (byte \<times> 's) result"
    and pending :: "'s \<Rightarrow> bytes" and invar :: "'s \<Rightarrow> bool" +
  assumes read_short: "invar s \<Longrightarrow> length (pending s) < n \<Longrightarrow> n < 2 ^ 63 \<Longrightarrow>
      read n s = Inl Out_of_range"
    and get_short: "invar s \<Longrightarrow> pending s = [] \<Longrightarrow> get s = Inl Out_of_range"
begin

text \<open>
  \<open>tame d\<close>: on any pending bytes at all \<open>d\<close> either throws an
  exception or returns with a suffix of them still pending; it never leaves the language's rules.
\<close>

definition tame :: "('s \<Rightarrow> ('a \<times> 's) result) \<Rightarrow> bool" where
  "tame d \<longleftrightarrow>
     (\<forall>s. invar s \<longrightarrow>
        (case d s of Inl e \<Rightarrow> \<exists>c. e = Fc_exception c
         | Inr (v, s') \<Rightarrow> invar s' \<and> (\<exists>used. pending s = used @ pending s')))"

lemma tameI:
  assumes "\<And>s e. invar s \<Longrightarrow> d s = Inl e \<Longrightarrow> \<exists>c. e = Fc_exception c"
    and "\<And>s v s'. invar s \<Longrightarrow> d s = Inr (v, s') \<Longrightarrow> invar s' \<and> (\<exists>used. pending s = used @ pending s')"
  shows "tame d"
  using assms by (auto simp: tame_def split: sum.splits)

lemma tame_cong: "tame d \<Longrightarrow> (\<And>s. d' s = d s) \<Longrightarrow> tame d'"
  by (simp add: tame_def)

lemma tame_Inl: "tame d \<Longrightarrow> invar s \<Longrightarrow> d s = Inl e \<Longrightarrow> \<exists>c. e = Fc_exception c"
  by (fastforce simp: tame_def)

lemma tame_Inr:
  assumes "tame d" and "invar s" and "d s = Inr (v, s')"
  shows "invar s'" and "\<exists>used. pending s = used @ pending s'"
  using assms by (fastforce simp: tame_def)+

lemma tame_read:
  assumes n63: "n < 2 ^ 63"
  shows "tame (read n)"
proof (rule tameI)
  fix s e
  assume s: "invar s" and r: "read n s = Inl e"
  have "\<not> n \<le> length (pending s)"
  proof
    assume n: "n \<le> length (pending s)"
    have "pending s = take n (pending s) @ drop n (pending s)" by simp
    from read_ok [OF s this] n r show False by auto
  qed
  with read_short [OF s _ n63] r show "\<exists>c. e = Fc_exception c" by auto
next
  fix s v s'
  assume s: "invar s" and r: "read n s = Inr (v, s')"
  have n: "n \<le> length (pending s)"
    using read_short [OF s _ n63] r by (cases "n \<le> length (pending s)") auto
  have "pending s = take n (pending s) @ drop n (pending s)" by simp
  from read_ok [OF s this] n r show "invar s' \<and> (\<exists>used. pending s = used @ pending s')"
    by (auto intro: exI [of _ "take n (pending s)"])
qed

lemma tame_get: "tame get"
proof (rule tameI)
  fix s e
  assume s: "invar s" and r: "get s = Inl e"
  show "\<exists>c. e = Fc_exception c"
  proof (cases "pending s")
    case (Cons x ys)
    from get_ok [OF s this] r show ?thesis by auto
  qed (use get_short [OF s] r in auto)
next
  fix s v s'
  assume s: "invar s" and r: "get s = Inr (v, s')"
  show "invar s' \<and> (\<exists>used. pending s = used @ pending s')"
  proof (cases "pending s")
    case (Cons x ys)
    from get_ok [OF s this] r Cons show ?thesis by (auto intro: exI [of _ "[x]"])
  qed (use get_short [OF s] r in auto)
qed

lemma tame_then:
  assumes d: "tame d" and f: "\<And>x. tame (f x)"
  shows "tame (\<lambda>s. and_then (d s) (\<lambda>(x, s'). f x s'))"
proof (rule tameI)
  fix s e
  assume s: "invar s" and r: "and_then (d s) (\<lambda>(x, s'). f x s') = Inl e"
  show "\<exists>c. e = Fc_exception c"
  proof (cases "d s")
    case (Inl e')
    with r tame_Inl [OF d s] show ?thesis by auto
  next
    case (Inr p)
    with r tame_Inr [OF d s] tame_Inl [OF f] show ?thesis by (cases p) auto
  qed
next
  fix s v s'
  assume s: "invar s" and r: "and_then (d s) (\<lambda>(x, s'). f x s') = Inr (v, s')"
  then obtain x t where x: "d s = Inr (x, t)" and v: "f x t = Inr (v, s')"
    by (auto elim!: and_then_InrE)
  from tame_Inr [OF d s x] tame_Inr [OF f _ v] show "invar s' \<and> (\<exists>used. pending s = used @ pending s')"
    by (metis append_assoc)
qed

lemma tame_return: "tame (\<lambda>s. Inr (x, s))"
  by (rule tameI) auto

lemma tame_throw: "tame (\<lambda>s. Inl (Fc_exception c))"
  by (rule tameI) auto

lemma tame_assert: "tame d \<Longrightarrow> tame (\<lambda>s. fc_assert b (d s))"
  by (cases b) (simp_all add: tame_throw)

lemma tame_times: "tame d \<Longrightarrow> tame (times_then d n)"
proof (induction n)
  case 0
  then show ?case by (simp add: tame_def)
next
  case (Suc n)
  have "tame (\<lambda>s. and_then (d s) (\<lambda>(x, s').
      and_then (times_then d n s') (\<lambda>(xs, s''). Inr (x # xs, s''))))"
    by (intro tame_then tame_return Suc)
  then show ?case by (simp add: tame_def)
qed

lemmas tame_intros = tame_read tame_get tame_then tame_return tame_throw tame_assert tame_times

end

end
