(* ===== verification/Varint.thy ===== *)
theory Varint
  imports Stream_Interfaces
begin

text \<open>
  The variable-length integers of \<^verbatim>\<open>fc/io/varint.hpp\<close> and their \<^verbatim>\<open>pack\<close> and
  \<^verbatim>\<open>unpack\<close> in \<^verbatim>\<open>fc/io/raw.hpp\<close>: seven bits a byte, low bits first, the top bit set on
  every byte but the last; signed values are zig-zag coded first.
\<close>

subsection \<open>Packing\<close>

text \<open>The \<^verbatim>\<open>do ... while( val )\<close> loop, over the unsigned type the caller holds the value in.\<close>

function pack_varint_loop ::
    "(bytes \<Rightarrow> 's \<Rightarrow> 's result) \<Rightarrow> 'w::len word \<Rightarrow> 's \<Rightarrow> 's result" where
  "pack_varint_loop write val s =
     (let b = (ucast val :: byte) AND 0x7f;
          val' = drop_bit 7 val;
          b' = b OR (if val' > 0 then 0x80 else 0)
      in and_then (write [b'] s)
           (\<lambda>s'. if val' \<noteq> 0 then pack_varint_loop write val' s' else Inr s'))"
  by pat_completeness auto
termination
proof (relation "measure (\<lambda>(w, val, s). unat val)", goal_cases)
  case (2 wr val s b val' b' s')
  then have "val \<noteq> 0" by (metis drop_bit_of_0)
  then have "0 < unat val" by (simp add: unat_gt_0)
  with 2 show ?case by (simp add: unat_drop_bit)
qed simp

declare pack_varint_loop.simps [simp del]

definition pack_unsigned_int :: "(bytes \<Rightarrow> 's \<Rightarrow> 's result) \<Rightarrow> u32 \<Rightarrow> 's \<Rightarrow> 's result" where
  "pack_unsigned_int write v s = pack_varint_loop write (ucast v :: u64) s"

definition zigzag :: "u32 \<Rightarrow> u32" where
  "zigzag v = push_bit 1 v XOR signed_drop_bit 31 v"

definition pack_signed_int :: "(bytes \<Rightarrow> 's \<Rightarrow> 's result) \<Rightarrow> u32 \<Rightarrow> 's \<Rightarrow> 's result" where
  "pack_signed_int write v s = pack_varint_loop write (zigzag v) s"

subsection \<open>Unpacking\<close>

function unpack_unsigned_int_loop ::
    "('s \<Rightarrow> (byte \<times> 's) result) \<Rightarrow> u64 \<Rightarrow> nat \<Rightarrow> 's \<Rightarrow> (u32 \<times> 's) result" where
  "unpack_unsigned_int_loop get v by s =
     and_then (get s) (\<lambda>(b, s').
       let v' = v OR ucast (push_bit by (ucast (b AND 0x7f) :: u32)); by' = by + 7
       in if b AND 0x80 \<noteq> 0 \<and> by' < 32
          then unpack_unsigned_int_loop get v' by' s'
          else Inr (ucast v', s'))"
  by pat_completeness auto
termination
  by (relation "measure (\<lambda>(g, v, by, s). 32 - by)") auto

declare unpack_unsigned_int_loop.simps [simp del]

definition unpack_unsigned_int :: "('s \<Rightarrow> (byte \<times> 's) result) \<Rightarrow> 's \<Rightarrow> (u32 \<times> 's) result" where
  "unpack_unsigned_int get s = unpack_unsigned_int_loop get 0 0 s"

text \<open>
  The signed loop has no bound on the number of bytes; from the sixth byte on it shifts a 32-bit
  value by 32 or more, which the language leaves undefined.
\<close>

function unpack_signed_int_loop ::
    "('s \<Rightarrow> (byte \<times> 's) result) \<Rightarrow> u32 \<Rightarrow> nat \<Rightarrow> 's \<Rightarrow> (u32 \<times> 's) result" where
  "unpack_signed_int_loop get v by s =
     and_then (get s) (\<lambda>(b, s').
       if by \<ge> 32 then Inl Undefined_behaviour
       else let v' = v OR push_bit by (ucast (b AND 0x7f)); by' = by + 7
            in if b AND 0x80 \<noteq> 0 then unpack_signed_int_loop get v' by' s' else Inr (v', s'))"
  by pat_completeness auto
termination
  by (relation "measure (\<lambda>(g, v, by, s). 32 - by)") auto

declare unpack_signed_int_loop.simps [simp del]

definition unzigzag :: "u32 \<Rightarrow> u32" where
  "unzigzag v = ucast ((ucast (drop_bit 1 v) :: u64) XOR (ucast (NOT (v AND 1)) + 1))"

definition unpack_signed_int :: "('s \<Rightarrow> (byte \<times> 's) result) \<Rightarrow> 's \<Rightarrow> (u32 \<times> 's) result" where
  "unpack_signed_int get s =
     and_then (unpack_signed_int_loop get 0 0 s) (\<lambda>(v, s'). Inr (unzigzag v, s'))"

subsection \<open>The format\<close>

text \<open>The bytes of a number in the variable-length format.\<close>

fun varint_bytes :: "nat \<Rightarrow> bytes" where
  "varint_bytes n =
     (if n < 128 then [of_nat n] else of_nat (n mod 128 + 128) # varint_bytes (n div 128))"

declare varint_bytes.simps [simp del]

definition enc_unsigned_int :: "u32 \<Rightarrow> bytes result" where
  "enc_unsigned_int v = Inr (varint_bytes (unat v))"

definition enc_signed_int :: "u32 \<Rightarrow> bytes result" where
  "enc_signed_int v = Inr (varint_bytes (unat (zigzag v)))"

lemma varint_bytes_nonempty: "varint_bytes n \<noteq> []"
  by (subst varint_bytes.simps) simp

lemma varint_bytes_length: "n < 128 ^ k \<Longrightarrow> 0 < k \<Longrightarrow> length (varint_bytes n) \<le> k"
proof (induction k arbitrary: n)
  case (Suc k)
  show ?case
  proof (cases "n < 128")
    case True
    then show ?thesis by (simp add: varint_bytes.simps [of n])
  next
    case False
    with Suc.prems have "0 < k" "n div 128 < 128 ^ k"
      by (auto simp: less_mult_imp_div_less mult.commute intro: Nat.gr0I)
    with Suc.IH False show ?thesis by (simp add: varint_bytes.simps [of n])
  qed
qed simp

subsection \<open>Packing writes the format\<close>

lemma low_byte_and_127: "unat ((ucast (val :: 'w::len word) :: byte) AND 0x7f) = unat val mod 128"
proof -
  have "unat (ucast val :: byte) = unat val mod 256" by (simp add: unat_ucast_mod)
  then show ?thesis by (simp add: byte_and_127 mod_mod_cancel)
qed

lemma varint_last_byte:
  "unat (val :: 'w::len word) < 128 \<Longrightarrow> (ucast val :: byte) AND 0x7f = of_nat (unat val)"
  by (rule word_unat_eq_iff [THEN iffD2], subst unat_of_nat_lt) (simp_all add: low_byte_and_127)

lemma varint_next_byte:
  "((ucast (val :: 'w::len word) :: byte) AND 0x7f) OR 0x80 = of_nat (unat val mod 128 + 128)"
proof (rule word_unat_eq_iff [THEN iffD2])
  have "unat val mod 128 OR push_bit 7 1 = unat val mod 128 + 1 * 2 ^ 7"
    by (rule nat_or_shifted) simp
  moreover have "unat val mod 128 + 128 < 256"
    using mod_less_divisor [of 128 "unat val"] by linarith
  ultimately show "unat (((ucast val :: byte) AND 0x7f) OR 0x80) =
      unat (of_nat (unat val mod 128 + 128) :: byte)"
    by (subst unat_of_nat_lt) (simp_all add: unsigned_or_eq low_byte_and_127)
qed

lemma drop_bit_pos_iff: "(drop_bit 7 val > 0) = (drop_bit 7 val \<noteq> (0 :: 'w::len word))"
  by (simp add: word_greater_zero_iff)

lemma drop_bit_7_zero: "(drop_bit 7 val = (0 :: 'w::len word)) = (unat val < 128)"
  by (simp add: word_unat_eq_iff [of "drop_bit 7 val"] unat_drop_bit div_eq_0_iff)

lemma pack_varint_loop_step:
  "pack_varint_loop wr val s =
     (if unat val < 128 then wr [of_nat (unat val)] s
      else and_then (wr [of_nat (unat val mod 128 + 128)] s) (pack_varint_loop wr (drop_bit 7 val)))"
proof (cases "unat val < 128")
  case True
  then have "drop_bit 7 val = 0" by (simp add: drop_bit_7_zero)
  with True show ?thesis
    by (simp add: pack_varint_loop.simps [of wr val] varint_last_byte)
next
  case False
  then have "drop_bit 7 val \<noteq> 0" by (simp add: drop_bit_7_zero)
  with False show ?thesis
    by (simp add: pack_varint_loop.simps [of wr val] varint_next_byte drop_bit_pos_iff cong: and_then_cong)
qed

context out_stream
begin

lemma pack_varint_loop_writes:
  "room s (length (varint_bytes (unat val))) \<Longrightarrow>
     pack_varint_loop emit val s = emit (varint_bytes (unat val)) s"
proof (induction "unat val" arbitrary: val s rule: less_induct)
  case less
  show ?case
  proof (cases "unat val < 128")
    case True
    then show ?thesis by (simp add: pack_varint_loop_step [of _ val] varint_bytes.simps [of "unat val"])
  next
    case False
    let ?b = "of_nat (unat val mod 128 + 128) :: byte" and ?val = "drop_bit 7 val"
    have v: "unat ?val = unat val div 128" by (simp add: unat_drop_bit)
    have bs: "varint_bytes (unat val) = [?b] @ varint_bytes (unat ?val)"
      using False by (simp add: varint_bytes.simps [of "unat val"] v)
    have "and_then (emit [?b] s) (pack_varint_loop emit ?val) = emit ([?b] @ varint_bytes (unat ?val)) s"
      by (rule writes_seq) (use less False v bs in auto)
    then show ?thesis using False by (simp add: pack_varint_loop_step [of _ val] bs)
  qed
qed

lemma writes_unsigned_int: "writes (pack_unsigned_int emit) enc_unsigned_int"
  by (rule writesI) (auto simp: enc_unsigned_int_def pack_unsigned_int_def pack_varint_loop_writes
      unat_ucast_mod word_unat_lt [THEN less_trans])

lemma writes_signed_int: "writes (pack_signed_int emit) enc_signed_int"
  by (rule writesI) (auto simp: enc_signed_int_def pack_signed_int_def pack_varint_loop_writes)

end

subsection \<open>Unpacking inverts the format\<close>

lemma unat_shifted_digit:
  fixes b :: byte
  assumes "unat b mod 128 * 2 ^ k < 2 ^ 32"
  shows "unat (push_bit k (ucast (b AND 0x7f)) :: u32) = unat b mod 128 * 2 ^ k"
  using assms by (simp add: unsigned_push_bit_eq unat_ucast_mod byte_and_127)
    (simp add: push_bit_eq_mult take_bit_eq_mod)

lemma or_shifted_digit:
  fixes v :: "'w::len word" and y :: u32
  assumes "32 \<le> LENGTH('w)" and "unat v < 2 ^ k" and "unat y = d * 2 ^ k"
  shows "unat (v OR ucast y) = unat v + d * 2 ^ k"
proof -
  have "unat y < 2 ^ LENGTH('w)"
    using word_unat_lt [of y] assms(1) power_increasing [OF assms(1), of "2::nat"] by simp
  then have "unat (ucast y :: 'w word) = push_bit k d"
    using assms(3) by (simp add: unat_ucast_mod push_bit_eq_mult)
  with nat_or_shifted [OF assms(2)] show ?thesis by (simp add: unsigned_or_eq)
qed

lemma digit_step_bound:
  fixes v d b k :: nat
  assumes "v < 2 ^ k" and "d < 128"
  shows "v + d * 2 ^ k < 2 ^ (k + 7)"
proof -
  from assms have "v + d * 2 ^ k < (1 + d) * 2 ^ k" by simp
  also have "\<dots> \<le> 128 * 2 ^ k" using assms(2) by (intro mult_right_mono) auto
  finally show ?thesis by (simp add: power_add)
qed

lemma varint_digits: "(n :: nat) * 2 ^ k = n mod 128 * 2 ^ k + n div 128 * 2 ^ (k + 7)"
proof -
  have "n = n mod 128 + 128 * (n div 128)" by simp
  then have "n * 2 ^ k = (n mod 128 + 128 * (n div 128)) * 2 ^ k" by simp
  also have "\<dots> = n mod 128 * 2 ^ k + n div 128 * 2 ^ (k + 7)"
    by (simp only: add_mult_distrib power_add) simp
  finally show ?thesis .
qed

lemma varint_head:
  assumes "\<not> n < 128"
  shows "unat (of_nat (n mod 128 + 128) :: byte) = n mod 128 + 128"
    and "(of_nat (n mod 128 + 128) :: byte) AND 0x80 \<noteq> 0"
proof -
  have "n mod 128 + 128 < 256" using mod_less_divisor [of 128 n] by linarith
  then show u: "unat (of_nat (n mod 128 + 128) :: byte) = n mod 128 + 128"
    by (intro unat_of_nat_lt) simp
  show "(of_nat (n mod 128 + 128) :: byte) AND 0x80 \<noteq> 0"
    unfolding byte_and_128 u by simp
qed

lemma varint_tail_head: "n < 128 \<Longrightarrow> unat (of_nat n :: byte) = n"
  by (rule unat_of_nat_lt) simp

lemma shift_still_small:
  assumes "(n :: nat) * 2 ^ k < 2 ^ 32" and "\<not> n < 128"
  shows "k + 7 < 32"
proof -
  have "(2 :: nat) ^ (k + 7) \<le> n * 2 ^ k" using assms(2) by (simp add: power_add)
  also note assms(1)
  finally show ?thesis by (rule power_less_imp_less_exp [rotated]) simp
qed

context in_source
begin

lemma len64: "32 \<le> LENGTH(64)" and len32: "32 \<le> LENGTH(32)"
  by simp_all

text \<open>One turn of either loop: the last byte of a number, and a byte with more to come.\<close>

lemma varint_get_last:
  fixes v :: "'w::len word"
  assumes "32 \<le> LENGTH('w)" and n: "n < 128" and "n * 2 ^ k < 2 ^ 32" and "unat v < 2 ^ k"
    and "invar s" and "pending s = varint_bytes n @ rest"
  obtains t where "get s = Inr (of_nat n, t)" and "invar t" and "pending t = rest"
    and "(of_nat n :: byte) AND 0x80 = 0"
    and "unat (v OR ucast (push_bit k (ucast ((of_nat n :: byte) AND 0x7f)) :: u32)) = unat v + n * 2 ^ k"
proof -
  have u: "unat (of_nat n :: byte) = n" using n by (rule varint_tail_head)
  from assms obtain t where t: "get s = Inr (of_nat n, t)" "invar t" "pending t = rest"
    using get_ok [of s "of_nat n" rest] by (auto simp: varint_bytes.simps [of n])
  moreover have "unat (v OR ucast (push_bit k (ucast ((of_nat n :: byte) AND 0x7f)) :: u32)) =
      unat v + n * 2 ^ k"
    by (rule or_shifted_digit) (use assms unat_shifted_digit [of "of_nat n" k] u in auto)
  moreover have "(of_nat n :: byte) AND 0x80 = 0" unfolding byte_and_128 u by (rule n)
  ultimately show thesis using that by blast
qed

lemma varint_get_next:
  fixes v :: "'w::len word"
  assumes "32 \<le> LENGTH('w)" and n: "\<not> n < 128" and b32: "n * 2 ^ k < 2 ^ 32" and "unat v < 2 ^ k"
    and "invar s" and "pending s = varint_bytes n @ rest"
  obtains t b v' where "get s = Inr (b, t)" and "invar t" and "pending t = varint_bytes (n div 128) @ rest"
    and "b AND 0x80 \<noteq> 0" and "v' = v OR ucast (push_bit k (ucast (b AND 0x7f)) :: u32)"
    and "unat v' < 2 ^ (k + 7)" and "unat v' + n div 128 * 2 ^ (k + 7) = unat v + n * 2 ^ k"
    and "n div 128 * 2 ^ (k + 7) < 2 ^ 32" and "n div 128 < n" and "k + 7 < 32"
proof -
  let ?b = "of_nat (n mod 128 + 128) :: byte"
  let ?v = "v OR ucast (push_bit k (ucast (?b AND 0x7f)) :: u32)"
  note b = varint_head [OF n]
  from n assms obtain t where t: "get s = Inr (?b, t)" "invar t"
      "pending t = varint_bytes (n div 128) @ rest"
    using get_ok [of s ?b "varint_bytes (n div 128) @ rest"] by (auto simp: varint_bytes.simps [of n])
  have d: "n mod 128 * 2 ^ k < 2 ^ 32" and r: "n div 128 * 2 ^ (k + 7) < 2 ^ 32"
    using b32 varint_digits [of n k] by linarith+
  have v: "unat ?v = unat v + n mod 128 * 2 ^ k"
    by (rule or_shifted_digit) (use assms d unat_shifted_digit [of ?b k] b in auto)
  have v7: "unat ?v < 2 ^ (k + 7)"
    unfolding v by (rule digit_step_bound) (use assms in auto)
  have sum: "unat ?v + n div 128 * 2 ^ (k + 7) = unat v + n * 2 ^ k"
    using v varint_digits [of n k] by linarith
  have "n div 128 < n" using n by simp
  with that [OF t b(2) refl v7 sum r] shift_still_small [OF b32 n] show thesis by blast
qed

lemma unpack_unsigned_int_loop_reads:
  assumes "n * 2 ^ k < 2 ^ 32" and "unat v < 2 ^ k" and "invar s" and "pending s = varint_bytes n @ rest"
  shows "\<exists>s'. unpack_unsigned_int_loop get v k s = Inr (of_nat (unat v + n * 2 ^ k), s') \<and>
    invar s' \<and> pending s' = rest"
  using assms
proof (induction n arbitrary: v k s rule: less_induct)
  case (less n)
  show ?case
  proof (cases "n < 128")
    case True
    obtain t where "get s = Inr (of_nat n, t)" "invar t" "pending t = rest"
        "(of_nat n :: byte) AND 0x80 = 0"
        "unat (v OR ucast (push_bit k (ucast ((of_nat n :: byte) AND 0x7f)) :: u32)) = unat v + n * 2 ^ k"
      by (rule varint_get_last [OF len64 True less.prems])
    moreover from this(5) have "ucast (v OR ucast (push_bit k (ucast ((of_nat n :: byte) AND 0x7f)) :: u32)) =
        (of_nat (unat v + n * 2 ^ k) :: u32)"
      by (rule ucast_unat_eq)
    ultimately show ?thesis by (simp add: unpack_unsigned_int_loop.simps [of get v] Let_def)
  next
    case False
    obtain t b v' where t: "get s = Inr (b, t)" "invar t"
        "pending t = varint_bytes (n div 128) @ rest" "b AND 0x80 \<noteq> 0"
        "v' = v OR ucast (push_bit k (ucast (b AND 0x7f)) :: u32)" "unat v' < 2 ^ (k + 7)"
        "unat v' + n div 128 * 2 ^ (k + 7) = unat v + n * 2 ^ k"
        "n div 128 * 2 ^ (k + 7) < 2 ^ 32" "n div 128 < n" "k + 7 < 32"
      by (rule varint_get_next [OF len64 False less.prems])
    then have step: "unpack_unsigned_int_loop get v k s = unpack_unsigned_int_loop get v' (k + 7) t"
      by (simp add: unpack_unsigned_int_loop.simps [of get v] Let_def)
    from less.IH [OF t(9,8,6,2,3)] show ?thesis unfolding step t(7) .
  qed
qed

lemma reads_unsigned_int: "reads (unpack_unsigned_int get) enc_unsigned_int"
proof (rule readsI)
  fix v bs s rest
  assume "enc_unsigned_int v = Inr bs" and "invar s" and "pending s = bs @ rest"
  then have "pending s = varint_bytes (unat v) @ rest" by (simp add: enc_unsigned_int_def)
  moreover have "unat v * 2 ^ 0 < 2 ^ 32" using word_unat_lt [of v] by simp
  ultimately show "\<exists>s'. unpack_unsigned_int get s = Inr (v, s') \<and> invar s' \<and> pending s' = rest"
    using unpack_unsigned_int_loop_reads [of "unat v" 0 0 s rest] \<open>invar s\<close>
    by (simp add: unpack_unsigned_int_def)
qed

lemma unpack_signed_int_loop_reads:
  assumes "n * 2 ^ k < 2 ^ 32" and "unat v < 2 ^ k" and "invar s" and "pending s = varint_bytes n @ rest"
    and "k < 32"
  shows "\<exists>s'. unpack_signed_int_loop get v k s = Inr (of_nat (unat v + n * 2 ^ k), s') \<and>
    invar s' \<and> pending s' = rest"
  using assms
proof (induction n arbitrary: v k s rule: less_induct)
  case (less n)
  show ?case
  proof (cases "n < 128")
    case True
    obtain t where "get s = Inr (of_nat n, t)" "invar t" "pending t = rest"
        "(of_nat n :: byte) AND 0x80 = 0"
        "unat (v OR ucast (push_bit k (ucast ((of_nat n :: byte) AND 0x7f)) :: u32)) = unat v + n * 2 ^ k"
      by (rule varint_get_last [OF len32 True less.prems(1-4)])
    moreover from this(5) have "v OR push_bit k (ucast ((of_nat n :: byte) AND 0x7f)) =
        (of_nat (unat v + n * 2 ^ k) :: u32)"
      by (metis ucast_unat_eq ucast_id)
    ultimately show ?thesis
      using less.prems(5) by (simp add: unpack_signed_int_loop.simps [of get v] Let_def)
  next
    case False
    obtain t b v' where t: "get s = Inr (b, t)" "invar t"
        "pending t = varint_bytes (n div 128) @ rest" "b AND 0x80 \<noteq> 0"
        "v' = v OR ucast (push_bit k (ucast (b AND 0x7f)) :: u32)" "unat v' < 2 ^ (k + 7)"
        "unat v' + n div 128 * 2 ^ (k + 7) = unat v + n * 2 ^ k"
        "n div 128 * 2 ^ (k + 7) < 2 ^ 32" "n div 128 < n" "k + 7 < 32"
      by (rule varint_get_next [OF len32 False less.prems(1-4)])
    then have step: "unpack_signed_int_loop get v k s = unpack_signed_int_loop get v' (k + 7) t"
      using less.prems(5) by (simp add: unpack_signed_int_loop.simps [of get v] Let_def)
    from less.IH [OF t(9,8,6,2,3,10)] show ?thesis unfolding step t(7) .
  qed
qed

end

lemma zigzag_bit: "n < 32 \<Longrightarrow> bit (zigzag v) n = ((0 < n \<and> bit v (n - 1)) \<noteq> bit v 31)"
  unfolding zigzag_def bit_xor_iff bit_push_bit_iff bit_signed_drop_bit_iff
  by (auto simp: not_less_eq_eq Suc_le_eq)

lemma unzigzag_alt: "unzigzag z = drop_bit 1 z XOR (if bit z 0 then -1 else 0)"
proof (cases "bit z 0")
  case True
  then have "z AND 1 = 1" by (simp add: and_one_eq bit_0 odd_iff_mod_2_eq_one)
  then have "ucast (NOT (z AND 1)) + 1 = (mask 32 :: u64)" by (simp add: mask_eq_exp_minus_1)
  then show ?thesis using True
    by (auto simp: unzigzag_def intro!: bit_word_eqI)
       (auto simp: bit_simps)
next
  case False
  then have "z AND 1 = 0" by (simp add: and_one_eq bit_0 even_iff_mod_2_eq_zero)
  then have "ucast (NOT (z AND 1)) + 1 = (push_bit 32 1 :: u64)"
    by (simp add: unsigned_minus_1_eq_mask mask_eq_exp_minus_1)
  then have "unzigzag z = ucast ((ucast (drop_bit 1 z) :: u64) XOR push_bit 32 1)"
    by (simp only: unzigzag_def)
  also have "\<dots> = drop_bit 1 z"
    by (rule bit_word_eqI)
      (simp add: bit_xor_iff bit_unsigned_iff bit_drop_bit_eq bit_push_bit_iff del: push_bit_of_1)
  finally show ?thesis using False by simp
qed

lemma unzigzag_zigzag: "unzigzag (zigzag v) = v"
proof (rule bit_word_eqI)
  fix n
  assume "n < LENGTH(32)"
  then have n: "n < 32" by simp
  have "bit (unzigzag (zigzag v)) n = (bit (zigzag v) (Suc n) \<noteq> bit (zigzag v) 0)"
    using n by (simp add: unzigzag_alt bit_xor_iff bit_drop_bit_eq)
  also have "\<dots> = bit v n"
  proof (cases "Suc n < 32")
    case True
    then show ?thesis by (auto simp: zigzag_bit)
  next
    case False
    with n have n31: "n = 31" by simp
    have "\<not> bit (zigzag v) 32" using bit_imp_le_length [of "zigzag v" 32] by auto
    then show ?thesis by (simp add: zigzag_bit n31)
  qed
  finally show "bit (unzigzag (zigzag v)) n = bit v n" .
qed

context in_source
begin

lemma reads_signed_int: "reads (unpack_signed_int get) enc_signed_int"
proof (rule readsI)
  fix v bs s rest
  assume "enc_signed_int v = Inr bs" and "invar s" and "pending s = bs @ rest"
  then have "pending s = varint_bytes (unat (zigzag v)) @ rest" by (simp add: enc_signed_int_def)
  moreover have "unat (zigzag v) * 2 ^ 0 < 2 ^ 32" using word_unat_lt [of "zigzag v"] by simp
  ultimately show "\<exists>s'. unpack_signed_int get s = Inr (v, s') \<and> invar s' \<and> pending s' = rest"
    using unpack_signed_int_loop_reads [of "unat (zigzag v)" 0 0 s rest] \<open>invar s\<close>
    by (auto simp: unpack_signed_int_def unzigzag_zigzag)
qed

end

context in_stream
begin

lemma tame_unsigned_int: "tame (unpack_unsigned_int get)"
proof -
  have "tame (unpack_unsigned_int_loop get v k)" for v k
  proof (induction "32 - k" arbitrary: v k rule: less_induct)
    case less
    have "tame (\<lambda>s'. let v' = v OR ucast (push_bit k (ucast (b AND 0x7f) :: u32)); k' = k + 7
        in if b AND 0x80 \<noteq> 0 \<and> k' < 32 then unpack_unsigned_int_loop get v' k' s'
           else Inr (ucast v', s'))" for b
    proof (cases "b AND 0x80 \<noteq> 0 \<and> k + 7 < 32")
      case True
      then have "32 - (k + 7) < 32 - k" by linarith
      from less.hyps [OF this] True show ?thesis by (simp add: Let_def)
    next
      case False
      then show ?thesis by (simp add: Let_def tame_return del: de_Morgan_conj)
    qed
    from tame_then [OF tame_get, of "\<lambda>b s'. _ b s'", OF this] show ?case
      by (rule tame_cong) (rule unpack_unsigned_int_loop.simps)
  qed
  from this [of 0 0] show ?thesis
    by (rule tame_cong) (rule unpack_unsigned_int_def)
qed

end

end
