(* ===== verification/Raw.thy ===== *)
theory Raw
  imports Varint
begin

text \<open>
  The binary serializer of \<^verbatim>\<open>fc/io/raw.hpp\<close>. Every template takes the stream's
  \<^verbatim>\<open>write\<close> (\<open>wr\<close>), or its \<^verbatim>\<open>read\<close> and \<^verbatim>\<open>get\<close> (\<open>rd\<close>, \<open>gt\<close>), and
  the packer or unpacker of its element type, as the template instantiation would. An unpacker of a
  type that keeps what its target held before takes that value as an argument.
\<close>

type_synonym 's writer = "bytes \<Rightarrow> 's \<Rightarrow> 's result"
type_synonym 's reader = "nat \<Rightarrow> 's \<Rightarrow> (bytes \<times> 's) result"
type_synonym 's getter = "'s \<Rightarrow> (byte \<times> 's) result"
type_synonym ('a, 's) unpacker = "'s \<Rightarrow> ('a \<times> 's) result"

definition MAX_NUM_ARRAY_ELEMENTS :: nat where
  "MAX_NUM_ARRAY_ELEMENTS = 1024 * 1024"

definition MAX_SIZE_OF_BYTE_ARRAYS :: nat where
  "MAX_SIZE_OF_BYTE_ARRAYS = 20 * 1024 * 1024"

subsection \<open>Times\<close>

definition pack_time_point_sec :: "'s writer \<Rightarrow> u32 \<Rightarrow> 's \<Rightarrow> 's result" where
  "pack_time_point_sec wr tp s = wr (le_bytes 4 (unat tp)) s"

text \<open>The seconds become microseconds of a \<^verbatim>\<open>time_point\<close> and are divided back.\<close>

definition unpack_time_point_sec :: "'s reader \<Rightarrow> (u32, 's) unpacker" where
  "unpack_time_point_sec rd s =
     and_then (rd 4 s) (\<lambda>(d, s'). Inr (of_int (int (of_le_bytes d) * 1000000 div 1000000), s'))"

definition pack_time_point :: "'s writer \<Rightarrow> u64 \<Rightarrow> 's \<Rightarrow> 's result" where
  "pack_time_point wr usec s = wr (le_bytes 8 (unat usec)) s"

definition unpack_time_point :: "'s reader \<Rightarrow> (u64, 's) unpacker" where
  "unpack_time_point rd s = and_then (rd 8 s) (\<lambda>(d, s'). Inr (of_nat (of_le_bytes d), s'))"

definition pack_microseconds :: "'s writer \<Rightarrow> u64 \<Rightarrow> 's \<Rightarrow> 's result" where
  "pack_microseconds wr usec s = wr (le_bytes 8 (unat usec)) s"

definition unpack_microseconds :: "'s reader \<Rightarrow> (u64, 's) unpacker" where
  "unpack_microseconds rd s = and_then (rd 8 s) (\<lambda>(d, s'). Inr (of_nat (of_le_bytes d), s'))"

subsection \<open>Arrays\<close>

text \<open>Arrays of a class type element by element, with no length in front.\<close>

definition pack_array :: "('a \<Rightarrow> 's \<Rightarrow> 's result) \<Rightarrow> 'a list \<Rightarrow> 's \<Rightarrow> 's result" where
  "pack_array p v s = each_then p v s"

definition unpack_array :: "nat \<Rightarrow> ('a, 's) unpacker \<Rightarrow> ('a list, 's) unpacker" where
  "unpack_array n u s = times_then u n s"

text \<open>Built-in arrays \<^verbatim>\<open>T (&v)[N]\<close>: the length is written and compared.\<close>

definition pack_c_array :: "'s writer \<Rightarrow> ('a \<Rightarrow> 's \<Rightarrow> 's result) \<Rightarrow> 'a list \<Rightarrow> 's \<Rightarrow> 's result" where
  "pack_c_array wr p v s =
     and_then (pack_unsigned_int wr (of_nat (length v)) s) (each_then p v)"

definition unpack_c_array :: "'s getter \<Rightarrow> nat \<Rightarrow> ('a, 's) unpacker \<Rightarrow> ('a list, 's) unpacker" where
  "unpack_c_array gt n u s =
     and_then (unpack_unsigned_int gt s) (\<lambda>(size, s').
       fc_assert (unat size = n) (times_then u n s'))"

subsection \<open>Scalars, booleans, byte strings\<close>

text \<open>\<^verbatim>\<open>if_class<false_type>\<close>: the \<open>n\<close> bytes of the object, as the number they denote.\<close>

definition pack_scalar :: "'s writer \<Rightarrow> nat \<Rightarrow> nat \<Rightarrow> 's \<Rightarrow> 's result" where
  "pack_scalar wr n v s = wr (le_bytes n v) s"

definition unpack_scalar :: "'s reader \<Rightarrow> nat \<Rightarrow> (nat, 's) unpacker" where
  "unpack_scalar rd n s = and_then (rd n s) (\<lambda>(d, s'). Inr (of_le_bytes d, s'))"

definition pack_bool :: "'s writer \<Rightarrow> bool \<Rightarrow> 's \<Rightarrow> 's result" where
  "pack_bool wr v s = pack_scalar wr 1 (if v then 1 else 0) s"

definition unpack_bool :: "'s reader \<Rightarrow> (bool, 's) unpacker" where
  "unpack_bool rd s =
     and_then (unpack_scalar rd 1 s) (\<lambda>(b, s').
       fc_assert ((of_nat b :: byte) AND NOT 1 = 0) (Inr (b \<noteq> 0, s')))"

definition pack_bytes :: "'s writer \<Rightarrow> bytes \<Rightarrow> 's \<Rightarrow> 's result" where
  "pack_bytes wr value s =
     fc_assert (length value \<le> MAX_SIZE_OF_BYTE_ARRAYS)
       (and_then (pack_unsigned_int wr (of_nat (length value)) s)
         (\<lambda>s'. if length value \<noteq> 0 then wr value s' else Inr s'))"

definition unpack_bytes :: "'s reader \<Rightarrow> 's getter \<Rightarrow> (bytes, 's) unpacker" where
  "unpack_bytes rd gt s =
     and_then (unpack_unsigned_int gt s) (\<lambda>(size, s').
       fc_assert (unat size \<le> MAX_SIZE_OF_BYTE_ARRAYS)
         (if unat size \<noteq> 0 then rd (unat size) s' else Inr ([], s')))"

definition pack_string :: "'s writer \<Rightarrow> bytes \<Rightarrow> 's \<Rightarrow> 's result" where
  "pack_string wr v s =
     fc_assert (length v \<le> MAX_SIZE_OF_BYTE_ARRAYS)
       (and_then (pack_unsigned_int wr (of_nat (length v)) s)
         (\<lambda>s'. if length v \<noteq> 0 then wr v s' else Inr s'))"

definition unpack_string :: "'s reader \<Rightarrow> 's getter \<Rightarrow> (bytes, 's) unpacker" where
  "unpack_string rd gt s =
     and_then (unpack_bytes rd gt s) (\<lambda>(tmp, s'). Inr (if length tmp \<noteq> 0 then tmp else [], s'))"

text \<open>\<^verbatim>\<open>shared_string\<close>: the target must be empty before.\<close>

definition unpack_shared_string :: "'s reader \<Rightarrow> 's getter \<Rightarrow> bytes \<Rightarrow> (bytes, 's) unpacker" where
  "unpack_shared_string rd gt v s =
     and_then (unpack_bytes rd gt s) (\<lambda>(tmp, s').
       fc_assert (length v = 0) (Inr (if length tmp \<noteq> 0 then v @ tmp else v, s')))"

subsection \<open>Optional values and pointers\<close>

definition pack_optional :: "'s writer \<Rightarrow> ('a \<Rightarrow> 's \<Rightarrow> 's result) \<Rightarrow> 'a option \<Rightarrow> 's \<Rightarrow> 's result" where
  "pack_optional wr p v s =
     and_then (pack_bool wr (v \<noteq> None) s)
       (\<lambda>s'. case v of Some x \<Rightarrow> p x s' | None \<Rightarrow> Inr s')"

text \<open>When the flag is false, the target keeps the value \<open>v\<close> it held.\<close>

definition unpack_optional ::
    "'s reader \<Rightarrow> ('a, 's) unpacker \<Rightarrow> 'a option \<Rightarrow> ('a option, 's) unpacker" where
  "unpack_optional rd u v s =
     and_then (unpack_bool rd s) (\<lambda>(b, s').
       if b then and_then (u s') (\<lambda>(x, s''). Inr (Some x, s'')) else Inr (v, s'))"

definition pack_shared_ptr :: "'s writer \<Rightarrow> ('a \<Rightarrow> 's \<Rightarrow> 's result) \<Rightarrow> 'a option \<Rightarrow> 's \<Rightarrow> 's result" where
  "pack_shared_ptr wr p v s =
     and_then (pack_bool wr (v \<noteq> None) s)
       (\<lambda>s'. case v of Some x \<Rightarrow> p x s' | None \<Rightarrow> Inr s')"

definition unpack_shared_ptr ::
    "'s reader \<Rightarrow> ('a, 's) unpacker \<Rightarrow> 'a option \<Rightarrow> ('a option, 's) unpacker" where
  "unpack_shared_ptr rd u v s =
     and_then (unpack_bool rd s) (\<lambda>(b, s').
       if b then and_then (u s') (\<lambda>(x, s''). Inr (Some x, s'')) else Inr (v, s'))"

subsection \<open>Containers\<close>

definition pack_vector :: "'s writer \<Rightarrow> ('a \<Rightarrow> 's \<Rightarrow> 's result) \<Rightarrow> 'a list \<Rightarrow> 's \<Rightarrow> 's result" where
  "pack_vector wr p value s =
     fc_assert (length value \<le> MAX_NUM_ARRAY_ELEMENTS)
       (and_then (pack_unsigned_int wr (of_nat (length value)) s) (each_then p value))"

definition unpack_vector :: "'s getter \<Rightarrow> ('a, 's) unpacker \<Rightarrow> ('a list, 's) unpacker" where
  "unpack_vector gt u s =
     and_then (unpack_unsigned_int gt s) (\<lambda>(size, s').
       fc_assert (unat size \<le> MAX_NUM_ARRAY_ELEMENTS) (times_then u (unat size) s'))"

definition pack_deque :: "'s writer \<Rightarrow> ('a \<Rightarrow> 's \<Rightarrow> 's result) \<Rightarrow> 'a list \<Rightarrow> 's \<Rightarrow> 's result" where
  "pack_deque wr p value s =
     fc_assert (length value \<le> MAX_NUM_ARRAY_ELEMENTS)
       (and_then (pack_unsigned_int wr (of_nat (length value)) s) (each_then p value))"

definition unpack_deque :: "'s getter \<Rightarrow> ('a, 's) unpacker \<Rightarrow> ('a list, 's) unpacker" where
  "unpack_deque gt u s =
     and_then (unpack_unsigned_int gt s) (\<lambda>(size, s').
       fc_assert (unat size \<le> MAX_NUM_ARRAY_ELEMENTS) (times_then u (unat size) s'))"

definition pack_list :: "'s writer \<Rightarrow> ('a \<Rightarrow> 's \<Rightarrow> 's result) \<Rightarrow> 'a list \<Rightarrow> 's \<Rightarrow> 's result" where
  "pack_list wr p value s =
     fc_assert (length value \<le> MAX_NUM_ARRAY_ELEMENTS)
       (and_then (pack_unsigned_int wr (of_nat (length value)) s) (each_then p value))"

text \<open>The new elements go behind those the list already had.\<close>

definition unpack_list :: "'s getter \<Rightarrow> ('a, 's) unpacker \<Rightarrow> 'a list \<Rightarrow> ('a list, 's) unpacker" where
  "unpack_list gt u value s =
     and_then (unpack_unsigned_int gt s) (\<lambda>(size, s').
       fc_assert (unat size \<le> MAX_NUM_ARRAY_ELEMENTS)
         (and_then (times_then u (unat size) s') (\<lambda>(xs, s''). Inr (value @ xs, s''))))"

text \<open>
  An ordered set is the sorted list of its elements, an ordered map the list of its pairs sorted
  by key; \<^verbatim>\<open>insert\<close> leaves the container alone when the element or key is present.
\<close>

definition set_insert :: "'a::linorder \<Rightarrow> 'a list \<Rightarrow> 'a list" where
  "set_insert x value = (if x \<in> set value then value else insort x value)"

definition map_insert :: "'k::linorder \<times> 'v \<Rightarrow> ('k \<times> 'v) list \<Rightarrow> ('k \<times> 'v) list" where
  "map_insert x value = (if fst x \<in> fst ` set value then value else insort_key fst x value)"

definition pack_set :: "'s writer \<Rightarrow> ('a \<Rightarrow> 's \<Rightarrow> 's result) \<Rightarrow> 'a::linorder list \<Rightarrow> 's \<Rightarrow> 's result" where
  "pack_set wr p value s =
     fc_assert (length value \<le> MAX_NUM_ARRAY_ELEMENTS)
       (and_then (pack_unsigned_int wr (of_nat (length value)) s) (each_then p value))"

definition unpack_set ::
    "'s getter \<Rightarrow> ('a, 's) unpacker \<Rightarrow> 'a::linorder list \<Rightarrow> ('a list, 's) unpacker" where
  "unpack_set gt u value s =
     and_then (unpack_unsigned_int gt s) (\<lambda>(size, s').
       fc_assert (unat size \<le> MAX_NUM_ARRAY_ELEMENTS)
         (and_then (times_then u (unat size) s') (\<lambda>(xs, s''). Inr (fold set_insert xs value, s''))))"

definition pack_pair ::
    "('k \<Rightarrow> 's \<Rightarrow> 's result) \<Rightarrow> ('v \<Rightarrow> 's \<Rightarrow> 's result) \<Rightarrow> 'k \<times> 'v \<Rightarrow> 's \<Rightarrow> 's result" where
  "pack_pair p q value s = and_then (p (fst value) s) (q (snd value))"

definition unpack_pair :: "('k, 's) unpacker \<Rightarrow> ('v, 's) unpacker \<Rightarrow> ('k \<times> 'v, 's) unpacker" where
  "unpack_pair u w s =
     and_then (u s) (\<lambda>(k, s'). and_then (w s') (\<lambda>(v, s''). Inr ((k, v), s'')))"

definition pack_map ::
    "'s writer \<Rightarrow> ('k \<Rightarrow> 's \<Rightarrow> 's result) \<Rightarrow> ('v \<Rightarrow> 's \<Rightarrow> 's result) \<Rightarrow>
      ('k::linorder \<times> 'v) list \<Rightarrow> 's \<Rightarrow> 's result" where
  "pack_map wr p q value s =
     fc_assert (length value \<le> MAX_NUM_ARRAY_ELEMENTS)
       (and_then (pack_unsigned_int wr (of_nat (length value)) s) (each_then (pack_pair p q) value))"

definition unpack_map ::
    "'s getter \<Rightarrow> ('k::linorder, 's) unpacker \<Rightarrow> ('v, 's) unpacker \<Rightarrow> (('k \<times> 'v) list, 's) unpacker" where
  "unpack_map gt u w s =
     and_then (unpack_unsigned_int gt s) (\<lambda>(size, s').
       fc_assert (unat size \<le> MAX_NUM_ARRAY_ELEMENTS)
         (and_then (times_then (unpack_pair u w) (unat size) s')
           (\<lambda>(xs, s''). Inr (fold map_insert xs [], s''))))"

text \<open>
  The unordered containers are packed in their own iteration order, which the library does not
  fix: the packer takes the elements in that order, the unpacker returns the set or the map.
\<close>

definition pack_unordered_set :: "'s writer \<Rightarrow> ('a \<Rightarrow> 's \<Rightarrow> 's result) \<Rightarrow> 'a list \<Rightarrow> 's \<Rightarrow> 's result" where
  "pack_unordered_set wr p value s =
     fc_assert (length value \<le> MAX_NUM_ARRAY_ELEMENTS)
       (and_then (pack_unsigned_int wr (of_nat (length value)) s) (each_then p value))"

definition unpack_unordered_set :: "'s getter \<Rightarrow> ('a, 's) unpacker \<Rightarrow> ('a set, 's) unpacker" where
  "unpack_unordered_set gt u s =
     and_then (unpack_unsigned_int gt s) (\<lambda>(size, s').
       fc_assert (unat size \<le> MAX_NUM_ARRAY_ELEMENTS)
         (and_then (times_then u (unat size) s') (\<lambda>(xs, s''). Inr (set xs, s''))))"

definition pack_unordered_map ::
    "'s writer \<Rightarrow> ('k \<Rightarrow> 's \<Rightarrow> 's result) \<Rightarrow> ('v \<Rightarrow> 's \<Rightarrow> 's result) \<Rightarrow> ('k \<times> 'v) list \<Rightarrow> 's \<Rightarrow> 's result" where
  "pack_unordered_map wr p q value s =
     fc_assert (length value \<le> MAX_NUM_ARRAY_ELEMENTS)
       (and_then (pack_unsigned_int wr (of_nat (length value)) s) (each_then (pack_pair p q) value))"

text \<open>\<^verbatim>\<open>insert\<close> keeps the first value of a key.\<close>

definition unpack_unordered_map ::
    "'s getter \<Rightarrow> ('k, 's) unpacker \<Rightarrow> ('v, 's) unpacker \<Rightarrow> ('k \<rightharpoonup> 'v, 's) unpacker" where
  "unpack_unordered_map gt u w s =
     and_then (unpack_unsigned_int gt s) (\<lambda>(size, s').
       fc_assert (unat size \<le> MAX_NUM_ARRAY_ELEMENTS)
         (and_then (times_then (unpack_pair u w) (unat size) s') (\<lambda>(xs, s''). Inr (map_of xs, s''))))"

end
