(* ===== verification/Raw_Types.thy ===== *)
theory Raw_Types
  imports Raw
begin

text \<open>
  The template dispatch of the serializer. A \<open>raw_type\<close> is the type argument of
  \<^verbatim>\<open>pack\<close> and \<^verbatim>\<open>unpack\<close>, a \<open>raw_value\<close> a value of it; \<open>pack_val\<close> and
  \<open>unpack_val\<close> choose the overload and pass it the packers of the element types, as the
  compiler does. The wire format \<open>enc_val\<close> is the specification: what bytes a value has,
  whatever the stream.
\<close>

subsection \<open>Types and values\<close>

datatype raw_type =
    TScalar nat
  | TBool
  | TUnsigned_int
  | TSigned_int
  | TTime_point_sec
  | TBytes
  | TString
  | TEnum
  | TOptional raw_type
  | TArray nat raw_type
  | TCArray nat raw_type
  | TVector raw_type
  | TPair raw_type raw_type
  | TStruct "raw_type list"
  | TVariant "raw_type list"

datatype raw_value =
    VScalar nat
  | VBool bool
  | VInt u32
  | VBytes bytes
  | VOptional "raw_value option"
  | VList "raw_value list"
  | VPair raw_value raw_value
  | VStruct "raw_value list"
  | VVariant nat raw_value

text \<open>
  A value that is not of the type (no such call compiles) has no encoding and is not packed. An
  enum is packed as its 64-bit value.
\<close>

abbreviation ill_typed :: "'a result" where
  "ill_typed \<equiv> Inl Undefined_behaviour"

subsection \<open>Dispatch\<close>

function pack_val :: "'s writer \<Rightarrow> raw_type \<Rightarrow> raw_value \<Rightarrow> 's \<Rightarrow> 's result"
  and pack_fields :: "'s writer \<Rightarrow> raw_type list \<Rightarrow> raw_value list \<Rightarrow> 's \<Rightarrow> 's result" where
  "pack_val wr (TScalar n) x s =
     (case x of VScalar v \<Rightarrow> if v < 256 ^ n then pack_scalar wr n v s else ill_typed | _ \<Rightarrow> ill_typed)"
| "pack_val wr TBool x s = (case x of VBool v \<Rightarrow> pack_bool wr v s | _ \<Rightarrow> ill_typed)"
| "pack_val wr TUnsigned_int x s = (case x of VInt v \<Rightarrow> pack_unsigned_int wr v s | _ \<Rightarrow> ill_typed)"
| "pack_val wr TSigned_int x s = (case x of VInt v \<Rightarrow> pack_signed_int wr v s | _ \<Rightarrow> ill_typed)"
| "pack_val wr TTime_point_sec x s = (case x of VInt v \<Rightarrow> pack_time_point_sec wr v s | _ \<Rightarrow> ill_typed)"
| "pack_val wr TBytes x s = (case x of VBytes v \<Rightarrow> pack_bytes wr v s | _ \<Rightarrow> ill_typed)"
| "pack_val wr TString x s = (case x of VBytes v \<Rightarrow> pack_string wr v s | _ \<Rightarrow> ill_typed)"
| "pack_val wr TEnum x s =
     (case x of VScalar v \<Rightarrow> if v < 256 ^ 8 then pack_scalar wr 8 v s else ill_typed | _ \<Rightarrow> ill_typed)"
| "pack_val wr (TOptional t) x s =
     (case x of VOptional v \<Rightarrow> pack_optional wr (pack_val wr t) v s | _ \<Rightarrow> ill_typed)"
| "pack_val wr (TArray n t) x s =
     (case x of VList vs \<Rightarrow> if length vs = n then pack_array (pack_val wr t) vs s else ill_typed
      | _ \<Rightarrow> ill_typed)"
| "pack_val wr (TCArray n t) x s =
     (case x of VList vs \<Rightarrow> if length vs = n then pack_c_array wr (pack_val wr t) vs s else ill_typed
      | _ \<Rightarrow> ill_typed)"
| "pack_val wr (TVector t) x s =
     (case x of VList vs \<Rightarrow> pack_vector wr (pack_val wr t) vs s | _ \<Rightarrow> ill_typed)"
| "pack_val wr (TPair t u) x s =
     (case x of VPair v w \<Rightarrow> pack_pair (pack_val wr t) (pack_val wr u) (v, w) s | _ \<Rightarrow> ill_typed)"
| "pack_val wr (TStruct ts) x s = (case x of VStruct vs \<Rightarrow> pack_fields wr ts vs s | _ \<Rightarrow> ill_typed)"
| "pack_val wr (TVariant ts) x s =
     (case x of VVariant i v \<Rightarrow>
        if i < length ts
        then and_then (pack_unsigned_int wr (of_nat i) s) (pack_val wr (ts ! i) v)
        else ill_typed
      | _ \<Rightarrow> ill_typed)"
| "pack_fields wr [] vs s = (case vs of [] \<Rightarrow> Inr s | _ \<Rightarrow> ill_typed)"
| "pack_fields wr (t # ts) vs s =
     (case vs of v # vs' \<Rightarrow> and_then (pack_val wr t v s) (pack_fields wr ts vs') | [] \<Rightarrow> ill_typed)"
  by pat_completeness auto
termination
  by (relation "measure (case_sum (\<lambda>(_, t, _, _). size t) (\<lambda>(_, ts, _, _). size_list size ts))")
    (auto simp: less_Suc_eq_le intro!: size_list_estimation' [OF nth_mem])

text \<open>An alternative index out of range is the exception of \<^verbatim>\<open>fc::from_index\<close>.\<close>

function unpack_val :: "'s reader \<Rightarrow> 's getter \<Rightarrow> raw_type \<Rightarrow> (raw_value, 's) unpacker"
  and unpack_fields :: "'s reader \<Rightarrow> 's getter \<Rightarrow> raw_type list \<Rightarrow> (raw_value list, 's) unpacker" where
  "unpack_val rd gt (TScalar n) s = and_then (unpack_scalar rd n s) (\<lambda>(v, s'). Inr (VScalar v, s'))"
| "unpack_val rd gt TBool s = and_then (unpack_bool rd s) (\<lambda>(v, s'). Inr (VBool v, s'))"
| "unpack_val rd gt TUnsigned_int s = and_then (unpack_unsigned_int gt s) (\<lambda>(v, s'). Inr (VInt v, s'))"
| "unpack_val rd gt TSigned_int s = and_then (unpack_signed_int gt s) (\<lambda>(v, s'). Inr (VInt v, s'))"
| "unpack_val rd gt TTime_point_sec s =
     and_then (unpack_time_point_sec rd s) (\<lambda>(v, s'). Inr (VInt v, s'))"
| "unpack_val rd gt TBytes s = and_then (unpack_bytes rd gt s) (\<lambda>(v, s'). Inr (VBytes v, s'))"
| "unpack_val rd gt TString s = and_then (unpack_string rd gt s) (\<lambda>(v, s'). Inr (VBytes v, s'))"
| "unpack_val rd gt TEnum s = and_then (unpack_scalar rd 8 s) (\<lambda>(v, s'). Inr (VScalar v, s'))"
| "unpack_val rd gt (TOptional t) s =
     and_then (unpack_optional rd (unpack_val rd gt t) None s) (\<lambda>(v, s'). Inr (VOptional v, s'))"
| "unpack_val rd gt (TArray n t) s =
     and_then (unpack_array n (unpack_val rd gt t) s) (\<lambda>(v, s'). Inr (VList v, s'))"
| "unpack_val rd gt (TCArray n t) s =
     and_then (unpack_c_array gt n (unpack_val rd gt t) s) (\<lambda>(v, s'). Inr (VList v, s'))"
| "unpack_val rd gt (TVector t) s =
     and_then (unpack_vector gt (unpack_val rd gt t) s) (\<lambda>(v, s'). Inr (VList v, s'))"
| "unpack_val rd gt (TPair t u) s =
     and_then (unpack_pair (unpack_val rd gt t) (unpack_val rd gt u) s)
       (\<lambda>((v, w), s'). Inr (VPair v w, s'))"
| "unpack_val rd gt (TStruct ts) s = and_then (unpack_fields rd gt ts s) (\<lambda>(v, s'). Inr (VStruct v, s'))"
| "unpack_val rd gt (TVariant ts) s =
     and_then (unpack_unsigned_int gt s) (\<lambda>(w, s').
       fc_assert (unat w < length ts)
         (if unat w < length ts
          then and_then (unpack_val rd gt (ts ! unat w) s') (\<lambda>(v, s''). Inr (VVariant (unat w) v, s''))
          else Inl Undefined_behaviour))"
| "unpack_fields rd gt [] s = Inr ([], s)"
| "unpack_fields rd gt (t # ts) s =
     and_then (unpack_val rd gt t s) (\<lambda>(v, s').
       and_then (unpack_fields rd gt ts s') (\<lambda>(vs, s''). Inr (v # vs, s'')))"
  by pat_completeness auto
termination
  by (relation "measure (case_sum (\<lambda>(_, _, t, _). size t) (\<lambda>(_, _, ts, _). size_list size ts))")
    (auto simp: less_Suc_eq_le intro!: size_list_estimation' [OF nth_mem])

subsection \<open>The wire format\<close>

definition enc_sized :: "nat \<Rightarrow> bytes result \<Rightarrow> bytes result" where
  "enc_sized n body = and_then body (\<lambda>bs. Inr (varint_bytes n @ bs))"

definition enc_blob :: "bytes \<Rightarrow> bytes result" where
  "enc_blob v = fc_assert (length v \<le> MAX_SIZE_OF_BYTE_ARRAYS) (enc_sized (length v) (Inr v))"

definition enc_bool :: "bool \<Rightarrow> bytes result" where
  "enc_bool v = Inr [if v then 1 else 0]"

definition enc_optional :: "('a \<Rightarrow> bytes result) \<Rightarrow> 'a option \<Rightarrow> bytes result" where
  "enc_optional enc v =
     (case v of None \<Rightarrow> Inr [0] | Some x \<Rightarrow> and_then (enc x) (\<lambda>bs. Inr (1 # bs)))"

definition enc_seq :: "('a \<Rightarrow> bytes result) \<Rightarrow> 'a list \<Rightarrow> bytes result" where
  "enc_seq enc vs =
     fc_assert (length vs \<le> MAX_NUM_ARRAY_ELEMENTS) (enc_sized (length vs) (enc_list enc vs))"

definition enc_pair :: "('a \<Rightarrow> bytes result) \<Rightarrow> ('b \<Rightarrow> bytes result) \<Rightarrow> 'a \<times> 'b \<Rightarrow> bytes result" where
  "enc_pair enc enc' v = and_then (enc (fst v)) (\<lambda>bs. and_then (enc' (snd v)) (\<lambda>cs. Inr (bs @ cs)))"

function enc_val :: "raw_type \<Rightarrow> raw_value \<Rightarrow> bytes result"
  and enc_fields :: "raw_type list \<Rightarrow> raw_value list \<Rightarrow> bytes result" where
  "enc_val (TScalar n) x =
     (case x of VScalar v \<Rightarrow> if v < 256 ^ n then Inr (le_bytes n v) else ill_typed | _ \<Rightarrow> ill_typed)"
| "enc_val TBool x = (case x of VBool v \<Rightarrow> enc_bool v | _ \<Rightarrow> ill_typed)"
| "enc_val TUnsigned_int x = (case x of VInt v \<Rightarrow> enc_unsigned_int v | _ \<Rightarrow> ill_typed)"
| "enc_val TSigned_int x = (case x of VInt v \<Rightarrow> enc_signed_int v | _ \<Rightarrow> ill_typed)"
| "enc_val TTime_point_sec x = (case x of VInt v \<Rightarrow> Inr (le_bytes 4 (unat v)) | _ \<Rightarrow> ill_typed)"
| "enc_val TBytes x = (case x of VBytes v \<Rightarrow> enc_blob v | _ \<Rightarrow> ill_typed)"
| "enc_val TString x = (case x of VBytes v \<Rightarrow> enc_blob v | _ \<Rightarrow> ill_typed)"
| "enc_val TEnum x =
     (case x of VScalar v \<Rightarrow> if v < 256 ^ 8 then Inr (le_bytes 8 v) else ill_typed | _ \<Rightarrow> ill_typed)"
| "enc_val (TOptional t) x = (case x of VOptional v \<Rightarrow> enc_optional (enc_val t) v | _ \<Rightarrow> ill_typed)"
| "enc_val (TArray n t) x =
     (case x of VList vs \<Rightarrow> if length vs = n then enc_list (enc_val t) vs else ill_typed | _ \<Rightarrow> ill_typed)"
| "enc_val (TCArray n t) x =
     (case x of VList vs \<Rightarrow> if length vs = n then enc_sized n (enc_list (enc_val t) vs) else ill_typed
      | _ \<Rightarrow> ill_typed)"
| "enc_val (TVector t) x = (case x of VList vs \<Rightarrow> enc_seq (enc_val t) vs | _ \<Rightarrow> ill_typed)"
| "enc_val (TPair t u) x =
     (case x of VPair v w \<Rightarrow> enc_pair (enc_val t) (enc_val u) (v, w) | _ \<Rightarrow> ill_typed)"
| "enc_val (TStruct ts) x = (case x of VStruct vs \<Rightarrow> enc_fields ts vs | _ \<Rightarrow> ill_typed)"
| "enc_val (TVariant ts) x =
     (case x of VVariant i v \<Rightarrow> if i < length ts then enc_sized i (enc_val (ts ! i) v) else ill_typed
      | _ \<Rightarrow> ill_typed)"
| "enc_fields [] vs = (case vs of [] \<Rightarrow> Inr [] | _ \<Rightarrow> ill_typed)"
| "enc_fields (t # ts) vs =
     (case vs of v # vs' \<Rightarrow>
        and_then (enc_val t v) (\<lambda>bs. and_then (enc_fields ts vs') (\<lambda>cs. Inr (bs @ cs)))
      | [] \<Rightarrow> ill_typed)"
  by pat_completeness auto
termination
  by (relation "measure (case_sum (\<lambda>(t, _). size t) (\<lambda>(ts, _). size_list size ts))")
    (auto simp: less_Suc_eq_le intro!: size_list_estimation' [OF nth_mem])

text \<open>
  What the compiler and the platform guarantee of a type: sizes of objects and numbers of
  alternatives fit the machine.
\<close>

fun wf_type :: "raw_type \<Rightarrow> bool" where
  "wf_type (TScalar n) = (n < 2 ^ 31)"
| "wf_type (TOptional t) = wf_type t"
| "wf_type (TArray n t) = wf_type t"
| "wf_type (TCArray n t) = (n < 2 ^ 32 \<and> wf_type t)"
| "wf_type (TVector t) = wf_type t"
| "wf_type (TPair t u) = (wf_type t \<and> wf_type u)"
| "wf_type (TStruct ts) = list_all wf_type ts"
| "wf_type (TVariant ts) = (length ts < 2 ^ 31 \<and> list_all wf_type ts)"
| "wf_type _ = True"

text \<open>The types whose unpacking reads a bounded number of bytes per integer.\<close>

fun no_signed_int :: "raw_type \<Rightarrow> bool" where
  "no_signed_int TSigned_int = False"
| "no_signed_int (TOptional t) = no_signed_int t"
| "no_signed_int (TArray n t) = no_signed_int t"
| "no_signed_int (TCArray n t) = no_signed_int t"
| "no_signed_int (TVector t) = no_signed_int t"
| "no_signed_int (TPair t u) = (no_signed_int t \<and> no_signed_int u)"
| "no_signed_int (TStruct ts) = list_all no_signed_int ts"
| "no_signed_int (TVariant ts) = list_all no_signed_int ts"
| "no_signed_int _ = True"

end
