(* ===== verification/Datastream.thy ===== *)
theory Datastream
  imports Stream_Interfaces
begin

text \<open>
  The datastreams of \<^verbatim>\<open>fc/io/datastream.hpp\<close>: over a character array
  (\<open>char_stream\<close>), over a byte counter (\<open>size_stream\<close>) and over a container
  (\<open>vec_stream\<close>). The array stream keeps \<^verbatim>\<open>_pos\<close> as an offset from \<^verbatim>\<open>_start\<close>;
  nothing in \<^verbatim>\<open>skip\<close> or \<^verbatim>\<open>seekp\<close> keeps it inside the array, so every access writes
  out what an access outside the array is.
\<close>

subsection \<open>datastream over a character array\<close>

record char_stream =
  cs_mem :: bytes
  cs_pos :: nat

definition cs_new :: "bytes \<Rightarrow> char_stream" where
  "cs_new mem = \<lparr>cs_mem = mem, cs_pos = 0\<rparr>"

definition cs_skip :: "nat \<Rightarrow> char_stream \<Rightarrow> char_stream" where
  "cs_skip n s = s\<lparr>cs_pos := cs_pos s + n\<rparr>"

text \<open>\<^verbatim>\<open>size_t(_end - _pos)\<close>: the pointer difference converted to an unsigned size.\<close>

definition cs_remaining :: "char_stream \<Rightarrow> int" where
  "cs_remaining s = (int (length (cs_mem s)) - int (cs_pos s)) mod 2 ^ 64"

definition cs_read :: "nat \<Rightarrow> char_stream \<Rightarrow> (bytes \<times> char_stream) result" where
  "cs_read n s =
     (if int n \<le> cs_remaining s then
        if cs_pos s + n \<le> length (cs_mem s)
        then Inr (take n (drop (cs_pos s) (cs_mem s)), s\<lparr>cs_pos := cs_pos s + n\<rparr>)
        else Inl Undefined_behaviour
      else Inl Out_of_range)"

definition cs_write :: "bytes \<Rightarrow> char_stream \<Rightarrow> char_stream result" where
  "cs_write d s =
     (if int (length d) \<le> cs_remaining s then
        if cs_pos s + length d \<le> length (cs_mem s)
        then Inr (s\<lparr>cs_mem := take (cs_pos s) (cs_mem s) @ d @ drop (cs_pos s + length d) (cs_mem s),
                    cs_pos := cs_pos s + length d\<rparr>)
        else Inl Undefined_behaviour
      else Inl Out_of_range)"

definition cs_put :: "byte \<Rightarrow> char_stream \<Rightarrow> char_stream result" where
  "cs_put c s =
     (if cs_pos s < length (cs_mem s)
      then Inr (s\<lparr>cs_mem := (cs_mem s)[cs_pos s := c], cs_pos := cs_pos s + 1\<rparr>)
      else Inl Out_of_range)"

definition cs_get :: "char_stream \<Rightarrow> (byte \<times> char_stream) result" where
  "cs_get s =
     (if cs_pos s < length (cs_mem s)
      then Inr (cs_mem s ! cs_pos s, s\<lparr>cs_pos := cs_pos s + 1\<rparr>)
      else Inl Out_of_range)"

definition cs_valid :: "char_stream \<Rightarrow> bool" where
  "cs_valid s = (cs_pos s \<le> length (cs_mem s))"

definition cs_seekp :: "nat \<Rightarrow> char_stream \<Rightarrow> bool \<times> char_stream" where
  "cs_seekp p s = (p \<le> length (cs_mem s), s\<lparr>cs_pos := p\<rparr>)"

definition cs_tellp :: "char_stream \<Rightarrow> nat" where
  "cs_tellp s = cs_pos s"

subsection \<open>datastream over a counter\<close>

record size_stream =
  ss_size :: u64

definition ss_new :: "u64 \<Rightarrow> size_stream" where
  "ss_new n = \<lparr>ss_size = n\<rparr>"

definition ss_skip :: "u64 \<Rightarrow> size_stream \<Rightarrow> size_stream" where
  "ss_skip n s = s\<lparr>ss_size := ss_size s + n\<rparr>"

definition ss_write :: "bytes \<Rightarrow> size_stream \<Rightarrow> size_stream result" where
  "ss_write d s = Inr (s\<lparr>ss_size := ss_size s + of_nat (length d)\<rparr>)"

definition ss_put :: "byte \<Rightarrow> size_stream \<Rightarrow> size_stream result" where
  "ss_put c s = Inr (s\<lparr>ss_size := ss_size s + 1\<rparr>)"

definition ss_seekp :: "u64 \<Rightarrow> size_stream \<Rightarrow> size_stream" where
  "ss_seekp p s = s\<lparr>ss_size := p\<rparr>"

definition ss_tellp :: "size_stream \<Rightarrow> u64" where
  "ss_tellp s = ss_size s"

subsection \<open>datastream over a container\<close>

record vec_stream =
  vs_container :: bytes
  vs_cur :: u64

definition vs_new :: "bytes \<Rightarrow> vec_stream" where
  "vs_new c = \<lparr>vs_container = c, vs_cur = 0\<rparr>"

text \<open>The bound check adds in \<^verbatim>\<open>size_t\<close>, so it can wrap around.\<close>

definition vs_read :: "nat \<Rightarrow> vec_stream \<Rightarrow> (bytes \<times> vec_stream) result" where
  "vs_read n s =
     (if unat (vs_cur s + of_nat n) > length (vs_container s) then Inl Out_of_range
      else if unat (vs_cur s) + n \<le> length (vs_container s)
      then Inr (take n (drop (unat (vs_cur s)) (vs_container s)), s\<lparr>vs_cur := vs_cur s + of_nat n\<rparr>)
      else Inl Undefined_behaviour)"

definition resize :: "nat \<Rightarrow> bytes \<Rightarrow> bytes" where
  "resize n c = take n c @ replicate (n - length c) 0"

definition vs_write :: "bytes \<Rightarrow> vec_stream \<Rightarrow> vec_stream result" where
  "vs_write d s =
     (let n = length d;
          c = resize (max (unat (vs_cur s + of_nat n)) (length (vs_container s))) (vs_container s);
          k = unat (vs_cur s)
      in if k + n \<le> length c
         then Inr (s\<lparr>vs_container := take k c @ d @ drop (k + n) c, vs_cur := vs_cur s + of_nat n\<rparr>)
         else Inl Undefined_behaviour)"

definition vs_seekp :: "u64 \<Rightarrow> vec_stream \<Rightarrow> vec_stream" where
  "vs_seekp off s = s\<lparr>vs_cur := off\<rparr>"

definition vs_tellp :: "vec_stream \<Rightarrow> u64" where
  "vs_tellp s = vs_cur s"

definition vs_skip :: "u64 \<Rightarrow> vec_stream \<Rightarrow> vec_stream" where
  "vs_skip p s = s\<lparr>vs_cur := vs_cur s + p\<rparr>"

definition vs_get :: "vec_stream \<Rightarrow> (byte \<times> vec_stream) result" where
  "vs_get s = and_then (vs_read 1 s) (\<lambda>(d, s'). Inr (hd d, s'))"

definition vs_remaining :: "vec_stream \<Rightarrow> u64" where
  "vs_remaining s = of_nat (length (vs_container s)) - vs_cur s"

subsection \<open>The array stream implements both interfaces\<close>

definition cs_ok :: "char_stream \<Rightarrow> bool" where
  "cs_ok s = (cs_pos s \<le> length (cs_mem s) \<and> length (cs_mem s) < 2 ^ 63)"

definition cs_room :: "char_stream \<Rightarrow> nat \<Rightarrow> bool" where
  "cs_room s n = cs_ok s"

definition cs_pending :: "char_stream \<Rightarrow> bytes" where
  "cs_pending s = drop (cs_pos s) (cs_mem s)"

lemma cs_remaining_ok: "cs_ok s \<Longrightarrow> cs_remaining s = int (length (cs_mem s) - cs_pos s)"
  by (simp add: cs_remaining_def cs_ok_def of_nat_diff)

lemma cs_write_ok:
  "cs_ok s \<Longrightarrow> cs_write d s =
     (if cs_pos s + length d \<le> length (cs_mem s)
      then Inr (s\<lparr>cs_mem := take (cs_pos s) (cs_mem s) @ d @ drop (cs_pos s + length d) (cs_mem s),
                  cs_pos := cs_pos s + length d\<rparr>)
      else Inl Out_of_range)"
  by (auto simp: cs_write_def cs_remaining_ok) (auto simp: cs_ok_def)

lemma cs_read_ok:
  "cs_ok s \<Longrightarrow> cs_read n s =
     (if n \<le> length (cs_pending s)
      then Inr (take n (cs_pending s), s\<lparr>cs_pos := cs_pos s + n\<rparr>)
      else Inl Out_of_range)"
  by (auto simp: cs_read_def cs_remaining_ok cs_pending_def) (auto simp: cs_ok_def)

interpretation char_out: out_stream cs_write cs_room
proof (unfold_locales, goal_cases)
  case (1 s)
  then show ?case by (simp add: cs_room_def cs_write_ok) (simp add: cs_ok_def)
next
  case (2 s xs ys)
  then have s: "cs_ok s" by (simp add: cs_room_def)
  show ?case
  proof (cases "cs_pos s + length xs \<le> length (cs_mem s)")
    case True
    with s have "cs_ok (s\<lparr>cs_mem := take (cs_pos s) (cs_mem s) @ xs @ drop (cs_pos s + length xs) (cs_mem s),
        cs_pos := cs_pos s + length xs\<rparr>)"
      by (simp add: cs_ok_def)
    with s True show ?thesis by (simp add: cs_write_ok cs_ok_def ac_simps)
  next
    case False
    with s show ?thesis by (simp add: cs_write_ok)
  qed
next
  case (3 s xs n s')
  then show ?case by (auto simp: cs_room_def cs_write_ok cs_ok_def split: if_splits)
next
  case (4 s n m)
  then show ?case by (simp add: cs_room_def)
qed

interpretation char_in: in_stream cs_read cs_get cs_pending cs_ok
proof (unfold_locales, goal_cases)
  case (1 s xs ys)
  then have "drop (cs_pos s + length xs) (cs_mem s) = ys"
    and "length (cs_mem s) = cs_pos s + length xs + length ys"
    by (auto simp: cs_pending_def cs_ok_def intro: drop_past_prefix length_past_prefix)
  with 1 show ?case by (simp add: cs_read_ok) (simp add: cs_pending_def cs_ok_def)
next
  case (2 s x ys)
  then have d: "drop (cs_pos s) (cs_mem s) = x # ys" and p: "cs_pos s \<le> length (cs_mem s)"
    by (simp_all add: cs_pending_def cs_ok_def)
  from drop_past_cons [OF d p] 2 show ?case
    by (simp add: cs_get_def) (simp add: cs_pending_def cs_ok_def)
next
  case (3 s n)
  then show ?case by (simp add: cs_read_ok)
next
  case (4 s)
  then show ?case by (simp add: cs_get_def cs_pending_def)
qed

subsection \<open>The counter stream\<close>

interpretation size_out: out_stream ss_write "\<lambda>_ _. True"
  by unfold_locales (simp_all add: ss_write_def add.assoc)

subsection \<open>The container stream implements both interfaces\<close>

definition vs_ok :: "vec_stream \<Rightarrow> bool" where
  "vs_ok s = (unat (vs_cur s) \<le> length (vs_container s) \<and> length (vs_container s) < 2 ^ 63)"

definition vs_room :: "vec_stream \<Rightarrow> nat \<Rightarrow> bool" where
  "vs_room s n = (unat (vs_cur s) \<le> length (vs_container s) \<and>
     length (vs_container s) < 2 ^ 64 \<and> unat (vs_cur s) + n < 2 ^ 64)"

definition vs_pending :: "vec_stream \<Rightarrow> bytes" where
  "vs_pending s = drop (unat (vs_cur s)) (vs_container s)"

lemma vs_cur_add: "unat (vs_cur s) + n < 2 ^ 64 \<Longrightarrow> unat (vs_cur s + of_nat n) = unat (vs_cur s) + n"
  by (simp add: unat_word_ariths unat_of_nat)

lemma length_resize [simp]: "length (resize n c) = n"
  by (simp add: resize_def)

lemma vs_write_ok:
  assumes "vs_room s (length d)"
  shows "vs_write d s =
    Inr (s\<lparr>vs_container := take (unat (vs_cur s)) (vs_container s) @ d @
             drop (unat (vs_cur s) + length d) (vs_container s),
           vs_cur := vs_cur s + of_nat (length d)\<rparr>)"
  using assms
  by (simp add: vs_write_def Let_def vs_cur_add vs_room_def max_def) (simp add: resize_def)

interpretation vec_out: out_stream vs_write vs_room
proof (unfold_locales, goal_cases)
  case (1 s)
  then show ?case by (simp add: vs_write_ok)
next
  case (2 s xs ys)
  let ?t = "s\<lparr>vs_container := take (unat (vs_cur s)) (vs_container s) @ xs @
             drop (unat (vs_cur s) + length xs) (vs_container s),
           vs_cur := vs_cur s + of_nat (length xs)\<rparr>"
  from 2 have r: "vs_room s (length xs)" "vs_room s (length (xs @ ys))"
    by (simp_all add: vs_room_def)
  from 2 have c: "unat (vs_cur s + of_nat (length xs)) = unat (vs_cur s) + length xs"
    by (intro vs_cur_add) (simp add: vs_room_def)
  from 2 have "vs_room ?t (length ys)"
    by (auto simp: vs_room_def c)
  with r show ?case
    by (simp add: vs_write_ok c vs_room_def ac_simps)
next
  case (3 s xs n s')
  then have "vs_room s (length xs)" by (simp add: vs_room_def)
  moreover from 3 have "unat (vs_cur s + of_nat (length xs)) = unat (vs_cur s) + length xs"
    by (intro vs_cur_add) (simp add: vs_room_def)
  ultimately show ?case using 3 by (auto simp: vs_write_ok) (auto simp: vs_room_def)
next
  case (4 s n m)
  then show ?case by (simp add: vs_room_def)
qed

lemma vs_read_within:
  assumes "vs_ok s" and "n \<le> length (vs_pending s)"
  shows "vs_read n s = Inr (take n (vs_pending s), s\<lparr>vs_cur := vs_cur s + of_nat n\<rparr>)"
    and "unat (vs_cur s + of_nat n) = unat (vs_cur s) + n"
proof -
  show c: "unat (vs_cur s + of_nat n) = unat (vs_cur s) + n"
    by (rule vs_cur_add) (use assms in \<open>auto simp: vs_ok_def vs_pending_def\<close>)
  show "vs_read n s = Inr (take n (vs_pending s), s\<lparr>vs_cur := vs_cur s + of_nat n\<rparr>)"
    using assms by (auto simp: vs_read_def c vs_pending_def vs_ok_def)
qed

interpretation vec_in: in_stream vs_read vs_get vs_pending vs_ok
proof (unfold_locales, goal_cases)
  case (1 s xs ys)
  then have n: "length xs \<le> length (vs_pending s)" by simp
  note c = vs_read_within [OF 1(1) n]
  from 1 have "drop (unat (vs_cur s) + length xs) (vs_container s) = ys"
    and "length (vs_container s) = unat (vs_cur s) + length xs + length ys"
    by (auto simp: vs_pending_def vs_ok_def intro: drop_past_prefix length_past_prefix)
  with 1 c show ?case by (simp add: vs_pending_def vs_ok_def)
next
  case (2 s x ys)
  then have n: "1 \<le> length (vs_pending s)" by simp
  note c = vs_read_within [OF 2(1) n]
  from 2 have d: "drop (unat (vs_cur s)) (vs_container s) = x # ys"
    and p: "unat (vs_cur s) \<le> length (vs_container s)"
    by (simp_all add: vs_pending_def vs_ok_def)
  from drop_past_cons [OF d p]
  have "vs_ok (s\<lparr>vs_cur := vs_cur s + 1\<rparr>)" and "vs_pending (s\<lparr>vs_cur := vs_cur s + 1\<rparr>) = ys"
    using 2 c by (simp_all add: vs_pending_def vs_ok_def)
  with 2 c show ?case by (simp add: vs_get_def)
next
  case (3 s n)
  then have "unat (vs_cur s + of_nat n) = unat (vs_cur s) + n"
    by (intro vs_cur_add) (simp add: vs_ok_def)
  with 3 show ?case by (auto simp: vs_read_def vs_pending_def)
next
  case (4 s)
  then have "unat (vs_cur s + of_nat 1) = unat (vs_cur s) + 1"
    by (intro vs_cur_add) (simp add: vs_ok_def)
  with 4 show ?case by (auto simp: vs_get_def vs_read_def vs_pending_def)
qed

end
