(* ===== verification/Raw_Correct.thy ===== *)
theory Raw_Correct
  imports Raw_Types Datastream
begin

text \<open>
  Correctness of the serializer over the stream interfaces: packing a value writes its wire
  format, unpacking reads it back and nothing more, and unpacking arbitrary bytes stays within the
  rules. The lemmas are proved once for any stream, container by container, and then for every type.
\<close>

lemma array_limits:
  "n \<le> MAX_NUM_ARRAY_ELEMENTS \<Longrightarrow> n < 2 ^ 31"
  "n \<le> MAX_SIZE_OF_BYTE_ARRAYS \<Longrightarrow> n < 2 ^ 31"
  by (simp_all add: MAX_NUM_ARRAY_ELEMENTS_def MAX_SIZE_OF_BYTE_ARRAYS_def)

lemma enc_sized_Inr_iff: "enc_sized n body = Inr bs \<longleftrightarrow> (\<exists>cs. body = Inr cs \<and> bs = varint_bytes n @ cs)"
  by (auto simp: enc_sized_def and_then_Inr_iff)

lemma enc_sized_Inl_iff: "(enc_sized n body = Inl e) \<longleftrightarrow> body = Inl e"
  by (cases body) (simp_all add: enc_sized_def)

lemma unat_u32: "n < 2 ^ 32 \<Longrightarrow> unat (of_nat n :: u32) = n"
  by (rule unat_of_nat_lt) simp

lemma not_ok_seq: "(\<And>s'. \<not> is_ok (q s')) \<Longrightarrow> \<not> is_ok (and_then r q)"
  by (cases r) simp_all

lemmas pack_containers_eq =
  pack_deque_def [abs_def, folded pack_vector_def [abs_def]]
  pack_list_def [abs_def, folded pack_vector_def [abs_def]]
  pack_set_def [abs_def, folded pack_vector_def [abs_def]]
  pack_map_def [abs_def, folded pack_vector_def [abs_def]]
  pack_unordered_set_def [abs_def, folded pack_vector_def [abs_def]]
  pack_unordered_map_def [abs_def, folded pack_vector_def [abs_def]]

subsection \<open>Packing\<close>

context out_stream
begin

lemma pack_size_writes:
  "n < 2 ^ 32 \<Longrightarrow> room s (length (varint_bytes n)) \<Longrightarrow>
     pack_unsigned_int emit (of_nat n) s = emit (varint_bytes n) s"
  using writesD [OF writes_unsigned_int, of "of_nat n" "varint_bytes n" s]
  by (simp add: enc_unsigned_int_def unat_u32)

text \<open>A length in front of a body.\<close>

lemma sized_writes:
  assumes n: "n < 2 ^ 32" and p: "\<And>s. room s (length cs) \<Longrightarrow> p s = emit cs s"
    and r: "room s (length (varint_bytes n @ cs))"
  shows "and_then (pack_unsigned_int emit (of_nat n) s) p = emit (varint_bytes n @ cs) s"
  by (rule writes_seq) (use pack_size_writes [OF n] p r in auto)

lemma writes_bool: "writes (pack_bool emit) enc_bool"
  by (rule writesI) (auto simp: enc_bool_def pack_bool_def pack_scalar_def)

lemma writes_blob: "writes (pack_bytes emit) enc_blob"
proof (rule writesI)
  fix v s bs
  assume "enc_blob v = Inr bs" and r: "room s (length bs)"
  then have v: "length v \<le> MAX_SIZE_OF_BYTE_ARRAYS" and bs: "bs = varint_bytes (length v) @ v"
    by (auto simp: enc_blob_def fc_assert_Inr_iff enc_sized_Inr_iff)
  have "and_then (pack_unsigned_int emit (of_nat (length v)) s)
      (\<lambda>s'. if length v \<noteq> 0 then emit v s' else Inr s') = emit (varint_bytes (length v) @ v) s"
    by (rule sized_writes) (use array_limits(2) [OF v] r bs in \<open>auto simp: write_nil\<close>)
  then show "pack_bytes emit v s = emit bs s" using v by (simp add: pack_bytes_def bs)
next
  fix v s e
  assume "enc_blob v = Inl e"
  then show "\<not> is_ok (pack_bytes emit v s)"
    by (auto simp: enc_blob_def fc_assert_def enc_sized_def pack_bytes_def split: if_splits)
qed

lemma writes_string: "writes (pack_string emit) enc_blob"
  using writes_blob by (simp add: pack_string_def [abs_def] pack_bytes_def [abs_def])

lemma writes_optional:
  assumes p: "writes p enc"
  shows "writes (pack_optional emit p) (enc_optional enc)"
proof (rule writesI)
  fix v s bs
  assume b: "enc_optional enc v = Inr bs" and r: "room s (length bs)"
  show "pack_optional emit p v s = emit bs s"
  proof (cases v)
    case None
    with b r show ?thesis
      by (simp add: enc_optional_def pack_optional_def pack_bool_def pack_scalar_def)
  next
    case (Some x)
    with b obtain cs where cs: "enc x = Inr cs" and bs: "bs = [1] @ cs"
      by (auto simp: enc_optional_def and_then_Inr_iff)
    have "and_then (emit [1] s) (p x) = emit ([1] @ cs) s"
      by (rule writes_seq) (use r bs writesD [OF p cs] in auto)
    with Some show ?thesis by (simp add: pack_optional_def pack_bool_def pack_scalar_def bs)
  qed
next
  fix v s e
  assume "enc_optional enc v = Inl e"
  then obtain x e' where "v = Some x" and "enc x = Inl e'"
    by (auto simp: enc_optional_def and_then_def split: option.splits sum.splits)
  with writes_fails [OF p] show "\<not> is_ok (pack_optional emit p v s)"
    by (simp add: pack_optional_def not_ok_seq)
qed

lemma writes_vector:
  assumes p: "writes p enc"
  shows "writes (pack_vector emit p) (enc_seq enc)"
proof (rule writesI)
  fix v s bs
  assume b: "enc_seq enc v = Inr bs" and r: "room s (length bs)"
  then obtain cs where n: "length v \<le> MAX_NUM_ARRAY_ELEMENTS" and cs: "enc_list enc v = Inr cs"
      and bs: "bs = varint_bytes (length v) @ cs"
    by (auto simp: enc_seq_def fc_assert_Inr_iff enc_sized_Inr_iff)
  have "and_then (pack_unsigned_int emit (of_nat (length v)) s) (each_then p v) =
      emit (varint_bytes (length v) @ cs) s"
    by (rule sized_writes) (use array_limits(1) [OF n] r bs writes_each [OF p cs] in auto)
  with n show "pack_vector emit p v s = emit bs s" by (simp add: pack_vector_def bs)
next
  fix v s e
  assume "enc_seq enc v = Inl e"
  then have "length v \<le> MAX_NUM_ARRAY_ELEMENTS \<Longrightarrow> \<exists>e. enc_list enc v = Inl e"
    by (auto simp: enc_seq_def enc_sized_Inl_iff)
  with writes_each_fails [OF p] show "\<not> is_ok (pack_vector emit p v s)"
    by (auto simp: pack_vector_def fc_assert_def intro!: not_ok_seq)
qed

lemma writes_pair:
  assumes p: "writes p enc" and q: "writes q enc'"
  shows "writes (pack_pair p q) (enc_pair enc enc')"
proof (rule writesI)
  fix v s bs
  assume "enc_pair enc enc' v = Inr bs" and r: "room s (length bs)"
  then obtain xs ys where xs: "enc (fst v) = Inr xs" and ys: "enc' (snd v) = Inr ys" and bs: "bs = xs @ ys"
    by (auto simp: enc_pair_def and_then_Inr_iff)
  have "and_then (p (fst v) s) (q (snd v)) = emit (xs @ ys) s"
    by (rule writes_seq) (use r bs writesD [OF p xs] writesD [OF q ys] in auto)
  then show "pack_pair p q v s = emit bs s" by (simp add: pack_pair_def bs)
next
  fix v s e
  assume "enc_pair enc enc' v = Inl e"
  then consider "\<exists>e. enc (fst v) = Inl e" | "\<exists>e. enc' (snd v) = Inl e"
    by (auto simp: enc_pair_def and_then_def split: sum.splits)
  then show "\<not> is_ok (pack_pair p q v s)"
  proof cases
    case 1
    with writes_fails [OF p] show ?thesis
      by (cases "p (fst v) s") (auto simp: pack_pair_def, metis is_ok_simps(2))
  next
    case 2
    with writes_fails [OF q] show ?thesis by (auto simp: pack_pair_def intro!: not_ok_seq)
  qed
qed

lemma writes_scalar: "writes (pack_scalar emit n) (\<lambda>v. Inr (le_bytes n v))"
  by (rule writesI) (auto simp: pack_scalar_def)

lemma writes_array: "writes p enc \<Longrightarrow> writes (pack_array p) (enc_list enc)"
  by (rule writesI) (auto simp: pack_array_def writes_each dest: writes_each_fails)

lemma writes_c_array:
  assumes p: "writes p enc" and n: "n < 2 ^ 32"
  shows "writes (\<lambda>v s. if length v = n then pack_c_array emit p v s else ill_typed)
    (\<lambda>v. if length v = n then enc_sized n (enc_list enc v) else ill_typed)"
proof (rule writesI)
  fix v s bs
  assume "(if length v = n then enc_sized n (enc_list enc v) else ill_typed) = Inr bs" and r: "room s (length bs)"
  then obtain cs where v: "length v = n" and cs: "enc_list enc v = Inr cs" and bs: "bs = varint_bytes n @ cs"
    by (auto simp: enc_sized_Inr_iff split: if_splits)
  have "and_then (pack_unsigned_int emit (of_nat n) s) (each_then p v) = emit (varint_bytes n @ cs) s"
    by (rule sized_writes) (use n r bs writes_each [OF p cs] in auto)
  with v show "(if length v = n then pack_c_array emit p v s else ill_typed) = emit bs s"
    by (simp add: pack_c_array_def bs)
next
  fix v s e
  assume "(if length v = n then enc_sized n (enc_list enc v) else ill_typed) = Inl e"
  then show "\<not> is_ok (if length v = n then pack_c_array emit p v s else ill_typed)"
    by (auto simp: enc_sized_Inl_iff pack_c_array_def writes_each_fails [OF p] not_ok_seq split: if_splits)
qed

text \<open>
  A packer that takes its argument apart with \<open>f\<close> and fails where \<open>f\<close> does not apply.
\<close>

lemma writes_wrap:
  assumes p: "writes p enc"
    and ok: "\<And>x v. f x = Some v \<Longrightarrow> p' x = p v \<and> enc' x = enc v"
    and bad: "\<And>x s. f x = None \<Longrightarrow> \<not> is_ok (p' x s) \<and> \<not> is_ok (enc' x)"
  shows "writes p' enc'"
proof (rule writesI)
  fix x s bs
  assume "enc' x = Inr bs" and "room s (length bs)"
  then show "p' x s = emit bs s"
    using bad [of x] ok [of x] by (cases "f x") (auto simp: writesD [OF p])
next
  fix x s e
  assume "enc' x = Inl e"
  then show "\<not> is_ok (p' x s)"
    using bad [of x] ok [of x] by (cases "f x") (auto dest: writes_fails [OF p])
qed

lemma writes_fields:
  "(\<And>t. t \<in> set ts \<Longrightarrow> writes (pack_val emit t) (enc_val t)) \<Longrightarrow>
     writes (pack_fields emit ts) (enc_fields ts)"
proof (induction ts)
  case Nil
  show ?case by (rule writesI) (auto simp: write_nil split: list.splits)
next
  case (Cons t ts)
  have "writes (pack_pair (pack_val emit t) (pack_fields emit ts)) (enc_pair (enc_val t) (enc_fields ts))"
    by (rule writes_pair) (use Cons in auto)
  then show ?case
    by (rule writes_wrap [where f = "\<lambda>vs. case vs of v # vs' \<Rightarrow> Some (v, vs') | [] \<Rightarrow> None"])
      (auto simp: pack_pair_def enc_pair_def fun_eq_iff split: list.splits)
qed

lemma writes_variant:
  assumes ts: "\<And>t. t \<in> set ts \<Longrightarrow> writes (pack_val emit t) (enc_val t)" and n: "length ts < 2 ^ 31"
  shows "writes (pack_val emit (TVariant ts)) (enc_val (TVariant ts))"
proof (rule writesI)
  fix x s bs
  assume "enc_val (TVariant ts) x = Inr bs" and r: "room s (length bs)"
  then obtain i v cs where x: "x = VVariant i v" and i: "i < length ts" and cs: "enc_val (ts ! i) v = Inr cs"
      and bs: "bs = varint_bytes i @ cs"
    by (auto simp: enc_sized_Inr_iff split: raw_value.splits if_splits)
  have "and_then (pack_unsigned_int emit (of_nat i) s) (pack_val emit (ts ! i) v) = emit (varint_bytes i @ cs) s"
    by (rule sized_writes) (use n i r bs writesD [OF ts [OF nth_mem [OF i]] cs] in auto)
  with x i show "pack_val emit (TVariant ts) x s = emit bs s" by (simp add: bs)
next
  fix x s e
  assume e: "enc_val (TVariant ts) x = Inl e"
  show "\<not> is_ok (pack_val emit (TVariant ts) x s)"
    using e by (auto simp: enc_sized_Inl_iff not_ok_seq writes_fails [OF ts [OF nth_mem]]
        split: raw_value.splits if_splits)
qed

lemma writes_leaf:
  shows "writes (pack_val emit (TScalar n)) (enc_val (TScalar n))"
    and "writes (pack_val emit TBool) (enc_val TBool)"
    and "writes (pack_val emit TUnsigned_int) (enc_val TUnsigned_int)"
    and "writes (pack_val emit TSigned_int) (enc_val TSigned_int)"
    and "writes (pack_val emit TTime_point_sec) (enc_val TTime_point_sec)"
    and "writes (pack_val emit TBytes) (enc_val TBytes)"
    and "writes (pack_val emit TString) (enc_val TString)"
    and "writes (pack_val emit TEnum) (enc_val TEnum)"
  by (rule writesI;
      auto simp: pack_scalar_def pack_time_point_sec_def
        writesD [OF writes_bool] writesD [OF writes_unsigned_int] writesD [OF writes_signed_int]
        writesD [OF writes_blob] writesD [OF writes_string]
      dest: writes_fails [OF writes_bool] writes_fails [OF writes_unsigned_int]
        writes_fails [OF writes_signed_int] writes_fails [OF writes_blob] writes_fails [OF writes_string]
      split: raw_value.splits if_splits)+

lemma writes_val: "wf_type t \<Longrightarrow> writes (pack_val emit t) (enc_val t)"
proof (induction t)
  case (TOptional t)
  then have "writes (pack_val emit t) (enc_val t)" by simp
  from writes_optional [OF this] show ?case
    by (rule writes_wrap [where f = "\<lambda>x. case x of VOptional v \<Rightarrow> Some v | _ \<Rightarrow> None"])
      (auto split: raw_value.splits)
next
  case (TArray n t)
  then have "writes (pack_val emit t) (enc_val t)" by simp
  from writes_array [OF this] show ?case
    by (rule writes_wrap [where f = "\<lambda>x. case x of VList v \<Rightarrow> if length v = n then Some v else None | _ \<Rightarrow> None"])
      (auto split: raw_value.splits if_splits)
next
  case (TCArray n t)
  then have "writes (pack_val emit t) (enc_val t)" and "n < 2 ^ 32" by simp_all
  from writes_c_array [OF this] show ?case
    by (rule writes_wrap [where f = "\<lambda>x. case x of VList v \<Rightarrow> Some v | _ \<Rightarrow> None"])
      (auto simp: fun_eq_iff split: raw_value.splits)
next
  case (TVector t)
  then have "writes (pack_val emit t) (enc_val t)" by simp
  from writes_vector [OF this] show ?case
    by (rule writes_wrap [where f = "\<lambda>x. case x of VList v \<Rightarrow> Some v | _ \<Rightarrow> None"])
      (auto split: raw_value.splits)
next
  case (TPair t u)
  then have "writes (pack_val emit t) (enc_val t)" and "writes (pack_val emit u) (enc_val u)" by simp_all
  from writes_pair [OF this] show ?case
    by (rule writes_wrap [where f = "\<lambda>x. case x of VPair v w \<Rightarrow> Some (v, w) | _ \<Rightarrow> None"])
      (auto split: raw_value.splits)
next
  case (TStruct ts)
  then have "writes (pack_fields emit ts) (enc_fields ts)"
    by (intro writes_fields) (auto simp: list_all_iff)
  then show ?case
    by (rule writes_wrap [where f = "\<lambda>x. case x of VStruct v \<Rightarrow> Some v | _ \<Rightarrow> None"])
      (auto split: raw_value.splits)
next
  case (TVariant ts)
  then show ?case by (intro writes_variant) (auto simp: list_all_iff)
qed (rule writes_leaf)+

end

subsection \<open>Unpacking\<close>

context in_source
begin

text \<open>An unpacker followed by a continuation on what is left.\<close>

lemma reads_then:
  assumes d: "reads d enc" and bs: "enc v = Inr bs" and s: "invar s" and p: "pending s = bs @ rest"
    and k: "\<And>s'. invar s' \<Longrightarrow> pending s' = rest \<Longrightarrow> \<exists>s''. k v s' = Inr (x, s'') \<and> Q s''"
  shows "\<exists>s''. and_then (d s) (\<lambda>(y, s'). k y s') = Inr (x, s'') \<and> Q s''"
proof -
  from d bs s p obtain s' where "d s = Inr (v, s')" "invar s'" "pending s' = rest"
    by (rule readsE)
  with k [of s'] show ?thesis by simp
qed

lemma reads_wrap:
  assumes d: "reads d enc"
    and c: "\<And>x bs. enc' x = Inr bs \<Longrightarrow> \<exists>v. x = c v \<and> enc v = Inr bs"
  shows "reads (\<lambda>s. and_then (d s) (\<lambda>(v, s'). Inr (c v, s'))) enc'"
proof (rule readsI)
  fix x bs s rest
  assume "enc' x = Inr bs" and s: "invar s" "pending s = bs @ rest"
  with c obtain v where x: "x = c v" and v: "enc v = Inr bs" by blast
  show "\<exists>s'. and_then (d s) (\<lambda>(v, s'). Inr (c v, s')) = Inr (x, s') \<and> invar s' \<and> pending s' = rest"
    by (rule reads_then [OF d v s]) (simp add: x)
qed

lemma reads_cong: "reads d enc \<Longrightarrow> (\<And>s. d' s = d s) \<Longrightarrow> reads d' enc"
  by (simp add: reads_def)

lemma reads_scalar: "reads (unpack_scalar read n) (\<lambda>v. if v < 256 ^ n then Inr (le_bytes n v) else ill_typed)"
proof (rule readsI)
  fix v bs s rest
  assume "(if v < 256 ^ n then Inr (le_bytes n v) else ill_typed) = Inr bs" and s: "invar s" "pending s = bs @ rest"
  then have v: "v < 256 ^ n" and bs: "bs = le_bytes n v" by (auto split: if_splits)
  have "of_le_bytes bs = v" using v by (simp add: bs of_le_bytes_le_bytes)
  moreover from read_ok [OF s] bs obtain s' where "read n s = Inr (bs, s')" "invar s'" "pending s' = rest"
    by auto
  ultimately show "\<exists>s'. unpack_scalar read n s = Inr (v, s') \<and> invar s' \<and> pending s' = rest"
    by (simp add: unpack_scalar_def)
qed

lemma reads_bool: "reads (unpack_bool read) enc_bool"
proof (rule readsI)
  fix v bs s rest
  assume "enc_bool v = Inr bs" and s: "invar s" "pending s = bs @ rest"
  then have b: "(if (if v then 1 else 0) < (256 :: nat) ^ 1 then Inr (le_bytes 1 (if v then 1 else 0)) else ill_typed) = Inr bs"
    by (auto simp: enc_bool_def)
  show "\<exists>s'. unpack_bool read s = Inr (v, s') \<and> invar s' \<and> pending s' = rest"
    unfolding unpack_bool_def by (rule reads_then [OF reads_scalar b s]) simp
qed

lemma reads_size:
  assumes "n < 2 ^ 32" and "invar s" and "pending s = varint_bytes n @ rest"
    and "\<And>s'. invar s' \<Longrightarrow> pending s' = rest \<Longrightarrow> \<exists>s''. k (of_nat n) s' = Inr (x, s'') \<and> Q s''"
  shows "\<exists>s''. and_then (unpack_unsigned_int get s) (\<lambda>(size, s'). k size s') = Inr (x, s'') \<and> Q s''"
  by (rule reads_then [OF reads_unsigned_int _ assms(2,3), where k = k, OF _ assms(4)])
    (simp_all add: enc_unsigned_int_def unat_u32 [OF assms(1)])

lemma reads_blob: "reads (unpack_bytes read get) enc_blob"
proof (rule readsI)
  fix v bs s rest
  assume "enc_blob v = Inr bs" and s: "invar s" and p: "pending s = bs @ rest"
  then have n: "length v \<le> MAX_SIZE_OF_BYTE_ARRAYS" and p': "pending s = varint_bytes (length v) @ v @ rest"
    by (auto simp: enc_blob_def fc_assert_Inr_iff enc_sized_Inr_iff)
  have n32: "length v < 2 ^ 32" using array_limits(2) [OF n] by simp
  show "\<exists>s'. unpack_bytes read get s = Inr (v, s') \<and> invar s' \<and> pending s' = rest"
    unfolding unpack_bytes_def
  proof (rule reads_size [OF n32 s p'])
    fix s'
    assume s': "invar s'" "pending s' = v @ rest"
    from read_ok [OF s'] s' n show "\<exists>s''. fc_assert (unat (of_nat (length v) :: u32) \<le> MAX_SIZE_OF_BYTE_ARRAYS)
        (if unat (of_nat (length v) :: u32) \<noteq> 0 then read (unat (of_nat (length v) :: u32)) s' else Inr ([], s')) =
        Inr (v, s'') \<and> invar s'' \<and> pending s'' = rest"
      by (simp add: unat_u32 [OF n32])
  qed
qed

lemma reads_string: "reads (unpack_string read get) enc_blob"
proof (rule reads_cong [OF reads_blob])
  show "unpack_string read get s = unpack_bytes read get s" for s
    by (cases "unpack_bytes read get s") (auto simp: unpack_string_def)
qed

lemma reads_optional:
  assumes d: "reads d enc"
  shows "reads (unpack_optional read d None) (enc_optional enc)"
proof (rule readsI)
  fix v bs s rest
  assume e: "enc_optional enc v = Inr bs" and s: "invar s" and p: "pending s = bs @ rest"
  show "\<exists>s'. unpack_optional read d None s = Inr (v, s') \<and> invar s' \<and> pending s' = rest"
  proof (cases v)
    case None
    with e p have p': "pending s = [0] @ rest" by (simp add: enc_optional_def)
    show ?thesis unfolding unpack_optional_def
      by (rule reads_then [OF reads_bool _ s p', where v = False]) (simp_all add: enc_bool_def None)
  next
    case (Some x)
    with e p obtain cs where cs: "enc x = Inr cs" and p': "pending s = [1] @ cs @ rest"
      by (auto simp: enc_optional_def and_then_Inr_iff)
    have "\<exists>s''. and_then (d s') (\<lambda>(x, s''). Inr (Some x, s'')) = Inr (v, s'') \<and> invar s'' \<and> pending s'' = rest"
      if "invar s'" "pending s' = cs @ rest" for s'
      by (rule reads_then [OF d cs that]) (simp add: Some)
    then show ?thesis unfolding unpack_optional_def
      by (intro reads_then [OF reads_bool _ s p', where v = True]) (simp_all add: enc_bool_def)
  qed
qed

lemma reads_vector:
  assumes d: "reads d enc"
  shows "reads (unpack_vector get d) (enc_seq enc)"
proof (rule readsI)
  fix v bs s rest
  assume "enc_seq enc v = Inr bs" and s: "invar s" and "pending s = bs @ rest"
  then obtain cs where n: "length v \<le> MAX_NUM_ARRAY_ELEMENTS" and cs: "enc_list enc v = Inr cs"
      and p: "pending s = varint_bytes (length v) @ cs @ rest"
    by (auto simp: enc_seq_def fc_assert_Inr_iff enc_sized_Inr_iff)
  have n32: "length v < 2 ^ 32" using array_limits(1) [OF n] by simp
  show "\<exists>s'. unpack_vector get d s = Inr (v, s') \<and> invar s' \<and> pending s' = rest"
    unfolding unpack_vector_def
    by (rule reads_size [OF n32 s p]) (use reads_times [OF d cs] n in \<open>simp add: unat_u32 [OF n32]\<close>)
qed

lemma reads_c_array:
  assumes d: "reads d enc" and n: "n < 2 ^ 32"
  shows "reads (unpack_c_array get n d)
    (\<lambda>v. if length v = n then enc_sized n (enc_list enc v) else ill_typed)"
proof (rule readsI)
  fix v bs s rest
  assume "(if length v = n then enc_sized n (enc_list enc v) else ill_typed) = Inr bs" and s: "invar s"
    and "pending s = bs @ rest"
  then obtain cs where v: "length v = n" and cs: "enc_list enc v = Inr cs" and p: "pending s = varint_bytes n @ cs @ rest"
    by (auto simp: enc_sized_Inr_iff split: if_splits)
  show "\<exists>s'. unpack_c_array get n d s = Inr (v, s') \<and> invar s' \<and> pending s' = rest"
    unfolding unpack_c_array_def
    by (rule reads_size [OF n s p]) (use reads_times [OF d cs] v in \<open>simp add: unat_u32 [OF n]\<close>)
qed

lemma reads_array:
  assumes d: "reads d enc"
  shows "reads (unpack_array n d) (\<lambda>v. if length v = n then enc_list enc v else ill_typed)"
  by (rule readsI) (use reads_times [OF d] in \<open>auto simp: unpack_array_def split: if_splits\<close>)

lemma reads_pair:
  assumes d: "reads d enc" and d': "reads d' enc'"
  shows "reads (unpack_pair d d') (enc_pair enc enc')"
proof (rule readsI)
  fix v bs s rest
  assume "enc_pair enc enc' v = Inr bs" and s: "invar s" and "pending s = bs @ rest"
  then obtain xs ys where xs: "enc (fst v) = Inr xs" and ys: "enc' (snd v) = Inr ys"
      and p: "pending s = xs @ ys @ rest"
    by (auto simp: enc_pair_def and_then_Inr_iff)
  have "\<exists>s''. and_then (d' s') (\<lambda>(y, s''). Inr ((fst v, y), s'')) = Inr (v, s'') \<and> invar s'' \<and> pending s'' = rest"
    if "invar s'" "pending s' = ys @ rest" for s'
    by (rule reads_then [OF d' ys that]) simp
  then show "\<exists>s'. unpack_pair d d' s = Inr (v, s') \<and> invar s' \<and> pending s' = rest"
    unfolding unpack_pair_def by (intro reads_then [OF d xs s p]) blast
qed

lemma reads_fields:
  "(\<And>t. t \<in> set ts \<Longrightarrow> reads (unpack_val read get t) (enc_val t)) \<Longrightarrow>
     reads (unpack_fields read get ts) (enc_fields ts)"
proof (induction ts)
  case Nil
  show ?case by (rule readsI) (auto split: list.splits)
next
  case (Cons t ts)
  have "reads (unpack_pair (unpack_val read get t) (unpack_fields read get ts)) (enc_pair (enc_val t) (enc_fields ts))"
    by (rule reads_pair) (use Cons in auto)
  then have "reads (\<lambda>s. and_then (unpack_pair (unpack_val read get t) (unpack_fields read get ts) s)
      (\<lambda>(v, s'). Inr (case v of (v, vs) \<Rightarrow> v # vs, s'))) (enc_fields (t # ts))"
    by (rule reads_wrap) (auto simp: enc_pair_def split: list.splits)
  then show ?case
    by (rule reads_cong) (auto simp: unpack_pair_def and_then_assoc split_def)
qed

lemma reads_variant:
  assumes ts: "\<And>t. t \<in> set ts \<Longrightarrow> reads (unpack_val read get t) (enc_val t)" and n: "length ts < 2 ^ 31"
  shows "reads (unpack_val read get (TVariant ts)) (enc_val (TVariant ts))"
proof (rule readsI)
  fix x bs s rest
  assume "enc_val (TVariant ts) x = Inr bs" and s: "invar s" and "pending s = bs @ rest"
  then obtain i v cs where x: "x = VVariant i v" and i: "i < length ts" and cs: "enc_val (ts ! i) v = Inr cs"
      and p: "pending s = varint_bytes i @ cs @ rest"
    by (auto simp: enc_sized_Inr_iff split: raw_value.splits if_splits)
  have i32: "i < 2 ^ 32" using i n by simp
  have "\<exists>s''. and_then (unpack_val read get (ts ! i) s') (\<lambda>(v, s''). Inr (VVariant i v, s'')) = Inr (x, s'') \<and>
      invar s'' \<and> pending s'' = rest" if "invar s'" "pending s' = cs @ rest" for s'
    by (rule reads_then [OF ts [OF nth_mem [OF i]] cs that]) (simp add: x)
  then show "\<exists>s'. unpack_val read get (TVariant ts) s = Inr (x, s') \<and> invar s' \<and> pending s' = rest"
    unfolding unpack_val.simps by (intro reads_size [OF i32 s p]) (simp add: unat_u32 [OF i32] i)
qed

lemma reads_time_point_sec:
  "reads (unpack_time_point_sec read) (\<lambda>v. Inr (le_bytes 4 (unat v)))"
proof (rule readsI)
  fix v :: u32 and bs s rest
  assume "Inr (le_bytes 4 (unat v)) = Inr bs" and s: "invar s" "pending s = bs @ rest"
  then have bs: "bs = le_bytes 4 (unat v)" by simp
  have "of_le_bytes bs = unat v" using word_unat_lt [of v] by (simp add: bs of_le_bytes_le_bytes)
  moreover from read_ok [OF s] bs obtain s' where "read 4 s = Inr (bs, s')" "invar s'" "pending s' = rest"
    by auto
  ultimately show "\<exists>s'. unpack_time_point_sec read s = Inr (v, s') \<and> invar s' \<and> pending s' = rest"
    by (simp add: unpack_time_point_sec_def)
qed

lemma reads_leaf:
  shows "reads (unpack_val read get (TScalar n)) (enc_val (TScalar n))"
    and "reads (unpack_val read get TBool) (enc_val TBool)"
    and "reads (unpack_val read get TUnsigned_int) (enc_val TUnsigned_int)"
    and "reads (unpack_val read get TSigned_int) (enc_val TSigned_int)"
    and "reads (unpack_val read get TTime_point_sec) (enc_val TTime_point_sec)"
    and "reads (unpack_val read get TBytes) (enc_val TBytes)"
    and "reads (unpack_val read get TString) (enc_val TString)"
    and "reads (unpack_val read get TEnum) (enc_val TEnum)"
  unfolding unpack_val.simps
  by (rule reads_wrap [OF reads_scalar] reads_wrap [OF reads_bool] reads_wrap [OF reads_unsigned_int]
      reads_wrap [OF reads_signed_int] reads_wrap [OF reads_time_point_sec] reads_wrap [OF reads_blob]
      reads_wrap [OF reads_string]; fastforce split: raw_value.splits if_splits)+

lemma reads_val: "wf_type t \<Longrightarrow> reads (unpack_val read get t) (enc_val t)"
proof (induction t)
  case (TOptional t)
  then have "reads (unpack_val read get t) (enc_val t)" by simp
  then show ?case unfolding unpack_val.simps
    by (rule reads_wrap [OF reads_optional]) (auto split: raw_value.splits)
next
  case (TArray n t)
  then have "reads (unpack_val read get t) (enc_val t)" by simp
  then show ?case unfolding unpack_val.simps
    by (rule reads_wrap [OF reads_array]) (auto split: raw_value.splits if_splits)
next
  case (TCArray n t)
  then have "reads (unpack_val read get t) (enc_val t)" and "n < 2 ^ 32" by simp_all
  then show ?case unfolding unpack_val.simps
    by (rule reads_wrap [OF reads_c_array]) (auto split: raw_value.splits if_splits)
next
  case (TVector t)
  then have "reads (unpack_val read get t) (enc_val t)" by simp
  then show ?case unfolding unpack_val.simps
    by (rule reads_wrap [OF reads_vector]) (auto split: raw_value.splits)
next
  case (TPair t u)
  then have "reads (unpack_val read get t) (enc_val t)" and "reads (unpack_val read get u) (enc_val u)" by simp_all
  then have "reads (\<lambda>s. and_then (unpack_pair (unpack_val read get t) (unpack_val read get u) s)
      (\<lambda>(v, s'). Inr (case v of (v, w) \<Rightarrow> VPair v w, s'))) (enc_val (TPair t u))"
    by (rule reads_wrap [OF reads_pair]) (auto split: raw_value.splits)
  then show ?case by (rule reads_cong) (simp add: split_def)
next
  case (TStruct ts)
  then have "reads (unpack_fields read get ts) (enc_fields ts)"
    by (intro reads_fields) (auto simp: list_all_iff)
  then show ?case unfolding unpack_val.simps
    by (rule reads_wrap) (auto split: raw_value.splits)
next
  case (TVariant ts)
  then show ?case by (intro reads_variant) (auto simp: list_all_iff)
qed (rule reads_leaf)+

end

subsection \<open>Unpacking arbitrary bytes\<close>

context in_stream
begin

lemma tame_map: "tame d \<Longrightarrow> tame (\<lambda>s. and_then (d s) (\<lambda>(v, s'). Inr (c v, s')))"
  by (rule tame_then) (auto intro: tame_return)

lemma tame_scalar: "n < 2 ^ 63 \<Longrightarrow> tame (unpack_scalar read n)"
  unfolding unpack_scalar_def [abs_def] by (intro tame_map tame_read)

lemma tame_bool: "tame (unpack_bool read)"
  unfolding unpack_bool_def [abs_def] by (intro tame_then tame_scalar tame_assert tame_return) simp

lemma tame_size:
  "(\<And>n. tame (k n)) \<Longrightarrow> tame (\<lambda>s. and_then (unpack_unsigned_int get s) (\<lambda>(size, s'). k size s'))"
  by (intro tame_then tame_unsigned_int)

lemma tame_bytes: "tame (unpack_bytes read get)"
  unfolding unpack_bytes_def [abs_def]
proof (rule tame_size)
  fix n :: u32
  show "tame (\<lambda>s'. fc_assert (unat n \<le> MAX_SIZE_OF_BYTE_ARRAYS)
      (if unat n \<noteq> 0 then read (unat n) s' else Inr ([], s')))"
    using array_limits(2) [of "unat n"]
    by (cases "unat n \<le> MAX_SIZE_OF_BYTE_ARRAYS"; cases "unat n = 0")
      (auto intro!: tame_read tame_return tame_throw)
qed

lemma tame_string: "tame (unpack_string read get)"
  unfolding unpack_string_def [abs_def] by (intro tame_map tame_bytes)

lemma tame_optional: "tame d \<Longrightarrow> tame (unpack_optional read d v)"
  unfolding unpack_optional_def [abs_def]
  by (rule tame_then [OF tame_bool], rename_tac b, case_tac b) (simp_all add: tame_return tame_map)

lemma tame_vector: "tame d \<Longrightarrow> tame (unpack_vector get d)"
  unfolding unpack_vector_def [abs_def] by (intro tame_size tame_assert tame_times)

lemma tame_c_array: "tame d \<Longrightarrow> tame (unpack_c_array get n d)"
  unfolding unpack_c_array_def [abs_def] by (intro tame_size tame_assert tame_times)

lemma tame_pair: "tame d \<Longrightarrow> tame d' \<Longrightarrow> tame (unpack_pair d d')"
  unfolding unpack_pair_def [abs_def] by (intro tame_then tame_return)

lemma tame_fields: "(\<And>t. t \<in> set ts \<Longrightarrow> tame (unpack_val read get t)) \<Longrightarrow> tame (unpack_fields read get ts)"
proof (induction ts)
  case Nil
  show ?case by (rule tame_cong [OF tame_return]) simp
next
  case (Cons t ts)
  then show ?case unfolding unpack_fields.simps by (intro tame_then tame_return) auto
qed

lemma tame_variant:
  "(\<And>t. t \<in> set ts \<Longrightarrow> tame (unpack_val read get t)) \<Longrightarrow> tame (unpack_val read get (TVariant ts))"
  unfolding unpack_val.simps
proof (rule tame_size)
  fix n :: u32
  assume ts: "\<And>t. t \<in> set ts \<Longrightarrow> tame (unpack_val read get t)"
  show "tame (\<lambda>s'. fc_assert (unat n < length ts)
      (if unat n < length ts
       then and_then (unpack_val read get (ts ! unat n) s') (\<lambda>(v, s''). Inr (VVariant (unat n) v, s''))
       else Inl Undefined_behaviour))"
    using ts by (cases "unat n < length ts") (auto intro!: tame_map tame_throw)
qed

lemma tame_val: "wf_type t \<Longrightarrow> no_signed_int t \<Longrightarrow> tame (unpack_val read get t)"
proof (induction t)
  case (TScalar n)
  then show ?case by (auto intro!: tame_map tame_scalar)
next
  case (TPair t u)
  then have "tame (unpack_pair (unpack_val read get t) (unpack_val read get u))" by (intro tame_pair) auto
  from tame_map [OF this, where c = "\<lambda>(v, w). VPair v w"] show ?case
    by (rule tame_cong) (simp add: split_def)
next
  case (TStruct ts)
  then have "tame (unpack_fields read get ts)" by (intro tame_fields) (auto simp: list_all_iff)
  then show ?case unfolding unpack_val.simps by (rule tame_map)
next
  case (TVariant ts)
  then show ?case by (intro tame_variant) (auto simp: list_all_iff)
next
  case TTime_point_sec
  show ?case unfolding unpack_val.simps unpack_time_point_sec_def by (intro tame_map tame_read) simp
qed (auto simp: unpack_val.simps [abs_def] unpack_array_def [abs_def] intro!: tame_map tame_bool tame_unsigned_int tame_bytes tame_string
      tame_optional tame_vector tame_c_array tame_times tame_scalar)

end

end
