(* ===== verification/Raw_Api.thy ===== *)
theory Raw_Api
  imports Raw_Correct "HOL-Library.Multiset"
begin

text \<open>
  The entry points of the serializer that make their own datastream: \<^verbatim>\<open>pack_size\<close>, \<^verbatim>\<open>pack\<close>
  to a vector, \<^verbatim>\<open>unpack\<close> from a vector or from a pointer and a length. \<^verbatim>\<open>pack\<close> runs the
  packers twice, first over a counter and then over an array of the size counted. The properties of
  the serializer follow from the two stream interfaces at the datastreams.
\<close>

subsection \<open>Entry points\<close>

definition pack_size :: "raw_type \<Rightarrow> raw_value \<Rightarrow> u64 result" where
  "pack_size t v = and_then (pack_val ss_write t v (ss_new 0)) (\<lambda>ps. Inr (ss_tellp ps))"

text \<open>\<^verbatim>\<open>std::vector<char> vec(ps.tellp())\<close> is zeroed memory, at most \<^verbatim>\<open>max_size()\<close> of it.\<close>

definition pack :: "raw_type \<Rightarrow> raw_value \<Rightarrow> bytes result" where
  "pack t v =
     and_then (pack_val ss_write t v (ss_new 0)) (\<lambda>ps.
       let n = unat (ss_tellp ps)
       in if n \<ge> 2 ^ 63 then Inl Std_length_error
          else if n \<noteq> 0
          then and_then (pack_val cs_write t v (cs_new (replicate n 0))) (\<lambda>ds. Inr (cs_mem ds))
          else Inr [])"

definition pack_to_buffer :: "bytes \<Rightarrow> raw_type \<Rightarrow> raw_value \<Rightarrow> bytes result" where
  "pack_to_buffer d t v = and_then (pack_val cs_write t v (cs_new d)) (\<lambda>ds. Inr (cs_mem ds))"

definition unpack :: "raw_type \<Rightarrow> bytes \<Rightarrow> raw_value result" where
  "unpack t s = and_then (unpack_val cs_read cs_get t (cs_new s)) (\<lambda>(tmp, _). Inr tmp)"

subsection \<open>Lemmas\<close>

lemma cs_new_ok: "length d < 2 ^ 63 \<Longrightarrow> cs_ok (cs_new d)"
  by (simp add: cs_ok_def cs_new_def)

lemma cs_pending_new [simp]: "cs_pending (cs_new d) = d"
  by (simp add: cs_pending_def cs_new_def)

lemma pack_val_counts:
  assumes "wf_type t" and "enc_val t v = Inr bs"
  shows "pack_val ss_write t v (ss_new 0) = Inr (ss_new (of_nat (length bs)))"
  using size_out.writesD [OF size_out.writes_val [OF assms(1)] assms(2), of "ss_new 0"]
  by (simp add: ss_write_def ss_new_def)

lemma pack_val_fills:
  assumes "wf_type t" and "enc_val t v = Inr bs" and "length bs \<le> length d" and "length d < 2 ^ 63"
  shows "pack_val cs_write t v (cs_new d) = Inr \<lparr>cs_mem = bs @ drop (length bs) d, cs_pos = length bs\<rparr>"
proof -
  have "cs_room (cs_new d) (length bs)" using assms(4) by (simp add: cs_room_def cs_new_ok)
  from char_out.writesD [OF char_out.writes_val [OF assms(1)] assms(2) this] show ?thesis
    using assms(3,4) by (simp add: cs_write_ok cs_new_ok) (simp add: cs_new_def)
qed

lemma pack_enc:
  assumes "wf_type t" and "enc_val t v = Inr bs" and "length bs < 2 ^ 63"
  shows "pack t v = Inr bs"
proof -
  have n: "unat (of_nat (length bs) :: u64) = length bs"
    using assms(3) by (intro unat_of_nat_lt) simp
  have f: "pack_val cs_write t v (cs_new (replicate (length bs) 0)) = Inr \<lparr>cs_mem = bs, cs_pos = length bs\<rparr>"
    using pack_val_fills [OF assms(1,2), of "replicate (length bs) 0"] assms(3) by simp
  show ?thesis
    unfolding pack_def pack_val_counts [OF assms(1,2)] and_then_simps ss_tellp_def Let_def
    using assms(3) by (simp add: ss_new_def n f)
qed

lemma unpack_val_prefix:
  assumes "wf_type t" and "enc_val t v = Inr bs" and "length (bs @ rest) < 2 ^ 63"
  obtains s where "unpack_val cs_read cs_get t (cs_new (bs @ rest)) = Inr (v, s)" and "cs_pending s = rest"
proof -
  have "cs_ok (cs_new (bs @ rest))" using assms(3) by (rule cs_new_ok)
  with char_in.readsE [OF char_in.reads_val [OF assms(1)] assms(2), of "cs_new (bs @ rest)" rest]
  show thesis using that by auto
qed

lemma unpack_enc:
  assumes "wf_type t" and "enc_val t v = Inr bs" and "length bs < 2 ^ 63"
  shows "unpack t bs = Inr v"
proof -
  have "length (bs @ []) < 2 ^ 63" using assms(3) by simp
  from unpack_val_prefix [OF assms(1,2) this] obtain s where
    "unpack_val cs_read cs_get t (cs_new (bs @ [])) = Inr (v, s)" .
  then show ?thesis by (simp add: unpack_def)
qed

lemma fold_set_insert_sorted:
  "sorted (ys @ xs) \<Longrightarrow> distinct (ys @ xs) \<Longrightarrow> fold set_insert xs ys = ys @ xs"
proof (induction xs arbitrary: ys)
  case (Cons x xs)
  then have "set_insert x ys = ys @ [x]"
    by (auto simp: set_insert_def sorted_append intro!: sorted_insort_is_snoc)
  with Cons.IH [of "ys @ [x]"] Cons.prems show ?case by simp
qed simp

lemma set_insert_keeps: "sorted xs \<and> distinct xs \<Longrightarrow> sorted (set_insert x xs) \<and> distinct (set_insert x xs)"
  by (auto simp: set_insert_def sorted_insort distinct_insort)

lemma map_insert_keeps:
  "sorted (map fst m) \<and> distinct (map fst m) \<Longrightarrow>
     sorted (map fst (map_insert x m)) \<and> distinct (map fst (map_insert x m))"
proof (cases "fst x \<in> fst ` set m")
  case False
  assume m: "sorted (map fst m) \<and> distinct (map fst m)"
  have "mset (map fst (insort_key fst x m)) = add_mset (fst x) (mset (map fst m))"
    by (induction m) auto
  then have "distinct (map fst (insort_key fst x m)) = distinct (fst x # map fst m)"
    by (metis mset.simps(2) mset_eq_imp_distinct_iff)
  with m False show ?thesis by (simp add: map_insert_def sorted_insort_key)
qed (simp add: map_insert_def)

lemma fold_keeps: "P m \<Longrightarrow> (\<And>x m. P m \<Longrightarrow> P (f x m)) \<Longrightarrow> P (fold f xs m)"
  by (induction xs arbitrary: m) auto

text \<open>What the simplifier needs to run the format and the array stream on concrete input.\<close>

lemmas wire_eval = fc_eval enc_unsigned_int_def varint_bytes.simps enc_seq_def enc_blob_def enc_sized_def
  enc_optional_def MAX_NUM_ARRAY_ELEMENTS_def MAX_SIZE_OF_BYTE_ARRAYS_def

lemmas read_eval = fc_eval unpack_unsigned_int_def unpack_unsigned_int_loop.simps cs_get_def cs_new_def
  unpack_pair_def unpack_scalar_def cs_read_def cs_remaining_def MAX_NUM_ARRAY_ELEMENTS_def Let_def

subsection \<open>Properties\<close>







text \<open>
  \<^verbatim>\<open>pack_size\<close> is the exact number of bytes \<^verbatim>\<open>pack\<close> writes, and packing into a
  caller's buffer of at least that size writes them to its front and leaves the rest of it as it was.
\<close>

lemma pack_size_exact:
  assumes "wf_type t" and "enc_val t v = Inr bs" and "length bs \<le> length d" and "length d < 2 ^ 63"
  shows "pack_size t v = Inr (of_nat (length bs)) \<and>
    pack_to_buffer d t v = Inr (bs @ drop (length bs) d)"
  using pack_val_counts [OF assms(1,2)] pack_val_fills [OF assms]
  by (simp add: pack_size_def pack_to_buffer_def ss_tellp_def ss_new_def)

text \<open>
  C31. A value over a size limit of the serializer is refused: where the wire format has no encoding
  (a container with more than \<^verbatim>\<open>MAX_NUM_ARRAY_ELEMENTS\<close> elements, a string longer than
  \<^verbatim>\<open>MAX_SIZE_OF_BYTE_ARRAYS\<close>, anywhere inside the value), \<^verbatim>\<open>pack\<close> and
  \<^verbatim>\<open>pack_size\<close> fail.
\<close>

theorem pack_refuses_oversized:
  assumes "wf_type t" and "enc_val t v = Inl e"
  shows "\<not> is_ok (pack t v) \<and> \<not> is_ok (pack_size t v)"
proof -
  have "\<not> is_ok (pack_val ss_write t v (ss_new 0))"
    by (rule size_out.writes_fails [OF size_out.writes_val [OF assms(1)] assms(2)])
  then show ?thesis
    by (cases "pack_val ss_write t v (ss_new 0)") (simp_all add: pack_def pack_size_def)
qed

theorem pack_refuses_oversized_witness:
  "\<not> is_ok (pack TString (VBytes (replicate 20971521 0))) \<and>
   \<not> is_ok (pack_size TString (VBytes (replicate 20971521 0)))"
  by (rule pack_refuses_oversized [where e = Assert_failed])
    (simp_all add: enc_blob_def MAX_SIZE_OF_BYTE_ARRAYS_def)

text \<open>
  A \<^verbatim>\<open>signed_int\<close> has no such safety: six continuation bytes make \<^verbatim>\<open>unpack\<close>
  shift a 32-bit value by 35, where the unsigned loop stops after five bytes.
\<close>

lemma unpack_signed_int_overlong:
  "unpack TSigned_int [128, 128, 128, 128, 128, 0] = Inl Undefined_behaviour \<and>
   unpack TUnsigned_int [128, 128, 128, 128, 128, 0] = Inr (VInt 0)"
  by (simp add: unpack_def unpack_signed_int_def unpack_signed_int_loop.simps read_eval)

text \<open>
  What \<^verbatim>\<open>unpack\<close> puts in an ordered map is a map, whatever the bytes: keys in
  strictly increasing order, one entry a key.
\<close>

lemma unpack_map_ordered:
  assumes "unpack_map gt u w s = Inr (m, s')"
  shows "sorted_wrt (<) (map fst m)"
proof -
  from assms obtain xs where m: "m = fold map_insert xs []"
    by (auto simp: unpack_map_def fc_assert_Inr_iff elim!: and_then_InrE)
  have "sorted (map fst m) \<and> distinct (map fst m)"
    unfolding m by (rule fold_keeps [where P = "\<lambda>m. sorted (map fst m) \<and> distinct (map fst m)"])
      (simp, rule map_insert_keeps)
  then show ?thesis by (simp add: strict_sorted_iff)
qed

text \<open>
  An absent optional value does not clear its target: \<^verbatim>\<open>unpack\<close> of the encoding of
  an empty optional leaves whatever the target held.
\<close>

lemma unpack_optional_keeps_target:
  "and_then (pack_optional cs_write p None (cs_new [7])) (\<lambda>ds.
     and_then (unpack_optional cs_read u v (cs_new (cs_mem ds))) (\<lambda>(x, _). Inr x)) = Inr v"
  by (simp add: pack_optional_def pack_bool_def pack_scalar_def cs_write_def cs_remaining_def cs_new_def
      unpack_optional_def unpack_bool_def unpack_scalar_def cs_read_def)

end
