(* ===== verification/Message_Buffer.thy ===== *)
theory Message_Buffer
  imports Stream_Interfaces
begin

text \<open>
  The message buffer of \<^verbatim>\<open>fc/network/message_buffer.hpp\<close>: a chain of fixed-size blocks with a
  read and a write index, and the two datastreams over it. \<open>L\<close> is the template argument
  \<^verbatim>\<open>buffer_len\<close>. Blocks come from a Boost pool: \<open>pool i\<close> is what the \<open>i\<close>-th block it hands
  out happens to contain. Indices and sizes are 32-bit and wrap as they do in the code.
\<close>

type_synonym index_t = "u32 \<times> u32"
type_synonym block_pool = "nat \<Rightarrow> bytes"

record message_buffer =
  buffers :: "bytes list"
  read_ind :: index_t
  write_ind :: index_t
  sanity_check :: u64
  allocated :: nat

subsection \<open>Operations\<close>

definition mb_init :: "block_pool \<Rightarrow> message_buffer" where
  "mb_init pool = \<lparr>buffers = [pool 0], read_ind = (0, 0), write_ind = (0, 0), sanity_check = 1, allocated = 1\<rparr>"

definition add_buffer_to_chain :: "block_pool \<Rightarrow> message_buffer \<Rightarrow> message_buffer" where
  "add_buffer_to_chain pool m =
     m\<lparr>sanity_check := sanity_check m + 1, buffers := buffers m @ [pool (allocated m)],
       allocated := allocated m + 1\<rparr>"

text \<open>The number of blocks to add is a signed integer, and the loop counts up to it.\<close>

definition add_space :: "u32 \<Rightarrow> block_pool \<Rightarrow> u32 \<Rightarrow> message_buffer \<Rightarrow> message_buffer" where
  "add_space L pool bytes m = (add_buffer_to_chain pool ^^ nat (sint (bytes div L + 1))) m"

text \<open>The \<^verbatim>\<open>while (buffers.size() > 1)\<close> loop of \<^verbatim>\<open>reset\<close>.\<close>

function shrink :: "message_buffer \<Rightarrow> message_buffer" where
  "shrink m =
     (if length (buffers m) > 1
      then shrink (m\<lparr>sanity_check := sanity_check m - 1, buffers := butlast (buffers m)\<rparr>)
      else m)"
  by pat_completeness auto
termination
  by (relation "measure (\<lambda>m. length (buffers m))") auto

declare shrink.simps [simp del]

definition reset :: "message_buffer \<Rightarrow> message_buffer result" where
  "reset m =
     (if of_nat (length (buffers m)) \<noteq> sanity_check m \<or> length (buffers m) > 1000000
      then Inl (Process_exit 1)
      else Inr ((shrink m)\<lparr>read_ind := (0, 0), write_ind := (0, 0)\<rparr>))"

definition bytes_to_read_from_index :: "u32 \<Rightarrow> message_buffer \<Rightarrow> index_t \<Rightarrow> u32" where
  "bytes_to_read_from_index L m ind =
     (fst (write_ind m) - fst ind) * L + snd (write_ind m) - snd ind"

definition bytes_to_read :: "u32 \<Rightarrow> message_buffer \<Rightarrow> u32" where
  "bytes_to_read L m = bytes_to_read_from_index L m (read_ind m)"

definition total_bytes :: "u32 \<Rightarrow> message_buffer \<Rightarrow> u32" where
  "total_bytes L m = ucast ((ucast L :: u64) * of_nat (length (buffers m)))"

definition bytes_to_write :: "u32 \<Rightarrow> message_buffer \<Rightarrow> u32" where
  "bytes_to_write L m = total_bytes L m - fst (write_ind m) * L - snd (write_ind m)"

definition advance_index :: "u32 \<Rightarrow> index_t \<Rightarrow> u32 \<Rightarrow> index_t" where
  "advance_index L ind bytes = (fst ind + (bytes + snd ind) div L, (bytes + snd ind) mod L)"

text \<open>The loop of \<^verbatim>\<open>advance_read_ptr\<close> that returns the blocks already read.\<close>

function pop_read_blocks :: "message_buffer \<Rightarrow> message_buffer result" where
  "pop_read_blocks m =
     (if fst (read_ind m) > 0 then
        if buffers m = [] then Inl Undefined_behaviour
        else pop_read_blocks
          (m\<lparr>buffers := tl (buffers m), sanity_check := sanity_check m - 1,
             read_ind := (fst (read_ind m) - 1, snd (read_ind m)),
             write_ind := (fst (write_ind m) - 1, snd (write_ind m))\<rparr>)
      else Inr m)"
  by pat_completeness auto
termination
  by (relation "measure (\<lambda>m. length (buffers m))") auto

declare pop_read_blocks.simps [simp del]

definition advance_read_ptr :: "u32 \<Rightarrow> u32 \<Rightarrow> message_buffer \<Rightarrow> message_buffer result" where
  "advance_read_ptr L bytes m =
     (let m' = m\<lparr>read_ind := advance_index L (read_ind m) bytes\<rparr>
      in if read_ind m' = write_ind m' then reset m' else pop_read_blocks m')"

text \<open>The loop of \<^verbatim>\<open>advance_write_ptr\<close> that adds blocks up to the write index.\<close>

function extend_to_write :: "block_pool \<Rightarrow> message_buffer \<Rightarrow> message_buffer" where
  "extend_to_write pool m =
     (if unat (fst (write_ind m)) \<ge> length (buffers m)
      then extend_to_write pool (add_buffer_to_chain pool m) else m)"
  by pat_completeness auto
termination
  by (relation "measure (\<lambda>(p, m). unat (fst (write_ind m)) + 1 - length (buffers m))")
    (auto simp: add_buffer_to_chain_def)

declare extend_to_write.simps [simp del]

definition advance_write_ptr :: "u32 \<Rightarrow> block_pool \<Rightarrow> u32 \<Rightarrow> message_buffer \<Rightarrow> message_buffer" where
  "advance_write_ptr L pool bytes m =
     extend_to_write pool (m\<lparr>write_ind := advance_index L (write_ind m) bytes\<rparr>)"

text \<open>
  The memory regions for \<^verbatim>\<open>async_read\<close>: block number, first byte and length of each.
\<close>

definition get_buffer_sequence_for_boost_async_read ::
    "u32 \<Rightarrow> message_buffer \<Rightarrow> (nat \<times> nat \<times> nat) list result" where
  "get_buffer_sequence_for_boost_async_read L m =
     fc_assert (unat (fst (write_ind m)) < length (buffers m))
       (if snd (write_ind m) \<ge> L then Inl Std_out_of_range
        else Inr ((unat (fst (write_ind m)), unat (snd (write_ind m)), unat (L - snd (write_ind m))) #
          map (\<lambda>i. (i, 0, unat L)) [unat (fst (write_ind m)) + 1 ..< length (buffers m)]))"

text \<open>
  \<^verbatim>\<open>memcpy\<close> from the address of an index: \<^verbatim>\<open>at\<close> checks the position in the block, nothing
  checks the block number or the end of the copy.
\<close>

definition copy_from :: "u32 \<Rightarrow> message_buffer \<Rightarrow> index_t \<Rightarrow> u32 \<Rightarrow> bytes result" where
  "copy_from L m ind n =
     (if unat (fst ind) \<ge> length (buffers m) then Inl Undefined_behaviour
      else if snd ind \<ge> L then Inl Std_out_of_range
      else if unat (snd ind) + unat n \<le> length (buffers m ! unat (fst ind))
      then Inr (take (unat n) (drop (unat (snd ind)) (buffers m ! unat (fst ind))))
      else Inl Undefined_behaviour)"

text \<open>Each recursive call of \<^verbatim>\<open>read\<close> and \<^verbatim>\<open>peek\<close> asks for fewer bytes.\<close>

lemma copy_rest_smaller:
  assumes "copy_from L m ind (L - snd ind) = Inr d" and "\<not> snd ind + sz \<le> L"
  shows "unat (sz - (L - snd ind)) < unat sz" and "unat (L - snd ind) = unat L - unat (snd ind)"
    and "unat (sz - (L - snd ind)) = unat sz - (unat L - unat (snd ind))" and "snd ind < L"
    and "unat L - unat (snd ind) < unat sz"
proof -
  show s: "snd ind < L" using assms(1) by (auto simp: copy_from_def not_le split: if_splits)
  then have su: "unat (snd ind) < unat L" by (simp add: word_less_nat_alt)
  show n: "unat (L - snd ind) = unat L - unat (snd ind)"
    using s by (simp add: unat_sub less_imp_le)
  show sz: "unat L - unat (snd ind) < unat sz"
  proof (rule ccontr)
    assume "\<not> unat L - unat (snd ind) < unat sz"
    with su have le: "unat (snd ind) + unat sz \<le> unat L" by linarith
    with word_unat_lt [of L] have "unat (snd ind + sz) = unat (snd ind) + unat sz"
      by (simp add: unat_word_ariths)
    with le assms(2) show False by (simp add: word_le_nat_alt)
  qed
  show "unat (sz - (L - snd ind)) = unat sz - (unat L - unat (snd ind))"
    using sz by (simp add: unat_sub word_le_nat_alt n)
  with sz su show "unat (sz - (L - snd ind)) < unat sz" by linarith
qed

function mb_read :: "u32 \<Rightarrow> u32 \<Rightarrow> message_buffer \<Rightarrow> (bytes \<times> message_buffer) result" where
  "mb_read L sz m =
     (if bytes_to_read L m < sz then Inl Out_of_range
      else if snd (read_ind m) + sz \<le> L then
        and_then (copy_from L m (read_ind m) sz) (\<lambda>d.
          and_then (advance_read_ptr L sz m) (\<lambda>m'. Inr (d, m')))
      else
        let num_in_buffer = L - snd (read_ind m)
        in and_then (copy_from L m (read_ind m) num_in_buffer) (\<lambda>d.
             and_then (advance_read_ptr L num_in_buffer m) (\<lambda>m'.
               and_then (mb_read L (sz - num_in_buffer) m') (\<lambda>(d', m''). Inr (d @ d', m'')))))"
  by pat_completeness auto
termination
  by (relation "measure (\<lambda>(L, sz, m). unat sz)") (auto intro: copy_rest_smaller(1))

declare mb_read.simps [simp del]

function mb_peek :: "u32 \<Rightarrow> message_buffer \<Rightarrow> u32 \<Rightarrow> index_t \<Rightarrow> (bytes \<times> index_t) result" where
  "mb_peek L m sz index =
     (if bytes_to_read_from_index L m index < sz then Inl Out_of_range
      else if snd index + sz \<le> L then
        and_then (copy_from L m index sz) (\<lambda>d. Inr (d, advance_index L index sz))
      else
        let num_in_buffer = L - snd index
        in and_then (copy_from L m index num_in_buffer) (\<lambda>d.
             and_then (mb_peek L m (sz - num_in_buffer) (advance_index L index num_in_buffer))
               (\<lambda>(d', index'). Inr (d @ d', index'))))"
  by pat_completeness auto
termination
  by (relation "measure (\<lambda>(L, m, sz, index). unat sz)") (auto intro: copy_rest_smaller(1))

declare mb_peek.simps [simp del]

subsection \<open>Datastreams over a message buffer\<close>

text \<open>\<^verbatim>\<open>mb_datastream\<close> reads from the buffer itself. Its \<^verbatim>\<open>skip\<close> checks nothing.\<close>

definition mbds_skip :: "u32 \<Rightarrow> u64 \<Rightarrow> message_buffer \<Rightarrow> message_buffer result" where
  "mbds_skip L n m = advance_read_ptr L (ucast n) m"

definition mbds_read :: "u32 \<Rightarrow> nat \<Rightarrow> message_buffer \<Rightarrow> (bytes \<times> message_buffer) result" where
  "mbds_read L n m =
     (if n \<le> unat (bytes_to_read L m) then mb_read L (of_nat n) m else Inl Out_of_range)"

definition mbds_get :: "u32 \<Rightarrow> message_buffer \<Rightarrow> (byte \<times> message_buffer) result" where
  "mbds_get L m = and_then (mb_read L 1 m) (\<lambda>(d, m'). Inr (hd d, m'))"

text \<open>\<^verbatim>\<open>mb_peek_datastream\<close> keeps its own index and leaves the buffer alone.\<close>

record mb_peek_stream =
  mps_mb :: message_buffer
  mps_index :: index_t

definition mps_init :: "message_buffer \<Rightarrow> mb_peek_stream" where
  "mps_init m = \<lparr>mps_mb = m, mps_index = read_ind m\<rparr>"

definition mps_skip :: "u32 \<Rightarrow> u64 \<Rightarrow> mb_peek_stream \<Rightarrow> mb_peek_stream" where
  "mps_skip L n s = s\<lparr>mps_index := advance_index L (mps_index s) (ucast n)\<rparr>"

definition mps_read :: "u32 \<Rightarrow> nat \<Rightarrow> mb_peek_stream \<Rightarrow> (bytes \<times> mb_peek_stream) result" where
  "mps_read L n s =
     (if n \<le> unat (bytes_to_read_from_index L (mps_mb s) (mps_index s))
      then and_then (mb_peek L (mps_mb s) (of_nat n) (mps_index s))
             (\<lambda>(d, ind). Inr (d, s\<lparr>mps_index := ind\<rparr>))
      else Inl Out_of_range)"

definition mps_get :: "u32 \<Rightarrow> mb_peek_stream \<Rightarrow> (byte \<times> mb_peek_stream) result" where
  "mps_get L s =
     and_then (mb_peek L (mps_mb s) 1 (mps_index s)) (\<lambda>(d, ind). Inr (hd d, s\<lparr>mps_index := ind\<rparr>))"

end
