(* ===== verification/Message_Buffer_Correct.thy ===== *)
theory Message_Buffer_Correct
  imports Message_Buffer Raw_Correct
begin

text \<open>
  The message buffer is a queue of bytes. \<open>mb_ok\<close> is the invariant of the chain, \<open>mb_pending\<close>
  the bytes between the read and the write index, and every operation is described by what it does
  to them; both datastreams interpret the reading interface of the serializer.
\<close>

subsection \<open>Abstraction and invariant\<close>

definition pos_of :: "u32 \<Rightarrow> index_t \<Rightarrow> nat" where
  "pos_of L ind = unat (fst ind) * unat L + unat (snd ind)"

definition mb_flat :: "message_buffer \<Rightarrow> bytes" where
  "mb_flat m = concat (buffers m)"

definition mb_between :: "message_buffer \<Rightarrow> nat \<Rightarrow> nat \<Rightarrow> bytes" where
  "mb_between m i j = take (j - i) (drop i (mb_flat m))"

definition mb_pending :: "u32 \<Rightarrow> message_buffer \<Rightarrow> bytes" where
  "mb_pending L m = mb_between m (pos_of L (read_ind m)) (pos_of L (write_ind m))"

definition mb_blocks_ok :: "u32 \<Rightarrow> message_buffer \<Rightarrow> bool" where
  "mb_blocks_ok L m \<longleftrightarrow>
     (\<forall>b \<in> set (buffers m). length b = unat L) \<and>
     sanity_check m = of_nat (length (buffers m)) \<and>
     length (buffers m) \<le> 1000000 \<and> length (buffers m) * unat L < 2 ^ 32"

definition mb_ok :: "u32 \<Rightarrow> message_buffer \<Rightarrow> bool" where
  "mb_ok L m \<longleftrightarrow>
     mb_blocks_ok L m \<and> snd (read_ind m) < L \<and> snd (write_ind m) < L \<and>
     unat (fst (write_ind m)) < length (buffers m) \<and>
     pos_of L (read_ind m) \<le> pos_of L (write_ind m)"

subsection \<open>Indices\<close>

lemma pos_of_lt:
  assumes "snd ind < L" and "unat (fst ind) < n"
  shows "pos_of L ind < n * unat L"
proof -
  have "pos_of L ind < (unat (fst ind) + 1) * unat L"
    using assms(1) by (simp add: pos_of_def word_less_nat_alt)
  also have "\<dots> \<le> n * unat L" using assms(2) by (intro mult_right_mono) auto
  finally show ?thesis .
qed

lemma pos_of_div_mod:
  assumes "snd ind < L"
  shows "pos_of L ind div unat L = unat (fst ind)" and "pos_of L ind mod unat L = unat (snd ind)"
  using assms by (simp_all add: pos_of_def word_less_nat_alt)

lemma pos_of_inj:
  assumes "snd i < L" and "snd j < L"
  shows "pos_of L i = pos_of L j \<longleftrightarrow> i = j"
  using pos_of_div_mod [OF assms(1)] pos_of_div_mod [OF assms(2)]
  by (metis prod_eq_iff word_unat_eq_iff)

lemma advance_index_pos:
  assumes "snd ind < L" and "pos_of L ind + n < 2 ^ 32"
  shows "unat (fst (advance_index L ind (of_nat n))) = (pos_of L ind + n) div unat L"
    and "unat (snd (advance_index L ind (of_nat n))) = (pos_of L ind + n) mod unat L"
    and "pos_of L (advance_index L ind (of_nat n)) = pos_of L ind + n"
    and "snd (advance_index L ind (of_nat n)) < L"
proof -
  have L: "0 < unat L" using assms(1) by (simp add: word_less_nat_alt)
  have n: "n + unat (snd ind) < 2 ^ 32" using assms(2) by (simp add: pos_of_def)
  then have a: "unat (of_nat n + snd ind :: u32) = n + unat (snd ind)"
    by (simp add: unat_word_ariths unat_of_nat)
  have d: "(pos_of L ind + n) div unat L = unat (fst ind) + (n + unat (snd ind)) div unat L"
    using L by (simp add: pos_of_def add.assoc add.commute [of n])
  have "(pos_of L ind + n) div unat L < 2 ^ 32"
    using assms(2) div_le_dividend le_less_trans by blast
  then show f: "unat (fst (advance_index L ind (of_nat n))) = (pos_of L ind + n) div unat L"
    unfolding d advance_index_def fst_conv
    by (subst unat_add_lt) (simp_all add: unat_div a del: unat_add_lt)
  have "(pos_of L ind + n) mod unat L = (n + unat (snd ind)) mod unat L"
    by (simp add: pos_of_def add.assoc add.commute [of n])
  then show s: "unat (snd (advance_index L ind (of_nat n))) = (pos_of L ind + n) mod unat L"
    by (simp add: advance_index_def unat_mod a)
  show "pos_of L (advance_index L ind (of_nat n)) = pos_of L ind + n"
    unfolding pos_of_def [of L "advance_index L ind (of_nat n)"] f s by simp
  show "snd (advance_index L ind (of_nat n)) < L"
    using L s by (simp add: word_less_nat_alt)
qed

lemma bytes_to_read_from_index_eq:
  assumes "pos_of L ind \<le> pos_of L (write_ind m)" and "pos_of L (write_ind m) < 2 ^ 32"
  shows "unat (bytes_to_read_from_index L m ind) = pos_of L (write_ind m) - pos_of L ind"
proof -
  have "bytes_to_read_from_index L m ind =
      of_nat (pos_of L (write_ind m)) - of_nat (pos_of L ind)"
    by (simp add: bytes_to_read_from_index_def pos_of_def algebra_simps)
  with unat_of_nat_diff [where 'a = 32, OF assms(1)] assms(2) show ?thesis by simp
qed

lemma mb_ok_write_lt:
  assumes "mb_ok L m"
  shows "pos_of L (write_ind m) < length (buffers m) * unat L" and "pos_of L (write_ind m) < 2 ^ 32"
    and "length (mb_flat m) = length (buffers m) * unat L"
proof -
  show w: "pos_of L (write_ind m) < length (buffers m) * unat L"
    using assms by (intro pos_of_lt) (auto simp: mb_ok_def)
  also have "\<dots> < 2 ^ 32" using assms by (simp add: mb_ok_def mb_blocks_ok_def)
  finally show "pos_of L (write_ind m) < 2 ^ 32" .
  show "length (mb_flat m) = length (buffers m) * unat L"
    unfolding mb_flat_def by (rule length_concat_blocks) (use assms in \<open>auto simp: mb_ok_def mb_blocks_ok_def\<close>)
qed

lemma length_mb_pending:
  "mb_ok L m \<Longrightarrow> length (mb_pending L m) = pos_of L (write_ind m) - pos_of L (read_ind m)"
  using mb_ok_write_lt [of L m] by (simp add: mb_pending_def mb_between_def)

lemma bytes_to_read_eq: "mb_ok L m \<Longrightarrow> unat (bytes_to_read L m) = length (mb_pending L m)"
  using mb_ok_write_lt [of L m]
  by (simp add: bytes_to_read_def bytes_to_read_from_index_eq length_mb_pending mb_ok_def)

subsection \<open>Returning blocks\<close>

lemma shrink_eq:
  "buffers m \<noteq> [] \<Longrightarrow>
     shrink m = m\<lparr>sanity_check := sanity_check m - of_nat (length (buffers m) - 1), buffers := take 1 (buffers m)\<rparr>"
proof (induction m rule: shrink.induct)
  case (1 m)
  show ?case
  proof (cases "length (buffers m) > 1")
    case True
    let ?m = "m\<lparr>sanity_check := sanity_check m - 1, buffers := butlast (buffers m)\<rparr>"
    have "buffers ?m \<noteq> []" using True by (cases "buffers m" rule: rev_cases) auto
    with 1 True have "shrink m = ?m\<lparr>sanity_check := sanity_check ?m - of_nat (length (buffers ?m) - 1),
        buffers := take 1 (buffers ?m)\<rparr>"
      by (simp add: shrink.simps [of m])
    moreover have "take 1 (butlast (buffers m)) = take 1 (buffers m)"
      using True by (simp add: butlast_conv_take)
    moreover have "1 + (of_nat (length (buffers m) - 1 - 1) :: u64) = of_nat (length (buffers m) - 1)"
      using True by (metis Suc_diff_1 less_imp_le_nat of_nat_Suc zero_less_diff)
    ultimately show ?thesis by (simp add: algebra_simps)
  next
    case False
    with 1 have "length (buffers m) = 1" by (cases "buffers m") auto
    then show ?thesis by (simp add: shrink.simps [of m])
  qed
qed

lemma reset_ok:
  assumes "mb_blocks_ok L m" and "buffers m \<noteq> []" and "0 < unat L"
  obtains m' where "reset m = Inr m'" and "mb_ok L m'" and "mb_pending L m' = []"
proof -
  let ?m = "(shrink m)\<lparr>read_ind := (0, 0), write_ind := (0, 0)\<rparr>"
  obtain b bs where b: "buffers m = b # bs" using assms(2) by (cases "buffers m") auto
  have "unat L < 2 ^ 32" using word_unat_lt [of L] by simp
  with assms b have "mb_ok L ?m"
    by (simp add: mb_ok_def mb_blocks_ok_def shrink_eq word_less_nat_alt pos_of_def)
  moreover have "reset m = Inr ?m" using assms(1) by (simp add: reset_def mb_blocks_ok_def)
  moreover have "mb_pending L ?m = []" by (simp add: mb_pending_def mb_between_def)
  ultimately show thesis using that by blast
qed

lemma pop_read_blocks_eq:
  "unat (fst (read_ind m)) \<le> length (buffers m) \<Longrightarrow>
     pop_read_blocks m =
       Inr (m\<lparr>buffers := drop (unat (fst (read_ind m))) (buffers m),
              sanity_check := sanity_check m - of_nat (unat (fst (read_ind m))),
              read_ind := (0, snd (read_ind m)),
              write_ind := (fst (write_ind m) - fst (read_ind m), snd (write_ind m))\<rparr>)"
proof (induction m rule: pop_read_blocks.induct)
  case (1 m)
  show ?case
  proof (cases "fst (read_ind m) > 0")
    case True
    let ?k = "unat (fst (read_ind m))"
    have k: "0 < ?k" using True by (simp add: word_less_nat_alt)
    then have k1: "unat (fst (read_ind m) - 1) = ?k - 1"
      by (simp add: unat_sub word_le_nat_alt)
    obtain b bs where b: "buffers m = b # bs" using 1 k by (cases "buffers m") auto
    have s: "1 + (of_nat (?k - 1) :: u64) = of_nat ?k"
      using k by (metis Suc_pred' of_nat_Suc)
    have "drop (?k - 1) bs = drop ?k (b # bs)" using k by (cases ?k) auto
    moreover have "sanity_check m - 1 - of_nat (?k - 1) = sanity_check m - of_nat ?k"
      unfolding s [symmetric] by (simp add: algebra_simps)
    ultimately show ?thesis
      using 1 True b k1 by (simp add: pop_read_blocks.simps [of m])
  next
    case False
    then have "fst (read_ind m) = 0" by (simp add: word_gt_0)
    then obtain j where "read_ind m = (0, j)" by (cases "read_ind m") simp
    then show ?thesis by (simp add: pop_read_blocks.simps [of m])
  qed
qed

lemma pop_read_blocks_ok:
  assumes m: "mb_ok L m"
  obtains m' where "pop_read_blocks m = Inr m'" and "mb_ok L m'" and "mb_pending L m' = mb_pending L m"
proof -
  let ?r = "pos_of L (read_ind m)" and ?w = "pos_of L (write_ind m)"
  let ?q = "unat (fst (read_ind m))" and ?bs = "buffers m"
  have L: "snd (read_ind m) < L" "snd (write_ind m) < L" and w: "unat (fst (write_ind m)) < length ?bs"
    and rw: "?r \<le> ?w" and bl: "\<forall>b \<in> set ?bs. length b = unat L"
    using m by (simp_all add: mb_ok_def mb_blocks_ok_def)
  have q: "?q \<le> unat (fst (write_ind m))"
    using div_le_mono [OF rw, of "unat L"] pos_of_div_mod(1) [OF L(1)] pos_of_div_mod(1) [OF L(2)] by simp
  then have f: "unat (fst (write_ind m) - fst (read_ind m)) = unat (fst (write_ind m)) - ?q"
    by (simp add: unat_sub word_le_nat_alt)
  let ?m = "m\<lparr>buffers := drop ?q ?bs, sanity_check := sanity_check m - of_nat ?q,
      read_ind := (0, snd (read_ind m)),
      write_ind := (fst (write_ind m) - fst (read_ind m), snd (write_ind m))\<rparr>"
  have "pop_read_blocks m = Inr ?m" using q w by (intro pop_read_blocks_eq) simp
  moreover have r': "pos_of L (read_ind ?m) = ?r - ?q * unat L" by (simp add: pos_of_def)
  moreover have w': "pos_of L (write_ind ?m) = ?w - ?q * unat L"
    using q by (simp add: pos_of_def f diff_mult_distrib)
  moreover have qr: "?q * unat L \<le> ?r" by (simp add: pos_of_def)
  moreover have "mb_flat ?m = drop (?q * unat L) (mb_flat m)"
    using bl q w by (simp add: mb_flat_def drop_concat_blocks)
  then have "mb_pending L ?m = mb_pending L m"
    using qr rw by (simp only: mb_pending_def mb_between_def r' w' drop_drop) simp
  moreover have "mb_ok L ?m"
  proof -
    have "(length ?bs - ?q) * unat L \<le> length ?bs * unat L" by simp
    also have "\<dots> < 2 ^ 32" using m by (simp add: mb_ok_def mb_blocks_ok_def)
    finally have "(length ?bs - ?q) * unat L < 2 ^ 32" .
    moreover have "sanity_check m - of_nat ?q = of_nat (length ?bs - ?q)"
      using m q w by (simp add: mb_ok_def mb_blocks_ok_def)
    moreover have "unat (fst (write_ind m)) - ?q < length ?bs - ?q" using q w by linarith
    moreover have "?r - ?q * unat L \<le> ?w - ?q * unat L" using rw by simp
    ultimately show ?thesis
      using m bl L f r' w' by (auto simp: mb_ok_def mb_blocks_ok_def dest: in_set_dropD)
  qed
  ultimately show thesis using that by blast
qed

lemma advance_read_ptr_ok:
  assumes m: "mb_ok L m" and n: "n \<le> length (mb_pending L m)"
  obtains m' where "advance_read_ptr L (of_nat n) m = Inr m'" and "mb_ok L m'"
    and "mb_pending L m' = drop n (mb_pending L m)"
proof -
  let ?r = "pos_of L (read_ind m)" and ?w = "pos_of L (write_ind m)"
  let ?i = "advance_index L (read_ind m) (of_nat n)"
  let ?m = "m\<lparr>read_ind := ?i\<rparr>"
  note w = mb_ok_write_lt [OF m]
  have "?r \<le> ?w" using m by (simp add: mb_ok_def)
  with n m have rn: "?r + n \<le> ?w" by (simp add: length_mb_pending)
  have L: "snd (read_ind m) < L" "snd (write_ind m) < L" using m by (simp_all add: mb_ok_def)
  have "?r + n < 2 ^ 32" using rn w by simp
  note i = advance_index_pos [OF L(1) this]
  have bl: "mb_blocks_ok L ?m" "0 < unat L" "buffers m \<noteq> []"
    using m L by (auto simp: mb_ok_def mb_blocks_ok_def word_less_nat_alt)
  show thesis
  proof (cases "?i = write_ind m")
    case True
    then have "?r + n = ?w" using i(3) by simp
    then have p: "drop n (mb_pending L m) = []" using m by (simp add: length_mb_pending)
    from bl obtain m' where "reset ?m = Inr m'" "mb_ok L m'" "mb_pending L m' = []"
      by (auto elim: reset_ok)
    with p True that show thesis by (simp add: advance_read_ptr_def Let_def)
  next
    case False
    obtain m' where m': "pop_read_blocks ?m = Inr m'" and ok: "mb_ok L m'"
      and p: "mb_pending L m' = mb_between m (?r + n) ?w"
    proof (rule pop_read_blocks_ok [of L ?m])
      show "mb_ok L ?m" using m i rn bl by (simp add: mb_ok_def)
    qed (use i(3) in \<open>auto simp: mb_pending_def mb_between_def mb_flat_def\<close>)
    have "mb_between m (?r + n) ?w = drop n (mb_pending L m)"
      by (simp add: mb_pending_def mb_between_def drop_take add.commute)
    with m' ok p False that show thesis by (simp add: advance_read_ptr_def Let_def)
  qed
qed

subsection \<open>Reading\<close>

text \<open>An index between the start of the chain and the write index.\<close>

definition index_ok :: "u32 \<Rightarrow> message_buffer \<Rightarrow> index_t \<Rightarrow> bool" where
  "index_ok L m ind \<longleftrightarrow> snd ind < L \<and> pos_of L ind \<le> pos_of L (write_ind m)"

lemma index_ok_read: "mb_ok L m \<Longrightarrow> index_ok L m (read_ind m)"
  by (simp add: index_ok_def mb_ok_def)

lemma index_ok_block:
  assumes "mb_ok L m" and "index_ok L m ind"
  shows "unat (fst ind) < length (buffers m)" and "unat (snd ind) < unat L"
proof -
  have "unat (fst ind) \<le> unat (fst (write_ind m))"
    using assms div_le_mono [of "pos_of L ind" "pos_of L (write_ind m)" "unat L"]
      pos_of_div_mod(1) [of ind L] pos_of_div_mod(1) [of "write_ind m" L]
    by (simp add: mb_ok_def index_ok_def)
  with assms show "unat (fst ind) < length (buffers m)" by (simp add: mb_ok_def)
  show "unat (snd ind) < unat L" using assms(2) by (simp add: index_ok_def word_less_nat_alt)
qed

lemma index_ok_advance:
  assumes "mb_ok L m" and "index_ok L m ind" and "pos_of L ind + n \<le> pos_of L (write_ind m)"
  shows "index_ok L m (advance_index L ind (of_nat n))"
    and "pos_of L (advance_index L ind (of_nat n)) = pos_of L ind + n"
proof -
  have "pos_of L ind + n < 2 ^ 32" using assms mb_ok_write_lt(2) [of L m] by simp
  then show "index_ok L m (advance_index L ind (of_nat n))"
    and "pos_of L (advance_index L ind (of_nat n)) = pos_of L ind + n"
    using assms advance_index_pos [of ind L n] by (simp_all add: index_ok_def)
qed

lemma copy_from_ok:
  assumes "mb_ok L m" and "index_ok L m ind" and "unat (snd ind) + unat n \<le> unat L"
  shows "copy_from L m ind n = Inr (take (unat n) (drop (pos_of L ind) (mb_flat m)))"
proof -
  have bl: "\<forall>b \<in> set (buffers m). length b = unat L" using assms(1) by (simp add: mb_ok_def mb_blocks_ok_def)
  note i = index_ok_block [OF assms(1,2)]
  have "take (unat n) (drop (unat (snd ind)) (buffers m ! unat (fst ind))) =
      take (unat n) (drop (pos_of L ind) (mb_flat m))"
    unfolding pos_of_def mb_flat_def by (rule take_in_block [OF bl i(1) assms(3)])
  moreover have "length (buffers m ! unat (fst ind)) = unat L" using bl i by simp
  ultimately show ?thesis
    using i assms(3) by (simp add: copy_from_def not_le word_less_nat_alt)
qed

text \<open>The test that a request ends in the current block, on 32-bit words that do not wrap here.\<close>

lemma ends_in_block_iff:
  assumes "mb_ok L m" and "index_ok L m ind" and "pos_of L ind + n \<le> pos_of L (write_ind m)"
  shows "snd ind + of_nat n \<le> L \<longleftrightarrow> unat (snd ind) + n \<le> unat L" and "unat (of_nat n :: u32) = n"
proof -
  have lt: "pos_of L ind + n < 2 ^ 32" using assms mb_ok_write_lt(2) [of L m] by simp
  then have "unat (snd ind) + n < 2 ^ 32" by (simp add: pos_of_def)
  moreover from this show u: "unat (of_nat n :: u32) = n" by (simp add: unat_of_nat_lt)
  ultimately show "snd ind + of_nat n \<le> L \<longleftrightarrow> unat (snd ind) + n \<le> unat L"
    by (simp add: word_le_nat_alt unat_word_ariths)
qed

lemma rest_in_block:
  assumes "mb_ok L m" and "index_ok L m ind"
  shows "L - snd ind = of_nat (unat L - unat (snd ind))" and "unat (L - snd ind) = unat L - unat (snd ind)"
proof -
  show "unat (L - snd ind) = unat L - unat (snd ind)"
    using index_ok_block(2) [OF assms] by (simp add: unat_sub word_le_nat_alt)
  then show "L - snd ind = of_nat (unat L - unat (snd ind))" by (metis of_nat_unat ucast_id)
qed

lemma mb_peek_ok:
  assumes m: "mb_ok L m"
  shows "index_ok L m ind \<Longrightarrow> pos_of L ind + n \<le> pos_of L (write_ind m) \<Longrightarrow>
    mb_peek L m (of_nat n) ind =
      Inr (take n (drop (pos_of L ind) (mb_flat m)), advance_index L ind (of_nat n))"
proof (induction n arbitrary: ind rule: less_induct)
  case (less n)
  note i = less.prems(1) and n = less.prems(2)
  note ends = ends_in_block_iff [OF m i n]
  have "unat (bytes_to_read_from_index L m ind) = pos_of L (write_ind m) - pos_of L ind"
    using i mb_ok_write_lt [OF m] by (simp add: bytes_to_read_from_index_eq index_ok_def)
  with n ends(2) have enough: "\<not> bytes_to_read_from_index L m ind < of_nat n"
    by (simp add: word_less_nat_alt)
  show ?case
  proof (cases "unat (snd ind) + n \<le> unat L")
    case True
    with enough ends copy_from_ok [OF m i, of "of_nat n"] show ?thesis
      by (simp add: mb_peek.simps [of L m "of_nat n"])
  next
    case False
    define k where "k = unat L - unat (snd ind)"
    note s = index_ok_block [OF m i] and r = rest_in_block [OF m i, folded k_def]
    have k: "0 < k" "k < n" "unat (snd ind) + k = unat L" using s False by (simp_all add: k_def)
    have kn: "pos_of L ind + k \<le> pos_of L (write_ind m)" using n k by simp
    note a = index_ok_advance [OF m i kn]
    have "mb_peek L m (of_nat (n - k)) (advance_index L ind (of_nat k)) =
        Inr (take (n - k) (drop (pos_of L ind + k) (mb_flat m)),
          advance_index L (advance_index L ind (of_nat k)) (of_nat (n - k)))"
      using less.IH [of "n - k" "advance_index L ind (of_nat k)"] k n a by simp
    moreover have "advance_index L (advance_index L ind (of_nat k)) (of_nat (n - k)) =
        advance_index L ind (of_nat n)"
    proof (rule iffD1 [OF pos_of_inj])
      have "pos_of L (advance_index L ind (of_nat k)) + (n - k) \<le> pos_of L (write_ind m)"
        using a k n by simp
      note b = index_ok_advance [OF m a(1) this] and c = index_ok_advance [OF m i n]
      show "snd (advance_index L (advance_index L ind (of_nat k)) (of_nat (n - k))) < L"
        and "snd (advance_index L ind (of_nat n)) < L" using b c by (simp_all add: index_ok_def)
      show "pos_of L (advance_index L (advance_index L ind (of_nat k)) (of_nat (n - k))) =
        pos_of L (advance_index L ind (of_nat n))" using a b c k by simp
    qed
    moreover have "of_nat n - of_nat k = (of_nat (n - k) :: u32)" using k by simp
    moreover have "take k (drop (pos_of L ind) (mb_flat m)) @ take (n - k) (drop (pos_of L ind + k) (mb_flat m)) =
        take n (drop (pos_of L ind) (mb_flat m))"
      using k take_add [of k "n - k" "drop (pos_of L ind) (mb_flat m)"] by (simp add: add.commute)
    moreover have "copy_from L m ind (of_nat k) = Inr (take k (drop (pos_of L ind) (mb_flat m)))"
      using copy_from_ok [OF m i, of "of_nat k"] r k by simp
    ultimately show ?thesis
      using False enough ends r by (simp add: mb_peek.simps [of L m "of_nat n"] Let_def)
  qed
qed

lemma mb_read_short:
  "mb_ok L m \<Longrightarrow> length (mb_pending L m) < unat sz \<Longrightarrow> mb_read L sz m = Inl Out_of_range"
  by (simp add: mb_read.simps [of L sz] word_less_nat_alt bytes_to_read_eq)

lemma take_pending:
  "mb_ok L m \<Longrightarrow> n \<le> length (mb_pending L m) \<Longrightarrow>
     take n (drop (pos_of L (read_ind m)) (mb_flat m)) = take n (mb_pending L m)"
  by (simp add: length_mb_pending) (simp add: mb_pending_def mb_between_def min_def)

lemma mb_read_ok:
  "mb_ok L m \<Longrightarrow> n \<le> length (mb_pending L m) \<Longrightarrow>
    \<exists>m'. mb_read L (of_nat n) m = Inr (take n (mb_pending L m), m') \<and> mb_ok L m' \<and>
      mb_pending L m' = drop n (mb_pending L m)"
proof (induction n arbitrary: m rule: less_induct)
  case (less n)
  note m = less.prems(1) and n = less.prems(2)
  note i = index_ok_read [OF m]
  have nw: "pos_of L (read_ind m) + n \<le> pos_of L (write_ind m)"
    using n m by (simp add: length_mb_pending mb_ok_def le_diff_conv2 add.commute)
  note ends = ends_in_block_iff [OF m i nw]
  from n ends(2) have enough: "\<not> bytes_to_read L m < of_nat n"
    by (simp add: word_less_nat_alt bytes_to_read_eq [OF m])
  show ?case
  proof (cases "unat (snd (read_ind m)) + n \<le> unat L")
    case True
    then have "copy_from L m (read_ind m) (of_nat n) = Inr (take n (mb_pending L m))"
      using copy_from_ok [OF m i, of "of_nat n"] take_pending [OF m n] ends by simp
    moreover obtain m' where "advance_read_ptr L (of_nat n) m = Inr m'" "mb_ok L m'"
      "mb_pending L m' = drop n (mb_pending L m)" by (rule advance_read_ptr_ok [OF m n])
    ultimately show ?thesis
      using True enough ends by (simp add: mb_read.simps [of L "of_nat n"])
  next
    case False
    define k where "k = unat L - unat (snd (read_ind m))"
    note s = index_ok_block [OF m i] and r = rest_in_block [OF m i, folded k_def]
    have k: "0 < k" "k < n" "unat (snd (read_ind m)) + k = unat L"
      using s False by (simp_all add: k_def)
    have kn: "k \<le> length (mb_pending L m)" using n k by simp
    obtain m' where m': "advance_read_ptr L (of_nat k) m = Inr m'" "mb_ok L m'"
      "mb_pending L m' = drop k (mb_pending L m)" by (rule advance_read_ptr_ok [OF m kn])
    have nk: "n - k \<le> length (mb_pending L m')" using n m' by (simp add: diff_le_mono)
    obtain m'' where m'': "mb_read L (of_nat (n - k)) m' = Inr (take (n - k) (mb_pending L m'), m'')"
      "mb_ok L m''" "mb_pending L m'' = drop (n - k) (mb_pending L m')"
      using less.IH [OF _ m'(2) nk] k by auto
    have "copy_from L m (read_ind m) (of_nat k) = Inr (take k (mb_pending L m))"
      using copy_from_ok [OF m i, of "of_nat k"] take_pending [OF m kn] r k by simp
    moreover have "of_nat n - of_nat k = (of_nat (n - k) :: u32)" using k by simp
    moreover have "take k (mb_pending L m) @ take (n - k) (drop k (mb_pending L m)) = take n (mb_pending L m)"
      using k take_add [of k "n - k" "mb_pending L m"] by simp
    ultimately have "mb_read L (of_nat n) m = Inr (take n (mb_pending L m), m'')"
      using False enough ends r m' m'' by (simp add: mb_read.simps [of L "of_nat n"] Let_def)
    moreover have "mb_pending L m'' = drop n (mb_pending L m)" using m' m'' k by simp
    ultimately show ?thesis using m'' by blast
  qed
qed

subsection \<open>The datastreams\<close>

lemma mbds_get_ok:
  assumes "mb_ok L m" and "mb_pending L m = x # ys"
  shows "\<exists>m'. mbds_get L m = Inr (x, m') \<and> mb_ok L m' \<and> mb_pending L m' = ys"
  using mb_read_ok [OF assms(1), of 1] assms(2) by (auto simp: mbds_get_def)

interpretation mb_in: in_stream "mbds_read L" "mbds_get L" "mb_pending L" "mb_ok L" for L
proof (unfold_locales, goal_cases)
  case (1 s xs ys)
  then show ?case
    using mb_read_ok [OF 1(1), of "length xs"] by (simp add: mbds_read_def bytes_to_read_eq)
next
  case (2 s x ys)
  then show ?case by (rule mbds_get_ok)
next
  case (3 s n)
  then show ?case by (simp add: mbds_read_def bytes_to_read_eq)
next
  case (4 s)
  then show ?case by (simp add: mbds_get_def mb_read_short)
qed

definition mps_ok :: "u32 \<Rightarrow> mb_peek_stream \<Rightarrow> bool" where
  "mps_ok L s \<longleftrightarrow> mb_ok L (mps_mb s) \<and> index_ok L (mps_mb s) (mps_index s)"

definition mps_pending :: "u32 \<Rightarrow> mb_peek_stream \<Rightarrow> bytes" where
  "mps_pending L s = mb_between (mps_mb s) (pos_of L (mps_index s)) (pos_of L (write_ind (mps_mb s)))"

lemma length_mps_pending:
  "mps_ok L s \<Longrightarrow>
     length (mps_pending L s) = pos_of L (write_ind (mps_mb s)) - pos_of L (mps_index s)"
  using mb_ok_write_lt [of L "mps_mb s"] by (simp add: mps_ok_def mps_pending_def mb_between_def)

lemma mps_remaining:
  "mps_ok L s \<Longrightarrow>
     unat (bytes_to_read_from_index L (mps_mb s) (mps_index s)) = length (mps_pending L s)"
  using mb_ok_write_lt [of L "mps_mb s"] length_mps_pending [of L s]
  by (simp add: bytes_to_read_from_index_eq mps_ok_def index_ok_def)

lemma mps_peek_ok:
  assumes s: "mps_ok L s" and n: "n \<le> length (mps_pending L s)"
  defines "i \<equiv> advance_index L (mps_index s) (of_nat n)"
  shows "mb_peek L (mps_mb s) (of_nat n) (mps_index s) = Inr (take n (mps_pending L s), i)"
    and "mps_ok L (s\<lparr>mps_index := i\<rparr>)"
    and "mps_pending L (s\<lparr>mps_index := i\<rparr>) = drop n (mps_pending L s)"
proof -
  let ?p = "pos_of L (mps_index s)" and ?w = "pos_of L (write_ind (mps_mb s))"
  have m: "mb_ok L (mps_mb s)" and ix: "index_ok L (mps_mb s) (mps_index s)"
    using s by (simp_all add: mps_ok_def)
  then have pw: "?p + n \<le> ?w"
    using n length_mps_pending [OF s] unfolding index_ok_def by linarith
  note a = index_ok_advance [OF m ix pw, folded i_def]
  have "take n (drop ?p (mb_flat (mps_mb s))) = take n (mps_pending L s)"
    using pw by (simp add: mps_pending_def mb_between_def min_def)
  with mb_peek_ok [OF m ix pw]
  show "mb_peek L (mps_mb s) (of_nat n) (mps_index s) = Inr (take n (mps_pending L s), i)"
    by (simp add: i_def)
  show "mps_ok L (s\<lparr>mps_index := i\<rparr>)" using m a by (simp add: mps_ok_def)
  show "mps_pending L (s\<lparr>mps_index := i\<rparr>) = drop n (mps_pending L s)"
    using a by (simp add: mps_pending_def mb_between_def drop_take add.commute)
qed

text \<open>Peeking never changes the buffer: the stream's invariant keeps it equal to the one it was made from.\<close>

interpretation mps_in: in_stream "mps_read L" "mps_get L" "mps_pending L" "\<lambda>s. mps_ok L s \<and> mps_mb s = m"
  for L m
proof (unfold_locales, goal_cases)
  case (1 s xs ys)
  then have s: "mps_ok L s" by simp
  from 1 show ?case
    using mps_peek_ok [OF s, of "length xs"] mps_remaining [OF s] by (simp add: mps_read_def)
next
  case (2 s x ys)
  then have s: "mps_ok L s" by simp
  from 2 show ?case
    using mps_peek_ok [OF s, of 1] by (simp add: mps_get_def)
next
  case (3 s n)
  then have s: "mps_ok L s" by simp
  from 3 show ?case using mps_remaining [OF s] by (simp add: mps_read_def)
next
  case (4 s)
  then have s: "mps_ok L s" by simp
  from 4 have "bytes_to_read_from_index L (mps_mb s) (mps_index s) < 1"
    using mps_remaining [OF s] by (simp add: word_less_nat_alt)
  then show ?case by (simp add: mps_get_def mb_peek.simps [of L])
qed

lemma mps_init_ok:
  "mb_ok L m \<Longrightarrow> mps_ok L (mps_init m) \<and> mps_mb (mps_init m) = m \<and> mps_pending L (mps_init m) = mb_pending L m"
  by (simp add: mps_ok_def mps_init_def mps_pending_def mb_pending_def index_ok_read)

end
