(* ===== verification/Message_Buffer_Write.thy ===== *)
theory Message_Buffer_Write
  imports Message_Buffer_Correct Raw_Api
begin

text \<open>
  The writing side of the message buffer: growing the chain, the memory regions handed to
  \<^verbatim>\<open>async_read\<close> and the advance of the write index after it. \<^verbatim>\<open>async_read\<close> is Boost code: \<open>filled\<close>
  states its documented effect on the regions, that the received bytes are stored in them in order and
  that no other byte changes.
\<close>

subsection \<open>Adding blocks\<close>

definition pool_ok :: "u32 \<Rightarrow> block_pool \<Rightarrow> bool" where
  "pool_ok L pool \<longleftrightarrow> (\<forall>i. length (pool i) = unat L)"

text \<open>The chain may grow to \<open>n\<close> blocks without reaching the limits of \<^verbatim>\<open>reset\<close> and of 32-bit sizes.\<close>

definition chain_fits :: "u32 \<Rightarrow> nat \<Rightarrow> bool" where
  "chain_fits L n \<longleftrightarrow> n \<le> 1000000 \<and> n * unat L < 2 ^ 32"

lemma chain_fits_mono: "chain_fits L n \<Longrightarrow> k \<le> n \<Longrightarrow> chain_fits L k"
  unfolding chain_fits_def by (meson le_less_trans le_trans mult_le_mono1)

lemma add_buffers_eq:
  "(add_buffer_to_chain pool ^^ k) m =
     m\<lparr>buffers := buffers m @ map pool [allocated m ..< allocated m + k],
       sanity_check := sanity_check m + of_nat k, allocated := allocated m + k\<rparr>"
  by (induction k) (simp_all add: add_buffer_to_chain_def algebra_simps)

lemma add_buffers_index:
  "read_ind ((add_buffer_to_chain pool ^^ k) m) = read_ind m"
  "write_ind ((add_buffer_to_chain pool ^^ k) m) = write_ind m"
  by (simp_all add: add_buffers_eq)

lemma extend_to_write_eq:
  "extend_to_write pool m =
     (add_buffer_to_chain pool ^^ (unat (fst (write_ind m)) + 1 - length (buffers m))) m"
proof (induction pool m rule: extend_to_write.induct)
  case (1 pool m)
  show ?case
  proof (cases "unat (fst (write_ind m)) \<ge> length (buffers m)")
    case True
    then have "unat (fst (write_ind m)) + 1 - length (buffers m) =
        Suc (unat (fst (write_ind m)) + 1 - length (buffers (add_buffer_to_chain pool m)))"
      by (simp add: add_buffer_to_chain_def)
    with 1 True show ?thesis
      by (simp add: extend_to_write.simps [of pool m] funpow_swap1)
        (simp add: add_buffer_to_chain_def)
  qed (simp add: extend_to_write.simps [of pool m])
qed

lemma blocks_ok_add:
  assumes "mb_blocks_ok L m" and "pool_ok L pool" and "chain_fits L (length (buffers m) + k)"
  shows "mb_blocks_ok L ((add_buffer_to_chain pool ^^ k) m)"
  using assms by (auto simp: mb_blocks_ok_def add_buffers_eq pool_ok_def chain_fits_def)

lemma add_buffers_between:
  "j \<le> length (mb_flat m) \<Longrightarrow>
     mb_between ((add_buffer_to_chain pool ^^ k) m) i j = mb_between m i j"
  by (simp add: mb_between_def add_buffers_eq mb_flat_def)

lemma add_buffers_ok:
  assumes "mb_ok L m" and "pool_ok L pool" and "chain_fits L (length (buffers m) + k)"
  shows "mb_ok L ((add_buffer_to_chain pool ^^ k) m)"
    and "mb_pending L ((add_buffer_to_chain pool ^^ k) m) = mb_pending L m"
proof -
  show "mb_ok L ((add_buffer_to_chain pool ^^ k) m)"
    using assms blocks_ok_add [of L m pool k] by (simp add: mb_ok_def) (simp add: add_buffers_eq)
  have "pos_of L (write_ind m) \<le> length (mb_flat m)" using mb_ok_write_lt [OF assms(1)] by simp
  then show "mb_pending L ((add_buffer_to_chain pool ^^ k) m) = mb_pending L m"
    by (simp add: mb_pending_def add_buffers_between add_buffers_index)
qed

lemma total_bytes_eq: "mb_blocks_ok L m \<Longrightarrow> unat (total_bytes L m) = length (buffers m) * unat L"
proof -
  assume "mb_blocks_ok L m"
  then have lt: "length (buffers m) * unat L < 2 ^ 32" by (simp add: mb_blocks_ok_def)
  have "unat (total_bytes L m) = length (buffers m) * unat L mod 2 ^ 64 mod 2 ^ 32"
    by (simp add: total_bytes_def unat_ucast_mod unat_word_ariths unat_of_nat mult.commute mod_mult_right_eq)
  with lt show ?thesis by simp
qed

lemma bytes_to_write_eq:
  assumes "mb_ok L m"
  shows "unat (bytes_to_write L m) = length (buffers m) * unat L - pos_of L (write_ind m)"
proof -
  have b: "mb_blocks_ok L m" using assms by (simp add: mb_ok_def)
  have "total_bytes L m = of_nat (length (buffers m) * unat L)"
    using total_bytes_eq [OF b] by (metis of_nat_unat ucast_id)
  then have "bytes_to_write L m = of_nat (length (buffers m) * unat L) - of_nat (pos_of L (write_ind m))"
    by (simp add: bytes_to_write_def pos_of_def)
  moreover have "length (buffers m) * unat L < 2 ^ 32" using b by (simp add: mb_blocks_ok_def)
  ultimately show ?thesis
    using unat_of_nat_diff [where 'a = 32, of "pos_of L (write_ind m)" "length (buffers m) * unat L"]
      mb_ok_write_lt [OF assms] by simp
qed

lemma advance_write_ptr_ok:
  assumes m: "mb_ok L m" and p: "pool_ok L pool"
    and f: "chain_fits L (max (length (buffers m)) (Suc ((pos_of L (write_ind m) + n) div unat L)))"
  defines "m' \<equiv> advance_write_ptr L pool (of_nat n) m"
  shows "mb_ok L m'" and "pos_of L (write_ind m') = pos_of L (write_ind m) + n"
    and "read_ind m' = read_ind m" and "\<exists>more. mb_flat m' = mb_flat m @ more"
proof -
  let ?w = "pos_of L (write_ind m)" and ?i = "advance_index L (write_ind m) (of_nat n)"
  let ?m = "m\<lparr>write_ind := ?i\<rparr>"
  define k where "k = unat (fst ?i) + 1 - length (buffers m)"
  have L: "snd (write_ind m) < L" "0 < unat L" using m by (auto simp: mb_ok_def word_less_nat_alt)
  have "?w + n < Suc ((?w + n) div unat L) * unat L"
    using L(2) dividend_less_div_times [of "unat L" "?w + n"] by (simp add: mult.commute)
  also have "\<dots> \<le> max (length (buffers m)) (Suc ((?w + n) div unat L)) * unat L"
    by (rule mult_le_mono1) simp
  also have "\<dots> < 2 ^ 32" using f by (simp add: chain_fits_def)
  finally have "?w + n < 2 ^ 32" .
  note i = advance_index_pos [OF L(1) this]
  have m': "m' = (add_buffer_to_chain pool ^^ k) ?m"
    by (simp add: m'_def advance_write_ptr_def extend_to_write_eq k_def)
  have "mb_blocks_ok L ?m" using m by (simp add: mb_ok_def mb_blocks_ok_def)
  moreover have "chain_fits L (length (buffers ?m) + k)"
    using f by (simp add: k_def i(1) max_def split: if_splits)
  ultimately have "mb_blocks_ok L m'" unfolding m' using p by (intro blocks_ok_add)
  moreover show "pos_of L (write_ind m') = ?w + n" by (simp add: m' add_buffers_eq i)
  moreover show "read_ind m' = read_ind m" by (simp add: m' add_buffers_eq)
  moreover have "write_ind m' = ?i" and "unat (fst ?i) < length (buffers m')"
    by (simp_all add: m' add_buffers_eq k_def)
  ultimately show "mb_ok L m'" using m i(4) by (simp add: mb_ok_def)
  show "\<exists>more. mb_flat m' = mb_flat m @ more" by (simp add: m' add_buffers_eq mb_flat_def)
qed

subsection \<open>Receiving into the regions\<close>

definition seq_bytes :: "bytes list \<Rightarrow> (nat \<times> nat \<times> nat) list \<Rightarrow> bytes" where
  "seq_bytes bs sq = concat (map (\<lambda>(i, off, n). take n (drop off (bs ! i))) sq)"

text \<open>
  The effect of \<^verbatim>\<open>async_read\<close> with the buffer sequence \<open>sq\<close> when it transfers \<open>d\<close>: the bytes of the
  regions, in order, start with \<open>d\<close> and are otherwise the old ones, and no byte outside them changes.
\<close>

definition filled :: "bytes list \<Rightarrow> (nat \<times> nat \<times> nat) list \<Rightarrow> bytes \<Rightarrow> bytes list \<Rightarrow> bool" where
  "filled bs sq d bs' \<longleftrightarrow>
     map length bs' = map length bs \<and> length d \<le> length (seq_bytes bs sq) \<and>
     seq_bytes bs' sq = d @ drop (length d) (seq_bytes bs sq) \<and>
     (\<forall>i < length bs. \<forall>j < length (bs ! i).
        list_all (\<lambda>(k, off, n). k = i \<longrightarrow> j < off \<or> off + n \<le> j) sq \<longrightarrow> bs' ! i ! j = bs ! i ! j)"

lemma seq_bytes_tail:
  assumes "\<forall>b \<in> set bs. length b = l" and "i < length bs" and "j < l"
  shows "seq_bytes bs ((i, j, l - j) # map (\<lambda>k. (k, 0, l)) [i + 1 ..< length bs]) =
    drop (i * l + j) (concat bs)"
proof -
  have "map ((\<lambda>(i, off, n). take n (drop off (bs ! i))) \<circ> (\<lambda>k. (k, 0, l))) [i + 1 ..< length bs] =
      map ((!) bs) [i + 1 ..< length bs]"
    using assms(1) by (intro map_cong) auto
  also have "\<dots> = drop (i + 1) bs"
    using drop_map [of "i + 1" "(!) bs" "[0 ..< length bs]"] by (simp add: map_nth drop_upt)
  finally have "seq_bytes bs ((i, j, l - j) # map (\<lambda>k. (k, 0, l)) [i + 1 ..< length bs]) =
      drop j (bs ! i) @ concat (drop (i + 1) bs)"
    using assms by (simp add: seq_bytes_def)
  also have "\<dots> = drop j (concat (drop i bs))"
    using assms by (simp add: Cons_nth_drop_Suc [symmetric])
  also have "\<dots> = drop (i * l + j) (concat bs)"
    using drop_concat_blocks [OF assms(1), of i] assms(2) by (simp add: add.commute flip: drop_drop)
  finally show ?thesis .
qed

lemma buffer_sequence_ok:
  assumes "mb_ok L m"
  obtains sq where "get_buffer_sequence_for_boost_async_read L m = Inr sq"
    and "sq = (unat (fst (write_ind m)), unat (snd (write_ind m)), unat L - unat (snd (write_ind m))) #
          map (\<lambda>i. (i, 0, unat L)) [unat (fst (write_ind m)) + 1 ..< length (buffers m)]"
    and "seq_bytes (buffers m) sq = drop (pos_of L (write_ind m)) (mb_flat m)"
proof -
  let ?i = "unat (fst (write_ind m))" and ?j = "unat (snd (write_ind m))"
  let ?sq = "(?i, ?j, unat L - ?j) # map (\<lambda>k. (k, 0, unat L)) [?i + 1 ..< length (buffers m)]"
  have w: "?i < length (buffers m)" "?j < unat L" "\<forall>b \<in> set (buffers m). length b = unat L"
    using assms by (simp_all add: mb_ok_def mb_blocks_ok_def word_less_nat_alt)
  then have "unat (L - snd (write_ind m)) = unat L - ?j"
    by (simp add: unat_sub word_le_nat_alt)
  with w have "get_buffer_sequence_for_boost_async_read L m = Inr ?sq"
    by (simp add: get_buffer_sequence_for_boost_async_read_def word_le_nat_alt)
  moreover have "seq_bytes (buffers m) ?sq = drop (pos_of L (write_ind m)) (mb_flat m)"
    unfolding pos_of_def mb_flat_def by (rule seq_bytes_tail [OF w(3,1,2)])
  ultimately show thesis using that by blast
qed

lemma take_concat_blocks:
  assumes "\<forall>b \<in> set bs. length b = l" and "i < length bs" and "j \<le> l"
  shows "take (i * l + j) (concat bs) = concat (take i bs) @ take j (bs ! i)"
proof -
  have "concat bs = concat (take i bs) @ bs ! i @ concat (drop (Suc i) bs)"
    using id_take_nth_drop [OF assms(2)] by (metis concat.simps(2) concat_append)
  moreover have "length (concat (take i bs)) = i * l"
    using assms by (subst length_concat_blocks [of _ l]) (auto dest: in_set_takeD)
  ultimately show ?thesis using assms by simp
qed

lemma filled_flat:
  assumes m: "mb_ok L m" and g: "get_buffer_sequence_for_boost_async_read L m = Inr sq"
    and f: "filled (buffers m) sq d bs'"
  defines "w \<equiv> pos_of L (write_ind m)"
  shows "concat bs' = take w (mb_flat m) @ d @ drop (w + length d) (mb_flat m)"
    and "mb_ok L (m\<lparr>buffers := bs'\<rparr>)" and "w + length d \<le> length (buffers m) * unat L"
proof -
  let ?i = "unat (fst (write_ind m))" and ?j = "unat (snd (write_ind m))" and ?bs = "buffers m"
  note wl = mb_ok_write_lt [OF m, folded w_def]
  obtain sq: "sq = (?i, ?j, unat L - ?j) # map (\<lambda>i. (i, 0, unat L)) [?i + 1 ..< length ?bs]"
    and sb: "seq_bytes ?bs sq = drop w (mb_flat m)"
    using buffer_sequence_ok [OF m, where thesis = thesis] g unfolding w_def by simp
  have bl: "\<forall>b \<in> set ?bs. length b = unat L" and i: "?i < length ?bs" and j: "?j < unat L"
    using m by (simp_all add: mb_ok_def mb_blocks_ok_def word_less_nat_alt)
  have ml: "map length bs' = map length ?bs" using f by (simp add: filled_def)
  then have len: "length bs' = length ?bs" by (rule map_eq_imp_length_eq)
  have lens: "length (bs' ! k) = unat L" if "k < length ?bs" for k
    using arg_cong [OF ml, of "\<lambda>x. x ! k"] that len bl by simp
  have bl': "\<forall>b \<in> set bs'. length b = unat L" using lens len by (auto simp: in_set_conv_nth)
  show "mb_ok L (m\<lparr>buffers := bs'\<rparr>)"
    using m bl' len by (simp add: mb_ok_def mb_blocks_ok_def)
  have "length d \<le> length (mb_flat m) - w" using f sb by (simp add: filled_def)
  then show "w + length d \<le> length ?bs * unat L" using wl by linarith
  have same: "bs' ! a ! b = ?bs ! a ! b" if "a < length ?bs" "b < unat L" "a < ?i \<or> a = ?i \<and> b < ?j" for a b
  proof -
    have "list_all (\<lambda>(k, off, n). k = a \<longrightarrow> b < off \<or> off + n \<le> b) sq"
      unfolding sq list_all_iff using that(3) by auto
    moreover have "length (?bs ! a) = unat L" using bl that(1) by simp
    ultimately show ?thesis using f that(1,2) by (simp add: filled_def)
  qed
  have "take ?i bs' = take ?i ?bs"
    using same lens len bl i by (intro nth_equalityI) auto
  moreover have "take ?j (bs' ! ?i) = take ?j (?bs ! ?i)"
    using same lens bl i j by (intro nth_equalityI) auto
  ultimately have "take w (concat bs') = take w (mb_flat m)"
    using take_concat_blocks [OF bl', of ?i ?j] take_concat_blocks [OF bl, of ?i ?j] len i j
    by (simp add: w_def pos_of_def mb_flat_def)
  moreover have "drop w (concat bs') = d @ drop (w + length d) (mb_flat m)"
    using f sb seq_bytes_tail [OF bl', of ?i ?j] len i j sq
    by (simp add: filled_def w_def pos_of_def add.commute)
  ultimately show "concat bs' = take w (mb_flat m) @ d @ drop (w + length d) (mb_flat m)"
    by (metis append_take_drop_id)
qed

lemma receive_ok:
  assumes m: "mb_ok L m" and g: "get_buffer_sequence_for_boost_async_read L m = Inr sq"
    and f: "filled (buffers m) sq d bs'" and p: "pool_ok L pool"
    and c: "chain_fits L (Suc (length (buffers m)))"
  defines "m' \<equiv> advance_write_ptr L pool (of_nat (length d)) (m\<lparr>buffers := bs'\<rparr>)"
  shows "mb_ok L m'" and "mb_pending L m' = mb_pending L m @ d"
proof -
  let ?m = "m\<lparr>buffers := bs'\<rparr>" and ?w = "pos_of L (write_ind m)" and ?r = "pos_of L (read_ind m)"
  let ?n = "length (buffers m)"
  note ff = filled_flat [OF m g f]
  have "map length bs' = map length (buffers m)" using f by (simp add: filled_def)
  then have len: "length bs' = ?n" by (rule map_eq_imp_length_eq)
  have "(?w + length d) div unat L \<le> ?n * unat L div unat L" by (rule div_le_mono [OF ff(3)])
  also have "\<dots> \<le> ?n" by simp
  finally have d: "(?w + length d) div unat L \<le> ?n" .
  have "chain_fits L (max (length (buffers ?m)) (Suc ((pos_of L (write_ind ?m) + length d) div unat L)))"
    by (rule chain_fits_mono [OF c]) (use d len in simp)
  note a = advance_write_ptr_ok [OF ff(2) p this, folded m'_def]
  then show "mb_ok L m'" by simp
  have fm: "mb_flat ?m = take ?w (mb_flat m) @ d @ drop (?w + length d) (mb_flat m)"
    using ff(1) by (simp add: mb_flat_def [of ?m])
  obtain more where "mb_flat m' = mb_flat ?m @ more" using a(4) by blast
  then have fl: "mb_flat m' = take ?w (mb_flat m) @ d @ drop (?w + length d) (mb_flat m) @ more"
    by (simp only: fm append_assoc)
  have rw: "?r \<le> ?w" "length (take ?w (mb_flat m)) = ?w"
    using m mb_ok_write_lt [OF m] by (simp_all add: mb_ok_def)
  have "drop ?r (mb_flat m') = (drop ?r (take ?w (mb_flat m)) @ d) @ drop (?w + length d) (mb_flat m) @ more"
    unfolding fl drop_append rw(2) using rw(1) by simp
  moreover have "length (drop ?r (take ?w (mb_flat m)) @ d) = ?w + length d - ?r"
    unfolding length_append length_drop rw(2) using rw(1) by simp
  ultimately have "take (?w + length d - ?r) (drop ?r (mb_flat m')) = drop ?r (take ?w (mb_flat m)) @ d"
    by (metis append_eq_conv_conj)
  then show "mb_pending L m' = mb_pending L m @ d"
    using a(2,3) by (simp add: mb_pending_def mb_between_def drop_take)
qed

subsection \<open>Histories of a message buffer\<close>

text \<open>
  \<open>mb_history L pool m received taken\<close>: from a new message buffer, the public operations lead to \<open>m\<close>
  when \<open>received\<close> is all that came from the network and \<open>taken\<close> all that was read, skipped or
  discarded, in order. A step that grows the chain stays within the limits of \<open>chain_fits\<close>.
\<close>

inductive mb_history :: "u32 \<Rightarrow> block_pool \<Rightarrow> message_buffer \<Rightarrow> bytes \<Rightarrow> bytes \<Rightarrow> bool"
  for L :: u32 and pool :: block_pool where
  created: "mb_history L pool (mb_init pool) [] []"
| chained: "mb_history L pool m r c \<Longrightarrow> chain_fits L (length (buffers m) + 1) \<Longrightarrow>
    mb_history L pool (add_buffer_to_chain pool m) r c"
| spaced: "mb_history L pool m r c \<Longrightarrow> chain_fits L (length (buffers m) + (unat bytes div unat L + 1)) \<Longrightarrow>
    mb_history L pool (add_space L pool bytes m) r c"
| received: "mb_history L pool m r c \<Longrightarrow> get_buffer_sequence_for_boost_async_read L m = Inr sq \<Longrightarrow>
    filled (buffers m) sq d bs' \<Longrightarrow> chain_fits L (length (buffers m) + 1) \<Longrightarrow>
    mb_history L pool (advance_write_ptr L pool (of_nat (length d)) (m\<lparr>buffers := bs'\<rparr>)) (r @ d) c"
| taken: "mb_history L pool m r c \<Longrightarrow> mb_read L sz m = Inr (d, m') \<Longrightarrow>
    mb_history L pool m' r (c @ d)"
| skipped: "mb_history L pool m r c \<Longrightarrow> sz \<le> bytes_to_read L m \<Longrightarrow> advance_read_ptr L sz m = Inr m' \<Longrightarrow>
    mb_history L pool m' r (c @ take (unat sz) (mb_pending L m))"
| discarded: "mb_history L pool m r c \<Longrightarrow> reset m = Inr m' \<Longrightarrow>
    mb_history L pool m' r r"

inductive_cases mb_historyE: "mb_history L pool m r c"

lemma mb_init_ok:
  assumes "pool_ok L pool" and "0 < unat L"
  shows "mb_ok L (mb_init pool)" and "mb_pending L (mb_init pool) = []"
  using assms word_unat_lt [of L]
  by (simp_all add: mb_ok_def mb_blocks_ok_def mb_init_def pool_ok_def pos_of_def word_less_nat_alt
      mb_pending_def mb_between_def)

lemma add_space_eq:
  assumes "chain_fits L (n + (unat bytes div unat L + 1))"
  shows "add_space L pool bytes = add_buffer_to_chain pool ^^ (unat bytes div unat L + 1)"
proof -
  let ?x = "bytes div L + 1"
  have k: "unat bytes div unat L + 1 < 2 ^ 31" using assms unfolding chain_fits_def by simp
  then have x: "unat ?x = unat bytes div unat L + 1" by (simp add: unat_word_ariths unat_div)
  with k have "uint ?x < 2 ^ 31"
    unfolding uint_nat by (metis of_nat_less_iff of_nat_numeral of_nat_power)
  moreover have "- (2 ^ 31) \<le> uint ?x" by (rule order_trans [of _ 0]) simp_all
  ultimately have "sint ?x = int (unat ?x)"
    by (simp add: sint_uint signed_take_bit_int_eq_self_iff)
  then show ?thesis using x by (simp only: add_space_def fun_eq_iff nat_int simp_thms)
qed

lemma history_invariant:
  assumes "mb_history L pool m r c" and p: "pool_ok L pool" and L: "0 < unat L"
  shows "mb_ok L m \<and> r = c @ mb_pending L m"
  using assms(1)
proof (induction rule: mb_history.induct)
  case created
  then show ?case using mb_init_ok [OF p L] by simp
next
  case (chained m r c)
  then show ?case using add_buffers_ok [of L m pool 1] p by simp
next
  case (spaced m r c bytes)
  then show ?case
    using add_buffers_ok [OF _ p spaced.hyps(2)] unfolding add_space_eq [OF spaced.hyps(2)] by auto
next
  case (received m r c sq d bs')
  then show ?case using receive_ok [of L m sq d bs' pool] p by simp
next
  case (taken m r c sz d m')
  then have m: "mb_ok L m" by simp
  have "\<not> length (mb_pending L m) < unat sz"
    using mb_read_short [OF m, of sz] taken.hyps(2) by auto
  then obtain m'' where "mb_read L (of_nat (unat sz)) m = Inr (take (unat sz) (mb_pending L m), m'')"
    and "mb_ok L m''" "mb_pending L m'' = drop (unat sz) (mb_pending L m)"
    using mb_read_ok [OF m, of "unat sz"] by auto
  with taken.IH taken.hyps(2) show ?case by simp
next
  case (skipped m r c sz m')
  then have m: "mb_ok L m" and s: "unat sz \<le> length (mb_pending L m)"
    by (simp_all add: word_le_nat_alt bytes_to_read_eq)
  obtain m'' where "advance_read_ptr L (of_nat (unat sz)) m = Inr m''" "mb_ok L m''"
    "mb_pending L m'' = drop (unat sz) (mb_pending L m)" by (rule advance_read_ptr_ok [OF m s])
  with skipped.IH skipped.hyps(3) show ?case by simp
next
  case (discarded m r c m')
  then have "mb_blocks_ok L m" "buffers m \<noteq> []" by (auto simp: mb_ok_def)
  then obtain m'' where "reset m = Inr m''" "mb_ok L m''" "mb_pending L m'' = []"
    using L by (rule reset_ok)
  with discarded.hyps(2) show ?case by simp
qed

subsection \<open>Properties\<close>


lemma received_three:
  "mb_history 2 (\<lambda>_. [0, 0])
     \<lparr>buffers = [[7, 8], [9, 0]], read_ind = (0, 0), write_ind = (1, 1), sanity_check = 2, allocated = 2\<rparr>
     [7, 8, 9] []"
proof -
  let ?p = "\<lambda>_. [0, 0] :: bytes"
  have "mb_history 2 ?p (add_buffer_to_chain ?p (mb_init ?p)) [] []"
    by (intro mb_history.created mb_history.chained) (simp add: chain_fits_def mb_init_def)
  then have h: "mb_history 2 ?p \<lparr>buffers = [[0, 0], [0, 0]], read_ind = (0, 0), write_ind = (0, 0),
      sanity_check = 2, allocated = 2\<rparr> [] []"
    by (simp add: mb_init_def add_buffer_to_chain_def numeral_2_eq_2)
  have "filled [[0, 0], [0, 0]] [(0, 0, 2), (1, 0, 2)] [7, 8, 9] [[7, 8], [9, 0]]"
    by (auto simp: filled_def seq_bytes_def less_Suc_eq)
  then have "mb_history 2 ?p (advance_write_ptr 2 ?p (of_nat (length [7 :: byte, 8, 9]))
      \<lparr>buffers = [[7, 8], [9, 0]], read_ind = (0, 0), write_ind = (0, 0), sanity_check = 2, allocated = 2\<rparr>)
      ([] @ [7, 8, 9]) []"
    using mb_history.received [OF h, of "[(0, 0, 2), (1, 0, 2)]" "[7, 8, 9]" "[[7, 8], [9, 0]]"]
    by (simp add: get_buffer_sequence_for_boost_async_read_def chain_fits_def upt_rec)
  then show ?thesis
    by (simp add: advance_write_ptr_def advance_index_def extend_to_write.simps)
qed


text \<open>
  C12. Messages out of the chain of blocks. When the pending bytes of a message buffer start with the
  wire format of a value, unpacking through its datastream returns the value and leaves the bytes
  after it pending, however the bytes are spread over blocks; unpacking through a peek datastream
  returns the same value and leaves the buffer as it was.
\<close>

theorem unpack_from_message_buffer:
  assumes "wf_type t" and "enc_val t v = Inr bs" and "mb_history L pool m (taken @ bs @ rest) taken"
    and "pool_ok L pool" and "0 < unat L"
  shows "(\<exists>m'. unpack_val (mbds_read L) (mbds_get L) t m = Inr (v, m') \<and> mb_pending L m' = rest) \<and>
    (\<exists>s'. unpack_val (mps_read L) (mps_get L) t (mps_init m) = Inr (v, s') \<and> mps_mb s' = m \<and>
       mps_pending L s' = rest)"
proof -
  from history_invariant [OF assms(3-5)] have m: "mb_ok L m" and p: "mb_pending L m = bs @ rest" by auto
  from mb_in.readsE [OF mb_in.reads_val [OF assms(1)] assms(2) m p] obtain m' where
    "unpack_val (mbds_read L) (mbds_get L) t m = Inr (v, m')" "mb_pending L m' = rest" .
  moreover have "mps_ok L (mps_init m) \<and> mps_mb (mps_init m) = m" "mps_pending L (mps_init m) = bs @ rest"
    using mps_init_ok [OF m] p by simp_all
  from mps_in.readsE [OF mps_in.reads_val [OF assms(1)] assms(2) this] obtain s' where
    "unpack_val (mps_read L) (mps_get L) t (mps_init m) = Inr (v, s')" "mps_ok L s' \<and> mps_mb s' = m"
    "mps_pending L s' = rest" .
  ultimately show ?thesis by blast
qed


theorem unpack_from_message_buffer_witness:
  "\<exists>m'. unpack_val (mbds_read 2) (mbds_get 2) (TScalar 2)
      \<lparr>buffers = [[7, 8], [9, 0]], read_ind = (0, 0), write_ind = (1, 1), sanity_check = 2, allocated = 2\<rparr> =
    Inr (VScalar 2055, m') \<and> mb_pending 2 m' = [9]"
proof -
  have "enc_val (TScalar 2) (VScalar 2055) = Inr [7, 8]" by (simp add: fc_eval)
  from unpack_from_message_buffer [OF _ this, of 2 _ _ "[]" "[9]"] received_three show ?thesis
    by (simp add: pool_ok_def)
qed


text \<open>
  Room. After \<^verbatim>\<open>add_space(bytes)\<close> the pending bytes are the same and at least \<open>bytes\<close> more
  bytes can be written, as long as the chain keeps within its limits.
\<close>

lemma add_space_gives_room:
  assumes "mb_history L pool m received taken" and "pool_ok L pool" and "0 < unat L"
    and "chain_fits L (length (buffers m) + (unat bytes div unat L + 1))"
  shows "mb_pending L (add_space L pool bytes m) = mb_pending L m \<and>
    unat (bytes_to_write L m) + unat bytes \<le> unat (bytes_to_write L (add_space L pool bytes m))"
proof -
  define k where "k = unat bytes div unat L + 1"
  have m: "mb_ok L m" using history_invariant [OF assms(1-3)] by simp
  note a = add_buffers_ok [OF m assms(2,4), folded k_def]
  have "unat bytes < k * unat L"
    using assms(3) dividend_less_div_times [of "unat L" "unat bytes"] by (simp add: k_def mult.commute)
  moreover have "length (buffers ((add_buffer_to_chain pool ^^ k) m)) = length (buffers m) + k"
    by (simp add: add_buffers_eq)
  ultimately have "unat (bytes_to_write L m) + unat bytes \<le>
      unat (bytes_to_write L ((add_buffer_to_chain pool ^^ k) m))"
    using mb_ok_write_lt(1) [OF m]
    by (simp add: bytes_to_write_eq [OF m] bytes_to_write_eq [OF a(1)] add_buffers_index add_mult_distrib)
  with a(2) show ?thesis using add_space_eq [OF assms(4), folded k_def] by simp
qed

text \<open>
  Nothing checks a skip: past the write index it pops blocks the chain does not have.
\<close>

lemma skip_past_write_undefined:
  "mbds_skip 2 6 \<lparr>buffers = [[7, 8], [9, 0]], read_ind = (0, 0), write_ind = (1, 1),
     sanity_check = 2, allocated = 2\<rparr> = Inl Undefined_behaviour"
  by (simp add: mbds_skip_def advance_read_ptr_def advance_index_def Let_def pop_read_blocks.simps)

end
