(* ===== verification/Text_Codecs.thy ===== *)
theory Text_Codecs
  imports Fc_Prelude
begin

text \<open>
  The text encodings of binary data: \<^verbatim>\<open>src/crypto/hex.cpp\<close> and \<^verbatim>\<open>src/crypto/base64.cpp\<close>.
  Characters are their 8-bit codes.
\<close>

subsection \<open>Hexadecimal\<close>

definition from_hex_char :: "byte \<Rightarrow> byte result" where
  "from_hex_char c =
     (if 0x30 \<le> c \<and> c \<le> 0x39 then Inr (c - 0x30)
      else if 0x61 \<le> c \<and> c \<le> 0x66 then Inr (c - 0x61 + 10)
      else if 0x41 \<le> c \<and> c \<le> 0x46 then Inr (c - 0x41 + 10)
      else Inl (Fc_exception unspecified_exception_code))"

definition to_hex_chars :: bytes where
  "to_hex_chars = ascii ''0123456789abcdef''"

definition hex_pair :: "byte \<Rightarrow> bytes" where
  "hex_pair c = [to_hex_chars ! unat (drop_bit 4 c), to_hex_chars ! unat (c AND 0x0f)]"

text \<open>The caller passes at least \<open>s\<close> bytes.\<close>

definition to_hex :: "bytes \<Rightarrow> u32 \<Rightarrow> bytes" where
  "to_hex d s = concat (map hex_pair (take (unat s) d))"

definition to_hex_vector :: "bytes \<Rightarrow> bytes" where
  "to_hex_vector data = (if data \<noteq> [] then to_hex data (of_nat (length data)) else [])"

text \<open>The loop of \<^verbatim>\<open>from_hex\<close>: the bytes it stores when \<open>n\<close> of them fit.\<close>

fun from_hex_loop :: "bytes \<Rightarrow> nat \<Rightarrow> bytes result" where
  "from_hex_loop [] n = Inr []"
| "from_hex_loop (c # cs) 0 = Inr []"
| "from_hex_loop [c] (Suc n) = and_then (from_hex_char c) (\<lambda>h. Inr [push_bit 4 h])"
| "from_hex_loop (c # c' # cs) (Suc n) =
     and_then (from_hex_char c) (\<lambda>h.
       and_then (from_hex_char c') (\<lambda>l.
         and_then (from_hex_loop cs n) (\<lambda>r. Inr ((push_bit 4 h OR l) # r))))"

definition from_hex :: "bytes \<Rightarrow> bytes \<Rightarrow> (nat \<times> bytes) result" where
  "from_hex hex_str out_data =
     and_then (from_hex_loop hex_str (length out_data)) (\<lambda>w.
       Inr (length w, w @ drop (length w) out_data))"

subsection \<open>Base 64\<close>

definition base64_chars :: bytes where
  "base64_chars = ascii ''ABCDEFGHIJKLMNOPQRSTUVWXYZabcdefghijklmnopqrstuvwxyz0123456789+/''"

definition base64url_chars :: bytes where
  "base64url_chars = ascii ''ABCDEFGHIJKLMNOPQRSTUVWXYZabcdefghijklmnopqrstuvwxyz0123456789-_''"

definition isalnum :: "byte \<Rightarrow> bool" where
  "isalnum c \<longleftrightarrow> 0x30 \<le> c \<and> c \<le> 0x39 \<or> 0x41 \<le> c \<and> c \<le> 0x5a \<or> 0x61 \<le> c \<and> c \<le> 0x7a"

definition is_base64 :: "byte \<Rightarrow> bytes \<Rightarrow> bool" where
  "is_base64 c b64_chars \<longleftrightarrow> isalnum c \<or> c = b64_chars ! 62 \<or> c = b64_chars ! 63"

definition throw_on_nonbase64 :: "byte \<Rightarrow> bytes \<Rightarrow> unit result" where
  "throw_on_nonbase64 c b64_chars = fc_assert (is_base64 c b64_chars) (Inr ())"

text \<open>\<^verbatim>\<open>char_array_4\<close> from \<^verbatim>\<open>char_array_3\<close> and back.\<close>

definition to_sextets :: "byte \<Rightarrow> byte \<Rightarrow> byte \<Rightarrow> bytes" where
  "to_sextets a0 a1 a2 =
     [drop_bit 2 (a0 AND 0xfc),
      push_bit 4 (a0 AND 0x03) + drop_bit 4 (a1 AND 0xf0),
      push_bit 2 (a1 AND 0x0f) + drop_bit 6 (a2 AND 0xc0),
      a2 AND 0x3f]"

definition from_sextets :: "byte \<Rightarrow> byte \<Rightarrow> byte \<Rightarrow> byte \<Rightarrow> bytes" where
  "from_sextets s0 s1 s2 s3 =
     [push_bit 2 s0 + drop_bit 4 (s1 AND 0x30),
      push_bit 4 (s1 AND 0xf) + drop_bit 2 (s2 AND 0x3c),
      push_bit 6 (s2 AND 0x3) + s3]"

text \<open>
  The loop of \<^verbatim>\<open>base64_encode_impl\<close>; \<open>arr\<close> holds the first \<open>i\<close> entries of \<^verbatim>\<open>char_array_3\<close>.
  At the end the missing entries are zero and the output is padded.
\<close>

fun encode_tail :: "bytes \<Rightarrow> bytes \<Rightarrow> bytes" where
  "encode_tail b64_chars arr =
     (if arr = [] then []
      else let a = arr @ replicate (3 - length arr) 0
           in map (\<lambda>q. b64_chars ! unat q) (take (length arr + 1) (to_sextets (a ! 0) (a ! 1) (a ! 2))) @
              replicate (3 - length arr) 0x3d)"

fun encode_loop :: "bytes \<Rightarrow> bytes \<Rightarrow> bytes \<Rightarrow> bytes" where
  "encode_loop b64_chars arr [] = encode_tail b64_chars arr"
| "encode_loop b64_chars arr (b # bs) =
     (let a = arr @ [b]
      in if length a = 3
         then map (\<lambda>q. b64_chars ! unat q) (to_sextets (a ! 0) (a ! 1) (a ! 2)) @ encode_loop b64_chars [] bs
         else encode_loop b64_chars a bs)"

definition base64_encode_impl :: "bytes \<Rightarrow> u32 \<Rightarrow> bytes \<Rightarrow> bytes" where
  "base64_encode_impl bytes_to_encode in_len b64_chars =
     encode_loop b64_chars [] (take (unat in_len) bytes_to_encode)"

definition base64_encode :: "bytes \<Rightarrow> bytes" where
  "base64_encode enc = base64_encode_impl enc (of_nat (length enc)) base64_chars"

definition base64url_encode :: "bytes \<Rightarrow> bytes" where
  "base64url_encode enc = base64_encode_impl enc (of_nat (length enc)) base64url_chars"

text \<open>\<^verbatim>\<open>strchr(b64_chars, c) - b64_chars\<close>: the terminating zero is a character of the string too.\<close>

fun strchr_index :: "bytes \<Rightarrow> byte \<Rightarrow> byte result" where
  "strchr_index [] c = (if c = 0 then Inr 0 else Inl Undefined_behaviour)"
| "strchr_index (x # xs) c = (if x = c then Inr 0 else and_then (strchr_index xs c) (\<lambda>i. Inr (i + 1)))"

definition decode_quad :: "bytes \<Rightarrow> bytes \<Rightarrow> bytes result" where
  "decode_quad b64_chars arr =
     and_then (strchr_index b64_chars (arr ! 0)) (\<lambda>s0.
       and_then (strchr_index b64_chars (arr ! 1)) (\<lambda>s1.
         and_then (strchr_index b64_chars (arr ! 2)) (\<lambda>s2.
           and_then (strchr_index b64_chars (arr ! 3)) (\<lambda>s3.
             Inr (from_sextets s0 s1 s2 s3)))))"

definition decode_tail :: "bytes \<Rightarrow> bytes \<Rightarrow> bytes result" where
  "decode_tail b64_chars arr =
     (if arr = [] then Inr []
      else and_then (decode_quad b64_chars (arr @ replicate (4 - length arr) 0)) (\<lambda>a.
             Inr (take (length arr - 1) a)))"

text \<open>
  The loop of \<^verbatim>\<open>base64_decode_impl\<close>. \<open>in_len\<close> is the string's size as a signed 32-bit integer
  that the loop condition decrements; reading the character at the end of the string gives zero.
\<close>

fun decode_loop :: "bytes \<Rightarrow> int \<Rightarrow> bytes \<Rightarrow> bytes \<Rightarrow> bytes result" where
  "decode_loop b64_chars in_len arr [] =
     (if in_len = 0 then decode_tail b64_chars arr
      else if in_len = - (2 ^ 31) then Inl Undefined_behaviour
      else and_then (throw_on_nonbase64 0 b64_chars) (\<lambda>_. Inl Undefined_behaviour))"
| "decode_loop b64_chars in_len arr (c # cs) =
     (if in_len = 0 then decode_tail b64_chars arr
      else if in_len = - (2 ^ 31) then Inl Undefined_behaviour
      else if c = 0x3d then decode_tail b64_chars arr
      else and_then (throw_on_nonbase64 c b64_chars) (\<lambda>_.
             let a = arr @ [c]
             in if length a = 4
                then and_then (decode_quad b64_chars a) (\<lambda>d.
                       and_then (decode_loop b64_chars (in_len - 1) [] cs) (\<lambda>r. Inr (d @ r)))
                else decode_loop b64_chars (in_len - 1) a cs))"

definition base64_decode_impl :: "bytes \<Rightarrow> bytes \<Rightarrow> bytes result" where
  "base64_decode_impl encoded_string b64_chars =
     decode_loop b64_chars (sint (of_nat (length encoded_string) :: u32)) [] encoded_string"

definition base64_decode :: "bytes \<Rightarrow> bytes result" where
  "base64_decode encoded_string = base64_decode_impl encoded_string base64_chars"

definition base64url_decode :: "bytes \<Rightarrow> bytes result" where
  "base64url_decode encoded_string = base64_decode_impl encoded_string base64url_chars"

subsection \<open>What a codec promises\<close>

locale codec =
  fixes encode :: "bytes \<Rightarrow> bytes" and decode :: "bytes \<Rightarrow> bytes result" and fits :: "bytes \<Rightarrow> bool"
  assumes decode_encode: "fits d \<Longrightarrow> decode (encode d) = Inr d"
begin

lemma encode_inj: "fits d \<Longrightarrow> fits e \<Longrightarrow> encode d = encode e \<longleftrightarrow> d = e"
  using decode_encode by (metis sum.inject(2))

end

subsection \<open>Bits of bytes\<close>

lemma byte_bit_cases:
  "k < 8 \<longleftrightarrow> k = (7 :: nat) \<or> k = 6 \<or> k = 5 \<or> k = 4 \<or> k = 3 \<or> k = 2 \<or> k = 1 \<or> k = 0"
  by auto

lemmas byte_bits = bit_simps byte_bit_cases numeral_2_eq_2 [symmetric] numeral_3_eq_3 [symmetric]

subsection \<open>Hexadecimal round trip\<close>

lemma nibble_cases:
  assumes "n < 16"
  shows "from_hex_char (to_hex_chars ! n) = Inr (of_nat n)"
proof -
  have "n = 15 \<or> n = 14 \<or> n = 13 \<or> n = 12 \<or> n = 11 \<or> n = 10 \<or> n = 9 \<or> n = 8 \<or>
      n = 7 \<or> n = 6 \<or> n = 5 \<or> n = 4 \<or> n = 3 \<or> n = 2 \<or> n = 1 \<or> n = 0"
    using assms by presburger
  then show ?thesis by (elim disjE) (simp_all add: to_hex_chars_def ascii_def from_hex_char_def)
qed

lemma nibbles: "unat (drop_bit 4 (c :: byte)) < 16" "unat (c AND 0x0f) < 16"
proof -
  show "unat (drop_bit 4 c) < 16" using unat_byte_lt [of c] by (simp add: unat_drop_bit)
  show "unat (c AND 0x0f) < 16" using unat_and_mask [of c 4] by (simp add: mask_eq_exp_minus_1)
qed

lemma join_nibbles: "push_bit 4 (drop_bit 4 (c :: byte)) OR (c AND 0x0f) = c"
  by (rule bit_word_eqI) (auto simp: byte_bits)

lemma from_hex_pairs:
  "length d \<le> n \<Longrightarrow> from_hex_loop (concat (map hex_pair d)) n = Inr d"
proof (induction d arbitrary: n)
  case (Cons c d)
  then obtain k where "n = Suc k" "length d \<le> k" by (cases n) auto
  with Cons.IH [of k] show ?case
    by (simp add: hex_pair_def nibble_cases nibbles join_nibbles)
qed simp

lemma to_hex_vector_eq: "length d < 2 ^ 32 \<Longrightarrow> to_hex_vector d = concat (map hex_pair d)"
  by (simp add: to_hex_vector_def to_hex_def unat_of_nat)

interpretation hex: codec to_hex_vector "\<lambda>s. from_hex_loop s (length s)" "\<lambda>d. length d < 2 ^ 32"
proof (unfold_locales, goal_cases)
  case (1 d)
  have "length (concat (map hex_pair d)) = 2 * length d" by (induction d) (simp_all add: hex_pair_def)
  with 1 show ?case by (simp only: to_hex_vector_eq) (simp add: from_hex_pairs)
qed

subsection \<open>Base 64 round trip\<close>

lemma strchr_index_nth:
  "distinct xs \<Longrightarrow> i < length xs \<Longrightarrow> strchr_index xs (xs ! i) = Inr (of_nat i)"
proof (induction xs arbitrary: i)
  case (Cons x xs)
  then show ?case by (cases i) auto
qed simp

lemma strchr_index_zero: "0 \<notin> set xs \<Longrightarrow> strchr_index xs 0 = Inr (of_nat (length xs))"
  by (induction xs) auto

text \<open>The sums of shifted parts add no carries.\<close>

lemma second_sextet_or:
  "push_bit 4 ((a :: byte) AND 0x03) + drop_bit 4 (b AND 0xf0) = push_bit 4 (a AND 0x03) OR drop_bit 4 (b AND 0xf0)"
  by (rule disjunctive_add) (auto simp: byte_bits)

lemma third_sextet_or:
  "push_bit 2 ((a :: byte) AND 0x0f) + drop_bit 6 (b AND 0xc0) = push_bit 2 (a AND 0x0f) OR drop_bit 6 (b AND 0xc0)"
  by (rule disjunctive_add) (auto simp: byte_bits)

lemma low_six_bits: "(x :: byte) AND 0x3f = x \<Longrightarrow> unat x < 64"
  using unat_and_mask [of x 6] by (simp add: mask_eq_exp_minus_1)

lemma sextet_bound:
  "\<forall>q \<in> set (to_sextets a b c). unat q < 64"
proof -
  have "q AND 0x3f = q" if "q \<in> set (to_sextets a b c)" for q
    using that unfolding to_sextets_def second_sextet_or third_sextet_or
    by (auto intro!: bit_word_eqI simp: byte_bits)
  then show ?thesis by (auto intro: low_six_bits)
qed

lemma first_byte_or:
  "push_bit 2 (drop_bit 2 ((a :: byte) AND 0xfc)) +
     drop_bit 4 ((push_bit 4 (a AND 0x03) OR drop_bit 4 (b AND 0xf0)) AND 0x30) = a"
proof -
  have "push_bit 2 (drop_bit 2 (a AND 0xfc)) +
      drop_bit 4 ((push_bit 4 (a AND 0x03) OR drop_bit 4 (b AND 0xf0)) AND 0x30) =
    push_bit 2 (drop_bit 2 (a AND 0xfc)) OR
      drop_bit 4 ((push_bit 4 (a AND 0x03) OR drop_bit 4 (b AND 0xf0)) AND 0x30)"
    by (rule disjunctive_add) (auto simp: byte_bits)
  also have "\<dots> = a" by (rule bit_word_eqI) (auto simp: byte_bits)
  finally show ?thesis .
qed

lemma second_byte_or:
  "push_bit 4 ((push_bit 4 (a AND 0x03) OR drop_bit 4 ((b :: byte) AND 0xf0)) AND 0xf) +
     drop_bit 2 ((push_bit 2 (b AND 0x0f) OR drop_bit 6 (c AND 0xc0)) AND 0x3c) = b"
proof -
  have "push_bit 4 ((push_bit 4 (a AND 0x03) OR drop_bit 4 (b AND 0xf0)) AND 0xf) +
      drop_bit 2 ((push_bit 2 (b AND 0x0f) OR drop_bit 6 (c AND 0xc0)) AND 0x3c) =
    push_bit 4 ((push_bit 4 (a AND 0x03) OR drop_bit 4 (b AND 0xf0)) AND 0xf) OR
      drop_bit 2 ((push_bit 2 (b AND 0x0f) OR drop_bit 6 (c AND 0xc0)) AND 0x3c)"
    by (rule disjunctive_add) (auto simp: byte_bits)
  also have "\<dots> = b" by (rule bit_word_eqI) (auto simp: byte_bits)
  finally show ?thesis .
qed

lemma third_byte_or:
  "push_bit 6 ((push_bit 2 (b AND 0x0f) OR drop_bit 6 ((c :: byte) AND 0xc0)) AND 0x3) + (c AND 0x3f) = c"
proof -
  have "push_bit 6 ((push_bit 2 (b AND 0x0f) OR drop_bit 6 (c AND 0xc0)) AND 0x3) + (c AND 0x3f) =
    push_bit 6 ((push_bit 2 (b AND 0x0f) OR drop_bit 6 (c AND 0xc0)) AND 0x3) OR (c AND 0x3f)"
    by (rule disjunctive_add) (auto simp: byte_bits)
  also have "\<dots> = c" by (rule bit_word_eqI) (auto simp: byte_bits)
  finally show ?thesis .
qed

lemma sextets_back:
  assumes "to_sextets a b c = [q0, q1, q2, q3]"
  shows "from_sextets q0 q1 q2 q3 = [a, b, c]"
proof -
  have q: "q0 = drop_bit 2 (a AND 0xfc)" "q1 = push_bit 4 (a AND 0x03) OR drop_bit 4 (b AND 0xf0)"
    "q2 = push_bit 2 (b AND 0x0f) OR drop_bit 6 (c AND 0xc0)" "q3 = c AND 0x3f"
    using assms unfolding to_sextets_def second_sextet_or third_sextet_or list.inject by blast+
  show ?thesis unfolding from_sextets_def q first_byte_or second_byte_or third_byte_or ..
qed

text \<open>
  What an alphabet of 64 characters has to satisfy for the two loops to be inverse; \<open>blocks\<close> is the
  induction along groups of three bytes.
\<close>

fun blocks :: "bytes \<Rightarrow> nat" where
  "blocks (a # b # c # ds) = Suc (blocks ds)"
| "blocks _ = 0"

locale base64_alphabet =
  fixes b64_chars :: bytes
  assumes length_chars: "length b64_chars = 64"
    and distinct_chars: "distinct b64_chars"
    and valid_chars: "is_base64 c b64_chars \<longleftrightarrow> c \<in> set b64_chars"
    and no_padding: "0x3d \<notin> set b64_chars"
    and no_zero: "0 \<notin> set b64_chars"
begin

abbreviation char_of_sextet :: "byte \<Rightarrow> byte" where
  "char_of_sextet q \<equiv> b64_chars ! unat q"

lemma char_index: "unat q < 64 \<Longrightarrow> strchr_index b64_chars (char_of_sextet q) = Inr q"
  using strchr_index_nth [OF distinct_chars, of "unat q"] by (simp add: length_chars)

lemma char_valid:
  assumes "unat q < 64"
  shows "throw_on_nonbase64 (char_of_sextet q) b64_chars = Inr ()" and "char_of_sextet q \<noteq> 0x3d"
proof -
  have m: "char_of_sextet q \<in> set b64_chars" using assms by (simp add: length_chars)
  then show "throw_on_nonbase64 (char_of_sextet q) b64_chars = Inr ()"
    using valid_chars [of "char_of_sextet q"] by (simp add: throw_on_nonbase64_def)
  show "char_of_sextet q \<noteq> 0x3d" using m no_padding by metis
qed

lemma pad_index: "strchr_index b64_chars 0 = Inr 64"
  using strchr_index_zero [OF no_zero] by (simp add: length_chars)

lemma quad_back:
  assumes "to_sextets a b c = [q0, q1, q2, q3]"
  shows "decode_quad b64_chars [char_of_sextet q0, char_of_sextet q1, char_of_sextet q2, char_of_sextet q3] =
    Inr [a, b, c]"
proof -
  have "\<forall>q \<in> {q0, q1, q2, q3}. unat q < 64" using sextet_bound [of a b c] assms by simp
  then have "decode_quad b64_chars [char_of_sextet q0, char_of_sextet q1, char_of_sextet q2, char_of_sextet q3] =
      Inr (from_sextets q0 q1 q2 q3)"
    by (simp add: decode_quad_def char_index)
  also have "from_sextets q0 q1 q2 q3 = [a, b, c]" by (rule sextets_back [OF assms])
  finally show ?thesis .
qed

lemma tail_back:
  assumes "to_sextets a b 0 = [q0, q1, q2, q3]"
  shows "b = 0 \<Longrightarrow> decode_tail b64_chars [char_of_sextet q0, char_of_sextet q1] = Inr [a]"
    and "decode_tail b64_chars [char_of_sextet q0, char_of_sextet q1, char_of_sextet q2] = Inr [a, b]"
proof -
  have q: "unat q0 < 64" "unat q1 < 64" "unat q2 < 64" using sextet_bound [of a b 0] assms by simp_all
  have s: "from_sextets q0 q1 q2 q3 = [a, b, 0]" by (rule sextets_back [OF assms])
  then have "take 2 (from_sextets q0 q1 q2 64) = [a, b]" by (simp add: from_sextets_def)
  with q show "decode_tail b64_chars [char_of_sextet q0, char_of_sextet q1, char_of_sextet q2] = Inr [a, b]"
    by (simp add: decode_tail_def decode_quad_def char_index pad_index numeral_2_eq_2)
  from s have "take 1 (from_sextets q0 q1 64 64) = [a]" by (simp add: from_sextets_def)
  with q show "decode_tail b64_chars [char_of_sextet q0, char_of_sextet q1] = Inr [a]"
    by (simp add: decode_tail_def decode_quad_def char_index pad_index numeral_2_eq_2)
qed

lemma decode_encode_loop:
  "n = int (length (encode_loop b64_chars [] d)) \<Longrightarrow>
     decode_loop b64_chars n [] (encode_loop b64_chars [] d) = Inr d"
proof (induction d arbitrary: n rule: blocks.induct [case_names full none one two])
  case (full a b c ds)
  obtain q0 q1 q2 q3 where q: "to_sextets a b c = [q0, q1, q2, q3]" by (simp add: to_sextets_def)
  then have "unat q0 < 64" "unat q1 < 64" "unat q2 < 64" "unat q3 < 64"
    using sextet_bound [of a b c] by simp_all
  with full quad_back [OF q] show ?case by (simp add: q char_valid Let_def)
next
  case none
  then show ?case by (simp add: decode_tail_def)
next
  case (one a)
  obtain q0 q1 q2 q3 where q: "to_sextets a 0 0 = [q0, q1, q2, q3]" by (simp add: to_sextets_def)
  then have "unat q0 < 64" "unat q1 < 64" using sextet_bound [of a 0 0] by simp_all
  with one tail_back(1) [OF q] show ?case by (simp add: q char_valid Let_def numeral_2_eq_2)
next
  case (two a b)
  obtain q0 q1 q2 q3 where q: "to_sextets a b 0 = [q0, q1, q2, q3]" by (simp add: to_sextets_def)
  then have "unat q0 < 64" "unat q1 < 64" "unat q2 < 64" using sextet_bound [of a b 0] by simp_all
  with two tail_back(2) [OF q] show ?case by (simp add: q char_valid Let_def numeral_2_eq_2)
qed

lemma length_encode_loop: "length (encode_loop b64_chars [] d) = 4 * ((length d + 2) div 3)"
proof (induction d rule: blocks.induct)
  case (1 a b c ds)
  have "(5 + length ds) div 3 = Suc ((length ds + 2) div 3)" by presburger
  with 1 show ?case by (simp add: to_sextets_def)
qed (simp_all add: to_sextets_def Let_def)

lemma quad_total:
  assumes "length arr = 4" and "\<forall>c \<in> set arr. c = 0 \<or> is_base64 c b64_chars"
  shows "\<exists>d. decode_quad b64_chars arr = Inr d"
proof -
  have "\<exists>q. strchr_index b64_chars c = Inr q" if "c \<in> set arr" for c
    using assms(2) that pad_index strchr_index_nth [OF distinct_chars] valid_chars
    by (metis in_set_conv_nth)
  then have "\<exists>q. strchr_index b64_chars (arr ! i) = Inr q" if "i < 4" for i
    using assms(1) that by simp
  from this [of 0] this [of 1] this [of 2] this [of 3] show ?thesis
    by (auto simp: decode_quad_def)
qed

lemma tail_total:
  assumes "length arr < 4" and "\<forall>c \<in> set arr. is_base64 c b64_chars"
  shows "\<exists>d. decode_tail b64_chars arr = Inr d"
proof (cases "arr = []")
  case False
  have "\<exists>d. decode_quad b64_chars (arr @ replicate (4 - length arr) 0) = Inr d"
    using assms by (intro quad_total) auto
  with False show ?thesis by (auto simp: decode_tail_def)
qed (simp add: decode_tail_def)

lemma decode_loop_total:
  "n = int (length s) \<Longrightarrow> length arr < 4 \<Longrightarrow> \<forall>c \<in> set arr. is_base64 c b64_chars \<Longrightarrow>
   if \<forall>c \<in> set (takeWhile (\<lambda>c. c \<noteq> 0x3d) s). is_base64 c b64_chars
   then \<exists>d. decode_loop b64_chars n arr s = Inr d
   else decode_loop b64_chars n arr s = Inl Assert_failed"
proof (induction s arbitrary: n arr)
  case Nil
  then show ?case using tail_total [of arr] by simp
next
  case (Cons c s)
  consider "c = 0x3d" | "c \<noteq> 0x3d" "\<not> is_base64 c b64_chars" | "c \<noteq> 0x3d" "is_base64 c b64_chars" by blast
  then show ?case
  proof cases
    case 1
    with Cons.prems tail_total [of arr] show ?thesis by simp
  next
    case 2
    with Cons.prems show ?thesis by (simp add: throw_on_nonbase64_def)
  next
    case 3
    then have t: "throw_on_nonbase64 c b64_chars = Inr ()" by (simp add: throw_on_nonbase64_def)
    show ?thesis
    proof (cases "length arr = 3")
      case True
      obtain d where "decode_quad b64_chars (arr @ [c]) = Inr d"
        using quad_total [of "arr @ [c]"] True 3 Cons.prems by auto
      with Cons.IH [of "int (length s)" "[]"] Cons.prems 3 t True show ?thesis
        by (simp split: if_splits) auto
    next
      case False
      with Cons.IH [of "int (length s)" "arr @ [c]"] Cons.prems 3 t show ?thesis
        by (simp split: if_splits)
    qed
  qed
qed

lemma decode_impl_total:
  assumes "length s < 2 ^ 31"
  shows "if \<forall>c \<in> set (takeWhile (\<lambda>c. c \<noteq> 0x3d) s). is_base64 c b64_chars
    then \<exists>d. base64_decode_impl s b64_chars = Inr d
    else base64_decode_impl s b64_chars = Inl Assert_failed"
  unfolding base64_decode_impl_def sint_of_nat_u32 [OF assms] by (rule decode_loop_total) simp_all

lemma decode_encode_impl:
  assumes "length d < 3 * 2 ^ 29 - 2"
  shows "base64_decode_impl (base64_encode_impl d (of_nat (length d)) b64_chars) b64_chars = Inr d"
proof -
  have "unat (of_nat (length d) :: u32) = length d" using assms by (intro unat_of_nat_lt) simp
  then have e: "base64_encode_impl d (of_nat (length d)) b64_chars = encode_loop b64_chars [] d"
    by (simp add: base64_encode_impl_def)
  have "length (encode_loop b64_chars [] d) < 2 ^ 31" using assms by (simp add: length_encode_loop)
  then have "sint (of_nat (length (encode_loop b64_chars [] d)) :: u32) = int (length (encode_loop b64_chars [] d))"
    by (rule sint_of_nat_u32)
  then show ?thesis unfolding base64_decode_impl_def e by (simp add: decode_encode_loop)
qed

end

lemma isalnum_iff: "isalnum c \<longleftrightarrow> c \<in> of_nat ` ({65..<91} \<union> {97..<123} \<union> {48..<58})"
proof -
  have "isalnum c \<longleftrightarrow> unat c \<in> {65..<91} \<union> {97..<123} \<union> {48..<58}"
    by (auto simp: isalnum_def word_le_nat_alt)
  also have "\<dots> \<longleftrightarrow> c \<in> of_nat ` ({65..<91} \<union> {97..<123} \<union> {48..<58})"
  proof
    assume "unat c \<in> {65..<91} \<union> {97..<123} \<union> {48..<58}"
    then show "c \<in> of_nat ` ({65..<91} \<union> {97..<123} \<union> {48..<58})" by (intro image_eqI [of _ _ "unat c"]) auto
  qed (auto simp: unat_of_nat)
  finally show ?thesis .
qed

lemma base64_chars_ranges:
  "base64_chars = map of_nat ([65..<91] @ [97..<123] @ [48..<58]) @ [43, 47]"
  "base64url_chars = map of_nat ([65..<91] @ [97..<123] @ [48..<58]) @ [45, 95]"
  by (simp_all add: base64_chars_def base64url_chars_def ascii_def)

lemma base64_chars_set:
  "set base64_chars = {c. isalnum c} \<union> {43, 47}" "set base64url_chars = {c. isalnum c} \<union> {45, 95}"
  unfolding base64_chars_ranges isalnum_iff set_append set_map set_upt image_Un list.set by blast+

lemma base64_chars_last:
  "base64_chars ! 62 = 43" "base64_chars ! 63 = 47" "base64url_chars ! 62 = 45" "base64url_chars ! 63 = 95"
  by (simp_all add: base64_chars_def base64url_chars_def ascii_def)

interpretation b64: base64_alphabet base64_chars
proof (unfold_locales, goal_cases)
  case (3 c)
  then show ?case by (auto simp: base64_chars_set base64_chars_last is_base64_def)
qed (simp_all add: base64_chars_def ascii_def)

interpretation b64url: base64_alphabet base64url_chars
proof (unfold_locales, goal_cases)
  case (3 c)
  then show ?case by (auto simp: base64_chars_set base64_chars_last is_base64_def)
qed (simp_all add: base64url_chars_def ascii_def)

interpretation base64: codec base64_encode base64_decode "\<lambda>d. length d < 3 * 2 ^ 29 - 2"
  by unfold_locales (simp only: base64_encode_def base64_decode_def b64.decode_encode_impl)

interpretation base64url: codec base64url_encode base64url_decode "\<lambda>d. length d < 3 * 2 ^ 29 - 2"
  by unfold_locales (simp only: base64url_encode_def base64url_decode_def b64url.decode_encode_impl)

subsection \<open>Properties\<close>

text \<open>
  Hexadecimal round trip. \<^verbatim>\<open>from_hex\<close> of \<^verbatim>\<open>to_hex\<close> of up to \<open>2 ^ 32 - 1\<close> bytes stores exactly
  those bytes at the front of any buffer that holds them, returns their number and leaves the rest of
  the buffer alone.
\<close>

lemma hex_roundtrip:
  assumes "length d < 2 ^ 32" and "length d \<le> length out"
  shows "from_hex (to_hex_vector d) out = Inr (length d, d @ drop (length d) out)"
  using assms by (simp add: from_hex_def to_hex_vector_eq from_hex_pairs)

text \<open>
  C17. Base 64 round trip, in both alphabets: decoding what was encoded returns the data, for data
  whose encoding is shorter than \<open>2 ^ 31\<close> characters (the size the decoder keeps in an \<^verbatim>\<open>int\<close>).
\<close>

theorem base64_roundtrip:
  assumes "length d < 3 * 2 ^ 29 - 2"
  shows "base64_decode (base64_encode d) = Inr d \<and> base64url_decode (base64url_encode d) = Inr d"
  using base64.decode_encode base64url.decode_encode assms by blast

theorem base64_roundtrip_witness:
  "base64_decode (base64_encode [102, 111, 111, 98]) = Inr [102, 111, 111, 98] \<and>
   base64url_decode (base64url_encode [102, 111, 111, 98]) = Inr [102, 111, 111, 98]"
  by (rule base64_roundtrip) simp

text \<open>
  Decoding untrusted text. On every string shorter than \<open>2 ^ 31\<close> \<^verbatim>\<open>base64_decode\<close> returns data
  exactly when each character before the first padding character belongs to the alphabet, and fails
  its assertion otherwise; it never looks a character up in vain.
\<close>

lemma base64_decode_accepts:
  assumes "length s < 2 ^ 31"
  shows "if \<forall>c \<in> set (takeWhile (\<lambda>c. c \<noteq> 0x3d) s). isalnum c \<or> c = 0x2b \<or> c = 0x2f
    then \<exists>d. base64_decode s = Inr d else base64_decode s = Inl Assert_failed"
  using b64.decode_impl_total [OF assms] by (simp add: base64_decode_def is_base64_def base64_chars_last)

end
