(* ===== verification/Smaz.thy ===== *)
theory Smaz
  imports Text_Codecs
begin

text \<open>
  The short-string compressor of \<^verbatim>\<open>src/compress/smaz.cpp\<close>. The code books are the tables of the
  source in rows of 16: \<open>cb_slot\<close> writes a slot of the hash table as the source's string does, each
  word preceded by its length and followed by its code, and the zero that ends a C string is the end
  of the list.
\<close>

subsection \<open>The code books\<close>

definition cb_slot :: "(string \<times> byte) list \<Rightarrow> bytes" where
  "cb_slot es = concat (map (\<lambda>(w, c). of_nat (length w) # ascii w @ [c]) es)"

definition Smaz_cb_0 :: "bytes list" where
  "Smaz_cb_0 =
    [cb_slot [(''s,'', 182)], cb_slot [(''had'', 154), (''le'', 87)], cb_slot [(''on '', 142)],
     cb_slot [], cb_slot [(''y'', 83)], cb_slot [(''ma'', 173), (''li'', 151)],
     cb_slot [(''or '', 176)], cb_slot [], cb_slot [(''ll'', 152), (''s t'', 191)],
     cb_slot [(''from'', 103), (''me'', 108)], cb_slot [], cb_slot [(''its'', 218)],
     cb_slot [(''z'', 219)], cb_slot [(''ing'', 70)], cb_slot [(''>'', 222)],
     cb_slot [('' '', 0), (''   '', 40), (''nc'', 228)]]"

definition Smaz_cb_1 :: "bytes list" where
  "Smaz_cb_1 =
    [cb_slot [(''nd'', 61), ('' on'', 202)],
     cb_slot [(''ne'', 139), (''hat'', 190), (''re '', 113)], cb_slot [],
     cb_slot [(''ng'', 84), (''her'', 122), (''have'', 198), (''s o'', 149)], cb_slot [],
     cb_slot [(''ion'', 107), (''s a'', 172), (''ly'', 234)],
     cb_slot [(''his'', 76), ('' in'', 78), ('' be'', 170)], cb_slot [],
     cb_slot [('' fo'', 213), ('' of'', 32), ('' ha'', 201)], cb_slot [], cb_slot [(''of'', 5)],
     cb_slot [('' co'', 161), (''no'', 183), ('' ma'', 248)], cb_slot [], cb_slot [],
     cb_slot [('' cl'', 238), (''ent'', 97), ('' an'', 55)],
     cb_slot [(''ns'', 192), ([CHR 0x22], 101)]]"

definition Smaz_cb_2 :: "bytes list" where
  "Smaz_cb_2 =
    [cb_slot [(''n t'', 143), (''nt'', 80), (''s, '', 133)],
     cb_slot [(''pe'', 208), ('' we'', 233), (''om'', 147)], cb_slot [(''on'', 31)], cb_slot [],
     cb_slot [(''y '', 71)], cb_slot [('' wa'', 185)], cb_slot [('' re'', 209), (''or'', 42)],
     cb_slot [], cb_slot [(''='' @ [CHR 0x22], 169), (''ot'', 223)],
     cb_slot [(''for'', 68), (''ou'', 91)], cb_slot [('' to'', 82)], cb_slot [('' th'', 13)],
     cb_slot [('' it'', 246)],
     cb_slot [(''but'', 177), (''ra'', 130), ('' wi'', 243), (''</'', 241)],
     cb_slot [('' wh'', 159)], cb_slot [(''  '', 52)]]"

definition Smaz_cb_3 :: "bytes list" where
  "Smaz_cb_3 =
    [cb_slot [(''nd '', 63)], cb_slot [(''re'', 33)], cb_slot [], cb_slot [(''ng '', 99)],
     cb_slot [], cb_slot [(''ly '', 199), (''ass'', 211), (''a'', 4), (''ri'', 114)],
     cb_slot [], cb_slot [], cb_slot [], cb_slot [(''se'', 95)], cb_slot [(''of '', 34)],
     cb_slot [(''div'', 244), (''ro'', 115), (''ere'', 160)], cb_slot [],
     cb_slot [(''ta'', 200), (''b'', 90), (''si'', 212)], cb_slot [],
     cb_slot [(''and'', 7), (''rs'', 221)]]"

definition Smaz_cb_4 :: "bytes list" where
  "Smaz_cb_4 =
    [cb_slot [(''rt'', 242)], cb_slot [(''te'', 69)], cb_slot [(''ati'', 206)],
     cb_slot [(''so'', 179)], cb_slot [(''th'', 17)],
     cb_slot [(''ti'', 74), (''c'', 28), (''all'', 112)], cb_slot [(''ate'', 229)],
     cb_slot [(''ss'', 166)], cb_slot [(''st'', 77)], cb_slot [], cb_slot [(''><'', 230)],
     cb_slot [(''to'', 20)], cb_slot [(''are'', 119)], cb_slot [(''d'', 24)],
     cb_slot [(''tr'', 195)], cb_slot []]"

definition Smaz_cb_5 :: "bytes list" where
  "Smaz_cb_5 =
    [cb_slot [([CHR 0x0A], 49), ('' a '', 146)], cb_slot [(''f t'', 118), (''ve'', 111)],
     cb_slot [(''un'', 224)], cb_slot [], cb_slot [(''e o'', 162)],
     cb_slot [(''a '', 163), (''wa'', 214), (''e'', 2)],
     cb_slot [(''ur'', 150), (''e a'', 188)],
     cb_slot [(''us'', 164), ([CHR 0x0A, CHR 0x0D, CHR 0x0A], 167)],
     cb_slot [(''ut'', 196), (''e c'', 251)], cb_slot [(''we'', 145)], cb_slot [], cb_slot [],
     cb_slot [(''wh'', 194)], cb_slot [(''f'', 44)], cb_slot [], cb_slot []]"

definition Smaz_cb_6 :: "bytes list" where
  "Smaz_cb_6 =
    [cb_slot [], cb_slot [(''d t'', 134)], cb_slot [], cb_slot [], cb_slot [(''th '', 227)],
     cb_slot [(''g'', 59)], cb_slot [], cb_slot [], cb_slot [([CHR 0x0D], 57), (''e s'', 181)],
     cb_slot [(''e t'', 156)], cb_slot [], cb_slot [(''to '', 89)],
     cb_slot [(''e'' @ [CHR 0x0D, CHR 0x0A], 158)], cb_slot [(''d '', 30), (''h'', 18)],
     cb_slot [], cb_slot [('','', 81)]]"

definition Smaz_cb_7 :: "bytes list" where
  "Smaz_cb_7 =
    [cb_slot [('' a'', 25)], cb_slot [('' b'', 94)],
     cb_slot [([CHR 0x0D, CHR 0x0A], 21), ('' c'', 73)], cb_slot [('' d'', 165)],
     cb_slot [('' e'', 171)], cb_slot [('' f'', 104), (''i'', 8), (''e '', 11)], cb_slot [],
     cb_slot [('' h'', 85), (''-'', 204)], cb_slot [('' i'', 56)], cb_slot [], cb_slot [],
     cb_slot [('' l'', 205)], cb_slot [('' m'', 123)], cb_slot [(''f '', 58), ('' n'', 236)],
     cb_slot [('' o'', 29)],
     cb_slot [('' p'', 125), (''.'', 110), ([CHR 0x0D, CHR 0x0A, CHR 0x0D], 168)]]"

definition Smaz_cb_8 :: "bytes list" where
  "Smaz_cb_8 =
    [cb_slot [], cb_slot [('' r'', 189)], cb_slot [('' s'', 62)], cb_slot [('' t'', 14)],
     cb_slot [], cb_slot [(''g '', 157), (''which'', 43), (''whi'', 247)],
     cb_slot [('' w'', 53)], cb_slot [(''/'', 197)], cb_slot [(''as '', 140)],
     cb_slot [(''at '', 135)], cb_slot [], cb_slot [(''who'', 217)], cb_slot [],
     cb_slot [(''l'', 22), (''h '', 138)], cb_slot [], cb_slot [('', '', 36)]]"

definition Smaz_cb_9 :: "bytes list" where
  "Smaz_cb_9 =
    [cb_slot [], cb_slot [(''with'', 86)], cb_slot [], cb_slot [], cb_slot [],
     cb_slot [(''m'', 45)], cb_slot [], cb_slot [], cb_slot [(''ac'', 239)],
     cb_slot [(''ad'', 232)], cb_slot [(''The'', 72)], cb_slot [], cb_slot [],
     cb_slot [(''this'', 155), (''n'', 9)], cb_slot [], cb_slot [(''. '', 121)]]"

definition Smaz_cb_10 :: "bytes list" where
  "Smaz_cb_10 =
    [cb_slot [], cb_slot [(''al'', 88), (''e, '', 245)], cb_slot [(''tio'', 141), (''be'', 92)],
     cb_slot [(''an'', 26), (''ver'', 231)], cb_slot [],
     cb_slot [(''that'', 48), (''tha'', 203), (''o'', 6)], cb_slot [(''was'', 50)],
     cb_slot [(''ar'', 79)], cb_slot [(''as'', 46)],
     cb_slot [(''at'', 39), (''the'', 1), (''they'', 128), (''there'', 210), (''their'', 100)],
     cb_slot [(''ce'', 136)], cb_slot [(''were'', 93)], cb_slot [],
     cb_slot [(''ch'', 153), (''l '', 180), (''p'', 60)], cb_slot [], cb_slot []]"

definition Smaz_cb_11 :: "bytes list" where
  "Smaz_cb_11 =
    [cb_slot [(''one'', 174)], cb_slot [], cb_slot [(''he '', 19), (''de'', 106)],
     cb_slot [(''ter'', 184)], cb_slot [(''co'', 117)], cb_slot [],
     cb_slot [(''by'', 127), (''di'', 129), (''ea'', 120)], cb_slot [], cb_slot [(''ec'', 215)],
     cb_slot [(''ed'', 66)], cb_slot [(''ee'', 235)], cb_slot [], cb_slot [],
     cb_slot [(''r'', 12), (''n '', 41)], cb_slot [], cb_slot []]"

definition Smaz_cb_12 :: "bytes list" where
  "Smaz_cb_12 =
    [cb_slot [], cb_slot [(''el'', 178)], cb_slot [], cb_slot [(''in '', 105), (''en'', 51)],
     cb_slot [], cb_slot [(''o '', 96), (''s'', 10)], cb_slot [], cb_slot [(''er'', 27)],
     cb_slot [(''is '', 116), (''es'', 54)], cb_slot [], cb_slot [(''ge'', 249)],
     cb_slot [(''.com'', 253)], cb_slot [(''fo'', 220), (''our'', 216)],
     cb_slot [(''ch '', 193), (''t'', 3)], cb_slot [(''ha'', 98)], cb_slot []]"

definition Smaz_cb_13 :: "bytes list" where
  "Smaz_cb_13 =
    [cb_slot [(''men'', 252)], cb_slot [], cb_slot [(''he'', 16)], cb_slot [], cb_slot [],
     cb_slot [(''u'', 38)], cb_slot [(''hi'', 102)], cb_slot [],
     cb_slot [(''not'', 132), (''ic'', 131)], cb_slot [(''ed '', 64), (''id'', 237)],
     cb_slot [], cb_slot [], cb_slot [(''ho'', 187)], cb_slot [(''r '', 75), (''v'', 109)],
     cb_slot [], cb_slot []]"

definition Smaz_cb_14 :: "bytes list" where
  "Smaz_cb_14 =
    [cb_slot [], cb_slot [(''t t'', 175), (''il'', 240)], cb_slot [(''im'', 226)],
     cb_slot [(''en '', 207), (''in'', 15)], cb_slot [(''io'', 144)],
     cb_slot [(''s '', 23), (''w'', 65)], cb_slot [], cb_slot [(''er '', 124)],
     cb_slot [(''es '', 126), (''is'', 37)], cb_slot [(''it'', 47)], cb_slot [],
     cb_slot [(''iv'', 186)], cb_slot [],
     cb_slot [(''t '', 35), (''http://'', 67), (''x'', 250)], cb_slot [(''la'', 137)],
     cb_slot [(''<'', 225)]]"

definition Smaz_cb_15 :: "bytes list" where
  "Smaz_cb_15 =
    [cb_slot [('', a'', 148)]]"

definition Smaz_cb :: "bytes list list" where
  "Smaz_cb =
    [Smaz_cb_0, Smaz_cb_1, Smaz_cb_2, Smaz_cb_3, Smaz_cb_4, Smaz_cb_5, Smaz_cb_6, Smaz_cb_7,
     Smaz_cb_8, Smaz_cb_9, Smaz_cb_10, Smaz_cb_11, Smaz_cb_12, Smaz_cb_13, Smaz_cb_14,
     Smaz_cb_15]"

definition Smaz_cb_at :: "nat \<Rightarrow> bytes" where
  "Smaz_cb_at n = Smaz_cb ! (n div 16) ! (n mod 16)"

definition Smaz_rcb_0 :: "string list" where
  "Smaz_rcb_0 =
    ['' '', ''the'', ''e'', ''t'', ''a'', ''of'', ''o'', ''and'', ''i'', ''n'', ''s'', ''e '',
     ''r'', '' th'', '' t'', ''in'']"

definition Smaz_rcb_1 :: "string list" where
  "Smaz_rcb_1 =
    [''he'', ''th'', ''h'', ''he '', ''to'', [CHR 0x0D, CHR 0x0A], ''l'', ''s '', ''d'', '' a'',
     ''an'', ''er'', ''c'', '' o'', ''d '', ''on'']"

definition Smaz_rcb_2 :: "string list" where
  "Smaz_rcb_2 =
    ['' of'', ''re'', ''of '', ''t '', '', '', ''is'', ''u'', ''at'', ''   '', ''n '', ''or'',
     ''which'', ''f'', ''m'', ''as'', ''it'']"

definition Smaz_rcb_3 :: "string list" where
  "Smaz_rcb_3 =
    [''that'', [CHR 0x0A], ''was'', ''en'', ''  '', '' w'', ''es'', '' an'', '' i'', [CHR 0x0D],
     ''f '', ''g'', ''p'', ''nd'', '' s'', ''nd '']"

definition Smaz_rcb_4 :: "string list" where
  "Smaz_rcb_4 =
    [''ed '', ''w'', ''ed'', ''http://'', ''for'', ''te'', ''ing'', ''y '', ''The'', '' c'',
     ''ti'', ''r '', ''his'', ''st'', '' in'', ''ar'']"

definition Smaz_rcb_5 :: "string list" where
  "Smaz_rcb_5 =
    [''nt'', '','', '' to'', ''y'', ''ng'', '' h'', ''with'', ''le'', ''al'', ''to '', ''b'',
     ''ou'', ''be'', ''were'', '' b'', ''se'']"

definition Smaz_rcb_6 :: "string list" where
  "Smaz_rcb_6 =
    [''o '', ''ent'', ''ha'', ''ng '', ''their'', [CHR 0x22], ''hi'', ''from'', '' f'', ''in '',
     ''de'', ''ion'', ''me'', ''v'', ''.'', ''ve'']"

definition Smaz_rcb_7 :: "string list" where
  "Smaz_rcb_7 =
    [''all'', ''re '', ''ri'', ''ro'', ''is '', ''co'', ''f t'', ''are'', ''ea'', ''. '',
     ''her'', '' m'', ''er '', '' p'', ''es '', ''by'']"

definition Smaz_rcb_8 :: "string list" where
  "Smaz_rcb_8 =
    [''they'', ''di'', ''ra'', ''ic'', ''not'', ''s, '', ''d t'', ''at '', ''ce'', ''la'',
     ''h '', ''ne'', ''as '', ''tio'', ''on '', ''n t'']"

definition Smaz_rcb_9 :: "string list" where
  "Smaz_rcb_9 =
    [''io'', ''we'', '' a '', ''om'', '', a'', ''s o'', ''ur'', ''li'', ''ll'', ''ch'', ''had'',
     ''this'', ''e t'', ''g '', ''e'' @ [CHR 0x0D, CHR 0x0A], '' wh'']"

definition Smaz_rcb_10 :: "string list" where
  "Smaz_rcb_10 =
    [''ere'', '' co'', ''e o'', ''a '', ''us'', '' d'', ''ss'', [CHR 0x0A, CHR 0x0D, CHR 0x0A],
     [CHR 0x0D, CHR 0x0A, CHR 0x0D], ''='' @ [CHR 0x22], '' be'', '' e'', ''s a'', ''ma'',
     ''one'', ''t t'']"

definition Smaz_rcb_11 :: "string list" where
  "Smaz_rcb_11 =
    [''or '', ''but'', ''el'', ''so'', ''l '', ''e s'', ''s,'', ''no'', ''ter'', '' wa'',
     ''iv'', ''ho'', ''e a'', '' r'', ''hat'', ''s t'']"

definition Smaz_rcb_12 :: "string list" where
  "Smaz_rcb_12 =
    [''ns'', ''ch '', ''wh'', ''tr'', ''ut'', ''/'', ''have'', ''ly '', ''ta'', '' ha'',
     '' on'', ''tha'', ''-'', '' l'', ''ati'', ''en '']"

definition Smaz_rcb_13 :: "string list" where
  "Smaz_rcb_13 =
    [''pe'', '' re'', ''there'', ''ass'', ''si'', '' fo'', ''wa'', ''ec'', ''our'', ''who'',
     ''its'', ''z'', ''fo'', ''rs'', ''>'', ''ot'']"

definition Smaz_rcb_14 :: "string list" where
  "Smaz_rcb_14 =
    [''un'', ''<'', ''im'', ''th '', ''nc'', ''ate'', ''><'', ''ver'', ''ad'', '' we'', ''ly'',
     ''ee'', '' n'', ''id'', '' cl'', ''ac'']"

definition Smaz_rcb_15 :: "string list" where
  "Smaz_rcb_15 =
    [''il'', ''</'', ''rt'', '' wi'', ''div'', ''e, '', '' it'', ''whi'', '' ma'', ''ge'',
     ''x'', ''e c'', ''men'', ''.com'']"

definition Smaz_rcb :: "string list list" where
  "Smaz_rcb =
    [Smaz_rcb_0, Smaz_rcb_1, Smaz_rcb_2, Smaz_rcb_3, Smaz_rcb_4, Smaz_rcb_5, Smaz_rcb_6,
     Smaz_rcb_7, Smaz_rcb_8, Smaz_rcb_9, Smaz_rcb_10, Smaz_rcb_11, Smaz_rcb_12, Smaz_rcb_13,
     Smaz_rcb_14, Smaz_rcb_15]"

definition Smaz_rcb_at :: "nat \<Rightarrow> bytes" where
  "Smaz_rcb_at n = ascii (Smaz_rcb ! (n div 16) ! (n mod 16))"

subsection \<open>Compression\<close>

text \<open>The walk along one slot: the code of the word that is the next \<open>j\<close> bytes of the input.\<close>

function cb_lookup :: "bytes \<Rightarrow> nat \<Rightarrow> bytes \<Rightarrow> byte option" where
  "cb_lookup slot j inp =
     (case slot of [] \<Rightarrow> None
      | l # r \<Rightarrow>
          if l = 0 then None
          else if unat l = j \<and> take j r = take j inp then Some (r ! unat l)
          else cb_lookup (drop (unat l + 1) r) j inp)"
  by pat_completeness auto
termination
  by (relation "measure (\<lambda>(slot, _, _). length slot)") auto

declare cb_lookup.simps [simp del]

fun try_lengths :: "u32 \<Rightarrow> u32 \<Rightarrow> u32 \<Rightarrow> nat \<Rightarrow> bytes \<Rightarrow> (nat \<times> byte) option" where
  "try_lengths h1 h2 h3 0 inp = None"
| "try_lengths h1 h2 h3 (Suc j) inp =
     (let h = if Suc j = 1 then h1 else if Suc j = 2 then h2 else h3
      in case cb_lookup (Smaz_cb_at (unat (h mod 241))) (Suc j) inp of
           Some c \<Rightarrow> Some (Suc j, c)
         | None \<Rightarrow> try_lengths h1 h2 h3 j inp)"

text \<open>Characters are signed and the hashes are computed in 32 bits.\<close>

definition find_word :: "bytes \<Rightarrow> int \<Rightarrow> (nat \<times> byte) option" where
  "find_word inp inlen =
     (let h1 = push_bit 3 (scast (inp ! 0) :: u32);
          h2 = if inlen > 1 then h1 + scast (inp ! 1) else h1;
          h3 = if inlen > 2 then h2 XOR scast (inp ! 2) else 0
      in try_lengths h1 h2 h3 (nat (min 7 inlen)) inp)"

definition flush_needed :: "bytes \<Rightarrow> int" where
  "flush_needed verb = (if verb = [] then 0 else if length verb = 1 then 2 else 2 + int (length verb))"

definition flush_bytes :: "bytes \<Rightarrow> bytes" where
  "flush_bytes verb =
     (if verb = [] then []
      else if length verb = 1 then [254, verb ! 0]
      else [255, of_nat (length verb - 1)] @ verb)"

text \<open>
  The main loop: \<open>inp\<close> and \<open>inlen\<close> are the input pointer and the count left, \<open>verb\<close> the bytes kept for a
  verbatim run, \<open>out\<close> the bytes stored so far. It returns the length of the output, or
  \<^verbatim>\<open>_outlen + 1\<close> when the output does not fit.
\<close>

lemma find_word_positive:
  assumes "find_word inp inlen = Some (j, c)"
  shows "0 < j" and "j \<le> 7" and "int j \<le> inlen"
proof -
  have "0 < j \<and> j \<le> k" if "try_lengths h1 h2 h3 k inp = Some (j, c)" for h1 h2 h3 k
    using that by (induction k) (auto simp: Let_def split: option.splits)
  then have "0 < j \<and> j \<le> nat (min 7 inlen)" using assms by (auto simp: find_word_def Let_def)
  then show "0 < j" "j \<le> 7" "int j \<le> inlen" by auto
qed

function smaz_compress_loop :: "int \<Rightarrow> bytes \<Rightarrow> int \<Rightarrow> int \<Rightarrow> bytes \<Rightarrow> bytes \<Rightarrow> (int \<times> bytes) result" where
  "smaz_compress_loop outlen0 inp inlen outlen verb out =
     (if inlen = 0 then Inr (int (length out), out)
      else if inp = [] then Inl Undefined_behaviour
      else case find_word inp inlen of
        Some (j, c) \<Rightarrow>
          if outlen - flush_needed verb \<le> 0 then Inr (outlen0 + 1, out)
          else smaz_compress_loop outlen0 (drop j inp) (inlen - int j) (outlen - flush_needed verb - 1) []
                 (out @ flush_bytes verb @ [c])
      | None \<Rightarrow>
          if length verb + 1 = 256 \<or> inlen - 1 = 0 then
            if outlen - flush_needed (verb @ [hd inp]) < 0 then Inr (outlen0 + 1, out)
            else smaz_compress_loop outlen0 (tl inp) (inlen - 1) (outlen - flush_needed (verb @ [hd inp])) []
                   (out @ flush_bytes (verb @ [hd inp]))
          else smaz_compress_loop outlen0 (tl inp) (inlen - 1) outlen (verb @ [hd inp]) out)"
  by pat_completeness auto
termination
  by (relation "measure (\<lambda>(_, inp, _). length inp)") (auto dest: find_word_positive)

declare smaz_compress_loop.simps [simp del]

text \<open>\<^verbatim>\<open>smaz_compress(std::string)\<close>: sizes go through \<^verbatim>\<open>int\<close> and \<^verbatim>\<open>uint32_t\<close>.\<close>

definition smaz_compress :: "bytes \<Rightarrow> bytes result" where
  "smaz_compress inp =
     (let n = sint (of_nat (length inp) :: u32)
      in and_then (smaz_compress_loop n inp n n [] []) (\<lambda>(ret, out).
           let out_len = unat (of_int ret :: u32)
           in fc_assert (out_len \<le> length inp)
                (Inr (take out_len (out @ replicate (length inp - length out) 0)))))"

subsection \<open>Decompression\<close>

text \<open>\<open>mem\<close> is the memory from the input pointer on, the terminating zero included.\<close>

function smaz_decompress_loop :: "bytes \<Rightarrow> u32 \<Rightarrow> bytes result" where
  "smaz_decompress_loop mem inlen =
     (if inlen = 0 then Inr []
      else case mem of [] \<Rightarrow> Inl Undefined_behaviour
      | c # r \<Rightarrow>
          if c = 254 then
            if r = [] then Inl Undefined_behaviour
            else and_then (smaz_decompress_loop (tl r) (inlen - 2)) (\<lambda>s. Inr (hd r # s))
          else if c = 255 then
            if r = [] then Inl Undefined_behaviour
            else let len = unat (hd r) + 1
                 in if len \<le> length (tl r)
                    then and_then (smaz_decompress_loop (drop len (tl r)) (inlen - of_nat (2 + len))) (\<lambda>s.
                           Inr (take len (tl r) @ s))
                    else Inl Undefined_behaviour
          else and_then (smaz_decompress_loop r (inlen - 1)) (\<lambda>s. Inr (Smaz_rcb_at (unat c) @ s)))"
  by pat_completeness auto
termination
  by (relation "measure (\<lambda>(mem, _). length mem)") auto

declare smaz_decompress_loop.simps [simp del]

definition smaz_decompress :: "bytes \<Rightarrow> bytes result" where
  "smaz_decompress compressed = smaz_decompress_loop (compressed @ [0]) (of_nat (length compressed))"

subsection \<open>The code books agree\<close>

text \<open>The words of a slot with their codes.\<close>

function slot_entries :: "bytes \<Rightarrow> (bytes \<times> byte) list" where
  "slot_entries slot =
     (case slot of [] \<Rightarrow> []
      | l # r \<Rightarrow> if l = 0 then [] else (take (unat l) r, r ! unat l) # slot_entries (drop (unat l + 1) r))"
  by pat_completeness auto
termination
  by (relation "measure length") auto

declare slot_entries.simps [simp del]

lemma slot_entries_eval [fc_eval]:
  "slot_entries [] = []"
  "slot_entries (l # r) =
     (if l = 0 then [] else (take (unat l) r, r ! unat l) # slot_entries (drop (unat l + 1) r))"
  by (simp_all add: slot_entries.simps [of "[]"] slot_entries.simps [of "l # r"])

definition entry_ok :: "bytes \<times> byte \<Rightarrow> bool" where
  "entry_ok e \<longleftrightarrow> unat (snd e) < 254 \<and> Smaz_rcb_at (unat (snd e)) = fst e"

definition slot_ok :: "bytes \<Rightarrow> bool" where
  "slot_ok slot \<longleftrightarrow> list_all entry_ok (slot_entries slot)"

lemma cb_lookup_entry:
  "cb_lookup slot j inp = Some c \<Longrightarrow> (take j inp, c) \<in> set (slot_entries slot)"
proof (induction slot j inp rule: cb_lookup.induct)
  case (1 slot j inp)
  show ?case
  proof (cases slot)
    case Nil
    with 1 show ?thesis by (simp add: cb_lookup.simps [of "[]"])
  next
    case (Cons l r)
    with 1 show ?thesis
      by (auto simp: cb_lookup.simps [of "l # r"] slot_entries_eval split: if_splits)
  qed
qed

lemmas rcb_rows = Smaz_rcb_0_def Smaz_rcb_1_def Smaz_rcb_2_def Smaz_rcb_3_def Smaz_rcb_4_def
  Smaz_rcb_5_def Smaz_rcb_6_def Smaz_rcb_7_def Smaz_rcb_8_def Smaz_rcb_9_def Smaz_rcb_10_def
  Smaz_rcb_11_def Smaz_rcb_12_def Smaz_rcb_13_def Smaz_rcb_14_def Smaz_rcb_15_def

lemmas slot_check = slot_ok_def entry_ok_def cb_slot_def ascii_def fc_eval Smaz_rcb_at_def Smaz_rcb_def rcb_rows

lemma cb_rows_ok:
  "list_all slot_ok Smaz_cb_0"
  "list_all slot_ok Smaz_cb_1"
  "list_all slot_ok Smaz_cb_2"
  "list_all slot_ok Smaz_cb_3"
  "list_all slot_ok Smaz_cb_4"
  "list_all slot_ok Smaz_cb_5"
  "list_all slot_ok Smaz_cb_6"
  "list_all slot_ok Smaz_cb_7"
  "list_all slot_ok Smaz_cb_8"
  "list_all slot_ok Smaz_cb_9"
  "list_all slot_ok Smaz_cb_10"
  "list_all slot_ok Smaz_cb_11"
  "list_all slot_ok Smaz_cb_12"
  "list_all slot_ok Smaz_cb_13"
  "list_all slot_ok Smaz_cb_14"
  "list_all slot_ok Smaz_cb_15"
  by (simp_all add: slot_check Smaz_cb_0_def Smaz_cb_1_def Smaz_cb_2_def Smaz_cb_3_def Smaz_cb_4_def Smaz_cb_5_def Smaz_cb_6_def Smaz_cb_7_def
      Smaz_cb_8_def Smaz_cb_9_def Smaz_cb_10_def Smaz_cb_11_def Smaz_cb_12_def Smaz_cb_13_def Smaz_cb_14_def Smaz_cb_15_def)

lemma slot_ok_at:
  assumes n: "n < 241"
  shows "slot_ok (Smaz_cb_at n)"
proof -
  have len: "length Smaz_cb = 16" "length (Smaz_cb ! 15) = 1"
    by (simp_all add: Smaz_cb_def Smaz_cb_15_def)
  have "list_all (\<lambda>row. length row = 16) (take 15 Smaz_cb)"
    by (simp add: Smaz_cb_def Smaz_cb_0_def Smaz_cb_1_def Smaz_cb_2_def Smaz_cb_3_def Smaz_cb_4_def Smaz_cb_5_def Smaz_cb_6_def Smaz_cb_7_def
        Smaz_cb_8_def Smaz_cb_9_def Smaz_cb_10_def Smaz_cb_11_def Smaz_cb_12_def Smaz_cb_13_def Smaz_cb_14_def Smaz_cb_15_def)
  then have full: "length (Smaz_cb ! i) = 16" if "i < 15" for i
    using that len by (simp add: list_all_length)
  have "n mod 16 < length (Smaz_cb ! (n div 16))"
  proof (cases "n div 16 = 15")
    case True
    with n have "n mod 16 = 0" by presburger
    with True len show ?thesis by simp
  next
    case False
    with n have "n div 16 < 15" by presburger
    then show ?thesis by (simp add: full)
  qed
  moreover have "list_all (list_all slot_ok) Smaz_cb" by (simp add: Smaz_cb_def cb_rows_ok)
  then have "list_all slot_ok (Smaz_cb ! (n div 16))" using n len by (simp add: list_all_length)
  ultimately show ?thesis by (simp add: Smaz_cb_at_def list_all_length)
qed

lemma find_word_ok:
  assumes "find_word inp inlen = Some (j, c)"
  shows "unat c < 254" and "Smaz_rcb_at (unat c) = take j inp"
proof -
  have e: "entry_ok (take j inp, c)" if "try_lengths h1 h2 h3 k inp = Some (j, c)" for h1 h2 h3 k
    using that
  proof (induction k)
    case (Suc k)
    have "unat (h mod 241) < 241" for h :: u32 by (simp add: unat_mod)
    then have "list_all entry_ok (slot_entries (Smaz_cb_at (unat (h mod 241))))" for h :: u32
      using slot_ok_at slot_ok_def by blast
    with Suc cb_lookup_entry show ?case
      by (fastforce simp: Let_def list_all_iff split: option.splits)
  qed simp
  have "entry_ok (take j inp, c)" using assms e by (auto simp: find_word_def Let_def)
  then show "unat c < 254" "Smaz_rcb_at (unat c) = take j inp" by (simp_all add: entry_ok_def)
qed

subsection \<open>Decompression undoes compression\<close>

text \<open>\<open>expands more s\<close>: decompressing \<open>more\<close> in front of any memory yields \<open>s\<close> first.\<close>

definition expands :: "bytes \<Rightarrow> bytes \<Rightarrow> bool" where
  "expands more s \<longleftrightarrow>
     (\<forall>mem n. n + length more < 2 ^ 32 \<longrightarrow>
        smaz_decompress_loop (more @ mem) (of_nat (n + length more)) =
          and_then (smaz_decompress_loop mem (of_nat n)) (\<lambda>r. Inr (s @ r)))"

lemma expands_nil: "expands [] []"
  by (simp add: expands_def)

lemma expandsD:
  "expands more s \<Longrightarrow> n + length more < 2 ^ 32 \<Longrightarrow>
     smaz_decompress_loop (more @ mem) (of_nat (n + length more)) =
       and_then (smaz_decompress_loop mem (of_nat n)) (\<lambda>r. Inr (s @ r))"
  unfolding expands_def by blast

lemma expands_append:
  assumes "expands a s" and "expands b t"
  shows "expands (a @ b) (s @ t)"
  unfolding expands_def
proof (intro allI impI)
  fix mem n assume n: "n + length (a @ b) < (2 :: nat) ^ 32"
  then have "(n + length b) + length a < 2 ^ 32" "n + length b < 2 ^ 32" by simp_all
  from expandsD [OF assms(1) this(1), of "b @ mem"] expandsD [OF assms(2) this(2), of mem]
  show "smaz_decompress_loop ((a @ b) @ mem) (of_nat (n + length (a @ b))) =
      and_then (smaz_decompress_loop mem (of_nat n)) (\<lambda>r. Inr ((s @ t) @ r))"
    by (simp add: and_then_assoc add.commute add.left_commute)
qed

lemma of_nat_u32_nonzero: "0 < n \<Longrightarrow> n < 2 ^ 32 \<Longrightarrow> (of_nat n :: u32) \<noteq> 0"
proof
  assume n: "0 < n" "n < 2 ^ 32" and "(of_nat n :: u32) = 0"
  then have "unat (of_nat n :: u32) = 0" by simp
  with n show False by (simp add: unat_of_nat_lt)
qed

lemma expands_code:
  assumes "unat c < 254"
  shows "expands [c] (Smaz_rcb_at (unat c))"
proof -
  have "c \<noteq> 254" "c \<noteq> 255" using assms by auto
  then have "smaz_decompress_loop (c # mem) (of_nat (n + 1)) =
      and_then (smaz_decompress_loop mem (of_nat n)) (\<lambda>r. Inr (Smaz_rcb_at (unat c) @ r))"
    if "n + 1 < 2 ^ 32" for mem n
    using of_nat_u32_nonzero [of "n + 1"] that by (simp add: smaz_decompress_loop.simps [of "c # _"])
  then show ?thesis by (simp add: expands_def)
qed

lemma expands_flush:
  assumes "length verb \<le> 256"
  shows "expands (flush_bytes verb) verb"
proof -
  consider "verb = []" | "length verb = 1" | "1 < length verb" by (cases "length verb") auto
  then show ?thesis
  proof cases
    case 1
    then show ?thesis by (simp add: flush_bytes_def expands_nil)
  next
    case 2
    then obtain v where v: "verb = [v]" by (auto simp: length_Suc_conv)
    have "smaz_decompress_loop (254 # v # mem) (of_nat (n + 2)) =
        and_then (smaz_decompress_loop mem (of_nat n)) (\<lambda>r. Inr (v # r))" if "n + 2 < 2 ^ 32" for mem n
      using of_nat_u32_nonzero [of "n + 2"] that by (simp add: smaz_decompress_loop.simps [of "254 # _"])
    with v show ?thesis by (simp add: flush_bytes_def expands_def)
  next
    case 3
    then obtain k where k: "length verb = Suc k" "0 < k" "k < 2 ^ LENGTH(8)"
      using assms by (cases "length verb") auto
    then have u: "unat (of_nat k :: byte) = k" by (intro unat_of_nat_lt)
    have "smaz_decompress_loop (255 # of_nat k # verb @ mem) (of_nat (n + (2 + Suc k))) =
        and_then (smaz_decompress_loop mem (of_nat n)) (\<lambda>r. Inr (verb @ r))"
      if n: "n + (2 + Suc k) < 2 ^ 32" for mem n
      using of_nat_u32_nonzero [OF _ n] u k
      by (simp add: smaz_decompress_loop.simps [of "255 # _"] Let_def)
    with k show ?thesis by (auto simp: flush_bytes_def expands_def add.left_commute)
  qed
qed

lemma flush_needed_eq: "flush_needed verb = int (length (flush_bytes verb))"
  by (auto simp: flush_needed_def flush_bytes_def)

text \<open>
  Where the loop returns the length of its output, the bytes it appended expand to the pending
  verbatim bytes and the input, and the output fits; otherwise it returns one more than the space it
  was given.
\<close>

definition compressed_from :: "int \<Rightarrow> bytes \<Rightarrow> bytes \<Rightarrow> (int \<times> bytes) result \<Rightarrow> bool" where
  "compressed_from outlen0 out s r \<longleftrightarrow>
     (\<exists>more. r = Inr (int (length (out @ more)), out @ more) \<and> expands more s \<and>
        int (length (out @ more)) \<le> max outlen0 (int (length out))) \<or>
     (\<exists>o'. r = Inr (outlen0 + 1, o'))"

lemma compressed_from_done: "compressed_from outlen0 out [] (Inr (int (length out), out))"
  unfolding compressed_from_def using expands_nil by (intro disjI1 exI [of _ "[]"]) simp

lemma compressed_from_full: "compressed_from outlen0 out s (Inr (outlen0 + 1, o'))"
  unfolding compressed_from_def by blast

lemma compressed_from_step:
  assumes "compressed_from outlen0 (out @ a) t r" and "expands a s" and "int (length (out @ a)) \<le> outlen0"
  shows "compressed_from outlen0 out (s @ t) r"
proof -
  consider more where "r = Inr (int (length ((out @ a) @ more)), (out @ a) @ more)" "expands more t"
      "int (length ((out @ a) @ more)) \<le> max outlen0 (int (length (out @ a)))"
    | o' where "r = Inr (outlen0 + 1, o')"
    using assms(1) unfolding compressed_from_def by blast
  then show ?thesis
  proof cases
    case (1 more)
    with expands_append [OF assms(2) 1(2)] assms(3) show ?thesis
      unfolding compressed_from_def by (intro disjI1 exI [of _ "a @ more"]) simp
  next
    case (2 o')
    then show ?thesis by (simp add: compressed_from_full)
  qed
qed

lemma smaz_compress_loop_ok:
  "inlen = int (length inp) \<Longrightarrow> length verb < 256 \<Longrightarrow> (inp = [] \<longrightarrow> verb = []) \<Longrightarrow>
   outlen = outlen0 - int (length out) \<Longrightarrow>
   compressed_from outlen0 out (verb @ inp) (smaz_compress_loop outlen0 inp inlen outlen verb out)"
proof (induction outlen0 inp inlen outlen verb out rule: smaz_compress_loop.induct)
  case (1 outlen0 inp inlen outlen verb out)
  note loop = smaz_compress_loop.simps [of outlen0 inp inlen outlen verb out]
  show ?case
  proof (cases "inp = []")
    case True
    with "1.prems" have "smaz_compress_loop outlen0 inp inlen outlen verb out = Inr (int (length out), out)"
      unfolding loop by simp
    with True "1.prems" compressed_from_done show ?thesis by simp
  next
    case nonempty: False
    with "1.prems" have n: "inlen \<noteq> 0" by simp
    show ?thesis
    proof (cases "find_word inp inlen")
      case None
      let ?v = "verb @ [hd inp]"
      have split: "verb @ inp = ?v @ tl inp" using nonempty by simp
      have tl: "inlen - 1 = int (length (tl inp))" using "1.prems" nonempty by (simp add: Suc_le_eq of_nat_diff)
      show ?thesis
      proof (cases "length verb + 1 = 256 \<or> inlen - 1 = 0")
        case flush: True
        show ?thesis
        proof (cases "outlen - flush_needed ?v < 0")
          case True
          then have "smaz_compress_loop outlen0 inp inlen outlen verb out = Inr (outlen0 + 1, out)"
            unfolding loop using n nonempty None flush by simp
          then show ?thesis by (simp add: compressed_from_full)
        next
          case False
          have e: "expands (flush_bytes ?v) ?v" using "1.prems" by (intro expands_flush) simp
          have le: "int (length (out @ flush_bytes ?v)) \<le> outlen0"
            using False "1.prems" by (simp add: flush_needed_eq)
          have "smaz_compress_loop outlen0 inp inlen outlen verb out =
              smaz_compress_loop outlen0 (tl inp) (inlen - 1) (outlen - flush_needed ?v) [] (out @ flush_bytes ?v)"
            unfolding loop using n nonempty None flush False by simp
          moreover have "compressed_from outlen0 (out @ flush_bytes ?v) ([] @ tl inp)
              (smaz_compress_loop outlen0 (tl inp) (inlen - 1) (outlen - flush_needed ?v) [] (out @ flush_bytes ?v))"
            using "1.prems" by (intro "1.IH"(1) [OF n nonempty None flush False tl]) (simp_all add: flush_needed_eq)
          ultimately show ?thesis
            unfolding split using compressed_from_step [OF _ e le] by simp
        qed
      next
        case False
        from False have "length ?v < 256" using "1.prems"(2) by simp
        moreover from False have "inlen - 1 \<noteq> 0" by blast
        with tl have "length (tl inp) \<noteq> 0" by linarith
        then have "tl inp \<noteq> []" by (metis list.size(3))
        moreover have "smaz_compress_loop outlen0 inp inlen outlen verb out =
            smaz_compress_loop outlen0 (tl inp) (inlen - 1) outlen ?v out"
          unfolding loop using n nonempty None False by simp
        ultimately show ?thesis
          unfolding split using "1.IH"(2) [OF n nonempty None False tl] "1.prems" by simp
      qed
    next
      case (Some p)
      then obtain j c where p: "find_word inp inlen = Some (j, c)" by (cases p) auto
      note w = find_word_ok [OF p] find_word_positive [OF p]
      let ?a = "flush_bytes verb @ [c]" and ?o = "outlen - flush_needed verb - 1"
      have e: "expands ?a (verb @ take j inp)"
        using "1.prems" expands_code [OF w(1)] w(2) by (intro expands_append expands_flush) simp_all
      show ?thesis
      proof (cases "outlen - flush_needed verb \<le> 0")
        case True
        then have "smaz_compress_loop outlen0 inp inlen outlen verb out = Inr (outlen0 + 1, out)"
          unfolding loop using n nonempty p by simp
        then show ?thesis by (simp add: compressed_from_full)
      next
        case False
        have le: "int (length (out @ ?a)) \<le> outlen0" using False "1.prems" by (simp add: flush_needed_eq)
        have "compressed_from outlen0 (out @ ?a) ([] @ drop j inp)
            (smaz_compress_loop outlen0 (drop j inp) (inlen - int j) ?o [] (out @ ?a))"
          using "1.prems" w by (intro "1.IH"(3) [OF n nonempty p refl False]) (simp_all add: flush_needed_eq of_nat_diff)
        moreover have "smaz_compress_loop outlen0 inp inlen outlen verb out =
            smaz_compress_loop outlen0 (drop j inp) (inlen - int j) ?o [] (out @ ?a)"
          unfolding loop using n nonempty p False by simp
        ultimately show ?thesis using compressed_from_step [OF _ e le, of "drop j inp"] by simp
      qed
    qed
  qed
qed

lemma smaz_compress_cases:
  assumes n: "length s < 2 ^ 31"
  shows "smaz_compress s = Inl Assert_failed \<or>
    (\<exists>c. smaz_compress s = Inr c \<and> length c \<le> length s \<and> expands c s)"
proof -
  let ?n = "int (length s)"
  have sn: "sint (of_nat (length s) :: u32) = ?n" using n by (rule sint_of_nat_u32)
  have "compressed_from ?n [] ([] @ s) (smaz_compress_loop ?n s ?n ?n [] [])"
    by (rule smaz_compress_loop_ok) simp_all
  then consider c where "smaz_compress_loop ?n s ?n ?n [] [] = Inr (int (length c), c)" "expands c s" "length c \<le> length s"
    | o' where "smaz_compress_loop ?n s ?n ?n [] [] = Inr (?n + 1, o')"
    by (auto simp: compressed_from_def)
  then show ?thesis
  proof cases
    case (1 c)
    have "unat (of_nat (length c) :: u32) = length c" using 1(3) n by (intro unat_of_nat_lt) simp
    with 1 have "smaz_compress s = Inr c" by (simp add: smaz_compress_def sn)
    with 1 show ?thesis by blast
  next
    case (2 o')
    have "unat (of_nat (length s + 1) :: u32) = length s + 1" using n by (intro unat_of_nat_lt) simp
    then have "unat (of_int (?n + 1) :: u32) = length s + 1" by (metis of_int_of_nat_eq of_nat_1 of_nat_add)
    with 2 have "smaz_compress s = Inl Assert_failed" by (simp add: smaz_compress_def sn del: of_int_add)
    then show ?thesis ..
  qed
qed

lemma smaz_decompress_expands:
  assumes "expands c s" and "length c < 2 ^ 32"
  shows "smaz_decompress c = Inr s"
  using expandsD [OF assms(1), of 0 "[0]"] assms(2)
  by (simp add: smaz_decompress_def smaz_decompress_loop.simps [of "[0]"])

subsection \<open>Properties\<close>

text \<open>
  C15. Smaz round trip. Whatever word of the code book the hash search picks at each position and
  however runs of other bytes are cut, decompressing the result of \<^verbatim>\<open>smaz_compress\<close> returns the
  input, and the result is never longer than the input.
\<close>

theorem smaz_roundtrip:
  assumes "length s < 2 ^ 31" and "smaz_compress s = Inr c"
  shows "smaz_decompress c = Inr s \<and> length c \<le> length s"
proof -
  from smaz_compress_cases [OF assms(1)] assms(2) have c: "length c \<le> length s" "expands c s" by auto
  moreover have "length c < 2 ^ 32" using c(1) assms(1) by simp
  ultimately show ?thesis using smaz_decompress_expands by blast
qed

text \<open>
  \<^verbatim>\<open>smaz_compress\<close> on any string shorter than \<open>2 ^ 31\<close> returns, or fails its assertion because
  the compressed form would be longer than the input; it does not read past its input.
\<close>

lemma smaz_compress_total:
  assumes "length s < 2 ^ 31"
  shows "is_ok (smaz_compress s) \<or> smaz_compress s = Inl Assert_failed"
  using smaz_compress_cases [OF assms] by auto

lemma try_lengths_numeral [fc_eval]:
  "try_lengths h1 h2 h3 (numeral k) inp =
     (let h = if numeral k = (1 :: nat) then h1 else if numeral k = (2 :: nat) then h2 else h3
      in case cb_lookup (Smaz_cb_at (unat (h mod 241))) (numeral k) inp of
           Some c \<Rightarrow> Some (numeral k, c)
         | None \<Rightarrow> try_lengths h1 h2 h3 (pred_numeral k) inp)"
  using try_lengths.simps(2) [of h1 h2 h3 "pred_numeral k" inp] by (simp only: numeral_eq_Suc [of k])

lemma cb_lookup_eval [fc_eval]:
  "cb_lookup [] j inp = None"
  "cb_lookup (l # r) j inp =
     (if l = 0 then None
      else if unat l = j \<and> take j r = take j inp then Some (r ! unat l)
      else cb_lookup (drop (unat l + 1) r) j inp)"
  by (simp_all add: cb_lookup.simps [of "[]"] cb_lookup.simps [of "l # r"])

lemmas smaz_eval = smaz_compress_def ascii_def find_word_def Let_def fc_eval Smaz_cb_at_def Smaz_cb_def
  Smaz_cb_10_def cb_slot_def flush_needed_def flush_bytes_def smaz_compress_loop.simps [of 3]
  smaz_compress_loop.simps [of 1]

lemma smaz_the: "smaz_compress (ascii ''the'') = Inr [1]"
  by (simp add: smaz_eval)

theorem smaz_roundtrip_witness:
  "smaz_decompress [1] = Inr (ascii ''the'') \<and> length [1 :: byte] \<le> length (ascii ''the'')"
  by (rule smaz_roundtrip [OF _ smaz_the]) (simp add: ascii_def)

text \<open>
  Strings the code book does not shorten are refused, and truncated input sends the decompressor
  past its end: one character outside the code book makes \<^verbatim>\<open>smaz_compress\<close> fail its assertion, and
  the single byte that announces a verbatim character makes \<^verbatim>\<open>smaz_decompress\<close> count down through
  zero.
\<close>

lemma smaz_limits:
  "smaz_compress (ascii ''Q'') = Inl Assert_failed \<and> smaz_decompress [254] = Inl Undefined_behaviour"
proof
  show "smaz_compress (ascii ''Q'') = Inl Assert_failed" by (simp add: smaz_eval)
  show "smaz_decompress [254] = Inl Undefined_behaviour"
    by (simp add: smaz_decompress_def smaz_decompress_loop.simps)
qed

end
