(* ===== verification/Decimal.thy ===== *)
theory Decimal
  imports Fc_Prelude
begin

text \<open>
  Decimal notation as strings of bytes: what the standard library's formatted output writes for an
  integer, and the value of a string of digits.
\<close>

text \<open>The decimal digits of a positive number, most significant first.\<close>

fun decimal :: "nat \<Rightarrow> bytes" where
  "decimal n = (if n = 0 then [] else decimal (n div 10) @ [of_nat (48 + n mod 10)])"

declare decimal.simps [simp del]

lemma ten_cases:
  "d < (10 :: nat) \<longleftrightarrow> d = 0 \<or> d = 1 \<or> d = 2 \<or> d = 3 \<or> d = 4 \<or> d = 5 \<or> d = 6 \<or> d = 7 \<or> d = 8 \<or> d = 9"
  by auto

definition dec :: "nat \<Rightarrow> bytes" where
  "dec n = (if n = 0 then [48] else decimal n)"

definition dec_int :: "int \<Rightarrow> bytes" where
  "dec_int i = (if i < 0 then 0x2d # dec (nat (- i)) else dec (nat i))"

definition is_digit :: "byte \<Rightarrow> bool" where
  "is_digit b \<longleftrightarrow> 48 \<le> b \<and> b \<le> 57"

fun digits_value :: "nat \<Rightarrow> bytes \<Rightarrow> nat" where
  "digits_value acc [] = acc"
| "digits_value acc (b # bs) = digits_value (10 * acc + (unat b - 48)) bs"

lemma decimal_hd: "0 < n \<Longrightarrow> \<exists>d r. decimal n = of_nat (48 + d) # r \<and> 0 < d \<and> d < 10"
proof (induction n rule: decimal.induct)
  case (1 n)
  show ?case
  proof (cases "n div 10 = 0")
    case True
    with 1 show ?thesis by (auto simp: decimal.simps [of n] decimal.simps [of 0] intro!: exI [of _ n])
  next
    case False
    with 1 show ?thesis by (auto simp: decimal.simps [of n])
  qed
qed

lemma digits_value_append: "digits_value acc (xs @ ys) = digits_value (digits_value acc xs) ys"
  by (induction xs arbitrary: acc) simp_all

lemma digit_byte: "d < 10 \<Longrightarrow> is_digit (of_nat (48 + d)) \<and> unat (of_nat (48 + d) :: byte) = 48 + d"
proof -
  assume "d < 10"
  then have "unat (of_nat (48 + d) :: byte) = 48 + d" by (intro unat_of_nat_lt) simp
  with \<open>d < 10\<close> show ?thesis by (simp add: is_digit_def word_le_nat_alt del: of_nat_add)
qed

lemma decimal_digits: "list_all is_digit (decimal n)"
proof (induction n rule: decimal.induct)
  case (1 n)
  then show ?case using digit_byte [of "n mod 10"] by (simp add: decimal.simps [of n] del: of_nat_add)
qed

lemma decimal_value: "digits_value 0 (decimal n) = n"
proof (induction n rule: decimal.induct)
  case (1 n)
  then show ?case using digit_byte [of "n mod 10"] by (simp add: decimal.simps [of n] digits_value_append del: of_nat_add)
qed

lemma dec_digits: "list_all is_digit (dec n)"
  by (simp add: dec_def decimal_digits is_digit_def)

lemma dec_not_nil [simp]: "dec n \<noteq> []"
  using decimal_hd [of n] by (auto simp: dec_def)

lemma dec_value: "digits_value 0 (dec n) = n"
  by (simp add: dec_def decimal_value)

end
