(* ===== verification/Uint128.thy ===== *)
theory Uint128
  imports Decimal
begin

text \<open>
  The 128-bit unsigned integer of \<^verbatim>\<open>fc/uint128.hpp\<close> and \<^verbatim>\<open>src/uint128.cpp\<close>: two 64-bit halves,
  each operator as the source builds it from operations on the halves. The division operator goes
  through Boost's 128-bit integer, which is a parameter of the definition that uses it.
\<close>

record uint128 =
  hi :: u64
  lo :: u64

definition u128 :: "u64 \<Rightarrow> u64 \<Rightarrow> uint128" where
  "u128 h l = \<lparr>hi = h, lo = l\<rparr>"

definition u128_of_u64 :: "u64 \<Rightarrow> uint128" where
  "u128_of_u64 l = u128 0 l"

definition u128_of_i64 :: "u64 \<Rightarrow> uint128" where
  "u128_of_i64 l = u128 (if sint l < 0 then - 1 else 0) l"

subsection \<open>Comparison and bits\<close>

definition u128_eq :: "uint128 \<Rightarrow> uint128 \<Rightarrow> bool" where
  "u128_eq a b \<longleftrightarrow> hi a = hi b \<and> lo a = lo b"

definition u128_less :: "uint128 \<Rightarrow> uint128 \<Rightarrow> bool" where
  "u128_less a b = (if hi a = hi b then lo a < lo b else hi a < hi b)"

definition u128_ge :: "uint128 \<Rightarrow> uint128 \<Rightarrow> bool" where
  "u128_ge a b \<longleftrightarrow> u128_eq a b \<or> u128_less b a"

definition u128_le :: "uint128 \<Rightarrow> uint128 \<Rightarrow> bool" where
  "u128_le a b \<longleftrightarrow> u128_eq a b \<or> u128_less a b"

definition u128_not :: "uint128 \<Rightarrow> uint128" where
  "u128_not a = u128 (NOT (hi a)) (NOT (lo a))"

definition u128_or :: "uint128 \<Rightarrow> uint128 \<Rightarrow> uint128" where
  "u128_or a b = u128 (hi a OR hi b) (lo a OR lo b)"

definition u128_and :: "uint128 \<Rightarrow> uint128 \<Rightarrow> uint128" where
  "u128_and a b = u128 (hi a AND hi b) (lo a AND lo b)"

definition u128_xor :: "uint128 \<Rightarrow> uint128 \<Rightarrow> uint128" where
  "u128_xor a b = u128 (hi a XOR hi b) (lo a XOR lo b)"

definition to_integer :: "uint128 \<Rightarrow> u32 result" where
  "to_integer a = fc_assert (hi a = 0) (let lo32 = ucast (lo a) :: u32
     in fc_assert (lo a = ucast lo32) (Inr lo32))"

definition to_uint64 :: "uint128 \<Rightarrow> u64 result" where
  "to_uint64 a = fc_assert (hi a = 0) (Inr (lo a))"

definition low_32_bits :: "uint128 \<Rightarrow> u32" where
  "low_32_bits a = ucast (lo a)"

definition max_value :: uint128 where
  "max_value = u128 (- 1) (- 1)"

subsection \<open>Sums and shifts\<close>

definition u128_inc :: "uint128 \<Rightarrow> uint128" where
  "u128_inc a = (let l = lo a + 1 in u128 (hi a + (if l = 0 then 1 else 0)) l)"

definition u128_dec :: "uint128 \<Rightarrow> uint128" where
  "u128_dec a = u128 (hi a - (if lo a = 0 then 1 else 0)) (lo a - 1)"

definition u128_neg :: "uint128 \<Rightarrow> uint128" where
  "u128_neg a = u128_inc (u128_not a)"

definition u128_add :: "uint128 \<Rightarrow> uint128 \<Rightarrow> uint128" where
  "u128_add a b = (let l = lo a + lo b in u128 (hi a + (hi b + (if l < lo a then 1 else 0))) l)"

definition u128_sub :: "uint128 \<Rightarrow> uint128 \<Rightarrow> uint128" where
  "u128_sub a b = u128_add a (u128_neg b)"

text \<open>
  The shifts by a count below 128, after \<^verbatim>\<open>n = rhs.to_integer()\<close>; the conversion cannot fail there.
\<close>

definition shl_small :: "uint128 \<Rightarrow> nat \<Rightarrow> uint128" where
  "shl_small a n =
     (let a' = if n \<ge> 64 then u128 (lo a) 0 else a;
          n' = if n \<ge> 64 then n - 64 else n
      in if n' \<noteq> 0
         then u128 (push_bit n' (hi a') OR drop_bit (64 - n') (lo a' AND NOT (drop_bit n' (- 1)))) (push_bit n' (lo a'))
         else a')"

definition shr_small :: "uint128 \<Rightarrow> nat \<Rightarrow> uint128" where
  "shr_small a n =
     (let a' = if n \<ge> 64 then u128 0 (hi a) else a;
          n' = if n \<ge> 64 then n - 64 else n
      in if n' \<noteq> 0
         then u128 (drop_bit n' (hi a')) (drop_bit n' (lo a') OR push_bit (64 - n') (hi a' AND NOT (push_bit n' (- 1))))
         else a')"

definition u128_shl :: "uint128 \<Rightarrow> uint128 \<Rightarrow> uint128 result" where
  "u128_shl a b =
     (if u128_ge b (u128_of_i64 128) then Inr (u128 0 0)
      else and_then (to_integer b) (\<lambda>n. Inr (shl_small a (unat n))))"

definition u128_shr :: "uint128 \<Rightarrow> uint128 \<Rightarrow> uint128 result" where
  "u128_shr a b =
     (if u128_ge b (u128_of_i64 128) then Inr (u128 0 0)
      else and_then (to_integer b) (\<lambda>n. Inr (shr_small a (unat n))))"

subsection \<open>Products\<close>

definition u128_mul :: "uint128 \<Rightarrow> uint128 \<Rightarrow> uint128" where
  "u128_mul a b =
     (let a0 = ucast (ucast (lo a) :: u32) :: u64; a1 = ucast (ucast (drop_bit 32 (lo a)) :: u32) :: u64;
          a2 = ucast (ucast (hi a) :: u32) :: u64; a3 = ucast (ucast (drop_bit 32 (hi a)) :: u32) :: u64;
          b0 = ucast (ucast (lo b) :: u32) :: u64; b1 = ucast (ucast (drop_bit 32 (lo b)) :: u32) :: u64;
          b2 = ucast (ucast (hi b) :: u32) :: u64; b3 = ucast (ucast (drop_bit 32 (hi b)) :: u32) :: u64;
          t = u128 0 (a3 * b0);
          t = u128_add t (u128_of_u64 (a2 * b1));
          t = u128_add t (u128_of_u64 (a1 * b2));
          t = u128_add t (u128_of_u64 (a0 * b3));
          t = shl_small t 32;
          t = u128_add t (u128_of_u64 (a2 * b0));
          t = u128_add t (u128_of_u64 (a1 * b1));
          t = u128_add t (u128_of_u64 (a0 * b2));
          t = shl_small t 32;
          t = u128_add t (u128_of_u64 (a1 * b0));
          t = u128_add t (u128_of_u64 (a0 * b1));
          t = shl_small t 32
      in u128_add t (u128_of_u64 (a0 * b0)))"

definition full_product :: "uint128 \<Rightarrow> uint128 \<Rightarrow> uint128 \<times> uint128" where
  "full_product a b =
     (let s = u128_mul (u128_of_u64 (lo a)) (u128_of_u64 (lo b));
          r = u128_mul (u128_of_u64 (hi a)) (u128_of_u64 (lo b));
          q = u128_mul (u128_of_u64 (lo a)) (u128_of_u64 (hi b));
          p = u128_mul (u128_of_u64 (hi a)) (u128_of_u64 (hi b));
          y0 = lo s;
          acc = u128_of_u64 (hi s);
          acc = u128_add acc (u128_of_u64 (lo q));
          acc = u128_add acc (u128_of_u64 (lo r));
          y1 = lo acc;
          acc = u128_of_u64 (hi acc);
          acc = u128_add acc (u128_of_u64 (hi q));
          acc = u128_add acc (u128_of_u64 (hi r));
          acc = u128_add acc (u128_of_u64 (lo p));
          y2 = lo acc;
          y3 = hi acc + hi p
      in (u128 y3 y2, u128 y1 y0))"

subsection \<open>The number a pair of halves stands for\<close>

definition val :: "uint128 \<Rightarrow> nat" where
  "val a = unat (hi a) * 2 ^ 64 + unat (lo a)"

definition w128 :: "uint128 \<Rightarrow> 128 word" where
  "w128 a = of_nat (val a)"

lemma u128_sel [simp]: "hi (u128 h l) = h" "lo (u128 h l) = l"
  by (simp_all add: u128_def)

lemma u128_collapse [simp]: "u128 (hi a) (lo a) = a"
  by (simp add: u128_def)

lemma u128_cases: obtains h l where "a = u128 h l"
  by (metis u128_collapse)

lemma val_u128: "val (u128 h l) = unat h * 2 ^ 64 + unat l"
  by (simp add: val_def)

lemma val_lt: "val a < 2 ^ 128"
proof -
  have "unat (hi a) \<le> 2 ^ 64 - 1" "unat (lo a) < 2 ^ 64"
    using word_unat_lt [of "hi a"] word_unat_lt [of "lo a"] by simp_all
  then have "val a < (2 ^ 64 - 1) * 2 ^ 64 + 2 ^ 64" unfolding val_def by (intro add_le_less_mono mult_le_mono1)
  then show ?thesis by simp
qed

lemma unat_w128: "unat (w128 a) = val a"
  using val_lt [of a] by (simp add: w128_def unat_of_nat)

lemma val_div_mod: "val a div 2 ^ 64 = unat (hi a)" "val a mod 2 ^ 64 = unat (lo a)"
  using word_unat_lt [of "lo a"] by (simp_all add: val_def)

lemma val_inj: "val a = val b \<longleftrightarrow> a = b"
proof
  assume v: "val a = val b"
  have "hi a = hi b" using val_div_mod(1) [of a] val_div_mod(1) [of b] v by (simp add: word_unat_eq_iff)
  moreover have "lo a = lo b" using val_div_mod(2) [of a] val_div_mod(2) [of b] v by (simp add: word_unat_eq_iff)
  ultimately show "a = b" by simp
qed simp

lemma w128_inj: "w128 a = w128 b \<longleftrightarrow> a = b"
  by (metis unat_w128 val_inj)

lemma w128_u128: "w128 (u128 h l) = of_nat (unat h) * 2 ^ 64 + of_nat (unat l)"
  by (simp add: w128_def val_def)

text \<open>What overflows the high half is a multiple of \<open>2 ^ 128\<close>.\<close>

lemma high_mod: "(of_nat (n mod 2 ^ 64) :: 128 word) * 2 ^ 64 = of_nat n * 2 ^ 64"
proof -
  have "(of_nat n :: 128 word) = of_nat (2 ^ 64 * (n div 2 ^ 64) + n mod 2 ^ 64)" by simp
  also have "\<dots> = 2 ^ 64 * of_nat (n div 2 ^ 64) + of_nat (n mod 2 ^ 64)" by (simp only: of_nat_add of_nat_mult of_nat_power of_nat_numeral)
  finally have "(of_nat n :: 128 word) * 2 ^ 64 = of_nat (n div 2 ^ 64) * (2 ^ 64 * 2 ^ 64) + of_nat (n mod 2 ^ 64) * 2 ^ 64"
    by (simp only: algebra_simps)
  moreover have "(2 ^ 64 * 2 ^ 64 :: 128 word) = 0" by simp
  ultimately show ?thesis by (metis add_0 mult_zero_right)
qed

lemma bit_w128: "bit (w128 a) i \<longleftrightarrow> (if i < 64 then bit (lo a) i else bit (hi a) (i - 64))"
proof -
  have "val a = unat (lo a) OR push_bit 64 (unat (hi a))"
    using word_unat_lt [of "lo a"] by (simp add: nat_or_shifted val_def)
  then have "bit (val a) i \<longleftrightarrow> bit (unat (lo a)) i \<or> 64 \<le> i \<and> bit (unat (hi a)) (i - 64)"
    by (simp add: bit_simps)
  moreover have "bit (w128 a) i \<longleftrightarrow> i < 128 \<and> bit (val a) i"
    by (simp add: w128_def bit_simps)
  ultimately show ?thesis by (auto simp: bit_simps dest: bit_imp_le_length)
qed

lemma w128_eqI: "(\<And>i. i < 128 \<Longrightarrow> bit (w128 a) i \<longleftrightarrow> bit w i) \<Longrightarrow> w128 a = w"
  by (rule bit_word_eqI) simp

subsection \<open>Refinement to 128-bit words\<close>

lemma w128_not: "w128 (u128_not a) = NOT (w128 a)"
  by (rule w128_eqI) (auto simp: bit_w128 u128_not_def bit_simps)

lemma w128_or: "w128 (u128_or a b) = w128 a OR w128 b"
  by (rule w128_eqI) (auto simp: bit_w128 u128_or_def bit_simps)

lemma w128_and: "w128 (u128_and a b) = w128 a AND w128 b"
  by (rule w128_eqI) (auto simp: bit_w128 u128_and_def bit_simps)

lemma w128_xor: "w128 (u128_xor a b) = w128 a XOR w128 b"
  by (rule w128_eqI) (auto simp: bit_w128 u128_xor_def bit_simps)

lemma u128_less_iff: "u128_less a b \<longleftrightarrow> val a < val b"
proof (cases "hi a = hi b")
  case True
  then show ?thesis by (simp add: u128_less_def val_def word_less_nat_alt)
next
  case False
  have "hi a < hi b \<longleftrightarrow> val a div 2 ^ 64 < val b div 2 ^ 64" unfolding val_div_mod word_less_nat_alt ..
  moreover have "val a div 2 ^ 64 \<noteq> val b div 2 ^ 64" using False unfolding val_div_mod word_unat_eq_iff .
  ultimately have "hi a < hi b \<longleftrightarrow> val a < val b"
    by (meson div_le_mono leD leI le_neq_implies_less less_imp_le)
  then show ?thesis using False by (simp add: u128_less_def)
qed

lemma u128_eq_iff: "u128_eq a b \<longleftrightarrow> val a = val b"
  by (metis u128_collapse u128_eq_def val_inj)

lemma u128_ge_iff: "u128_ge a b \<longleftrightarrow> val b \<le> val a"
  by (auto simp: u128_ge_def u128_eq_iff u128_less_iff)

lemma w128_add: "w128 (u128_add a b) = w128 a + w128 b"
proof -
  let ?l = "lo a + lo b"
  define c :: nat where "c = (if ?l < lo a then 1 else 0)"
  have l: "unat ?l + c * 2 ^ 64 = unat (lo a) + unat (lo b)"
  proof (cases "unat (lo a) + unat (lo b) < 2 ^ 64")
    case True
    then show ?thesis by (simp add: c_def word_less_nat_alt unat_word_ariths)
  next
    case False
    then have "(unat (lo a) + unat (lo b)) mod 2 ^ 64 = unat (lo a) + unat (lo b) - 2 ^ 64"
      using word_unat_lt [of "lo a"] word_unat_lt [of "lo b"] by (simp add: mod_if)
    then show ?thesis
      using False word_unat_lt [of "lo b"] by (simp add: c_def word_less_nat_alt unat_word_ariths)
  qed
  have "unat (hi a + (hi b + (if ?l < lo a then 1 else 0))) = (unat (hi a) + unat (hi b) + c) mod 2 ^ 64"
    by (simp add: c_def unat_word_ariths mod_simps add.assoc)
  then have "w128 (u128_add a b) = of_nat ((unat (hi a) + unat (hi b) + c) mod 2 ^ 64) * 2 ^ 64 + of_nat (unat ?l)"
    by (simp add: u128_add_def Let_def w128_u128)
  also have "\<dots> = of_nat ((unat (hi a) + unat (hi b)) * 2 ^ 64 + (unat ?l + c * 2 ^ 64))"
    unfolding high_mod by (simp add: algebra_simps)
  also have "\<dots> = w128 a + w128 b" unfolding l by (simp add: w128_def val_def algebra_simps)
  finally show ?thesis .
qed

lemma w128_one: "w128 (u128 0 1) = 1"
  by (simp add: w128_def val_def)

lemma w128_inc: "w128 (u128_inc a) = w128 a + 1"
proof -
  have "lo a + 1 < lo a \<longleftrightarrow> lo a + 1 = 0" 
    using word_unat_lt [of "lo a"] by (auto simp: word_less_nat_alt unat_word_ariths word_unat_eq_iff mod_Suc)
  then have "u128_inc a = u128_add a (u128 0 1)" by (simp add: u128_inc_def u128_add_def Let_def)
  then show ?thesis by (simp add: w128_add w128_one)
qed

lemma w128_neg: "w128 (u128_neg a) = - w128 a"
  by (simp add: u128_neg_def w128_inc w128_not minus_eq_not_plus_1)

lemma w128_sub: "w128 (u128_sub a b) = w128 a - w128 b"
  by (simp add: u128_sub_def w128_add w128_neg)

lemma w128_dec: "w128 (u128_dec a) = w128 a - 1"
proof -
  have "u128_inc (u128_dec a) = a" by (auto simp: u128_inc_def u128_dec_def Let_def)
  then have "w128 (u128_dec a) + 1 = w128 a" by (metis w128_inc)
  then show ?thesis by (metis add_diff_cancel_right')
qed

lemma u64_bit_lt: "bit (x :: u64) n \<Longrightarrow> n < 64"
  by (drule bit_imp_le_length) simp

lemma w128_shl_small: "n < 128 \<Longrightarrow> w128 (shl_small a n) = push_bit n (w128 a)"
proof (rule w128_eqI)
  fix i assume n: "n < 128" and i: "i < (128 :: nat)"
  show "bit (w128 (shl_small a n)) i = bit (push_bit n (w128 a)) i"
    using n i unfolding shl_small_def Let_def bit_w128 bit_push_bit_iff
    by (auto simp: bit_simps add.commute dest: u64_bit_lt)
qed

lemma w128_shr_small: "n < 128 \<Longrightarrow> w128 (shr_small a n) = drop_bit n (w128 a)"
proof (rule w128_eqI)
  fix i assume n: "n < 128" and i: "i < (128 :: nat)"
  show "bit (w128 (shr_small a n)) i = bit (drop_bit n (w128 a)) i"
    using n i unfolding shr_small_def Let_def bit_drop_bit_eq o_apply bit_w128
    by (auto simp: bit_simps add.commute dest: u64_bit_lt)
qed

lemma val_u64: "val (u128_of_u64 l) = unat l"
  by (simp add: u128_of_u64_def val_def)

lemma shift_count:
  assumes "val b < 128"
  shows "to_integer b = Inr (of_nat (val b))"
proof -
  have "unat (hi b) = 0" using assms by (simp add: val_def)
  then have h: "hi b = 0" by (simp add: word_unat_eq_iff)
  with assms have "unat (lo b) < 128" by (simp add: val_def)
  then show ?thesis using h
    by (simp add: to_integer_def val_def Let_def word_unat_eq_iff unat_ucast_mod)
qed

lemma val_i64_128: "val (u128_of_i64 128) = 128"
  by (simp add: u128_of_i64_def val_def)

lemma w128_zero: "w128 (u128 0 0) = 0"
  by (simp add: w128_def val_def)

lemma u128_shl_eq: obtains r where "u128_shl a b = Inr r" and "w128 r = push_bit (val b) (w128 a)"
proof (cases "128 \<le> val b")
  case True
  then have "push_bit (val b) (w128 a) = 0" by (intro bit_word_eqI) (simp add: bit_simps)
  with True that show thesis by (simp add: u128_shl_def u128_ge_iff val_i64_128 w128_zero)
next
  case False
  then have "unat (of_nat (val b) :: u32) = val b" by (intro unat_of_nat_lt) simp
  with False that show thesis
    by (simp add: u128_shl_def u128_ge_iff val_i64_128 shift_count w128_shl_small)
qed

lemma u128_shr_eq: obtains r where "u128_shr a b = Inr r" and "w128 r = drop_bit (val b) (w128 a)"
proof (cases "128 \<le> val b")
  case True
  have "drop_bit (val b) (w128 a) = 0"
    by (intro bit_word_eqI) (use True bit_imp_le_length [of "w128 a"] in \<open>auto simp: bit_simps\<close>)
  with True that show thesis by (simp add: u128_shr_def u128_ge_iff val_i64_128 w128_zero)
next
  case False
  then have "unat (of_nat (val b) :: u32) = val b" by (intro unat_of_nat_lt) simp
  with False that show thesis
    by (simp add: u128_shr_def u128_ge_iff val_i64_128 shift_count w128_shr_small)
qed

text \<open>Schoolbook multiplication with four digits, where the fourth power of the base vanishes.\<close>

lemma schoolbook:
  fixes c :: "'a::comm_ring_1"
  assumes "c * (c * (c * c)) = 0"
  shows "(((a3 * b0 + a2 * b1 + a1 * b2 + a0 * b3) * c + a2 * b0 + a1 * b1 + a0 * b2) * c + a1 * b0 + a0 * b1) * c +
      a0 * b0 = (a0 + a1 * c + (a2 + a3 * c) * (c * c)) * (b0 + b1 * c + (b2 + b3 * c) * (c * c))"
proof -
  have "(a0 + a1 * c + (a2 + a3 * c) * (c * c)) * (b0 + b1 * c + (b2 + b3 * c) * (c * c)) =
      (((a3 * b0 + a2 * b1 + a1 * b2 + a0 * b3) * c + a2 * b0 + a1 * b1 + a0 * b2) * c + a1 * b0 + a0 * b1) * c +
      a0 * b0 + c * (c * (c * c)) * (a1 * b3 + a2 * b2 + a3 * b1 + (a2 * b3 + a3 * b2) * c + a3 * b3 * c * c)"
    by (simp add: algebra_simps)
  then show ?thesis using assms by simp
qed

lemma unat_low_high:
  "unat (ucast (ucast (x :: u64) :: u32) :: u64) = unat x mod 2 ^ 32"
  "unat (ucast (ucast (drop_bit 32 (x :: u64)) :: u32) :: u64) = unat x div 2 ^ 32"
proof -
  show "unat (ucast (ucast x :: u32) :: u64) = unat x mod 2 ^ 32"
    by (simp add: unat_ucast_mod)
  have "unat x div 2 ^ 32 < 2 ^ 32"
    using word_unat_lt [of x] by (simp add: less_mult_imp_div_less)
  then show "unat (ucast (ucast (drop_bit 32 x) :: u32) :: u64) = unat x div 2 ^ 32"
    by (simp add: unat_ucast_mod unat_drop_bit)
qed

lemma w128_small_product:
  assumes "unat x < 2 ^ 32" and "unat y < 2 ^ 32"
  shows "w128 (u128_of_u64 (x * y)) = of_nat (unat x) * of_nat (unat y)"
proof -
  have "unat x * unat y < 2 ^ 32 * 2 ^ 32" using assms by (intro mult_strict_mono) auto
  then have "unat (x * y) = unat x * unat y" by (simp add: unat_word_ariths)
  then show ?thesis by (simp add: w128_def val_u64 del: of_nat_unat)
qed

lemma w128_shl_32: "w128 (shl_small a 32) = w128 a * 2 ^ 32"
  by (simp add: w128_shl_small push_bit_eq_mult)

lemma w128_digits:
  "w128 a = of_nat (unat (lo a) mod 2 ^ 32) + of_nat (unat (lo a) div 2 ^ 32) * 2 ^ 32 +
     (of_nat (unat (hi a) mod 2 ^ 32) + of_nat (unat (hi a) div 2 ^ 32) * 2 ^ 32) * (2 ^ 32 * 2 ^ 32)"
proof -
  have d: "n = n mod 2 ^ 32 + n div 2 ^ 32 * 2 ^ 32" for n :: nat by simp
  have "val a = unat (lo a) mod 2 ^ 32 + unat (lo a) div 2 ^ 32 * 2 ^ 32 +
      (unat (hi a) mod 2 ^ 32 + unat (hi a) div 2 ^ 32 * 2 ^ 32) * (2 ^ 32 * 2 ^ 32)"
    unfolding val_def d [symmetric] by simp
  then show ?thesis by (simp only: w128_def of_nat_add of_nat_mult of_nat_power of_nat_numeral)
qed

lemma w128_mul: "w128 (u128_mul a b) = w128 a * w128 b"
proof -
  have lt: "unat (ucast (ucast x :: u32) :: u64) < 2 ^ 32" for x :: u64
    by (simp add: unat_low_high)
  have dm: "unat (drop_bit 32 x) mod 2 ^ 32 = unat x div 2 ^ 32" for x :: u64
    by (rule trans [OF unat_low_high(1) [symmetric] unat_low_high(2)])
  have z: "(2 ^ 32 * (2 ^ 32 * (2 ^ 32 * 2 ^ 32)) :: 128 word) = 0" by simp
  show ?thesis
    unfolding u128_mul_def Let_def w128_add w128_shl_32 w128_small_product [OF lt lt]
      u128_of_u64_def [symmetric] unat_low_high dm w128_digits [of a] w128_digits [of b]
      schoolbook [OF z, symmetric] by (simp only: add.assoc)
qed

subsection \<open>The full product\<close>

lemma val_add: "val a + val b < 2 ^ 128 \<Longrightarrow> val (u128_add a b) = val a + val b"
  using w128_add [of a b] by (simp add: unat_word_ariths flip: unat_w128)

lemma val_mul_u64: "val (u128_mul (u128_of_u64 x) (u128_of_u64 y)) = unat x * unat y"
proof -
  have "unat x * unat y < 2 ^ 64 * 2 ^ 64"
    using word_unat_lt [of x] word_unat_lt [of y] by (intro mult_strict_mono) auto
  then show ?thesis
    using w128_mul [of "u128_of_u64 x" "u128_of_u64 y"]
    by (simp add: unat_word_ariths val_u64 unat_w128 flip: unat_w128 [of "u128_mul _ _"])
qed

text \<open>The carries of the column sums, in base \<open>B\<close>.\<close>

lemma column_sums:
  fixes B :: nat
  assumes "al * bl = sh * B + sl" and "ah * bl = rh * B + rl" and "al * bh = qh * B + ql" and "ah * bh = ph * B + pl"
    and "sh + ql + rl = c1 * B + y1" and "c1 + qh + rh + pl = c2 * B + y2"
  shows "((c2 + ph) * B + y2) * (B * B) + (y1 * B + sl) = (ah * B + al) * (bh * B + bl)"
proof -
  have "(ah * B + al) * (bh * B + bl) = (ah * bh) * (B * B) + (al * bh + ah * bl) * B + al * bl"
    by (simp add: algebra_simps)
  also have "\<dots> = ph * (B * B * B) + (qh + rh + pl) * (B * B) + (sh + ql + rl) * B + sl"
    unfolding assms(1-4) by (simp add: algebra_simps)
  also have "\<dots> = ph * (B * B * B) + (c1 + qh + rh + pl) * (B * B) + y1 * B + sl"
    unfolding assms(5) by (simp add: algebra_simps)
  also have "\<dots> = ((c2 + ph) * B + y2) * (B * B) + (y1 * B + sl)"
    unfolding assms(6) by (simp add: algebra_simps)
  finally show ?thesis by simp
qed

lemma val_u64_sums:
  assumes "val a \<le> 3 * 2 ^ 64"
  shows "val (u128_add a (u128_of_u64 x)) = val a + unat x" 
  using assms word_unat_lt [of x] by (subst val_add) (simp_all add: val_u64)

lemma full_product_exact:
  assumes "full_product a b = (rh, rl)"
  shows "val rh * 2 ^ 128 + val rl = val a * val b"
proof -
  define B :: nat where "B = 2 ^ 64"
  have u: "unat x < B" for x :: u64 using word_unat_lt [of x] by (simp add: B_def)
  have v: "val x = unat (hi x) * B + unat (lo x)" for x by (simp add: val_def B_def)
  define s where "s = u128_mul (u128_of_u64 (lo a)) (u128_of_u64 (lo b))"
  define r where "r = u128_mul (u128_of_u64 (hi a)) (u128_of_u64 (lo b))"
  define q where "q = u128_mul (u128_of_u64 (lo a)) (u128_of_u64 (hi b))"
  define p where "p = u128_mul (u128_of_u64 (hi a)) (u128_of_u64 (hi b))"
  define acc where "acc = u128_add (u128_add (u128_of_u64 (hi s)) (u128_of_u64 (lo q))) (u128_of_u64 (lo r))"
  define acc' where "acc' = u128_add (u128_add (u128_add (u128_of_u64 (hi acc)) (u128_of_u64 (hi q)))
      (u128_of_u64 (hi r))) (u128_of_u64 (lo p))"
  have res: "rh = u128 (hi acc' + hi p) (lo acc')" "rl = u128 (lo acc) (lo s)"
    using assms unfolding full_product_def Let_def s_def r_def q_def p_def acc_def acc'_def by simp_all
  have "val acc = unat (hi s) + unat (lo q) + unat (lo r)"
    using u [of "hi s"] u [of "lo q"] by (simp add: acc_def val_u64_sums val_u64 B_def)
  moreover have "val acc' = unat (hi acc) + unat (hi q) + unat (hi r) + unat (lo p)"
    using u [of "hi acc"] u [of "hi q"] u [of "hi r"] by (simp add: acc'_def val_u64_sums val_u64 B_def)
  ultimately have sum: "((unat (hi acc') + unat (hi p)) * B + unat (lo acc')) * (B * B) + (unat (lo acc) * B + unat (lo s)) =
      val a * val b"
    unfolding v [of a] v [of b]
    by (intro column_sums [of _ _ "unat (hi s)" _ _ _ "unat (hi r)" "unat (lo r)" _ "unat (hi q)" "unat (lo q)" _ "unat (lo p)" "unat (hi acc)"])
      (simp_all add: s_def r_def q_def p_def val_mul_u64 flip: v)
  have "(unat (hi acc') + unat (hi p)) * (B * B * B) \<le> val a * val b" unfolding sum [symmetric] by (simp add: algebra_simps)
  also have "\<dots> < 2 ^ 128 * 2 ^ 128" using val_lt [of a] val_lt [of b] by (intro mult_strict_mono) auto
  also have "\<dots> = B * (B * B * B)" by (simp add: B_def)
  finally have "unat (hi acc') + unat (hi p) < B" by simp
  then have "unat (hi acc' + hi p) = unat (hi acc') + unat (hi p)" by (simp add: B_def unat_add_lt)
  then have "val rh * (B * B) + val rl = val a * val b" using sum by (simp add: res v [of "u128 _ _"])
  then show ?thesis by (simp add: B_def)
qed

subsection \<open>Division\<close>

text \<open>
  The two loops of \<^verbatim>\<open>divide\<close>. The first doubles the divisor up to the numerator; with a zero divisor it
  would not end, which is the value \<^const>\<open>None\<close>.
\<close>

partial_function (option) div_scale :: "uint128 \<Rightarrow> uint128 \<Rightarrow> uint128 \<Rightarrow> (uint128 \<times> uint128) option" where
  "div_scale n d x =
     (if u128_ge n d \<and> u128_eq (u128_and (shr_small d 127) (u128 0 1)) (u128 0 0)
      then div_scale n (shl_small d 1) (shl_small x 1)
      else Some (d, x))"

lemma val_shr_1: "val (shr_small a 1) = val a div 2"
  using w128_shr_small [of 1 a] unat_drop_bit [of 1 "w128 a"] by (simp flip: unat_w128)

lemma val_zero_iff: "u128_eq x (u128 0 0) \<longleftrightarrow> val x = 0"
  by (simp add: u128_eq_iff val_u128)

function div_reduce :: "uint128 \<Rightarrow> uint128 \<Rightarrow> uint128 \<Rightarrow> uint128 \<Rightarrow> uint128 \<times> uint128" where
  "div_reduce n d x answer =
     (if \<not> u128_eq x (u128 0 0) then
        let n' = if u128_ge n d then u128_sub n d else n;
            answer' = if u128_ge n d then u128_or answer x else answer
        in div_reduce n' (shr_small d 1) (shr_small x 1) answer'
      else (answer, n))"
  by pat_completeness auto
termination
  by (relation "measure (\<lambda>(n, d, x, answer). val x)") (auto simp: val_shr_1 [simplified] val_zero_iff)

declare div_reduce.simps [simp del]

definition divide :: "uint128 \<Rightarrow> uint128 \<Rightarrow> (uint128 \<times> uint128) result option" where
  "divide numerator denominator =
     (if u128_eq denominator (u128 0 0) then Some (Inl Std_domain_error)
      else case div_scale numerator denominator (u128 0 1) of
             None \<Rightarrow> None
           | Some (d, x) \<Rightarrow> Some (Inr (div_reduce numerator d x (u128 0 0))))"

definition u128_mod :: "uint128 \<Rightarrow> uint128 \<Rightarrow> uint128 result option" where
  "u128_mod a b = map_option (\<lambda>r. and_then r (\<lambda>(q, m). Inr m)) (divide a b)"

subsection \<open>Division is division\<close>

lemma val_shl_1:
  assumes "val a < 2 ^ 127"
  shows "val (shl_small a 1) = 2 * val a"
proof -
  have "w128 (shl_small a 1) = w128 a * 2" by (subst w128_shl_small) (simp_all add: push_bit_eq_mult)
  then have "val (shl_small a 1) = (val a * 2) mod 2 ^ 128"
    by (simp only: unat_w128 [symmetric] unat_word_ariths) simp
  with assms show ?thesis by simp
qed

lemma top_bit_clear_iff:
  "u128_eq (u128_and (shr_small d 127) (u128 0 1)) (u128 0 0) \<longleftrightarrow> val d < 2 ^ 127"
proof -
  have "w128 (u128_and (shr_small d 127) (u128 0 1)) = drop_bit 127 (w128 d) AND 1"
    by (simp add: w128_and w128_shr_small w128_one)
  then have "val (u128_and (shr_small d 127) (u128 0 1)) = unat (drop_bit 127 (w128 d)) mod 2"
    by (simp add: and_one_eq unat_mod flip: unat_w128)
  then have "val (u128_and (shr_small d 127) (u128 0 1)) = (val d div 2 ^ 127) mod 2"
    by (simp add: unat_drop_bit unat_w128)
  moreover have "val d div 2 ^ 127 < 2" using val_lt [of d] by (simp add: less_mult_imp_div_less)
  ultimately have "val (u128_and (shr_small d 127) (u128 0 1)) = val d div 2 ^ 127" by simp
  then show ?thesis by (simp add: val_zero_iff div_eq_0_iff)
qed

lemma val_sub: "val b \<le> val a \<Longrightarrow> val (u128_sub a b) = val a - val b"
  using w128_sub [of a b] by (simp add: unat_sub word_le_nat_alt flip: unat_w128)

lemma div_scale_ok:
  "0 < val d0 \<Longrightarrow> val d = val d0 * 2 ^ k \<Longrightarrow> val x = 2 ^ k \<Longrightarrow>
   \<exists>d' x' j. div_scale n d x = Some (d', x') \<and> val d' = val d0 * 2 ^ j \<and> val x' = 2 ^ j \<and> val n < 2 * val d'"
proof (induction "2 ^ 128 - val d" arbitrary: d x k rule: less_induct)
  case less
  show ?case
  proof (cases "val d \<le> val n \<and> val d < 2 ^ 127")
    case True
    have "val x \<le> val d" using less.prems by simp
    with True have lt: "val d < 2 ^ 127" "val x < 2 ^ 127" by simp_all
    from this [THEN val_shl_1] have v: "val (shl_small d 1) = val d0 * 2 ^ Suc k" "val (shl_small x 1) = 2 ^ Suc k"
      using less.prems by simp_all
    have "0 < val d" using less.prems by simp
    with lt(1) have "2 ^ 128 - val (shl_small d 1) < 2 ^ 128 - val d"
      unfolding val_shl_1 [OF lt(1)] by simp
    from less.hyps [OF this less.prems(1) v] show ?thesis
      using True by (simp add: div_scale.simps [of n d x] u128_ge_iff top_bit_clear_iff [simplified])
  next
    case False
    then have "div_scale n d x = Some (d, x)"
      unfolding div_scale.simps [of n d x] u128_ge_iff top_bit_clear_iff by (rule if_not_P)
    moreover have "val n < 2 * val d" using False val_lt [of n] by auto
    ultimately show ?thesis using less.prems by blast
  qed
qed

lemma val_or_low:
  assumes "val x = 2 ^ j" and "val a = m * 2 ^ Suc j"
  shows "val (u128_or a x) = val a + 2 ^ j"
proof -
  have "val (u128_or a x) = val a OR val x"
    using w128_or [of a x] by (simp add: unsigned_or_eq flip: unat_w128)
  also have "\<dots> = 2 ^ j OR push_bit (Suc j) m" using assms by (simp add: or.commute push_bit_eq_mult)
  also have "\<dots> = 2 ^ j + m * 2 ^ Suc j" by (rule nat_or_shifted) simp
  finally show ?thesis using assms by simp
qed

lemma div_reduce_ok:
  "val d = d0 * 2 ^ j \<Longrightarrow> val x = 2 ^ j \<Longrightarrow> val n < 2 * val d \<Longrightarrow> val a = m * 2 ^ Suc j \<Longrightarrow>
   \<exists>a' n'. div_reduce n d x a = (a', n') \<and> val a' * d0 + val n' = val a * d0 + val n \<and> val n' < d0"
proof (induction j arbitrary: n d x a m)
  case (0 n d x a m)
  let ?n = "if u128_ge n d then u128_sub n d else n" and ?a = "if u128_ge n d then u128_or a x else a"
  have x: "val x \<noteq> 0" "val (shr_small x 1) = 0" using 0 by (simp_all add: val_shr_1 [simplified])
  then have "div_reduce n d x a = (?a, ?n)"
    by (simp add: div_reduce.simps [of n d x a] div_reduce.simps [of _ _ "shr_small x 1"] val_zero_iff Let_def
        del: One_nat_def)
  moreover have "val ?a * d0 + val ?n = val a * d0 + val n \<and> val ?n < d0"
    using 0 val_or_low [of x 0 a m] by (auto simp: u128_ge_iff val_sub algebra_simps)
  ultimately show ?case by blast
next
  case (Suc j)
  let ?n = "if u128_ge n d then u128_sub n d else n" and ?a = "if u128_ge n d then u128_or a x else a"
  have x: "val x \<noteq> 0" using Suc.prems by simp
  have v: "val (shr_small d 1) = d0 * 2 ^ j" "val (shr_small x 1) = 2 ^ j"
    using Suc.prems by (simp_all add: val_shr_1 [simplified])
  have n: "val ?n < 2 * val (shr_small d 1)"
    using Suc.prems v by (auto simp: u128_ge_iff val_sub)
  have a: "val ?a = (if u128_ge n d then 2 * m + 1 else 2 * m) * 2 ^ Suc j"
    using Suc.prems val_or_low [of x "Suc j" a m] by (auto simp: algebra_simps)
  have sum: "val ?a * d0 + val ?n = val a * d0 + val n"
    using Suc.prems val_or_low [of x "Suc j" a m] by (auto simp: u128_ge_iff val_sub algebra_simps)
  have "div_reduce n d x a = div_reduce ?n (shr_small d 1) (shr_small x 1) ?a"
    using x by (simp add: div_reduce.simps [of n d x a] val_zero_iff Let_def)
  with Suc.IH [OF v n a] sum show ?case by simp
qed

lemma divide_correct:
  assumes "val d \<noteq> 0"
  obtains q r where "divide n d = Some (Inr (q, r))" and "val q = val n div val d" and "val r = val n mod val d"
proof -
  obtain d' x' j where s: "div_scale n d (u128 0 1) = Some (d', x')" "val d' = val d * 2 ^ j" "val x' = 2 ^ j"
      "val n < 2 * val d'"
    using div_scale_ok [of d d 0 "u128 0 1" n] assms by (auto simp: val_u128)
  obtain q r where r: "div_reduce n d' x' (u128 0 0) = (q, r)" "val q * val d + val r = val n" "val r < val d"
    using div_reduce_ok [OF s(2-4), of "u128 0 0" 0] by (auto simp: val_u128)
  have "val n div val d = val q" "val n mod val d = val r"
    unfolding r(2) [symmetric] using r(3) by simp_all
  moreover have "divide n d = Some (Inr (q, r))" using assms s r by (simp add: divide_def val_zero_iff)
  ultimately show thesis using that by simp
qed

subsection \<open>Boost's division\<close>

text \<open>
  \<^verbatim>\<open>operator/=\<close> converts to Boost's 128-bit integer, divides there (\<open>m128_div\<close>, which throws on a
  zero divisor) and takes the halves of the quotient.
\<close>

definition u128_div :: "(nat \<Rightarrow> nat \<Rightarrow> nat result) \<Rightarrow> uint128 \<Rightarrow> uint128 \<Rightarrow> uint128 result" where
  "u128_div m128_div a b =
     and_then (m128_div (unat (hi a) * 2 ^ 64 + unat (lo a)) (unat (hi b) * 2 ^ 64 + unat (lo b))) (\<lambda>q.
       Inr (u128 (of_nat (q div 2 ^ 64)) (of_nat (q * 2 ^ 64 mod 2 ^ 128 div 2 ^ 64))))"

lemma u128_div_val:
  assumes "m128_div (val a) (val b) = Inr (val a div val b)"
  shows "\<exists>q. u128_div m128_div a b = Inr q \<and> val q = val a div val b"
proof -
  let ?q = "val a div val b"
  have q: "?q < 2 ^ 128" using val_lt [of a] by (meson div_le_dividend le_less_trans)
  have "?q * 2 ^ 64 mod 2 ^ 128 = (?q mod 2 ^ 64) * 2 ^ 64"
    using mult_mod_left [of ?q "2 ^ 64" "2 ^ 64"] by simp
  then have "?q * 2 ^ 64 mod 2 ^ 128 div 2 ^ 64 = ?q mod 2 ^ 64" by simp
  moreover have "?q div 2 ^ 64 < 2 ^ 64" using q by (simp add: less_mult_imp_div_less)
  ultimately have "val (u128 (of_nat (?q div 2 ^ 64)) (of_nat (?q * 2 ^ 64 mod 2 ^ 128 div 2 ^ 64))) = ?q"
    by (simp add: val_u128 unat_of_nat)
  then show ?thesis using assms by (simp add: u128_div_def val_def)
qed

subsection \<open>Decimal strings\<close>

text \<open>The digit of a character in a radix, or the end of the number.\<close>

definition digit_of :: "nat \<Rightarrow> byte \<Rightarrow> nat option" where
  "digit_of radix ch =
     (if 0x41 \<le> ch \<and> ch \<le> 0x5a then
        if unat (ch - 0x41) + 10 < radix then Some (unat (ch - 0x41) + 10) else None
      else if 0x61 \<le> ch \<and> ch \<le> 0x7a then
        if unat (ch - 0x61) + 10 < radix then Some (unat (ch - 0x61) + 10) else None
      else if 0x30 \<le> ch \<and> ch \<le> 0x39 then
        if unat (ch - 0x30) < radix then Some (unat (ch - 0x30)) else None
      else None)"

fun parse_digits :: "nat \<Rightarrow> bytes \<Rightarrow> uint128 \<Rightarrow> uint128" where
  "parse_digits radix [] acc = acc"
| "parse_digits radix (ch # cs) acc =
     (case digit_of radix ch of None \<Rightarrow> acc
      | Some n \<Rightarrow> parse_digits radix cs
          (u128_add (u128_mul acc (u128 0 (of_nat radix))) (u128 0 (of_nat n))))"

text \<open>A leading zero selects radix 8, and \<^verbatim>\<open>0x\<close> radix 16.\<close>

definition strip_radix :: "bytes \<Rightarrow> nat \<times> bytes" where
  "strip_radix s =
     (case s of c # r \<Rightarrow>
        if c = 0x30
        then (case r of c' # r' \<Rightarrow> if c' = 0x78 then (16, r') else (8, r) | [] \<Rightarrow> (8, r))
        else (10, s)
      | [] \<Rightarrow> (10, s))"

definition u128_of_string :: "bytes \<Rightarrow> uint128" where
  "u128_of_string sz =
     (if sz = [] then u128 0 0
      else let minus = (hd sz = 0x2d);
               s = if minus then tl sz else sz;
               v = (case strip_radix s of (radix, r) \<Rightarrow> parse_digits radix r (u128 0 0))
           in if minus then u128_neg v else v)"

text \<open>
  The digits are stored backwards from position \<open>i\<close> of a 129-byte buffer; the loop also stops at its
  front.
\<close>

definition digit_chars :: bytes where
  "digit_chars = ascii ''0123456789abcdefghijklmnopqrstuvwxyz''"

function print_digits :: "uint128 \<Rightarrow> nat \<Rightarrow> bytes \<Rightarrow> bytes result option" where
  "print_digits ii i out =
     (if \<not> u128_eq ii (u128 0 0) \<and> i \<noteq> 0 then
        case divide ii (u128 0 10) of None \<Rightarrow> None
        | Some (Inl e) \<Rightarrow> Some (Inl e)
        | Some (Inr (q, r)) \<Rightarrow>
            (case to_integer r of Inl e \<Rightarrow> Some (Inl e)
             | Inr n \<Rightarrow> print_digits q (i - 1) (digit_chars ! unat n # out))
      else Some (Inr out))"
  by pat_completeness auto
termination
  by (relation "measure (\<lambda>(ii, i, out). i)") auto

declare print_digits.simps [simp del]

definition u128_to_string :: "uint128 \<Rightarrow> bytes result option" where
  "u128_to_string a = (if u128_eq a (u128 0 0) then Some (Inr (ascii ''0'')) else print_digits a 127 [])"

subsection \<open>Printing and parsing decimals\<close>

lemma digit_chars_nth: "d < 10 \<Longrightarrow> digit_chars ! d = of_nat (48 + d)"
  unfolding ten_cases by (elim disjE) (simp_all add: digit_chars_def ascii_def)

lemma digit_of_decimal: "d < 10 \<Longrightarrow> digit_of 10 (of_nat (48 + d)) = Some d"
  unfolding ten_cases by (elim disjE) (simp_all add: digit_of_def)

lemma to_integer_small: "val r < 10 \<Longrightarrow> to_integer r = Inr (of_nat (val r))"
  by (rule shift_count) simp

lemma print_digits_ok:
  "val ii < 10 ^ i \<Longrightarrow> print_digits ii i out = Some (Inr (decimal (val ii) @ out))"
proof (induction i arbitrary: ii out)
  case 0
  then show ?case by (simp add: print_digits.simps [of ii] decimal.simps)
next
  case (Suc i)
  show ?case
  proof (cases "val ii = 0")
    case True
    then show ?thesis by (simp add: print_digits.simps [of ii] decimal.simps val_zero_iff)
  next
    case False
    have "val (u128 0 10) = 10" by (simp add: val_u128)
    then obtain q r where d: "divide ii (u128 0 10) = Some (Inr (q, r))" and q: "val q = val ii div 10"
      and r: "val r = val ii mod 10"
      by (metis divide_correct zero_neq_numeral)
    have r10: "val r < 10" by (simp add: r)
    have "unat (of_nat (val r) :: u32) = val r" using r10 by (intro unat_of_nat_lt) simp
    moreover have "val q < 10 ^ i" using Suc.prems by (simp add: q less_mult_imp_div_less mult.commute)
    ultimately have "print_digits ii (Suc i) out = Some (Inr (decimal (val q) @ of_nat (48 + val r) # out))"
      using False d Suc.IH [of q] r10
      by (simp add: print_digits.simps [of ii "Suc i"] val_zero_iff to_integer_small digit_chars_nth)
    then show ?thesis using False by (simp add: q r decimal.simps [of "val ii"])
  qed
qed

lemma u128_to_string_eq:
  "u128_to_string a = Some (Inr (if val a = 0 then ascii ''0'' else decimal (val a)))"
proof -
  have "val a < 10 ^ 127" using val_lt [of a] by (rule less_le_trans) simp
  then show ?thesis by (simp add: u128_to_string_def val_zero_iff print_digits_ok)
qed

lemma parse_decimal:
  "\<exists>acc'. parse_digits 10 (decimal n @ rest) acc = parse_digits 10 rest acc' \<and>
     w128 acc' = w128 acc * 10 ^ length (decimal n) + of_nat n"
proof (induction n arbitrary: rest rule: decimal.induct)
  case (1 n)
  show ?case
  proof (cases "n = 0")
    case False
    let ?d = "n mod 10"
    obtain acc1 where acc1: "parse_digits 10 (decimal (n div 10) @ of_nat (48 + ?d) # rest) acc =
        parse_digits 10 (of_nat (48 + ?d) # rest) acc1"
      and w1: "w128 acc1 = w128 acc * 10 ^ length (decimal (n div 10)) + of_nat (n div 10)"
      using 1 [OF False] by blast
    let ?acc = "u128_add (u128_mul acc1 (u128 0 10)) (u128 0 (of_nat ?d))"
    have "digit_of 10 (of_nat (48 + ?d)) = Some ?d" by (rule digit_of_decimal) simp
    then have "parse_digits 10 (decimal n @ rest) acc = parse_digits 10 rest ?acc"
      using acc1 False by (simp add: decimal.simps [of n])
    moreover have "w128 ?acc = w128 acc1 * 10 + of_nat ?d"
      by (simp add: w128_add w128_mul w128_u128 unat_of_nat)
    then have "w128 ?acc = w128 acc * (10 ^ length (decimal (n div 10)) * 10) + (of_nat (n div 10) * 10 + of_nat ?d)"
      unfolding w1 by (simp only: distrib_right mult.assoc add.assoc)
    moreover have "(of_nat (n div 10) * 10 + of_nat ?d :: 128 word) = of_nat (n div 10 * 10 + ?d)"
      by (simp only: of_nat_add of_nat_mult of_nat_numeral)
    moreover have "length (decimal n) = length (decimal (n div 10)) + 1" using False by (simp add: decimal.simps [of n])
    ultimately have "parse_digits 10 (decimal n @ rest) acc = parse_digits 10 rest ?acc \<and>
        w128 ?acc = w128 acc * 10 ^ length (decimal n) + of_nat n"
      by (simp only: div_mult_mod_eq power_add power_one_right)
    then show ?thesis by blast
  qed (auto simp: decimal.simps)
qed

lemma of_string_decimal:
  assumes "0 < n"
  shows "w128 (u128_of_string (decimal n)) = of_nat n"
proof -
  obtain d r where d: "decimal n = of_nat (48 + d) # r" "0 < d" "d < 10" using decimal_hd [OF assms] by blast
  have ne: "(of_nat (48 + d) :: byte) \<noteq> 0x2d" "(of_nat (48 + d) :: byte) \<noteq> 0x30"
    using d(2,3) unfolding ten_cases by auto
  then have "strip_radix (decimal n) = (10, decimal n)" by (simp add: d strip_radix_def)
  moreover have "decimal n \<noteq> []" "hd (decimal n) \<noteq> 0x2d" using d ne by simp_all
  ultimately have "u128_of_string (decimal n) = parse_digits 10 (decimal n @ []) (u128 0 0)"
    by (simp add: u128_of_string_def Let_def)
  then show ?thesis using parse_decimal [of n "[]" "u128 0 0"] by (auto simp: w128_zero)
qed

subsection \<open>Properties\<close>

text \<open>
  C5. \<^verbatim>\<open>uint128\<close> computes on 128-bit unsigned integers. Read as a 128-bit word, every sum, difference,
  negation, increment, product, complement, bitwise operation and shift of the pair of halves is that
  operation on words, modulo \<open>2 ^ 128\<close>, and the comparison of halves is the comparison of the numbers.
\<close>

theorem uint128_refines_word128:
  "w128 (u128_add a b) = w128 a + w128 b \<and> w128 (u128_sub a b) = w128 a - w128 b \<and>
   w128 (u128_mul a b) = w128 a * w128 b \<and> w128 (u128_neg a) = - w128 a \<and>
   w128 (u128_inc a) = w128 a + 1 \<and> w128 (u128_dec a) = w128 a - 1 \<and>
   w128 (u128_not a) = NOT (w128 a) \<and> w128 (u128_and a b) = w128 a AND w128 b \<and>
   w128 (u128_or a b) = w128 a OR w128 b \<and> w128 (u128_xor a b) = w128 a XOR w128 b \<and>
   (\<exists>r. u128_shl a b = Inr r \<and> w128 r = push_bit (unat (w128 b)) (w128 a)) \<and>
   (\<exists>r. u128_shr a b = Inr r \<and> w128 r = drop_bit (unat (w128 b)) (w128 a)) \<and>
   u128_less a b = (w128 a < w128 b) \<and> u128_eq a b = (w128 a = w128 b)"
proof -
  have "\<exists>r. u128_shl a b = Inr r \<and> w128 r = push_bit (unat (w128 b)) (w128 a)"
    unfolding unat_w128 by (rule u128_shl_eq) blast
  moreover have "\<exists>r. u128_shr a b = Inr r \<and> w128 r = drop_bit (unat (w128 b)) (w128 a)"
    unfolding unat_w128 by (rule u128_shr_eq) blast
  ultimately show ?thesis
    by (simp add: w128_add w128_sub w128_mul w128_neg w128_inc w128_dec w128_not w128_and w128_or w128_xor
        u128_less_iff word_less_nat_alt unat_w128 u128_eq_iff w128_inj val_inj)
qed

text \<open>
  The full product of two 128-bit integers is exact: the two result words hold all 256 bits.
\<close>

lemma full_product_256:
  "val (fst (full_product a b)) * 2 ^ 128 + val (snd (full_product a b)) = val a * val b"
  by (rule full_product_exact) simp

text \<open>
  C8. The shift-and-subtract division ends for every nonzero divisor with the quotient and the
  remainder of the integer division, and throws \<^verbatim>\<open>std::domain_error\<close> for zero.
\<close>

theorem divide_is_division:
  "divide n d =
     (if val d = 0 then Some (Inl Std_domain_error)
      else Some (Inr (u128 (of_nat (val n div val d div 2 ^ 64)) (of_nat (val n div val d)),
                      u128 (of_nat (val n mod val d div 2 ^ 64)) (of_nat (val n mod val d)))))"
proof (cases "val d = 0")
  case True
  then show ?thesis by (simp add: divide_def val_zero_iff)
next
  case False
  have split: "u128 (of_nat (val x div 2 ^ 64)) (of_nat (val x)) = x" for x
  proof -
    have "(of_nat (val x) :: u64) = of_nat (val x mod 2 ^ 64)" by (simp add: word_unat_eq_iff unat_of_nat)
    then show ?thesis unfolding val_div_mod by (simp add: u128_def)
  qed
  from False obtain q r where "divide n d = Some (Inr (q, r))" "val q = val n div val d" "val r = val n mod val d"
    by (rule divide_correct)
  with split [of q] split [of r] False show ?thesis by simp
qed

text \<open>
  The decimal string of every 128-bit integer exists, and parsing it gives the integer back.
\<close>

lemma uint128_string_roundtrip:
  "\<exists>s. u128_to_string a = Some (Inr s) \<and> u128_of_string s = a"
proof (cases "val a = 0")
  case True
  have "u128_of_string (ascii ''0'') = u128 0 0"
    by (simp add: u128_of_string_def strip_radix_def ascii_def)
  moreover have "u128 0 0 = a" using True by (simp add: val_u128 flip: val_inj)
  ultimately show ?thesis using True by (simp add: u128_to_string_eq)
next
  case False
  then have "w128 (u128_of_string (decimal (val a))) = w128 a"
    using of_string_decimal [of "val a"] by (simp add: w128_def [of a])
  then have "u128_of_string (decimal (val a)) = a" by (simp add: w128_inj)
  with False show ?thesis by (simp add: u128_to_string_eq)
qed

end
