(* ===== verification/Safe_Int.thy ===== *)
theory Safe_Int
  imports Fc_Prelude "HOL-Library.Signed_Division"
begin

text \<open>
  The checked integer wrapper of \<^verbatim>\<open>fc/safe.hpp\<close>. The template argument is a built-in integer type,
  given by its signedness and width; a value is the mathematical integer it holds.
\<close>

record int_type =
  ty_signed :: bool
  ty_bits :: nat

definition ty_min :: "int_type \<Rightarrow> int" where
  "ty_min t = (if ty_signed t then - (2 ^ (ty_bits t - 1)) else 0)"

definition ty_max :: "int_type \<Rightarrow> int" where
  "ty_max t = (if ty_signed t then 2 ^ (ty_bits t - 1) - 1 else 2 ^ ty_bits t - 1)"

definition in_type :: "int_type \<Rightarrow> int \<Rightarrow> bool" where
  "in_type t x \<longleftrightarrow> ty_min t \<le> x \<and> x \<le> ty_max t"

text \<open>
  The result of an arithmetic operator whose exact value is \<open>x\<close>, converted to the type. Types
  narrower than 32 bits are promoted to \<^verbatim>\<open>int\<close>; a signed overflow is undefined and an unsigned one
  wraps around.
\<close>

definition arith :: "int_type \<Rightarrow> int \<Rightarrow> int result" where
  "arith t x =
     (if ty_signed t then
        if in_type t x then Inr x
        else if ty_bits t < 32 \<and> - (2 ^ 31) \<le> x \<and> x < 2 ^ 31
        then Inr (signed_take_bit (ty_bits t - 1) x)
        else Inl Undefined_behaviour
      else if ty_bits t < 32 \<and> \<not> (- (2 ^ 31) \<le> x \<and> x < 2 ^ 31) then Inl Undefined_behaviour
      else Inr (x mod 2 ^ ty_bits t))"

text \<open>\<^verbatim>\<open>b.value == -1\<close>: in an unsigned type of at least 32 bits the constant converts to the largest value.\<close>

definition is_minus_one :: "int_type \<Rightarrow> int \<Rightarrow> bool" where
  "is_minus_one t x = (if ty_signed t \<or> ty_bits t < 32 then x = - 1 else x = ty_max t)"

abbreviation Overflow :: fc_error where
  "Overflow \<equiv> Fc_exception overflow_code"

abbreviation Underflow :: fc_error where
  "Underflow \<equiv> Fc_exception underflow_code"

abbreviation Divide_by_zero :: fc_error where
  "Divide_by_zero \<equiv> Fc_exception divide_by_zero_code"

subsection \<open>Operators\<close>

definition safe_add :: "int_type \<Rightarrow> int \<Rightarrow> int \<Rightarrow> int result" where
  "safe_add t a b =
     (if b > 0 \<and> a > ty_max t - b then Inl Overflow
      else if b < 0 \<and> a < ty_min t - b then Inl Underflow
      else arith t (a + b))"

definition safe_sub :: "int_type \<Rightarrow> int \<Rightarrow> int \<Rightarrow> int result" where
  "safe_sub t a b =
     (if b > 0 \<and> a < ty_min t + b then Inl Underflow
      else if b < 0 \<and> a > ty_max t + b then Inl Overflow
      else arith t (a - b))"

definition safe_mul :: "int_type \<Rightarrow> int \<Rightarrow> int \<Rightarrow> int result" where
  "safe_mul t a b =
     (if a > 0 then
        if b > 0 then
          if a > ty_max t sdiv b then Inl Overflow else arith t (a * b)
        else if b < ty_min t sdiv a then Inl Underflow else arith t (a * b)
      else
        if b > 0 then
          if a < ty_min t sdiv b then Inl Underflow else arith t (a * b)
        else if a \<noteq> 0 \<and> b < ty_max t sdiv a then Inl Overflow else arith t (a * b))"

definition safe_div :: "int_type \<Rightarrow> int \<Rightarrow> int \<Rightarrow> int result" where
  "safe_div t a b =
     (if b = 0 then Inl Divide_by_zero
      else if a = ty_min t \<and> is_minus_one t b then Inl Overflow
      else arith t (a sdiv b))"

definition safe_mod :: "int_type \<Rightarrow> int \<Rightarrow> int \<Rightarrow> int result" where
  "safe_mod t a b =
     (if b = 0 then Inl Divide_by_zero
      else if a = ty_min t \<and> is_minus_one t b then Inl Overflow
      else arith t (a smod b))"

definition safe_neg :: "int_type \<Rightarrow> int \<Rightarrow> int result" where
  "safe_neg t a = (if a = ty_min t then Inl Overflow else arith t (- a))"

definition safe_inc :: "int_type \<Rightarrow> int \<Rightarrow> int result" where
  "safe_inc t a = safe_add t a 1"

definition safe_dec :: "int_type \<Rightarrow> int \<Rightarrow> int result" where
  "safe_dec t a = safe_sub t a 1"

subsection \<open>Lemmas\<close>

lemma arith_in_type:
  assumes "in_type t x"
  shows "arith t x = Inr x"
proof (cases "ty_signed t")
  case True
  then show ?thesis using assms by (simp add: arith_def)
next
  case False
  then have x: "0 \<le> x" "x < 2 ^ ty_bits t" using assms by (simp_all add: in_type_def ty_min_def ty_max_def)
  have "x < 2 ^ 31" if "ty_bits t < 32"
  proof -
    have "(2 :: int) ^ ty_bits t \<le> 2 ^ 31" using that by (intro power_increasing) simp_all
    with x show ?thesis by linarith
  qed
  with False x show ?thesis by (auto simp: arith_def)
qed

lemma div_less_iff:
  fixes m b a :: int
  assumes "0 < b"
  shows "m div b < a \<longleftrightarrow> m < a * b"
proof
  assume "m div b < a"
  then have "(m div b + 1) * b \<le> a * b" using assms by (intro mult_right_mono) auto
  moreover have "m < (m div b + 1) * b"
    using assms pos_mod_bound [of b m] div_mult_mod_eq [of m b] unfolding distrib_right by linarith
  ultimately show "m < a * b" by linarith
next
  assume "m < a * b"
  show "m div b < a"
  proof (rule ccontr)
    assume "\<not> m div b < a"
    then have "a * b \<le> m div b * b" using assms by (intro mult_right_mono) auto
    moreover have "m div b * b \<le> m" using assms pos_mod_sign [of b m] div_mult_mod_eq [of m b] by linarith
    ultimately show False using \<open>m < a * b\<close> by linarith
  qed
qed

lemma sdiv_signs:
  fixes m a :: int
  shows "0 \<le> m \<Longrightarrow> 0 < a \<Longrightarrow> m sdiv a = m div a"
    and "m \<le> 0 \<Longrightarrow> 0 < a \<Longrightarrow> m sdiv a = - (- m div a)"
    and "0 \<le> m \<Longrightarrow> a < 0 \<Longrightarrow> m sdiv a = - (m div - a)"
  by (auto simp: signed_divide_int_def sgn_if)

lemma ty_bounds: "ty_min t \<le> 0" "0 \<le> ty_max t"
  by (simp_all add: ty_min_def ty_max_def)

definition checked :: "int_type \<Rightarrow> int \<Rightarrow> int result" where
  "checked t x = (if x > ty_max t then Inl Overflow else if x < ty_min t then Inl Underflow else Inr x)"

lemma checked_in_type: "in_type t x \<Longrightarrow> checked t x = arith t x"
  by (simp add: checked_def arith_in_type) (simp add: in_type_def)

lemma safe_add_checked: "in_type t a \<Longrightarrow> in_type t b \<Longrightarrow> safe_add t a b = checked t (a + b)"
  using checked_in_type [of t "a + b"] by (auto simp: safe_add_def checked_def in_type_def)

lemma safe_sub_checked: "in_type t a \<Longrightarrow> in_type t b \<Longrightarrow> safe_sub t a b = checked t (a - b)"
  using checked_in_type [of t "a - b"] by (auto simp: safe_sub_def checked_def in_type_def)

lemma safe_mul_checked: "safe_mul t a b = checked t (a * b)"
proof -
  note b = ty_bounds [of t]
  consider "0 < a" "0 < b" | "0 < a" "b \<le> 0" | "a \<le> 0" "0 < b" | "a < 0" "b \<le> 0" | "a = 0" "b \<le> 0" by linarith
  then show ?thesis
  proof cases
    case 1
    then have "a > ty_max t sdiv b \<longleftrightarrow> a * b > ty_max t" using b by (simp add: sdiv_signs div_less_iff)
    moreover have "ty_min t \<le> a * b" using mult_pos_pos [OF 1] b by linarith
    ultimately show ?thesis using 1 b by (auto simp: safe_mul_def checked_def in_type_def arith_in_type)
  next
    case 2
    then have "b < ty_min t sdiv a \<longleftrightarrow> a * b < ty_min t"
      using b div_less_iff [of a "- ty_min t" "- b"] sdiv_signs(2) [of "ty_min t" a]
      by (simp add: mult.commute [of b]) linarith
    moreover have "a * b \<le> ty_max t" using mult_nonneg_nonpos [of a b] 2 b by linarith
    ultimately show ?thesis using 2 b by (auto simp: safe_mul_def checked_def in_type_def arith_in_type)
  next
    case 3
    then have "a < ty_min t sdiv b \<longleftrightarrow> a * b < ty_min t"
      using b div_less_iff [of b "- ty_min t" "- a"] sdiv_signs(2) [of "ty_min t" b] by simp linarith
    moreover have "a * b \<le> ty_max t" using mult_nonpos_nonneg [of a b] 3 b by linarith
    ultimately show ?thesis using 3 b by (auto simp: safe_mul_def checked_def in_type_def arith_in_type)
  next
    case 4
    then have "b < ty_max t sdiv a \<longleftrightarrow> a * b > ty_max t"
      using b div_less_iff [of "- a" "ty_max t" "- b"] sdiv_signs(3) [of "ty_max t" a]
      by (simp add: mult.commute [of b]) linarith
    moreover have "ty_min t \<le> a * b" using mult_nonpos_nonpos [of a b] 4 b by linarith
    ultimately show ?thesis using 4 b by (auto simp: safe_mul_def checked_def in_type_def arith_in_type)
  next
    case 5
    then show ?thesis using b by (auto simp: safe_mul_def checked_def in_type_def arith_in_type)
  qed
qed

lemma sdiv_in_type:
  assumes a: "in_type t a" and b: "in_type t b" and "b \<noteq> 0" and ov: "\<not> (a = ty_min t \<and> b = - 1)"
  shows "in_type t (a sdiv b)" and "in_type t (a smod b)"
proof -
  show "in_type t (a sdiv b)"
  proof (cases "ty_signed t")
    case True
    have "a sdiv b \<noteq> - a" if "a = ty_min t"
      using that ov True int_sdiv_negated_is_minus1 [of a b] by (auto simp: ty_min_def)
    then show ?thesis
      using True a sdiv_int_range [of a b] by (fastforce simp: in_type_def ty_min_def ty_max_def)
  next
    case False
    then have "0 \<le> a" "0 < b" using a b \<open>b \<noteq> 0\<close> by (auto simp: in_type_def ty_min_def)
    then show ?thesis using False a sdiv_int_range [of a b] sdiv_signs(1) [of a b] pos_imp_zdiv_nonneg_iff [of b a]
      by (simp add: in_type_def ty_min_def ty_max_def)
  qed
  show "in_type t (a smod b)"
  proof (cases "ty_signed t")
    case True
    then show ?thesis
      using b smod_int_range [of b a] \<open>b \<noteq> 0\<close> by (auto simp: in_type_def ty_min_def ty_max_def)
  next
    case False
    then have ab: "0 \<le> a" "0 < b" using a b \<open>b \<noteq> 0\<close> by (auto simp: in_type_def ty_min_def)
    then have "0 \<le> a smod b" by (auto simp: signed_modulo_int_def sgn_if)
    then show ?thesis using False b ab smod_int_compares(1) [of a b] by (simp add: in_type_def ty_min_def ty_max_def)
  qed
qed

subsection \<open>Properties\<close>



text \<open>
  Division, remainder and negation of \<^verbatim>\<open>safe\<close> signed integers are the truncating ones of the
  language, with an exception exactly for a zero divisor and for the least value by minus one.
\<close>

lemma safe_signed_division:
  assumes "ty_signed t" and "in_type t a" and "in_type t b"
  shows "safe_div t a b =
      (if b = 0 then Inl Divide_by_zero else if a = ty_min t \<and> b = - 1 then Inl Overflow else Inr (a sdiv b)) \<and>
    safe_mod t a b =
      (if b = 0 then Inl Divide_by_zero else if a = ty_min t \<and> b = - 1 then Inl Overflow else Inr (a smod b)) \<and>
    safe_neg t a = (if a = ty_min t then Inl Overflow else Inr (- a))"
proof -
  have "in_type t (- a)" if "a \<noteq> ty_min t"
    using that assms by (auto simp: in_type_def ty_min_def ty_max_def)
  then show ?thesis
    using sdiv_in_type [OF assms(2,3)] assms(1)
    by (auto simp: safe_div_def safe_mod_def safe_neg_def is_minus_one_def arith_in_type)
qed

text \<open>
  On unsigned types the checks for the least value and minus one misfire: negation wraps around
  without an exception and throws for zero, and zero divided by the largest 32-bit value throws an
  overflow.
\<close>

lemma safe_unsigned_negation:
  "safe_neg \<lparr>ty_signed = False, ty_bits = 32\<rparr> 5 = Inr (2 ^ 32 - 5) \<and>
   safe_neg \<lparr>ty_signed = False, ty_bits = 32\<rparr> 0 = Inl Overflow \<and>
   safe_div \<lparr>ty_signed = False, ty_bits = 32\<rparr> 0 (2 ^ 32 - 1) = Inl Overflow"
  by (simp add: safe_neg_def safe_div_def arith_def ty_min_def ty_max_def is_minus_one_def)

end
