(* ===== verification/Utf8.thy ===== *)
theory Utf8
  imports Fc_Prelude
begin

text \<open>
  UTF-8: the validating decoder and the encoder that \<^verbatim>\<open>src/utf8.cpp\<close> uses (\<^verbatim>\<open>src/utf8/core.h\<close>,
  \<^verbatim>\<open>src/utf8/checked.h\<close>), one sequence at a time. An iterator into a string is the list of the bytes
  from it to the end. The theory shows that the decoder accepts exactly the encodings of valid code points.
\<close>

subsection \<open>Code points and octets\<close>

definition CODE_POINT_MAX :: u32 where
  "CODE_POINT_MAX = 0x0010ffff"

definition is_trail :: "byte \<Rightarrow> bool" where
  "is_trail oc \<longleftrightarrow> drop_bit 6 oc = 2"

definition is_surrogate :: "u32 \<Rightarrow> bool" where
  "is_surrogate cp \<longleftrightarrow> 0xd800 \<le> cp \<and> cp \<le> 0xdfff"

definition is_code_point_valid :: "u32 \<Rightarrow> bool" where
  "is_code_point_valid cp \<longleftrightarrow> cp \<le> CODE_POINT_MAX \<and> \<not> is_surrogate cp"

definition sequence_length :: "byte \<Rightarrow> nat" where
  "sequence_length lead =
     (if lead < 0x80 then 1
      else if drop_bit 5 lead = 0x6 then 2
      else if drop_bit 4 lead = 0xe then 3
      else if drop_bit 3 lead = 0x1e then 4
      else 0)"

definition is_overlong_sequence :: "u32 \<Rightarrow> nat \<Rightarrow> bool" where
  "is_overlong_sequence cp len =
     (if cp < 0x80 then len \<noteq> 1
      else if cp < 0x800 then len \<noteq> 2
      else if cp < 0x10000 then len \<noteq> 3
      else False)"

datatype utf_error = NOT_ENOUGH_ROOM | INVALID_LEAD | INCOMPLETE_SEQUENCE | OVERLONG_SEQUENCE | INVALID_CODE_POINT

subsection \<open>Decoding one sequence\<close>

text \<open>Step to the next octet, which has to be a trail octet.\<close>

definition increase_safely :: "bytes \<Rightarrow> utf_error + bytes" where
  "increase_safely it =
     (case tl it of [] \<Rightarrow> Inl NOT_ENOUGH_ROOM
      | c # _ \<Rightarrow> if is_trail c then Inr (tl it) else Inl INCOMPLETE_SEQUENCE)"

definition utf_then :: "utf_error + 'a \<Rightarrow> ('a \<Rightarrow> utf_error + 'b) \<Rightarrow> utf_error + 'b" where
  "utf_then m f = (case m of Inl e \<Rightarrow> Inl e | Inr x \<Rightarrow> f x)"

text \<open>
  \<^verbatim>\<open>get_sequence_x\<close>: the code point and the iterator at the last octet of the sequence. \<open>trail6\<close> is
  \<^verbatim>\<open>(*it) & 0x3f\<close>.
\<close>

definition u32_at :: "bytes \<Rightarrow> u32" where
  "u32_at it = ucast (hd it)"

definition trail6 :: "bytes \<Rightarrow> u32" where
  "trail6 it = u32_at it AND 0x3f"

definition get_sequence_1 :: "bytes \<Rightarrow> utf_error + u32 \<times> bytes" where
  "get_sequence_1 it = (if it = [] then Inl NOT_ENOUGH_ROOM else Inr (u32_at it, it))"

definition get_sequence_2 :: "bytes \<Rightarrow> utf_error + u32 \<times> bytes" where
  "get_sequence_2 it =
     (if it = [] then Inl NOT_ENOUGH_ROOM
      else utf_then (increase_safely it) (\<lambda>it1.
        Inr ((push_bit 6 (u32_at it) AND 0x7ff) + trail6 it1, it1)))"

definition get_sequence_3 :: "bytes \<Rightarrow> utf_error + u32 \<times> bytes" where
  "get_sequence_3 it =
     (if it = [] then Inl NOT_ENOUGH_ROOM
      else utf_then (increase_safely it) (\<lambda>it1.
        utf_then (increase_safely it1) (\<lambda>it2.
          Inr ((push_bit 12 (u32_at it) AND 0xffff) + (push_bit 6 (u32_at it1) AND 0xfff) + trail6 it2, it2))))"

definition get_sequence_4 :: "bytes \<Rightarrow> utf_error + u32 \<times> bytes" where
  "get_sequence_4 it =
     (if it = [] then Inl NOT_ENOUGH_ROOM
      else utf_then (increase_safely it) (\<lambda>it1.
        utf_then (increase_safely it1) (\<lambda>it2.
          utf_then (increase_safely it2) (\<lambda>it3.
            Inr ((push_bit 18 (u32_at it) AND 0x1fffff) + (push_bit 12 (u32_at it1) AND 0x3ffff) +
                 (push_bit 6 (u32_at it2) AND 0xfff) + trail6 it3, it3)))))"

text \<open>On failure the iterator is where it was, so only the error is returned.\<close>

definition validate_next :: "bytes \<Rightarrow> utf_error + u32 \<times> bytes" where
  "validate_next it =
     (let len = sequence_length (hd it)
      in if len = 0 then Inl INVALID_LEAD
         else utf_then
           (if len = 1 then get_sequence_1 it
            else if len = 2 then get_sequence_2 it
            else if len = 3 then get_sequence_3 it
            else get_sequence_4 it) (\<lambda>(cp, last).
             if is_code_point_valid cp then
               if \<not> is_overlong_sequence cp len then Inr (cp, tl last) else Inl OVERLONG_SEQUENCE
             else Inl INVALID_CODE_POINT))"

subsection \<open>Encoding\<close>

datatype utf8_exception =
    invalid_code_point u32
  | invalid_utf8 byte
  | not_enough_room

definition encode_code_point :: "u32 \<Rightarrow> bytes" where
  "encode_code_point cp =
     (if cp < 0x80 then [ucast cp]
      else if cp < 0x800 then
        [ucast (drop_bit 6 cp OR 0xc0), ucast ((cp AND 0x3f) OR 0x80)]
      else if cp < 0x10000 then
        [ucast (drop_bit 12 cp OR 0xe0), ucast ((drop_bit 6 cp AND 0x3f) OR 0x80), ucast ((cp AND 0x3f) OR 0x80)]
      else
        [ucast (drop_bit 18 cp OR 0xf0), ucast ((drop_bit 12 cp AND 0x3f) OR 0x80),
         ucast ((drop_bit 6 cp AND 0x3f) OR 0x80), ucast ((cp AND 0x3f) OR 0x80)])"

definition utf8_append :: "u32 \<Rightarrow> utf8_exception + bytes" where
  "utf8_append cp = (if is_code_point_valid cp then Inr (encode_code_point cp) else Inl (invalid_code_point cp))"

definition utf8_next :: "bytes \<Rightarrow> utf8_exception + u32 \<times> bytes" where
  "utf8_next it =
     (case validate_next it of
        Inr r \<Rightarrow> Inr r
      | Inl NOT_ENOUGH_ROOM \<Rightarrow> Inl not_enough_room
      | Inl INVALID_CODE_POINT \<Rightarrow> Inl (invalid_code_point 0)
      | Inl _ \<Rightarrow> Inl (invalid_utf8 (hd it)))"

subsection \<open>Lemmas: one sequence\<close>

lemma utf_then_simps [simp]: "utf_then (Inl e) f = Inl e" "utf_then (Inr x) f = f x"
  by (simp_all add: utf_then_def)

lemma utf_then_Inr_iff: "utf_then m f = Inr y \<longleftrightarrow> (\<exists>x. m = Inr x \<and> f x = Inr y)"
  by (cases m) auto

lemma increase_safely_Inr_iff: "increase_safely it = Inr it' \<longleftrightarrow> (\<exists>c r. tl it = c # r \<and> is_trail c \<and> it' = c # r)"
  by (auto simp: increase_safely_def split: list.splits if_splits)

lemma is_trail_iff: "is_trail c \<longleftrightarrow> unat c div 64 = 2"
  by (simp add: is_trail_def word_unat_eq_iff unat_drop_bit)

lemma unat_shift_mask:
  assumes "n + 8 \<le> 32"
  shows "unat (push_bit n (ucast (b :: byte)) AND mask m :: u32) = unat b * 2 ^ n mod 2 ^ m"
proof -
  have b: "unat (ucast b :: u32) = unat b" using unat_byte_lt [of b] by (simp add: unat_ucast_mod)
  have "unat b * 2 ^ n < 2 ^ 8 * 2 ^ n" using unat_byte_lt [of b] by simp
  also have "\<dots> \<le> (2 :: nat) ^ 32"
    unfolding power_add [symmetric] by (rule power_increasing) (use assms in simp_all)
  finally have "unat (push_bit n (ucast b) :: u32) = unat b * 2 ^ n"
    by (simp add: unsigned_push_bit_eq b del: unsigned_ucast_eq) (simp add: take_bit_eq_mod push_bit_eq_mult)
  then show ?thesis by (simp add: unat_and_mask)
qed

lemma unat_octets:
  "unat (u32_at it) = unat (hd it)"
  "unat (trail6 it) = unat (hd it) mod 64"
  "unat (push_bit 6 (u32_at it) AND 0x7ff) = unat (hd it) * 64 mod 2048"
  "unat (push_bit 6 (u32_at it) AND 0xfff) = unat (hd it) * 64 mod 4096"
  "unat (push_bit 12 (u32_at it) AND 0xffff) = unat (hd it) * 4096 mod 65536"
  "unat (push_bit 12 (u32_at it) AND 0x3ffff) = unat (hd it) * 4096 mod 262144"
  "unat (push_bit 18 (u32_at it) AND 0x1fffff) = unat (hd it) * 262144 mod 2097152"
  using unat_byte_lt [of "hd it"] unat_shift_mask [of 0 "hd it" 6] unat_shift_mask [of 6 "hd it" 11]
    unat_shift_mask [of 6 "hd it" 12] unat_shift_mask [of 12 "hd it" 16] unat_shift_mask [of 12 "hd it" 18]
    unat_shift_mask [of 18 "hd it" 21]
  by (simp_all add: u32_at_def trail6_def mask_eq_exp_minus_1 unat_ucast_mod)

lemma sequence_length_nat:
  "sequence_length l =
     (if unat l < 128 then 1 else if unat l div 32 = 6 then 2 else if unat l div 16 = 14 then 3
      else if unat l div 8 = 30 then 4 else 0)"
  by (simp add: sequence_length_def word_less_nat_alt word_unat_eq_iff unat_drop_bit)

lemma nat_or_high:
  "n < 64 \<Longrightarrow> n OR 192 = n + (192 :: nat)" "n < 32 \<Longrightarrow> n OR 224 = n + (224 :: nat)"
  "n < 16 \<Longrightarrow> n OR 240 = n + (240 :: nat)" "n < 128 \<Longrightarrow> n OR 128 = n + (128 :: nat)"
  using nat_or_shifted [of n 6 3] nat_or_shifted [of n 5 7] nat_or_shifted [of n 4 15] nat_or_shifted [of n 7 1]
  by (simp_all add: push_bit_eq_mult)

lemma unat_low6: "unat ((cp :: u32) AND 0x3f) = unat cp mod 64"
  using unat_and_mask [of cp 6] by (simp add: mask_eq_exp_minus_1)

lemma unat_trail: "unat (ucast ((cp AND 0x3f) OR 0x80 :: u32) :: byte) = 128 + unat cp mod 64"
proof -
  have "unat ((cp AND 0x3f) OR 0x80) = 128 + unat cp mod 64"
    using nat_or_high(4) [of "unat cp mod 64"] by (simp add: unsigned_or_eq unat_low6)
  then show ?thesis by (simp add: unat_ucast_mod)
qed

lemma unat_lead:
  "unat cp < 2048 \<Longrightarrow> unat (ucast (drop_bit 6 cp OR 0xc0 :: u32) :: byte) = 192 + unat cp div 64"
  "unat cp < 65536 \<Longrightarrow> unat (ucast (drop_bit 12 cp OR 0xe0 :: u32) :: byte) = 224 + unat cp div 4096"
  "unat cp < 2097152 \<Longrightarrow> unat (ucast (drop_bit 18 cp OR 0xf0 :: u32) :: byte) = 240 + unat cp div 262144"
proof -
  assume "unat cp < 2048"
  then have "unat cp div 64 < 32" by simp
  then show "unat (ucast (drop_bit 6 cp OR 0xc0 :: u32) :: byte) = 192 + unat cp div 64"
    by (simp add: unat_ucast_mod unsigned_or_eq unat_drop_bit nat_or_high)
next
  assume "unat cp < 65536"
  then have "unat cp div 4096 < 16" by simp
  then show "unat (ucast (drop_bit 12 cp OR 0xe0 :: u32) :: byte) = 224 + unat cp div 4096"
    by (simp add: unat_ucast_mod unsigned_or_eq unat_drop_bit nat_or_high)
next
  assume "unat cp < 2097152"
  then have "unat cp div 262144 < 8" by simp
  then show "unat (ucast (drop_bit 18 cp OR 0xf0 :: u32) :: byte) = 240 + unat cp div 262144"
    by (simp add: unat_ucast_mod unsigned_or_eq unat_drop_bit nat_or_high)
qed

text \<open>The octets of a code point as numbers.\<close>

definition octets :: "nat \<Rightarrow> nat list" where
  "octets c =
     (if c < 128 then [c]
      else if c < 2048 then [192 + c div 64, 128 + c mod 64]
      else if c < 65536 then [224 + c div 4096, 128 + c div 64 mod 64, 128 + c mod 64]
      else [240 + c div 262144, 128 + c div 4096 mod 64, 128 + c div 64 mod 64, 128 + c mod 64])"

lemma map_unat_encode:
  assumes "unat cp < 2097152"
  shows "map unat (encode_code_point cp) = octets (unat cp)"
proof -
  have "unat cp < 128 \<Longrightarrow> unat (ucast cp :: byte) = unat cp" by (simp add: unat_ucast_mod)
  then show ?thesis
    using assms
    by (simp add: encode_code_point_def octets_def word_less_nat_alt unat_trail unat_lead unat_drop_bit)
qed

lemma map_unat_inj: "map unat (xs :: bytes) = map unat ys \<longleftrightarrow> xs = ys"
  by (rule inj_map_eq_map) (simp add: inj_def word_unat_eq_iff)

lemma code_point_valid_nat:
  "is_code_point_valid cp \<longleftrightarrow> unat cp < 1114112 \<and> \<not> (55296 \<le> unat cp \<and> unat cp \<le> 57343)"
  by (auto simp: is_code_point_valid_def is_surrogate_def CODE_POINT_MAX_def word_le_nat_alt)

text \<open>The digits of a number put together from base-64 digits.\<close>

lemma digits64:
  fixes x y z w :: nat
  assumes "z < 64"
  shows "(x * 64 + z) div 64 = x" "(x * 64 + z) mod 64 = z"
    and "y < 64 \<Longrightarrow> (x * 4096 + y * 64 + z) div 4096 = x" "y < 64 \<Longrightarrow> (x * 4096 + y * 64 + z) div 64 mod 64 = y"
    and "(x * 4096 + y * 64 + z) mod 64 = z"
    and "y < 64 \<Longrightarrow> w < 64 \<Longrightarrow> (x * 262144 + w * 4096 + y * 64 + z) div 262144 = x"
    and "y < 64 \<Longrightarrow> w < 64 \<Longrightarrow> (x * 262144 + w * 4096 + y * 64 + z) div 4096 mod 64 = w"
    and "y < 64 \<Longrightarrow> (x * 262144 + w * 4096 + y * 64 + z) div 64 mod 64 = y"
    and "(x * 262144 + w * 4096 + y * 64 + z) mod 64 = z"
proof -
  have h3: "x * 4096 + y * 64 + z = (x * 64 + y) * 64 + z" by simp
  have h4: "x * 262144 + w * 4096 + y * 64 + z = ((x * 64 + w) * 64 + y) * 64 + z" by simp
  have d: "n div 4096 = n div 64 div 64" "n div 262144 = n div 64 div 64 div 64" for n :: nat
    by (simp_all flip: div_mult2_eq)
  have q: "(u * 64 + v) div 64 = u" and r: "(u * 64 + v) mod 64 = v" if "v < 64" for u v :: nat
    using that by simp_all
  note qz = q [OF assms] and rz = r [OF assms]
  show "(x * 64 + z) div 64 = x" "(x * 64 + z) mod 64 = z" by (rule qz, rule rz)
  show "(x * 4096 + y * 64 + z) mod 64 = z" unfolding h3 by (rule rz)
  show "(x * 262144 + w * 4096 + y * 64 + z) mod 64 = z" unfolding h4 by (rule rz)
  show "(x * 4096 + y * 64 + z) div 4096 = x" if "y < 64" unfolding h3 d qz by (rule q [OF that])
  show "(x * 4096 + y * 64 + z) div 64 mod 64 = y" if "y < 64" unfolding h3 qz by (rule r [OF that])
  show "(x * 262144 + w * 4096 + y * 64 + z) div 64 mod 64 = y" if "y < 64" unfolding h4 qz by (rule r [OF that])
  show "(x * 262144 + w * 4096 + y * 64 + z) div 262144 = x" if "y < 64" "w < 64"
    unfolding h4 d qz q [OF that(1)] by (rule q [OF that(2)])
  show "(x * 262144 + w * 4096 + y * 64 + z) div 4096 mod 64 = w" if "y < 64" "w < 64"
    unfolding h4 d qz q [OF that(1)] by (rule r [OF that(2)])
qed

lemma top_digit: "l div k = q \<Longrightarrow> q * k + l mod k = l" for l :: nat
  using div_mult_mod_eq by blast

lemma sum_lt: "unat a + unat b < 2 ^ 32 \<Longrightarrow> unat (a + b :: u32) = unat a + unat b"
  by (rule unat_add_lt) simp

text \<open>What the three decoders compute, as numbers.\<close>

lemma joined:
  "unat ((push_bit 6 (u32_at it) AND 0x7ff) + trail6 it1) = unat (hd it) mod 32 * 64 + unat (hd it1) mod 64"
  "unat ((push_bit 12 (u32_at it) AND 0xffff) + (push_bit 6 (u32_at it1) AND 0xfff) + trail6 it2) =
     unat (hd it) mod 16 * 4096 + unat (hd it1) mod 64 * 64 + unat (hd it2) mod 64"
  "unat ((push_bit 18 (u32_at it) AND 0x1fffff) + (push_bit 12 (u32_at it1) AND 0x3ffff) +
         (push_bit 6 (u32_at it2) AND 0xfff) + trail6 it3) =
     unat (hd it) mod 8 * 262144 + unat (hd it1) mod 64 * 4096 + unat (hd it2) mod 64 * 64 + unat (hd it3) mod 64"
proof -
  have m: "n * 64 mod 2048 = n mod 32 * 64" "n * 64 mod 4096 = n mod 64 * 64" "n * 4096 mod 65536 = n mod 16 * 4096"
    "n * 4096 mod 262144 = n mod 64 * 4096" "n * 262144 mod 2097152 = n mod 8 * 262144" for n :: nat
    using mult_mod_left [of n 32 64] mult_mod_left [of n 64 64] mult_mod_left [of n 16 4096]
      mult_mod_left [of n 64 4096] mult_mod_left [of n 8 262144] by simp_all
  have b: "n mod 64 \<le> 63" "n mod 32 \<le> 31" "n mod 16 \<le> 15" "n mod 8 \<le> 7" for n :: nat
    by (simp_all add: less_Suc_eq_le [symmetric])
  note o = unat_octets m
  show "unat ((push_bit 6 (u32_at it) AND 0x7ff) + trail6 it1) = unat (hd it) mod 32 * 64 + unat (hd it1) mod 64"
    using b(2) [of "unat (hd it)"] b(1) [of "unat (hd it1)"] by (simp add: sum_lt o)
  show "unat ((push_bit 12 (u32_at it) AND 0xffff) + (push_bit 6 (u32_at it1) AND 0xfff) + trail6 it2) =
      unat (hd it) mod 16 * 4096 + unat (hd it1) mod 64 * 64 + unat (hd it2) mod 64"
    using b(3) [of "unat (hd it)"] b(1) [of "unat (hd it1)"] b(1) [of "unat (hd it2)"] by (simp add: sum_lt o)
  show "unat ((push_bit 18 (u32_at it) AND 0x1fffff) + (push_bit 12 (u32_at it1) AND 0x3ffff) +
         (push_bit 6 (u32_at it2) AND 0xfff) + trail6 it3) =
      unat (hd it) mod 8 * 262144 + unat (hd it1) mod 64 * 4096 + unat (hd it2) mod 64 * 64 + unat (hd it3) mod 64"
    using b(4) [of "unat (hd it)"] b(1) [of "unat (hd it1)"] b(1) [of "unat (hd it2)"] b(1) [of "unat (hd it3)"]
    by (simp add: sum_lt o)
qed

subsection \<open>A sequence is accepted exactly when it is the encoding of a code point\<close>

lemma octets_of_sequence:
  "l div 32 = 6 \<Longrightarrow> t div 64 = 2 \<Longrightarrow> 128 \<le> l mod 32 * 64 + t mod 64 \<Longrightarrow>
     octets (l mod 32 * 64 + t mod 64) = [l, t]"
  "l div 16 = 14 \<Longrightarrow> t div 64 = 2 \<Longrightarrow> u div 64 = 2 \<Longrightarrow> 2048 \<le> l mod 16 * 4096 + t mod 64 * 64 + u mod 64 \<Longrightarrow>
     octets (l mod 16 * 4096 + t mod 64 * 64 + u mod 64) = [l, t, u]"
  "l div 8 = 30 \<Longrightarrow> t div 64 = 2 \<Longrightarrow> u div 64 = 2 \<Longrightarrow> v div 64 = 2 \<Longrightarrow>
     65536 \<le> l mod 8 * 262144 + t mod 64 * 4096 + u mod 64 * 64 + v mod 64 \<Longrightarrow>
     octets (l mod 8 * 262144 + t mod 64 * 4096 + u mod 64 * 64 + v mod 64) = [l, t, u, v]"
proof -
  have b: "n mod 64 < 64" "n mod 64 \<le> 63" "n mod 32 \<le> 31" "n mod 16 \<le> 15" for n :: nat
    by (simp_all add: less_Suc_eq_le [symmetric])
  note t2 = top_digit [of _ 64 2, simplified]
  {
    assume *: "l div 32 = 6" "t div 64 = 2" "128 \<le> l mod 32 * 64 + t mod 64"
    then have "l mod 32 * 64 + t mod 64 < 2048" using b(2) [of t] b(3) [of l] by linarith
    with * show "octets (l mod 32 * 64 + t mod 64) = [l, t]"
      unfolding octets_def digits64(1,2) [OF b(1)] using top_digit [OF *(1)] t2 [OF *(2)] by simp
  }
  {
    assume *: "l div 16 = 14" "t div 64 = 2" "u div 64 = 2" "2048 \<le> l mod 16 * 4096 + t mod 64 * 64 + u mod 64"
    then have "l mod 16 * 4096 + t mod 64 * 64 + u mod 64 < 65536"
      using b(2) [of t] b(2) [of u] b(4) [of l] by linarith
    with * show "octets (l mod 16 * 4096 + t mod 64 * 64 + u mod 64) = [l, t, u]"
      unfolding octets_def digits64(3,4) [OF b(1) b(1)] digits64(5) [OF b(1)]
      using top_digit [OF *(1)] t2 [OF *(2)] t2 [OF *(3)] by simp
  }
  {
    assume *: "l div 8 = 30" "t div 64 = 2" "u div 64 = 2" "v div 64 = 2"
      "65536 \<le> l mod 8 * 262144 + t mod 64 * 4096 + u mod 64 * 64 + v mod 64"
    then show "octets (l mod 8 * 262144 + t mod 64 * 4096 + u mod 64 * 64 + v mod 64) = [l, t, u, v]"
      unfolding octets_def digits64(6,7) [OF b(1) b(1) b(1)] digits64(8) [OF b(1) b(1)] digits64(9) [OF b(1)]
      using top_digit [OF *(1)] t2 [OF *(2)] t2 [OF *(3)] t2 [OF *(4)] by simp
  }
qed

lemma overlong_nat:
  "is_overlong_sequence cp len =
     (if unat cp < 128 then len \<noteq> 1 else if unat cp < 2048 then len \<noteq> 2
      else if unat cp < 65536 then len \<noteq> 3 else False)"
  by (simp add: is_overlong_sequence_def word_less_nat_alt)

lemma encode_eqI:
  assumes "unat cp < 1114112" and "octets (unat cp) = map unat bs"
  shows "encode_code_point cp = bs"
  using map_unat_encode [of cp] assms by (simp add: map_unat_inj)

text \<open>The three ways to read a longer sequence.\<close>

lemma get_sequence_Inr_iff:
  "get_sequence_1 it = Inr (cp, fin) \<longleftrightarrow> it \<noteq> [] \<and> cp = u32_at it \<and> fin = it"
  "get_sequence_2 (l # it) = Inr (cp, fin) \<longleftrightarrow>
     (\<exists>t r. it = t # r \<and> is_trail t \<and> fin = t # r \<and> unat cp = unat l mod 32 * 64 + unat t mod 64)"
  "get_sequence_3 (l # it) = Inr (cp, fin) \<longleftrightarrow>
     (\<exists>t u r. it = t # u # r \<and> is_trail t \<and> is_trail u \<and> fin = u # r \<and>
        unat cp = unat l mod 16 * 4096 + unat t mod 64 * 64 + unat u mod 64)"
  "get_sequence_4 (l # it) = Inr (cp, fin) \<longleftrightarrow>
     (\<exists>t u v r. it = t # u # v # r \<and> is_trail t \<and> is_trail u \<and> is_trail v \<and> fin = v # r \<and>
        unat cp = unat l mod 8 * 262144 + unat t mod 64 * 4096 + unat u mod 64 * 64 + unat v mod 64)"
  by (auto simp: get_sequence_1_def get_sequence_2_def get_sequence_3_def get_sequence_4_def utf_then_Inr_iff
      increase_safely_Inr_iff word_unat_eq_iff [of cp] word_unat_eq_iff [of _ cp] joined)

lemma validate_next_sound:
  assumes s: "s \<noteq> []" and v: "validate_next s = Inr (cp, rest)"
  shows "is_code_point_valid cp" and "s = encode_code_point cp @ rest"
proof -
  obtain l it where s: "s = l # it" using s by (cases s) auto
  let ?n = "sequence_length l"
  have valid: "is_code_point_valid cp" and long: "\<not> is_overlong_sequence cp ?n" and n: "?n \<noteq> 0"
    using v by (auto simp: validate_next_def s Let_def utf_then_Inr_iff split: if_splits)
  then show "is_code_point_valid cp" by simp
  have lt: "unat cp < 1114112" using valid by (simp add: code_point_valid_nat)
  obtain fin where fin: "rest = tl fin" and
    g: "(if ?n = 1 then get_sequence_1 s else if ?n = 2 then get_sequence_2 s
        else if ?n = 3 then get_sequence_3 s else get_sequence_4 s) = Inr (cp, fin)"
    using v by (auto simp: validate_next_def s Let_def utf_then_Inr_iff split: if_splits)
  have "?n = 1 \<and> unat l < 128 \<or> ?n = 2 \<and> unat l div 32 = 6 \<or> ?n = 3 \<and> unat l div 16 = 14 \<or> ?n = 4 \<and> unat l div 8 = 30"
    using n by (auto simp: sequence_length_nat split: if_splits)
  then consider "?n = 1" "unat l < 128" | "?n = 2" "unat l div 32 = 6" | "?n = 3" "unat l div 16 = 14"
    | "?n = 4" "unat l div 8 = 30" by blast
  then show "s = encode_code_point cp @ rest"
  proof cases
    case 1
    with g have c: "unat cp = unat l" "fin = s" by (auto simp: get_sequence_Inr_iff unat_octets s)
    have "encode_code_point cp = [l]" by (rule encode_eqI [OF lt]) (use 1 c in \<open>simp add: octets_def\<close>)
    with c fin show ?thesis by (simp add: s)
  next
    case 2
    with g obtain t r where c: "it = t # r" "is_trail t" "fin = t # r" "unat cp = unat l mod 32 * 64 + unat t mod 64"
      by (auto simp: get_sequence_Inr_iff s)
    have "128 \<le> unat cp" using long 2 by (auto simp: overlong_nat split: if_splits)
    then have "encode_code_point cp = [l, t]"
      using octets_of_sequence(1) [OF 2(2), of "unat t"] c by (intro encode_eqI [OF lt]) (simp add: is_trail_iff)
    with c fin show ?thesis by (simp add: s)
  next
    case 3
    with g obtain t u r where c: "it = t # u # r" "is_trail t" "is_trail u" "fin = u # r"
      "unat cp = unat l mod 16 * 4096 + unat t mod 64 * 64 + unat u mod 64"
      by (auto simp: get_sequence_Inr_iff s)
    have "2048 \<le> unat cp" using long 3 by (auto simp: overlong_nat split: if_splits)
    then have "encode_code_point cp = [l, t, u]"
      using octets_of_sequence(2) [OF 3(2), of "unat t" "unat u"] c by (intro encode_eqI [OF lt]) (simp add: is_trail_iff)
    with c fin show ?thesis by (simp add: s)
  next
    case 4
    with g obtain t u w r where c: "it = t # u # w # r" "is_trail t" "is_trail u" "is_trail w" "fin = w # r"
      "unat cp = unat l mod 8 * 262144 + unat t mod 64 * 4096 + unat u mod 64 * 64 + unat w mod 64"
      by (auto simp: get_sequence_Inr_iff s)
    have "65536 \<le> unat cp" using long 4 by (auto simp: overlong_nat split: if_splits)
    then have "encode_code_point cp = [l, t, u, w]"
      using octets_of_sequence(3) [OF 4(2), of "unat t" "unat u" "unat w"] c
      by (intro encode_eqI [OF lt]) (simp add: is_trail_iff)
    with c fin show ?thesis by (simp add: s)
  qed
qed

text \<open>What the decoder does on the octets of a code point, by their number.\<close>

lemma is_trail_octet: "unat t = 128 + n mod 64 \<Longrightarrow> is_trail t" "unat t = 128 + n mod 64 \<Longrightarrow> unat t mod 64 = n mod 64"
  using digits64(1,2) [of "n mod 64" 2] by (simp_all add: is_trail_iff)

lemma split64:
  "n div 64 * 64 + n mod 64 = (n :: nat)"
  "n div 4096 * 4096 + n div 64 mod 64 * 64 + n mod 64 = (n :: nat)"
  "n div 262144 * 262144 + n div 4096 mod 64 * 4096 + n div 64 mod 64 * 64 + n mod 64 = (n :: nat)"
proof -
  have d: "n div 4096 = n div 64 div 64" "n div 262144 = n div 64 div 64 div 64"
    by (simp_all flip: div_mult2_eq)
  show a: "n div 64 * 64 + n mod 64 = n" by simp
  have b: "n div 64 div 64 * 64 + n div 64 mod 64 = n div 64"
    and c: "n div 64 div 64 div 64 * 64 + n div 64 div 64 mod 64 = n div 64 div 64" by simp_all
  show "n div 4096 * 4096 + n div 64 mod 64 * 64 + n mod 64 = n" unfolding d using a b by linarith
  show "n div 262144 * 262144 + n div 4096 mod 64 * 4096 + n div 64 mod 64 * 64 + n mod 64 = n"
    unfolding d using a b c by linarith
qed

lemma lead_digits:
  "k < 32 \<Longrightarrow> (192 + k) div 32 = (6 :: nat) \<and> (192 + k) mod 32 = k"
  "k < 16 \<Longrightarrow> (224 + k) div 16 = (14 :: nat) \<and> (224 + k) mod 16 = k"
  "k < 8 \<Longrightarrow> (240 + k) div 8 = (30 :: nat) \<and> (240 + k) mod 8 = k"
proof -
  have "(q * m + k) div m = q \<and> (q * m + k) mod m = k" if "k < m" for q m :: nat using that by simp
  from this [of 32 6] this [of 16 14] this [of 8 30] show
    "k < 32 \<Longrightarrow> (192 + k) div 32 = (6 :: nat) \<and> (192 + k) mod 32 = k"
    "k < 16 \<Longrightarrow> (224 + k) div 16 = (14 :: nat) \<and> (224 + k) mod 16 = k"
    "k < 8 \<Longrightarrow> (240 + k) div 8 = (30 :: nat) \<and> (240 + k) mod 8 = k" by simp_all
qed

lemma sequence_length_lead:
  "unat l < 128 \<Longrightarrow> sequence_length l = 1"
  "unat l = 192 + k \<Longrightarrow> k < 32 \<Longrightarrow> sequence_length l = 2 \<and> unat l mod 32 = k"
  "unat l = 224 + k \<Longrightarrow> k < 16 \<Longrightarrow> sequence_length l = 3 \<and> unat l mod 16 = k"
  "unat l = 240 + k \<Longrightarrow> k < 8 \<Longrightarrow> sequence_length l = 4 \<and> unat l mod 8 = k"
proof -
  show "unat l < 128 \<Longrightarrow> sequence_length l = 1" by (simp add: sequence_length_nat)
  show "unat l = 192 + k \<Longrightarrow> k < 32 \<Longrightarrow> sequence_length l = 2 \<and> unat l mod 32 = k"
    using lead_digits(1) [of k] by (simp add: sequence_length_nat)
  assume k: "unat l = 224 + k" "k < 16"
  have "(224 + k) div 32 = 7" using k by simp
  then show "sequence_length l = 3 \<and> unat l mod 16 = k"
    using k lead_digits(2) [of k] by (simp add: sequence_length_nat)
next
  assume k: "unat l = 240 + k" "k < 8"
  have "(240 + k) div 32 = 7" "(240 + k) div 16 = 15" using k by simp_all
  then show "sequence_length l = 4 \<and> unat l mod 8 = k"
    using k lead_digits(3) [of k] by (simp add: sequence_length_nat)
qed

lemma validate_nextI:
  assumes "sequence_length l = n" and "n \<noteq> 0" and "is_code_point_valid cp" and "\<not> is_overlong_sequence cp n"
    and "(if n = 1 then get_sequence_1 (l # it) else if n = 2 then get_sequence_2 (l # it)
        else if n = 3 then get_sequence_3 (l # it) else get_sequence_4 (l # it)) = Inr (cp, fin)"
  shows "validate_next (l # it) = Inr (cp, tl fin)"
  using assms(2-) unfolding validate_next_def list.sel assms(1) Let_def by simp

lemma validate_next_encode:
  assumes v: "is_code_point_valid cp"
  shows "validate_next (encode_code_point cp @ rest) = Inr (cp, rest)"
proof -
  let ?c = "unat cp"
  obtain bs where bs: "encode_code_point cp = bs" by simp
  have lt: "?c < 1114112" using v by (simp add: code_point_valid_nat)
  then have o: "map unat bs = octets ?c" using map_unat_encode [of cp] bs by simp
  consider "?c < 128" | "128 \<le> ?c" "?c < 2048" | "2048 \<le> ?c" "?c < 65536" | "65536 \<le> ?c" by linarith
  then have "validate_next (bs @ rest) = Inr (cp, rest)"
  proof cases
    case 1
    with o obtain l where l: "bs = [l]" "unat l = ?c" by (auto simp: octets_def)
    have "validate_next (l # rest) = Inr (cp, tl (l # rest))"
      by (rule validate_nextI [of _ 1])
        (use 1 v l sequence_length_lead(1) in \<open>simp_all add: overlong_nat get_sequence_Inr_iff word_unat_eq_iff unat_octets\<close>)
    with l show ?thesis by simp
  next
    case 2
    with o obtain l t where l: "bs = [l, t]" "unat l = 192 + ?c div 64" "unat t = 128 + ?c mod 64"
      by (auto simp: octets_def)
    have d: "?c div 64 < 32" using 2 by simp
    note n = sequence_length_lead(2) [OF l(2) d] and t = is_trail_octet [OF l(3)]
    have "get_sequence_2 (l # t # rest) = Inr (cp, t # rest)"
      unfolding get_sequence_Inr_iff using n t split64(1) [of ?c] by auto
    then have "validate_next (l # t # rest) = Inr (cp, tl (t # rest))"
      by (intro validate_nextI [of _ 2]) (use 2 v n in \<open>simp_all add: overlong_nat\<close>)
    with l show ?thesis by simp
  next
    case 3
    with o obtain l t u where l: "bs = [l, t, u]" "unat l = 224 + ?c div 4096"
      "unat t = 128 + ?c div 64 mod 64" "unat u = 128 + ?c mod 64"
      by (auto simp: octets_def)
    have d: "?c div 4096 < 16" using 3 by simp
    note n = sequence_length_lead(3) [OF l(2) d] and t = is_trail_octet [OF l(3)] is_trail_octet [OF l(4)]
    have "get_sequence_3 (l # t # u # rest) = Inr (cp, u # rest)"
      unfolding get_sequence_Inr_iff using n t split64(2) [of ?c] by auto
    then have "validate_next (l # t # u # rest) = Inr (cp, tl (u # rest))"
      by (intro validate_nextI [of _ 3]) (use 3 v n in \<open>simp_all add: overlong_nat\<close>)
    with l show ?thesis by simp
  next
    case 4
    with o obtain l t u w where l: "bs = [l, t, u, w]" "unat l = 240 + ?c div 262144"
      "unat t = 128 + ?c div 4096 mod 64" "unat u = 128 + ?c div 64 mod 64" "unat w = 128 + ?c mod 64"
      by (auto simp: octets_def)
    have d: "?c div 262144 < 8" using lt by simp
    note n = sequence_length_lead(4) [OF l(2) d]
      and t = is_trail_octet [OF l(3)] is_trail_octet [OF l(4)] is_trail_octet [OF l(5)]
    have "get_sequence_4 (l # t # u # w # rest) = Inr (cp, w # rest)"
      unfolding get_sequence_Inr_iff using n t split64(3) [of ?c] by auto
    then have "validate_next (l # t # u # w # rest) = Inr (cp, tl (w # rest))"
      by (intro validate_nextI [of _ 4]) (use 4 v n in \<open>simp_all add: overlong_nat\<close>)
    with l show ?thesis by simp
  qed
  with bs show ?thesis by simp
qed

end
