(* ===== verification/Utf8_Strings.thy ===== *)
theory Utf8_Strings
  imports Utf8
begin

text \<open>
  The functions of \<^verbatim>\<open>src/utf8.cpp\<close> on whole strings: validation, the validation that also rejects the
  C1 control characters, pruning, and the conversions from and to wide strings.
\<close>

subsection \<open>Whole strings\<close>

lemma encode_not_nil [simp]: "encode_code_point cp \<noteq> []"
  by (simp add: encode_code_point_def)

lemma validate_next_shorter: "s \<noteq> [] \<Longrightarrow> validate_next s = Inr (cp, r) \<Longrightarrow> length r < length s"
  using validate_next_sound [of s cp r] by simp

function utf8_find_invalid :: "bytes \<Rightarrow> bytes" where
  "utf8_find_invalid s =
     (if s = [] then []
      else case validate_next s of Inl _ \<Rightarrow> s | Inr (cp, r) \<Rightarrow> utf8_find_invalid r)"
  by pat_completeness auto
termination
  by (relation "measure length") (auto intro: validate_next_shorter)

definition utf8_is_valid :: "bytes \<Rightarrow> bool" where
  "utf8_is_valid s \<longleftrightarrow> utf8_find_invalid s = []"

definition is_utf8 :: "bytes \<Rightarrow> bool" where
  "is_utf8 str = utf8_is_valid str"

text \<open>
  \<^verbatim>\<open>fc::find_invalid\<close>: the position of the first octet that starts no acceptable sequence, and the
  code point there when it was rejected for lying in \<open>[lo, hi]\<close> (the largest 32-bit value otherwise).
\<close>

function find_invalid_loop :: "u32 \<Rightarrow> u32 \<Rightarrow> bytes \<Rightarrow> bytes \<times> u32" where
  "find_invalid_loop lo hi s =
     (if s = [] then ([], 0xffffffff)
      else case validate_next s of
          Inl _ \<Rightarrow> (s, 0xffffffff)
        | Inr (v, r) \<Rightarrow> if lo \<le> v \<and> v \<le> hi then (s, v) else find_invalid_loop lo hi r)"
  by pat_completeness auto
termination
  by (relation "measure (\<lambda>(lo, hi, s). length s)") (auto intro: validate_next_shorter)

definition find_invalid :: "bytes \<Rightarrow> u32 \<Rightarrow> u32 \<Rightarrow> (bytes \<times> u32) result" where
  "find_invalid s lo hi = fc_assert (lo \<le> hi) (Inr (find_invalid_loop lo hi s))"

definition is_valid_utf8 :: "bytes \<Rightarrow> bool result" where
  "is_valid_utf8 str = and_then (find_invalid str 0x80 0x9f) (\<lambda>(itr, v). Inr (itr = []))"

definition hex_digit_at :: "nat \<Rightarrow> byte" where
  "hex_digit_at i = ascii ''0123456789abcdef'' ! i"

definition prune_escape :: "u32 \<Rightarrow> bytes" where
  "prune_escape v = ascii [CHR 0x5C, CHR ''u'', CHR ''0'', CHR ''0''] @
     [hex_digit_at (unat (drop_bit 4 v)), hex_digit_at (unat (v AND 15))]"

definition string_between :: "bytes \<Rightarrow> bytes \<Rightarrow> bytes" where
  "string_between start itr = take (length start - length itr) start"

lemma find_invalid_loop_simps:
  "find_invalid_loop lo hi [] = ([], 0xffffffff)"
  "s \<noteq> [] \<Longrightarrow> find_invalid_loop lo hi s =
     (case validate_next s of
        Inl _ \<Rightarrow> (s, 0xffffffff)
      | Inr (v, r) \<Rightarrow> if lo \<le> v \<and> v \<le> hi then (s, v) else find_invalid_loop lo hi r)"
  by (subst find_invalid_loop.simps, simp)+

declare find_invalid_loop.simps [simp del] utf8_find_invalid.simps [simp del]

lemma find_invalid_loop_suffix: "\<exists>p. s = p @ fst (find_invalid_loop lo hi s)"
proof (induction lo hi s rule: find_invalid_loop.induct)
  case (1 lo hi s)
  show ?case
  proof (cases "s = []")
    case False
    show ?thesis
    proof (cases "validate_next s")
      case (Inr r)
      obtain v t where r: "r = (v, t)" by (cases r)
      from Inr r have s: "s = encode_code_point v @ t" using validate_next_sound(2) [OF False] by simp
      show ?thesis
      proof (cases "lo \<le> v \<and> v \<le> hi")
        case out: False
        from 1 [OF False Inr _ out] r obtain p where "t = p @ fst (find_invalid_loop lo hi t)" by auto
        with s have "s = (encode_code_point v @ p) @ fst (find_invalid_loop lo hi t)" by simp
        then show ?thesis using False Inr r out by (auto simp: find_invalid_loop_simps)
      qed (simp add: find_invalid_loop_simps False Inr r)
    qed (simp add: find_invalid_loop_simps False)
  qed (simp add: find_invalid_loop_simps)
qed

lemma find_invalid_loop_shorter:
  assumes "s \<noteq> []" and "(itr, v) = find_invalid_loop lo hi (tl s)"
  shows "length itr < length s"
proof -
  obtain p where "tl s = p @ itr" using find_invalid_loop_suffix [of "tl s" lo hi] assms(2) by (metis fst_conv)
  then have "length (tl s) = length p + length itr" by simp
  with assms(1) show ?thesis by (cases s) simp_all
qed

function prune_loop :: "bytes \<Rightarrow> bytes \<Rightarrow> bytes" where
  "prune_loop result itr =
     (if itr = [] then result
      else let start = tl itr; (itr', v) = find_invalid_loop 0x80 0x9f start
        in prune_loop (result @ string_between start itr' @ (if v \<noteq> 0xffffffff then prune_escape v else [])) itr')"
  by pat_completeness auto
termination
  by (relation "measure (\<lambda>(out, itr). length itr)") (auto intro: find_invalid_loop_shorter)

definition prune_invalid_utf8 :: "bytes \<Rightarrow> bytes result" where
  "prune_invalid_utf8 str =
     and_then (find_invalid str 0x80 0x9f) (\<lambda>(itr, v).
       if itr = [] then Inr str
       else Inr (prune_loop (string_between str itr @ (if v \<noteq> 0xffffffff then prune_escape v else [])) itr))"

text \<open>
  The conversions append to their output; what was appended before an exception stays there. A wide
  character is a 32-bit value, and a null pointer to the output is \<open>None\<close>.
\<close>

fun utf32to8 :: "u32 list \<Rightarrow> bytes \<Rightarrow> bytes \<times> utf8_exception option" where
  "utf32to8 [] out = (out, None)"
| "utf32to8 (cp # cps) out =
     (case utf8_append cp of Inl e \<Rightarrow> (out, Some e) | Inr bs \<Rightarrow> utf32to8 cps (out @ bs))"

function utf8to32 :: "bytes \<Rightarrow> u32 list \<Rightarrow> u32 list \<times> utf8_exception option" where
  "utf8to32 s out =
     (if s = [] then (out, None)
      else case utf8_next s of Inl e \<Rightarrow> (out, Some e) | Inr (cp, r) \<Rightarrow> utf8to32 r (out @ [cp]))"
  by pat_completeness auto
termination
  by (relation "measure (\<lambda>(s, out). length s)")
    (auto simp: utf8_next_def intro: validate_next_shorter split: sum.splits utf_error.splits)

definition decodeUtf8 :: "bytes \<Rightarrow> u32 list option \<Rightarrow> (u32 list \<times> utf8_exception option) result" where
  "decodeUtf8 input storage =
     (case storage of None \<Rightarrow> Inl Assert_failed | Some out \<Rightarrow> Inr (utf8to32 input out))"

definition encodeUtf8 :: "u32 list \<Rightarrow> bytes option \<Rightarrow> (bytes \<times> utf8_exception option) result" where
  "encodeUtf8 input storage =
     (case storage of None \<Rightarrow> Inl Assert_failed | Some out \<Rightarrow> Inr (utf32to8 input out))"

subsection \<open>What the validators accept\<close>

definition encodes :: "u32 list \<Rightarrow> bytes" where
  "encodes cps = concat (map encode_code_point cps)"

definition c1_control :: "u32 \<Rightarrow> bool" where
  "c1_control cp \<longleftrightarrow> 0x80 \<le> cp \<and> cp \<le> 0x9f"

text \<open>Remove what starts no sequence octet by octet, and escape the C1 control characters.\<close>

function pruned :: "bytes \<Rightarrow> bytes" where
  "pruned s =
     (if s = [] then []
      else case validate_next s of
          Inl _ \<Rightarrow> pruned (tl s)
        | Inr (cp, r) \<Rightarrow> (if c1_control cp then prune_escape cp else encode_code_point cp) @ pruned r)"
  by pat_completeness auto
termination
  by (relation "measure length") (auto intro: validate_next_shorter)

lemma pruned_simps:
  "pruned [] = []"
  "s \<noteq> [] \<Longrightarrow> pruned s =
     (case validate_next s of
        Inl _ \<Rightarrow> pruned (tl s)
      | Inr (cp, r) \<Rightarrow> (if c1_control cp then prune_escape cp else encode_code_point cp) @ pruned r)"
  by (subst pruned.simps, simp)+

declare pruned.simps [simp del] prune_loop.simps [simp del] utf8to32.simps [simp del]

lemma encodes_simps [simp]:
  "encodes [] = []" "encodes (cp # cps) = encode_code_point cp @ encodes cps"
  "encodes (xs @ ys) = encodes xs @ encodes ys"
  by (simp_all add: encodes_def)

lemma utf8_find_invalid_simps:
  "utf8_find_invalid [] = []"
  "s \<noteq> [] \<Longrightarrow> utf8_find_invalid s =
     (case validate_next s of Inl _ \<Rightarrow> s | Inr (cp, r) \<Rightarrow> utf8_find_invalid r)"
  by (subst utf8_find_invalid.simps, simp)+

lemma utf8_find_invalid_encodes: "list_all is_code_point_valid cps \<Longrightarrow> utf8_find_invalid (encodes cps) = []"
  by (induction cps) (simp_all add: utf8_find_invalid_simps validate_next_encode)

lemma find_invalid_loop_encodes:
  "list_all (\<lambda>cp. is_code_point_valid cp \<and> \<not> (lo \<le> cp \<and> cp \<le> hi)) cps \<Longrightarrow>
     find_invalid_loop lo hi (encodes cps) = ([], 0xffffffff)"
  by (induction cps) (auto simp: find_invalid_loop_simps validate_next_encode)

lemma find_invalid_loop_nil_D:
  "fst (find_invalid_loop lo hi s) = [] \<Longrightarrow>
     \<exists>cps. list_all (\<lambda>cp. is_code_point_valid cp \<and> \<not> (lo \<le> cp \<and> cp \<le> hi)) cps \<and> s = encodes cps"
proof (induction lo hi s rule: find_invalid_loop.induct)
  case (1 lo hi s)
  show ?case
  proof (cases "s = []")
    case True
    then show ?thesis by (intro exI [of _ "[]"]) simp
  next
    case False
    with 1(2) obtain v r where v: "validate_next s = Inr (v, r)" "\<not> (lo \<le> v \<and> v \<le> hi)"
      "fst (find_invalid_loop lo hi r) = []"
      by (auto simp: find_invalid_loop_simps split: sum.splits if_splits)
    from 1(1) [OF False v(1) refl v(2,3)] obtain cps where
      "list_all (\<lambda>cp. is_code_point_valid cp \<and> \<not> (lo \<le> cp \<and> cp \<le> hi)) cps" "r = encodes cps" by blast
    with validate_next_sound [OF False v(1)] v(2) show ?thesis by (intro exI [of _ "v # cps"]) simp
  qed
qed

lemma utf8_find_invalid_nil_D:
  "utf8_find_invalid s = [] \<Longrightarrow> \<exists>cps. list_all is_code_point_valid cps \<and> s = encodes cps"
proof (induction s rule: utf8_find_invalid.induct)
  case (1 s)
  show ?case
  proof (cases "s = []")
    case True
    then show ?thesis by (intro exI [of _ "[]"]) simp
  next
    case False
    with 1(2) obtain v r where v: "validate_next s = Inr (v, r)" "utf8_find_invalid r = []"
      by (auto simp: utf8_find_invalid_simps split: sum.splits)
    from 1(1) [OF False v(1) refl v(2)] obtain cps where "list_all is_code_point_valid cps" "r = encodes cps" by blast
    with validate_next_sound [OF False v(1)] show ?thesis by (intro exI [of _ "v # cps"]) simp
  qed
qed

lemma is_valid_utf8_eq: "is_valid_utf8 s = Inr (fst (find_invalid_loop 0x80 0x9f s) = [])"
  by (simp add: is_valid_utf8_def find_invalid_def split: prod.splits)

lemma is_valid_utf8_iff:
  "is_valid_utf8 s = Inr True \<longleftrightarrow>
     (\<exists>cps. list_all (\<lambda>cp. is_code_point_valid cp \<and> \<not> c1_control cp) cps \<and> s = encodes cps)"
  unfolding is_valid_utf8_eq c1_control_def
  using find_invalid_loop_encodes [of "0x80" "0x9f"] find_invalid_loop_nil_D [of "0x80" "0x9f"] by fastforce

text \<open>
  C34. \<^verbatim>\<open>is_utf8\<close> accepts a string exactly when it is the concatenation of the encodings of
  valid code points (at most \<^verbatim>\<open>U+10FFFF\<close> and no surrogate, each in its shortest form), and
  \<^verbatim>\<open>is_valid_utf8\<close> exactly when, besides, none of them is a C1 control character.
\<close>

theorem is_utf8_iff:
  "(is_utf8 s \<longleftrightarrow> (\<exists>cps. list_all is_code_point_valid cps \<and> s = encodes cps)) \<and>
   (is_valid_utf8 s = Inr True \<longleftrightarrow>
      (\<exists>cps. list_all (\<lambda>cp. is_code_point_valid cp \<and> \<not> c1_control cp) cps \<and> s = encodes cps))"
  unfolding is_valid_utf8_iff is_utf8_def utf8_is_valid_def
  using utf8_find_invalid_encodes utf8_find_invalid_nil_D by blast

subsection \<open>Conversions\<close>

lemma utf32to8_eq: "list_all is_code_point_valid cps \<Longrightarrow> utf32to8 cps out = (out @ encodes cps, None)"
  by (induction cps arbitrary: out) (simp_all add: utf8_append_def)

lemma utf32to8_None_D: "snd (utf32to8 cps out) = None \<Longrightarrow> list_all is_code_point_valid cps"
  by (induction cps arbitrary: out) (auto simp: utf8_append_def split: if_splits)

lemma utf8to32_eq: "list_all is_code_point_valid cps \<Longrightarrow> utf8to32 (encodes cps) out = (out @ cps, None)"
proof (induction cps arbitrary: out)
  case (Cons cp cps)
  then show ?case by (subst utf8to32.simps) (simp add: utf8_next_def validate_next_encode)
qed (simp add: utf8to32.simps)

lemma utf8to32_None_D: "utf8to32 s out = (w, None) \<Longrightarrow>
    \<exists>cps. list_all is_code_point_valid cps \<and> w = out @ cps \<and> s = encodes cps"
proof (induction s out rule: utf8to32.induct)
  case (1 s out)
  show ?case
  proof (cases "s = []")
    case True
    with 1(2) show ?thesis by (intro exI [of _ "[]"]) (simp add: utf8to32.simps)
  next
    case False
    with 1(2) obtain cp r where n: "utf8_next s = Inr (cp, r)" "utf8to32 r (out @ [cp]) = (w, None)"
      by (subst (asm) utf8to32.simps) (auto split: sum.splits)
    from n(1) have v: "validate_next s = Inr (cp, r)"
      by (auto simp: utf8_next_def split: sum.splits utf_error.splits)
    from 1(1) [OF False n(1) refl n(2)] obtain cps where
      "list_all is_code_point_valid cps" "w = (out @ [cp]) @ cps" "r = encodes cps" by blast
    with validate_next_sound [OF False v] show ?thesis by (intro exI [of _ "cp # cps"]) simp
  qed
qed

text \<open>
  Encoding succeeds exactly on the strings of valid code points, decoding exactly on valid
  UTF-8, and the two are inverse to each other.
\<close>

lemma utf8_conversions:
  "((\<exists>bs. encodeUtf8 cps (Some []) = Inr (bs, None)) \<longleftrightarrow> list_all is_code_point_valid cps) \<and>
   ((\<exists>cps. decodeUtf8 bs (Some []) = Inr (cps, None)) \<longleftrightarrow> is_utf8 bs) \<and>
   (encodeUtf8 cps (Some []) = Inr (bs, None) \<longleftrightarrow> decodeUtf8 bs (Some []) = Inr (cps, None))"
proof -
  have e: "encodeUtf8 cps (Some []) = Inr (bs, None) \<longleftrightarrow> list_all is_code_point_valid cps \<and> bs = encodes cps" for cps bs
    using utf32to8_eq [of cps "[]"] utf32to8_None_D [of cps "[]"] by (auto simp: encodeUtf8_def)
  have d: "decodeUtf8 bs (Some []) = Inr (cps, None) \<longleftrightarrow> list_all is_code_point_valid cps \<and> bs = encodes cps" for cps bs
    using utf8to32_eq [of cps "[]"] utf8to32_None_D [of bs "[]" cps] by (auto simp: decodeUtf8_def)
  show ?thesis
    unfolding e d is_utf8_def utf8_is_valid_def
    using utf8_find_invalid_encodes utf8_find_invalid_nil_D by auto
qed

subsection \<open>Pruning\<close>

lemma ascii_encode:
  assumes "unat (b :: byte) < 128"
  shows "encode_code_point (ucast b) = [b]" and "is_code_point_valid (ucast b)" and "\<not> c1_control (ucast b)"
proof -
  have b: "unat (ucast b :: u32) = unat b" using unat_byte_lt [of b] by (simp add: unat_ucast_mod)
  show "encode_code_point (ucast b) = [b]"
    by (rule encode_eqI) (use assms b in \<open>simp_all add: octets_def\<close>)
  show "is_code_point_valid (ucast b)" using assms by (simp add: code_point_valid_nat b)
  show "\<not> c1_control (ucast b)" using assms by (simp add: c1_control_def word_le_nat_alt b)
qed

lemma ascii_encodes:
  "list_all (\<lambda>b. unat b < 128) bs \<Longrightarrow>
     \<exists>cps. list_all (\<lambda>cp. is_code_point_valid cp \<and> \<not> c1_control cp) cps \<and> bs = encodes cps"
proof (induction bs)
  case (Cons b bs)
  then obtain cps where "list_all (\<lambda>cp. is_code_point_valid cp \<and> \<not> c1_control cp) cps" "bs = encodes cps" by auto
  with ascii_encode [of b] Cons.prems show ?case by (intro exI [of _ "ucast b # cps"]) simp
qed (auto intro: exI [of _ "[]"])

lemma hex_digit_at_ascii: "i < 16 \<Longrightarrow> unat (hex_digit_at i) < 128"
proof -
  assume i: "i < 16"
  have "list_all (\<lambda>b. unat b < 128) (ascii ''0123456789abcdef'')" by (simp add: ascii_def)
  moreover have "length (ascii ''0123456789abcdef'') = 16" by (simp add: ascii_def)
  ultimately show ?thesis unfolding hex_digit_at_def list_all_length using i by metis
qed

lemma prune_escape_ascii:
  assumes "c1_control v"
  shows "list_all (\<lambda>b. unat b < 128) (prune_escape v)"
proof -
  have "unat v \<le> 159" using assms by (simp add: c1_control_def word_le_nat_alt)
  then have "unat v div 16 < 16" by simp
  moreover have "unat (v AND 15) = unat v mod 16" using unat_and_mask [of v 4] by (simp add: mask_eq_exp_minus_1)
  ultimately show ?thesis
    by (simp add: prune_escape_def ascii_def unat_drop_bit hex_digit_at_ascii)
qed

text \<open>The second octet of a C1 control character starts no sequence.\<close>

lemma c1_second_octet:
  assumes "c1_control v"
  shows "\<exists>l t. encode_code_point v = [l, t] \<and> (\<forall>r. validate_next (t # r) = Inl INVALID_LEAD)"
proof -
  have v: "128 \<le> unat v" "unat v \<le> 159" using assms by (simp_all add: c1_control_def word_le_nat_alt)
  then have "map unat (encode_code_point v) = [192 + unat v div 64, 128 + unat v mod 64]"
    using map_unat_encode [of v] by (simp add: octets_def)
  then obtain l t where lt: "encode_code_point v = [l, t]" "unat t = 128 + unat v mod 64" by auto
  have "unat v mod 64 < 64" by simp
  then have t: "128 \<le> unat t" "unat t < 192" using lt(2) by linarith+
  have "unat t div 32 \<noteq> 6" "unat t div 16 \<noteq> 14" "unat t div 8 \<noteq> 30"
    using t less_mult_imp_div_less [of "unat t" 6 32] less_mult_imp_div_less [of "unat t" 12 16]
      less_mult_imp_div_less [of "unat t" 24 8] by auto
  then have "sequence_length t = 0" using t by (simp add: sequence_length_nat)
  with lt show ?thesis by (simp add: validate_next_def)
qed

lemma string_between_append [simp]: "string_between (p @ itr) itr = p"
  by (simp add: string_between_def)

lemma pruned_from_find:
  assumes "find_invalid_loop 0x80 0x9f s = (itr, v)"
  shows "pruned s = string_between s itr @ (if v \<noteq> 0xffffffff then prune_escape v else []) @
    (if itr = [] then [] else pruned (tl itr))"
  using assms
proof (induction s rule: pruned.induct)
  case (1 s)
  show ?case
  proof (cases "s = []")
    case True
    with 1(3) show ?thesis by (simp add: find_invalid_loop_simps pruned_simps string_between_def)
  next
    case False
    show ?thesis
    proof (cases "validate_next s")
      case (Inl e)
      with 1(3) False show ?thesis
        by (auto simp: find_invalid_loop_simps pruned_simps string_between_def)
    next
      case (Inr cr)
      obtain cp r where cr: "cr = (cp, r)" by (cases cr)
      note n = Inr [unfolded cr] and s = validate_next_sound [OF False Inr [unfolded cr]]
      show ?thesis
      proof (cases "c1_control cp")
        case True
        with 1(3) n False have e: "itr = s" "v = cp" by (auto simp: find_invalid_loop_simps c1_control_def)
        from c1_second_octet [OF True] obtain l t where
          "encode_code_point cp = [l, t]" "validate_next (t # r) = Inl INVALID_LEAD" by blast
        with s have "pruned (tl s) = pruned r" by (simp add: pruned_simps)
        moreover have "cp \<noteq> 0xffffffff" using True by (auto simp: c1_control_def)
        ultimately show ?thesis using True n False e by (simp add: pruned_simps string_between_def)
      next
        case c1: False
        with 1(3) n False have f: "find_invalid_loop 0x80 0x9f r = (itr, v)"
          by (auto simp: find_invalid_loop_simps c1_control_def)
        from find_invalid_loop_suffix [of r "0x80" "0x9f"] f obtain p where p: "r = p @ itr" by auto
        have "s = (encode_code_point cp @ p) @ itr" using s(2) p by simp
        then have "string_between s itr = encode_code_point cp @ string_between r itr"
          unfolding p by (simp only: string_between_append)
        with 1(2) [OF False n refl f] c1 n False show ?thesis by (simp add: pruned_simps)
      qed
    qed
  qed
qed

lemma prune_loop_eq: "prune_loop out itr = out @ (if itr = [] then [] else pruned (tl itr))"
proof (induction out itr rule: prune_loop.induct)
  case (1 out itr)
  show ?case
  proof (cases "itr = []")
    case False
    obtain itr' v where f: "find_invalid_loop 0x80 0x9f (tl itr) = (itr', v)" by (cases "find_invalid_loop 0x80 0x9f (tl itr)")
    from 1 [OF False refl _ refl, unfolded f, OF refl] pruned_from_find [OF f] False f show ?thesis
      by (subst prune_loop.simps) simp
  qed (simp add: prune_loop.simps)
qed

lemma pruned_valid: "\<exists>cps. list_all (\<lambda>cp. is_code_point_valid cp \<and> \<not> c1_control cp) cps \<and> pruned s = encodes cps"
proof (induction s rule: pruned.induct)
  case (1 s)
  show ?case
  proof (cases "s = []")
    case True
    then show ?thesis by (intro exI [of _ "[]"]) (simp add: pruned_simps)
  next
    case False
    show ?thesis
    proof (cases "validate_next s")
      case (Inl e)
      with 1(1) [OF False] False show ?thesis by (simp add: pruned_simps)
    next
      case (Inr cr)
      obtain cp r where cr: "cr = (cp, r)" by (cases cr)
      note n = Inr [unfolded cr]
      from 1(2) [OF False n refl] obtain cps where
        c: "list_all (\<lambda>cp. is_code_point_valid cp \<and> \<not> c1_control cp) cps" "pruned r = encodes cps" by blast
      obtain ds where "list_all (\<lambda>cp. is_code_point_valid cp \<and> \<not> c1_control cp) ds"
        "(if c1_control cp then prune_escape cp else encode_code_point cp) = encodes ds"
      proof (cases "c1_control cp")
        case True
        from ascii_encodes [OF prune_escape_ascii [OF True]] that True show ?thesis by auto
      next
        case c1: False
        with validate_next_sound(1) [OF False n] that [of "[cp]"] show ?thesis by simp
      qed
      with c n False show ?thesis by (intro exI [of _ "ds @ cps"]) (simp add: pruned_simps)
    qed
  qed
qed

lemma prune_invalid_utf8_eq:
  "prune_invalid_utf8 s = Inr (pruned s) \<and> is_valid_utf8 (pruned s) = Inr True \<and>
   (if is_valid_utf8 s = Inr True then pruned s = s else True)"
proof -
  obtain itr v where f: "find_invalid_loop 0x80 0x9f s = (itr, v)" by (cases "find_invalid_loop 0x80 0x9f s")
  note p = pruned_from_find [OF f]
  have same: "pruned s = s" if "itr = []"
  proof -
    from find_invalid_loop_nil_D [of "0x80" "0x9f" s] f that obtain cps where
      c: "list_all (\<lambda>cp. is_code_point_valid cp \<and> \<not> (0x80 \<le> cp \<and> cp \<le> 0x9f)) cps" "s = encodes cps" by auto
    then have "v = 0xffffffff" using find_invalid_loop_encodes [OF c(1)] f by simp
    with p that show ?thesis by (simp add: string_between_def)
  qed
  have "prune_invalid_utf8 s = Inr (pruned s)"
    using p same by (simp add: prune_invalid_utf8_def find_invalid_def f prune_loop_eq)
  moreover have "is_valid_utf8 (pruned s) = Inr True"
    using pruned_valid [of s] by (simp add: is_valid_utf8_iff)
  ultimately show ?thesis using same by (simp add: is_valid_utf8_eq f)
qed

text \<open>
  \<^verbatim>\<open>prune_invalid_utf8\<close> keeps every valid sequence, replaces each C1 control character
  by its escape and drops every other octet (\<open>pruned\<close>); its result is always accepted by
  \<^verbatim>\<open>is_valid_utf8\<close>, and a string accepted before is returned unchanged.
\<close>

lemma prune_invalid_utf8_correct:
  "prune_invalid_utf8 s = Inr (pruned s) \<and> is_valid_utf8 (pruned s) = Inr True \<and>
   (if is_valid_utf8 s = Inr True then pruned s = s else True)"
  by (rule prune_invalid_utf8_eq)

end
