(* ===== verification/Variant.thy ===== *)
theory Variant
  imports Decimal Text_Codecs Raw
begin

text \<open>
  The dynamically typed value of \<^verbatim>\<open>fc/variant.hpp\<close> and \<^verbatim>\<open>src/variant.cpp\<close>: its kinds, the conversions
  between them, comparison and arithmetic. A variant owns what it holds, so it is a value here; the
  sharing inside \<^verbatim>\<open>variant_object\<close> is the subject of another theory. A double is the 64 bits
  that represent it.
\<close>

datatype variant =
    Null
  | Int64 u64
  | Uint64 u64
  | Double u64
  | Bool bool
  | String bytes
  | Array "variant list"
  | Object "(bytes \<times> variant) list"
  | Blob bytes

datatype type_id = null_type | int64_type | uint64_type | double_type | bool_type | string_type | array_type
  | object_type | blob_type

abbreviation Bad_cast :: fc_error where
  "Bad_cast \<equiv> Fc_exception bad_cast_exception_code"

abbreviation Parse_error :: fc_error where
  "Parse_error \<equiv> Fc_exception parse_error_exception_code"

abbreviation Key_not_found :: fc_error where
  "Key_not_found \<equiv> Fc_exception key_not_found_exception_code"

subsection \<open>What comes from outside\<close>

text \<open>
  The conversions the library takes from Boost and from the floating-point unit. The first five are
  \<^verbatim>\<open>boost::lexical_cast\<close>, where \<open>None\<close> is \<^verbatim>\<open>bad_lexical_cast\<close>; \<open>show_double\<close> is formatted
  output in fixed notation; a conversion of a double to an integer is \<open>None\<close> where the language leaves
  it undefined.
\<close>

record platform =
  lex_int64 :: "bytes \<Rightarrow> u64 option"
  lex_uint64 :: "bytes \<Rightarrow> u64 option"
  lex_double :: "bytes \<Rightarrow> u64 option"
  show_int64 :: "u64 \<Rightarrow> bytes"
  show_uint64 :: "u64 \<Rightarrow> bytes"
  show_double :: "u64 \<Rightarrow> bytes"
  double_to_int64 :: "u64 \<Rightarrow> u64 option"
  double_to_uint64 :: "u64 \<Rightarrow> u64 option"
  double_of_int64 :: "u64 \<Rightarrow> u64"
  double_of_uint64 :: "u64 \<Rightarrow> u64"
  double_plus :: "u64 \<Rightarrow> u64 \<Rightarrow> u64"
  double_minus :: "u64 \<Rightarrow> u64 \<Rightarrow> u64"
  double_times :: "u64 \<Rightarrow> u64 \<Rightarrow> u64"
  double_divide :: "u64 \<Rightarrow> u64 \<Rightarrow> u64"

text \<open>What \<^verbatim>\<open>boost::lexical_cast\<close> promises for integers: decimal notation, and back.\<close>

definition decimal_casts :: "platform \<Rightarrow> bool" where
  "decimal_casts p \<longleftrightarrow>
     (\<forall>w. show_uint64 p w = dec (unat w) \<and> show_int64 p w = dec_int (sint w) \<and>
        lex_uint64 p (dec (unat w)) = Some w \<and> lex_int64 p (dec_int (sint w)) = Some w)"

definition to_int64 :: "platform \<Rightarrow> bytes \<Rightarrow> u64 result" where
  "to_int64 p i = (case lex_int64 p i of Some w \<Rightarrow> Inr w | None \<Rightarrow> Inl Parse_error)"

definition to_uint64 :: "platform \<Rightarrow> bytes \<Rightarrow> u64 result" where
  "to_uint64 p i = (case lex_uint64 p i of Some w \<Rightarrow> Inr w | None \<Rightarrow> Inl Parse_error)"

definition to_double :: "platform \<Rightarrow> bytes \<Rightarrow> u64 result" where
  "to_double p i = (case lex_double p i of Some w \<Rightarrow> Inr w | None \<Rightarrow> Inl Parse_error)"

text \<open>
  Comparison of doubles by their representation: sign and magnitude, the two zeros equal, and nothing
  related to a value that is not a number.
\<close>

definition double_magnitude :: "u64 \<Rightarrow> u64" where
  "double_magnitude d = d AND 0x7fffffffffffffff"

definition double_nan :: "u64 \<Rightarrow> bool" where
  "double_nan d \<longleftrightarrow> double_magnitude d > 0x7ff0000000000000"

definition double_rank :: "u64 \<Rightarrow> int" where
  "double_rank d = (if bit d 63 then - uint (double_magnitude d) else uint (double_magnitude d))"

definition double_eq :: "u64 \<Rightarrow> u64 \<Rightarrow> bool" where
  "double_eq a b \<longleftrightarrow> \<not> double_nan a \<and> \<not> double_nan b \<and> double_rank a = double_rank b"

definition double_less :: "u64 \<Rightarrow> u64 \<Rightarrow> bool" where
  "double_less a b \<longleftrightarrow> \<not> double_nan a \<and> \<not> double_nan b \<and> double_rank a < double_rank b"

definition double_of_bool :: "bool \<Rightarrow> u64" where
  "double_of_bool b = (if b then 0x3ff0000000000000 else 0)"

subsection \<open>Kinds\<close>

fun get_type :: "variant \<Rightarrow> type_id" where
  "get_type Null = null_type"
| "get_type (Int64 _) = int64_type"
| "get_type (Uint64 _) = uint64_type"
| "get_type (Double _) = double_type"
| "get_type (Bool _) = bool_type"
| "get_type (String _) = string_type"
| "get_type (Array _) = array_type"
| "get_type (Object _) = object_type"
| "get_type (Blob _) = blob_type"

definition is_null :: "variant \<Rightarrow> bool" where "is_null v \<longleftrightarrow> get_type v = null_type"
definition is_string :: "variant \<Rightarrow> bool" where "is_string v \<longleftrightarrow> get_type v = string_type"
definition is_bool :: "variant \<Rightarrow> bool" where "is_bool v \<longleftrightarrow> get_type v = bool_type"
definition is_double :: "variant \<Rightarrow> bool" where "is_double v \<longleftrightarrow> get_type v = double_type"
definition is_uint64 :: "variant \<Rightarrow> bool" where "is_uint64 v \<longleftrightarrow> get_type v = uint64_type"
definition is_int64 :: "variant \<Rightarrow> bool" where "is_int64 v \<longleftrightarrow> get_type v = int64_type"
definition is_object :: "variant \<Rightarrow> bool" where "is_object v \<longleftrightarrow> get_type v = object_type"
definition is_array :: "variant \<Rightarrow> bool" where "is_array v \<longleftrightarrow> get_type v = array_type"
definition is_blob :: "variant \<Rightarrow> bool" where "is_blob v \<longleftrightarrow> get_type v = blob_type"

definition is_integer :: "variant \<Rightarrow> bool" where
  "is_integer v \<longleftrightarrow> (case get_type v of int64_type \<Rightarrow> True | uint64_type \<Rightarrow> True | bool_type \<Rightarrow> True | _ \<Rightarrow> False)"

definition is_numeric :: "variant \<Rightarrow> bool" where
  "is_numeric v \<longleftrightarrow>
     (case get_type v of int64_type \<Rightarrow> True | uint64_type \<Rightarrow> True | double_type \<Rightarrow> True | bool_type \<Rightarrow> True | _ \<Rightarrow> False)"

subsection \<open>Conversions\<close>

definition defined_cast :: "u64 option \<Rightarrow> u64 result" where
  "defined_cast d = (case d of Some w \<Rightarrow> Inr w | None \<Rightarrow> Inl Undefined_behaviour)"

fun as_int64 :: "platform \<Rightarrow> variant \<Rightarrow> u64 result" where
  "as_int64 p (String s) = to_int64 p s"
| "as_int64 p (Double d) = defined_cast (double_to_int64 p d)"
| "as_int64 p (Int64 i) = Inr i"
| "as_int64 p (Uint64 u) = Inr u"
| "as_int64 p (Bool b) = Inr (of_bool b)"
| "as_int64 p Null = Inr 0"
| "as_int64 p _ = Inl Bad_cast"

fun as_uint64 :: "platform \<Rightarrow> variant \<Rightarrow> u64 result" where
  "as_uint64 p (String s) = to_uint64 p s"
| "as_uint64 p (Double d) = defined_cast (double_to_uint64 p d)"
| "as_uint64 p (Int64 i) = Inr i"
| "as_uint64 p (Uint64 u) = Inr u"
| "as_uint64 p (Bool b) = Inr (of_bool b)"
| "as_uint64 p Null = Inr 0"
| "as_uint64 p _ = Inl Bad_cast"

fun as_double :: "platform \<Rightarrow> variant \<Rightarrow> u64 result" where
  "as_double p (String s) = to_double p s"
| "as_double p (Double d) = Inr d"
| "as_double p (Int64 i) = Inr (double_of_int64 p i)"
| "as_double p (Uint64 u) = Inr (double_of_uint64 p u)"
| "as_double p (Bool b) = Inr (double_of_bool b)"
| "as_double p Null = Inr 0"
| "as_double p _ = Inl Bad_cast"

fun as_bool :: "variant \<Rightarrow> bool result" where
  "as_bool (String s) =
     (if s = ascii ''true'' then Inr True else if s = ascii ''false'' then Inr False else Inl Bad_cast)"
| "as_bool (Double d) = Inr (double_magnitude d \<noteq> 0)"
| "as_bool (Int64 i) = Inr (i \<noteq> 0)"
| "as_bool (Uint64 u) = Inr (u \<noteq> 0)"
| "as_bool (Bool b) = Inr b"
| "as_bool Null = Inr False"
| "as_bool _ = Inl Bad_cast"

fun as_string :: "platform \<Rightarrow> variant \<Rightarrow> bytes result" where
  "as_string p (String s) = Inr s"
| "as_string p (Double d) = Inr (show_double p d)"
| "as_string p (Int64 i) = Inr (show_int64 p i)"
| "as_string p (Uint64 u) = Inr (show_uint64 p u)"
| "as_string p (Bool b) = Inr (if b then ascii ''true'' else ascii ''false'')"
| "as_string p (Blob d) = Inr (if length d \<noteq> 0 then base64_encode d @ ascii ''='' else [])"
| "as_string p Null = Inr []"
| "as_string p _ = Inl Bad_cast"

fun get_array :: "variant \<Rightarrow> variant list result" where
  "get_array (Array a) = Inr a"
| "get_array _ = Inl Bad_cast"

fun get_blob :: "variant \<Rightarrow> bytes result" where
  "get_blob (Blob d) = Inr d"
| "get_blob _ = Inl Bad_cast"

fun get_object :: "variant \<Rightarrow> (bytes \<times> variant) list result" where
  "get_object (Object kvs) = Inr kvs"
| "get_object _ = Inl Bad_cast"

fun get_string :: "variant \<Rightarrow> bytes result" where
  "get_string (String s) = Inr s"
| "get_string _ = Inl Bad_cast"

text \<open>
  The blob of a number is its eight bytes in memory. Of those only the first belongs to a
  boolean; \<open>stale\<close> is what the other seven happen to hold.
\<close>

fun as_blob :: "bytes \<Rightarrow> variant \<Rightarrow> bytes result" where
  "as_blob stale Null = Inr []"
| "as_blob stale (Blob d) = Inr d"
| "as_blob stale (String s) =
     (if length s = 0 then Inr [] else if last s = 0x3d then base64_decode s else Inr s)"
| "as_blob stale (Object _) = Inl Bad_cast"
| "as_blob stale (Array _) = Inl Bad_cast"
| "as_blob stale (Int64 i) = Inr (le_bytes 8 (unat i))"
| "as_blob stale (Uint64 u) = Inr (le_bytes 8 (unat u))"
| "as_blob stale (Double d) = Inr (le_bytes 8 (unat d))"
| "as_blob stale (Bool b) = Inr (of_bool b # stale)"

text \<open>A key goes through \<^verbatim>\<open>c_str()\<close>.\<close>

definition variant_at_key :: "variant \<Rightarrow> bytes \<Rightarrow> variant result" where
  "variant_at_key v key =
     and_then (get_object v) (\<lambda>kvs. case map_of kvs key of Some x \<Rightarrow> Inr x | None \<Rightarrow> Inl Key_not_found)"

definition variant_at_pos :: "variant \<Rightarrow> nat \<Rightarrow> variant result" where
  "variant_at_pos v pos =
     and_then (get_array v) (\<lambda>a. if pos < length a then Inr (a ! pos) else Inl Undefined_behaviour)"

definition variant_size :: "variant \<Rightarrow> nat result" where
  "variant_size v = and_then (get_array v) (\<lambda>a. Inr (length a))"

text \<open>
  The sizes of the classes on the supported platforms: a variant and a \<^verbatim>\<open>variant_object\<close> 16 bytes, a
  string 32, a vector and a blob 24.
\<close>

fun estimated_size :: "variant \<Rightarrow> nat" where
  "estimated_size (String s) = length s + 32 + 16"
| "estimated_size (Array a) = 16 + 24 + sum_list (map estimated_size a)"
| "estimated_size (Object kvs) =
     (16 + 24 + sum_list (map (\<lambda>(k, v). length k + 32 + estimated_size v) kvs)) + 16"
| "estimated_size (Blob d) = 24 + length d + 16"
| "estimated_size _ = 16"

text \<open>The nesting of arrays and objects.\<close>

fun nesting :: "variant \<Rightarrow> nat" where
  "nesting (Array vs) = Suc (foldr max (map nesting vs) 0)"
| "nesting (Object kvs) = Suc (foldr max (map (\<lambda>(k, v). nesting v) kvs) 0)"
| "nesting _ = 0"

lemma foldr_max_le: "x \<in> set xs \<Longrightarrow> x \<le> foldr max xs (0 :: nat)"
  by (induction xs) auto

lemma nesting_item: "v \<in> set vs \<Longrightarrow> nesting v < nesting (Array vs)"
  using foldr_max_le [of "nesting v" "map nesting vs"] by simp

lemma nesting_member: "(k, v) \<in> set kvs \<Longrightarrow> nesting v < nesting (Object kvs)"
  using foldr_max_le [of "nesting v" "map (\<lambda>(k, v). nesting v) kvs"] by force

end
