(* ===== verification/Variant_Ops.thy ===== *)
theory Variant_Ops
  imports Variant
begin

text \<open>
  Comparison, arithmetic and the conversions from and to C++ types of \<^verbatim>\<open>src/variant.cpp\<close> and
  \<^verbatim>\<open>fc/variant.hpp\<close>. Where the source writes outside an array, overflows a signed integer or never
  returns, the model says so.
\<close>

subsection \<open>Comparison\<close>

text \<open>Strings compare as sequences of unsigned characters.\<close>

fun bytes_less :: "bytes \<Rightarrow> bytes \<Rightarrow> bool" where
  "bytes_less _ [] = False"
| "bytes_less [] (_ # _) = True"
| "bytes_less (a # as) (b # bs) = (a < b \<or> a = b \<and> bytes_less as bs)"

definition both :: "'a result \<Rightarrow> 'a result \<Rightarrow> ('a \<Rightarrow> 'a \<Rightarrow> 'b) \<Rightarrow> 'b result" where
  "both x y f = and_then x (\<lambda>a. and_then y (\<lambda>b. Inr (f a b)))"

lemma get_array_size: "get_array a = Inr aa \<Longrightarrow> size_list size aa < size a"
  by (cases a) auto

function variant_eq :: "platform \<Rightarrow> variant \<Rightarrow> variant \<Rightarrow> bool result"
  and variants_eq :: "platform \<Rightarrow> variant list \<Rightarrow> variant list \<Rightarrow> bool result"
where
  "variant_eq p a b =
     (if is_string a \<or> is_string b then both (as_string p a) (as_string p b) (=)
      else if is_double a \<or> is_double b then both (as_double p a) (as_double p b) double_eq
      else if is_int64 a \<or> is_int64 b then both (as_int64 p a) (as_int64 p b) (=)
      else if is_uint64 a \<or> is_uint64 b then both (as_uint64 p a) (as_uint64 p b) (=)
      else if is_array a \<or> is_array b then
        and_then (get_array a) (\<lambda>aa. and_then (get_array b) (\<lambda>ba.
          if length aa = length ba then variants_eq p aa ba else Inr False))
      else Inr False)"
| "variants_eq p [] _ = Inr True"
| "variants_eq p (x # xs) ys =
     and_then (variant_eq p x (hd ys)) (\<lambda>e. if e then variants_eq p xs (tl ys) else Inr False)"
  by pat_completeness auto
termination
  by (relation "measure (case_sum (\<lambda>(p, a, b). size a) (\<lambda>(p, xs, ys). size_list size xs))")
    (auto dest: get_array_size)

definition variant_less :: "platform \<Rightarrow> variant \<Rightarrow> variant \<Rightarrow> bool result" where
  "variant_less p a b =
     (if is_string a \<or> is_string b then both (as_string p a) (as_string p b) bytes_less
      else if is_double a \<or> is_double b then both (as_double p a) (as_double p b) double_less
      else if is_int64 a \<or> is_int64 b then both (as_int64 p a) (as_int64 p b) (\<lambda>x y. sint x < sint y)
      else if is_uint64 a \<or> is_uint64 b then both (as_uint64 p a) (as_uint64 p b) (<)
      else Inl Assert_failed)"

definition variant_greater :: "platform \<Rightarrow> variant \<Rightarrow> variant \<Rightarrow> bool result" where
  "variant_greater p a b =
     (if is_string a \<or> is_string b then both (as_string p a) (as_string p b) (\<lambda>x y. bytes_less y x)
      else if is_double a \<or> is_double b then both (as_double p a) (as_double p b) (\<lambda>x y. double_less y x)
      else if is_int64 a \<or> is_int64 b then both (as_int64 p a) (as_int64 p b) (\<lambda>x y. sint x > sint y)
      else if is_uint64 a \<or> is_uint64 b then both (as_uint64 p a) (as_uint64 p b) (>)
      else Inl Assert_failed)"

definition variant_le :: "platform \<Rightarrow> variant \<Rightarrow> variant \<Rightarrow> bool result" where
  "variant_le p a b =
     (if is_string a \<or> is_string b then both (as_string p a) (as_string p b) (\<lambda>x y. \<not> bytes_less y x)
      else if is_double a \<or> is_double b then
        both (as_double p a) (as_double p b) (\<lambda>x y. double_less x y \<or> double_eq x y)
      else if is_int64 a \<or> is_int64 b then both (as_int64 p a) (as_int64 p b) (\<lambda>x y. sint x \<le> sint y)
      else if is_uint64 a \<or> is_uint64 b then both (as_uint64 p a) (as_uint64 p b) (\<le>)
      else Inl Assert_failed)"

definition variant_not :: "variant \<Rightarrow> bool result" where
  "variant_not a = and_then (as_bool a) (\<lambda>b. Inr (\<not> b))"

subsection \<open>Arithmetic\<close>

definition both_then :: "'a result \<Rightarrow> 'a result \<Rightarrow> ('a \<Rightarrow> 'a \<Rightarrow> 'b result) \<Rightarrow> 'b result" where
  "both_then x y f = and_then x (\<lambda>a. and_then y (\<lambda>b. f a b))"

text \<open>A signed 64-bit result: outside the range the behaviour is undefined.\<close>

definition signed64 :: "int \<Rightarrow> variant result" where
  "signed64 i = (if - (2 ^ 63) \<le> i \<and> i < 2 ^ 63 then Inr (Int64 (of_int i)) else Inl Undefined_behaviour)"

text \<open>
  The array branch of every operator assigns to the elements of a vector for which space was only
  reserved, so that the first assignment is already outside the vector.
\<close>

definition array_operands :: "variant list \<Rightarrow> variant list \<Rightarrow> variant result" where
  "array_operands aa ba = (if max (length aa) (length ba) = 0 then Inr (Array []) else Inl Undefined_behaviour)"

definition variant_add :: "platform \<Rightarrow> variant \<Rightarrow> variant \<Rightarrow> variant result" where
  "variant_add p a b =
     (if is_array a \<and> is_array b then both_then (get_array a) (get_array b) array_operands
      else if is_string a \<or> is_string b then both (as_string p a) (as_string p b) (\<lambda>x y. String (x @ y))
      else if is_double a \<or> is_double b then both (as_double p a) (as_double p b) (\<lambda>x y. Double (double_plus p x y))
      else if is_int64 a \<or> is_int64 b then both_then (as_int64 p a) (as_int64 p b) (\<lambda>x y. signed64 (sint x + sint y))
      else if is_uint64 a \<or> is_uint64 b then both (as_uint64 p a) (as_uint64 p b) (\<lambda>x y. Uint64 (x + y))
      else Inl Assert_failed)"

text \<open>
  Subtraction of strings converts both to variants and calls itself; \<open>None\<close> is a call that has not
  returned after the given number of nested calls.
\<close>

fun variant_sub :: "nat \<Rightarrow> platform \<Rightarrow> variant \<Rightarrow> variant \<Rightarrow> variant result option" where
  "variant_sub 0 p a b = None"
| "variant_sub (Suc n) p a b =
     (if is_array a \<and> is_array b then Some (both_then (get_array a) (get_array b) array_operands)
      else if is_string a \<or> is_string b then
        (case as_string p a of Inl e \<Rightarrow> Some (Inl e)
         | Inr x \<Rightarrow> (case as_string p b of Inl e \<Rightarrow> Some (Inl e)
             | Inr y \<Rightarrow> variant_sub n p (String x) (String y)))
      else if is_double a \<or> is_double b then
        Some (both (as_double p a) (as_double p b) (\<lambda>x y. Double (double_minus p x y)))
      else if is_int64 a \<or> is_int64 b then
        Some (both_then (as_int64 p a) (as_int64 p b) (\<lambda>x y. signed64 (sint x - sint y)))
      else if is_uint64 a \<or> is_uint64 b then Some (both (as_uint64 p a) (as_uint64 p b) (\<lambda>x y. Uint64 (x - y)))
      else Some (Inl Assert_failed))"

definition variant_mul :: "platform \<Rightarrow> variant \<Rightarrow> variant \<Rightarrow> variant result" where
  "variant_mul p a b =
     (if is_double a \<or> is_double b then both (as_double p a) (as_double p b) (\<lambda>x y. Double (double_times p x y))
      else if is_int64 a \<or> is_int64 b then both_then (as_int64 p a) (as_int64 p b) (\<lambda>x y. signed64 (sint x * sint y))
      else if is_uint64 a \<or> is_uint64 b then both (as_uint64 p a) (as_uint64 p b) (\<lambda>x y. Uint64 (x * y))
      else if is_array a \<and> is_array b then both_then (get_array a) (get_array b) array_operands
      else Inl Assert_failed)"

text \<open>C++ division truncates toward zero; a zero divisor is undefined.\<close>

definition truncated_div :: "int \<Rightarrow> int \<Rightarrow> int" where
  "truncated_div x y = sgn x * sgn y * (\<bar>x\<bar> div \<bar>y\<bar>)"

definition variant_div :: "platform \<Rightarrow> variant \<Rightarrow> variant \<Rightarrow> variant result" where
  "variant_div p a b =
     (if is_double a \<or> is_double b then both (as_double p a) (as_double p b) (\<lambda>x y. Double (double_divide p x y))
      else if is_int64 a \<or> is_int64 b then
        both_then (as_int64 p a) (as_int64 p b) (\<lambda>x y.
          if y = 0 then Inl Undefined_behaviour else signed64 (truncated_div (sint x) (sint y)))
      else if is_uint64 a \<or> is_uint64 b then
        both_then (as_uint64 p a) (as_uint64 p b) (\<lambda>x y.
          if y = 0 then Inl Undefined_behaviour else Inr (Uint64 (x div y)))
      else if is_array a \<and> is_array b then both_then (get_array a) (get_array b) array_operands
      else Inl Assert_failed)"

subsection \<open>Conversion from and to C++ types\<close>

definition to_variant_uint8 :: "byte \<Rightarrow> variant" where "to_variant_uint8 x = Uint64 (ucast x)"
definition from_variant_uint8 :: "platform \<Rightarrow> variant \<Rightarrow> byte result" where
  "from_variant_uint8 p v = and_then (as_uint64 p v) (\<lambda>w. Inr (ucast w))"
definition to_variant_int8 :: "byte \<Rightarrow> variant" where "to_variant_int8 x = Int64 (scast x)"
definition from_variant_int8 :: "platform \<Rightarrow> variant \<Rightarrow> byte result" where
  "from_variant_int8 p v = and_then (as_int64 p v) (\<lambda>w. Inr (ucast w))"
definition to_variant_uint16 :: "u16 \<Rightarrow> variant" where "to_variant_uint16 x = Uint64 (ucast x)"
definition from_variant_uint16 :: "platform \<Rightarrow> variant \<Rightarrow> u16 result" where
  "from_variant_uint16 p v = and_then (as_uint64 p v) (\<lambda>w. Inr (ucast w))"
definition to_variant_int16 :: "u16 \<Rightarrow> variant" where "to_variant_int16 x = Int64 (scast x)"
definition from_variant_int16 :: "platform \<Rightarrow> variant \<Rightarrow> u16 result" where
  "from_variant_int16 p v = and_then (as_int64 p v) (\<lambda>w. Inr (ucast w))"
definition to_variant_uint32 :: "u32 \<Rightarrow> variant" where "to_variant_uint32 x = Uint64 (ucast x)"
definition from_variant_uint32 :: "platform \<Rightarrow> variant \<Rightarrow> u32 result" where
  "from_variant_uint32 p v = and_then (as_uint64 p v) (\<lambda>w. Inr (ucast w))"
definition to_variant_int32 :: "u32 \<Rightarrow> variant" where "to_variant_int32 x = Int64 (scast x)"
definition from_variant_int32 :: "platform \<Rightarrow> variant \<Rightarrow> u32 result" where
  "from_variant_int32 p v = and_then (as_int64 p v) (\<lambda>w. Inr (ucast w))"

definition to_variant_bytes :: "bytes \<Rightarrow> variant result" where
  "to_variant_bytes d =
     fc_assert (length d \<le> MAX_SIZE_OF_BYTE_ARRAYS)
       (Inr (String (if length d \<noteq> 0 then to_hex_vector d else [])))"

definition from_variant_bytes :: "variant \<Rightarrow> bytes result" where
  "from_variant_bytes v =
     and_then (get_string v) (\<lambda>str.
       fc_assert (length str \<le> 2 * MAX_SIZE_OF_BYTE_ARRAYS)
         (fc_assert (length str mod 2 = 0)
           (let vo = replicate (length str div 2) 0
            in if length vo \<noteq> 0
               then and_then (from_hex str vo) (\<lambda>(r, vo'). fc_assert (r = length vo') (Inr vo'))
               else Inr vo)))"

definition to_variant_blob :: "bytes \<Rightarrow> variant" where
  "to_variant_blob d = String (base64_encode d)"

definition from_variant_blob :: "platform \<Rightarrow> variant \<Rightarrow> bytes result" where
  "from_variant_blob p v = and_then (as_string p v) base64_decode"

text \<open>The element type enters through its own two conversions.\<close>

definition from_variant_optional :: "(variant \<Rightarrow> 'a result) \<Rightarrow> variant \<Rightarrow> 'a option result" where
  "from_variant_optional from v = (if is_null v then Inr None else and_then (from v) (\<lambda>x. Inr (Some x)))"

definition to_variant_vector :: "('a \<Rightarrow> variant) \<Rightarrow> 'a list \<Rightarrow> variant result" where
  "to_variant_vector to t = (if length t > MAX_NUM_ARRAY_ELEMENTS then Inl Std_range_error else Inr (Array (map to t)))"

fun convert_all :: "('v \<Rightarrow> 'a result) \<Rightarrow> 'v list \<Rightarrow> 'a list result" where
  "convert_all from [] = Inr []"
| "convert_all from (v # vs) = and_then (from v) (\<lambda>x. and_then (convert_all from vs) (\<lambda>xs. Inr (x # xs)))"

definition from_variant_vector :: "(variant \<Rightarrow> 'a result) \<Rightarrow> variant \<Rightarrow> 'a list result" where
  "from_variant_vector from v =
     and_then (get_array v) (\<lambda>vars.
       if length vars > MAX_NUM_ARRAY_ELEMENTS then Inl Std_range_error else convert_all from vars)"

definition to_variant_pair :: "('a \<Rightarrow> variant) \<Rightarrow> ('b \<Rightarrow> variant) \<Rightarrow> 'a \<times> 'b \<Rightarrow> variant" where
  "to_variant_pair ta tb t = Array [ta (fst t), tb (snd t)]"

definition from_variant_pair ::
  "(variant \<Rightarrow> 'a result) \<Rightarrow> (variant \<Rightarrow> 'b result) \<Rightarrow> variant \<Rightarrow> 'a \<times> 'b \<Rightarrow> ('a \<times> 'b) result" where
  "from_variant_pair fa fb v p =
     and_then (get_array v) (\<lambda>vars.
       and_then (if length vars > 0 then fa (vars ! 0) else Inr (fst p)) (\<lambda>x.
         and_then (if length vars > 1 then fb (vars ! 1) else Inr (snd p)) (\<lambda>y. Inr (x, y))))"

definition from_variant_array :: "(variant \<Rightarrow> 'a result) \<Rightarrow> nat \<Rightarrow> variant \<Rightarrow> 'a list result" where
  "from_variant_array from n v =
     and_then (get_array v) (\<lambda>vars.
       convert_all (\<lambda>i. and_then i from) (map (\<lambda>i. if i < length vars then Inr (vars ! i) else Inl Std_out_of_range) [0..<n]))"

text \<open>Ordered sets and maps are kept as sorted lists; an element of a map is read into a default pair.\<close>

definition to_variant_set :: "('a \<Rightarrow> variant) \<Rightarrow> 'a list \<Rightarrow> variant result" where
  "to_variant_set to t = (if length t > MAX_NUM_ARRAY_ELEMENTS then Inl Std_range_error else Inr (Array (map to t)))"

definition from_variant_set :: "(variant \<Rightarrow> 'a::linorder result) \<Rightarrow> variant \<Rightarrow> 'a list result" where
  "from_variant_set from v =
     and_then (get_array v) (\<lambda>vars.
       if length vars > MAX_NUM_ARRAY_ELEMENTS then Inl Std_range_error
       else and_then (convert_all from vars) (\<lambda>xs. Inr (fold set_insert xs [])))"

definition to_variant_map :: "('k \<Rightarrow> variant) \<Rightarrow> ('v \<Rightarrow> variant) \<Rightarrow> ('k \<times> 'v) list \<Rightarrow> variant result" where
  "to_variant_map tk tv t =
     (if length t > MAX_NUM_ARRAY_ELEMENTS then Inl Std_range_error else Inr (Array (map (to_variant_pair tk tv) t)))"

definition from_variant_map ::
  "(variant \<Rightarrow> 'k::linorder result) \<Rightarrow> (variant \<Rightarrow> 'v result) \<Rightarrow> 'k \<times> 'v \<Rightarrow> variant \<Rightarrow> ('k \<times> 'v) list result" where
  "from_variant_map fk fv d v =
     and_then (get_array v) (\<lambda>vars.
       if length vars > MAX_NUM_ARRAY_ELEMENTS then Inl Std_range_error
       else and_then (convert_all (\<lambda>x. from_variant_pair fk fv x d) vars) (\<lambda>xs. Inr (fold map_insert xs [])))"

subsection \<open>Lemmas\<close>

lemmas kind_defs = is_null_def is_string_def is_bool_def is_double_def is_uint64_def is_int64_def is_object_def
  is_array_def is_blob_def

declare variant_eq.simps [simp del]

lemma convert_all_map:
  "(\<And>x. x \<in> set xs \<Longrightarrow> from (to x) = Inr x) \<Longrightarrow> convert_all from (map to xs) = Inr xs"
  by (induction xs) simp_all

lemma to_hex_length: "length d < 2 ^ 32 \<Longrightarrow> length (to_hex_vector d) = 2 * length d"
  by (simp add: to_hex_vector_eq length_concat sum_list_triv hex_pair_def o_def)

lemma decode_loop_padded:
  "decode_loop chars (int (length s) + 1) arr (s @ [0x3d]) = decode_loop chars (int (length s)) arr s"
  by (induction s arbitrary: arr) (simp_all add: Let_def algebra_simps)

lemma base64_decode_padded: "length s < 2 ^ 31 - 1 \<Longrightarrow> base64_decode (s @ [0x3d]) = base64_decode s"
  using decode_loop_padded [of base64_chars s "[]"]
    sint_of_nat_u32 [of "length s + 1"]
  by (simp add: base64_decode_def base64_decode_impl_def sint_of_nat_u32 add.commute)

lemma base64_encode_length: "length d < 2 ^ 32 \<Longrightarrow> length (base64_encode d) = 4 * ((length d + 2) div 3)"
  by (simp add: base64_encode_def base64_encode_impl_def unat_of_nat b64.length_encode_loop)

lemma widened_back:
  "LENGTH('a) \<le> LENGTH('b) \<Longrightarrow> ucast (ucast (a :: 'a::len word) :: 'b::len word) = a"
  "LENGTH('a) \<le> LENGTH('b) \<Longrightarrow> ucast (scast (a :: 'a::len word) :: 'b::len word) = a"
  by (rule bit_word_eqI, auto simp: bit_simps)+

lemma from_variant_hex:
  assumes "length d \<le> MAX_SIZE_OF_BYTE_ARRAYS"
  shows "from_variant_bytes (String (if length d \<noteq> 0 then to_hex_vector d else [])) = Inr d"
proof -
  have n: "length d < 2 ^ 32" using assms by (simp add: MAX_SIZE_OF_BYTE_ARRAYS_def)
  then have l: "length (to_hex_vector d) = 2 * length d" by (rule to_hex_length)
  have "from_hex (to_hex_vector d) (replicate (length d) 0) = Inr (length d, d)"
    using from_hex_pairs [of d "length d"] n by (simp add: from_hex_def to_hex_vector_eq)
  then show ?thesis using assms l by (simp add: from_variant_bytes_def Let_def)
qed

subsection \<open>A concrete platform\<close>

text \<open>Decimal casts with the range checks of \<^verbatim>\<open>lexical_cast\<close>, and doubles that are never converted.\<close>

definition read_uint64 :: "bytes \<Rightarrow> u64 option" where
  "read_uint64 s =
     (if s \<noteq> [] \<and> list_all is_digit s \<and> digits_value 0 s < 2 ^ 64 then Some (of_nat (digits_value 0 s)) else None)"

definition read_int64 :: "bytes \<Rightarrow> u64 option" where
  "read_int64 s =
     (case s of
        [] \<Rightarrow> None
      | c # cs \<Rightarrow>
          if c = 0x2d then
            if cs \<noteq> [] \<and> list_all is_digit cs \<and> digits_value 0 cs \<le> 2 ^ 63 then Some (- of_nat (digits_value 0 cs)) else None
          else if list_all is_digit s \<and> digits_value 0 s < 2 ^ 63 then Some (of_nat (digits_value 0 s)) else None)"

definition decimal_platform :: platform where
  "decimal_platform =
     \<lparr>lex_int64 = read_int64, lex_uint64 = read_uint64, lex_double = (\<lambda>_. None),
      show_int64 = (\<lambda>w. dec_int (sint w)), show_uint64 = (\<lambda>w. dec (unat w)), show_double = (\<lambda>_. ascii ''0.0''),
      double_to_int64 = (\<lambda>_. None), double_to_uint64 = (\<lambda>_. None), double_of_int64 = (\<lambda>_. 0),
      double_of_uint64 = (\<lambda>_. 0), double_plus = (\<lambda>_ _. 0), double_minus = (\<lambda>_ _. 0), double_times = (\<lambda>_ _. 0),
      double_divide = (\<lambda>_ _. 0)\<rparr>"

lemma read_uint64_dec: "read_uint64 (dec (unat w)) = Some w"
  using word_unat_lt [of w] by (simp add: read_uint64_def dec_digits dec_value)

lemma dec_hd_not_minus: "dec n = c # cs \<Longrightarrow> c \<noteq> 0x2d"
  using dec_digits [of n] by (auto simp: is_digit_def)

lemma read_int64_dec: "read_int64 (dec_int (sint w)) = Some w"
proof (cases "sint w < 0")
  case True
  have "- sint w \<le> 2 ^ 63" using sint_ge [of w] by simp
  then have "nat (- sint w) \<le> 2 ^ 63" by (simp add: nat_le_iff)
  moreover have "- of_nat (nat (- sint w)) = w" using True by simp
  ultimately show ?thesis using True by (simp add: dec_int_def read_int64_def dec_digits dec_value)
next
  case False
  have "nat (sint w) < 2 ^ 63" using sint_lt [of w] False by (simp add: nat_less_iff)
  moreover obtain c cs where "dec (nat (sint w)) = c # cs" using dec_not_nil by (cases "dec (nat (sint w))") auto
  moreover have "of_nat (nat (sint w)) = w" using False by simp
  ultimately show ?thesis
    using False dec_hd_not_minus [of "nat (sint w)" c cs] dec_digits [of "nat (sint w)"] dec_value [of "nat (sint w)"]
    by (simp add: dec_int_def read_int64_def)
qed

lemma decimal_platform_casts: "decimal_casts decimal_platform"
  by (simp add: decimal_casts_def decimal_platform_def read_uint64_dec read_int64_dec)

subsection \<open>Properties\<close>



fun self_equal :: "variant \<Rightarrow> bool" where
  "self_equal (String _) = True"
| "self_equal (Int64 _) = True"
| "self_equal (Uint64 _) = True"
| "self_equal (Double d) = (\<not> double_nan d)"
| "self_equal (Array a) = list_all self_equal a"
| "self_equal _ = False"

text \<open>
  What \<^verbatim>\<open>operator==\<close> says of a variant and itself, for every variant: strings, integers, doubles
  other than not-a-number, and arrays of such are equal to themselves, while a null, a boolean, a blob
  and an object never are, and so no array that contains one.
\<close>

lemma variant_eq_self: "variant_eq p v v = Inr (self_equal v)"
proof (induction v)
  case (Array a)
  have "(\<And>x. x \<in> set a \<Longrightarrow> variant_eq p x x = Inr (self_equal x)) \<Longrightarrow>
      variants_eq p a a = Inr (list_all self_equal a)"
    by (induction a) auto
  with Array show ?case by (simp add: variant_eq.simps [of p "Array a"] kind_defs)
qed (simp_all add: variant_eq.simps kind_defs both_def double_eq_def)

text \<open>
  Where the operators go wrong: adding, subtracting, multiplying or dividing two arrays of
  which the first is not empty writes outside the result, subtracting strings never returns, and a
  signed number compares with an unsigned one of \<open>2 ^ 63\<close> or more as if that were negative.
\<close>

lemma variant_operators_gaps:
  "variant_add p (Array (x # xs)) (Array ys) = Inl Undefined_behaviour \<and>
   variant_sub (Suc n) p (Array (x # xs)) (Array ys) = Some (Inl Undefined_behaviour) \<and>
   variant_mul p (Array (x # xs)) (Array ys) = Inl Undefined_behaviour \<and>
   variant_div p (Array (x # xs)) (Array ys) = Inl Undefined_behaviour \<and>
   variant_sub n p (String a) (String b) = None \<and>
   variant_less p (Int64 1) (Uint64 (2 ^ 63)) = Inr False"
proof -
  have "variant_sub n p (String a) (String b) = None" by (induction n) (simp_all add: kind_defs)
  moreover have "variant_less p (Int64 1) (Uint64 (2 ^ 63)) = Inr False" by (simp add: variant_less_def kind_defs both_def)
  ultimately show ?thesis
    by (simp add: variant_add_def variant_mul_def variant_div_def kind_defs both_then_def array_operands_def)
qed

end
