(* ===== verification/Variant_Object.thy ===== *)
theory Variant_Object
  imports Variant
begin

text \<open>
  The ordered dictionaries \<^verbatim>\<open>variant_object\<close> and \<^verbatim>\<open>mutable_variant_object\<close> of \<^verbatim>\<open>src/variant_object.cpp\<close>. Both hold
  a pointer to a vector of entries, the first a shared and the second a unique one, and several of
  their operations differ only in whether they copy the pointer or the vector. The model therefore has a store
  of vectors; a handle is the address it holds, or none after a move. The store has no
  deallocation: nothing in the library keeps an address beyond the life of the handles to it.
\<close>

type_synonym entries = "(bytes \<times> variant) list"
type_synonym handle = "nat option"

record store =
  cells :: "nat \<Rightarrow> entries"
  next_cell :: nat

definition alloc :: "entries \<Rightarrow> store \<Rightarrow> handle \<times> store" where
  "alloc es h = (Some (next_cell h), h\<lparr>cells := (cells h)(next_cell h := es), next_cell := next_cell h + 1\<rparr>)"

definition deref :: "handle \<Rightarrow> store \<Rightarrow> entries result" where
  "deref q h = (case q of None \<Rightarrow> Inl Undefined_behaviour | Some a \<Rightarrow> Inr (cells h a))"

definition update :: "handle \<Rightarrow> entries \<Rightarrow> store \<Rightarrow> store result" where
  "update q es h =
     (case q of None \<Rightarrow> Inl Undefined_behaviour | Some a \<Rightarrow> Inr (h\<lparr>cells := (cells h)(a := es)\<rparr>))"

definition not_null :: "handle \<Rightarrow> 'a result \<Rightarrow> 'a result" where
  "not_null q r = fc_assert (q \<noteq> None) r"

subsection \<open>Searching a vector of entries\<close>

text \<open>\<^verbatim>\<open>find( const char* )\<close>: the position of the first entry with the key, or the number of entries.\<close>

fun find_from :: "bytes \<Rightarrow> entries \<Rightarrow> nat" where
  "find_from key [] = 0"
| "find_from key ((k, v) # es) = (if k = key then 0 else Suc (find_from key es))"

fun erase_first :: "bytes \<Rightarrow> entries \<Rightarrow> entries" where
  "erase_first key [] = []"
| "erase_first key ((k, v) # es) = (if k = key then es else (k, v) # erase_first key es)"

subsection \<open>Immutable objects\<close>

definition vo_begin :: "handle \<Rightarrow> store \<Rightarrow> entries result" where
  "vo_begin q h = not_null q (deref q h)"

definition vo_find :: "handle \<Rightarrow> bytes \<Rightarrow> store \<Rightarrow> nat result" where
  "vo_find q key h = and_then (vo_begin q h) (\<lambda>es. Inr (find_from (c_str key) es))"

definition vo_at :: "handle \<Rightarrow> bytes \<Rightarrow> store \<Rightarrow> variant result" where
  "vo_at q key h =
     and_then (vo_find q key h) (\<lambda>i. and_then (deref q h) (\<lambda>es.
       if i \<noteq> length es then Inr (snd (es ! i)) else Inl Key_not_found))"

definition vo_size :: "handle \<Rightarrow> store \<Rightarrow> nat result" where
  "vo_size q h = and_then (deref q h) (\<lambda>es. Inr (length es))"

definition vo_new :: "store \<Rightarrow> handle \<times> store" where
  "vo_new h = alloc [] h"

definition vo_new_pair :: "bytes \<Rightarrow> variant \<Rightarrow> store \<Rightarrow> handle \<times> store" where
  "vo_new_pair key val h = alloc [(key, val)] h"

definition vo_copy :: "handle \<Rightarrow> store \<Rightarrow> (handle \<times> store) result" where
  "vo_copy q h = not_null q (Inr (q, h))"

text \<open>Move construction returns the new handle and what the source holds afterwards.\<close>

definition vo_move :: "handle \<Rightarrow> store \<Rightarrow> (handle \<times> handle \<times> store) result" where
  "vo_move q h = (let (src, h') = alloc [] h in not_null q (Inr (q, src, h')))"

definition vo_of_mutable :: "handle \<Rightarrow> store \<Rightarrow> (handle \<times> store) result" where
  "vo_of_mutable m h = and_then (deref m h) (\<lambda>es. Inr (alloc es h))"

definition vo_of_mutable_move :: "handle \<Rightarrow> store \<Rightarrow> (handle \<times> handle \<times> store) result" where
  "vo_of_mutable_move m h = not_null m (Inr (m, None, h))"

text \<open>
  Assignments return what the two handles hold afterwards; \<open>same\<close> says that source and
  target are one object.
\<close>

definition vo_assign_move :: "bool \<Rightarrow> handle \<Rightarrow> handle \<Rightarrow> store \<Rightarrow> (handle \<times> handle \<times> store) result" where
  "vo_assign_move same q r h = (if same then Inr (q, r, h) else not_null r (Inr (r, q, h)))"

definition vo_assign :: "bool \<Rightarrow> handle \<Rightarrow> handle \<Rightarrow> store \<Rightarrow> (handle \<times> store) result" where
  "vo_assign same q r h = (if same then Inr (q, h) else Inr (r, h))"

definition vo_assign_mutable_move :: "handle \<Rightarrow> handle \<Rightarrow> store \<Rightarrow> (handle \<times> handle \<times> store) result" where
  "vo_assign_mutable_move q m h = (let (src, h') = alloc [] h in Inr (m, src, h'))"

definition vo_assign_mutable :: "handle \<Rightarrow> handle \<Rightarrow> store \<Rightarrow> (handle \<times> store) result" where
  "vo_assign_mutable q m h = and_then (deref m h) (\<lambda>es. and_then (update q es h) (\<lambda>h'. Inr (q, h')))"

definition vo_estimated_size :: "handle \<Rightarrow> store \<Rightarrow> nat result" where
  "vo_estimated_size q h =
     and_then (deref q h) (\<lambda>es. Inr (16 + 24 + sum_list (map (\<lambda>(k, v). length k + 32 + estimated_size v) es)))"

subsection \<open>Mutable objects\<close>

definition mvo_find :: "handle \<Rightarrow> bytes \<Rightarrow> store \<Rightarrow> nat result" where
  "mvo_find m key h = and_then (deref m h) (\<lambda>es. Inr (find_from (c_str key) es))"

definition mvo_at_const :: "handle \<Rightarrow> bytes \<Rightarrow> store \<Rightarrow> variant result" where
  "mvo_at_const m key h =
     and_then (mvo_find m key h) (\<lambda>i. and_then (deref m h) (\<lambda>es.
       if i \<noteq> length es then Inr (snd (es ! i)) else Inl Key_not_found))"

text \<open>The reference that \<^verbatim>\<open>operator[]\<close> returns is the position of the entry, inserted if it is missing.\<close>

definition mvo_at :: "handle \<Rightarrow> bytes \<Rightarrow> store \<Rightarrow> (nat \<times> store) result" where
  "mvo_at m key h =
     and_then (mvo_find m key h) (\<lambda>i. and_then (deref m h) (\<lambda>es.
       if i \<noteq> length es then Inr (i, h)
       else and_then (update m (es @ [(c_str key, Null)]) h) (\<lambda>h'. Inr (length es, h'))))"

definition mvo_size :: "handle \<Rightarrow> store \<Rightarrow> nat result" where
  "mvo_size m h = and_then (deref m h) (\<lambda>es. Inr (length es))"

definition mvo_new :: "store \<Rightarrow> handle \<times> store" where
  "mvo_new h = alloc [] h"

definition mvo_new_pair :: "bytes \<Rightarrow> variant \<Rightarrow> store \<Rightarrow> handle \<times> store" where
  "mvo_new_pair key val h = alloc [(key, val)] h"

definition mvo_of_object :: "handle \<Rightarrow> store \<Rightarrow> (handle \<times> store) result" where
  "mvo_of_object q h = and_then (deref q h) (\<lambda>es. Inr (alloc es h))"

definition mvo_copy :: "handle \<Rightarrow> store \<Rightarrow> (handle \<times> store) result" where
  "mvo_copy m h = and_then (deref m h) (\<lambda>es. Inr (alloc es h))"

definition mvo_move :: "handle \<Rightarrow> store \<Rightarrow> handle \<times> handle \<times> store" where
  "mvo_move m h = (m, None, h)"

definition mvo_assign_object :: "handle \<Rightarrow> handle \<Rightarrow> store \<Rightarrow> store result" where
  "mvo_assign_object m q h = and_then (deref q h) (\<lambda>es. update m es h)"

definition mvo_assign_move :: "bool \<Rightarrow> handle \<Rightarrow> handle \<Rightarrow> store \<Rightarrow> handle \<times> handle \<times> store" where
  "mvo_assign_move same m n h = (if same then (m, n, h) else (n, None, h))"

definition mvo_assign :: "bool \<Rightarrow> handle \<Rightarrow> handle \<Rightarrow> store \<Rightarrow> store result" where
  "mvo_assign same m n h = (if same then Inr h else and_then (deref n h) (\<lambda>es. update m es h))"

definition mvo_erase :: "handle \<Rightarrow> bytes \<Rightarrow> store \<Rightarrow> store result" where
  "mvo_erase m key h = and_then (deref m h) (\<lambda>es. update m (erase_first key es) h)"

definition mvo_set :: "handle \<Rightarrow> bytes \<Rightarrow> variant \<Rightarrow> store \<Rightarrow> store result" where
  "mvo_set m key var h =
     and_then (mvo_find m key h) (\<lambda>i. and_then (deref m h) (\<lambda>es.
       if i \<noteq> length es then update m (es[i := (fst (es ! i), var)]) h
       else update m (es @ [(key, var)]) h))"

text \<open>\<^verbatim>\<open>operator()( key, var )\<close> appends without looking for the key; the others set entry by entry.\<close>

definition mvo_append :: "handle \<Rightarrow> bytes \<Rightarrow> variant \<Rightarrow> store \<Rightarrow> store result" where
  "mvo_append m key var h = and_then (deref m h) (\<lambda>es. update m (es @ [(key, var)]) h)"

definition mvo_add_object :: "handle \<Rightarrow> handle \<Rightarrow> store \<Rightarrow> store result" where
  "mvo_add_object m q h =
     and_then (vo_begin q h) (\<lambda>es. each_then (\<lambda>(k, v). mvo_set m k v) es h)"

definition mvo_add_mutable :: "bool \<Rightarrow> handle \<Rightarrow> handle \<Rightarrow> store \<Rightarrow> store result" where
  "mvo_add_mutable same m n h =
     (if same then Inr h else and_then (deref n h) (\<lambda>es. each_then (\<lambda>(k, v). mvo_set m k v) es h))"

text \<open>\<^verbatim>\<open>from_variant\<close> copies the entries of the variant into the object.\<close>

definition mvo_from_variant :: "handle \<Rightarrow> variant \<Rightarrow> store \<Rightarrow> store result" where
  "mvo_from_variant m v h = and_then (get_object v) (\<lambda>es. update m es h)"

subsection \<open>What a dictionary promises\<close>

text \<open>
  The contract of a dictionary over legal keys, and what follows for a loop that puts the entries of a
  list one by one: the last entry for a key wins.
\<close>

locale dictionary =
  fixes find :: "'d \<Rightarrow> 'k \<Rightarrow> 'v option"
    and put :: "'k \<Rightarrow> 'v \<Rightarrow> 'd \<Rightarrow> 'd"
    and drop_key :: "'k \<Rightarrow> 'd \<Rightarrow> 'd"
    and legal :: "'k \<Rightarrow> bool"
    and invar :: "'d \<Rightarrow> bool"
  assumes find_put: "legal k \<Longrightarrow> find (put k v d) = (find d)(k \<mapsto> v)"
    and find_drop: "invar d \<Longrightarrow> find (drop_key k d) = (find d)(k := None)"
    and invar_put: "legal k \<Longrightarrow> invar d \<Longrightarrow> invar (put k v d)"
    and invar_drop: "invar d \<Longrightarrow> invar (drop_key k d)"
begin

definition put_all :: "('k \<times> 'v) list \<Rightarrow> 'd \<Rightarrow> 'd" where
  "put_all es d = fold (\<lambda>(k, v). put k v) es d"

lemma find_put_all: "list_all (\<lambda>(k, v). legal k) es \<Longrightarrow> find (put_all es d) = find d ++ map_of (rev es)"
proof (induction es arbitrary: d)
  case (Cons e es)
  obtain k v where e: "e = (k, v)" by (cases e)
  have "find (put_all (e # es) d) = find (put k v d) ++ map_of (rev es)"
    using Cons.IH [of "put k v d"] Cons.prems by (simp add: e put_all_def)
  also have "find (put k v d) = (find d)(k \<mapsto> v)" using Cons.prems by (simp add: e find_put)
  also have "(find d)(k \<mapsto> v) ++ map_of (rev es) = find d ++ map_of (rev (e # es))"
    by (auto simp: e fun_eq_iff map_add_def split: option.splits)
  finally show ?case .
qed (simp add: put_all_def)

lemma invar_put_all: "list_all (\<lambda>(k, v). legal k) es \<Longrightarrow> invar d \<Longrightarrow> invar (put_all es d)"
  by (induction es arbitrary: d) (auto simp: put_all_def invar_put)

end

subsection \<open>Vectors of entries as dictionaries\<close>

definition entries_set :: "bytes \<Rightarrow> variant \<Rightarrow> entries \<Rightarrow> entries" where
  "entries_set key var es =
     (let i = find_from (c_str key) es
      in if i \<noteq> length es then es[i := (fst (es ! i), var)] else es @ [(key, var)])"

definition unique_keys :: "entries \<Rightarrow> bool" where
  "unique_keys es \<longleftrightarrow> distinct (map fst es)"

definition no_nul :: "bytes \<Rightarrow> bool" where
  "no_nul key \<longleftrightarrow> 0 \<notin> set key"

lemma c_str_no_nul: "no_nul key \<Longrightarrow> c_str key = key"
  by (auto simp: c_str_def no_nul_def takeWhile_eq_all_conv)

lemma find_from_end: "find_from key es = length es \<longleftrightarrow> key \<notin> fst ` set es"
  by (induction key es rule: find_from.induct) auto

lemma find_from_hit: "key \<in> fst ` set es \<Longrightarrow> find_from key es < length es \<and> fst (es ! find_from key es) = key"
  by (induction key es rule: find_from.induct) auto

lemma find_from_value: "key \<in> fst ` set es \<Longrightarrow> map_of es key = Some (snd (es ! find_from key es))"
  by (induction key es rule: find_from.induct) auto

lemma map_of_update_first:
  "key \<in> fst ` set es \<Longrightarrow> map_of (es[find_from key es := (key, v)]) = (map_of es)(key \<mapsto> v)"
proof (induction key es rule: find_from.induct)
  case (2 key k w es)
  show ?case
  proof (cases "k = key")
    case False
    with 2 have "key \<in> fst ` set es" by auto
    from 2(1) [OF False this] False show ?thesis by (auto simp: fun_eq_iff)
  qed (simp add: fun_eq_iff)
qed simp

lemma entries_set_find: "no_nul key \<Longrightarrow> map_of (entries_set key v es) = (map_of es)(key \<mapsto> v)"
proof (cases "key \<in> fst ` set es")
  case True
  assume "no_nul key"
  with True show ?thesis
    using find_from_hit [OF True] by (simp add: entries_set_def c_str_no_nul map_of_update_first)
next
  case False
  assume "no_nul key"
  moreover have "map_of es key = None" using False by (simp add: map_of_eq_None_iff)
  ultimately show ?thesis
    using False find_from_end [of key es]
    by (auto simp: entries_set_def c_str_no_nul map_add_def fun_eq_iff split: option.splits)
qed

lemma entries_set_keys:
  assumes "no_nul key"
  shows "map fst (entries_set key v es) = map fst es @ (if key \<in> fst ` set es then [] else [key])"
proof (cases "key \<in> fst ` set es")
  case True
  let ?i = "find_from key es"
  note hit = find_from_hit [OF True]
  then have "map fst (es[?i := (fst (es ! ?i), v)]) = map fst es"
    using list_update_id [of "map fst es" ?i] by (simp add: map_update)
  with True hit assms show ?thesis by (simp add: entries_set_def c_str_no_nul)
next
  case False
  with assms find_from_end [of key es] show ?thesis by (simp add: entries_set_def c_str_no_nul)
qed

lemma erase_first_keys: "map fst (erase_first key es) = remove1 key (map fst es)"
  by (induction key es rule: erase_first.induct) auto

lemma erase_first_find: "unique_keys es \<Longrightarrow> map_of (erase_first key es) = (map_of es)(key := None)"
proof (induction key es rule: erase_first.induct)
  case (2 key k v es)
  then show ?case by (auto simp: unique_keys_def fun_eq_iff map_of_eq_None_iff)
qed simp

interpretation object_entries: dictionary map_of entries_set erase_first no_nul unique_keys
  by unfold_locales
    (auto simp: entries_set_find erase_first_find unique_keys_def entries_set_keys erase_first_keys)

subsection \<open>Properties\<close>

lemma mvo_set_eq:
  "mvo_set (Some a) key v h = Inr (h\<lparr>cells := (cells h)(a := entries_set key v (cells h a))\<rparr>)"
  by (simp add: mvo_set_def mvo_find_def deref_def update_def entries_set_def Let_def)

lemma mvo_set_each:
  "each_then (\<lambda>(k, v). mvo_set (Some a) k v) es h =
     Inr (h\<lparr>cells := (cells h)(a := object_entries.put_all es (cells h a))\<rparr>)"
proof (induction es arbitrary: h)
  case (Cons e es)
  then show ?case by (cases e) (simp add: mvo_set_eq object_entries.put_all_def cong: if_cong)
qed (simp add: object_entries.put_all_def)

lemma find_from_lookup:
  "(if find_from key es \<noteq> length es then Inr (snd (es ! find_from key es)) else Inl Key_not_found) =
     (case map_of es key of Some x \<Rightarrow> Inr x | None \<Rightarrow> Inl Key_not_found)"
proof (cases "key \<in> fst ` set es")
  case True
  then show ?thesis using find_from_end [of key es] find_from_value [OF True] by simp
next
  case False
  then show ?thesis using find_from_end [of key es] by (simp add: map_of_eq_None_iff [symmetric])
qed


definition sample_store :: store where
  "sample_store = \<lparr>cells = (\<lambda>a. if a = 0 then [(ascii ''a'', Bool True)] else [(ascii ''b'', Null)]), next_cell = 2\<rparr>"


text \<open>
  Merging an object into a mutable one (\<^verbatim>\<open>operator()( const variant_object& )\<close>) overrides the map with
  the other object's, the last of several entries for one key winning, and keeps the keys unique.
\<close>

lemma merge_objects:
  assumes "list_all (\<lambda>(k, v). no_nul k) (cells h b)" and "unique_keys (cells h a)"
  shows "\<exists>es. mvo_add_object (Some a) (Some b) h = Inr (h\<lparr>cells := (cells h)(a := es)\<rparr>) \<and> unique_keys es \<and>
    map_of es = map_of (cells h a) ++ map_of (rev (cells h b))"
  using assms object_entries.find_put_all object_entries.invar_put_all
  by (intro exI [of _ "object_entries.put_all (cells h b) (cells h a)"])
    (simp add: mvo_add_object_def vo_begin_def not_null_def deref_def mvo_set_each)

text \<open>
  Sharing. An object built from a mutable one is a snapshot: later changes of the mutable
  object do not show in it. Assigning a mutable object to a copy of an object, however, changes the
  object it was copied from too, because the assignment writes through the shared vector.
\<close>

lemma object_sharing:
  assumes "a < next_cell h"
  shows "(\<exists>q h1 h2. vo_of_mutable (Some a) h = Inr (q, h1) \<and> mvo_set (Some a) k v h1 = Inr h2 \<and>
      vo_begin q h2 = Inr (cells h a)) \<and>
    (\<exists>q h1 h2. vo_copy (Some b) h = Inr (q, h1) \<and> vo_assign_mutable q (Some a) h1 = Inr (q, h2) \<and>
      vo_begin (Some b) h2 = Inr (cells h a))"
  using assms
  by (auto simp: vo_of_mutable_def vo_copy_def vo_assign_mutable_def mvo_set_eq deref_def update_def alloc_def
      vo_begin_def not_null_def)

end
