(* ===== verification/Raw_Variant.thy ===== *)
theory Raw_Variant
  imports Raw_Api Variant_Object
begin

text \<open>
  The binary form of variants, \<^verbatim>\<open>fc/io/raw_variant.hpp\<close>: a byte for the kind and then the value, packed by the
  overload for its type. Unpacking follows the nesting of the input without a limit; the model gives it
  a stack for a number of nested calls, and running out of it is undefined behaviour.
\<close>

definition type_number :: "type_id \<Rightarrow> nat" where
  "type_number t =
     (case t of null_type \<Rightarrow> 0 | int64_type \<Rightarrow> 1 | uint64_type \<Rightarrow> 2 | double_type \<Rightarrow> 3 | bool_type \<Rightarrow> 4
      | string_type \<Rightarrow> 5 | array_type \<Rightarrow> 6 | object_type \<Rightarrow> 7 | blob_type \<Rightarrow> 8)"

lemma pack_vector_cong [fundef_cong]:
  assumes "vs = ws" and "s = t" and "\<And>v u. v \<in> set ws \<Longrightarrow> p v u = q v u"
  shows "pack_vector wr p vs s = pack_vector wr q ws t"
proof -
  have "each_then p ws = each_then q ws" using assms(3) by (intro ext each_then_cong) auto
  then show ?thesis by (simp add: pack_vector_def assms(1,2))
qed

subsection \<open>Packing\<close>

text \<open>\<^verbatim>\<open>pack\<close> of a variant, with the members of \<^verbatim>\<open>variant_packer\<close> and \<^verbatim>\<open>pack\<close> of an object.\<close>

function pack_variant :: "'s writer \<Rightarrow> variant \<Rightarrow> 's \<Rightarrow> 's result" where
  "pack_variant wr v s =
     and_then (pack_scalar wr 1 (type_number (get_type v)) s) (\<lambda>s'.
       case v of
         Null \<Rightarrow> Inr s'
       | Int64 w \<Rightarrow> pack_scalar wr 8 (unat w) s'
       | Uint64 w \<Rightarrow> pack_scalar wr 8 (unat w) s'
       | Double d \<Rightarrow> pack_scalar wr 8 (unat d) s'
       | Bool b \<Rightarrow> pack_bool wr b s'
       | String str \<Rightarrow> pack_string wr str s'
       | Array vs \<Rightarrow> pack_vector wr (pack_variant wr) vs s'
       | Object kvs \<Rightarrow>
           and_then (pack_unsigned_int wr (of_nat (length kvs)) s')
             (\<lambda>s''. each_then (\<lambda>(k, x) u. and_then (pack_string wr k u) (pack_variant wr x)) kvs s'')
       | Blob d \<Rightarrow> pack_bytes wr d s')"
  by pat_completeness auto
termination
  by (relation "measure (\<lambda>(_, v, _). size v)") (auto simp: less_Suc_eq_le intro: size_list_estimation')

declare pack_variant.simps [simp del]

lemma pack_variant_kinds [simp]:
  "pack_variant wr Null s = and_then (pack_scalar wr 1 (type_number null_type) s) Inr"
  "pack_variant wr (Int64 w) s = and_then (pack_scalar wr 1 (type_number int64_type) s) (pack_scalar wr 8 (unat w))"
  "pack_variant wr (Uint64 w) s = and_then (pack_scalar wr 1 (type_number uint64_type) s) (pack_scalar wr 8 (unat w))"
  "pack_variant wr (Double w) s = and_then (pack_scalar wr 1 (type_number double_type) s) (pack_scalar wr 8 (unat w))"
  "pack_variant wr (Bool b) s = and_then (pack_scalar wr 1 (type_number bool_type) s) (pack_bool wr b)"
  "pack_variant wr (String str) s = and_then (pack_scalar wr 1 (type_number string_type) s) (pack_string wr str)"
  "pack_variant wr (Array vs) s =
     and_then (pack_scalar wr 1 (type_number array_type) s) (pack_vector wr (pack_variant wr) vs)"
  "pack_variant wr (Object kvs) s =
     and_then (pack_scalar wr 1 (type_number object_type) s) (\<lambda>s'.
       and_then (pack_unsigned_int wr (of_nat (length kvs)) s')
         (each_then (\<lambda>(k, x) u. and_then (pack_string wr k u) (pack_variant wr x)) kvs))"
  "pack_variant wr (Blob d) s = and_then (pack_scalar wr 1 (type_number blob_type) s) (pack_bytes wr d)"
  by (subst pack_variant.simps; simp)+

subsection \<open>Unpacking\<close>

text \<open>
  The loop of \<^verbatim>\<open>unpack\<close> of an object. \<^verbatim>\<open>reserve\<close> asks for memory for the number of entries that the input
  claims, up to \<open>2 ^ 32 - 1\<close>; the model has no limit on memory.
\<close>

fun unpack_entries :: "(bytes, 's) unpacker \<Rightarrow> (variant, 's) unpacker \<Rightarrow> nat \<Rightarrow> entries \<Rightarrow> (entries, 's) unpacker" where
  "unpack_entries k u 0 mvo s = Inr (mvo, s)"
| "unpack_entries k u (Suc n) mvo s =
     and_then (k s) (\<lambda>(key, s1). and_then (u s1) (\<lambda>(val, s2). unpack_entries k u n (entries_set key val mvo) s2))"

definition unpack_variant_object :: "'s reader \<Rightarrow> 's getter \<Rightarrow> (variant, 's) unpacker \<Rightarrow> (entries, 's) unpacker" where
  "unpack_variant_object rd gt u s =
     and_then (unpack_unsigned_int gt s) (\<lambda>(vs, s'). unpack_entries (unpack_string rd gt) u (unat vs) [] s')"

text \<open>
  The switch over the kind \<open>t\<close> that was read, with the unpacker for nested variants. The target \<open>v\<close> keeps
  its value when the kind is null; the elements of a vector start as null.
\<close>

definition unpack_kind :: "'s reader \<Rightarrow> 's getter \<Rightarrow> (variant, 's) unpacker \<Rightarrow> variant \<Rightarrow> nat \<Rightarrow> (variant, 's) unpacker" where
  "unpack_kind rd gt u v t s =
     (if t = 0 then Inr (v, s)
      else if t = 1 then and_then (unpack_scalar rd 8 s) (\<lambda>(x, s'). Inr (Int64 (of_nat x), s'))
      else if t = 2 then and_then (unpack_scalar rd 8 s) (\<lambda>(x, s'). Inr (Uint64 (of_nat x), s'))
      else if t = 3 then and_then (unpack_scalar rd 8 s) (\<lambda>(x, s'). Inr (Double (of_nat x), s'))
      else if t = 4 then and_then (unpack_bool rd s) (\<lambda>(x, s'). Inr (Bool x, s'))
      else if t = 5 then and_then (unpack_string rd gt s) (\<lambda>(x, s'). Inr (String x, s'))
      else if t = 6 then and_then (unpack_vector gt u s) (\<lambda>(x, s'). Inr (Array x, s'))
      else if t = 7 then and_then (unpack_variant_object rd gt u s) (\<lambda>(x, s'). Inr (Object x, s'))
      else if t = 8 then and_then (unpack_bytes rd gt s) (\<lambda>(x, s'). Inr (Blob x, s'))
      else Inl Parse_error)"

primrec unpack_variant :: "nat \<Rightarrow> 's reader \<Rightarrow> 's getter \<Rightarrow> variant \<Rightarrow> (variant, 's) unpacker" where
  "unpack_variant 0 rd gt v s = Inl Undefined_behaviour"
| "unpack_variant (Suc n) rd gt v s =
     and_then (unpack_scalar rd 1 s) (\<lambda>(t, s'). unpack_kind rd gt (unpack_variant n rd gt Null) v t s')"

text \<open>\<^verbatim>\<open>fc::raw::pack( v )\<close> and \<^verbatim>\<open>fc::raw::unpack\<close> at the type of variants.\<close>

definition pack_variant_vector :: "variant \<Rightarrow> bytes result" where
  "pack_variant_vector v =
     and_then (pack_variant ss_write v (ss_new 0)) (\<lambda>ps.
       let n = unat (ss_tellp ps)
       in if n \<ge> 2 ^ 63 then Inl Std_length_error
          else if n \<noteq> 0
          then and_then (pack_variant cs_write v (cs_new (replicate n 0))) (\<lambda>ds. Inr (cs_mem ds))
          else Inr [])"

definition unpack_variant_vector :: "nat \<Rightarrow> bytes \<Rightarrow> variant result" where
  "unpack_variant_vector n s = and_then (unpack_variant n cs_read cs_get Null (cs_new s)) (\<lambda>(tmp, _). Inr tmp)"

subsection \<open>The format\<close>

text \<open>What bytes a variant has, whatever the stream.\<close>

definition enc_entry :: "(variant \<Rightarrow> bytes result) \<Rightarrow> bytes \<times> variant \<Rightarrow> bytes result" where
  "enc_entry enc e = enc_pair enc_blob enc e"

lemma enc_entry_cong [fundef_cong]: "e = e' \<Longrightarrow> enc (snd e') = enc' (snd e') \<Longrightarrow> enc_entry enc e = enc_entry enc' e'"
  by (simp add: enc_entry_def enc_pair_def)

fun enc_body :: "variant \<Rightarrow> bytes result" where
  "enc_body Null = Inr []"
| "enc_body (Int64 w) = Inr (le_bytes 8 (unat w))"
| "enc_body (Uint64 w) = Inr (le_bytes 8 (unat w))"
| "enc_body (Double w) = Inr (le_bytes 8 (unat w))"
| "enc_body (Bool b) = enc_bool b"
| "enc_body (String s) = enc_blob s"
| "enc_body (Array vs) =
     fc_assert (length vs \<le> MAX_NUM_ARRAY_ELEMENTS) (enc_sized (length vs)
       (enc_list (\<lambda>v. and_then (enc_body v) (\<lambda>bs. Inr (of_nat (type_number (get_type v)) # bs))) vs))"
| "enc_body (Object kvs) =
     enc_sized (length kvs mod 2 ^ 32)
       (enc_list (enc_entry (\<lambda>v. and_then (enc_body v) (\<lambda>bs. Inr (of_nat (type_number (get_type v)) # bs)))) kvs)"
| "enc_body (Blob d) = enc_blob d"

definition enc_variant :: "variant \<Rightarrow> bytes result" where
  "enc_variant v = and_then (enc_body v) (\<lambda>bs. Inr (of_nat (type_number (get_type v)) # bs))"

lemma enc_body_Array: "enc_body (Array vs) = enc_seq enc_variant vs"
  by (simp add: enc_seq_def enc_variant_def [abs_def])

lemma enc_body_Object:
  "enc_body (Object kvs) = enc_sized (length kvs mod 2 ^ 32) (enc_list (enc_entry enc_variant) kvs)"
  by (simp add: enc_variant_def [abs_def])

declare enc_body.simps(7,8) [simp del]

text \<open>Induction over variants is by their nesting: an encoder or packer below a bound, and nothing above.\<close>

definition shallow :: "nat \<Rightarrow> (variant \<Rightarrow> 'a result) \<Rightarrow> variant \<Rightarrow> 'a result" where
  "shallow n f v = (if nesting v < n then f v else ill_typed)"

lemma enc_list_shallow:
  assumes "nesting (Array vs) < Suc n"
  shows "enc_seq (shallow n enc) vs = enc_seq enc vs"
proof -
  have "enc_list (shallow n enc) vs = enc_list enc vs"
    by (rule enc_list_cong) (use assms nesting_item [of _ vs] in \<open>fastforce simp: shallow_def\<close>)+
  then show ?thesis by (simp add: enc_seq_def)
qed

lemma enc_entries_shallow:
  assumes "nesting (Object kvs) < Suc n"
  shows "enc_list (enc_entry (shallow n enc)) kvs = enc_list (enc_entry enc) kvs"
  by (rule enc_list_cong)
    (use assms nesting_member [of _ _ kvs] in \<open>fastforce simp: shallow_def enc_entry_def enc_pair_def\<close>)+

lemma of_nat_mod_u32: "(of_nat (n mod 2 ^ 32) :: u32) = of_nat n"
  by (simp add: word_unat_eq_iff unat_of_nat)

context out_stream
begin

lemma pack_vector_shallow:
  assumes "nesting (Array vs) < Suc n"
  shows "pack_vector emit (\<lambda>v s. shallow n (\<lambda>v. p v s) v) vs s = pack_vector emit p vs s"
  by (rule pack_vector_cong) (use assms nesting_item [of _ vs] in \<open>fastforce simp: shallow_def\<close>)+

lemma each_entry_shallow:
  assumes "nesting (Object kvs) < Suc n"
  shows "each_then (pack_pair k (\<lambda>v s. shallow n (\<lambda>v. p v s) v)) kvs s =
    each_then (\<lambda>(key, x) u. and_then (k key u) (p x)) kvs s"
proof (rule each_then_cong)
  fix e u assume "e \<in> set kvs"
  then have "nesting (snd e) < n" using assms nesting_member [of "fst e" "snd e" kvs] by simp
  then show "pack_pair k (\<lambda>v s. shallow n (\<lambda>v. p v s) v) e u = (case e of (key, x) \<Rightarrow> \<lambda>u. and_then (k key u) (p x)) u"
    by (simp add: pack_pair_def shallow_def split_def)
qed simp_all

lemma tagged_writes:
  assumes "\<And>s. room s (length bs) \<Longrightarrow> q s = emit bs s" and "room s (Suc (length bs))"
  shows "and_then (pack_scalar emit 1 t s) q = emit (of_nat t # bs) s"
  using writes_seq [of "[of_nat t]" "pack_scalar emit 1 t" bs q s] assms by (simp add: pack_scalar_def)

lemma writes_variant_below:
  "writes (\<lambda>v s. shallow n (\<lambda>v. pack_variant emit v s) v) (shallow n enc_variant)"
proof (induction n)
  case (Suc n)
  let ?p = "\<lambda>v s. shallow n (\<lambda>v. pack_variant emit v s) v"
  note arr = writes_vector [OF Suc]
  note ent = writes_pair [OF writes_string Suc]
  show ?case
  proof (rule writesI)
    fix v s bs
    assume "shallow (Suc n) enc_variant v = Inr bs" and r: "room s (length bs)"
    then obtain cs where v: "nesting v < Suc n" and cs: "enc_body v = Inr cs"
        and bs: "bs = of_nat (type_number (get_type v)) # cs"
      by (auto simp: shallow_def enc_variant_def and_then_Inr_iff split: if_splits)
    have r': "room s (Suc (length cs))" using r bs by simp
    show "shallow (Suc n) (\<lambda>v. pack_variant emit v s) v = emit bs s"
    proof (cases v)
      case (Array vs)
      have "pack_vector emit (pack_variant emit) vs s = emit cs s" if "room s (length cs)" for s
        using writesD [OF arr, of vs cs s] that cs v enc_list_shallow [of vs n enc_variant]
          pack_vector_shallow [of vs n "pack_variant emit" s] by (simp add: Array enc_body_Array)
      from tagged_writes [OF this r'] v show ?thesis
        by (simp add: shallow_def bs Array)
    next
      case (Object kvs)
      obtain ds where ds: "enc_list (enc_entry (shallow n enc_variant)) kvs = Inr ds"
          and c: "cs = varint_bytes (length kvs mod 2 ^ 32) @ ds"
        using cs v enc_entries_shallow [of kvs n enc_variant]
        by (auto simp: Object enc_body_Object enc_sized_Inr_iff)
      let ?e = "\<lambda>(k, x) u. and_then (pack_string emit k u) (pack_variant emit x)"
      have "each_then ?e kvs s = emit ds s" if "room s (length ds)" for s
        using writes_each [OF ent, of kvs ds s] that ds v each_entry_shallow [of kvs n "pack_string emit" "pack_variant emit" s]
        by (simp add: Object enc_entry_def [abs_def])
      then have "and_then (pack_unsigned_int emit (of_nat (length kvs)) s) (each_then ?e kvs) = emit cs s"
        if "room s (length cs)" for s
        using sized_writes [of "length kvs mod 2 ^ 32" ds "each_then ?e kvs" s, unfolded of_nat_mod_u32] that c
        by (simp del: length_append)
      from tagged_writes [OF this r'] v show ?thesis
        by (simp add: shallow_def bs Object)
    qed (use tagged_writes [OF _ r'] v cs in \<open>simp_all add: shallow_def bs pack_scalar_def
        write_nil writesD [OF writes_bool] writesD [OF writes_string] writesD [OF writes_blob]\<close>)
  next
    fix v s e
    assume e: "shallow (Suc n) enc_variant v = Inl e"
    show "\<not> is_ok (shallow (Suc n) (\<lambda>v. pack_variant emit v s) v)"
    proof (cases "nesting v < Suc n")
      case True
      with e obtain e' where e': "enc_body v = Inl e'" by (auto simp: shallow_def enc_variant_def and_then_def split: sum.splits)
      show ?thesis
      proof (cases v)
        case (Array vs)
        then have "\<not> is_ok (pack_vector emit (pack_variant emit) vs s)" for s
          using writes_fails [OF arr, of vs e' s] e' True enc_list_shallow [of vs n enc_variant]
            pack_vector_shallow [of vs n "pack_variant emit" s] by (simp add: enc_body_Array)
        with True show ?thesis by (simp add: shallow_def Array not_ok_seq)
      next
        case (Object kvs)
        let ?e = "\<lambda>(k, x) u. and_then (pack_string emit k u) (pack_variant emit x)"
        have "\<not> is_ok (each_then ?e kvs s)" for s
          using writes_each_fails [OF ent, of kvs e' s] e' True enc_entries_shallow [of kvs n enc_variant]
            each_entry_shallow [of kvs n "pack_string emit" "pack_variant emit" s]
          by (simp add: Object enc_body_Object enc_sized_Inl_iff enc_entry_def [abs_def])
        with True show ?thesis by (simp add: shallow_def Object not_ok_seq)
      qed (use e' True writes_fails [OF writes_string] writes_fails [OF writes_blob] in
          \<open>auto simp: shallow_def not_ok_seq enc_bool_def\<close>)
    qed (simp add: shallow_def)
  qed
qed (auto intro: writesI simp: shallow_def)

lemma writes_fc_variant: "writes (pack_variant emit) enc_variant"
proof (rule writesI)
  fix v s bs
  assume "enc_variant v = Inr bs" and "room s (length bs)"
  then show "pack_variant emit v s = emit bs s"
    using writesD [OF writes_variant_below, of "Suc (nesting v)" v bs s] by (simp add: shallow_def)
next
  fix v s e
  assume "enc_variant v = Inl e"
  then show "\<not> is_ok (pack_variant emit v s)"
    using writes_fails [OF writes_variant_below, of "Suc (nesting v)" v e s] by (simp add: shallow_def)
qed

end

text \<open>
  Objects as the class builds them: distinct keys, none with a zero byte inside, and no more entries than
  the packed size can tell.
\<close>

fun keyed :: "variant \<Rightarrow> bool" where
  "keyed (Array vs) = list_all keyed vs"
| "keyed (Object kvs) =
     (unique_keys kvs \<and> length kvs < 2 ^ 32 \<and> list_all (\<lambda>(k, v). no_nul k \<and> keyed v) kvs)"
| "keyed _ = True"

definition enc_keyed :: "nat \<Rightarrow> variant \<Rightarrow> bytes result" where
  "enc_keyed n v = (if keyed v then shallow n enc_variant v else ill_typed)"

lemma entries_set_new: "no_nul k \<Longrightarrow> k \<notin> fst ` set es \<Longrightarrow> entries_set k v es = es @ [(k, v)]"
  by (simp add: entries_set_def c_str_no_nul find_from_end)

lemma enc_seq_keyed:
  assumes "nesting (Array vs) < Suc n" and "keyed (Array vs)"
  shows "enc_seq (enc_keyed n) vs = enc_seq enc_variant vs"
proof -
  have "enc_list (enc_keyed n) vs = enc_list enc_variant vs"
    by (rule enc_list_cong)
      (use assms nesting_item [of _ vs] in \<open>fastforce simp: shallow_def enc_keyed_def list_all_iff\<close>)+
  then show ?thesis by (simp add: enc_seq_def)
qed

lemma enc_entries_keyed:
  assumes "nesting (Object kvs) < Suc n" and "keyed (Object kvs)"
  shows "enc_list (enc_entry (enc_keyed n)) kvs = enc_list (enc_entry enc_variant) kvs"
proof (rule enc_list_cong)
  fix e assume "e \<in> set kvs"
  then have "keyed (snd e)" "nesting (snd e) < n"
    using assms nesting_member [of "fst e" "snd e" kvs] by (auto simp: list_all_iff)
  then show "enc_entry (enc_keyed n) e = enc_entry enc_variant e"
    by (simp add: enc_entry_def enc_pair_def enc_keyed_def shallow_def)
qed simp

context in_stream
begin

lemma reads_entries:
  assumes k: "reads k enc_blob" and u: "reads u enc"
  shows "enc_list (enc_entry enc) kvs = Inr bs \<Longrightarrow> invar s \<Longrightarrow> pending s = bs @ rest \<Longrightarrow>
    unique_keys (mvo @ kvs) \<Longrightarrow> list_all (\<lambda>(k, v). no_nul k) kvs \<Longrightarrow>
    \<exists>s'. unpack_entries k u (length kvs) mvo s = Inr (mvo @ kvs, s') \<and> invar s' \<and> pending s' = rest"
proof (induction kvs arbitrary: bs s mvo)
  case (Cons e kvs)
  obtain key v where e: "e = (key, v)" by (cases e)
  from Cons.prems obtain xs ys zs where xs: "enc_blob key = Inr xs" and ys: "enc v = Inr ys"
      and zs: "enc_list (enc_entry enc) kvs = Inr zs" and bs: "bs = xs @ ys @ zs"
    by (auto simp: e enc_entry_def [of _ "(key, v)"] enc_pair_def elim!: and_then_InrE)
  obtain s1 where s1: "k s = Inr (key, s1)" "invar s1" "pending s1 = ys @ zs @ rest"
    using readsE [OF k xs Cons.prems(2), of "ys @ zs @ rest"] Cons.prems(3) bs by auto
  obtain s2 where s2: "u s1 = Inr (v, s2)" "invar s2" "pending s2 = zs @ rest"
    by (rule readsE [OF u ys s1(2,3)])
  have "entries_set key v mvo = mvo @ [e]"
    using Cons.prems(4,5) by (intro entries_set_new [of key mvo v, folded e]) (auto simp: e unique_keys_def)
  then show ?case
    using Cons.IH [OF zs s2(2,3), of "mvo @ [e]"] Cons.prems(4,5) s1(1) s2(1) by (simp add: unique_keys_def)
qed simp

lemma reads_object:
  assumes u: "reads u enc" and kvs: "unique_keys kvs" "length kvs < 2 ^ 32" "list_all (\<lambda>(k, v). no_nul k) kvs"
    and cs: "enc_list (enc_entry enc) kvs = Inr cs" and s: "invar s" "pending s = varint_bytes (length kvs) @ cs @ rest"
  shows "\<exists>s'. unpack_variant_object read get u s = Inr (kvs, s') \<and> invar s' \<and> pending s' = rest"
  unfolding unpack_variant_object_def
proof (rule reads_size [OF kvs(2) s])
  fix s' assume "invar s'" "pending s' = cs @ rest"
  from reads_entries [OF reads_string u cs this, of "[]"] kvs
  show "\<exists>s''. unpack_entries (unpack_string read get) u (unat (of_nat (length kvs) :: u32)) [] s' = Inr (kvs, s'') \<and>
      invar s'' \<and> pending s'' = rest"
    by (simp add: unat_u32)
qed

lemma reads_word:
  assumes "invar s" "pending s = le_bytes 8 (unat (w :: u64)) @ rest"
  shows "\<exists>s'. and_then (unpack_scalar read 8 s) (\<lambda>(x, s''). Inr (c (of_nat x), s'')) = Inr (c w, s') \<and>
    invar s' \<and> pending s' = rest"
proof -
  have "unat w < 256 ^ 8" using word_unat_lt [of w] by simp
  then show ?thesis by (intro reads_then [OF reads_scalar _ assms]) auto
qed

text \<open>The switch, on the body of a variant whose nested variants are read.\<close>

lemma reads_kind:
  assumes u: "reads u (enc_keyed n)" and v: "keyed v" "nesting v < Suc n" and cs: "enc_body v = Inr cs"
    and s: "invar s" "pending s = cs @ rest"
  shows "\<exists>s'. unpack_kind read get u Null (type_number (get_type v)) s = Inr (v, s') \<and> invar s' \<and> pending s' = rest"
proof (cases v)
  case (Array vs)
  have e: "enc_seq (enc_keyed n) vs = Inr cs" using enc_seq_keyed [of vs n] v cs by (simp add: Array enc_body_Array)
  from readsE [OF reads_vector [OF u] e s] show ?thesis by (force simp: Array unpack_kind_def type_number_def)
next
  case (Object kvs)
  have k: "unique_keys kvs" "length kvs < 2 ^ 32" "list_all (\<lambda>(k, v). no_nul k) kvs"
    using v(1) by (auto simp: Object list_all_iff)
  obtain ds where ds: "enc_list (enc_entry (enc_keyed n)) kvs = Inr ds" and c: "cs = varint_bytes (length kvs) @ ds"
    using cs k(2) v enc_entries_keyed [of kvs n] by (auto simp: Object enc_body_Object enc_sized_Inr_iff)
  have p': "pending s = varint_bytes (length kvs) @ ds @ rest" using s(2) c by simp
  from reads_object [OF u k ds s(1) p'] show ?thesis by (auto simp: Object unpack_kind_def type_number_def)
next
  case (Int64 w)
  then show ?thesis using reads_word [of s w rest Int64] s cs by (simp add: unpack_kind_def type_number_def)
next
  case (Uint64 w)
  then show ?thesis using reads_word [of s w rest Uint64] s cs by (simp add: unpack_kind_def type_number_def)
next
  case (Double w)
  then show ?thesis using reads_word [of s w rest Double] s cs by (simp add: unpack_kind_def type_number_def)
next
  case (Bool b)
  with cs have "enc_bool b = Inr cs" by simp
  from readsE [OF reads_bool this s] show ?thesis by (force simp: Bool unpack_kind_def type_number_def)
next
  case (String str)
  with cs have "enc_blob str = Inr cs" by simp
  from readsE [OF reads_string this s] show ?thesis by (force simp: String unpack_kind_def type_number_def)
next
  case (Blob d)
  with cs have "enc_blob d = Inr cs" by simp
  from readsE [OF reads_blob this s] show ?thesis by (force simp: Blob unpack_kind_def type_number_def)
qed (use s cs in \<open>simp add: unpack_kind_def type_number_def\<close>)

lemma reads_variant_below: "reads (unpack_variant n read get Null) (enc_keyed n)"
proof (induction n)
  case (Suc n)
  show ?case
  proof (rule readsI)
    fix v bs s rest
    assume "enc_keyed (Suc n) v = Inr bs" and s: "invar s" and p: "pending s = bs @ rest"
    then obtain cs where v: "keyed v" "nesting v < Suc n" and cs: "enc_body v = Inr cs"
        and bs: "bs = of_nat (type_number (get_type v)) # cs"
      by (auto simp: enc_keyed_def shallow_def enc_variant_def and_then_Inr_iff split: if_splits)
    let ?t = "type_number (get_type v)"
    have t: "?t < 256 ^ 1" by (cases v) (simp_all add: type_number_def)
    have p1: "pending s = le_bytes 1 ?t @ cs @ rest" using p bs by simp
    show "\<exists>s'. unpack_variant (Suc n) read get Null s = Inr (v, s') \<and> invar s' \<and> pending s' = rest"
      unfolding unpack_variant.simps
      by (rule reads_then [OF reads_scalar _ s p1, where v = ?t]) (use t reads_kind [OF Suc v cs] in auto)
  qed
qed (simp add: reads_def enc_keyed_def shallow_def)

lemma tame_entries: "tame k \<Longrightarrow> tame u \<Longrightarrow> tame (unpack_entries k u n mvo)"
proof (induction n arbitrary: mvo)
  case 0
  show ?case by (rule tame_cong [OF tame_return]) simp
next
  case (Suc n)
  then show ?case unfolding unpack_entries.simps by (intro tame_then) auto
qed

lemma tame_if: "tame d \<Longrightarrow> tame d' \<Longrightarrow> tame (\<lambda>s. if b then d s else d' s)"
  by (cases b) simp_all

lemma tame_kind:
  assumes "tame u"
  shows "tame (unpack_kind read get u v t)"
proof -
  have "tame (unpack_variant_object read get u)"
    unfolding unpack_variant_object_def [abs_def] by (intro tame_size tame_entries tame_string assms)
  then show ?thesis
    unfolding unpack_kind_def [abs_def]
    by (intro tame_if tame_map tame_return tame_throw tame_scalar tame_bool tame_string tame_vector tame_bytes assms) simp_all
qed

text \<open>A vector of one element whose unpacker fails.\<close>

lemma unpack_vector_one_fails:
  assumes s: "invar s" "pending s = 1 # rest" and u: "\<And>s'. invar s' \<Longrightarrow> pending s' = rest \<Longrightarrow> u s' = Inl e"
  shows "unpack_vector get u s = Inl e"
proof -
  have p: "pending s = varint_bytes 1 @ rest" using s(2) by (simp add: varint_bytes.simps)
  obtain s' where "unpack_unsigned_int get s = Inr (1, s')" "invar s'" "pending s' = rest"
    by (rule readsE [OF reads_unsigned_int _ s(1) p, of 1]) (simp add: enc_unsigned_int_def)
  with u [of s'] show ?thesis by (simp add: unpack_vector_def MAX_NUM_ARRAY_ELEMENTS_def)
qed

end

text \<open>The character stream with a bound on what is pending is a stream as well.\<close>

definition cs_below :: "nat \<Rightarrow> char_stream \<Rightarrow> bool" where
  "cs_below n s \<longleftrightarrow> cs_ok s \<and> length (cs_pending s) < n"

interpretation bounded_in: in_stream cs_read cs_get cs_pending "cs_below n" for n
proof (unfold_locales, goal_cases)
  case (1 s xs ys)
  then show ?case using char_in.read_ok [of s xs ys] by (auto simp: cs_below_def)
next
  case (2 s x ys)
  then show ?case using char_in.get_ok [of s x ys] by (auto simp: cs_below_def)
next
  case (3 s n)
  then show ?case using char_in.read_short [of s n] by (auto simp: cs_below_def)
next
  case (4 s)
  then show ?case using char_in.get_short [of s] by (auto simp: cs_below_def)
qed

lemma unpack_variant_tame: "in_stream.tame cs_pending (cs_below n) (unpack_variant n cs_read cs_get v)"
proof (induction n arbitrary: v)
  case 0
  show ?case by (rule bounded_in.tameI) (simp_all add: cs_below_def)
next
  case (Suc n)
  note kind = bounded_in.tame_kind [OF Suc [of Null], of v]
  have step: "(\<exists>c. unpack_variant (Suc n) cs_read cs_get v s = Inl (Fc_exception c)) \<or>
      (\<exists>x s'. unpack_variant (Suc n) cs_read cs_get v s = Inr (x, s') \<and> cs_below (Suc n) s' \<and>
        (\<exists>used. cs_pending s = used @ cs_pending s'))" if s: "cs_below (Suc n) s" for s
  proof (cases "cs_pending s")
    case Nil
    then show ?thesis using bounded_in.read_short [OF s, of 1] by (simp add: unpack_scalar_def)
  next
    case (Cons c ys)
    obtain s1 where s1: "cs_read 1 s = Inr ([c], s1)" "cs_below (Suc n) s1" "cs_pending s1 = ys"
      using bounded_in.read_ok [OF s, of "[c]" ys] Cons by auto
    then have b: "cs_below n s1" using s Cons by (simp add: cs_below_def)
    let ?r = "unpack_kind cs_read cs_get (unpack_variant n cs_read cs_get Null) v (of_le_bytes [c]) s1"
    have r: "unpack_variant (Suc n) cs_read cs_get v s = ?r" using s1(1) by (simp add: unpack_scalar_def)
    show ?thesis
    proof (cases ?r)
      case (Inl e)
      with bounded_in.tame_Inl [OF kind b Inl] r show ?thesis by simp
    next
      case (Inr y)
      obtain x s' where y: "y = (x, s')" by (cases y)
      from bounded_in.tame_Inr [OF kind b Inr [unfolded y]] have "cs_below (Suc n) s'" "\<exists>used. ys = used @ cs_pending s'"
        by (auto simp: cs_below_def s1(3))
      with r Inr y Cons show ?thesis by (metis append_Cons)
    qed
  qed
  show ?case by (rule bounded_in.tameI) (use step in fastforce)+
qed

subsection \<open>Properties\<close>

text \<open>
  C11. A variant survives the binary form: when its objects have distinct keys without zero bytes, packing
  writes exactly its format, and unpacking with a stack deeper than its nesting returns it.
\<close>

theorem raw_variant_roundtrip:
  assumes "keyed v" and "enc_variant v = Inr bs" and "length bs < 2 ^ 63" and "nesting v < n"
  shows "pack_variant_vector v = Inr bs \<and> unpack_variant_vector n bs = Inr v"
proof
  have l: "unat (of_nat (length bs) :: u64) = length bs" using assms(3) by (intro unat_of_nat_lt) simp
  have count: "pack_variant ss_write v (ss_new 0) = Inr (ss_new (of_nat (length bs)))"
    using size_out.writesD [OF size_out.writes_fc_variant assms(2), of "ss_new 0"] by (simp add: ss_write_def ss_new_def)
  have "cs_room (cs_new (replicate (length bs) 0)) (length bs)" using assms(3) by (simp add: cs_room_def cs_new_ok)
  from char_out.writesD [OF char_out.writes_fc_variant assms(2) this]
  have "pack_variant cs_write v (cs_new (replicate (length bs) 0)) = Inr \<lparr>cs_mem = bs, cs_pos = length bs\<rparr>"
    using assms(3) by (simp add: cs_write_ok cs_new_ok) (simp add: cs_new_def)
  then show "pack_variant_vector v = Inr bs"
    unfolding pack_variant_vector_def count and_then_simps ss_tellp_def Let_def
    using assms(3) by (simp add: ss_new_def l)
  have "enc_keyed n v = Inr bs" using assms by (simp add: enc_keyed_def shallow_def)
  then obtain s where "unpack_variant n cs_read cs_get Null (cs_new bs) = Inr (v, s)"
    by (rule char_in.readsE [OF char_in.reads_variant_below _ cs_new_ok [OF assms(3)], of n v bs "[]"]) simp_all
  then show "unpack_variant_vector n bs = Inr v" by (simp add: unpack_variant_vector_def)
qed

theorem raw_variant_roundtrip_witness:
  "pack_variant_vector (Object [([0x61], Array [Null, Bool True]), ([0x62], String [0x78])]) =
     Inr [7, 2, 1, 0x61, 6, 2, 0, 4, 1, 1, 0x62, 5, 1, 0x78] \<and>
   unpack_variant_vector 3 [7, 2, 1, 0x61, 6, 2, 0, 4, 1, 1, 0x62, 5, 1, 0x78] =
     Inr (Object [([0x61], Array [Null, Bool True]), ([0x62], String [0x78])])"
proof (rule raw_variant_roundtrip)
  have "enc_variant (Array [Null, Bool True]) = Inr [6, 2, 0, 4, 1]"
    by (simp add: enc_variant_def enc_body_Array enc_bool_def type_number_def wire_eval)
  moreover have "enc_variant (String [0x78]) = Inr [5, 1, 0x78]"
    by (simp add: enc_variant_def type_number_def wire_eval)
  moreover have "enc_blob [0x61] = Inr [1, 0x61]" "enc_blob [0x62] = Inr [1, 0x62]" by (simp_all add: wire_eval)
  moreover have "varint_bytes (Suc (Suc 0)) = [2]" by (simp add: wire_eval)
  ultimately show "enc_variant (Object [([0x61], Array [Null, Bool True]), ([0x62], String [0x78])]) =
      Inr [7, 2, 1, 0x61, 6, 2, 0, 4, 1, 1, 0x62, 5, 1, 0x78]"
    by (simp add: enc_variant_def [of "Object _"] enc_body_Object enc_entry_def enc_pair_def enc_sized_def type_number_def)
qed (simp_all add: unique_keys_def no_nul_def)

text \<open>
  C27. Unpacking untrusted bytes. With a stack for more nested calls than the input has bytes, unpacking
  returns a variant or throws an \<^verbatim>\<open>fc\<close> exception; but nothing limits the nesting, and for every
  size of the stack there is an input of twice as many bytes that exhausts it.
\<close>

theorem unpack_variant_stack:
  "((\<exists>v. unpack_variant_vector n s = Inr v) \<or> (\<exists>c. unpack_variant_vector n s = Inl (Fc_exception c)) \<or>
     n \<le> length s \<or> 2 ^ 63 \<le> length s) \<and>
   (n < 2 ^ 60 \<longrightarrow> unpack_variant_vector n (concat (replicate n [6, 1])) = Inl Undefined_behaviour)"
proof
  show "(\<exists>v. unpack_variant_vector n s = Inr v) \<or> (\<exists>c. unpack_variant_vector n s = Inl (Fc_exception c)) \<or>
     n \<le> length s \<or> 2 ^ 63 \<le> length s"
  proof (cases "length s < n \<and> length s < 2 ^ 63")
    case True
    then have b: "cs_below n (cs_new s)" by (simp add: cs_below_def cs_new_ok)
    show ?thesis
    proof (cases "unpack_variant n cs_read cs_get Null (cs_new s)")
      case (Inl e)
      from bounded_in.tame_Inl [OF unpack_variant_tame b Inl] Inl show ?thesis by (auto simp: unpack_variant_vector_def)
    next
      case (Inr y)
      then show ?thesis by (cases y) (simp add: unpack_variant_vector_def)
    qed
  qed auto
next
  have deep: "cs_ok s \<Longrightarrow> cs_pending s = concat (replicate n [6, 1]) \<Longrightarrow>
      unpack_variant n cs_read cs_get Null s = Inl Undefined_behaviour" for s
  proof (induction n arbitrary: s)
    case (Suc n)
    let ?r = "concat (replicate n [6, 1]) :: bytes"
    obtain s1 where s1: "cs_read 1 s = Inr ([6], s1)" "cs_ok s1" "cs_pending s1 = 1 # ?r"
      using char_in.read_ok [OF Suc.prems(1), of "[6]" "1 # ?r"] Suc.prems(2) by auto
    have "unpack_vector cs_get (unpack_variant n cs_read cs_get Null) s1 = Inl Undefined_behaviour"
      by (rule char_in.unpack_vector_one_fails [OF s1(2,3) Suc.IH])
    with s1(1) show ?case by (simp add: unpack_scalar_def unpack_kind_def)
  qed simp
  show "n < 2 ^ 60 \<longrightarrow> unpack_variant_vector n (concat (replicate n [6, 1])) = Inl Undefined_behaviour"
  proof
    assume "n < 2 ^ 60"
    then have "length (concat (replicate n [6, 1 :: byte])) < 2 ^ 63" by (simp add: length_concat sum_list_replicate)
    from deep [OF cs_new_ok [OF this]] show "unpack_variant_vector n (concat (replicate n [6, 1])) = Inl Undefined_behaviour"
      by (simp add: unpack_variant_vector_def)
  qed
qed

theorem unpack_variant_stack_witness:
  "unpack_variant_vector 1000 (concat (replicate 1000 [6, 1])) = Inl Undefined_behaviour"
  using unpack_variant_stack [of 1000 "[]"] by simp

end
