(* ===== verification/Json_Parse.thy ===== *)
theory Json_Parse
  imports Variant
begin

text \<open>
  The legacy JSON parser of \<^verbatim>\<open>src/io/json.cpp\<close> on a \<^verbatim>\<open>std::stringstream\<close>. The stream is the list of the
  characters not read yet; \<^verbatim>\<open>peek\<close> at its end returns \<^verbatim>\<open>EOF\<close>, which becomes the character
  \<^verbatim>\<open>0xff\<close> where the source stores it in a \<^verbatim>\<open>char\<close>. An exception leaves the stream in a state nobody
  looks at again, so an error carries no stream.

  Characters are written as their codes: \<^verbatim>\<open>"\<close> \<open>0x22\<close>, \<^verbatim>\<open>,\<close> \<open>0x2c\<close>, \<^verbatim>\<open>-\<close> \<open>0x2d\<close>, \<^verbatim>\<open>.\<close> \<open>0x2e\<close>, \<^verbatim>\<open>:\<close> \<open>0x3a\<close>,
  \<^verbatim>\<open>[\<close> \<open>0x5b\<close>, \<^verbatim>\<open>\\<close> \<open>0x5c\<close>, \<^verbatim>\<open>]\<close> \<open>0x5d\<close>, \<^verbatim>\<open>{\<close> \<open>0x7b\<close>, \<^verbatim>\<open>}\<close> \<open>0x7d\<close>.
\<close>

datatype parse_type = legacy_parser | strict_parser | relaxed_parser | legacy_parser_with_string_doubles

abbreviation Eof_error :: fc_error where
  "Eof_error \<equiv> Fc_exception eof_exception_code"

definition peek :: "bytes \<Rightarrow> byte option" where
  "peek s = (case s of [] \<Rightarrow> None | c # _ \<Rightarrow> Some c)"

definition is_space :: "byte \<Rightarrow> bool" where
  "is_space c \<longleftrightarrow> c = 0x20 \<or> c = 0x09 \<or> c = 0x0a \<or> c = 0x0d"

subsection \<open>Characters and strings\<close>

definition parseEscape :: "bytes \<Rightarrow> (byte \<times> bytes) result" where
  "parseEscape s =
     (if peek s = Some 0x5c then
        case tl s of
          [] \<Rightarrow> Inr (0xff, [])
        | c # r \<Rightarrow> Inr (if c = 0x74 then 0x09 else if c = 0x6e then 0x0a else if c = 0x72 then 0x0d else c, r)
      else Inl Parse_error)"

fun skip_white_space_from :: "bool \<Rightarrow> bytes \<Rightarrow> (bool \<times> bytes) result" where
  "skip_white_space_from skipped [] = Inr (skipped, [])"
| "skip_white_space_from skipped (c # s) =
     (if is_space c then skip_white_space_from True s
      else if c = 0 then Inl Eof_error
      else Inr (skipped, c # s))"

definition skip_white_space :: "bytes \<Rightarrow> (bool \<times> bytes) result" where
  "skip_white_space s = skip_white_space_from False s"

lemma parseEscape_shorter: "parseEscape s = Inr (c, r) \<Longrightarrow> length r < length s"
  by (cases s) (auto simp: parseEscape_def peek_def split: list.splits if_splits)

text \<open>
  The loop of \<^verbatim>\<open>stringFromStream\<close>. At the end of the input the loop appends the \<^verbatim>\<open>EOF\<close> character,
  leaves because the stream is at its end, and throws.
\<close>

function string_loop :: "bytes \<Rightarrow> bytes \<Rightarrow> (bytes \<times> bytes) result" where
  "string_loop token [] = Inl Parse_error"
| "string_loop token (c # s) =
     (if c = 0x5c then and_then (parseEscape (c # s)) (\<lambda>(e, r). string_loop (token @ [e]) r)
      else if c = 0x04 then Inl Parse_error
      else if c = 0x22 then Inr (token, s)
      else string_loop (token @ [c]) s)"
  by pat_completeness auto
termination
  by (relation "measure (\<lambda>(token, s). length s)") (auto dest: parseEscape_shorter)

definition stringFromStream :: "bytes \<Rightarrow> (bytes \<times> bytes) result" where
  "stringFromStream s = (if peek s \<noteq> Some 0x22 then Inl Parse_error else string_loop [] (tl s))"

text \<open>
  The loop of \<^verbatim>\<open>stringFromToken\<close>, which catches the end-of-file exception. A zero byte stays in the
  stream; a backslash at the very end contributes the \<^verbatim>\<open>EOF\<close> character.
\<close>

function token_loop :: "bytes \<Rightarrow> bytes \<Rightarrow> (bytes \<times> bytes) result" where
  "token_loop token [] = Inr (token, [])"
| "token_loop token (c # s) =
     (if c = 0x5c then and_then (parseEscape (c # s)) (\<lambda>(e, r). token_loop (token @ [e]) r)
      else if c = 0x09 \<or> c = 0x20 \<or> c = 0x0a then Inr (token, s)
      else if c = 0 then Inr (token, c # s)
      else if isalnum c \<or> c = 0x5f \<or> c = 0x2d \<or> c = 0x2e \<or> c = 0x3a \<or> c = 0x2f then token_loop (token @ [c]) s
      else Inr (token, c # s))"
  by pat_completeness auto
termination
  by (relation "measure (\<lambda>(token, s). length s)") (auto dest: parseEscape_shorter)

definition stringFromToken :: "bytes \<Rightarrow> (bytes \<times> bytes) result" where
  "stringFromToken s = token_loop [] s"

subsection \<open>Numbers and words\<close>

text \<open>
  The loop of \<^verbatim>\<open>number_from_stream\<close>: either the text of a number with what is left of the input, or, when a letter
  follows, the string that the function returns instead.
\<close>

fun number_loop :: "bool \<Rightarrow> bytes \<Rightarrow> bytes \<Rightarrow> ((bytes \<times> bytes) + (bool \<times> bytes \<times> bytes)) result" where
  "number_loop dot ss [] = Inr (Inr (dot, ss, []))"
| "number_loop dot ss (c # s) =
     (if c = 0x2e then if dot then Inl Parse_error else number_loop True (ss @ [c]) s
      else if is_digit c then number_loop dot (ss @ [c]) s
      else if c = 0 then Inr (Inr (dot, ss, c # s))
      else if isalnum c then and_then (stringFromToken (c # s)) (\<lambda>(t, r). Inr (Inl (ss @ t, r)))
      else Inr (Inr (dot, ss, c # s)))"

definition number_from_stream :: "platform \<Rightarrow> parse_type \<Rightarrow> bytes \<Rightarrow> (variant \<times> bytes) result" where
  "number_from_stream p parser_type s =
     (let neg = (peek s = Some 0x2d)
      in and_then (number_loop False (if neg then [0x2d] else []) (if neg then tl s else s)) (\<lambda>x.
           case x of
             Inl (str, r) \<Rightarrow> Inr (String str, r)
           | Inr (dot, str, r) \<Rightarrow>
               if str = ascii ''-.'' \<or> str = ascii ''.'' \<or> str = ascii ''-'' then Inl Parse_error
               else if dot then
                 if parser_type = legacy_parser_with_string_doubles then Inr (String str, r)
                 else and_then (to_double p str) (\<lambda>d. Inr (Double d, r))
               else if neg then and_then (to_int64 p str) (\<lambda>i. Inr (Int64 i, r))
               else and_then (to_uint64 p str) (\<lambda>u. Inr (Uint64 u, r))))"

definition token_letter :: "byte \<Rightarrow> bool" where
  "token_letter c \<longleftrightarrow> c \<in> set (ascii ''nultrefas'')"

definition token_from_stream :: "bytes \<Rightarrow> (variant \<times> bytes) result" where
  "token_from_stream s =
     (let str = takeWhile token_letter s; r = dropWhile token_letter s
      in if str = ascii ''null'' then Inr (Null, r)
         else if str = ascii ''true'' then Inr (Bool True, r)
         else if str = ascii ''false'' then Inr (Bool False, r)
         else and_then (stringFromToken r) (\<lambda>(t, r'). Inr (String (str @ t), r')))"

subsection \<open>Values\<close>

text \<open>
  The functions for values, objects and arrays call each other. A loop gets the function that reads a
  value as an argument and a bound on its iterations; the function for values gets a bound on the nesting. Running
  into a bound is \<open>None\<close>; the bounds chosen below are never reached, since every iteration and
  every level of nesting reads at least one character.
\<close>

type_synonym value_reader = "bytes \<Rightarrow> u32 \<Rightarrow> (variant \<times> bytes) result option"

definition next_step :: "'a result option \<Rightarrow> ('a \<Rightarrow> 'b result option) \<Rightarrow> 'b result option" where
  "next_step m f = (case m of None \<Rightarrow> None | Some (Inl e) \<Rightarrow> Some (Inl e) | Some (Inr x) \<Rightarrow> f x)"

definition catch_eof :: "'a result \<Rightarrow> 'a result" where
  "catch_eof r = (case r of Inl e \<Rightarrow> if e = Eof_error then Inl Parse_error else Inl e | Inr x \<Rightarrow> Inr x)"

primrec object_loop ::
  "nat \<Rightarrow> value_reader \<Rightarrow> (bytes \<times> variant) list \<Rightarrow> bytes \<Rightarrow> u32 \<Rightarrow> (variant \<times> bytes) result option" where
  "object_loop 0 value obj s max_depth = None"
| "object_loop (Suc n) value obj s max_depth =
     (if peek s = Some 0x7d then Some (Inr (Object obj, tl s))
      else if peek s = Some 0x2c then object_loop n value obj (tl s) max_depth
      else next_step (Some (skip_white_space s)) (\<lambda>(skipped, s1).
        if skipped then object_loop n value obj s1 max_depth
        else next_step (Some (stringFromStream s1)) (\<lambda>(key, s2).
          next_step (Some (skip_white_space s2)) (\<lambda>(_, s3).
            if peek s3 \<noteq> Some 0x3a then Some (Inl Parse_error)
            else next_step (value (tl s3) (max_depth - 1)) (\<lambda>(val, s4).
              object_loop n value (obj @ [(key, val)]) s4 max_depth)))))"

definition objectFromStream :: "value_reader \<Rightarrow> bytes \<Rightarrow> u32 \<Rightarrow> (variant \<times> bytes) result option" where
  "objectFromStream value s max_depth =
     (if peek s \<noteq> Some 0x7b then Some (Inl Parse_error)
      else map_option catch_eof (object_loop (length s) value [] (tl s) max_depth))"

primrec array_loop ::
  "nat \<Rightarrow> value_reader \<Rightarrow> variant list \<Rightarrow> bytes \<Rightarrow> u32 \<Rightarrow> (variant \<times> bytes) result option" where
  "array_loop 0 value ar s max_depth = None"
| "array_loop (Suc n) value ar s max_depth =
     (if peek s = Some 0x5d then Some (Inr (Array ar, tl s))
      else if peek s = Some 0x2c then array_loop n value ar (tl s) max_depth
      else next_step (Some (skip_white_space s)) (\<lambda>(skipped, s1).
        if skipped then array_loop n value ar s1 max_depth
        else next_step (value s1 (max_depth - 1)) (\<lambda>(val, s2).
          next_step (Some (skip_white_space s2)) (\<lambda>(_, s3).
            array_loop n value (ar @ [val]) s3 max_depth))))"

definition arrayFromStream :: "value_reader \<Rightarrow> bytes \<Rightarrow> u32 \<Rightarrow> (variant \<times> bytes) result option" where
  "arrayFromStream value s max_depth =
     (if peek s \<noteq> Some 0x5b then Some (Inl Parse_error)
      else next_step (Some (skip_white_space (tl s))) (\<lambda>(_, s1). array_loop (length s) value [] s1 max_depth))"

primrec variant_from_stream ::
  "nat \<Rightarrow> platform \<Rightarrow> parse_type \<Rightarrow> bytes \<Rightarrow> u32 \<Rightarrow> (variant \<times> bytes) result option" where
  "variant_from_stream 0 p t s max_depth = None"
| "variant_from_stream (Suc n) p t s max_depth =
     (if max_depth = 0 then Some (Inl Parse_error)
      else next_step (Some (skip_white_space s)) (\<lambda>(_, s1).
        case dropWhile is_space s1 of
          [] \<Rightarrow> Some (Inl Eof_error)
        | c # r \<Rightarrow>
            if c = 0x22 then Some (and_then (stringFromStream (c # r)) (\<lambda>(str, r'). Inr (String str, r')))
            else if c = 0x7b then objectFromStream (variant_from_stream n p t) (c # r) (max_depth - 1)
            else if c = 0x5b then arrayFromStream (variant_from_stream n p t) (c # r) (max_depth - 1)
            else if c = 0x2d \<or> c = 0x2e \<or> is_digit c then Some (number_from_stream p t (c # r))
            else if c = 0x6e \<or> c = 0x74 \<or> c = 0x66 then Some (token_from_stream (c # r))
            else if c = 0x04 \<or> c = 0xff \<or> c = 0 then Some (Inl Eof_error)
            else Some (Inl Parse_error)))"

definition DEFAULT_MAX_RECURSION_DEPTH :: u32 where
  "DEFAULT_MAX_RECURSION_DEPTH = 200"

end
