(* ===== verification/Json_Total.thy ===== *)
theory Json_Total
  imports Json_Parse
begin

text \<open>
  The legacy parser always returns: on any input it produces a value or throws one of the
  library's exceptions, and the bounds in its model are never reached.
\<close>

subsection \<open>Readers\<close>

text \<open>An outcome of reading from \<open>s\<close>: an exception of the library, or a value and a shorter rest.\<close>

definition reads_some :: "bytes \<Rightarrow> ('a \<times> bytes) result \<Rightarrow> bool" where
  "reads_some s x = (case x of Inl e \<Rightarrow> (\<exists>c. e = Fc_exception c) | Inr (v, r) \<Rightarrow> length r < length s)"

definition good_reader :: "value_reader \<Rightarrow> nat \<Rightarrow> bool" where
  "good_reader value bound \<longleftrightarrow> (\<forall>s d. length s < bound \<longrightarrow> (\<exists>x. value s d = Some x \<and> reads_some s x))"

lemma reads_some_simps [simp]:
  "reads_some s (Inl (Fc_exception c))"
  "reads_some s (Inr (v, r)) \<longleftrightarrow> length r < length s"
  by (simp_all add: reads_some_def)

lemma reads_some_cases:
  assumes "reads_some s x"
  obtains c where "x = Inl (Fc_exception c)" | v r where "x = Inr (v, r)" "length r < length s"
  using assms by (cases x) (auto simp: reads_some_def split: prod.splits)

lemma good_readerE:
  assumes "good_reader value bound" and "length s < bound"
  obtains x where "value s d = Some x" "reads_some s x"
  using assms unfolding good_reader_def by blast

lemma next_step_simps [simp]:
  "next_step None f = None" "next_step (Some (Inl e)) f = Some (Inl e)" "next_step (Some (Inr x)) f = f x"
  by (simp_all add: next_step_def)

lemma catch_eof_simps [simp]: "catch_eof (Inr x) = Inr x"
  by (simp add: catch_eof_def)

lemma reads_some_catch_eof: "reads_some s (catch_eof x) \<longleftrightarrow> reads_some s x"
  by (cases x) (auto simp: catch_eof_def reads_some_def)

lemma reads_some_longer: "reads_some s x \<Longrightarrow> length s \<le> length s' \<Longrightarrow> reads_some s' x"
  by (auto simp: reads_some_def split: sum.splits)

lemma skip_from_cases:
  "skip_white_space_from b s = Inl Eof_error \<or>
   (\<exists>k r. skip_white_space_from b s = Inr (k, r) \<and> length r \<le> length s \<and>
      (k \<longleftrightarrow> b \<or> length r < length s) \<and> (r \<noteq> [] \<longrightarrow> \<not> is_space (hd r)))"
proof (induction b s rule: skip_white_space_from.induct)
  case (2 b c s)
  show ?case
  proof (cases "is_space c")
    case True
    with 2 [OF True] show ?thesis by auto
  qed simp
qed simp

lemma skip_cases:
  obtains "skip_white_space s = Inl Eof_error"
  | k r where "skip_white_space s = Inr (k, r)" "length r \<le> length s" "k \<longleftrightarrow> length r < length s"
      "r \<noteq> [] \<longrightarrow> \<not> is_space (hd r)"
  using skip_from_cases [of False s] by (auto simp: skip_white_space_def)

lemma parseEscape_backslash: "\<exists>e r. parseEscape (0x5c # s) = Inr (e, r)"
  by (cases s) (auto simp: parseEscape_def peek_def)

lemma string_loop_reads: "reads_some s (string_loop token s)"
proof (induction token s rule: string_loop.induct)
  case (2 token c s)
  show ?case
  proof (cases "c = 0x5c")
    case True
    obtain e r where er: "parseEscape (c # s) = Inr (e, r)" using parseEscape_backslash [of s] True by blast
    from 2(1) [OF True er] parseEscape_shorter [OF er] show ?thesis
      using True er by (auto intro: reads_some_longer)
  next
    case False
    with 2(2) show ?thesis by (auto intro: reads_some_longer [of s _ "c # s"])
  qed
qed simp

lemma stringFromStream_reads: "reads_some s (stringFromStream s)"
  using string_loop_reads [of "tl s" "[]"]
  by (cases s) (auto simp: stringFromStream_def peek_def intro: reads_some_longer)

lemma token_loop_returns: "\<exists>t r. token_loop token s = Inr (t, r) \<and> length r \<le> length s"
proof (induction token s rule: token_loop.induct)
  case (2 token c s)
  show ?case
  proof (cases "c = 0x5c")
    case True
    obtain e r where er: "parseEscape (c # s) = Inr (e, r)" using parseEscape_backslash [of s] True by blast
    from 2(1) [OF True er] parseEscape_shorter [OF er] True er show ?thesis by fastforce
  next
    case False
    with 2(2) show ?thesis by (auto intro: le_SucI)
  qed
qed simp

lemma number_loop_reads:
  "(\<exists>c. number_loop dot ss s = Inl (Fc_exception c)) \<or>
   (\<exists>t r. number_loop dot ss s = Inr (Inl (t, r)) \<and> length r \<le> length s) \<or>
   (\<exists>d t r. number_loop dot ss s = Inr (Inr (d, t, r)) \<and> length r \<le> length s)"
proof (induction dot ss s rule: number_loop.induct)
  case IH: (2 dot ss c s)
  obtain t r where t: "token_loop [] (c # s) = Inr (t, r)" "length r \<le> length (c # s)" using token_loop_returns by blast
  consider "c = 0x2e" | "c \<noteq> 0x2e" "is_digit c" | "c \<noteq> 0x2e" "\<not> is_digit c" by blast
  then show ?case
  proof cases
    case 1
    with IH(1) show ?thesis by (cases dot) (auto simp del: number_loop.simps(1) intro: le_SucI)
  next
    case 2
    with IH(2) show ?thesis by (auto intro: le_SucI)
  next
    case 3
    with t show ?thesis by (auto simp: stringFromToken_def)
  qed
qed simp

lemma number_from_stream_reads:
  assumes "c = 0x2d \<or> c = 0x2e \<or> is_digit c"
  shows "reads_some (c # s) (number_from_stream p t (c # s))"
proof -
  have digit: "number_loop False [] (c # s) = number_loop (c = 0x2e) [c] s" if "c \<noteq> 0x2d"
    using assms that by (auto simp: is_digit_def)
  have fails: "reads_some u (and_then (to_double p str) (\<lambda>d. Inr (Double d, r)))"
    "reads_some u (and_then (to_int64 p str) (\<lambda>d. Inr (Int64 d, r)))"
    "reads_some u (and_then (to_uint64 p str) (\<lambda>d. Inr (Uint64 d, r)))" if "length r < length u" for u str r
    using that by (simp_all add: to_double_def to_int64_def to_uint64_def split: option.splits)
  show ?thesis
    using number_loop_reads [of "c = 0x2e" "[c]" s] number_loop_reads [of False "[c]" s] digit fails
    by (cases "c = 0x2d") (auto simp: number_from_stream_def peek_def Let_def)
qed

lemma token_from_stream_reads:
  assumes "c = 0x6e \<or> c = 0x74 \<or> c = 0x66"
  shows "reads_some (c # s) (token_from_stream (c # s))"
proof -
  have l: "token_letter c" using assms by (auto simp: token_letter_def ascii_def)
  have d: "length (dropWhile token_letter s) \<le> length s" by (rule length_dropWhile_le)
  obtain t r where "token_loop [] (dropWhile token_letter s) = Inr (t, r)"
    "length r \<le> length (dropWhile token_letter s)" using token_loop_returns by blast
  with d l show ?thesis by (simp add: token_from_stream_def Let_def stringFromToken_def)
qed

subsection \<open>Loops\<close>

lemma object_loop_reads:
  assumes good: "good_reader value bound"
  shows "length s < n \<Longrightarrow> length s \<le> bound \<Longrightarrow> \<exists>x. object_loop n value obj s d = Some x \<and> reads_some s x"
proof (induction n arbitrary: obj s)
  case (Suc n)
  have again: "\<exists>x. object_loop n value obj' s' d = Some x \<and> reads_some s x" if "length s' < length s" for obj' s'
    using Suc.IH [of s' obj'] Suc.prems that by (fastforce intro: reads_some_longer)
  show ?case
  proof (cases "peek s = Some 0x7d \<or> peek s = Some 0x2c")
    case True
    then show ?thesis using again [of "tl s"] by (cases s) (auto simp: peek_def)
  next
    case False
    show ?thesis
    proof (cases rule: skip_cases [of s])
      case (2 k s1)
      show ?thesis
      proof (cases k)
        case True
        with 2 again [of s1] False show ?thesis by simp
      next
        case no: False
        with 2 have s1: "length s1 = length s" by simp
        show ?thesis
        proof (cases rule: reads_some_cases [OF stringFromStream_reads [of s1]])
          case key: (2 key s2)
          show ?thesis
          proof (cases rule: skip_cases [of s2])
            case s3: (2 k3 s3)
            show ?thesis
            proof (cases "peek s3 = Some 0x3a")
              case True
              then have "length (tl s3) < length s" using key s3 s1 by (cases s3) (auto simp: peek_def)
              moreover from this have "length (tl s3) < bound" using Suc.prems by simp
              with good obtain x where x: "value (tl s3) (d - 1) = Some x" "reads_some (tl s3) x"
                by (rule good_readerE)
              show ?thesis
              proof (cases rule: reads_some_cases [OF x(2)])
                case (2 v s4)
                with again [of s4 "obj @ [(key, v)]"] calculation show ?thesis
                  using False \<open>skip_white_space s = Inr (k, s1)\<close> no key s3 True x(1) by simp
              qed (use False \<open>skip_white_space s = Inr (k, s1)\<close> no key s3 True x(1) in simp)
            qed (use False \<open>skip_white_space s = Inr (k, s1)\<close> no key s3 in simp)
          qed (use False \<open>skip_white_space s = Inr (k, s1)\<close> no key in simp)
        qed (use False \<open>skip_white_space s = Inr (k, s1)\<close> no in simp)
      qed
    qed (use False in simp)
  qed
qed simp

lemma array_loop_reads:
  assumes good: "good_reader value bound"
  shows "length s < n \<Longrightarrow> length s < bound \<Longrightarrow> \<exists>x. array_loop n value ar s d = Some x \<and> reads_some s x"
proof (induction n arbitrary: ar s)
  case (Suc n)
  have again: "\<exists>x. array_loop n value ar' s' d = Some x \<and> reads_some s x" if "length s' < length s" for ar' s'
    using Suc.IH [of s' ar'] Suc.prems that by (fastforce intro: reads_some_longer)
  show ?case
  proof (cases "peek s = Some 0x5d \<or> peek s = Some 0x2c")
    case True
    then show ?thesis using again [of "tl s"] by (cases s) (auto simp: peek_def)
  next
    case False
    show ?thesis
    proof (cases rule: skip_cases [of s])
      case s1: (2 k s1)
      show ?thesis
      proof (cases k)
        case True
        with s1 again [of s1] False show ?thesis by simp
      next
        case no: False
        from s1 Suc.prems have "length s1 < bound" by simp
        with good obtain x where x: "value s1 (d - 1) = Some x" "reads_some s1 x" by (rule good_readerE)
        show ?thesis
        proof (cases rule: reads_some_cases [OF x(2)])
          case v: (2 v s2)
          show ?thesis
          proof (cases rule: skip_cases [of s2])
            case (2 k3 s3)
            with again [of s3 "ar @ [v]"] v s1 no x(1) False show ?thesis by simp
          qed (use False s1 no x(1) v in simp)
        qed (use False s1 no x(1) in simp)
      qed
    qed (use False in simp)
  qed
qed simp

lemma arrayFromStream_reads:
  assumes good: "good_reader value n" and l: "length r < n"
  shows "\<exists>x. arrayFromStream value (c # r) d = Some x \<and> reads_some (c # r) x"
proof (cases "c = 0x5b")
  case True
  show ?thesis
  proof (cases rule: skip_cases [of r])
    case s2: (2 k2 s2)
    then have "length s2 < length (c # r)" "length s2 < n" using l by simp_all
    from array_loop_reads [OF good this, of "[]" d] obtain x where
      x: "array_loop (length (c # r)) value [] s2 d = Some x" "reads_some s2 x" by auto
    then have "reads_some (c # r) x" using \<open>length s2 < length (c # r)\<close> by (auto intro: reads_some_longer)
    then show ?thesis using x(1) s2(1) True unfolding arrayFromStream_def peek_def list.sel by simp
  qed (simp add: arrayFromStream_def peek_def True)
qed (simp add: arrayFromStream_def peek_def)

lemma variant_from_stream_good: "good_reader (variant_from_stream n p t) n"
proof (induction n)
  case (Suc n)
  have "\<exists>x. variant_from_stream (Suc n) p t s d = Some x \<and> reads_some s x" if len: "length s < Suc n" for s d
  proof (cases "d = 0")
    case d: False
    show ?thesis
    proof (cases rule: skip_cases [of s])
      case (2 k s1)
      show ?thesis
      proof (cases s1)
        case (Cons c r)
        have ns: "\<not> is_space c" and l: "length (c # r) \<le> length s" using 2 Cons by simp_all
        have "\<exists>x. objectFromStream (variant_from_stream n p t) (c # r) (d - 1) = Some x \<and> reads_some (c # r) x"
        proof (cases "c = 0x7b")
          case True
          obtain x where x: "object_loop (length (c # r)) (variant_from_stream n p t) [] r (d - 1) = Some x"
            "reads_some r x" using object_loop_reads [OF Suc, of r "length (c # r)" "[]" "d - 1"] len l by auto
          then have "reads_some (c # r) (catch_eof x)"
            by (simp add: reads_some_catch_eof reads_some_longer [of r _ "c # r"])
          then show ?thesis using x(1) True unfolding objectFromStream_def peek_def list.sel by simp
        qed (simp add: objectFromStream_def peek_def)
        moreover have "\<exists>x. arrayFromStream (variant_from_stream n p t) (c # r) (d - 1) = Some x \<and> reads_some (c # r) x"
          using len l by (intro arrayFromStream_reads [OF Suc]) simp
        moreover have "reads_some (c # r) (and_then (stringFromStream (c # r)) (\<lambda>(str, r'). Inr (String str, r')))"
          by (cases rule: reads_some_cases [OF stringFromStream_reads [of "c # r"]]) simp_all
        moreover note number_from_stream_reads [of c r p t] token_from_stream_reads [of c r]
        ultimately have "\<exists>x. variant_from_stream (Suc n) p t s d = Some x \<and> reads_some (c # r) x"
          using d 2(1) Cons ns by auto
        with l show ?thesis using reads_some_longer by blast
      qed (use d 2 in simp)
    qed (use d in simp)
  qed simp
  then show ?case by (simp add: good_reader_def)
qed (simp add: good_reader_def)

end
