(* ===== verification/Json_Print.thy ===== *)
theory Json_Print
  imports Variant Utf8_Strings
begin

text \<open>
  The JSON generator of \<^verbatim>\<open>src/io/json.cpp\<close>: escaping of strings, the text of a variant, and the indented
  form. The output stream is the list of the characters written; \<open>yield\<close> is the caller's check, which gets
  the number of characters so far and may throw.
\<close>

datatype output_formatting = stringify_large_ints_and_doubles | legacy_generator

type_synonym yield_function = "nat \<Rightarrow> unit result"

definition escape_string_yield_check_count :: nat where
  "escape_string_yield_check_count = 128"

subsection \<open>Escaping\<close>

text \<open>The cases of the switch: the control characters, the five characters with a short escape, the rest.\<close>

definition unicode_escape :: "byte \<Rightarrow> bytes" where
  "unicode_escape c = ascii [CHR 0x5C, CHR ''u'', CHR ''0'', CHR ''0''] @
     [hex_digit_at (unat c div 16), hex_digit_at (unat c mod 16)]"

definition escape_char :: "bool \<Rightarrow> byte \<Rightarrow> bytes" where
  "escape_char escape_control_chars c =
     (if c \<le> 0x08 \<or> c = 0x0b \<or> c = 0x0c \<or> 0x0e \<le> c \<and> c \<le> 0x1f \<or> c = 0x7f then unicode_escape c
      else if escape_control_chars \<and> c = 0x09 then [0x5c, 0x74]
      else if escape_control_chars \<and> c = 0x0a then [0x5c, 0x6e]
      else if escape_control_chars \<and> c = 0x0d then [0x5c, 0x72]
      else if escape_control_chars \<and> c = 0x5c then [0x5c, 0x5c]
      else if escape_control_chars \<and> c = 0x22 then [0x5c, 0x22]
      else [c])"

fun escape_loop :: "yield_function \<Rightarrow> bool \<Rightarrow> nat \<Rightarrow> nat \<Rightarrow> bytes \<Rightarrow> bytes \<Rightarrow> bytes result" where
  "escape_loop yield esc init_size i r [] = Inr r"
| "escape_loop yield esc init_size i r (c # str) =
     and_then (if i mod escape_string_yield_check_count = 0 then yield (init_size + length r) else Inr ()) (\<lambda>_.
       escape_loop yield esc init_size (i + 1) (r @ escape_char esc c) str)"

definition escape_string :: "bytes \<Rightarrow> yield_function \<Rightarrow> bool \<Rightarrow> bytes result" where
  "escape_string str yield escape_control_chars =
     and_then (escape_loop yield escape_control_chars (length str) 0 [] str) (\<lambda>r.
       and_then (is_valid_utf8 r) (\<lambda>valid. if valid then Inr r else prune_invalid_utf8 r))"

subsection \<open>The text of a variant\<close>

definition quoted :: "bytes \<Rightarrow> bytes" where
  "quoted s = [0x22] @ s @ [0x22]"

text \<open>Every kind but arrays and objects.\<close>

fun scalar_to_stream :: "platform \<Rightarrow> yield_function \<Rightarrow> output_formatting \<Rightarrow> variant \<Rightarrow> bytes \<Rightarrow> bytes result" where
  "scalar_to_stream p yield format Null os = Inr (os @ ascii ''null'')"
| "scalar_to_stream p yield format (Int64 i) os =
     (if format = stringify_large_ints_and_doubles \<and> sint i > 0xffffffff
      then and_then (as_string p (Int64 i)) (\<lambda>s. Inr (os @ quoted s))
      else Inr (os @ dec_int (sint i)))"
| "scalar_to_stream p yield format (Uint64 u) os =
     (if format = stringify_large_ints_and_doubles \<and> u > 0xffffffff
      then and_then (as_string p (Uint64 u)) (\<lambda>s. Inr (os @ quoted s))
      else Inr (os @ dec (unat u)))"
| "scalar_to_stream p yield format (Double d) os =
     and_then (as_string p (Double d)) (\<lambda>s.
       if format = stringify_large_ints_and_doubles then Inr (os @ quoted s) else Inr (os @ s))"
| "scalar_to_stream p yield format (Bool b) os = and_then (as_string p (Bool b)) (\<lambda>s. Inr (os @ s))"
| "scalar_to_stream p yield format (String s) os =
     and_then (escape_string s yield True) (\<lambda>e. Inr (os @ quoted e))"
| "scalar_to_stream p yield format (Blob d) os =
     and_then (as_string p (Blob d)) (\<lambda>s. and_then (escape_string s yield True) (\<lambda>e. Inr (os @ quoted e)))"
| "scalar_to_stream p yield format _ os = Inr os"

fun to_stream :: "platform \<Rightarrow> yield_function \<Rightarrow> output_formatting \<Rightarrow> variant \<Rightarrow> bytes \<Rightarrow> bytes result"
  and variants_to_stream :: "platform \<Rightarrow> yield_function \<Rightarrow> output_formatting \<Rightarrow> variant list \<Rightarrow> bytes \<Rightarrow> bytes result"
  and entries_to_stream ::
    "platform \<Rightarrow> yield_function \<Rightarrow> output_formatting \<Rightarrow> (bytes \<times> variant) list \<Rightarrow> bytes \<Rightarrow> bytes result"
where
  "to_stream p yield format (Array a) os =
     and_then (yield (length os)) (\<lambda>_. and_then (yield (length os)) (\<lambda>_.
       and_then (variants_to_stream p yield format a (os @ [0x5b])) (\<lambda>os'. Inr (os' @ [0x5d]))))"
| "to_stream p yield format (Object kvs) os =
     and_then (yield (length os)) (\<lambda>_. and_then (yield (length os)) (\<lambda>_.
       and_then (entries_to_stream p yield format kvs (os @ [0x7b])) (\<lambda>os'. Inr (os' @ [0x7d]))))"
| "to_stream p yield format v os = and_then (yield (length os)) (\<lambda>_. scalar_to_stream p yield format v os)"
| "variants_to_stream p yield format [] os = Inr os"
| "variants_to_stream p yield format (v # vs) os =
     and_then (to_stream p yield format v os) (\<lambda>os'.
       variants_to_stream p yield format vs (if vs \<noteq> [] then os' @ [0x2c] else os'))"
| "entries_to_stream p yield format [] os = Inr os"
| "entries_to_stream p yield format ((k, v) # kvs) os =
     and_then (escape_string k yield True) (\<lambda>e.
       and_then (to_stream p yield format v (os @ quoted e @ [0x3a])) (\<lambda>os'.
         entries_to_stream p yield format kvs (if kvs \<noteq> [] then os' @ [0x2c] else os')))"

definition json_to_string :: "platform \<Rightarrow> yield_function \<Rightarrow> output_formatting \<Rightarrow> variant \<Rightarrow> bytes result" where
  "json_to_string p yield format v =
     and_then (to_stream p yield format v []) (\<lambda>ss. and_then (yield (length ss)) (\<lambda>_. Inr ss))"

subsection \<open>Indentation\<close>

record pretty =
  level :: int
  first :: bool
  quote :: bool
  escape :: bool
  out :: bytes

definition pretty_put :: "bytes \<Rightarrow> pretty \<Rightarrow> pretty" where
  "pretty_put bs st = st\<lparr>out := out st @ bs\<rparr>"

definition pretty_indent :: "byte \<Rightarrow> pretty \<Rightarrow> bytes" where
  "pretty_indent indent st = replicate (nat (level st * uint indent)) 0x20"

definition pretty_start :: "byte \<Rightarrow> pretty \<Rightarrow> pretty" where
  "pretty_start indent st =
     (if first st then (pretty_put (0x0a # pretty_indent indent st) st)\<lparr>first := False\<rparr> else st)"

text \<open>
  One character \<open>c\<close>, with the character before it (at the first there is none, and the source
  reads outside the string).
\<close>

definition pretty_step :: "byte \<Rightarrow> byte option \<Rightarrow> byte \<Rightarrow> pretty \<Rightarrow> pretty result" where
  "pretty_step indent before c st =
     (if c = 0x5c then
        Inr (pretty_put [c] (st\<lparr>escape := (\<not> escape st \<and> quote st)\<rparr>))
      else if c = 0x3a then
        Inr (pretty_put (if \<not> quote st then [0x3a, 0x20] else [0x3a]) st)
      else if c = 0x22 then
        let st1 = pretty_start indent st
        in Inr (pretty_put [0x22] (st1\<lparr>quote := (if \<not> escape st1 then \<not> quote st1 else quote st1), escape := False\<rparr>))
      else if c = 0x7b \<or> c = 0x5b then
        let st1 = pretty_put [c] st
        in Inr (if \<not> quote st1 then st1\<lparr>level := level st1 + 1, first := True\<rparr> else st1\<lparr>escape := False\<rparr>)
      else if c = 0x7d \<or> c = 0x5d then
        if \<not> quote st then
          (case before of
             None \<Rightarrow> Inl Undefined_behaviour
           | Some b \<Rightarrow>
               let st1 = (if b \<noteq> 0x5b \<and> b \<noteq> 0x7b then pretty_put [0x0a] st else st);
                   st2 = st1\<lparr>level := level st1 - 1\<rparr>;
                   st3 = (if \<not> first st2 then pretty_put (pretty_indent indent st2) st2 else st2)
               in Inr (pretty_put [c] (st3\<lparr>first := False\<rparr>)))
        else Inr (pretty_put [c] (st\<lparr>escape := False\<rparr>))
      else if c = 0x2c then
        if \<not> quote st then Inr ((pretty_put [0x2c] st)\<lparr>first := True\<rparr>)
        else Inr (pretty_put [0x2c] (st\<lparr>escape := False\<rparr>))
      else
        let st1 = (if c \<in> {0x6e, 0x62, 0x66, 0x72, 0x74, 0x75} \<and> quote st \<and> escape st then st\<lparr>escape := False\<rparr> else st)
        in Inr (pretty_put [c] (pretty_start indent st1)))"

fun pretty_loop :: "byte \<Rightarrow> byte option \<Rightarrow> bytes \<Rightarrow> pretty \<Rightarrow> pretty result" where
  "pretty_loop indent before [] st = Inr st"
| "pretty_loop indent before (c # v) st = and_then (pretty_step indent before c st) (pretty_loop indent (Some c) v)"

definition pretty_print :: "bytes \<Rightarrow> byte \<Rightarrow> bytes result" where
  "pretty_print v indent =
     and_then (pretty_loop indent None v \<lparr>level = 0, first = False, quote = False, escape = False, out = []\<rparr>)
       (\<lambda>st. Inr (out st))"

definition to_pretty_string :: "platform \<Rightarrow> yield_function \<Rightarrow> output_formatting \<Rightarrow> variant \<Rightarrow> bytes result" where
  "to_pretty_string p yield format v = and_then (json_to_string p yield format v) (\<lambda>s. pretty_print s 2)"

end
