(* ===== verification/Json_Grammar.thy ===== *)
theory Json_Grammar
  imports Json_Total Json_Print Variant_Ops
begin

text \<open>
  A grammar of JSON texts with arbitrary white space, and the proof that the legacy parser turns every text of it into
  the value it stands for. The compact and the indented output of the generator both belong to it.
\<close>

subsection \<open>Texts\<close>

definition control_char :: "byte \<Rightarrow> bool" where
  "control_char c \<longleftrightarrow> c \<le> 0x08 \<or> c = 0x0b \<or> c = 0x0c \<or> 0x0e \<le> c \<and> c \<le> 0x1f \<or> c = 0x7f"

text \<open>Strings that the generator neither prunes nor writes with a unicode escape.\<close>

definition plain_string :: "bytes \<Rightarrow> bool" where
  "plain_string s \<longleftrightarrow> is_valid_utf8 s = Inr True \<and> list_all (\<lambda>c. \<not> control_char c) s"

definition escaped :: "bytes \<Rightarrow> bytes" where
  "escaped s = concat (map (escape_char True) s)"

definition white :: "bytes \<Rightarrow> bool" where
  "white w \<longleftrightarrow> list_all is_space w"

fun scalar_text :: "output_formatting \<Rightarrow> variant \<Rightarrow> bytes option" where
  "scalar_text f Null = Some (ascii ''null'')"
| "scalar_text f (Bool b) = Some (if b then ascii ''true'' else ascii ''false'')"
| "scalar_text f (Uint64 u) =
     (if f = stringify_large_ints_and_doubles \<and> u > 0xffffffff then None else Some (dec (unat u)))"
| "scalar_text f (Int64 i) = (if sint i < 0 then Some (dec_int (sint i)) else None)"
| "scalar_text f (String s) = (if plain_string s then Some (quoted (escaped s)) else None)"
| "scalar_text f _ = None"

inductive json_value :: "output_formatting \<Rightarrow> variant \<Rightarrow> bytes \<Rightarrow> bool"
  and json_items :: "output_formatting \<Rightarrow> variant list \<Rightarrow> bytes \<Rightarrow> bool"
  and json_members :: "output_formatting \<Rightarrow> (bytes \<times> variant) list \<Rightarrow> bytes \<Rightarrow> bool"
  for f
where
  scalar: "scalar_text f v = Some t \<Longrightarrow> json_value f v t"
| array: "json_items f vs t \<Longrightarrow> json_value f (Array vs) (0x5b # t)"
| object: "json_members f kvs t \<Longrightarrow> json_value f (Object kvs) (0x7b # t)"
| items_nil: "white w \<Longrightarrow> json_items f [] (w @ [0x5d])"
| items_last: "white w \<Longrightarrow> json_value f v t \<Longrightarrow> white w' \<Longrightarrow> json_items f [v] (w @ t @ w' @ [0x5d])"
| items_cons: "white w \<Longrightarrow> json_value f v t \<Longrightarrow> white w' \<Longrightarrow> json_items f vs t' \<Longrightarrow>
    json_items f (v # vs) (w @ t @ w' @ 0x2c # t')"
| members_nil: "white w \<Longrightarrow> json_members f [] (w @ [0x7d])"
| members_last: "white w \<Longrightarrow> plain_string k \<Longrightarrow> white w1 \<Longrightarrow> white w2 \<Longrightarrow> json_value f v t \<Longrightarrow> white w3 \<Longrightarrow>
    json_members f [(k, v)] (w @ quoted (escaped k) @ w1 @ 0x3a # w2 @ t @ w3 @ [0x7d])"
| members_cons: "white w \<Longrightarrow> plain_string k \<Longrightarrow> white w1 \<Longrightarrow> white w2 \<Longrightarrow> json_value f v t \<Longrightarrow> white w3 \<Longrightarrow>
    json_members f kvs t' \<Longrightarrow>
    json_members f ((k, v) # kvs) (w @ quoted (escaped k) @ w1 @ 0x3a # w2 @ t @ w3 @ 0x2c # t')"

subsection \<open>Reading strings, numbers and words\<close>

lemma string_loop_escaped:
  "list_all (\<lambda>c. \<not> control_char c) s \<Longrightarrow> string_loop token (escaped s @ 0x22 # rest) = Inr (token @ s, rest)"
proof (induction s arbitrary: token)
  case (Cons c s)
  then have "\<not> control_char c" and "string_loop (token @ [c]) (escaped s @ 0x22 # rest) = Inr ((token @ [c]) @ s, rest)"
    by simp_all
  then show ?case
    by (auto simp: escaped_def escape_char_def control_char_def parseEscape_def peek_def)
qed (simp add: escaped_def)

lemma stringFromStream_quoted:
  "plain_string s \<Longrightarrow> stringFromStream (quoted (escaped s) @ rest) = Inr (s, rest)"
  using string_loop_escaped [of s "[]" rest] by (simp add: stringFromStream_def peek_def quoted_def plain_string_def)

text \<open>What may follow a number or a word without becoming part of it.\<close>

definition delimited :: "bytes \<Rightarrow> bool" where
  "delimited rest \<longleftrightarrow> (case rest of [] \<Rightarrow> True | c # _ \<Rightarrow> is_space c \<or> c = 0x2c \<or> c = 0x5d \<or> c = 0x7d)"

lemma delimited_char:
  "delimited (c # r) \<Longrightarrow> c \<noteq> 0x2e \<and> \<not> is_digit c \<and> c \<noteq> 0 \<and> \<not> isalnum c \<and> \<not> token_letter c"
  by (auto simp: delimited_def is_space_def is_digit_def isalnum_def token_letter_def ascii_def)

lemma number_loop_digits:
  "list_all is_digit ds \<Longrightarrow> delimited rest \<Longrightarrow> number_loop dot ss (ds @ rest) = Inr (Inr (dot, ss @ ds, rest))"
proof (induction ds arbitrary: ss)
  case Nil
  then show ?case using delimited_char by (cases rest) auto
next
  case (Cons d ds)
  then have "d \<noteq> 0x2e" by (auto simp: is_digit_def)
  with Cons show ?case by simp
qed

lemma dec_cons: obtains c r where "dec n = c # r" "is_digit c"
  using dec_digits [of n] dec_not_nil [of n] by (cases "dec n") auto

lemma number_from_stream_dec:
  assumes p: "decimal_casts p" and d: "delimited rest"
  shows "number_from_stream p t (dec (unat u) @ rest) = Inr (Uint64 u, rest)"
proof -
  obtain c r where c: "dec (unat u) = c # r" "is_digit c" by (rule dec_cons)
  then have "c \<noteq> 0x2d" "c \<noteq> 0x2e" by (auto simp: is_digit_def)
  moreover have "lex_uint64 p (dec (unat u)) = Some u" using p by (simp add: decimal_casts_def)
  ultimately show ?thesis
    using number_loop_digits [OF dec_digits d, of False "[]" "unat u"] c
    by (simp add: number_from_stream_def peek_def Let_def ascii_def to_uint64_def)
qed

lemma number_from_stream_neg:
  assumes p: "decimal_casts p" and d: "delimited rest" and i: "sint i < 0"
  shows "number_from_stream p t (dec_int (sint i) @ rest) = Inr (Int64 i, rest)"
proof -
  obtain c r where c: "dec (nat (- sint i)) = c # r" "is_digit c" by (rule dec_cons)
  then have "c \<noteq> 0x2e" by (auto simp: is_digit_def)
  moreover have "lex_int64 p (dec_int (sint i)) = Some i" using p by (simp add: decimal_casts_def)
  ultimately show ?thesis
    using number_loop_digits [OF dec_digits d, of False "[0x2d]" "nat (- sint i)"] c i
    by (simp add: number_from_stream_def peek_def Let_def ascii_def to_int64_def dec_int_def)
qed

lemma token_from_stream_word:
  assumes "delimited rest"
  shows "token_from_stream (ascii ''null'' @ rest) = Inr (Null, rest)"
    "token_from_stream (ascii ''true'' @ rest) = Inr (Bool True, rest)"
    "token_from_stream (ascii ''false'' @ rest) = Inr (Bool False, rest)"
proof -
  have r: "takeWhile token_letter rest = []" "dropWhile token_letter rest = rest"
    using assms delimited_char by (cases rest; auto)+
  have "list_all token_letter (ascii ''null'')" "list_all token_letter (ascii ''true'')" "list_all token_letter (ascii ''false'')"
    by (simp_all add: token_letter_def ascii_def)
  then show "token_from_stream (ascii ''null'' @ rest) = Inr (Null, rest)"
    "token_from_stream (ascii ''true'' @ rest) = Inr (Bool True, rest)"
    "token_from_stream (ascii ''false'' @ rest) = Inr (Bool False, rest)"
    using r by (simp_all add: token_from_stream_def ascii_def)
qed

subsection \<open>Reading the grammar\<close>

declare object_loop.simps [simp del] array_loop.simps [simp del] variant_from_stream.simps [simp del]

lemma skip_white:
  assumes "white w" and "\<not> is_space c" and "c \<noteq> 0"
  shows "skip_white_space (w @ c # x) = Inr (w \<noteq> [], c # x)"
proof -
  have "skip_white_space_from b (w @ c # x) = Inr (b \<or> w \<noteq> [], c # x)" for b
    using assms by (induction w arbitrary: b) (auto simp: white_def)
  then show ?thesis by (simp add: skip_white_space_def)
qed

lemma scalar_head:
  assumes "scalar_text f v = Some t"
  shows "\<exists>c r. t = c # r \<and> (c = 0x22 \<or> c = 0x2d \<or> is_digit c \<or> c = 0x6e \<or> c = 0x74 \<or> c = 0x66)"
proof -
  have digit: "\<exists>c r. dec n = c # r \<and> (c = 0x22 \<or> c = 0x2d \<or> is_digit c \<or> c = 0x6e \<or> c = 0x74 \<or> c = 0x66)" for n
    using dec_cons [of n] by blast
  show ?thesis
  proof (cases v)
    case (Uint64 u)
    with assms have "t = dec (unat u)" by (simp split: if_splits)
    with digit [of "unat u"] show ?thesis by simp
  qed (use assms in \<open>auto simp: ascii_def quoted_def dec_int_def split: if_splits\<close>)
qed

lemma value_head:
  assumes "json_value f v t"
  obtains c r where "t = c # r" "\<not> is_space c" "c \<noteq> 0" "c \<noteq> 0x5d" "c \<noteq> 0x2c" "c \<noteq> 0x7d"
proof (rule json_value.cases [OF assms])
  fix v' t' assume "t = t'" "scalar_text f v' = Some t'"
  then obtain c r where c: "t = c # r" "c = 0x22 \<or> c = 0x2d \<or> is_digit c \<or> c = 0x6e \<or> c = 0x74 \<or> c = 0x66"
    using scalar_head [of f v' t'] by blast
  then have "\<not> is_space c" "c \<noteq> 0" "c \<noteq> 0x5d" "c \<noteq> 0x2c" "c \<noteq> 0x7d" by (auto simp: is_space_def is_digit_def)
  with c(1) show ?thesis by (rule that)
qed (auto intro: that simp: is_space_def)

lemma white_char: "white (c # w) \<Longrightarrow> c \<noteq> 0x5d \<and> c \<noteq> 0x2c \<and> c \<noteq> 0x7d"
  by (auto simp: white_def is_space_def)

lemma delimited_white: "white w \<Longrightarrow> c = 0x2c \<or> c = 0x5d \<or> c = 0x7d \<Longrightarrow> delimited (w @ c # x)"
  by (cases w) (auto simp: delimited_def white_def)

lemma array_loop_white:
  assumes w: "white w" and c: "\<not> is_space c" "c \<noteq> 0" and n: "length (w @ c # x) < n"
    and r: "\<And>n. length (c # x) < n \<Longrightarrow> array_loop n value ar (c # x) d = R"
  shows "array_loop n value ar (w @ c # x) d = R"
proof (cases w)
  case (Cons a w')
  obtain m where m: "n = Suc m" using n by (cases n) auto
  show ?thesis
    using skip_white [OF w c, of x] white_char [of a w'] w r [of m] n
    unfolding m array_loop.simps by (simp add: Cons peek_def)
qed (use r n in simp)

lemma object_loop_white:
  assumes w: "white w" and c: "\<not> is_space c" "c \<noteq> 0" and n: "length (w @ c # x) < n"
    and r: "\<And>n. length (c # x) < n \<Longrightarrow> object_loop n value obj (c # x) d = R"
  shows "object_loop n value obj (w @ c # x) d = R"
proof (cases w)
  case (Cons a w')
  obtain m where m: "n = Suc m" using n by (cases n) auto
  show ?thesis
    using skip_white [OF w c, of x] white_char [of a w'] w r [of m] n
    unfolding m object_loop.simps by (simp add: Cons peek_def)
qed (use r n in simp)

lemma variant_from_stream_step:
  assumes "white w" and "\<not> is_space c" and "c \<noteq> 0" and "d \<noteq> 0"
  shows "variant_from_stream (Suc n) p pt (w @ c # r) d =
     (if c = 0x22 then Some (and_then (stringFromStream (c # r)) (\<lambda>(str, r'). Inr (String str, r')))
      else if c = 0x7b then objectFromStream (variant_from_stream n p pt) (c # r) (d - 1)
      else if c = 0x5b then arrayFromStream (variant_from_stream n p pt) (c # r) (d - 1)
      else if c = 0x2d \<or> c = 0x2e \<or> is_digit c then Some (number_from_stream p pt (c # r))
      else if c = 0x6e \<or> c = 0x74 \<or> c = 0x66 then Some (token_from_stream (c # r))
      else if c = 0x04 \<or> c = 0xff then Some (Inl Eof_error)
      else Some (Inl Parse_error))"
  unfolding variant_from_stream.simps using assms skip_white [OF assms(1-3), of r] by simp

lemma variant_from_stream_scalar:
  assumes p: "decimal_casts p" and t: "scalar_text f v = Some t" and w: "white w" and r: "delimited rest" and d: "d \<noteq> 0"
  shows "variant_from_stream (Suc n) p pt (w @ t @ rest) d = Some (Inr (v, rest))"
proof -
  from scalar_head [OF t] obtain c x where c: "t = c # x"
    "c = 0x22 \<or> c = 0x2d \<or> is_digit c \<or> c = 0x6e \<or> c = 0x74 \<or> c = 0x66" by blast
  then have "\<not> is_space c" "c \<noteq> 0" by (auto simp: is_space_def is_digit_def)
  note step = variant_from_stream_step [OF w this d, of n p pt "x @ rest"]
  have dig: "\<not> is_digit 0x22" "\<not> is_digit 0x6e" "\<not> is_digit 0x74" "\<not> is_digit 0x66" by (simp_all add: is_digit_def)
  have notquote: "c \<noteq> 0x22 \<and> c \<noteq> 0x7b \<and> c \<noteq> 0x5b" if "is_digit c" using that by (auto simp: is_digit_def)
  show ?thesis
  proof (cases v)
    case (String s)
    with t c(1) stringFromStream_quoted [of s rest] step show ?thesis by (auto simp: quoted_def split: if_splits)
  next
    case (Uint64 u)
    obtain c' x' where "dec (unat u) = c' # x'" "is_digit c'" by (rule dec_cons)
    with t c(1) number_from_stream_dec [OF p r, of pt u] step notquote Uint64 show ?thesis by (auto split: if_splits)
  next
    case (Int64 i)
    with t c(1) number_from_stream_neg [OF p r, of i pt] step show ?thesis by (auto simp: dec_int_def split: if_splits)
  qed (use t c token_from_stream_word [OF r] step dig in \<open>auto simp: ascii_def split: if_splits\<close>)
qed

lemma unat_minus_1: "d \<noteq> 0 \<Longrightarrow> unat (d - 1 :: u32) = unat d - 1"
  by (simp add: unat_minus_one)

text \<open>
  The loop of an array on the rest of its text, which starts with the first character that is no white
  space, once the items are known to be read as values.
\<close>

lemma array_loop_end: "0 < n \<Longrightarrow> array_loop n value ar (0x5d # rest) d = Some (Inr (Array ar, rest))"
  by (cases n) (simp_all add: array_loop.simps peek_def)

lemma object_loop_end: "0 < n \<Longrightarrow> object_loop n value obj (0x7d # rest) d = Some (Inr (Object obj, rest))"
  by (cases n) (simp_all add: object_loop.simps peek_def)

lemma array_loop_comma: "array_loop (Suc n) value ar (0x2c # x) d = array_loop n value ar x d"
  by (simp add: array_loop.simps peek_def)

lemma object_loop_comma: "object_loop (Suc n) value obj (0x2c # x) d = object_loop n value obj x d"
  by (simp add: object_loop.simps peek_def)

lemma array_loop_item:
  assumes t: "t = c # x" "\<not> is_space c" "c \<noteq> 0" "c \<noteq> 0x5d" "c \<noteq> 0x2c" and w: "white w" and e: "e = 0x5d \<or> e = 0x2c"
    and v: "value (t @ w @ e # y) (d - 1) = Some (Inr (v, w @ e # y))"
  shows "array_loop (Suc n) value ar (t @ w @ e # y) d = array_loop n value (ar @ [v]) (e # y) d"
proof -
  have "skip_white_space (t @ w @ e # y) = Inr (False, t @ w @ e # y)"
    using skip_white [of "[]" c "x @ w @ e # y"] t by (simp add: white_def)
  moreover have "skip_white_space (w @ e # y) = Inr (w \<noteq> [], e # y)"
    using e by (intro skip_white [OF w]) (auto simp: is_space_def)
  ultimately show ?thesis using v t by (simp add: array_loop.simps peek_def)
qed

lemma object_loop_member:
  assumes k: "plain_string k" and w: "white w1"
    and v: "value y (d - 1) = Some (Inr (v, z))"
  shows "object_loop (Suc n) value obj (quoted (escaped k) @ w1 @ 0x3a # y) d = object_loop n value (obj @ [(k, v)]) z d"
proof -
  have "skip_white_space (quoted (escaped k) @ w1 @ 0x3a # y) = Inr (False, quoted (escaped k) @ w1 @ 0x3a # y)"
    using skip_white [of "[]" "0x22" "escaped k @ 0x22 # w1 @ 0x3a # y"]
    by (simp add: white_def quoted_def is_space_def)
  moreover have "skip_white_space (w1 @ 0x3a # y) = Inr (w1 \<noteq> [], 0x3a # y)"
    by (rule skip_white [OF w]) (simp_all add: is_space_def)
  moreover note stringFromStream_quoted [OF k, of "w1 @ 0x3a # y"]
  ultimately show ?thesis using v by (simp add: object_loop.simps peek_def quoted_def)
qed

lemma white_split:
  assumes "w0 @ c # y = w @ x" "white w0" "white w" "\<not> is_space c" "x \<noteq> []" "\<not> is_space (hd x)"
  shows "w = w0 \<and> x = c # y"
proof -
  have "dropWhile is_space (w0 @ c # y) = c # y" using assms(2,4) by (simp add: white_def list_all_iff)
  moreover have "dropWhile is_space (w @ x) = x" using assms(3,5,6) by (cases x) (simp_all add: white_def list_all_iff)
  ultimately show ?thesis using assms(1) by simp
qed

lemma items_split:
  assumes "json_items f vs t"
  obtains w c y where "t = w @ c # y" "white w" "\<not> is_space c" "c \<noteq> 0"
proof (rule json_items.cases [OF assms])
  fix w assume "t = w @ [0x5d]" "white w"
  then show ?thesis by (intro that [of w "0x5d" "[]"]) (simp_all add: is_space_def)
next
  fix w v u w' assume t: "t = w @ u @ w' @ [0x5d]" "white w" and v: "json_value f v u"
  obtain c r where "u = c # r" "\<not> is_space c" "c \<noteq> 0" using v by (rule value_head)
  with t show ?thesis by (intro that [of w c "r @ w' @ [0x5d]"]) simp_all
next
  fix w v u w' vs' t' assume t: "t = w @ u @ w' @ 0x2c # t'" "white w" and v: "json_value f v u"
  obtain c r where "u = c # r" "\<not> is_space c" "c \<noteq> 0" using v by (rule value_head)
  with t show ?thesis by (intro that [of w c "r @ w' @ 0x2c # t'"]) simp_all
qed

lemma depth_step: "2 * k + 1 < unat (d :: u32) \<Longrightarrow> 2 * k < unat (d - 1)"
  by (cases "d = 0") (simp_all add: unat_minus_1)

lemma parse_grammar:
  assumes p: "decimal_casts p"
  shows "json_value f v t \<Longrightarrow> (\<And>w rest n d. white w \<Longrightarrow> delimited rest \<Longrightarrow> length (w @ t @ rest) < n \<Longrightarrow>
      2 * nesting v < unat d \<Longrightarrow> variant_from_stream n p pt (w @ t @ rest) d = Some (Inr (v, rest)))"
    and "json_items f vs t \<Longrightarrow> (\<And>w x rest m n d ar. t = w @ x \<Longrightarrow> white w \<Longrightarrow> \<not> is_space (hd x) \<Longrightarrow> x \<noteq> [] \<Longrightarrow>
      length (x @ rest) < n \<Longrightarrow> length (x @ rest) < m \<Longrightarrow> \<forall>v \<in> set vs. 2 * nesting v + 1 < unat d \<Longrightarrow>
      array_loop n (variant_from_stream m p pt) ar (x @ rest) d = Some (Inr (Array (ar @ vs), rest)))"
    and "json_members f kvs t \<Longrightarrow> (\<And>rest m n d obj. length (t @ rest) < n \<Longrightarrow> length (t @ rest) < m \<Longrightarrow>
      \<forall>(k, v) \<in> set kvs. 2 * nesting v + 1 < unat d \<Longrightarrow>
      object_loop n (variant_from_stream m p pt) obj (t @ rest) d = Some (Inr (Object (obj @ kvs), rest)))"
proof (induction rule: json_value_json_items_json_members.inducts)
  case (scalar v t)
  obtain n' where "n = Suc n'" using scalar(4) by (cases n) auto
  moreover have "d \<noteq> 0" using scalar(5) by auto
  ultimately show ?case using scalar variant_from_stream_scalar [OF p] by simp
next
  case (array vs t)
  obtain n' where n: "n = Suc n'" using array.prems(3) by (cases n) auto
  have d: "d \<noteq> 0" using array.prems(4) by auto
  obtain u c y where t: "t = u @ c # y" "white u" "\<not> is_space c" "c \<noteq> 0" using array.IH(1) by (rule items_split)
  have "\<forall>v \<in> set vs. 2 * nesting v + 1 < unat (d - 1)"
    using nesting_item array.prems(4) unat_minus_1 [OF d] by fastforce
  then have "array_loop (length (0x5b # t @ rest)) (variant_from_stream n' p pt) [] ((c # y) @ rest) (d - 1) =
      Some (Inr (Array ([] @ vs), rest))"
    using array.prems(3) t n by (intro array.IH(2) [of u "c # y"]) auto
  then have "arrayFromStream (variant_from_stream n' p pt) (0x5b # t @ rest) (d - 1) = Some (Inr (Array vs, rest))"
    using skip_white [OF t(2-4), of "y @ rest"] t(1) by (simp add: arrayFromStream_def peek_def)
  then show ?case
    using variant_from_stream_step [OF array.prems(1) _ _ d, of "0x5b" n' p pt "t @ rest"] n by (simp add: is_space_def)
next
  case (object kvs t)
  obtain n' where n: "n = Suc n'" using object.prems(3) by (cases n) auto
  have d: "d \<noteq> 0" using object.prems(4) by auto
  have "\<forall>(k, v) \<in> set kvs. 2 * nesting v + 1 < unat (d - 1)"
    using nesting_member object.prems(4) unat_minus_1 [OF d] by fastforce
  then have "object_loop (length (0x7b # t @ rest)) (variant_from_stream n' p pt) [] (t @ rest) (d - 1) =
      Some (Inr (Object ([] @ kvs), rest))"
    using object.prems(3) n by (intro object.IH(2)) auto
  then have "objectFromStream (variant_from_stream n' p pt) (0x7b # t @ rest) (d - 1) = Some (Inr (Object kvs, rest))"
    by (simp add: objectFromStream_def peek_def)
  then show ?case
    using variant_from_stream_step [OF object.prems(1) _ _ d, of "0x7b" n' p pt "t @ rest"] n by (simp add: is_space_def)
next
  case (items_nil u)
  then have "x = [0x5d]" using white_split [of u "0x5d" "[]" w x] by (simp add: is_space_def)
  then show ?case using array_loop_end [of n] items_nil.prems(5) by simp
next
  case (items_last u v t w')
  obtain c r where t: "t = c # r" "\<not> is_space c" "c \<noteq> 0" "c \<noteq> 0x5d" "c \<noteq> 0x2c" using items_last.IH(1) by (rule value_head)
  have x: "x = t @ w' @ [0x5d]" using white_split [of u c "r @ w' @ [0x5d]" w x] items_last.prems items_last.hyps t by simp
  obtain n' where n: "n = Suc n'" using items_last.prems(5) by (cases n) auto
  have "variant_from_stream m p pt ([] @ t @ w' @ 0x5d # rest) (d - 1) = Some (Inr (v, w' @ 0x5d # rest))"
    using items_last.prems items_last.hyps x depth_step delimited_white
    by (intro items_last.IH(2)) (auto simp: white_def)
  then show ?case
    using array_loop_item [OF t items_last.hyps(2), of "0x5d" _ rest] array_loop_end [of n'] items_last.prems(5) x n t(1)
    by simp
next
  case (items_cons u v t w' vs t')
  obtain c r where t: "t = c # r" "\<not> is_space c" "c \<noteq> 0" "c \<noteq> 0x5d" "c \<noteq> 0x2c" using items_cons.IH(1) by (rule value_head)
  have x: "x = t @ w' @ 0x2c # t'" using white_split [of u c "r @ w' @ 0x2c # t'" w x] items_cons.prems items_cons.hyps t by simp
  obtain n' where n: "n = Suc (Suc n')" using items_cons.prems(5) x t by (cases n; cases "n - 1") auto
  have "variant_from_stream m p pt ([] @ t @ w' @ 0x2c # t' @ rest) (d - 1) = Some (Inr (v, w' @ 0x2c # t' @ rest))"
    using items_cons.prems items_cons.hyps x depth_step delimited_white
    by (intro items_cons.IH(2)) (auto simp: white_def)
  then have "array_loop n (variant_from_stream m p pt) ar (x @ rest) d =
      array_loop n' (variant_from_stream m p pt) (ar @ [v]) (t' @ rest) d"
    using array_loop_item [OF t items_cons.hyps(2), of "0x2c" _ "t' @ rest"] array_loop_comma x n t(1) by simp
  also have "\<dots> = Some (Inr (Array ((ar @ [v]) @ vs), rest))"
  proof -
    obtain w2 c2 y where t': "t' = w2 @ c2 # y" "white w2" "\<not> is_space c2" "c2 \<noteq> 0"
      using items_cons.IH(3) by (rule items_split)
    have "array_loop k (variant_from_stream m p pt) (ar @ [v]) ((c2 # y) @ rest) d = Some (Inr (Array ((ar @ [v]) @ vs), rest))"
      if "length ((c2 # y) @ rest) < k" for k
      using items_cons.prems x t' that by (intro items_cons.IH(4) [of w2 "c2 # y"]) auto
    then show ?thesis
      using array_loop_white [OF t'(2-4), of "y @ rest" n'] items_cons.prems(5) x n t t'(1) by simp
  qed
  finally show ?case by simp
next
  case (members_nil u)
  have "object_loop k (variant_from_stream m p pt) obj (0x7d # rest) d = Some (Inr (Object obj, rest))" if "0 < k" for k
    by (rule object_loop_end [OF that])
  then show ?case
    using object_loop_white [OF members_nil(1), of "0x7d" rest n] members_nil.prems by (simp add: is_space_def)
next
  case (members_last u k w1 w2 v t w3)
  let ?y = "w2 @ t @ w3 @ 0x7d # rest"
  have v: "variant_from_stream m p pt ?y (d - 1) = Some (Inr (v, w3 @ 0x7d # rest))"
    using members_last.prems members_last.hyps depth_step delimited_white
    by (intro members_last.IH(2)) auto
  have fin: "object_loop k' (variant_from_stream m p pt) obj' (w3 @ 0x7d # rest) d = Some (Inr (Object obj', rest))"
    if "length (w3 @ 0x7d # rest) < k'" for k' obj'
    using object_loop_white [OF members_last.hyps(5) _ _ that] object_loop_end by (simp add: is_space_def)
  have "object_loop k' (variant_from_stream m p pt) obj (quoted (escaped k) @ w1 @ 0x3a # ?y) d =
      Some (Inr (Object (obj @ [(k, v)]), rest))" if "length (quoted (escaped k) @ w1 @ 0x3a # ?y) < k'" for k'
    using that object_loop_member [of k w1 "variant_from_stream m p pt" ?y d, OF members_last.hyps(2,3) v] fin by (cases k') simp_all
  then show ?case
    using object_loop_white [OF members_last.hyps(1), of "0x22" "escaped k @ 0x22 # w1 @ 0x3a # ?y" n] members_last.prems(1)
    by (simp add: is_space_def quoted_def)
next
  case (members_cons u k w1 w2 v t w3 kvs t')
  let ?y = "w2 @ t @ w3 @ 0x2c # t' @ rest"
  have v: "variant_from_stream m p pt ?y (d - 1) = Some (Inr (v, w3 @ 0x2c # t' @ rest))"
    using members_cons.prems members_cons.hyps depth_step delimited_white
    by (intro members_cons.IH(2)) auto
  have fin: "object_loop k' (variant_from_stream m p pt) obj' (w3 @ 0x2c # t' @ rest) d = Some (Inr (Object (obj' @ kvs), rest))"
    if "length (w3 @ 0x2c # t' @ rest) < k'" for k' obj'
  proof (rule object_loop_white [OF members_cons.hyps(5) _ _ that])
    fix j assume "length (0x2c # t' @ rest) < j"
    then obtain i where "j = Suc i" "length (t' @ rest) < i" by (cases j) auto
    then show "object_loop j (variant_from_stream m p pt) obj' (0x2c # t' @ rest) d = Some (Inr (Object (obj' @ kvs), rest))"
      using members_cons.IH(4) [of rest i m d obj'] members_cons.prems by (simp add: object_loop_comma)
  qed (simp_all add: is_space_def)
  have "object_loop k' (variant_from_stream m p pt) obj (quoted (escaped k) @ w1 @ 0x3a # ?y) d =
      Some (Inr (Object ((obj @ [(k, v)]) @ kvs), rest))" if "length (quoted (escaped k) @ w1 @ 0x3a # ?y) < k'" for k'
    using that object_loop_member [of k w1 "variant_from_stream m p pt" ?y d, OF members_cons.hyps(2,3) v] fin by (cases k') simp_all
  then show ?case
    using object_loop_white [OF members_cons.hyps(1), of "0x22" "escaped k @ 0x22 # w1 @ 0x3a # ?y" n] members_cons.prems(1)
    by (simp add: is_space_def quoted_def)
qed

end
