(* ===== verification/Json_Relaxed.thy ===== *)
theory Json_Relaxed
  imports Json_Total
begin

text \<open>
  The second JSON parser, \<^verbatim>\<open>fc/io/json_relaxed.hpp\<close>, strict or relaxed by a template argument, and the entry
  points of \<^verbatim>\<open>json.cpp\<close> that choose between the parsers. The input stream is the list of characters left; \<open>None\<close>
  is a call that does not return.
\<close>

definition token_char :: "byte \<Rightarrow> bool" where
  "token_char c \<longleftrightarrow> isalnum c \<or> c \<in> set (ascii ''_-.+/'')"

subsection \<open>Tokens and strings\<close>

text \<open>A separator after the token is consumed with it.\<close>

function token_stream_loop :: "bytes \<Rightarrow> bytes \<Rightarrow> (bytes \<times> bytes) result" where
  "token_stream_loop token [] = Inr (token, [])"
| "token_stream_loop token (c # s) =
     (if c = 0x5c then and_then (parseEscape (c # s)) (\<lambda>(e, r). token_stream_loop (token @ [e]) r)
      else if c \<in> {0x09, 0x20, 0x2c, 0x3a, 0x00, 0x0a, 0x04} then Inr (token, s)
      else if token_char c then token_stream_loop (token @ [c]) s
      else Inr (token, c # s))"
  by pat_completeness auto
termination
  by (relation "measure (\<lambda>(token, s). length s)") (auto dest: parseEscape_shorter)

definition tokenFromStream :: "bytes \<Rightarrow> (bytes \<times> bytes) result" where
  "tokenFromStream s = token_stream_loop [] s"

text \<open>
  The loop inside triple quotes. At the end of the input \<^verbatim>\<open>peek\<close> gives \<^verbatim>\<open>EOF\<close>, which is none of the characters the
  loop looks for: it appends it and goes on. The first argument bounds the number of iterations.
\<close>

fun triple_loop :: "nat \<Rightarrow> bool \<Rightarrow> byte \<Rightarrow> bytes \<Rightarrow> bytes \<Rightarrow> (bytes \<times> bytes) result option" where
  "triple_loop 0 allow_escape q token s = None"
| "triple_loop (Suc n) allow_escape q token [] = triple_loop n allow_escape q (token @ [0xff]) []"
| "triple_loop (Suc n) allow_escape q token (c # s) =
     (if c = q then
        if peek s = Some q then
          if peek (tl s) = Some q then Some (Inr (token, tl (tl s)))
          else triple_loop n allow_escape q (token @ [q, q]) (tl s)
        else triple_loop n allow_escape q (token @ [q]) s
      else if c = 0x04 then Some (Inl Parse_error)
      else if allow_escape \<and> c = 0x5c then
        next_step (Some (parseEscape (c # s))) (\<lambda>(e, r). triple_loop n allow_escape q (token @ [e]) r)
      else triple_loop n allow_escape q (token @ [c]) s)"

function quote_loop :: "bool \<Rightarrow> byte \<Rightarrow> bytes \<Rightarrow> bytes \<Rightarrow> (bytes \<times> bytes) result" where
  "quote_loop allow_escape q token [] = Inl Eof_error"
| "quote_loop allow_escape q token (c # s) =
     (if c = 0xff then Inl Eof_error
      else if c = q then Inr (token, s)
      else if c = 0x04 then Inl Parse_error
      else if allow_escape \<and> c = 0x5c then
        and_then (parseEscape (c # s)) (\<lambda>(e, r). quote_loop allow_escape q (token @ [e]) r)
      else if c = 0x0d \<or> c = 0x0a then Inl Parse_error
      else quote_loop allow_escape q (token @ [c]) s)"
  by pat_completeness auto
termination
  by (relation "measure (\<lambda>(a, q, token, s). length s)") (auto dest: parseEscape_shorter)

definition quoteStringFromStream :: "bool \<Rightarrow> bool \<Rightarrow> bytes \<Rightarrow> (bytes \<times> bytes) result option" where
  "quoteStringFromStream strict allow_escape s =
     (case s of
        [] \<Rightarrow> Some (Inl Parse_error)
      | q # r \<Rightarrow>
          if q = 0x27 \<and> strict \<or> q \<noteq> 0x27 \<and> q \<noteq> 0x22 then Some (Inl Parse_error)
          else if peek r = Some q then
            if peek (tl r) \<noteq> Some q then Some (Inr ([], tl r))
            else if strict then Some (Inl Parse_error)
            else triple_loop (Suc (length r)) allow_escape q [] (tl (tl r))
          else Some (quote_loop allow_escape q [] r))"

definition relaxed_stringFromStream :: "bool \<Rightarrow> bytes \<Rightarrow> (bytes \<times> bytes) result option" where
  "relaxed_stringFromStream strict s =
     (case s of
        [] \<Rightarrow> Some (Inl Eof_error)
      | c # r \<Rightarrow>
          if c = 0x27 \<and> strict then Some (Inl Parse_error)
          else if c = 0x27 \<or> c = 0x22 then quoteStringFromStream strict True s
          else if c = 0x72 \<or> c = 0x52 then
            if strict then Some (Inl Parse_error)
            else if peek r = Some 0x22 \<or> peek r = Some 0x27 then quoteStringFromStream strict False r
            else Some (and_then (tokenFromStream r) (\<lambda>(t, r'). Inr (c # t, r')))
          else if token_char c then if strict then Some (Inl Parse_error) else Some (tokenFromStream s)
          else if c = 0xff then Some (Inl Eof_error)
          else Some (Inl Parse_error))"

subsection \<open>Numbers\<close>

definition char_value :: "byte \<Rightarrow> byte" where
  "char_value c =
     (if is_digit c then c - 0x30
      else if 0x61 \<le> c \<and> c \<le> 0x7a then c - 0x61 + 10
      else if 0x41 \<le> c \<and> c \<le> 0x5a then c - 0x41 + 10
      else 0xff)"

fun parse_int_loop :: "u64 \<Rightarrow> u64 \<Rightarrow> bytes \<Rightarrow> u64 result" where
  "parse_int_loop base val [] = Inr val"
| "parse_int_loop base val (c # cs) =
     (let vc = char_value c
      in if vc = 0xff then Inl Parse_error
         else if val > (- 1) div base then Inl Parse_error
         else let val' = val * base; newval = val' + ucast vc
              in if newval < val' then Inl Parse_error else parse_int_loop base newval cs)"

text \<open>\<open>digits\<close> is the token from the position \<^verbatim>\<open>start\<close> on.\<close>

definition parseInt :: "u64 \<Rightarrow> bytes \<Rightarrow> bytes \<Rightarrow> variant result" where
  "parseInt base token digits =
     (if digits = [] then Inl Parse_error
      else and_then (parse_int_loop base 0 digits) (\<lambda>val.
        if peek token = Some 0x2d then
          if val > 0x8000000000000000 then Inl Parse_error
          else if val = 0x8000000000000000 then Inr (Int64 0x8000000000000000)
          else Inr (Int64 (- val))
        else Inr (Uint64 val)))"

definition maybeParseInt :: "bool \<Rightarrow> u64 \<Rightarrow> bytes \<Rightarrow> bytes \<Rightarrow> variant result" where
  "maybeParseInt strict base token digits =
     (case parseInt base token digits of
        Inl e \<Rightarrow> if e = Parse_error \<and> \<not> strict then Inr (String token) else Inl e
      | Inr v \<Rightarrow> Inr v)"

text \<open>In strict mode what is no number is an error, otherwise the token itself is the value.\<close>

definition or_string :: "bool \<Rightarrow> bytes \<Rightarrow> variant result" where
  "or_string strict token = (if strict then Inl Parse_error else Inr (String token))"

fun exponent_loop :: "platform \<Rightarrow> bool \<Rightarrow> bytes \<Rightarrow> bytes \<Rightarrow> variant result" where
  "exponent_loop p strict token [] = and_then (to_double p (c_str token)) (\<lambda>d. Inr (Double d))"
| "exponent_loop p strict token (c # r) =
     (if is_digit c then exponent_loop p strict token r
      else if token_char c then or_string strict token
      else exponent_loop p strict token r)"

definition exponent :: "platform \<Rightarrow> bool \<Rightarrow> bytes \<Rightarrow> bytes \<Rightarrow> variant result" where
  "exponent p strict token r =
     (case r of
        [] \<Rightarrow> or_string strict token
      | c # r' \<Rightarrow>
          if c = 0x2b \<or> c = 0x2d then if r' = [] then or_string strict token else exponent_loop p strict token r'
          else if is_digit c then exponent_loop p strict token r'
          else if token_char c then or_string strict token
          else Inl Parse_error)"

fun integer_loop :: "platform \<Rightarrow> bool \<Rightarrow> bytes \<Rightarrow> bytes \<Rightarrow> bytes \<Rightarrow> variant result" where
  "integer_loop p strict token start [] = parseInt 10 token start"
| "integer_loop p strict token start (c # r) =
     (if is_digit c then integer_loop p strict token start r
      else if c = 0x2e then Inr (String token)
      else if c = 0x65 \<or> c = 0x45 then exponent p strict token r
      else if token_char c then or_string strict token
      else Inl Parse_error)"

text \<open>After an initial zero.\<close>

definition after_zero :: "platform \<Rightarrow> bool \<Rightarrow> bytes \<Rightarrow> bytes \<Rightarrow> bytes \<Rightarrow> variant result" where
  "after_zero p strict token start r =
     (case r of
        [] \<Rightarrow> Inr (Uint64 0)
      | d # r' \<Rightarrow>
          if d = 0x62 \<or> d = 0x42 then
            if strict then Inl Parse_error
            else if r' = [] then Inl Parse_error
            else maybeParseInt strict 2 token (tl r')
          else if d = 0x6f \<or> d = 0x4f then
            if strict then Inl Parse_error else maybeParseInt strict 8 token r'
          else if d = 0x78 \<or> d = 0x58 then
            if strict then Inl Parse_error else maybeParseInt strict 16 token r'
          else if d = 0x2e \<or> d = 0x65 \<or> d = 0x45 \<or> \<not> strict then integer_loop p strict token start r
          else Inl Parse_error)"

definition parseNumberOrStr :: "platform \<Rightarrow> bool \<Rightarrow> bytes \<Rightarrow> variant result" where
  "parseNumberOrStr p strict token =
     (if token = [] then Inl Parse_error
      else if hd token = 0x2b \<and> strict then Inl Parse_error
      else let start = (if hd token = 0x2b \<or> hd token = 0x2d then tl token else token)
        in case start of
             [] \<Rightarrow> Inl Parse_error
           | c # r \<Rightarrow>
               if c = 0x30 then after_zero p strict token start r
               else if is_digit c then integer_loop p strict token start r
               else if token_char c then or_string strict token
               else Inl Parse_error)"

definition numberFromStream :: "platform \<Rightarrow> bool \<Rightarrow> bytes \<Rightarrow> (variant \<times> bytes) result" where
  "numberFromStream p strict s =
     and_then (tokenFromStream s) (\<lambda>(token, r).
       and_then (parseNumberOrStr p strict token) (\<lambda>v.
         if strict \<and> \<not> (is_int64 v \<or> is_uint64 v \<or> is_double v) then Inl Parse_error else Inr (v, r)))"

definition wordFromStream :: "bool \<Rightarrow> bytes \<Rightarrow> (variant \<times> bytes) result" where
  "wordFromStream strict s =
     and_then (tokenFromStream s) (\<lambda>(token, r).
       fc_assert (length token > 0)
         (if token = ascii ''null'' then Inr (Null, r)
          else if token = ascii ''true'' then Inr (Bool True, r)
          else if token = ascii ''false'' then Inr (Bool False, r)
          else if \<not> strict then Inr (String token, r)
          else Inl Parse_error))"

subsection \<open>Values\<close>

text \<open>
  As in the legacy parser, the loops get the function that reads a value and a bound that is never
  reached, and the function for values a bound on the nesting. \<^verbatim>\<open>max_depth\<close> is passed on but compared nowhere.
\<close>

primrec relaxed_object_loop ::
  "nat \<Rightarrow> bool \<Rightarrow> value_reader \<Rightarrow> (bytes \<times> variant) list \<Rightarrow> bytes \<Rightarrow> u32 \<Rightarrow> (variant \<times> bytes) result option" where
  "relaxed_object_loop 0 strict value obj s max_depth = None"
| "relaxed_object_loop (Suc n) strict value obj s max_depth =
     (if peek s = Some 0x7d then Some (Inr (Object obj, tl s))
      else if peek s = Some 0x2c then relaxed_object_loop n strict value obj (tl s) max_depth
      else next_step (Some (skip_white_space s)) (\<lambda>(skipped, s1).
        if skipped then relaxed_object_loop n strict value obj s1 max_depth
        else next_step (relaxed_stringFromStream strict s1) (\<lambda>(key, s2).
          next_step (Some (skip_white_space s2)) (\<lambda>(_, s3).
            if peek s3 \<noteq> Some 0x3a then Some (Inl Parse_error)
            else next_step (value (tl s3) (max_depth - 1)) (\<lambda>(val, s4).
              next_step (Some (skip_white_space s4)) (\<lambda>(_, s5).
                relaxed_object_loop n strict value (obj @ [(key, val)]) s5 max_depth))))))"

definition relaxed_objectFromStream ::
  "bool \<Rightarrow> value_reader \<Rightarrow> bytes \<Rightarrow> u32 \<Rightarrow> (variant \<times> bytes) result option" where
  "relaxed_objectFromStream strict value s max_depth =
     (if peek s \<noteq> Some 0x7b then Some (Inl Parse_error)
      else map_option catch_eof
        (next_step (Some (skip_white_space (tl s))) (\<lambda>(_, s1).
          relaxed_object_loop (length s) strict value [] s1 max_depth)))"

text \<open>The function for arrays is the one of the legacy parser with another function for the elements.\<close>

definition relaxed_arrayFromStream :: "value_reader \<Rightarrow> bytes \<Rightarrow> u32 \<Rightarrow> (variant \<times> bytes) result option" where
  "relaxed_arrayFromStream value s max_depth =
     (if peek s \<noteq> Some 0x5b then Some (Inl Parse_error)
      else next_step (Some (skip_white_space (tl s))) (\<lambda>(_, s1). array_loop (length s) value [] s1 max_depth))"

primrec relaxed_variant_from_stream ::
  "nat \<Rightarrow> platform \<Rightarrow> bool \<Rightarrow> bytes \<Rightarrow> u32 \<Rightarrow> (variant \<times> bytes) result option" where
  "relaxed_variant_from_stream 0 p strict s max_depth = None"
| "relaxed_variant_from_stream (Suc n) p strict s max_depth =
     next_step (Some (skip_white_space s)) (\<lambda>(_, s1).
       case dropWhile is_space s1 of
         [] \<Rightarrow> Some (Inl Eof_error)
       | c # r \<Rightarrow>
           if c = 0 then Some (Inr (Null, c # r))
           else if c = 0x22 then
             next_step (relaxed_stringFromStream strict (c # r)) (\<lambda>(str, r'). Some (Inr (String str, r')))
           else if c = 0x7b then
             relaxed_objectFromStream strict (relaxed_variant_from_stream n p strict) (c # r) (max_depth - 1)
           else if c = 0x5b then
             relaxed_arrayFromStream (relaxed_variant_from_stream n p strict) (c # r) (max_depth - 1)
           else if c = 0x2d \<or> c = 0x2b \<or> c = 0x2e \<or> is_digit c then Some (numberFromStream p strict (c # r))
           else if isalnum c \<or> c = 0x5f \<or> c = 0x2f then Some (wordFromStream strict (c # r))
           else if c = 0x04 \<or> c = 0xff then Some (Inl Eof_error)
           else Some (Inl Parse_error))"

subsection \<open>Entry points\<close>

definition parse_stream :: "platform \<Rightarrow> parse_type \<Rightarrow> bytes \<Rightarrow> u32 \<Rightarrow> (variant \<times> bytes) result option" where
  "parse_stream p ptype s max_depth =
     (case ptype of
        legacy_parser \<Rightarrow> variant_from_stream (Suc (length s)) p ptype s max_depth
      | legacy_parser_with_string_doubles \<Rightarrow> variant_from_stream (Suc (length s)) p ptype s max_depth
      | strict_parser \<Rightarrow> relaxed_variant_from_stream (Suc (length s)) p True s max_depth
      | relaxed_parser \<Rightarrow> relaxed_variant_from_stream (Suc (length s)) p False s max_depth)"

definition json_from_string :: "platform \<Rightarrow> parse_type \<Rightarrow> bytes \<Rightarrow> u32 \<Rightarrow> variant result option" where
  "json_from_string p ptype utf8_str max_depth =
     next_step (parse_stream p ptype utf8_str max_depth) (\<lambda>(v, _). Some (Inr v))"

text \<open>\<^verbatim>\<open>variants_from_string\<close> ignores \<^verbatim>\<open>ptype\<close>. The first argument bounds the number of values.\<close>

primrec variants_loop :: "nat \<Rightarrow> platform \<Rightarrow> variant list \<Rightarrow> bytes \<Rightarrow> u32 \<Rightarrow> variant list result option" where
  "variants_loop 0 p result s max_depth = None"
| "variants_loop (Suc n) p result s max_depth =
     (case relaxed_variant_from_stream (Suc (length s)) p False s max_depth of
        None \<Rightarrow> None
      | Some (Inl e) \<Rightarrow> if e = Eof_error then Some (Inr result) else Some (Inl e)
      | Some (Inr (v, r)) \<Rightarrow> variants_loop n p (result @ [v]) r max_depth)"

definition variants_from_string :: "platform \<Rightarrow> parse_type \<Rightarrow> bytes \<Rightarrow> u32 \<Rightarrow> variant list result option" where
  "variants_from_string p ptype utf8_str max_depth = variants_loop (Suc (length utf8_str)) p [] utf8_str max_depth"

text \<open>
  The last line of \<^verbatim>\<open>is_valid\<close> waits for \<^verbatim>\<open>peek\<close> to throw \<^verbatim>\<open>eof_exception\<close>, which the standard stream never
  does.
\<close>

definition json_is_valid :: "platform \<Rightarrow> parse_type \<Rightarrow> bytes \<Rightarrow> u32 \<Rightarrow> bool result option" where
  "json_is_valid p ptype utf8_str max_depth =
     (if length utf8_str = 0 then Some (Inr False)
      else next_step (parse_stream p ptype utf8_str max_depth) (\<lambda>_. Some (Inr False)))"

end
