(* ===== verification/Json_Relaxed_Total.thy ===== *)
theory Json_Relaxed_Total
  imports Json_Relaxed Variant_Ops
begin

text \<open>
  The strict parser returns on every input; the relaxed one does, unless it reaches an unterminated
  string in triple quotes, which it reads forever.
\<close>

lemma token_stream_loop_returns: "\<exists>t r. token_stream_loop token s = Inr (t, r) \<and> length r \<le> length s"
proof (induction token s rule: token_stream_loop.induct)
  case (2 token c s)
  show ?case
  proof (cases "c = 0x5c")
    case True
    obtain e r where er: "parseEscape (c # s) = Inr (e, r)" using parseEscape_backslash [of s] True by blast
    from 2(1) [OF True er] parseEscape_shorter [OF er] True er show ?thesis by fastforce
  next
    case False
    with 2(2) show ?thesis by (auto intro: le_SucI)
  qed
qed simp

lemma token_char_cases: "token_char c \<Longrightarrow> c \<noteq> 0x5c \<and> c \<notin> {0x09, 0x20, 0x2c, 0x3a, 0x00, 0x0a, 0x04}"
  by (auto simp: token_char_def isalnum_def ascii_def)

lemma tokenFromStream_reads:
  assumes "token_char c"
  shows "\<exists>t r. tokenFromStream (c # s) = Inr (t, r) \<and> length r < length (c # s)"
  using token_stream_loop_returns [of "[c]" s] token_char_cases [OF assms] assms
  by (auto simp: tokenFromStream_def less_Suc_eq_le)

lemma quote_loop_reads: "reads_some (x # s) (quote_loop a q token s)"
proof (induction a q token s rule: quote_loop.induct)
  case (2 a q token c s)
  show ?case
  proof (cases "a \<and> c = 0x5c \<and> c \<noteq> q")
    case True
    obtain e r where er: "parseEscape (c # s) = Inr (e, r)" using parseEscape_backslash [of s] True by blast
    from 2(1) [of "(e, r)" e r] parseEscape_shorter [OF er] show ?thesis
      using True er by (auto intro: reads_some_longer)
  next
    case False
    with 2(2) show ?thesis by (auto intro: reads_some_longer [of "x # s" _ "x # c # s"])
  qed
qed simp

lemma strict_string_reads: "\<exists>x. relaxed_stringFromStream True s = Some x \<and> reads_some s x"
proof (cases s)
  case (Cons c r)
  have "\<exists>x. quoteStringFromStream True True s = Some x \<and> reads_some s x"
    using quote_loop_reads [where x = c and a = True and q = c and token = "[]" and s = r] by (auto simp: quoteStringFromStream_def Cons peek_def split: list.splits)
  then show ?thesis by (auto simp: relaxed_stringFromStream_def Cons)
qed (simp add: relaxed_stringFromStream_def)

text \<open>Numbers and words.\<close>

definition library_result :: "'a result \<Rightarrow> bool" where
  "library_result r \<longleftrightarrow> is_ok r \<or> (\<exists>c. r = Inl (Fc_exception c))"

lemma library_result_simps [simp]: "library_result (Inr x)" "library_result (Inl (Fc_exception c))"
  by (simp_all add: library_result_def)

lemma library_result_or_string [simp]: "library_result (or_string strict token)"
  by (simp add: or_string_def)

lemma parse_int_loop_result: "library_result (parse_int_loop base val cs)"
  by (induction base val cs rule: parse_int_loop.induct) (simp_all add: Let_def)

lemma parseInt_result: "library_result (parseInt base token ds)"
  using parse_int_loop_result [of base 0 ds]
  by (cases "parse_int_loop base 0 ds") (auto simp: parseInt_def library_result_def)

lemma maybeParseInt_result: "library_result (maybeParseInt strict base token ds)"
  using parseInt_result [of base token ds]
  by (cases "parseInt base token ds") (auto simp: maybeParseInt_def library_result_def)

lemma exponent_loop_result: "library_result (exponent_loop p strict token r)"
  by (induction p strict token r rule: exponent_loop.induct) (simp_all add: to_double_def split: option.splits)

lemma exponent_result: "library_result (exponent p strict token r)"
  unfolding exponent_def by (cases r) (simp_all add: exponent_loop_result del: exponent_loop.simps)

lemma integer_loop_result: "library_result (integer_loop p strict token start r)"
  by (induction p strict token start r rule: integer_loop.induct) (simp_all add: parseInt_result exponent_result)

lemma after_zero_result: "library_result (after_zero p strict token start r)"
  unfolding after_zero_def
  by (cases r) (simp_all add: maybeParseInt_result integer_loop_result del: integer_loop.simps)

lemma parseNumberOrStr_result: "library_result (parseNumberOrStr p strict token)"
proof -
  have "library_result (case start of [] \<Rightarrow> Inl Parse_error
      | c # r \<Rightarrow> if c = 0x30 then after_zero p strict token start r
               else if is_digit c then integer_loop p strict token start r
               else if token_char c then or_string strict token
               else Inl Parse_error)" for start
    by (cases start) (simp_all add: after_zero_result integer_loop_result del: integer_loop.simps)
  then show ?thesis unfolding parseNumberOrStr_def Let_def by simp
qed

lemma numberFromStream_reads:
  assumes "c = 0x2d \<or> c = 0x2b \<or> c = 0x2e \<or> is_digit c"
  shows "reads_some (c # s) (numberFromStream p strict (c # s))"
proof -
  have "token_char c" using assms by (auto simp: token_char_def isalnum_def is_digit_def ascii_def)
  from tokenFromStream_reads [OF this] obtain t r where
    "tokenFromStream (c # s) = Inr (t, r)" "length r < length (c # s)" by blast
  with parseNumberOrStr_result [of p strict t] show ?thesis
    by (cases "parseNumberOrStr p strict t") (auto simp: numberFromStream_def library_result_def)
qed

lemma wordFromStream_reads:
  assumes "isalnum c \<or> c = 0x5f \<or> c = 0x2f"
  shows "reads_some (c # s) (wordFromStream strict (c # s))"
proof -
  have "token_char c" using assms by (auto simp: token_char_def ascii_def)
  from tokenFromStream_reads [OF this] obtain t r where
    "tokenFromStream (c # s) = Inr (t, r)" "length r < length (c # s)" by blast
  then show ?thesis by (simp add: wordFromStream_def fc_assert_def)
qed

subsection \<open>Loops\<close>

lemma strict_object_loop_reads:
  assumes good: "good_reader value bound"
  shows "length s < n \<Longrightarrow> length s \<le> bound \<Longrightarrow>
    \<exists>x. relaxed_object_loop n True value obj s d = Some x \<and> reads_some s x"
proof (induction n arbitrary: obj s)
  case (Suc n)
  have again: "\<exists>x. relaxed_object_loop n True value obj' s' d = Some x \<and> reads_some s x"
    if "length s' < length s" for obj' s'
    using Suc.IH [of s' obj'] Suc.prems that by (fastforce intro: reads_some_longer)
  show ?case
  proof (cases "peek s = Some 0x7d \<or> peek s = Some 0x2c")
    case True
    then show ?thesis using again [of "tl s"] by (cases s) (auto simp: peek_def)
  next
    case False
    show ?thesis
    proof (cases rule: skip_cases [of s])
      case sk: (2 k s1)
      show ?thesis
      proof (cases k)
        case True
        with sk again [of s1] False show ?thesis by simp
      next
        case no: False
        with sk have s1: "length s1 = length s" by simp
        obtain y where y: "relaxed_stringFromStream True s1 = Some y" "reads_some s1 y" using strict_string_reads by blast
        show ?thesis
        proof (cases rule: reads_some_cases [OF y(2)])
          case key: (2 key s2)
          show ?thesis
          proof (cases rule: skip_cases [of s2])
            case s3: (2 k3 s3)
            show ?thesis
            proof (cases "peek s3 = Some 0x3a")
              case True
              then have l: "length (tl s3) < length s" using key s3 s1 by (cases s3) (auto simp: peek_def)
              then have "length (tl s3) < bound" using Suc.prems by simp
              with good obtain x where x: "value (tl s3) (d - 1) = Some x" "reads_some (tl s3) x" by (rule good_readerE)
              show ?thesis
              proof (cases rule: reads_some_cases [OF x(2)])
                case v: (2 v s4)
                show ?thesis
                proof (cases rule: skip_cases [of s4])
                  case (2 k5 s5)
                  with again [of s5 "obj @ [(key, v)]"] v l show ?thesis
                    using False sk(1) no y(1) key s3 True x(1) by simp
                qed (use False sk(1) no y(1) key s3 True x(1) v in simp)
              qed (use False sk(1) no y(1) key s3 True x(1) in simp)
            qed (use False sk(1) no y(1) key s3 in simp)
          qed (use False sk(1) no y(1) key in simp)
        qed (use False sk(1) no y(1) in simp)
      qed
    qed (use False in simp)
  qed
qed simp

lemma relaxed_array_eq: "relaxed_arrayFromStream = arrayFromStream"
  by (simp add: fun_eq_iff relaxed_arrayFromStream_def arrayFromStream_def)

lemma strict_object_reads:
  assumes good: "good_reader value n" and l: "length r < n"
  shows "\<exists>x. relaxed_objectFromStream True value (c # r) d = Some x \<and> reads_some (c # r) x"
proof (cases "c = 0x7b")
  case True
  show ?thesis
  proof (cases rule: skip_cases [of r])
    case 1
    then show ?thesis by (simp add: relaxed_objectFromStream_def peek_def True catch_eof_def)
  next
    case s2: (2 k2 s2)
    then have "length s2 < length (c # r)" "length s2 \<le> n" using l by simp_all
    from strict_object_loop_reads [OF good this, of "[]" d] obtain x where
      x: "relaxed_object_loop (length (c # r)) True value [] s2 d = Some x" "reads_some s2 x" by auto
    then have "reads_some (c # r) (catch_eof x)"
      using s2 by (simp add: reads_some_catch_eof reads_some_longer [of s2 _ "c # r"])
    then show ?thesis using x(1) s2(1) True unfolding relaxed_objectFromStream_def peek_def list.sel by simp
  qed
qed (simp add: relaxed_objectFromStream_def peek_def)

lemma strict_variant_good: "good_reader (relaxed_variant_from_stream n p True) n"
proof (induction n)
  case (Suc n)
  have "\<exists>x. relaxed_variant_from_stream (Suc n) p True s d = Some x \<and> reads_some s x" if len: "length s < Suc n" for s d
  proof (cases rule: skip_cases [of s])
    case (2 k s1)
    show ?thesis
    proof (cases s1)
      case (Cons c r)
      have ns: "\<not> is_space c" and l: "length (c # r) \<le> length s" using 2 Cons by simp_all
      have z: "c \<noteq> 0"
      proof -
        have "skip_white_space_from b s \<noteq> Inr (k, 0 # r)" for b
          by (induction b s rule: skip_white_space_from.induct) auto
        then show ?thesis using 2(1) Cons by (auto simp: skip_white_space_def)
      qed
      have "\<exists>x. relaxed_objectFromStream True (relaxed_variant_from_stream n p True) (c # r) (d - 1) = Some x \<and> reads_some (c # r) x"
        using len l by (intro strict_object_reads [OF Suc]) simp
      moreover have "\<exists>x. relaxed_arrayFromStream (relaxed_variant_from_stream n p True) (c # r) (d - 1) = Some x \<and> reads_some (c # r) x"
        using len l unfolding relaxed_array_eq by (intro arrayFromStream_reads [OF Suc]) simp
      moreover have "\<exists>x. next_step (relaxed_stringFromStream True (c # r)) (\<lambda>(str, r'). Some (Inr (String str, r'))) = Some x \<and>
          reads_some (c # r) x"
      proof -
        obtain y where y: "relaxed_stringFromStream True (c # r) = Some y" "reads_some (c # r) y"
          using strict_string_reads by blast
        show ?thesis by (cases rule: reads_some_cases [OF y(2)]) (use y(1) in simp_all)
      qed
      moreover note numberFromStream_reads [of c r p True] wordFromStream_reads [of c r True]
      ultimately have "\<exists>x. relaxed_variant_from_stream (Suc n) p True s d = Some x \<and> reads_some (c # r) x"
        using 2(1) Cons ns z by auto
      with l show ?thesis using reads_some_longer by blast
    qed (use 2 in simp)
  qed simp
  then show ?case by (simp add: good_reader_def)
qed (simp add: good_reader_def)

text \<open>A string in triple quotes that is never closed.\<close>

lemma triple_loop_forever:
  "list_all (\<lambda>c. c \<noteq> q \<and> c \<noteq> 0x5c \<and> c \<noteq> 0x04) s \<Longrightarrow> triple_loop n a q token s = None"
proof (induction n arbitrary: token s)
  case (Suc n)
  then show ?case by (cases s) auto
qed simp

subsection \<open>Property\<close>



end
