(* ===== verification/Json_Numbers.thy ===== *)
theory Json_Numbers
  imports Json_Relaxed_Total
begin

text \<open>
  The integer literals of the second parser: decimal notation is read exactly within the range of the
  types and refused outside of it, and what happens to the other notations.
\<close>

lemma char_value_digit: "is_digit c \<Longrightarrow> char_value c \<noteq> 0xff \<and> unat (char_value c) = unat c - 48"
  by (auto simp: char_value_def is_digit_def word_le_nat_alt unat_sub word_unat_eq_iff)

lemma digits_value_mono: "n \<le> digits_value n ds"
proof (induction ds arbitrary: n)
  case (Cons c ds)
  have "n \<le> n * 10 + (unat c - 48)" by simp
  also have "\<dots> \<le> digits_value (n * 10 + (unat c - 48)) ds" by (rule Cons)
  finally show ?case by (simp add: algebra_simps)
qed simp

lemma parse_int_loop_digits:
  "list_all is_digit ds \<Longrightarrow> parse_int_loop 10 val ds =
     (if digits_value (unat val) ds < 2 ^ 64 then Inr (of_nat (digits_value (unat val) ds)) else Inl Parse_error)"
proof (induction ds arbitrary: val)
  case Nil
  then show ?case using word_unat_lt [of val] by simp
next
  case (Cons c ds)
  let ?d = "unat c - 48"
  have c: "char_value c \<noteq> 0xff" "unat (char_value c) = ?d" using Cons.prems char_value_digit [of c] by simp_all
  have d: "?d < 10" using Cons.prems by (auto simp: is_digit_def word_le_nat_alt)
  then have vc: "unat (ucast (char_value c) :: u64) = ?d" using c(2) by (simp add: unat_ucast_mod)
  have m: "(- 1 :: u64) div 10 = 1844674407370955161" by simp
  let ?new = "val * 10 + ucast (char_value c)"
  have step: "parse_int_loop 10 val (c # ds) =
      (if val > 1844674407370955161 \<or> ?new < val * 10 then Inl Parse_error else parse_int_loop 10 ?new ds)"
    using c(1) unfolding parse_int_loop.simps Let_def m by simp
  have dv: "digits_value (unat val) (c # ds) = digits_value (unat val * 10 + ?d) ds" by (simp add: mult.commute)
  have big: "\<not> digits_value (unat val * 10 + ?d) ds < 2 ^ 64" if "2 ^ 64 \<le> unat val * 10 + ?d"
    using that digits_value_mono [of "unat val * 10 + ?d" ds] by linarith
  show ?case
  proof (cases "val > 1844674407370955161")
    case True
    then have "2 ^ 64 \<le> unat val * 10 + ?d" by (simp add: word_less_nat_alt)
    from big [OF this] True show ?thesis unfolding step dv by simp
  next
    case False
    then have v: "unat val \<le> 1844674407370955161" by (simp add: word_less_nat_alt)
    then have v10: "unat (val * 10) = unat val * 10" by (simp add: unat_mult_lem [THEN iffD1] word_less_nat_alt)
    show ?thesis
    proof (cases "unat val * 10 + ?d < 2 ^ 64")
      case True
      then have u: "unat (val * 10 + ucast (char_value c)) = unat val * 10 + ?d"
        using v10 vc by (simp add: unat_word_ariths)
      then have "\<not> val * 10 + ucast (char_value c) < val * 10" by (simp add: word_less_nat_alt v10)
      with Cons.IH [of ?new] Cons.prems False u show ?thesis unfolding step dv by simp
    next
      case over: False
      have "unat (val * 10 + ucast (char_value c)) = unat val * 10 + ?d - 2 ^ 64"
        using over v10 vc v d by (simp add: unat_word_ariths mod_if)
      then have "val * 10 + ucast (char_value c) < val * 10" 
        unfolding word_less_nat_alt v10 using d over by simp
      with big over show ?thesis unfolding step dv by simp
    qed
  qed
qed

lemma integer_loop_digits: "list_all is_digit r \<Longrightarrow> integer_loop p strict token start r = parseInt 10 token start"
  by (induction r) simp_all

lemma dec_start:
  obtains "n = 0" "dec n = [0x30]" | c r where "dec n = c # r" "is_digit c" "c \<noteq> 0x30" "list_all is_digit r" "0 < n"
proof (cases "n = 0")
  case False
  then obtain d r where d: "dec n = of_nat (48 + d) # r" "0 < d" "d < 10" using decimal_hd [of n] by (auto simp: dec_def)
  then have "(of_nat (48 + d) :: byte) \<noteq> 0x30" using digit_byte [of d] by (auto simp: word_unat_eq_iff simp del: of_nat_add)
  with d dec_digits [of n] False show ?thesis using that(2) by auto
qed (simp add: that(1) dec_def)

text \<open>An unsigned literal, or the digits after a minus sign.\<close>

lemma parseInt_dec:
  "parseInt 10 token (dec n) =
     (if n < 2 ^ 64 then
        if peek token = Some 0x2d then
          if n > 2 ^ 63 then Inl Parse_error else Inr (Int64 (- of_nat n))
        else Inr (Uint64 (of_nat n))
      else Inl Parse_error)"
proof (cases "n < 2 ^ 64")
  case True
  have u: "unat (of_nat n :: u64) = n" using True by (intro unat_of_nat_lt) simp
  have "parse_int_loop 10 0 (dec n) = Inr (of_nat n)"
    using parse_int_loop_digits [OF dec_digits, of 0 n] True by (simp add: dec_value)
  moreover have "(of_nat n :: u64) = 0x8000000000000000 \<longleftrightarrow> n = 2 ^ 63" "(0x8000000000000000 :: u64) < of_nat n \<longleftrightarrow> 2 ^ 63 < n"
    by (simp_all add: word_unat_eq_iff word_less_nat_alt u)
  ultimately show ?thesis using True by (auto simp: parseInt_def)
next
  case False
  then have "parse_int_loop 10 0 (dec n) = Inl Parse_error"
    using parse_int_loop_digits [OF dec_digits, of 0 n] by (simp add: dec_value)
  with False show ?thesis by (simp add: parseInt_def)
qed

lemma parseNumberOrStr_dec:
  "parseNumberOrStr p strict (dec n) = (if n < 2 ^ 64 then Inr (Uint64 (of_nat n)) else Inl Parse_error)"
proof (cases rule: dec_start [of n])
  case 1
  then show ?thesis by (simp add: parseNumberOrStr_def after_zero_def)
next
  case (2 c r)
  then have "c \<noteq> 0x2b" "c \<noteq> 0x2d" by (auto simp: is_digit_def)
  with 2 parseInt_dec [of "dec n" n] show ?thesis
    by (simp add: parseNumberOrStr_def Let_def integer_loop_digits peek_def)
qed

lemma parseNumberOrStr_neg:
  "0 < n \<Longrightarrow> parseNumberOrStr p strict (0x2d # dec n) = (if n \<le> 2 ^ 63 then Inr (Int64 (- of_nat n)) else Inl Parse_error)"
proof (cases rule: dec_start [of n])
  case (2 c r)
  with parseInt_dec [of "0x2d # dec n" n] show ?thesis
    by (simp add: parseNumberOrStr_def Let_def integer_loop_digits peek_def)
qed simp

subsection \<open>Property\<close>

text \<open>
  Integer literals. Decimal notation of an unsigned or a negative number is read exactly when the number fits
  64 bits and is a parse error otherwise, in both modes. The other notations are not what they
  seem: a binary literal loses its first digit, digits beyond the base are accepted, and a number with
  a decimal point is a string, which strict mode refuses.
\<close>

lemma relaxed_integer_literals:
  "parseNumberOrStr p strict (dec n) = (if n < 2 ^ 64 then Inr (Uint64 (of_nat n)) else Inl Parse_error) \<and>
   parseNumberOrStr p strict (dec_int (- 1 - int n)) =
     (if - (2 ^ 63) \<le> - 1 - int n then Inr (Int64 (of_int (- 1 - int n))) else Inl Parse_error) \<and>
   parseNumberOrStr p False (ascii ''0b11'') = Inr (Uint64 1) \<and>
   parseNumberOrStr p False (ascii ''0x1g'') = Inr (Uint64 32) \<and>
   parseNumberOrStr p strict (ascii ''1.5'') = Inr (String (ascii ''1.5'')) \<and>
   numberFromStream p True (ascii ''1.5'') = Inl Parse_error"
proof (intro conjI)
  have n: "dec_int (- 1 - int n) = 0x2d # dec (Suc n)" by (simp add: dec_int_def nat_add_distrib)
  have "(- of_nat (Suc n) :: u64) = of_int (- 1 - int n)" by simp
  then show "parseNumberOrStr p strict (dec_int (- 1 - int n)) =
     (if - (2 ^ 63) \<le> - 1 - int n then Inr (Int64 (of_int (- 1 - int n))) else Inl Parse_error)"
    using parseNumberOrStr_neg [of "Suc n" p strict] unfolding n by auto
  show "parseNumberOrStr p strict (dec n) = (if n < 2 ^ 64 then Inr (Uint64 (of_nat n)) else Inl Parse_error)"
    by (rule parseNumberOrStr_dec)
  show "parseNumberOrStr p strict (ascii ''1.5'') = Inr (String (ascii ''1.5''))"
    by (simp add: ascii_def parseNumberOrStr_def is_digit_def)
  show "numberFromStream p True (ascii ''1.5'') = Inl Parse_error"
    by (simp add: ascii_def parseNumberOrStr_def is_digit_def numberFromStream_def tokenFromStream_def token_char_def
        isalnum_def is_int64_def is_uint64_def is_double_def)
  show "parseNumberOrStr p False (ascii ''0b11'') = Inr (Uint64 1)" "parseNumberOrStr p False (ascii ''0x1g'') = Inr (Uint64 32)"
    by (simp_all add: ascii_def parseNumberOrStr_def after_zero_def maybeParseInt_def parseInt_def char_value_def is_digit_def
        peek_def Let_def)
qed

end
