(* ===== verification/Json_Relaxed_Grammar.thy ===== *)
theory Json_Relaxed_Grammar
  imports Json_Grammar Json_Numbers
begin

text \<open>
  The second parser reads the grammar too, in both modes. It differs in one respect: with a number or a
  word it also consumes the separator that follows, which the loops over elements do not miss.
\<close>

subsection \<open>Tokens\<close>

text \<open>\<open>eaten rest r\<close>: from \<open>rest\<close> at most one separator is gone.\<close>

definition separator :: "byte \<Rightarrow> bool" where
  "separator c \<longleftrightarrow> c = 0x20 \<or> c = 0x09 \<or> c = 0x0a \<or> c = 0x2c"

definition eaten :: "bytes \<Rightarrow> bytes \<Rightarrow> bool" where
  "eaten rest r \<longleftrightarrow> r = rest \<or> (\<exists>c. rest = c # r \<and> separator c)"

lemma eaten_refl [simp]: "eaten rest rest"
  by (simp add: eaten_def)

lemma token_stream_loop_token:
  "list_all token_char t \<Longrightarrow> delimited rest \<Longrightarrow> \<exists>r. token_stream_loop token (t @ rest) = Inr (token @ t, r) \<and> eaten rest r"
proof (induction t arbitrary: token)
  case Nil
  then show ?case
    by (cases rest) (auto simp: delimited_def is_space_def token_char_def isalnum_def ascii_def eaten_def separator_def)
next
  case (Cons c t)
  then show ?case using token_char_cases [of c] Cons.IH [of "token @ [c]"] by auto
qed

lemma tokenFromStream_token:
  "list_all token_char t \<Longrightarrow> delimited rest \<Longrightarrow> \<exists>r. tokenFromStream (t @ rest) = Inr (t, r) \<and> eaten rest r"
  using token_stream_loop_token [of t rest "[]"] by (simp add: tokenFromStream_def)

lemma digit_token_char: "is_digit c \<Longrightarrow> token_char c"
  by (auto simp: token_char_def isalnum_def is_digit_def)

lemma dec_token: "list_all token_char (dec n)"
  using dec_digits [of n] by (auto simp: list_all_iff digit_token_char)

lemma numberFromStream_dec:
  assumes "delimited rest"
  shows "\<exists>r. numberFromStream p strict (dec (unat u) @ rest) = Inr (Uint64 u, r) \<and> eaten rest r"
  using tokenFromStream_token [OF dec_token assms, of "unat u"] parseNumberOrStr_dec [of p strict "unat u"] word_unat_lt [of u]
  by (auto simp: numberFromStream_def is_int64_def is_uint64_def is_double_def)

lemma numberFromStream_neg:
  assumes "delimited rest" and i: "sint (i :: u64) < 0"
  shows "\<exists>r. numberFromStream p strict (dec_int (sint i) @ rest) = Inr (Int64 i, r) \<and> eaten rest r"
proof -
  let ?n = "nat (- sint i)"
  have "- (2 ^ 63) \<le> sint i" using sint_greater_eq [of i] by simp
  then have n: "0 < ?n" "?n \<le> 2 ^ 63" using i by simp_all
  have "(- of_nat ?n :: u64) = i" using i by simp
  then have "parseNumberOrStr p strict (0x2d # dec ?n) = Inr (Int64 i)"
    using parseNumberOrStr_neg [OF n(1), of p strict] n(2) by simp
  moreover have "list_all token_char (0x2d # dec ?n)" using dec_token by (simp add: token_char_def ascii_def)
  ultimately show ?thesis
    using tokenFromStream_token [OF _ assms(1), of "0x2d # dec ?n"] i
    by (auto simp: numberFromStream_def is_int64_def dec_int_def)
qed

lemma wordFromStream_word:
  assumes "delimited rest"
  shows "\<exists>r. wordFromStream strict (ascii ''null'' @ rest) = Inr (Null, r) \<and> eaten rest r"
    "\<exists>r. wordFromStream strict (ascii ''true'' @ rest) = Inr (Bool True, r) \<and> eaten rest r"
    "\<exists>r. wordFromStream strict (ascii ''false'' @ rest) = Inr (Bool False, r) \<and> eaten rest r"
proof -
  have "list_all token_char (ascii ''null'')" "list_all token_char (ascii ''true'')" "list_all token_char (ascii ''false'')"
    by (simp_all add: ascii_def token_char_def isalnum_def)
  from this [THEN tokenFromStream_token, OF assms] show
    "\<exists>r. wordFromStream strict (ascii ''null'' @ rest) = Inr (Null, r) \<and> eaten rest r"
    "\<exists>r. wordFromStream strict (ascii ''true'' @ rest) = Inr (Bool True, r) \<and> eaten rest r"
    "\<exists>r. wordFromStream strict (ascii ''false'' @ rest) = Inr (Bool False, r) \<and> eaten rest r"
    by (auto simp: wordFromStream_def ascii_def)
qed

subsection \<open>Strings\<close>

lemma valid_utf8_no_ff:
  assumes "is_valid_utf8 s = Inr True"
  shows "0xff \<notin> set s"
proof -
  have enc: "0xff \<notin> set (encode_code_point cp)" if "is_code_point_valid cp" for cp
  proof -
    have "map unat (encode_code_point cp) = octets (unat cp)"
      using that by (intro map_unat_encode) (simp add: code_point_valid_nat)
    moreover have "255 \<notin> set (octets (unat cp))" using that by (auto simp: octets_def code_point_valid_nat)
    ultimately have "255 \<notin> unat ` set (encode_code_point cp)" by (metis set_map)
    then show ?thesis using imageI [of "0xff" "set (encode_code_point cp)" unat] by auto
  qed
  obtain cps where "list_all (\<lambda>cp. is_code_point_valid cp \<and> \<not> c1_control cp) cps" "s = encodes cps"
    using assms by (auto simp: is_valid_utf8_iff)
  then show ?thesis using enc by (induction cps arbitrary: s) auto
qed

lemma quote_loop_escaped:
  "list_all (\<lambda>c. \<not> control_char c) s \<Longrightarrow> 0xff \<notin> set s \<Longrightarrow>
     quote_loop True 0x22 token (escaped s @ 0x22 # rest) = Inr (token @ s, rest)"
proof (induction s arbitrary: token)
  case (Cons c s)
  then have "\<not> control_char c" "c \<noteq> 0xff"
    and "quote_loop True 0x22 (token @ [c]) (escaped s @ 0x22 # rest) = Inr ((token @ [c]) @ s, rest)"
    by simp_all
  then show ?case
    by (auto simp: escaped_def escape_char_def control_char_def parseEscape_def peek_def)
qed (simp add: escaped_def)

lemma escaped_hd: "escaped s \<noteq> [] \<Longrightarrow> list_all (\<lambda>c. \<not> control_char c) s \<Longrightarrow> hd (escaped s) \<noteq> 0x22"
  by (cases s) (auto simp: escaped_def escape_char_def control_char_def)

lemma escaped_nil: "escaped s = [] \<longleftrightarrow> s = []"
  by (cases s) (auto simp: escaped_def escape_char_def unicode_escape_def ascii_def)

lemma relaxed_string_quoted:
  assumes s: "plain_string s" and rest: "peek rest \<noteq> Some 0x22"
  shows "relaxed_stringFromStream strict (quoted (escaped s) @ rest) = Some (Inr (s, rest))"
proof (cases "s = []")
  case True
  with rest show ?thesis
    by (simp add: relaxed_stringFromStream_def quoteStringFromStream_def quoted_def escaped_def peek_def)
next
  case False
  then obtain c x where c: "escaped s = c # x" "c \<noteq> 0x22"
    using escaped_hd [of s] s escaped_nil [of s] by (cases "escaped s") (auto simp: plain_string_def)
  have "quote_loop True 0x22 [] (escaped s @ 0x22 # rest) = Inr ([] @ s, rest)"
    using s by (intro quote_loop_escaped) (auto simp: plain_string_def valid_utf8_no_ff)
  with c show ?thesis
    by (simp add: relaxed_stringFromStream_def quoteStringFromStream_def quoted_def peek_def del: quote_loop.simps)
qed

subsection \<open>Values\<close>

declare relaxed_variant_from_stream.simps [simp del] relaxed_object_loop.simps [simp del]

lemma relaxed_step:
  assumes "white w" and "\<not> is_space c" and "c \<noteq> 0"
  shows "relaxed_variant_from_stream (Suc n) p strict (w @ c # r) d =
     (if c = 0x22 then
        next_step (relaxed_stringFromStream strict (c # r)) (\<lambda>(str, r'). Some (Inr (String str, r')))
      else if c = 0x7b then
        relaxed_objectFromStream strict (relaxed_variant_from_stream n p strict) (c # r) (d - 1)
      else if c = 0x5b then relaxed_arrayFromStream (relaxed_variant_from_stream n p strict) (c # r) (d - 1)
      else if c = 0x2d \<or> c = 0x2b \<or> c = 0x2e \<or> is_digit c then Some (numberFromStream p strict (c # r))
      else if isalnum c \<or> c = 0x5f \<or> c = 0x2f then Some (wordFromStream strict (c # r))
      else if c = 0x04 \<or> c = 0xff then Some (Inl Eof_error)
      else Some (Inl Parse_error))"
  unfolding relaxed_variant_from_stream.simps using assms skip_white [OF assms, of r] by simp

lemma delimited_no_quote: "delimited rest \<Longrightarrow> peek rest \<noteq> Some 0x22"
  by (cases rest) (auto simp: delimited_def peek_def is_space_def)

lemma relaxed_scalar:
  assumes t: "scalar_text f v = Some t" and w: "white w" and r: "delimited rest"
  shows "\<exists>r. relaxed_variant_from_stream (Suc n) p strict (w @ t @ rest) d = Some (Inr (v, r)) \<and> eaten rest r"
proof -
  from scalar_head [OF t] obtain c x where c: "t = c # x"
    "c = 0x22 \<or> c = 0x2d \<or> is_digit c \<or> c = 0x6e \<or> c = 0x74 \<or> c = 0x66" by blast
  then have "\<not> is_space c" "c \<noteq> 0" by (auto simp: is_space_def is_digit_def)
  note step = relaxed_step [OF w this, of n p strict "x @ rest" d]
  have dig: "\<not> is_digit 0x22" "\<not> is_digit 0x6e" "\<not> is_digit 0x74" "\<not> is_digit 0x66" by (simp_all add: is_digit_def)
  have notquote: "c \<noteq> 0x22 \<and> c \<noteq> 0x7b \<and> c \<noteq> 0x5b" if "is_digit c" using that by (auto simp: is_digit_def)
  have alnum: "isalnum 0x6e" "isalnum 0x74" "isalnum 0x66" by (simp_all add: isalnum_def)
  show ?thesis
  proof (cases v)
    case (String s)
    with t c(1) relaxed_string_quoted [OF _ delimited_no_quote [OF r], of s strict] step show ?thesis
      by (auto simp: quoted_def split: if_splits)
  next
    case (Uint64 u)
    obtain c' x' where "dec (unat u) = c' # x'" "is_digit c'" by (rule dec_cons)
    with t c(1) numberFromStream_dec [OF r, of p strict u] step notquote Uint64 show ?thesis by (auto split: if_splits)
  next
    case (Int64 i)
    with t have i: "sint i < 0" by (simp split: if_splits)
    with Int64 t c(1) numberFromStream_neg [OF r i, of p strict] step show ?thesis by (auto simp: dec_int_def)
  next
    case Null
    with t c step wordFromStream_word(1) [OF r, of strict] dig alnum show ?thesis by (auto simp: ascii_def)
  next
    case (Bool b)
    with t c step wordFromStream_word(2,3) [OF r, of strict] dig alnum show ?thesis
      by (cases b) (auto simp: ascii_def)
  qed (use t in simp_all)
qed

end
