(* ===== verification/Json_Relaxed_Read.thy ===== *)
theory Json_Relaxed_Read
  imports Json_Relaxed_Grammar
begin

text \<open>The second parser on the texts of the grammar: arrays and objects.\<close>

subsection \<open>After an element\<close>

text \<open>White space after an element is skipped, whether or not a separator went with the element.\<close>

lemma skip_eaten:
  assumes "white w" and "e = 0x5d \<or> e = 0x7d \<or> e = 0x2c" and "eaten (w @ e # y) r"
  obtains k where "skip_white_space r = Inr (k, e # y)" | "w = []" "e = 0x2c" "r = y"
proof -
  have e: "\<not> is_space e" "e \<noteq> 0" using assms(2) by (auto simp: is_space_def)
  show thesis
  proof (cases "r = w @ e # y")
    case True
    with skip_white [OF assms(1) e, of y] that(1) show ?thesis by simp
  next
    case False
    with assms(3) obtain c where c: "w @ e # y = c # r" "separator c" by (auto simp: eaten_def)
    show ?thesis
    proof (cases w)
      case Nil
      with c assms(2) that(2) show ?thesis by (auto simp: separator_def)
    next
      case (Cons a w')
      with c assms(1) have "white w'" "r = w' @ e # y" by (simp_all add: white_def)
      with skip_white [OF this(1) e, of y] that(1) show ?thesis by simp
    qed
  qed
qed

lemma relaxed_item:
  assumes t: "t = c # x" "\<not> is_space c" "c \<noteq> 0" "c \<noteq> 0x5d" "c \<noteq> 0x2c"
    and v: "rd (t @ z) (d - 1) = Some (Inr (v, r))"
  shows "array_loop (Suc n) rd ar (t @ z) d = next_step (Some (skip_white_space r)) (\<lambda>(_, s). array_loop n rd (ar @ [v]) s d)"
proof -
  have "skip_white_space (t @ z) = Inr (False, t @ z)"
    using skip_white [of "[]" c "x @ z"] t by (simp add: white_def)
  then show ?thesis using v t by (simp add: array_loop.simps peek_def)
qed

text \<open>The last item, and an item with others behind it.\<close>

lemma relaxed_item_last:
  assumes t: "json_value f v t" and w: "white w'"
    and v: "rd (t @ w' @ 0x5d # y) (d - 1) = Some (Inr (v, r))" and r: "eaten (w' @ 0x5d # y) r" and n: "1 < n"
  shows "array_loop n rd ar (t @ w' @ 0x5d # y) d = Some (Inr (Array (ar @ [v]), y))"
proof -
  obtain c x where c: "t = c # x" "\<not> is_space c" "c \<noteq> 0" "c \<noteq> 0x5d" "c \<noteq> 0x2c" using t by (rule value_head)
  obtain m where m: "n = Suc m" "0 < m" using n by (cases n) auto
  obtain k where "skip_white_space r = Inr (k, 0x5d # y)" by (rule skip_eaten [OF w _ r]) auto
  with relaxed_item [where rd = rd and d = d and t = t and z = "w' @ 0x5d # y", OF c v] array_loop_end [OF m(2)] show ?thesis by (simp add: m(1))
qed

lemma relaxed_item_cons:
  assumes t: "json_value f v t" and w: "white w'" and y: "y = w2 @ c2 # y2" "white w2" "\<not> is_space c2" "c2 \<noteq> 0"
    and v: "rd (t @ w' @ 0x2c # y) (d - 1) = Some (Inr (v, r))" and r: "eaten (w' @ 0x2c # y) r"
    and rec: "\<And>n. length (c2 # y2) < n \<Longrightarrow> array_loop n rd (ar @ [v]) (c2 # y2) d = R"
    and n: "length (t @ w' @ 0x2c # y) < n"
  shows "array_loop n rd ar (t @ w' @ 0x2c # y) d = R"
proof -
  obtain c x where c: "t = c # x" "\<not> is_space c" "c \<noteq> 0" "c \<noteq> 0x5d" "c \<noteq> 0x2c" using t by (rule value_head)
  obtain m where m: "n = Suc (Suc m)" "length y < m" using n c(1) by (cases n; cases "n - 1") auto
  have rest: "array_loop (Suc m) rd (ar @ [v]) (0x2c # y) d = R"
    unfolding array_loop_comma y(1) using m(2) y by (intro array_loop_white rec) simp_all
  show ?thesis
  proof (cases rule: skip_eaten [OF w _ r])
    case (2 k)
    with relaxed_item [where rd = rd and d = d and t = t and z = "w' @ 0x2c # y", OF c v] rest show ?thesis by (simp add: m(1))
  next
    case 3
    then have "skip_white_space r = Inr (w2 \<noteq> [], c2 # y2)" using skip_white [OF y(2-4), of y2] y(1) by simp
    with relaxed_item [where rd = rd and d = d and t = t and z = "w' @ 0x2c # y", OF c v] rec [of "Suc m"] m(2) y(1) show ?thesis by (simp add: m(1))
  qed simp
qed

subsection \<open>Members\<close>

lemma relaxed_object_white:
  assumes w: "white w" and c: "\<not> is_space c" "c \<noteq> 0" and n: "length (w @ c # x) < n"
    and r: "\<And>n. length (c # x) < n \<Longrightarrow> relaxed_object_loop n strict rd obj (c # x) d = R"
  shows "relaxed_object_loop n strict rd obj (w @ c # x) d = R"
proof (cases w)
  case (Cons a w')
  obtain m where m: "n = Suc m" using n by (cases n) auto
  show ?thesis
    using skip_white [OF w c, of x] white_char [of a w'] w r [of m] n
    unfolding m relaxed_object_loop.simps by (simp add: Cons peek_def)
qed (use r n in simp)

lemma relaxed_object_end: "0 < n \<Longrightarrow> relaxed_object_loop n strict rd obj (0x7d # rest) d = Some (Inr (Object obj, rest))"
  by (cases n) (simp_all add: relaxed_object_loop.simps peek_def)

lemma relaxed_object_comma: "relaxed_object_loop (Suc n) strict rd obj (0x2c # x) d = relaxed_object_loop n strict rd obj x d"
  by (simp add: relaxed_object_loop.simps peek_def)

lemma relaxed_member:
  assumes k: "plain_string k" and w: "white w1" and v: "rd y (d - 1) = Some (Inr (v, r))"
  shows "relaxed_object_loop (Suc n) strict rd obj (quoted (escaped k) @ w1 @ 0x3a # y) d =
    next_step (Some (skip_white_space r)) (\<lambda>(_, s). relaxed_object_loop n strict rd (obj @ [(k, v)]) s d)"
proof -
  have "skip_white_space (quoted (escaped k) @ w1 @ 0x3a # y) = Inr (False, quoted (escaped k) @ w1 @ 0x3a # y)"
    using skip_white [of "[]" "0x22" "escaped k @ 0x22 # w1 @ 0x3a # y"]
    by (simp add: white_def quoted_def is_space_def)
  moreover have "skip_white_space (w1 @ 0x3a # y) = Inr (w1 \<noteq> [], 0x3a # y)"
    by (rule skip_white [OF w]) (simp_all add: is_space_def)
  moreover have "peek (w1 @ 0x3a # y) \<noteq> Some 0x22" using w by (cases w1) (auto simp: peek_def white_def is_space_def)
  note relaxed_string_quoted [OF k this, of strict]
  ultimately show ?thesis using v by (simp add: relaxed_object_loop.simps peek_def quoted_def)
qed

lemma relaxed_member_last:
  assumes k: "plain_string k" "white w1" and w: "white w3"
    and v: "rd (y @ w3 @ 0x7d # z) (d - 1) = Some (Inr (v, r))" and r: "eaten (w3 @ 0x7d # z) r" and n: "1 < n"
  shows "relaxed_object_loop n strict rd obj (quoted (escaped k) @ w1 @ 0x3a # y @ w3 @ 0x7d # z) d =
    Some (Inr (Object (obj @ [(k, v)]), z))"
proof -
  obtain m where m: "n = Suc m" "0 < m" using n by (cases n) auto
  obtain j where "skip_white_space r = Inr (j, 0x7d # z)" by (rule skip_eaten [OF w _ r]) auto
  with relaxed_member [where rd = rd and d = d, OF k v] relaxed_object_end [OF m(2)] show ?thesis by (simp add: m(1))
qed

lemma relaxed_member_cons:
  assumes k: "plain_string k" "white w1" and w: "white w3" and z: "z = w2 @ c2 # y2" "white w2" "\<not> is_space c2" "c2 \<noteq> 0"
    and v: "rd (y @ w3 @ 0x2c # z) (d - 1) = Some (Inr (v, r))" and r: "eaten (w3 @ 0x2c # z) r"
    and rec: "\<And>n. length (c2 # y2) < n \<Longrightarrow> relaxed_object_loop n strict rd (obj @ [(k, v)]) (c2 # y2) d = R"
    and n: "length (quoted (escaped k) @ w1 @ 0x3a # y @ w3 @ 0x2c # z) < n"
  shows "relaxed_object_loop n strict rd obj (quoted (escaped k) @ w1 @ 0x3a # y @ w3 @ 0x2c # z) d = R"
proof -
  obtain m where m: "n = Suc (Suc m)" "length z < m" using n by (cases n; cases "n - 1") (auto simp: quoted_def)
  have rest: "relaxed_object_loop (Suc m) strict rd (obj @ [(k, v)]) (0x2c # z) d = R"
    unfolding relaxed_object_comma z(1) using m(2) z by (intro relaxed_object_white rec) simp_all
  show ?thesis
  proof (cases rule: skip_eaten [OF w _ r])
    case (2 j)
    with relaxed_member [where rd = rd and d = d, OF k v] rest show ?thesis by (simp add: m(1))
  next
    case 3
    then have "skip_white_space r = Inr (w2 \<noteq> [], c2 # y2)" using skip_white [OF z(2-4), of y2] z(1) by simp
    with relaxed_member [where rd = rd and d = d, OF k v] rec [of "Suc m"] m(2) z(1) show ?thesis by (simp add: m(1))
  qed simp
qed

lemma members_split:
  assumes "json_members f kvs t"
  obtains w c y where "t = w @ c # y" "white w" "\<not> is_space c" "c \<noteq> 0"
proof (rule json_members.cases [OF assms])
  fix w assume "t = w @ [0x7d]" "white w"
  then show ?thesis by (intro that [of w "0x7d" "[]"]) (simp_all add: is_space_def)
qed (rule that [where c = "0x22"]; simp add: quoted_def is_space_def)+

subsection \<open>The grammar\<close>

lemma relaxed_parse_grammar:
  shows "json_value f v t \<Longrightarrow> (\<And>w rest n d. white w \<Longrightarrow> delimited rest \<Longrightarrow> length (w @ t @ rest) < n \<Longrightarrow>
      \<exists>r. relaxed_variant_from_stream n p strict (w @ t @ rest) d = Some (Inr (v, r)) \<and> eaten rest r)"
    and "json_items f vs t \<Longrightarrow> (\<And>w x rest m n d ar. t = w @ x \<Longrightarrow> white w \<Longrightarrow> \<not> is_space (hd x) \<Longrightarrow> x \<noteq> [] \<Longrightarrow>
      length (x @ rest) < n \<Longrightarrow> length (x @ rest) < m \<Longrightarrow>
      array_loop n (relaxed_variant_from_stream m p strict) ar (x @ rest) d = Some (Inr (Array (ar @ vs), rest)))"
    and "json_members f kvs t \<Longrightarrow> (\<And>w x rest m n d obj. t = w @ x \<Longrightarrow> white w \<Longrightarrow> \<not> is_space (hd x) \<Longrightarrow> x \<noteq> [] \<Longrightarrow>
      length (x @ rest) < n \<Longrightarrow> length (x @ rest) < m \<Longrightarrow>
      relaxed_object_loop n strict (relaxed_variant_from_stream m p strict) obj (x @ rest) d = Some (Inr (Object (obj @ kvs), rest)))"
proof (induction rule: json_value_json_items_json_members.inducts)
  case (scalar v t)
  obtain n' where "n = Suc n'" using scalar(4) by (cases n) auto
  then show ?case using relaxed_scalar [OF scalar(1-3)] by simp
next
  case (array vs t)
  obtain n' where n: "n = Suc n'" using array.prems(3) by (cases n) auto
  obtain u c y where t: "t = u @ c # y" "white u" "\<not> is_space c" "c \<noteq> 0" using array.IH(1) by (rule items_split)
  have "array_loop (length (0x5b # t @ rest)) (relaxed_variant_from_stream n' p strict) [] ((c # y) @ rest) (d - 1) =
      Some (Inr (Array ([] @ vs), rest))"
    using array.prems(3) t n by (intro array.IH(2) [of u "c # y"]) auto
  then have "relaxed_arrayFromStream (relaxed_variant_from_stream n' p strict) (0x5b # t @ rest) (d - 1) = Some (Inr (Array vs, rest))"
    using skip_white [OF t(2-4), of "y @ rest"] t(1) by (simp add: relaxed_arrayFromStream_def peek_def)
  then show ?case
    using relaxed_step [OF array.prems(1), of "0x5b" n' p strict "t @ rest" d] n by (simp add: is_space_def)
next
  case (object kvs t)
  obtain n' where n: "n = Suc n'" using object.prems(3) by (cases n) auto
  obtain u c y where t: "t = u @ c # y" "white u" "\<not> is_space c" "c \<noteq> 0" using object.IH(1) by (rule members_split)
  have "relaxed_object_loop (length (0x7b # t @ rest)) strict (relaxed_variant_from_stream n' p strict) [] ((c # y) @ rest) (d - 1) =
      Some (Inr (Object ([] @ kvs), rest))"
    using object.prems(3) t n by (intro object.IH(2) [of u "c # y"]) auto
  then have "relaxed_objectFromStream strict (relaxed_variant_from_stream n' p strict) (0x7b # t @ rest) (d - 1) = Some (Inr (Object kvs, rest))"
    using skip_white [OF t(2-4), of "y @ rest"] t(1) by (simp add: relaxed_objectFromStream_def peek_def)
  then show ?case
    using relaxed_step [OF object.prems(1), of "0x7b" n' p strict "t @ rest" d] n by (simp add: is_space_def)
next
  case (items_nil u)
  then have "x = [0x5d]" using white_split [of u "0x5d" "[]" w x] by (simp add: is_space_def)
  then show ?case using array_loop_end [of n] items_nil.prems(5) by simp
next
  case (items_last u v t w')
  obtain c r where t: "t = c # r" "\<not> is_space c" using items_last.IH(1) by (rule value_head)
  have x: "x = t @ w' @ [0x5d]" using white_split [of u c "r @ w' @ [0x5d]" w x] items_last.prems items_last.hyps t by simp
  have "\<exists>q. relaxed_variant_from_stream m p strict ([] @ t @ w' @ 0x5d # rest) (d - 1) = Some (Inr (v, q)) \<and> eaten (w' @ 0x5d # rest) q"
    using items_last.prems items_last.hyps x delimited_white by (intro items_last.IH(2)) (auto simp: white_def)
  with relaxed_item_last [OF items_last.IH(1) items_last.hyps(2)] items_last.prems(5) x t(1) show ?case by auto
next
  case (items_cons u v t w' vs t')
  obtain c r where t: "t = c # r" "\<not> is_space c" using items_cons.IH(1) by (rule value_head)
  have x: "x = t @ w' @ 0x2c # t'" using white_split [of u c "r @ w' @ 0x2c # t'" w x] items_cons.prems items_cons.hyps t by simp
  obtain w2 c2 y where t': "t' = w2 @ c2 # y" "white w2" "\<not> is_space c2" "c2 \<noteq> 0" using items_cons.IH(3) by (rule items_split)
  obtain q where q: "relaxed_variant_from_stream m p strict (t @ w' @ 0x2c # t' @ rest) (d - 1) = Some (Inr (v, q))"
    "eaten (w' @ 0x2c # t' @ rest) q"
    using items_cons.IH(2) [of "[]" "w' @ 0x2c # t' @ rest" m "d - 1"] items_cons.prems items_cons.hyps x delimited_white
    by (auto simp: white_def)
  have rec: "array_loop k (relaxed_variant_from_stream m p strict) (ar @ [v]) (c2 # y @ rest) d =
      Some (Inr (Array ((ar @ [v]) @ vs), rest))" if "length (c2 # y @ rest) < k" for k
    using items_cons.IH(4) [of w2 "c2 # y" rest k m "ar @ [v]" d] items_cons.prems x t' that by simp
  have "array_loop n (relaxed_variant_from_stream m p strict) ar (t @ w' @ 0x2c # t' @ rest) d =
      Some (Inr (Array ((ar @ [v]) @ vs), rest))"
    by (rule relaxed_item_cons [where rd = "relaxed_variant_from_stream m p strict" and d = d,
        OF items_cons.IH(1) items_cons.hyps(2) _ t'(2-4) q rec])
      (use t' items_cons.prems(5) x in simp_all)
  then show ?case by (simp add: x)
next
  case (members_nil u)
  then have "x = [0x7d]" using white_split [of u "0x7d" "[]" w x] by (simp add: is_space_def)
  then show ?case using relaxed_object_end [of n] members_nil.prems(5) by simp
next
  case (members_last u k w1 w2 v t w3)
  have x: "x = quoted (escaped k) @ w1 @ 0x3a # (w2 @ t) @ w3 @ [0x7d]"
    using white_split [of u "0x22" "escaped k @ 0x22 # w1 @ 0x3a # w2 @ t @ w3 @ [0x7d]" w x] members_last.prems members_last.hyps
    by (simp add: quoted_def is_space_def)
  obtain q where q: "relaxed_variant_from_stream m p strict ((w2 @ t) @ w3 @ 0x7d # rest) (d - 1) = Some (Inr (v, q))"
    "eaten (w3 @ 0x7d # rest) q"
    using members_last.IH(2) [of w2 "w3 @ 0x7d # rest" m "d - 1"] members_last.prems members_last.hyps x delimited_white by auto
  have "relaxed_object_loop n strict (relaxed_variant_from_stream m p strict) obj
      (quoted (escaped k) @ w1 @ 0x3a # (w2 @ t) @ w3 @ 0x7d # rest) d = Some (Inr (Object (obj @ [(k, v)]), rest))"
    by (rule relaxed_member_last [where rd = "relaxed_variant_from_stream m p strict" and d = d and y = "w2 @ t",
        OF members_last.hyps(2,3,5) q]) (use members_last.prems(5) x in simp)
  then show ?case by (simp add: x)
next
  case (members_cons u k w1 w2 v t w3 kvs t')
  have x: "x = quoted (escaped k) @ w1 @ 0x3a # (w2 @ t) @ w3 @ 0x2c # t'"
    using white_split [of u "0x22" "escaped k @ 0x22 # w1 @ 0x3a # w2 @ t @ w3 @ 0x2c # t'" w x] members_cons.prems members_cons.hyps
    by (simp add: quoted_def is_space_def)
  obtain w4 c4 y where t': "t' = w4 @ c4 # y" "white w4" "\<not> is_space c4" "c4 \<noteq> 0" using members_cons.IH(3) by (rule members_split)
  obtain q where q: "relaxed_variant_from_stream m p strict ((w2 @ t) @ w3 @ 0x2c # t' @ rest) (d - 1) = Some (Inr (v, q))"
    "eaten (w3 @ 0x2c # t' @ rest) q"
    using members_cons.IH(2) [of w2 "w3 @ 0x2c # t' @ rest" m "d - 1"] members_cons.prems members_cons.hyps x delimited_white by auto
  have rec: "relaxed_object_loop j strict (relaxed_variant_from_stream m p strict) (obj @ [(k, v)]) (c4 # y @ rest) d =
      Some (Inr (Object ((obj @ [(k, v)]) @ kvs), rest))" if "length (c4 # y @ rest) < j" for j
    using members_cons.IH(4) [of w4 "c4 # y" rest j m "obj @ [(k, v)]" d] members_cons.prems x t' that by simp
  have "relaxed_object_loop n strict (relaxed_variant_from_stream m p strict) obj
      (quoted (escaped k) @ w1 @ 0x3a # (w2 @ t) @ w3 @ 0x2c # t' @ rest) d = Some (Inr (Object ((obj @ [(k, v)]) @ kvs), rest))"
    by (rule relaxed_member_cons [where rd = "relaxed_variant_from_stream m p strict" and d = d and y = "w2 @ t",
        OF members_cons.hyps(2,3,5) _ t'(2-4) q rec])
      (use t' members_cons.prems(5) x in simp_all)
  then show ?case by (simp add: x)
qed

text \<open>Both parsers in all their modes on a whole text.\<close>

lemma parse_stream_grammar:
  assumes p: "decimal_casts p" and w: "white w" and v: "json_value f v t" and d: "2 * nesting v < unat d"
  shows "json_from_string p pt (w @ t) d = Some (Inr v)"
proof -
  have "delimited []" by (simp add: delimited_def)
  then have "variant_from_stream (Suc (length (w @ t))) p pt (w @ t @ []) d = Some (Inr (v, []))"
    using d by (intro parse_grammar(1) [OF p v w]) simp_all
  moreover obtain r where "relaxed_variant_from_stream (Suc (length (w @ t))) p strict (w @ t @ []) d = Some (Inr (v, r))" for strict
    using relaxed_parse_grammar(1) [OF v w \<open>delimited []\<close>, of "Suc (length (w @ t))" p _ d] by (auto simp: eaten_def)
  ultimately show ?thesis by (cases pt) (simp_all add: json_from_string_def parse_stream_def)
qed

end
