(* ===== verification/Json_Roundtrip.thy ===== *)
theory Json_Roundtrip
  imports Json_Relaxed_Read
begin

text \<open>
  What the generator writes: escaped strings are always valid UTF-8, the text of a variant belongs to the
  grammar, and therefore every parser reads it back.
\<close>

subsection \<open>Escaping\<close>

definition always :: "yield_function \<Rightarrow> bool" where
  "always yield \<longleftrightarrow> (\<forall>n. yield n = Inr ())"

lemma alwaysD: "always yield \<Longrightarrow> yield n = Inr ()"
  by (simp add: always_def)

lemma escape_loop_eq:
  "always yield \<Longrightarrow> escape_loop yield esc sz i r s = Inr (r @ concat (map (escape_char esc) s))"
  by (induction s arbitrary: i r) (auto simp: always_def)

lemma encode_high:
  assumes v: "is_code_point_valid cp" and c: "\<not> unat cp < 128"
  shows "list_all (\<lambda>b. 128 \<le> unat b) (encode_code_point cp)"
proof -
  have "map unat (encode_code_point cp) = octets (unat cp)"
    using v by (intro map_unat_encode) (simp add: code_point_valid_nat)
  moreover have "list_all (\<lambda>n. 128 \<le> n) (octets (unat cp))" using c by (simp add: octets_def)
  ultimately have "list_all (\<lambda>n. 128 \<le> n) (map unat (encode_code_point cp))" by simp
  then show ?thesis by (simp add: list.pred_map o_def)
qed

lemma escape_char_high: "128 \<le> unat c \<Longrightarrow> escape_char esc c = [c]"
  by (auto simp: escape_char_def word_le_nat_alt)

lemma escape_chars_high: "list_all (\<lambda>b. 128 \<le> unat b) bs \<Longrightarrow> concat (map (escape_char esc) bs) = bs"
  by (induction bs) (simp_all add: escape_char_high)

lemma escape_char_ascii:
  assumes "unat c < 128"
  shows "list_all (\<lambda>b. unat b < 128) (escape_char esc c)"
proof -
  have "unat c div 16 < 16" "unat c mod 16 < 16" using assms by simp_all
  then have "list_all (\<lambda>b. unat b < 128) (unicode_escape c)"
    by (simp add: unicode_escape_def ascii_def hex_digit_at_ascii)
  with assms show ?thesis by (simp add: escape_char_def)
qed

lemma escaped_valid:
  assumes "is_valid_utf8 s = Inr True"
  shows "is_valid_utf8 (concat (map (escape_char esc) s)) = Inr True"
proof -
  let ?ok = "\<lambda>cps. list_all (\<lambda>cp. is_code_point_valid cp \<and> \<not> c1_control cp) cps"
  obtain cps where "?ok cps" "s = encodes cps" using assms by (auto simp: is_valid_utf8_iff)
  moreover have "?ok cps \<Longrightarrow> \<exists>ds. ?ok ds \<and> concat (map (escape_char esc) (encodes cps)) = encodes ds" for cps
  proof (induction cps)
    case (Cons cp cps)
    then obtain ds where ds: "?ok ds" "concat (map (escape_char esc) (encodes cps)) = encodes ds" by auto
    have "\<exists>es. ?ok es \<and> concat (map (escape_char esc) (encode_code_point cp)) = encodes es"
    proof (cases "unat cp < 128")
      case True
      then have "encode_code_point cp = [ucast cp]" "unat (ucast cp :: byte) < 128"
        by (simp_all add: encode_code_point_def word_less_nat_alt unat_ucast_mod)
      then show ?thesis using ascii_encodes [OF escape_char_ascii [of "ucast cp" esc]] by simp
    next
      case False
      with Cons.prems encode_high [of cp] show ?thesis by (intro exI [of _ "[cp]"]) (simp add: escape_chars_high)
    qed
    then obtain es where "?ok es" "concat (map (escape_char esc) (encode_code_point cp)) = encodes es" by blast
    with ds show ?case by (intro exI [of _ "es @ ds"]) simp
  qed (auto intro: exI [of _ "[]"])
  ultimately show ?thesis by (auto simp: is_valid_utf8_iff)
qed

lemma escape_string_plain:
  assumes "always yield" and "is_valid_utf8 s = Inr True"
  shows "escape_string s yield esc = Inr (concat (map (escape_char esc) s))"
  using escape_loop_eq [OF assms(1), of esc "length s" 0 "[]" s] escaped_valid [OF assms(2), of esc]
  by (simp add: escape_string_def)

subsection \<open>Variants that have a text of their own\<close>

fun printable :: "output_formatting \<Rightarrow> variant \<Rightarrow> bool" where
  "printable f (Array vs) = list_all (printable f) vs"
| "printable f (Object kvs) = list_all (\<lambda>(k, v). plain_string k \<and> printable f v) kvs"
| "printable f v = (scalar_text f v \<noteq> None)"

lemma scalar_to_stream_text:
  assumes y: "always yield" and t: "scalar_text f v = Some t"
  shows "scalar_to_stream p yield f v os = Inr (os @ t)"
proof (cases v)
  case (Int64 i)
  with t show ?thesis by (auto split: if_splits)
next
  case (Uint64 u)
  with t show ?thesis by (auto split: if_splits)
next
  case (String s)
  with t have "plain_string s" "t = quoted (escaped s)" by (auto split: if_splits)
  with String escape_string_plain [OF y, of s True] show ?thesis by (simp add: plain_string_def escaped_def)
qed (use t in simp_all)

lemma white_nil [simp]: "white []"
  by (simp add: white_def)

text \<open>The loops over the elements, given that each element is written as a text of the grammar.\<close>

lemma variants_to_stream_grammar:
  assumes "\<And>v os. v \<in> set vs \<Longrightarrow> \<exists>t. to_stream p yield f v os = Inr (os @ t) \<and> json_value f v t"
  shows "\<exists>t. variants_to_stream p yield f vs os = Inr (os @ t) \<and> json_items f vs (t @ [0x5d])"
  using assms
proof (induction vs arbitrary: os)
  case Nil
  show ?case using items_nil [of "[]" f] by simp
next
  case (Cons v vs)
  obtain t where t: "to_stream p yield f v os = Inr (os @ t)" "json_value f v t" using Cons.prems by force
  show ?case
  proof (cases vs)
    case Nil
    with t items_last [of "[]" f v t "[]"] show ?thesis by auto
  next
    case (Cons a b)
    obtain t' where "variants_to_stream p yield f vs ((os @ t) @ [0x2c]) = Inr (((os @ t) @ [0x2c]) @ t')"
      "json_items f vs (t' @ [0x5d])" using Cons.IH [of "(os @ t) @ [0x2c]"] Cons.prems by auto
    with t items_cons [of "[]" f v t "[]" vs "t' @ [0x5d]"] Cons show ?thesis
      by (intro exI [of _ "t @ 0x2c # t'"]) simp
  qed
qed

lemma entries_to_stream_grammar:
  assumes y: "always yield"
    and kvs: "\<And>k v os. (k, v) \<in> set kvs \<Longrightarrow>
      plain_string k \<and> (\<exists>t. to_stream p yield f v os = Inr (os @ t) \<and> json_value f v t)"
  shows "\<exists>t. entries_to_stream p yield f kvs os = Inr (os @ t) \<and> json_members f kvs (t @ [0x7d])"
  using kvs
proof (induction kvs arbitrary: os)
  case Nil
  show ?case using members_nil [of "[]" f] by simp
next
  case (Cons e kvs)
  obtain k v where e: "e = (k, v)" by (cases e)
  have k: "plain_string k" using Cons.prems [of k v] by (simp add: e)
  then have esc: "escape_string k yield True = Inr (escaped k)"
    using escape_string_plain [OF y, of k True] by (simp add: plain_string_def escaped_def)
  obtain t where t: "to_stream p yield f v (os @ quoted (escaped k) @ [0x3a]) = Inr ((os @ quoted (escaped k) @ [0x3a]) @ t)"
    "json_value f v t" using Cons.prems [of k v "os @ quoted (escaped k) @ [0x3a]"] by (auto simp: e)
  show ?case
  proof (cases kvs)
    case Nil
    with t esc members_last [OF _ k, of "[]" "[]" "[]" f v t "[]"] show ?thesis
      by (intro exI [of _ "quoted (escaped k) @ 0x3a # t"]) (simp add: e)
  next
    case (Cons a b)
    let ?os = "((os @ quoted (escaped k) @ [0x3a]) @ t) @ [0x2c]"
    obtain t' where "entries_to_stream p yield f kvs ?os = Inr (?os @ t')" "json_members f kvs (t' @ [0x7d])"
      using Cons.IH [of ?os] Cons.prems by (metis list.set_intros(2))
    with t esc members_cons [OF _ k, of "[]" "[]" "[]" f v t "[]" kvs "t' @ [0x7d]"] Cons show ?thesis
      by (intro exI [of _ "quoted (escaped k) @ 0x3a # t @ 0x2c # t'"]) (simp add: e)
  qed
qed

lemma scalar_stream_grammar:
  assumes y: "always yield" and s: "scalar_text f v \<noteq> None"
  shows "\<exists>t. to_stream p yield f v os = Inr (os @ t) \<and> json_value f v t"
proof -
  obtain t where t: "scalar_text f v = Some t" using s by auto
  then have "to_stream p yield f v os = and_then (yield (length os)) (\<lambda>_. scalar_to_stream p yield f v os)"
    by (cases v) simp_all
  then show ?thesis using alwaysD [OF y, of "length os"] scalar_to_stream_text [OF y t] scalar [OF t] by simp
qed

lemma to_stream_grammar:
  assumes y: "always yield"
  shows "printable f v \<Longrightarrow> \<exists>t. to_stream p yield f v os = Inr (os @ t) \<and> json_value f v t"
proof (induction v arbitrary: os)
  case (Array vs)
  then have "\<exists>t. to_stream p yield f v os = Inr (os @ t) \<and> json_value f v t" if "v \<in> set vs" for v os
    using that by (simp add: list_all_iff)
  from variants_to_stream_grammar [OF this, where os = "os @ [0x5b]"] obtain t where
    "variants_to_stream p yield f vs (os @ [0x5b]) = Inr ((os @ [0x5b]) @ t)" "json_items f vs (t @ [0x5d])" by auto
  then show ?case using alwaysD [OF y, of "length os"] array [of f vs "t @ [0x5d]"]
    by (intro exI [of _ "0x5b # t @ [0x5d]"]) simp
next
  case (Object kvs)
  then have "plain_string k \<and> (\<exists>t. to_stream p yield f v os = Inr (os @ t) \<and> json_value f v t)"
    if "(k, v) \<in> set kvs" for k v os
    using that by (force simp: list_all_iff)
  from entries_to_stream_grammar [OF y this, where os = "os @ [0x7b]"] obtain t where
    "entries_to_stream p yield f kvs (os @ [0x7b]) = Inr ((os @ [0x7b]) @ t)" "json_members f kvs (t @ [0x7d])" by auto
  then show ?case using alwaysD [OF y, of "length os"] object [of f kvs "t @ [0x7d]"]
    by (intro exI [of _ "0x7b # t @ [0x7d]"]) simp
qed (auto simp only: printable.simps intro: scalar_stream_grammar [OF y])

subsection \<open>Properties\<close>


lemma sample_printable:
  "printable legacy_generator (Object [(ascii ''k'', Array [Uint64 7, Int64 (- 3), Bool True, Null, String (ascii ''x'')])])"
  by code_simp


text \<open>
  \<^verbatim>\<open>escape_string\<close> writes valid UTF-8 whatever bytes it is given: either the escaped string is valid
  already or the invalid parts are pruned.
\<close>

lemma escape_string_valid:
  "escape_string s yield esc = Inr r \<Longrightarrow> is_valid_utf8 r = Inr True"
  using prune_invalid_utf8_eq
  by (auto simp: escape_string_def is_valid_utf8_eq and_then_def split: sum.splits if_splits)

end
