(* ===== verification/Json_Pretty.thy ===== *)
theory Json_Pretty
  imports Json_Roundtrip
begin

text \<open>
  Indentation only adds white space: the indented form of the text of a variant belongs to the
  grammar too, so every parser reads the same variant from it.
\<close>

subsection \<open>The compact text\<close>

fun join :: "bytes list \<Rightarrow> bytes" where
  "join [] = []"
| "join [x] = x"
| "join (x # xs) = x @ 0x2c # join xs"

fun compact :: "output_formatting \<Rightarrow> variant \<Rightarrow> bytes" where
  "compact f (Array vs) = 0x5b # join (map (compact f) vs) @ [0x5d]"
| "compact f (Object kvs) = 0x7b # join (map (\<lambda>(k, v). quoted (escaped k) @ 0x3a # compact f v) kvs) @ [0x7d]"
| "compact f v = the (scalar_text f v)"

lemma join_cons: "xs \<noteq> [] \<Longrightarrow> join (x # xs) = x @ 0x2c # join xs"
  by (cases xs) simp_all

lemma variants_to_stream_compact:
  assumes "\<And>v os. v \<in> set vs \<Longrightarrow> to_stream p yield f v os = Inr (os @ compact f v)"
  shows "variants_to_stream p yield f vs os = Inr (os @ join (map (compact f) vs))"
  using assms
proof (induction vs arbitrary: os)
  case (Cons v vs)
  then show ?case by (cases "vs = []") (simp_all add: join_cons)
qed simp

lemma entries_to_stream_compact:
  assumes y: "always yield"
    and kvs: "\<And>k v os. (k, v) \<in> set kvs \<Longrightarrow> plain_string k \<and> to_stream p yield f v os = Inr (os @ compact f v)"
  shows "entries_to_stream p yield f kvs os =
    Inr (os @ join (map (\<lambda>(k, v). quoted (escaped k) @ 0x3a # compact f v) kvs))"
  using kvs
proof (induction kvs arbitrary: os)
  case (Cons e kvs)
  obtain k v where e: "e = (k, v)" by (cases e)
  have k: "plain_string k" and v: "to_stream p yield f v os = Inr (os @ compact f v)" for os
    using Cons.prems [of k v] by (simp_all add: e)
  have "escape_string k yield True = Inr (escaped k)"
    using k escape_string_plain [OF y, of k True] by (simp add: plain_string_def escaped_def)
  moreover have "entries_to_stream p yield f kvs os = Inr (os @ join (map (\<lambda>(k, v). quoted (escaped k) @ 0x3a # compact f v) kvs))" for os
    using Cons.IH Cons.prems by (metis list.set_intros(2))
  ultimately show ?case using v by (cases "kvs = []") (simp_all add: e join_cons)
qed simp

lemma to_stream_compact:
  assumes y: "always yield"
  shows "printable f v \<Longrightarrow> to_stream p yield f v os = Inr (os @ compact f v)"
proof (induction v arbitrary: os)
  case (Array vs)
  then have "to_stream p yield f v os = Inr (os @ compact f v)" if "v \<in> set vs" for v os
    using that by (simp add: list_all_iff)
  from variants_to_stream_compact [OF this] show ?case using alwaysD [OF y, of "length os"] by simp
next
  case (Object kvs)
  then have "plain_string k \<and> to_stream p yield f v os = Inr (os @ compact f v)" if "(k, v) \<in> set kvs" for k v os
    using that by (force simp: list_all_iff)
  from entries_to_stream_compact [OF y this] show ?case using alwaysD [OF y, of "length os"] by simp
next
  case (String s)
  then have "plain_string s" by (auto split: if_splits)
  with escape_string_plain [OF y, of s True] show ?case
    using alwaysD [OF y, of "length os"] by (simp add: plain_string_def escaped_def)
qed (use alwaysD [OF y] in \<open>auto split: if_splits\<close>)

subsection \<open>Indenting a string\<close>

definition calm :: "pretty \<Rightarrow> bool" where
  "calm st \<longleftrightarrow> \<not> quote st \<and> \<not> escape st"

lemma pretty_in_string:
  assumes "quote st" "\<not> escape st" "\<not> first st" "\<not> control_char c"
  shows "pretty_loop i b (escape_char True c @ rest) st =
    pretty_loop i (Some (last (escape_char True c))) rest (pretty_put (escape_char True c) st)"
proof -
  have unicode: "escape_char True c = (if c = 0x09 then [0x5c, 0x74] else if c = 0x0a then [0x5c, 0x6e]
      else if c = 0x0d then [0x5c, 0x72] else if c = 0x5c then [0x5c, 0x5c] else if c = 0x22 then [0x5c, 0x22] else [c])"
    using assms(4) by (auto simp: escape_char_def control_char_def)
  obtain l fi q e out' where st: "st = \<lparr>level = l, first = fi, quote = q, escape = e, out = out'\<rparr>" by (cases st)
  show ?thesis using assms(1-3) unfolding unicode st
    by (auto simp: pretty_step_def pretty_put_def pretty_start_def Let_def)
qed

lemma pretty_escaped:
  assumes "list_all (\<lambda>c. \<not> control_char c) s" and "quote st" "\<not> escape st" "\<not> first st"
  shows "\<exists>b'. pretty_loop i b (escaped s @ rest) st = pretty_loop i b' rest (pretty_put (escaped s) st)"
  using assms
proof (induction s arbitrary: b st)
  case Nil
  then show ?case by (auto simp: escaped_def pretty_put_def)
next
  case (Cons c s)
  let ?st = "pretty_put (escape_char True c) st"
  obtain b' where "pretty_loop i (Some (last (escape_char True c))) (escaped s @ rest) ?st =
      pretty_loop i b' rest (pretty_put (escaped s) ?st)"
    using Cons.IH [of ?st "Some (last (escape_char True c))"] Cons.prems by (auto simp: pretty_put_def)
  then show ?case
    using pretty_in_string [of st c i b "escaped s @ rest"] Cons.prems by (auto simp: escaped_def pretty_put_def)
qed

text \<open>The state after a calm state has written \<open>bs\<close>, having started a new line if one was due.\<close>

definition after :: "byte \<Rightarrow> bytes \<Rightarrow> pretty \<Rightarrow> pretty" where
  "after i bs st = pretty_put bs (pretty_start i st)"

lemma pretty_quoted:
  assumes "plain_string s" and "calm st"
  shows "pretty_loop i b (quoted (escaped s) @ rest) st = pretty_loop i (Some 0x22) rest (after i (quoted (escaped s)) st)"
proof -
  let ?st = "(pretty_put [0x22] (pretty_start i st))\<lparr>quote := True\<rparr>"
  have first: "pretty_step i b 0x22 st = Inr ?st"
    using assms(2) by (simp add: pretty_step_def Let_def calm_def pretty_start_def pretty_put_def)
  have "quote ?st" "\<not> escape ?st" "\<not> first ?st"
    using assms(2) by (simp_all add: calm_def pretty_start_def pretty_put_def)
  from pretty_escaped [OF _ this, of s i "Some 0x22" "0x22 # rest"] assms(1) obtain b' where
    "pretty_loop i (Some 0x22) (escaped s @ 0x22 # rest) ?st = pretty_loop i b' (0x22 # rest) (pretty_put (escaped s) ?st)"
    by (auto simp: plain_string_def)
  moreover have "pretty_step i b' 0x22 (pretty_put (escaped s) ?st) = Inr (after i (quoted (escaped s)) st)"
    using assms(2) by (simp add: pretty_step_def Let_def calm_def pretty_start_def pretty_put_def after_def quoted_def)
  ultimately show ?thesis using first by (simp add: quoted_def)
qed

text \<open>Characters that mean nothing to the indentation.\<close>

definition ordinary :: "byte \<Rightarrow> bool" where
  "ordinary c \<longleftrightarrow> c \<notin> {0x5c, 0x3a, 0x22, 0x7b, 0x5b, 0x7d, 0x5d, 0x2c}"

lemma pretty_ordinary:
  assumes "list_all ordinary s" and "s \<noteq> []" and "calm st"
  shows "pretty_loop i b (s @ rest) st = pretty_loop i (Some (last s)) rest (after i s st)"
  using assms
proof (induction s arbitrary: b st)
  case (Cons c s)
  have step: "pretty_step i b c st = Inr (after i [c] st)"
    using Cons.prems by (simp add: pretty_step_def Let_def ordinary_def calm_def after_def)
  have c: "calm (after i [c] st)" "after i s (after i [c] st) = after i (c # s) st"
    using Cons.prems(3) by (simp_all add: calm_def after_def pretty_put_def pretty_start_def)
  show ?case
  proof (cases "s = []")
    case False
    with Cons.IH [of "after i [c] st" "Some c"] Cons.prems c step show ?thesis by simp
  qed (use step in simp)
qed simp

lemma digit_ordinary: "is_digit c \<Longrightarrow> ordinary c"
  by (auto simp: is_digit_def ordinary_def)

lemma dec_ordinary: "list_all ordinary (dec n)"
  using dec_digits [of n] by (auto simp: list_all_iff digit_ordinary)

lemma pretty_scalar:
  assumes t: "scalar_text f v = Some t" and st: "calm st"
  shows "pretty_loop i b (t @ rest) st = pretty_loop i (Some (last t)) rest (after i t st)"
proof (cases v)
  case (String s)
  with t have "plain_string s" "t = quoted (escaped s)" by (auto split: if_splits)
  with pretty_quoted [OF _ st, of s] show ?thesis by (simp add: quoted_def)
next
  case (Uint64 u)
  with t have "t = dec (unat u)" by (simp split: if_splits)
  with pretty_ordinary [OF dec_ordinary _ st] show ?thesis by simp
next
  case (Int64 j)
  with t have "t = 0x2d # dec (nat (- sint j))" by (simp add: dec_int_def split: if_splits)
  then show ?thesis using dec_ordinary by (intro pretty_ordinary [OF _ _ st]) (simp_all add: ordinary_def)
next
  case Null
  with t show ?thesis by (intro pretty_ordinary [OF _ _ st]) (auto simp: ordinary_def ascii_def)
next
  case (Bool c)
  with t show ?thesis by (intro pretty_ordinary [OF _ _ st]; cases c) (auto simp: ordinary_def ascii_def)
qed (use t in simp_all)

subsection \<open>Indenting arrays and objects\<close>

text \<open>
  \<open>indents R i s\<close>: from any calm state the text \<open>s\<close> is copied, up to white space, as a text in \<open>R\<close> after
  optional white space, and the state is the same again but that no new line is due.
\<close>

definition indents :: "(bytes \<Rightarrow> bool) \<Rightarrow> byte \<Rightarrow> bytes \<Rightarrow> bool" where
  "indents R i s \<longleftrightarrow>
     (\<forall>b rest st. calm st \<longrightarrow> (\<exists>w t b'. white w \<and> R t \<and> b' \<noteq> 0x5b \<and> b' \<noteq> 0x7b \<and>
        pretty_loop i b (s @ rest) st = pretty_loop i (Some b') rest (st\<lparr>first := False, out := out st @ w @ t\<rparr>)))"

lemma indentsE:
  assumes "indents R i s" and "calm st"
  obtains w t b' where "white w" "R t" "b' \<noteq> 0x5b" "b' \<noteq> 0x7b"
    "pretty_loop i b (s @ rest) st = pretty_loop i (Some b') rest (st\<lparr>first := False, out := out st @ w @ t\<rparr>)"
  using assms unfolding indents_def by blast

lemma white_newline: "white (0x0a # replicate n 0x20)" "white (replicate n 0x20)" "white [0x20]"
  by (simp_all add: white_def is_space_def list_all_iff)

lemma after_eq:
  "\<exists>w. white w \<and> after i bs st = st\<lparr>first := False, out := out st @ w @ bs\<rparr>"
proof (cases "first st")
  case True
  then show ?thesis using white_newline(1)
    by (intro exI [of _ "0x0a # pretty_indent i st"]) (simp add: after_def pretty_start_def pretty_put_def pretty_indent_def)
next
  case False
  then show ?thesis by (intro exI [of _ "[]"]) (simp add: after_def pretty_start_def pretty_put_def)
qed

lemma pretty_updates [simp]:
  "st\<lparr>first := a, level := n\<rparr> = st\<lparr>level := n, first := a\<rparr>"
  "st\<lparr>out := o', level := n\<rparr> = st\<lparr>level := n, out := o'\<rparr>"
  "st\<lparr>out := o', first := a\<rparr> = st\<lparr>first := a, out := o'\<rparr>"
  by (cases st; simp)+

lemma calm_update [simp]:
  "calm (st\<lparr>first := a\<rparr>) = calm st" "calm (st\<lparr>out := b\<rparr>) = calm st" "calm (st\<lparr>level := n\<rparr>) = calm st"
  by (simp_all add: calm_def)

lemma indents_scalar:
  assumes "scalar_text f v = Some t"
  shows "indents (json_value f v) i t"
  unfolding indents_def
proof (intro allI impI)
  fix b rest st assume st: "calm st"
  obtain w where "white w" "after i t st = st\<lparr>first := False, out := out st @ w @ t\<rparr>" using after_eq by blast
  moreover have "last t \<noteq> 0x5b \<and> last t \<noteq> 0x7b"
  proof -
    have "last (dec n) \<noteq> 0x5b \<and> last (dec n) \<noteq> 0x7b" for n
      using dec_ordinary [of n] dec_not_nil [of n] last_in_set [of "dec n"] by (auto simp: list_all_iff ordinary_def)
    with assms show ?thesis by (cases v) (auto simp: ascii_def quoted_def dec_int_def split: if_splits)
  qed
  ultimately show "\<exists>w t' b'. white w \<and> json_value f v t' \<and> b' \<noteq> 0x5b \<and> b' \<noteq> 0x7b \<and>
      pretty_loop i b (t @ rest) st = pretty_loop i (Some b') rest (st\<lparr>first := False, out := out st @ w @ t'\<rparr>)"
    using pretty_scalar [OF assms st] scalar [OF assms] by metis
qed

text \<open>The closing bracket, after at least one element.\<close>

lemma pretty_close:
  assumes "calm st" and "\<not> first st" and "b \<noteq> 0x5b" "b \<noteq> 0x7b" and "c = 0x5d \<or> c = 0x7d"
  shows "\<exists>w. white w \<and> pretty_loop i (Some b) (c # rest) st =
    pretty_loop i (Some c) rest (st\<lparr>level := level st - 1, out := out st @ w @ [c]\<rparr>)"
proof -
  let ?w = "0x0a # pretty_indent i (st\<lparr>level := level st - 1\<rparr>)"
  have "pretty_step i (Some b) c st = Inr (st\<lparr>level := level st - 1, out := out st @ ?w @ [c]\<rparr>)"
    using assms by (auto simp: pretty_step_def Let_def calm_def pretty_put_def pretty_indent_def)
  moreover have "white ?w" by (simp only: pretty_indent_def white_newline)
  ultimately show ?thesis by auto
qed

lemma pretty_comma:
  "calm st \<Longrightarrow> pretty_loop i b (0x2c # rest) st = pretty_loop i (Some 0x2c) rest (st\<lparr>first := True, out := out st @ [0x2c]\<rparr>)"
  by (simp add: pretty_step_def calm_def pretty_put_def Let_def)

text \<open>
  The elements of an array or an object up to the closing bracket \<open>c\<close>. \<open>E\<close> are the texts of one element
  and \<open>L\<close> those of a list of elements, closing bracket included.
\<close>

lemma pretty_elements:
  assumes el: "\<And>x. x \<in> set xs \<Longrightarrow> indents (E x) i (g x)"
    and last1: "\<And>w x t w'. white w \<Longrightarrow> E x t \<Longrightarrow> white w' \<Longrightarrow> L [x] (w @ t @ w' @ [c])"
    and cons1: "\<And>w x t ys t'. white w \<Longrightarrow> E x t \<Longrightarrow> L ys t' \<Longrightarrow> L (x # ys) (w @ t @ 0x2c # t')"
    and c: "c = 0x5d \<or> c = 0x7d" and xs: "xs \<noteq> []" and st: "calm st"
  shows "\<exists>t. L xs t \<and> pretty_loop i b (join (map g xs) @ c # rest) st =
    pretty_loop i (Some c) rest (st\<lparr>level := level st - 1, first := False, out := out st @ t\<rparr>)"
  using el xs st
proof (induction xs arbitrary: b st)
  case (Cons x xs)
  have ix: "indents (E x) i (g x)" using Cons.prems by simp
  show ?case
  proof (cases "xs = []")
    case True
    obtain w t b' where t: "white w" "E x t" "b' \<noteq> 0x5b" "b' \<noteq> 0x7b" "pretty_loop i b (g x @ c # rest) st =
        pretty_loop i (Some b') (c # rest) (st\<lparr>first := False, out := out st @ w @ t\<rparr>)"
      using ix Cons.prems(3) by (rule indentsE)
    obtain w' where w': "white w'" "pretty_loop i (Some b') (c # rest) (st\<lparr>first := False, out := out st @ w @ t\<rparr>) =
        pretty_loop i (Some c) rest (st\<lparr>first := False, level := level st - 1, out := (out st @ w @ t) @ w' @ [c]\<rparr>)"
      using pretty_close [of "st\<lparr>first := False, out := out st @ w @ t\<rparr>" b' c i rest] Cons.prems(3) t c by auto
    show ?thesis
      using last1 [OF t(1,2) w'(1)] t(5) w'(2) True by (intro exI [of _ "w @ t @ w' @ [c]"]) simp
  next
    case False
    let ?rest = "0x2c # join (map g xs) @ c # rest"
    obtain w t b' where t: "white w" "E x t" "pretty_loop i b (g x @ ?rest) st =
        pretty_loop i (Some b') ?rest (st\<lparr>first := False, out := out st @ w @ t\<rparr>)"
      using ix Cons.prems(3) by (rule indentsE)
    let ?st = "st\<lparr>first := True, out := (out st @ w @ t) @ [0x2c]\<rparr>"
    have comma: "pretty_loop i (Some b') ?rest (st\<lparr>first := False, out := out st @ w @ t\<rparr>) =
        pretty_loop i (Some 0x2c) (join (map g xs) @ c # rest) ?st"
      using pretty_comma [of "st\<lparr>first := False, out := out st @ w @ t\<rparr>"] Cons.prems(3) by simp
    obtain t' where "L xs t'" "pretty_loop i (Some 0x2c) (join (map g xs) @ c # rest) ?st =
        pretty_loop i (Some c) rest (?st\<lparr>level := level ?st - 1, first := False, out := out ?st @ t'\<rparr>)"
      using Cons.IH [of ?st "Some 0x2c"] Cons.prems False by auto
    then show ?thesis
      using cons1 [OF t(1,2)] t(3) comma False by (intro exI [of _ "w @ t @ 0x2c # t'"]) (simp add: join_cons)
  qed
qed simp

lemma pretty_open:
  "calm st \<Longrightarrow> c = 0x5b \<or> c = 0x7b \<Longrightarrow> pretty_loop i b (c # rest) st =
    pretty_loop i (Some c) rest (st\<lparr>level := level st + 1, first := True, out := out st @ [c]\<rparr>)"
  by (auto simp: pretty_step_def Let_def calm_def pretty_put_def)

lemma pretty_empty:
  "calm st \<Longrightarrow> first st \<Longrightarrow> b = 0x5b \<or> b = 0x7b \<Longrightarrow> c = 0x5d \<or> c = 0x7d \<Longrightarrow> pretty_loop i (Some b) (c # rest) st =
    pretty_loop i (Some c) rest (st\<lparr>level := level st - 1, first := False, out := out st @ [c]\<rparr>)"
  by (auto simp: pretty_step_def Let_def calm_def pretty_put_def)

text \<open>An array or an object as a whole, from its opening bracket \<open>c0\<close> to its closing bracket \<open>c\<close>.\<close>

lemma indents_bracketed:
  assumes el: "\<And>x. x \<in> set xs \<Longrightarrow> indents (E x) i (g x)"
    and nil: "L [] [c]"
    and last1: "\<And>w x t w'. white w \<Longrightarrow> E x t \<Longrightarrow> white w' \<Longrightarrow> L [x] (w @ t @ w' @ [c])"
    and cons1: "\<And>w x t ys t'. white w \<Longrightarrow> E x t \<Longrightarrow> L ys t' \<Longrightarrow> L (x # ys) (w @ t @ 0x2c # t')"
    and value1: "\<And>t. L xs t \<Longrightarrow> R (c0 # t)"
    and c: "c0 = 0x5b \<or> c0 = 0x7b" "c = 0x5d \<or> c = 0x7d"
  shows "indents R i (c0 # join (map g xs) @ [c])"
  unfolding indents_def
proof (intro allI impI)
  fix b rest st assume st: "calm st"
  let ?st = "st\<lparr>level := level st + 1, first := True, out := out st @ [c0]\<rparr>"
  have st': "calm ?st" using st by simp
  have "\<exists>t. L xs t \<and> pretty_loop i (Some c0) (join (map g xs) @ c # rest) ?st =
    pretty_loop i (Some c) rest (?st\<lparr>level := level ?st - 1, first := False, out := out ?st @ t\<rparr>)"
  proof (cases "xs = []")
    case True
    with nil pretty_empty [OF st' _ c] show ?thesis by (intro exI [of _ "[c]"]) simp
  next
    case False
    from pretty_elements [where E = E and L = L and g = g, OF el last1 cons1 c(2) False st'] show ?thesis by blast
  qed
  then obtain t where t: "L xs t" "pretty_loop i (Some c0) (join (map g xs) @ c # rest) ?st =
    pretty_loop i (Some c) rest (st\<lparr>first := False, out := out st @ [] @ c0 # t\<rparr>)" by auto
  moreover have "pretty_loop i b ((c0 # join (map g xs) @ [c]) @ rest) st =
      pretty_loop i (Some c0) (join (map g xs) @ c # rest) ?st"
    using pretty_open [OF st c(1)] by simp
  moreover have "c \<noteq> 0x5b" "c \<noteq> 0x7b" using c(2) by auto
  ultimately show "\<exists>w t b'. white w \<and> R t \<and> b' \<noteq> 0x5b \<and> b' \<noteq> 0x7b \<and>
      pretty_loop i b ((c0 # join (map g xs) @ [c]) @ rest) st =
      pretty_loop i (Some b') rest (st\<lparr>first := False, out := out st @ w @ t\<rparr>)"
    using value1 [OF t(1)] by (metis white_nil)
qed

definition member_text :: "output_formatting \<Rightarrow> bytes \<times> variant \<Rightarrow> bytes \<Rightarrow> bool" where
  "member_text f e t \<longleftrightarrow> plain_string (fst e) \<and>
     (\<exists>w1 w2 tv. white w1 \<and> white w2 \<and> json_value f (snd e) tv \<and> t = quoted (escaped (fst e)) @ w1 @ 0x3a # w2 @ tv)"

lemma pretty_colon:
  "calm st \<Longrightarrow> pretty_loop i b (0x3a # rest) st = pretty_loop i (Some 0x3a) rest (st\<lparr>out := out st @ [0x3a, 0x20]\<rparr>)"
  by (simp add: pretty_step_def calm_def pretty_put_def)

lemma indents_member:
  assumes k: "plain_string k" and v: "indents (json_value f v) i t"
  shows "indents (member_text f (k, v)) i (quoted (escaped k) @ 0x3a # t)"
  unfolding indents_def
proof (intro allI impI)
  fix b rest st assume st: "calm st"
  let ?q = "quoted (escaped k)"
  obtain w where w: "white w" "after i ?q st = st\<lparr>first := False, out := out st @ w @ ?q\<rparr>" using after_eq by blast
  let ?st = "st\<lparr>first := False, out := out st @ w @ ?q @ [0x3a, 0x20]\<rparr>"
  have st': "calm ?st" using st by simp
  have "pretty_loop i b ((?q @ 0x3a # t) @ rest) st = pretty_loop i (Some 0x3a) (t @ rest) ?st"
    using pretty_quoted [OF k st, of i b "0x3a # t @ rest"] w(2) pretty_colon [of "after i ?q st" i "Some 0x22" "t @ rest"] st by simp
  moreover obtain w2 tv b' where tv: "white w2" "json_value f v tv" "b' \<noteq> 0x5b" "b' \<noteq> 0x7b"
    "pretty_loop i (Some 0x3a) (t @ rest) ?st =
      pretty_loop i (Some b') rest (?st\<lparr>first := False, out := out ?st @ w2 @ tv\<rparr>)"
    using v st' by (rule indentsE)
  moreover have "white (0x20 # w2)" using tv(1) by (simp add: white_def is_space_def)
  with k tv(2) have "member_text f (k, v) (?q @ [] @ 0x3a # (0x20 # w2) @ tv)"
    unfolding member_text_def fst_conv snd_conv using white_nil by blast
  ultimately show "\<exists>w t' b'. white w \<and> member_text f (k, v) t' \<and> b' \<noteq> 0x5b \<and> b' \<noteq> 0x7b \<and>
      pretty_loop i b ((?q @ 0x3a # t) @ rest) st =
      pretty_loop i (Some b') rest (st\<lparr>first := False, out := out st @ w @ t'\<rparr>)"
    using w(1) by (intro exI [of _ w] exI [of _ "?q @ [] @ 0x3a # (0x20 # w2) @ tv"] exI [of _ b']) simp
qed

lemma member_text_last: "white w \<Longrightarrow> member_text f e t \<Longrightarrow> white w' \<Longrightarrow> json_members f [e] (w @ t @ w' @ [0x7d])"
  using members_last by (cases e) (fastforce simp: member_text_def)

lemma member_text_cons:
  "white w \<Longrightarrow> member_text f e t \<Longrightarrow> json_members f es t' \<Longrightarrow> json_members f (e # es) (w @ t @ 0x2c # t')"
  using members_cons [where ?w3.0 = "[]"] by (cases e) (fastforce simp: member_text_def)

lemma indents_compact: "printable f v \<Longrightarrow> indents (json_value f v) i (compact f v)"
proof (induction v)
  case (Array vs)
  then have "indents (json_value f v) i (compact f v)" if "v \<in> set vs" for v using that by (simp add: list_all_iff)
  then have "indents (json_value f (Array vs)) i (0x5b # join (map (compact f) vs) @ [0x5d])"
    using items_nil [of "[]" f] items_cons [where w' = "[]"]
    by (intro indents_bracketed [where E = "json_value f" and L = "json_items f"])
      (auto intro: items_last array)
  then show ?case by simp
next
  case (Object kvs)
  have "indents (member_text f e) i (case e of (k, v) \<Rightarrow> quoted (escaped k) @ 0x3a # compact f v)"
    if e: "e \<in> set kvs" for e
  proof (cases e)
    case (Pair k v)
    with Object e have "plain_string k" "indents (json_value f v) i (compact f v)" by (force simp: list_all_iff)+
    with indents_member Pair show ?thesis by simp
  qed
  then have "indents (json_value f (Object kvs)) i
      (0x7b # join (map (\<lambda>(k, v). quoted (escaped k) @ 0x3a # compact f v) kvs) @ [0x7d])"
    using members_nil [of "[]" f]
    by (intro indents_bracketed [where E = "member_text f" and L = "json_members f"])
      (auto intro: member_text_last member_text_cons object)
  then show ?case by simp
qed (auto intro: indents_scalar)

subsection \<open>Property\<close>



end
