(* ===== verification/Json_Depth.thy ===== *)
theory Json_Depth
  imports Json_Roundtrip
begin

text \<open>
  What the limit on the nesting means in the parsers. Each level of arrays lowers it twice, by
  \<^verbatim>\<open>max_depth - 1\<close> on unsigned numbers, once for the array and once for the element, and only a value
  compares it with zero.
\<close>

fun nested :: "nat \<Rightarrow> bytes" where
  "nested 0 = ascii ''null''"
| "nested (Suc k) = 0x5b # nested k @ [0x5d]"

fun nested_arrays :: "nat \<Rightarrow> variant" where
  "nested_arrays 0 = Null"
| "nested_arrays (Suc k) = Array [nested_arrays k]"

declare variant_from_stream.simps [simp del] array_loop.simps [simp del]

lemma nested_head:
  obtains c r where "nested k = c # r" "\<not> is_space c" "c \<noteq> 0" "c \<noteq> 0x5d" "c \<noteq> 0x2c"
  by (cases k) (auto simp: ascii_def is_space_def)

lemma variant_from_stream_depth_0: "variant_from_stream (Suc n) p t s 0 = Some (Inl Parse_error)"
  by (simp add: variant_from_stream.simps)

text \<open>One level of brackets around an element that either is read up to the closing bracket or throws.\<close>

lemma bracket_step:
  assumes d: "d \<noteq> 0" and e: "variant_from_stream n p t (nested k @ 0x5d # rest) (d - 2) = Some r"
    and r: "r = Inr (v, 0x5d # rest) \<or> r = Inl e'"
  shows "variant_from_stream (Suc n) p t (nested (Suc k) @ rest) d =
    Some (case r of Inl x \<Rightarrow> Inl x | Inr _ \<Rightarrow> Inr (Array [v], rest))"
proof -
  obtain c y where c: "nested k = c # y" "\<not> is_space c" "c \<noteq> 0" "c \<noteq> 0x5d" "c \<noteq> 0x2c" by (rule nested_head)
  have skip: "skip_white_space (c # z) = Inr (False, c # z)" "skip_white_space (0x5d # z) = Inr (False, 0x5d # z)" for z
    using skip_white [OF white_nil, of c z] skip_white [OF white_nil, of "0x5d" z] c by (simp_all add: is_space_def)
  have "d - 1 - 1 = d - 2" by simp
  then have "array_loop (Suc (Suc m)) (variant_from_stream n p t) [] (nested k @ 0x5d # rest) (d - 1) =
      Some (case r of Inl x \<Rightarrow> Inl x | Inr _ \<Rightarrow> Inr (Array [v], rest))" for m
    using e r c skip by (auto simp: array_loop.simps peek_def)
  from this [of "length (y @ rest) + 1"] c skip
  have "arrayFromStream (variant_from_stream n p t) (0x5b # nested k @ 0x5d # rest) (d - 1) =
      Some (case r of Inl x \<Rightarrow> Inl x | Inr _ \<Rightarrow> Inr (Array [v], rest))"
    by (simp add: arrayFromStream_def peek_def)
  then show ?thesis
    using variant_from_stream_step [OF white_nil _ _ d, of "0x5b" n p t "nested k @ 0x5d # rest"] by (simp add: is_space_def)
qed

lemma nested_read:
  assumes p: "decimal_casts p"
  shows "k < n \<Longrightarrow> delimited rest \<Longrightarrow> variant_from_stream n p t (nested k @ rest) d =
    Some (if even (unat d) \<and> unat d div 2 \<le> k then Inl Parse_error else Inr (nested_arrays k, rest))"
proof (induction k arbitrary: n d rest)
  case 0
  then obtain m where m: "n = Suc m" by (cases n) auto
  show ?case
  proof (cases "d = 0")
    case False
    then have "variant_from_stream n p t ([] @ nested 0 @ rest) d = Some (Inr (Null, rest))"
      unfolding m using 0(2) by (intro variant_from_stream_scalar [OF p, where f = legacy_generator]) simp_all
    moreover have "unat d \<noteq> 0" using False by (simp add: unat_eq_0)
    ultimately show ?thesis by (auto elim: evenE)
  qed (simp add: m variant_from_stream_depth_0)
next
  case (Suc k)
  then obtain m where m: "n = Suc m" "k < m" by (cases n) auto
  show ?case
  proof (cases "d = 0")
    case False
    let ?d = "d - 2"
    have "variant_from_stream m p t (nested k @ 0x5d # rest) ?d =
        Some (if even (unat ?d) \<and> unat ?d div 2 \<le> k then Inl Parse_error else Inr (nested_arrays k, 0x5d # rest))"
      using Suc.IH [of m "0x5d # rest" ?d] m(2) by (simp add: delimited_def)
    from bracket_step [OF False this] have "variant_from_stream n p t (nested (Suc k) @ rest) d =
        Some (if even (unat ?d) \<and> unat ?d div 2 \<le> k then Inl Parse_error else Inr (nested_arrays (Suc k), rest))"
      by (auto simp: m(1) split: if_splits)
    moreover have "(even (unat ?d) \<and> unat ?d div 2 \<le> k) = (even (unat d) \<and> unat d div 2 \<le> Suc k)"
    proof (cases "d = 1")
      case True
      have "unat (- 1 :: u32) = 4294967295" by (simp add: unsigned_minus_1_eq_mask mask_eq_exp_minus_1)
      with True show ?thesis by simp
    next
      case d1: False
      have "unat d \<noteq> 0" "unat d \<noteq> 1" using False d1 by (simp_all add: unat_eq_0 word_unat_eq_iff [of d 1])
      then have "unat ?d = unat d - 2" "2 \<le> unat d" by (simp_all add: unat_sub word_le_nat_alt)
      then show ?thesis by auto
    qed
    ultimately show ?thesis by simp
  qed (simp add: m(1) variant_from_stream_depth_0)
qed

subsection \<open>Property\<close>

lemma nested_grammar: "json_value legacy_generator (nested_arrays k) (nested k)"
proof (induction k)
  case (Suc k)
  then show ?case using array [OF items_last [of "[]" legacy_generator "nested_arrays k" "nested k" "[]"]] by simp
qed (simp add: scalar)

text \<open>
  The limit on nested arrays, exactly. With an even \<^verbatim>\<open>max_depth\<close> the legacy parsers read fewer than
  \<^verbatim>\<open>max_depth / 2\<close> nested arrays and throw a parse error from there on; with an odd one they read any
  number, since the limit passes from 1 over 0 to the largest number without a value being
  compared with zero. The other two parsers have no limit.
\<close>

lemma json_depth_limit:
  assumes "decimal_casts p"
  shows "json_from_string p t (nested k) max_depth =
    Some (if t \<in> {legacy_parser, legacy_parser_with_string_doubles} \<and> even (unat max_depth) \<and> unat max_depth div 2 \<le> k
          then Inl Parse_error else Inr (nested_arrays k))"
proof -
  have n: "k < Suc (length (nested k))" by (induction k) auto
  have "variant_from_stream (Suc (length (nested k))) p t (nested k) max_depth =
      Some (if even (unat max_depth) \<and> unat max_depth div 2 \<le> k then Inl Parse_error else Inr (nested_arrays k, []))"
    using nested_read [OF assms n, of "[]" t max_depth] by (simp add: delimited_def)
  moreover have
    "relaxed_variant_from_stream (Suc (length (nested k))) p strict (nested k) max_depth = Some (Inr (nested_arrays k, []))" for strict
    using relaxed_parse_grammar(1) [OF nested_grammar white_nil, of "[]" k "Suc (length (nested k))" p strict max_depth]
    by (auto simp: delimited_def eaten_def)
  ultimately show ?thesis by (cases t) (auto simp: json_from_string_def parse_stream_def)
qed

end
