(* ===== verification/Bloom_Filter.thy ===== *)
theory Bloom_Filter
  imports Fc_Prelude
begin

text \<open>
  The Bloom filter of \<^verbatim>\<open>fc/bloom_filter.hpp\<close>. The floating point operations of
  \<^verbatim>\<open>compute_optimal_parameters\<close> are parameters, as is the sequence of random numbers that salts beyond the
  predefined ones come from. A \<^verbatim>\<open>double\<close> is its bit pattern. An access outside
  of the table and a division by zero are undefined behaviour.
\<close>

subsection \<open>Parameters\<close>

definition bits_per_char :: nat where
  "bits_per_char = 8"

definition bit_mask :: "nat \<Rightarrow> byte" where
  "bit_mask b = [0x01, 0x02, 0x04, 0x08, 0x10, 0x20, 0x40, 0x80] ! b"

record bloom_parameters =
  minimum_size :: u64
  maximum_size :: u64
  minimum_number_of_hashes :: u32
  maximum_number_of_hashes :: u32
  bp_projected_element_count :: u64
  false_positive_probability :: u64
  bp_random_seed :: u64
  number_of_hashes :: u32
  optimal_table_size :: u64

text \<open>The floating point operations: \<open>curr_m\<close> takes the number of hashes, the element count and the probability.\<close>

record double_ops =
  less_than_zero :: "u64 \<Rightarrow> bool"
  is_infinite :: "u64 \<Rightarrow> bool"
  curr_m :: "nat \<Rightarrow> u64 \<Rightarrow> u64 \<Rightarrow> u64"
  double_less :: "u64 \<Rightarrow> u64 \<Rightarrow> bool"
  double_to_u64 :: "u64 \<Rightarrow> u64"
  reciprocal :: "u64 \<Rightarrow> u64"

definition default_parameters :: "double_ops \<Rightarrow> bloom_parameters" where
  "default_parameters D =
     \<lparr>minimum_size = 1, maximum_size = -1, minimum_number_of_hashes = 1, maximum_number_of_hashes = -1,
      bp_projected_element_count = 10000, false_positive_probability = reciprocal D 10000,
      bp_random_seed = 0xA5A5A5A55A5A5A5A, number_of_hashes = 0, optimal_table_size = 0\<rparr>"

definition invalid_parameters :: "double_ops \<Rightarrow> bloom_parameters \<Rightarrow> bool" where
  "invalid_parameters D p \<longleftrightarrow>
     minimum_size p > maximum_size p \<or>
     minimum_number_of_hashes p > maximum_number_of_hashes p \<or>
     minimum_number_of_hashes p < 1 \<or>
     0 = maximum_number_of_hashes p \<or>
     0 = bp_projected_element_count p \<or>
     less_than_zero D (false_positive_probability p) \<or>
     is_infinite D (false_positive_probability p) \<or>
     0 = bp_random_seed p \<or>
     0xFFFFFFFFFFFFFFFF = bp_random_seed p"

text \<open>The loop over \<open>k\<close> keeps the smallest table and its number of hashes.\<close>

definition optimal_step :: "double_ops \<Rightarrow> bloom_parameters \<Rightarrow> u64 \<times> nat \<Rightarrow> nat \<Rightarrow> u64 \<times> nat" where
  "optimal_step D p = (\<lambda>(min_m, min_k) k.
     let m = curr_m D k (bp_projected_element_count p) (false_positive_probability p)
     in if double_less D m min_m then (m, k) else (min_m, min_k))"

definition compute_optimal_parameters :: "double_ops \<Rightarrow> bloom_parameters \<Rightarrow> bool \<times> bloom_parameters" where
  "compute_optimal_parameters D p =
     (if invalid_parameters D p then (False, p)
      else
        let (min_m, min_k) = foldl (optimal_step D p) (0x7FF0000000000000, 0) [1..<1000];
            hashes = (of_nat min_k :: u32);
            size = double_to_u64 D min_m;
            size = size + (if size mod 8 \<noteq> 0 then 8 - size mod 8 else 0);
            hashes = (if hashes < minimum_number_of_hashes p then minimum_number_of_hashes p
                      else if hashes > maximum_number_of_hashes p then maximum_number_of_hashes p else hashes);
            size = (if size < minimum_size p then minimum_size p
                    else if size > maximum_size p then maximum_size p else size)
        in (True, p\<lparr>number_of_hashes := hashes, optimal_table_size := size\<rparr>))"

subsection \<open>The filter\<close>

record bloom_filter =
  salt :: "u32 list"
  bit_table :: bytes
  salt_count :: u32
  table_size :: u64
  raw_table_size :: u64
  projected_element_count :: u64
  inserted_element_count :: u32
  random_seed :: u64
  desired_fpp :: u64

definition predef_salt :: "u32 list" where
  "predef_salt = [
     0xaaaaaaaa, 0x55555555, 0x33333333, 0xcccccccc, 0x66666666, 0x99999999, 0xb5b5b5b5, 0x4b4b4b4b,
     0xaa55aa55, 0x55335533, 0x33cc33cc, 0xcc66cc66, 0x66996699, 0x99b599b5, 0xb54bb54b, 0x4baa4baa,
     0xaa33aa33, 0x55cc55cc, 0x33663366, 0xcc99cc99, 0x66b566b5, 0x994b994b, 0xb5aab5aa, 0xaaaaaa33,
     0x555555cc, 0x33333366, 0xcccccc99, 0x666666b5, 0x9999994b, 0xb5b5b5aa, 0xffffffff, 0xffff0000,
     0xb823d5eb, 0xc1191cdf, 0xf623aeb3, 0xdb58499f, 0xc8d42e70, 0xb173f616, 0xa91a5967, 0xda427d63,
     0xb1e8a2ea, 0xf6c0d155, 0x4909fea3, 0xa68cc6a7, 0xc395e782, 0xa26057eb, 0x0cd5da28, 0x467c5492,
     0xf15e6982, 0x61c6fad3, 0x9615e352, 0x6e9e355a, 0x689b563e, 0x0c9831a8, 0x6753c18b, 0xa622689b,
     0x8ca63c47, 0x42cc2884, 0x8e89919b, 0x6edbd7d3, 0x15b6796c, 0x1d6fdfe4, 0x63ff9092, 0xe7401432,
     0xeffe9412, 0xaeaedf79, 0x9f245a31, 0x83c136fc, 0xc3da4a8c, 0xa5112c8c, 0x5271f491, 0x9a948dab,
     0xcee59a8d, 0xb5f525ab, 0x59d13217, 0x24e7c331, 0x697c2103, 0x84b0a460, 0x86156da9, 0xaef2ac68,
     0x23243da5, 0x3f649643, 0x5fa495a8, 0x67710df8, 0x9a6c499e, 0xdcfb0227, 0x46a43433, 0x1832b07a,
     0xc46aff3c, 0xb9c8fff0, 0xc9500467, 0x34431bdf, 0xb652432b, 0xe367f12b, 0x427f4c1b, 0x224c006e,
     0x2e7e5a89, 0x96f99aa5, 0x0beb452a, 0x2fd87c39, 0x74b2e1fb, 0x222efd24, 0xf357f60c, 0x440fcb1e,
     0x8bbe030f, 0x6704dc29, 0x1144d12f, 0x948b1355, 0x6d8fd7e9, 0x1c11a014, 0xadd1592f, 0xfb3c712e,
     0xfc77642f, 0xf9c4ce8c, 0x31312fb9, 0x08b0dd79, 0x318fa6e7, 0xc040d23d, 0xc0589aa7, 0x0ca5c075,
     0xf874b172, 0x0cf914d5, 0x784d3280, 0x4e8cfebc, 0xc569f575, 0xcdb2a091, 0x2cc016b4, 0x5c5f4421]"

text \<open>The salts are changed in place, so an entry may be multiplied by one that is already changed.\<close>

fun mix_salt :: "nat \<Rightarrow> u32 \<Rightarrow> nat \<Rightarrow> u32 list \<Rightarrow> u32 list" where
  "mix_salt 0 seed i salts = salts"
| "mix_salt (Suc n) seed i salts =
     mix_salt n seed (i + 1) (salts[i := salts ! i * salts ! ((i + 3) mod length salts) + seed])"

text \<open>\<open>rnd\<close> is what \<^verbatim>\<open>rand()\<close> returns call by call after \<^verbatim>\<open>srand\<close>; the first argument bounds the iterations.\<close>

fun more_salt :: "nat \<Rightarrow> (nat \<Rightarrow> u32) \<Rightarrow> nat \<Rightarrow> nat \<Rightarrow> u32 list \<Rightarrow> u32 list option" where
  "more_salt fuel rnd i count salts =
     (if length salts < count then
        case fuel of
          0 \<Rightarrow> None
        | Suc fuel' \<Rightarrow>
            let current_salt = rnd i * rnd (i + 1)
            in more_salt fuel' rnd (i + 2) count
                 (if current_salt = 0 \<or> current_salt \<in> set salts then salts else salts @ [current_salt])
      else Some salts)"

declare more_salt.simps [simp del]

definition generate_unique_salt :: "nat \<Rightarrow> (u32 \<Rightarrow> nat \<Rightarrow> u32) \<Rightarrow> u32 \<Rightarrow> u64 \<Rightarrow> u32 list option" where
  "generate_unique_salt fuel rnd count seed =
     (if count \<le> 128 then
        Some (mix_salt (unat count) (ucast seed) 0 (take (unat count) predef_salt))
      else more_salt fuel (rnd (ucast seed)) 0 (unat count) predef_salt)"

definition bloom_new :: "nat \<Rightarrow> (u32 \<Rightarrow> nat \<Rightarrow> u32) \<Rightarrow> bloom_parameters \<Rightarrow> bloom_filter option" where
  "bloom_new fuel rnd p =
     (let seed = bp_random_seed p * 0xa5a5a5a5 + 1; raw = optimal_table_size p div 8
      in map_option (\<lambda>s.
           \<lparr>salt = s, bit_table = replicate (unat raw) 0, salt_count = number_of_hashes p,
            table_size = optimal_table_size p, raw_table_size = raw,
            projected_element_count = bp_projected_element_count p, inserted_element_count = 0,
            random_seed = seed, desired_fpp = false_positive_probability p\<rparr>)
         (generate_unique_salt fuel rnd (number_of_hashes p) seed))"

definition bloom_empty :: bloom_filter where
  "bloom_empty =
     \<lparr>salt = [], bit_table = [], salt_count = 0, table_size = 0, raw_table_size = 0, projected_element_count = 0,
      inserted_element_count = 0, random_seed = 0, desired_fpp = 0\<rparr>"

definition bloom_eq :: "(u64 \<Rightarrow> u64 \<Rightarrow> bool) \<Rightarrow> bool \<Rightarrow> bloom_filter \<Rightarrow> bloom_filter \<Rightarrow> bool" where
  "bloom_eq double_equal same a f =
     (same \<or>
      salt_count a = salt_count f \<and> table_size a = table_size f \<and> raw_table_size a = raw_table_size f \<and>
      projected_element_count a = projected_element_count f \<and> inserted_element_count a = inserted_element_count f \<and>
      random_seed a = random_seed f \<and> double_equal (desired_fpp a) (desired_fpp f) \<and> salt a = salt f \<and>
      take (unat (raw_table_size a)) (bit_table a) = take (unat (raw_table_size a)) (bit_table f))"

definition bloom_assign :: "bool \<Rightarrow> bloom_filter \<Rightarrow> bloom_filter \<Rightarrow> bloom_filter result" where
  "bloom_assign same a f =
     (if same then Inr a
      else if unat (raw_table_size f) \<le> length (bit_table f)
      then Inr (f\<lparr>bit_table := take (unat (raw_table_size f)) (bit_table f)\<rparr>)
      else Inl Undefined_behaviour)"

definition bloom_clear :: "bloom_filter \<Rightarrow> bloom_filter" where
  "bloom_clear bf =
     bf\<lparr>bit_table := replicate (unat (raw_table_size bf)) 0 @ drop (unat (raw_table_size bf)) (bit_table bf),
        inserted_element_count := 0\<rparr>"

subsection \<open>Hashing\<close>

text \<open>The 32-bit and 16-bit numbers in memory are little-endian.\<close>

definition load32 :: "bytes \<Rightarrow> u32" where
  "load32 bs = of_nat (of_le_bytes (take 4 bs))"

definition load16 :: "bytes \<Rightarrow> u32" where
  "load16 bs = of_nat (of_le_bytes (take 2 bs))"

definition hash_even :: "u32 \<Rightarrow> u32 \<Rightarrow> u32" where
  "hash_even hash i = hash XOR NOT (push_bit 11 hash + (i XOR drop_bit 5 hash))"

definition hash_odd :: "u32 \<Rightarrow> u32 \<Rightarrow> u32" where
  "hash_odd hash i = hash XOR (push_bit 7 hash XOR i * drop_bit 3 hash)"

definition hash_tail :: "bytes \<Rightarrow> u32 \<Rightarrow> u32" where
  "hash_tail key hash =
     (let (hash, loop, key) =
            (if length key \<ge> 4 then (hash_even hash (load32 key), 1, drop 4 key) else (hash, 0, key));
          (hash, loop, key) =
            (if length key \<ge> 2
             then (if loop = 1 then hash_odd hash (load16 key) else hash_even hash (load16 key), loop + 1, drop 2 key)
             else (hash, loop, key))
      in if key \<noteq> [] then hash + ((ucast (hd key) XOR hash * 0xa5a5a5a5) + loop) else hash)"

function hash_ap :: "bytes \<Rightarrow> u32 \<Rightarrow> u32" where
  "hash_ap key hash =
     (if length key \<ge> 8 then
        let i1 = load32 key; i2 = load32 (drop 4 key)
        in hash_ap (drop 8 key)
             (hash XOR (push_bit 7 hash XOR i1 * drop_bit 3 hash XOR NOT (push_bit 11 hash + (i2 XOR drop_bit 5 hash))))
      else if key \<noteq> [] then hash_tail key hash else hash)"
  by pat_completeness auto
termination
  by (relation "measure (\<lambda>(key, hash). length key)") auto

declare hash_ap.simps [simp del]

definition compute_indices :: "bloom_filter \<Rightarrow> u32 \<Rightarrow> (nat \<times> nat) result" where
  "compute_indices bf hash =
     (if table_size bf = 0 then Inl Undefined_behaviour
      else let bit_index = unat ((ucast hash :: u64) mod table_size bf) in Inr (bit_index, bit_index mod 8))"

subsection \<open>Membership\<close>

definition set_bit_for :: "bytes \<Rightarrow> bloom_filter \<Rightarrow> u32 \<Rightarrow> bytes \<Rightarrow> bytes result" where
  "set_bit_for key bf s table =
     and_then (compute_indices bf (hash_ap key s)) (\<lambda>(bit_index, bit).
       if bit_index div 8 < length table
       then Inr (table[bit_index div 8 := table ! (bit_index div 8) OR bit_mask bit])
       else Inl Undefined_behaviour)"

definition bloom_insert :: "bytes \<Rightarrow> bloom_filter \<Rightarrow> bloom_filter result" where
  "bloom_insert key bf =
     and_then (each_then (set_bit_for key bf) (salt bf) (bit_table bf)) (\<lambda>table.
       Inr (bf\<lparr>bit_table := table, inserted_element_count := inserted_element_count bf + 1\<rparr>))"

definition bloom_insert_all :: "bytes list \<Rightarrow> bloom_filter \<Rightarrow> bloom_filter result" where
  "bloom_insert_all keys bf = each_then bloom_insert keys bf"

fun contains_loop :: "bytes \<Rightarrow> bloom_filter \<Rightarrow> u32 list \<Rightarrow> bool result" where
  "contains_loop key bf [] = Inr True"
| "contains_loop key bf (s # salts) =
     and_then (compute_indices bf (hash_ap key s)) (\<lambda>(bit_index, bit).
       if bit_index div 8 < length (bit_table bf)
       then if bit_table bf ! (bit_index div 8) AND bit_mask bit \<noteq> bit_mask bit then Inr False
            else contains_loop key bf salts
       else Inl Undefined_behaviour)"

definition bloom_contains :: "bytes \<Rightarrow> bloom_filter \<Rightarrow> bool result" where
  "bloom_contains key bf = contains_loop key bf (salt bf)"

text \<open>The position of the first key that is missing, or that is present.\<close>

fun contains_all :: "bytes list \<Rightarrow> bloom_filter \<Rightarrow> nat result" where
  "contains_all [] bf = Inr 0"
| "contains_all (k # ks) bf =
     and_then (bloom_contains k bf) (\<lambda>c. if \<not> c then Inr 0 else and_then (contains_all ks bf) (\<lambda>n. Inr (n + 1)))"

fun contains_none :: "bytes list \<Rightarrow> bloom_filter \<Rightarrow> nat result" where
  "contains_none [] bf = Inr 0"
| "contains_none (k # ks) bf =
     and_then (bloom_contains k bf) (\<lambda>c. if c then Inr 0 else and_then (contains_none ks bf) (\<lambda>n. Inr (n + 1)))"

subsection \<open>Set operations\<close>

definition combine :: "(byte \<Rightarrow> byte \<Rightarrow> byte) \<Rightarrow> bloom_filter \<Rightarrow> bloom_filter \<Rightarrow> bloom_filter result" where
  "combine f a b =
     (if salt_count a = salt_count b \<and> table_size a = table_size b \<and> random_seed a = random_seed b then
        let n = unat (raw_table_size a)
        in if n \<le> length (bit_table a) \<and> n \<le> length (bit_table b)
           then Inr (a\<lparr>bit_table := map2 f (take n (bit_table a)) (take n (bit_table b)) @ drop n (bit_table a)\<rparr>)
           else Inl Undefined_behaviour
      else Inr a)"

definition bloom_intersection :: "bloom_filter \<Rightarrow> bloom_filter \<Rightarrow> bloom_filter result" where
  "bloom_intersection = combine (AND)"

definition bloom_union :: "bloom_filter \<Rightarrow> bloom_filter \<Rightarrow> bloom_filter result" where
  "bloom_union = combine (OR)"

definition bloom_difference :: "bloom_filter \<Rightarrow> bloom_filter \<Rightarrow> bloom_filter result" where
  "bloom_difference = combine (XOR)"

end
