(* ===== verification/Bloom_Correct.thy ===== *)
theory Bloom_Correct
  imports Bloom_Filter
begin

text \<open>
  A Bloom filter is a set of bit positions: inserting a key adds the positions of the key, and a key is
  contained when its positions are. From this follows what the filter promises, membership without false negatives.
\<close>

subsection \<open>The bits of a table\<close>

definition bits_of :: "bytes \<Rightarrow> nat set" where
  "bits_of t = {i. i div 8 < length t \<and> bit (t ! (i div 8)) (i mod 8)}"

lemma bit_mask_eq: "b < 8 \<Longrightarrow> bit_mask b = push_bit b 1"
proof -
  have "\<forall>b < 8. bit_mask b = push_bit b 1" by (simp add: bit_mask_def All_less_Suc numeral_eq_Suc)
  then show "b < 8 \<Longrightarrow> bit_mask b = push_bit b 1" by blast
qed

lemma bit_bit_mask: "b < 8 \<Longrightarrow> bit (bit_mask b) k \<longleftrightarrow> k = b"
  by (auto simp: bit_mask_eq bit_simps)

lemma and_bit_mask: "b < 8 \<Longrightarrow> x AND bit_mask b = bit_mask b \<longleftrightarrow> bit x b"
proof -
  assume b: "b < 8"
  have "x AND bit_mask b = bit_mask b \<longleftrightarrow> (\<forall>k. k < 8 \<longrightarrow> (bit x k \<and> k = b) = (k = b))"
    using bit_bit_mask [OF b] by (simp add: bit_eq_iff bit_and_iff)
  also have "\<dots> \<longleftrightarrow> bit x b" using b by auto
  finally show ?thesis .
qed

lemma bits_of_set:
  assumes i: "i div 8 < length t"
  shows "bits_of (t[i div 8 := t ! (i div 8) OR bit_mask (i mod 8)]) = insert i (bits_of t)" (is "?l = ?r")
proof (rule set_eqI)
  fix j
  show "j \<in> ?l \<longleftrightarrow> j \<in> ?r"
  proof (cases "j div 8 = i div 8")
    case True
    then have "j = i \<longleftrightarrow> j mod 8 = i mod 8" using div_mult_mod_eq [of j 8] div_mult_mod_eq [of i 8] by metis
    with True i show ?thesis by (simp add: bits_of_def bit_or_iff bit_bit_mask disj_commute)
  next
    case False
    then show ?thesis by (auto simp: bits_of_def)
  qed
qed

lemma unat_multiple_8: "8 dvd unat (x :: u64) \<longleftrightarrow> x mod 8 = 0"
  by (simp add: unat_mod word_unat_eq_iff mod_eq_0_iff_dvd)

subsection \<open>Filters that stay inside their table\<close>

definition bloom_ok :: "bloom_filter \<Rightarrow> bool" where
  "bloom_ok bf \<longleftrightarrow> table_size bf \<noteq> 0 \<and> table_size bf mod 8 = 0 \<and>
     raw_table_size bf = table_size bf div 8 \<and> length (bit_table bf) = unat (raw_table_size bf)"

definition index_of :: "bloom_filter \<Rightarrow> bytes \<Rightarrow> u32 \<Rightarrow> nat" where
  "index_of bf key s = unat (hash_ap key s) mod unat (table_size bf)"

definition positions :: "bloom_filter \<Rightarrow> bytes \<Rightarrow> nat set" where
  "positions bf key = index_of bf key ` set (salt bf)"

lemma compute_indices_eq:
  assumes "table_size bf \<noteq> 0"
  shows "compute_indices bf (hash_ap key s) = Inr (index_of bf key s, index_of bf key s mod 8)"
proof -
  have "unat (hash_ap key s) < 2 ^ 32" using unsigned_less [of "hash_ap key s"] by simp
  then have "unat (ucast (hash_ap key s) :: u64) = unat (hash_ap key s)"
    by (simp add: unat_ucast_mod)
  with assms show ?thesis by (simp add: compute_indices_def index_of_def unat_mod Let_def)
qed

lemma index_in_table:
  assumes "bloom_ok bf"
  shows "index_of bf key s div 8 < length (bit_table bf)"
proof -
  have p: "0 < unat (table_size bf)" using assms by (simp add: bloom_ok_def unat_gt_0)
  then have "index_of bf key s < unat (table_size bf)" by (simp add: index_of_def)
  moreover have "length (bit_table bf) = unat (table_size bf) div 8" using assms by (simp add: bloom_ok_def unat_div)
  moreover have "8 dvd unat (table_size bf)" using assms by (simp only: bloom_ok_def unat_multiple_8)
  ultimately show ?thesis by (elim dvdE) simp
qed

lemma set_bit_for_ok:
  assumes "bloom_ok bf" and "length t = length (bit_table bf)"
  shows "\<exists>t'. set_bit_for key bf s t = Inr t' \<and> length t' = length t \<and> bits_of t' = insert (index_of bf key s) (bits_of t)"
proof -
  have "table_size bf \<noteq> 0" using assms(1) by (simp add: bloom_ok_def)
  with index_in_table [OF assms(1), of key s] assms(2) show ?thesis
    by (simp add: set_bit_for_def compute_indices_eq bits_of_set)
qed

lemma set_bits_ok:
  assumes ok: "bloom_ok bf"
  shows "length t = length (bit_table bf) \<Longrightarrow> \<exists>t'. each_then (set_bit_for key bf) salts t = Inr t' \<and> length t' = length t \<and>
    bits_of t' = bits_of t \<union> index_of bf key ` set salts"
proof (induction salts arbitrary: t)
  case (Cons s salts)
  obtain t1 where t1: "set_bit_for key bf s t = Inr t1" "length t1 = length t"
    "bits_of t1 = insert (index_of bf key s) (bits_of t)" using set_bit_for_ok [OF ok Cons.prems] by blast
  from Cons.IH [of t1] t1 Cons.prems obtain t2 where "each_then (set_bit_for key bf) salts t1 = Inr t2" "length t2 = length t"
    "bits_of t2 = bits_of t1 \<union> index_of bf key ` set salts" by auto
  with t1 show ?case by auto
qed auto

text \<open>What insertion leaves alone.\<close>

definition same_shape :: "bloom_filter \<Rightarrow> bloom_filter \<Rightarrow> bool" where
  "same_shape a b \<longleftrightarrow> salt a = salt b \<and> salt_count a = salt_count b \<and> table_size a = table_size b \<and>
     raw_table_size a = raw_table_size b \<and> random_seed a = random_seed b \<and> length (bit_table a) = length (bit_table b)"

lemma same_shape_trans: "same_shape a b \<Longrightarrow> same_shape b c \<Longrightarrow> same_shape a c"
  by (simp add: same_shape_def)

lemma same_shape_ok: "same_shape a b \<Longrightarrow> bloom_ok b = bloom_ok a"
  by (auto simp: same_shape_def bloom_ok_def)

lemma same_shape_positions: "same_shape a b \<Longrightarrow> positions b = positions a"
  by (auto simp: same_shape_def positions_def index_of_def fun_eq_iff)

lemma bloom_insert_ok:
  assumes "bloom_ok bf"
  shows "\<exists>bf'. bloom_insert key bf = Inr bf' \<and> same_shape bf bf' \<and>
    bits_of (bit_table bf') = bits_of (bit_table bf) \<union> positions bf key"
  using set_bits_ok [OF assms, of "bit_table bf" key "salt bf"]
  by (auto simp: bloom_insert_def same_shape_def positions_def)

lemma bloom_contains_iff:
  assumes ok: "bloom_ok bf"
  shows "bloom_contains key bf = Inr (positions bf key \<subseteq> bits_of (bit_table bf))"
proof -
  have z: "table_size bf \<noteq> 0" using ok by (simp add: bloom_ok_def)
  have "contains_loop key bf salts = Inr (index_of bf key ` set salts \<subseteq> bits_of (bit_table bf))" for salts
    by (induction salts)
      (use index_in_table [OF ok, of key] in \<open>auto simp: compute_indices_eq [OF z] and_bit_mask bits_of_def\<close>)
  then show ?thesis by (simp add: bloom_contains_def positions_def)
qed

lemma bloom_insert_all_ok:
  "bloom_ok bf \<Longrightarrow> \<exists>bf'. bloom_insert_all keys bf = Inr bf' \<and> same_shape bf bf' \<and>
     bits_of (bit_table bf') = bits_of (bit_table bf) \<union> (\<Union>k \<in> set keys. positions bf k)"
proof (induction keys arbitrary: bf)
  case Nil
  then show ?case by (simp add: bloom_insert_all_def same_shape_def)
next
  case (Cons k keys)
  obtain b1 where b1: "bloom_insert k bf = Inr b1" "same_shape bf b1"
    "bits_of (bit_table b1) = bits_of (bit_table bf) \<union> positions bf k" using bloom_insert_ok [OF Cons.prems] by blast
  moreover from Cons.IH [of b1] Cons.prems b1(2) obtain b2 where "bloom_insert_all keys b1 = Inr b2" "same_shape b1 b2"
    "bits_of (bit_table b2) = bits_of (bit_table b1) \<union> (\<Union>k \<in> set keys. positions b1 k)" by (auto simp: same_shape_ok)
  ultimately show ?case
    using same_shape_trans [of bf b1 b2] same_shape_positions [OF b1(2)]
    by (auto simp: bloom_insert_all_def)
qed

subsection \<open>Set operations\<close>

lemma combine_ok:
  assumes "bloom_ok a" and "same_shape a b"
  shows "combine f a b = Inr (a\<lparr>bit_table := map2 f (bit_table a) (bit_table b)\<rparr>)"
  using assms by (auto simp: combine_def bloom_ok_def same_shape_def)

lemma combine_shape: "bloom_ok a \<Longrightarrow> same_shape a b \<Longrightarrow> same_shape a (a\<lparr>bit_table := map2 f (bit_table a) (bit_table b)\<rparr>)"
  by (simp add: same_shape_def)

lemma bits_of_map2:
  assumes "length t = length u" and "\<And>x y k. k < 8 \<Longrightarrow> bit (f x y) k = g (bit x k) (bit y k)" and "\<not> g False False"
  shows "bits_of (map2 f t u) = {i. g (i \<in> bits_of t) (i \<in> bits_of u)}"
proof (rule set_eqI)
  fix i :: nat
  have "i mod 8 < 8" by simp
  then show "i \<in> bits_of (map2 f t u) \<longleftrightarrow> i \<in> {i. g (i \<in> bits_of t) (i \<in> bits_of u)}"
    using assms by (cases "i div 8 < length u") (simp_all add: bits_of_def)
qed

lemma bloom_union_bits:
  assumes "bloom_ok a" and "same_shape a b"
  shows "\<exists>u. bloom_union a b = Inr u \<and> same_shape a u \<and>
    bits_of (bit_table u) = bits_of (bit_table a) \<union> bits_of (bit_table b)"
  using assms bits_of_map2 [of "bit_table a" "bit_table b" "(OR)" "(\<or>)"]
  by (auto simp: bloom_union_def combine_ok combine_shape bit_or_iff same_shape_def)

lemma bloom_intersection_bits:
  assumes "bloom_ok a" and "same_shape a b"
  shows "\<exists>u. bloom_intersection a b = Inr u \<and> same_shape a u \<and>
    bits_of (bit_table u) = bits_of (bit_table a) \<inter> bits_of (bit_table b)"
  using assms bits_of_map2 [of "bit_table a" "bit_table b" "(AND)" "(\<and>)"]
  by (auto simp: bloom_intersection_def combine_ok combine_shape bit_and_iff same_shape_def)

lemma contains_all_iff:
  "bloom_ok bf \<Longrightarrow> (\<And>k. k \<in> set keys \<Longrightarrow> positions bf k \<subseteq> bits_of (bit_table bf)) \<Longrightarrow>
   contains_all keys bf = Inr (length keys)"
  by (induction keys) (simp_all add: bloom_contains_iff)

subsection \<open>Construction\<close>

lemma mix_salt_length [simp]: "length (mix_salt n seed i salts) = length salts"
  by (induction n arbitrary: i salts) simp_all

lemma more_salt_length:
  "more_salt fuel rnd i count salts = Some s \<Longrightarrow> length salts \<le> count \<Longrightarrow> length s = count"
proof (induction fuel arbitrary: i salts)
  case (Suc fuel)
  show ?case
  proof (cases "length salts < count")
    case True
    let ?x = "rnd i * rnd (i + 1)"
    let ?salts = "if ?x = 0 \<or> ?x \<in> set salts then salts else salts @ [?x]"
    have "more_salt fuel rnd (i + 2) count ?salts = Some s"
      using Suc.prems(1) True by (simp add: more_salt.simps [of "Suc fuel"] Let_def cong: if_cong)
    moreover have "length ?salts \<le> count" using True by simp
    ultimately show ?thesis by (rule Suc.IH)
  qed (use Suc.prems in \<open>simp add: more_salt.simps\<close>)
qed (simp add: more_salt.simps split: if_splits)

lemma predef_salt_length: "length predef_salt = 128"
  by (simp add: predef_salt_def)

lemma generate_unique_salt_length:
  "generate_unique_salt fuel rnd count seed = Some s \<Longrightarrow> length s = unat count"
  using more_salt_length [of fuel "rnd (ucast seed)" 0 "unat count" predef_salt s]
  by (auto simp: generate_unique_salt_def predef_salt_length word_le_nat_alt split: if_splits)

lemma bits_of_zero: "bits_of (replicate n 0) = {}"
  by (simp add: bits_of_def)

lemma padded_size: "(x + (if x mod 8 \<noteq> 0 then 8 - x mod 8 else 0)) mod 8 = (0 :: u64)"
proof (cases "x mod 8 = 0")
  case False
  have "8 dvd unat (x div 8 * 8 + 8)" by (simp add: unat_word_ariths dvd_mod_iff)
  then have "(x div 8 * 8 + 8) mod 8 = 0" by (simp only: unat_multiple_8)
  moreover have "x + (8 - x mod 8) = x div 8 * 8 + 8"
  proof -
    have "a + b = x \<Longrightarrow> x + (8 - b) = a + 8" for a b :: u64 by auto
    then show ?thesis using div_mult_mod_eq [of x 8] by this
  qed
  ultimately show ?thesis using False by (simp only: not_False_eq_True if_True)
qed simp

lemma clamped:
  fixes lo hi x :: "'a :: linorder"
  assumes "lo \<le> hi"
  shows "P lo \<Longrightarrow> P x \<Longrightarrow> \<not> hi < x \<or> P hi \<Longrightarrow>
    y = (if x < lo then lo else if hi < x then hi else x) \<Longrightarrow> lo \<le> y \<and> y \<le> hi \<and> P y"
  using assms by (auto simp: not_less)

text \<open>The size that \<^verbatim>\<open>compute_optimal_parameters\<close> chooses, when the limits are whole cells.\<close>

lemma optimal_size:
  assumes "compute_optimal_parameters D p = (True, q)" and "0 < minimum_size p" and "minimum_size p mod 8 = 0"
    and "maximum_size p mod 8 = 0 \<or> maximum_size p = -1"
  shows "optimal_table_size q \<noteq> 0 \<and> optimal_table_size q mod 8 = 0 \<and>
    minimum_size p \<le> optimal_table_size q \<and> optimal_table_size q \<le> maximum_size p \<and>
    minimum_number_of_hashes p \<le> number_of_hashes q \<and> number_of_hashes q \<le> maximum_number_of_hashes p"
proof -
  define m where "m = double_to_u64 D (fst (foldl (optimal_step D p) (0x7FF0000000000000, 0) [1..<1000]))"
  define n where "n = m + (if m mod 8 \<noteq> 0 then 8 - m mod 8 else 0)"
  define k :: u32 where "k = of_nat (snd (foldl (optimal_step D p) (0x7FF0000000000000, 0) [1..<1000]))"
  have n: "n mod 8 = 0" unfolding n_def by (rule padded_size)
  have lims: "minimum_size p \<le> maximum_size p" "minimum_number_of_hashes p \<le> maximum_number_of_hashes p"
    using assms(1) by (simp_all add: compute_optimal_parameters_def invalid_parameters_def not_less split: if_splits)
  have size: "optimal_table_size q = (if n < minimum_size p then minimum_size p else if maximum_size p < n then maximum_size p else n)"
    and hashes: "number_of_hashes q = (if k < minimum_number_of_hashes p then minimum_number_of_hashes p
       else if maximum_number_of_hashes p < k then maximum_number_of_hashes p else k)"
    using assms(1)
    by (auto simp: compute_optimal_parameters_def Let_def case_prod_beta n_def m_def k_def simp del: upt_Suc cong: if_cong split: if_splits)
  have "\<not> maximum_size p < n \<or> maximum_size p mod 8 = 0"
    using assms(4) word_order.extremum [of n] by (auto simp: not_less)
  from clamped [where P = "\<lambda>x. x mod 8 = 0", OF lims(1) assms(3) n this size]
  have s: "minimum_size p \<le> optimal_table_size q" "optimal_table_size q \<le> maximum_size p" "optimal_table_size q mod 8 = 0"
    by simp_all
  have "optimal_table_size q \<noteq> 0" using s(1) assms(2) by auto
  with s clamped [where P = "\<lambda>x. True", OF lims(2) _ _ _ hashes] show ?thesis by simp
qed

lemma bloom_new_shape:
  assumes "bloom_new fuel rnd p = Some bf"
  shows "bloom_ok bf \<longleftrightarrow> optimal_table_size p \<noteq> 0 \<and> optimal_table_size p mod 8 = 0"
    and "bits_of (bit_table bf) = {}" and "length (salt bf) = unat (number_of_hashes p)"
proof -
  obtain z where z: "generate_unique_salt fuel rnd (number_of_hashes p) (bp_random_seed p * 0xa5a5a5a5 + 1) = Some z"
    and bf: "table_size bf = optimal_table_size p" "raw_table_size bf = optimal_table_size p div 8" "salt bf = z"
      "bit_table bf = replicate (unat (optimal_table_size p div 8)) 0"
    using assms by (auto simp: bloom_new_def Let_def)
  show "bloom_ok bf \<longleftrightarrow> optimal_table_size p \<noteq> 0 \<and> optimal_table_size p mod 8 = 0" by (simp add: bloom_ok_def bf)
  show "bits_of (bit_table bf) = {}" by (simp add: bf bits_of_zero)
  show "length (salt bf) = unat (number_of_hashes p)" using generate_unique_salt_length [OF z] by (simp add: bf)
qed

lemma bloom_new_returns: "number_of_hashes p \<le> 128 \<Longrightarrow> \<exists>bf. bloom_new fuel rnd p = Some bf"
  by (simp add: bloom_new_def generate_unique_salt_def Let_def)

subsection \<open>What the filter promises\<close>

text \<open>
  C36. No false negatives: on a filter whose table covers all its indices, inserting any sequence of keys succeeds, never
  leaves the table, keeps the shape of the filter, makes every inserted key contained (\<^verbatim>\<open>contains_all\<close> returns the end of
  the range) and loses no key that was contained before.
\<close>

theorem bloom_no_false_negatives:
  assumes "bloom_ok bf"
  shows "\<exists>bf'. bloom_insert_all keys bf = Inr bf' \<and> bloom_ok bf' \<and> contains_all keys bf' = Inr (length keys) \<and>
    (\<forall>k. bloom_contains k bf = Inr True \<longrightarrow> bloom_contains k bf' = Inr True)"
proof -
  obtain bf' where b: "bloom_insert_all keys bf = Inr bf'" "same_shape bf bf'"
    "bits_of (bit_table bf') = bits_of (bit_table bf) \<union> (\<Union>k \<in> set keys. positions bf k)"
    using bloom_insert_all_ok [OF assms] by blast
  moreover have "bloom_ok bf'" using b(2) assms by (simp add: same_shape_ok)
  moreover from this have "contains_all keys bf' = Inr (length keys)"
    using b(3) same_shape_positions [OF b(2)] by (intro contains_all_iff) auto
  ultimately show ?thesis
    using assms same_shape_positions [OF b(2)] by (auto simp: bloom_contains_iff)
qed

theorem bloom_no_false_negatives_witness:
  "let bf = bloom_empty\<lparr>salt := [0xaaaaaaaa, 0x55555555], bit_table := replicate 4 0, table_size := 32, raw_table_size := 4\<rparr>
   in \<exists>bf'. bloom_insert_all [[1, 2, 3], [4]] bf = Inr bf' \<and> bloom_ok bf' \<and> contains_all [[1, 2, 3], [4]] bf' = Inr 2"
proof -
  let ?bf = "bloom_empty\<lparr>salt := [0xaaaaaaaa, 0x55555555], bit_table := replicate 4 0, table_size := 32, raw_table_size := 4\<rparr>"
  have "bloom_ok ?bf" by code_simp
  from bloom_no_false_negatives [OF this, of "[[1, 2, 3], [4]]"] show ?thesis by (auto simp: Let_def)
qed

text \<open>
  The set operations: on two filters of one shape the intersection contains exactly the keys that both filters contain,
  and the union every key that one of them contains. Neither leaves the tables.
\<close>

lemma bloom_set_operations:
  assumes "bloom_ok a" and "same_shape a b"
  shows "\<exists>i u. bloom_intersection a b = Inr i \<and> bloom_union a b = Inr u \<and> bloom_ok i \<and> bloom_ok u \<and>
    (\<forall>k. (bloom_contains k i = Inr True) = (bloom_contains k a = Inr True \<and> bloom_contains k b = Inr True)) \<and>
    (\<forall>k. bloom_contains k a = Inr True \<or> bloom_contains k b = Inr True \<longrightarrow> bloom_contains k u = Inr True)"
proof -
  obtain i where i: "bloom_intersection a b = Inr i" "same_shape a i"
    "bits_of (bit_table i) = bits_of (bit_table a) \<inter> bits_of (bit_table b)" using bloom_intersection_bits [OF assms] by blast
  obtain u where u: "bloom_union a b = Inr u" "same_shape a u"
    "bits_of (bit_table u) = bits_of (bit_table a) \<union> bits_of (bit_table b)" using bloom_union_bits [OF assms] by blast
  have "bloom_ok b" "bloom_ok i" "bloom_ok u" using assms i(2) u(2) by (simp_all add: same_shape_ok)
  then show ?thesis
    using assms(1) i u same_shape_positions [OF assms(2)] same_shape_positions [OF i(2)] same_shape_positions [OF u(2)]
    by (auto simp: bloom_contains_iff)
qed

text \<open>
  Construction: when the size limits of valid parameters are whole cells (the minimum positive), the parameters that
  \<^verbatim>\<open>compute_optimal_parameters\<close> computes respect all limits and the filter constructed from them is empty, has a salt per
  hash function and keeps its indices inside of its table. Up to 128 hash functions the constructor returns without
  drawing random numbers.
\<close>

lemma bloom_construction:
  assumes "compute_optimal_parameters D p = (True, q)" and "0 < minimum_size p" and "minimum_size p mod 8 = 0"
    and "maximum_size p mod 8 = 0 \<or> maximum_size p = -1"
  shows "minimum_size p \<le> optimal_table_size q \<and> optimal_table_size q \<le> maximum_size p \<and>
    minimum_number_of_hashes p \<le> number_of_hashes q \<and> number_of_hashes q \<le> maximum_number_of_hashes p \<and>
    (number_of_hashes q \<le> 128 \<longrightarrow> (\<exists>bf. bloom_new fuel rnd q = Some bf)) \<and>
    (\<forall>bf. bloom_new fuel rnd q = Some bf \<longrightarrow>
      bloom_ok bf \<and> set (bit_table bf) \<subseteq> {0} \<and> length (salt bf) = unat (number_of_hashes q))"
proof -
  have "bloom_new fuel rnd q = Some bf \<Longrightarrow>
      bloom_ok bf \<and> set (bit_table bf) \<subseteq> {0} \<and> length (salt bf) = unat (number_of_hashes q)" for bf
    using bloom_new_shape [of fuel rnd q bf] optimal_size [OF assms]
    by (auto simp: bloom_new_def Let_def)
  with optimal_size [OF assms] bloom_new_returns [of q fuel rnd] show ?thesis by blast
qed

text \<open>
  A table that is not a whole number of cells, as a maximum size of 100 bits makes it, is too short: a hash that falls
  in the last, partial cell is an access outside of the table.
\<close>

lemma bloom_partial_cell:
  assumes "bloom_new fuel rnd p = Some bf" and "optimal_table_size p \<noteq> 0"
    and "s = hd (salt bf)" and "salt bf \<noteq> []"
    and "unat (optimal_table_size p) div 8 * 8 \<le> unat (hash_ap key s) mod unat (optimal_table_size p)"
  shows "bloom_insert key bf = Inl Undefined_behaviour" and "bloom_contains key bf = Inl Undefined_behaviour"
proof -
  obtain salts where salt: "salt bf = s # salts" using assms(3,4) by (cases "salt bf") simp_all
  have t: "table_size bf = optimal_table_size p" "length (bit_table bf) = unat (optimal_table_size p) div 8"
    using assms(1) by (auto simp: bloom_new_def Let_def unat_div)
  then have "\<not> index_of bf key s div 8 < length (bit_table bf)" using assms(5) by (simp add: index_of_def)
  with t assms(2) show "bloom_insert key bf = Inl Undefined_behaviour" "bloom_contains key bf = Inl Undefined_behaviour"
    by (simp_all add: bloom_insert_def bloom_contains_def salt set_bit_for_def compute_indices_eq)
qed

end
