(* ===== verification/Blowfish_Correct.thy ===== *)
theory Blowfish_Correct
  imports Blowfish
begin

text \<open>
  Correctness of the cipher: the unrolled rounds are the textbook Feistel network, decryption is its inverse, and in each
  mode decrypting a buffer undoes encrypting it.
\<close>

subsection \<open>The block cipher\<close>

definition swap :: "'a \<times> 'b \<Rightarrow> 'b \<times> 'a" where
  "swap = (\<lambda>(a, b). (b, a))"

lemma xor_left_self: "x XOR (x XOR y) = (y :: 'a :: len word)"
  by (simp flip: xor.assoc)

lemma two_rounds_undo: "two_rounds bf j i (swap (two_rounds bf i j s)) = swap s"
  by (cases s) (simp add: two_rounds_def swap_def Let_def ac_simps xor_left_self)

lemma swap_swap [simp]: "swap (swap s) = s"
  by (cases s) (simp add: swap_def)

text \<open>What the two ciphers do before the first and after the last line of rounds.\<close>

definition whiten :: "u32 \<Rightarrow> sblock \<Rightarrow> u32 \<times> u32" where
  "whiten k b = (m_uil b XOR k, m_uir b)"

definition unwhiten :: "u32 \<Rightarrow> u32 \<times> u32 \<Rightarrow> sblock" where
  "unwhiten k s = \<lparr>m_uil = snd s XOR k, m_uir = fst s\<rparr>"

lemma whiten_unwhiten: "whiten k (unwhiten k s) = swap s" "unwhiten k (swap (whiten k b)) = b"
  by (simp_all add: whiten_def unwhiten_def swap_def case_prod_beta xor.assoc)

lemma encrypt_block_rounds:
  "encrypt_block bf b = unwhiten (m_auiP bf ! 17) (two_rounds bf 15 16 (two_rounds bf 13 14 (two_rounds bf 11 12
     (two_rounds bf 9 10 (two_rounds bf 7 8 (two_rounds bf 5 6 (two_rounds bf 3 4 (two_rounds bf 1 2
       (whiten (m_auiP bf ! 0) b)))))))))"
  by (simp add: encrypt_block_def whiten_def unwhiten_def case_prod_beta Let_def)

lemma decrypt_block_rounds:
  "decrypt_block bf b = unwhiten (m_auiP bf ! 0) (two_rounds bf 2 1 (two_rounds bf 4 3 (two_rounds bf 6 5
     (two_rounds bf 8 7 (two_rounds bf 10 9 (two_rounds bf 12 11 (two_rounds bf 14 13 (two_rounds bf 16 15
       (whiten (m_auiP bf ! 17) b)))))))))"
  by (simp add: decrypt_block_def whiten_def unwhiten_def case_prod_beta Let_def)

lemma decrypt_encrypt_block: "decrypt_block bf (encrypt_block bf b) = b"
  by (simp add: encrypt_block_rounds decrypt_block_rounds whiten_unwhiten two_rounds_undo)

lemma encrypt_decrypt_block: "encrypt_block bf (decrypt_block bf b) = b"
  by (simp add: encrypt_block_rounds decrypt_block_rounds whiten_unwhiten two_rounds_undo)

text \<open>The textbook: sixteen times add a subkey, apply the round function and swap; then undo the last swap and whiten.\<close>

fun feistel :: "(u32 \<Rightarrow> u32) \<Rightarrow> u32 list \<Rightarrow> u32 \<times> u32 \<Rightarrow> u32 \<times> u32" where
  "feistel f [] s = s"
| "feistel f (k # ks) (xL, xR) = feistel f ks (xR XOR f (xL XOR k), xL XOR k)"

definition textbook_encrypt :: "(u32 \<Rightarrow> u32) \<Rightarrow> u32 list \<Rightarrow> u32 \<times> u32 \<Rightarrow> u32 \<times> u32" where
  "textbook_encrypt f P s = (case swap (feistel f (take 16 P) s) of (xL, xR) \<Rightarrow> (xL XOR P ! 17, xR XOR P ! 16))"

lemma feistel_append: "feistel f (ks @ ls) s = feistel f ls (feistel f ks s)"
  by (induction f ks s rule: feistel.induct) simp_all

lemma two_rounds_feistel:
  "two_rounds bf i j (fst s XOR m_auiP bf ! h, snd s) =
     (let s' = feistel (F bf) [m_auiP bf ! h, m_auiP bf ! i] s in (fst s' XOR m_auiP bf ! j, snd s'))"
  by (cases s) (simp add: two_rounds_def Let_def xor.assoc)

lemma take_16:
  assumes "length P = 18"
  shows "take 16 P = [P!0, P!1] @ [P!2, P!3] @ [P!4, P!5] @ [P!6, P!7] @ [P!8, P!9] @ [P!10, P!11] @ [P!12, P!13] @ [P!14, P!15]"
  using assms by (intro nth_equalityI) (auto simp: nth_append nth_Cons' less_Suc_eq numeral_eq_Suc)

lemma encrypt_block_textbook:
  assumes "length (m_auiP bf) = 18"
  shows "encrypt_block bf b =
    (case textbook_encrypt (F bf) (m_auiP bf) (m_uil b, m_uir b) of (xL, xR) \<Rightarrow> \<lparr>m_uil = xL, m_uir = xR\<rparr>)"
  unfolding encrypt_block_rounds textbook_encrypt_def take_16 [OF assms] feistel_append whiten_def
  using two_rounds_feistel [of bf 1 2 "(m_uil b, m_uir b)" 0] 
  by (simp del: feistel.simps add: two_rounds_feistel Let_def unwhiten_def swap_def case_prod_beta)

subsection \<open>Buffers\<close>

text \<open>Four bytes and a word, most significant byte first.\<close>

definition be_word :: "byte \<Rightarrow> byte \<Rightarrow> byte \<Rightarrow> byte \<Rightarrow> u32" where
  "be_word a b c d = push_bit 24 (ucast a) OR push_bit 16 (ucast b) OR push_bit 8 (ucast c) OR ucast d"

lemma be_word_bytes:
  "ucast (drop_bit 24 (be_word a b c d)) = a" "ucast (drop_bit 16 (be_word a b c d)) = b"
  "ucast (drop_bit 8 (be_word a b c d)) = c" "ucast (be_word a b c d) = d"
  by (rule bit_word_eqI; auto simp: be_word_def bit_simps dest: bit_imp_le_length)+

lemma bytes_be_word: "be_word (ucast (drop_bit 24 w)) (ucast (drop_bit 16 w)) (ucast (drop_bit 8 w)) (ucast w) = w"
proof (rule bit_word_eqI)
  fix n
  assume "n < LENGTH(32)"
  then consider "n < 8" | "8 \<le> n" "n < 16" | "16 \<le> n" "n < 24" | "24 \<le> n" "n < 32" by fastforce
  then show "bit (be_word (ucast (drop_bit 24 w)) (ucast (drop_bit 16 w)) (ucast (drop_bit 8 w)) (ucast w)) n = bit w n"
    by cases (auto simp: be_word_def bit_simps)
qed

lemma BytesToBlock_be:
  "BytesToBlock p = \<lparr>m_uil = be_word (p!0) (p!1) (p!2) (p!3), m_uir = be_word (p!4) (p!5) (p!6) (p!7)\<rparr>"
  by (simp add: BytesToBlock_def be_word_def)

lemma Block_Bytes: "BytesToBlock (BlockToBytes b) = b"
  by (simp add: BytesToBlock_be BlockToBytes_def bytes_be_word)

lemma Bytes_Block: "length p = 8 \<Longrightarrow> BlockToBytes (BytesToBlock p) = p"
proof -
  assume "length p = 8"
  then have "p = [p!0, p!1, p!2, p!3, p!4, p!5, p!6, p!7]"
    by (intro nth_equalityI) (auto simp: less_Suc_eq numeral_eq_Suc)
  moreover have "BlockToBytes (BytesToBlock p) = [p!0, p!1, p!2, p!3, p!4, p!5, p!6, p!7]"
    by (simp add: BytesToBlock_be BlockToBytes_def be_word_bytes)
  ultimately show ?thesis by simp
qed

lemma BlockToBytes_length [simp]: "length (BlockToBytes b) = 8"
  by (simp add: BlockToBytes_def)

lemma over_blocks_nil [simp]: "over_blocks f chain [] = []"
  by (simp add: over_blocks.simps)

lemma over_blocks_block:
  "over_blocks f chain (BlockToBytes w @ buf) = (let (w', c) = f chain w in BlockToBytes w' @ over_blocks f c buf)"
  by (simp add: over_blocks.simps [of f chain "BlockToBytes w @ buf"] Block_Bytes)

text \<open>Every buffer of whole blocks is a sequence of blocks.\<close>

lemma block_induct [consumes 1, case_names Nil Block]:
  assumes "length buf mod 8 = 0" and "P []" and "\<And>w buf. length buf mod 8 = 0 \<Longrightarrow> P buf \<Longrightarrow> P (BlockToBytes w @ buf)"
  shows "P buf"
  using assms(1)
proof (induction buf rule: length_induct)
  case (1 buf)
  show ?case
  proof (cases "buf = []")
    case False
    with 1(2) have "8 \<le> length buf" by (cases "length buf < 8") simp_all
    then have "buf = BlockToBytes (BytesToBlock (take 8 buf)) @ drop 8 buf" by (simp add: Bytes_Block)
    moreover have "P (drop 8 buf)" "length (drop 8 buf) mod 8 = 0"
      using 1 \<open>8 \<le> length buf\<close> by (auto simp: mod_if [of "length buf"])
    ultimately show ?thesis using assms(3) by metis
  qed (simp add: assms(2))
qed

text \<open>
  What a mode of operation promises: from the same chain, the decrypting step turns the block of the encrypting step back
  and goes on with the same chain.
\<close>

locale cipher_mode =
  fixes enc dec :: "sblock \<Rightarrow> sblock \<Rightarrow> sblock \<times> sblock"
  assumes step_undo: "enc chain w = (w', c) \<Longrightarrow> dec chain w' = (w, c)"
begin

lemma over_blocks_undo: "length buf mod 8 = 0 \<Longrightarrow> over_blocks dec chain (over_blocks enc chain buf) = buf"
proof (induction buf arbitrary: chain rule: block_induct)
  case (Block w buf)
  obtain w' c where e: "enc chain w = (w', c)" by fastforce
  with Block.IH step_undo [OF e] show ?case by (simp add: over_blocks_block)
qed simp

end

lemma over_blocks_length: "length buf mod 8 = 0 \<Longrightarrow> length (over_blocks f chain buf) = length buf"
  by (induction buf arbitrary: chain rule: block_induct) (simp_all add: over_blocks_block case_prod_beta)

lemma sblock_xor_undo: "sblock_xor (sblock_xor a b) b = a"
  by (simp add: sblock_xor_def xor.assoc)

interpretation blowfish_mode: cipher_mode "encrypt_step bf iMode" "decrypt_step bf iMode" for bf iMode
  by unfold_locales
    (auto simp: encrypt_step_def decrypt_step_def sblock_xor_undo decrypt_encrypt_block Let_def split: blowfish_mode.splits)

subsection \<open>The key schedule\<close>

definition boxes_ok :: "blowfish \<Rightarrow> bool" where
  "boxes_ok bf \<longleftrightarrow> length (m_auiP bf) = 18 \<and> map length (m_auiS bf) = [256, 256, 256, 256]"

lemma Byte_bound: "Byte ui < 256"
  by (simp add: Byte_def unat_and_0xff)

lemma load_key_length [simp]: "length (load_key n key i p iCount P) = length P"
  by (induction n arbitrary: i p iCount P) (simp_all add: case_prod_beta Let_def)

lemma reflect_P_ok:
  "boxes_ok (snd s) \<Longrightarrow> boxes_ok (snd (reflect_P n i s)) \<and> m_oChain (snd (reflect_P n i s)) = m_oChain (snd s) \<and>
     m_oChain0 (snd (reflect_P n i s)) = m_oChain0 (snd s)"
  by (induction n i s rule: reflect_P.induct) (simp_all add: boxes_ok_def Let_def)

lemma reflect_S_ok:
  "boxes_ok (snd s) \<Longrightarrow> boxes_ok (snd (reflect_S n j k s)) \<and> m_oChain (snd (reflect_S n j k s)) = m_oChain (snd s) \<and>
     m_oChain0 (snd (reflect_S n j k s)) = m_oChain0 (snd s)"
proof (induction n j k s rule: reflect_S.induct)
  case (2 n j k block bf)
  let ?b = "encrypt_block bf block"
  let ?bf = "bf\<lparr>m_auiS := (m_auiS bf)[j := (m_auiS bf ! j)[k := m_uil ?b, k + 1 := m_uir ?b]]\<rparr>"
  have "map length (m_auiS ?bf) = map length (m_auiS bf)"
    by (cases "j < length (m_auiS bf)") (simp_all add: map_update list_update_same_conv list_update_beyond)
  then have "boxes_ok ?bf" using "2.prems" by (simp add: boxes_ok_def)
  with "2.IH" [OF refl refl] show ?case by (simp add: Let_def)
qed simp

lemma init_boxes: "length scm_auiInitP = 18" "map length scm_auiInitS = [256, 256, 256, 256]"
  by (simp_all add: scm_auiInitP_def scm_auiInitS_def scm_auiInitS0_def scm_auiInitS1_def scm_auiInitS2_def scm_auiInitS3_def)

lemma start_ok:
  assumes "1 \<le> keysize" and "min 56 (unat keysize) \<le> length ucKey"
  shows "\<exists>bf'. start ucKey keysize roChain bf = Inr bf' \<and> boxes_ok bf' \<and> m_oChain bf' = roChain \<and> m_oChain0 bf' = roChain"
proof -
  define bf0 where "bf0 = bf\<lparr>m_oChain0 := roChain, m_oChain := roChain,
    m_auiP := load_key 18 (take (if keysize > 56 then 56 else unat keysize) ucKey) 0 0 0 scm_auiInitP, m_auiS := scm_auiInitS\<rparr>"
  define s0 where "s0 = reflect_P 9 0 (\<lparr>m_uil = 0, m_uir = 0\<rparr>, bf0)"
  define s4 where "s4 = reflect_S 128 3 0 (reflect_S 128 2 0 (reflect_S 128 1 0 (reflect_S 128 0 0 s0)))"
  have "boxes_ok bf0" by (simp add: bf0_def boxes_ok_def init_boxes)
  then have "boxes_ok (snd s0)" "m_oChain (snd s0) = roChain" "m_oChain0 (snd s0) = roChain"
    using reflect_P_ok [of "(\<lparr>m_uil = 0, m_uir = 0\<rparr>, bf0)" 9 0] by (simp_all add: s0_def bf0_def)
  then have "boxes_ok (snd s4)" "m_oChain (snd s4) = roChain" "m_oChain0 (snd s4) = roChain"
    by (simp_all add: s4_def reflect_S_ok)
  moreover have "\<not> length ucKey < (if keysize > 56 then 56 else unat keysize)"
    using assms(2) by (auto simp: word_less_nat_alt)
  moreover have "\<not> keysize < 1" using assms(1) leD by blast
  ultimately show ?thesis
    by (simp add: start_def s4_def s0_def bf0_def Let_def del: word_less_1)
qed

lemma whole_blocks: "n mod 8 = 0 \<Longrightarrow> unat (n :: u64) mod 8 = 0"
  using unat_mod [of n 8] by simp

lemma crypt_to_other:
  assumes "crypt_to f chain inb out n = Inr c" and "unat n \<le> length out'"
  shows "crypt_to f chain inb out' n = Inr (take (unat n) c @ drop (unat n) out')"
proof -
  have n: "n \<noteq> 0" "n mod 8 = 0" "unat n \<le> length inb" using assms(1) by (auto simp: crypt_to_def split: if_splits)
  then have "length (take (unat n) inb) mod 8 = 0" using whole_blocks by (simp add: min_absorb2)
  with n assms over_blocks_length show ?thesis by (auto simp: crypt_to_def split: if_splits)
qed

lemma crypt_to_undo:
  assumes "cipher_mode enc dec" and "n \<noteq> 0" and "n mod 8 = 0" and "unat n \<le> length inb" and "unat n \<le> length out"
    and "unat n \<le> length out'"
  shows "\<exists>c. crypt_to enc chain inb out n = Inr c \<and> length c = length out \<and> drop (unat n) c = drop (unat n) out \<and>
    crypt_to dec chain c out' n = Inr (take (unat n) inb @ drop (unat n) out')"
proof -
  have "length (take (unat n) inb) mod 8 = 0" using whole_blocks [OF assms(3)] assms(4) by simp
  note L = over_blocks_length [OF this] cipher_mode.over_blocks_undo [OF assms(1) this]
  show ?thesis using assms(2-) L by (simp add: crypt_to_def min_absorb2)
qed

subsection \<open>What the cipher promises\<close>

text \<open>
  C22. Round trip: once \<^verbatim>\<open>start\<close> has taken a key of at least one byte, every buffer of whole blocks is encrypted and
  decrypting the result gives the buffer back, in each of the three modes, in place and from buffer to buffer, which agree;
  bytes after the first \<open>n\<close> are not touched.
\<close>

theorem blowfish_roundtrip:
  assumes "1 \<le> keysize" and "min 56 (unat keysize) \<le> length ucKey" and "n \<noteq> 0" and "n mod 8 = 0" and "unat n \<le> length buf"
  shows "\<exists>bf' c. start ucKey keysize roChain bf = Inr bf' \<and> blowfish_encrypt bf' buf n iMode = Inr c \<and> length c = length buf \<and>
    drop (unat n) c = drop (unat n) buf \<and> blowfish_decrypt bf' c n iMode = Inr buf \<and>
    (\<forall>out. unat n \<le> length out \<longrightarrow>
       blowfish_encrypt_to bf' buf out n iMode = Inr (take (unat n) c @ drop (unat n) out) \<and>
       blowfish_decrypt_to bf' c out n iMode = Inr (take (unat n) buf @ drop (unat n) out))"
proof -
  obtain bf' where bf': "start ucKey keysize roChain bf = Inr bf'" using start_ok [OF assms(1,2)] by blast
  note m = blowfish_mode.cipher_mode_axioms [of bf' iMode]
  obtain c where c: "blowfish_encrypt bf' buf n iMode = Inr c" "length c = length buf" "drop (unat n) c = drop (unat n) buf"
    using crypt_to_undo [OF m assms(3,4,5,5,5)] by (auto simp: blowfish_encrypt_def)
  have d: "blowfish_decrypt_to bf' c out n iMode = Inr (take (unat n) buf @ drop (unat n) out)" if "unat n \<le> length out" for out
    using crypt_to_undo [where chain = "m_oChain bf'", OF m assms(3,4,5,5) that] c(1) by (auto simp: blowfish_encrypt_def blowfish_decrypt_to_def)
  have e: "blowfish_encrypt_to bf' buf out n iMode = Inr (take (unat n) c @ drop (unat n) out)" if "unat n \<le> length out" for out
    using crypt_to_other [OF _ that] c(1) by (simp add: blowfish_encrypt_def blowfish_encrypt_to_def)
  have "blowfish_decrypt bf' c n iMode = Inr buf"
    using d [of c] c(2,3) assms(5) by (simp add: blowfish_decrypt_def blowfish_decrypt_to_def)
  with bf' c d e show ?thesis by blast
qed

theorem blowfish_roundtrip_witness:
  "\<exists>bf' c. start [1, 2, 3] 3 \<lparr>m_uil = 5, m_uir = 6\<rparr>
       \<lparr>m_oChain0 = \<lparr>m_uil = 0, m_uir = 0\<rparr>, m_oChain = \<lparr>m_uil = 0, m_uir = 0\<rparr>, m_auiP = [], m_auiS = []\<rparr> = Inr bf' \<and>
     blowfish_encrypt bf' [1, 2, 3, 4, 5, 6, 7, 8, 9] 8 CBC = Inr c \<and>
     blowfish_decrypt bf' c 8 CBC = Inr [1, 2, 3, 4, 5, 6, 7, 8, 9]"
  using blowfish_roundtrip [of 3 "[1, 2, 3]" 8 "[1, 2, 3, 4, 5, 6, 7, 8, 9]" "\<lparr>m_uil = 5, m_uir = 6\<rparr>"
    "\<lparr>m_oChain0 = \<lparr>m_uil = 0, m_uir = 0\<rparr>, m_oChain = \<lparr>m_uil = 0, m_uir = 0\<rparr>, m_auiP = [], m_auiS = []\<rparr>" CBC]
  by auto

text \<open>
  The block cipher is the published one: with the subkeys and boxes that \<^verbatim>\<open>start\<close> leaves, which have their sizes so
  that no index of the round function leaves a box, the unrolled encryption equals the sixteen rounds of the Feistel
  network followed by the swap and the last two subkeys, and decryption is its inverse on both sides.
\<close>

lemma blowfish_is_feistel:
  assumes "start ucKey keysize roChain bf = Inr bf'"
  shows "(\<forall>b. encrypt_block bf' b =
      (case textbook_encrypt (F bf') (m_auiP bf') (m_uil b, m_uir b) of (xL, xR) \<Rightarrow> \<lparr>m_uil = xL, m_uir = xR\<rparr>)) \<and>
    (\<forall>b. decrypt_block bf' (encrypt_block bf' b) = b \<and> encrypt_block bf' (decrypt_block bf' b) = b) \<and>
    (\<forall>ui. \<forall>j < 4. Byte ui < length (m_auiS bf' ! j)) \<and> length (m_auiP bf') = 18"
proof -
  have "1 \<le> keysize" "min 56 (unat keysize) \<le> length ucKey"
    using assms by (auto simp: start_def Let_def word_less_nat_alt word_le_nat_alt not_less split: if_splits)
  from start_ok [OF this, of roChain bf] assms have ok: "boxes_ok bf'" by auto
  then have P: "length (m_auiP bf') = 18" and S: "map length (m_auiS bf') = [256, 256, 256, 256]" by (simp_all add: boxes_ok_def)
  have "length (m_auiS bf' ! j) = 256" if "j < 4" for j
    using S that by (auto simp: map_eq_Cons_conv less_Suc_eq numeral_eq_Suc)
  then show ?thesis
    by (simp add: P Byte_bound decrypt_encrypt_block encrypt_decrypt_block flip: encrypt_block_textbook [OF P])
qed

end
