(* ===== verification/Crc_Correct.thy ===== *)
theory Crc_Correct
  imports Crc
begin

text \<open>
  The checksum by tables is the checksum bit by bit. The remainder of the division by the polynomial is linear over
  exclusive or, so the tables are determined by their entries at powers of two, and bytes can be taken apart.
\<close>

subsection \<open>The reference\<close>

definition crc_bit :: "u32 \<Rightarrow> u32" where
  "crc_bit x = drop_bit 1 x XOR (if bit x 0 then 0x82f63b78 else 0)"

definition crc8 :: "u32 \<Rightarrow> u32" where
  "crc8 = crc_bit ^^ 8"

definition crc32c :: "u32 \<Rightarrow> bytes \<Rightarrow> u32" where
  "crc32c crc bs = foldl (\<lambda>c b. crc8 (c XOR ucast b)) crc bs"

subsection \<open>Linearity\<close>

definition linear :: "(u32 \<Rightarrow> u32) \<Rightarrow> bool" where
  "linear f \<longleftrightarrow> (\<forall>x y. f (x XOR y) = f x XOR f y)"

lemma linear_0: "linear f \<Longrightarrow> f 0 = 0"
  unfolding linear_def by (metis bit.xor_self)

lemma linear_crc_bit: "linear crc_bit"
  by (simp add: linear_def crc_bit_def bit_simps drop_bit_xor ac_simps)

lemma linear_iter: "linear f \<Longrightarrow> linear (f ^^ n)"
  by (induction n) (simp_all add: linear_def)

lemma linear_crc8 [simp]: "linear crc8"
  by (simp add: crc8_def linear_crc_bit linear_iter)

lemma crc_bit_shift: "(\<And>k. k < n \<Longrightarrow> \<not> bit x k) \<Longrightarrow> (crc_bit ^^ n) x = drop_bit n x"
proof (induction n)
  case (Suc n)
  then have "(crc_bit ^^ n) x = drop_bit n x" "\<not> bit x n" by simp_all
  then show ?case by (simp add: crc_bit_def [of "drop_bit n x"] bit_simps)
qed simp

lemma crc8_shift: "k + 8 \<le> 24 \<Longrightarrow> crc8 (push_bit (k + 8) (ucast (b :: byte))) = push_bit k (ucast b)"
proof -
  assume k: "k + 8 \<le> 24"
  have "crc8 (push_bit (k + 8) (ucast b)) = drop_bit 8 (push_bit (k + 8) (ucast b))"
    unfolding crc8_def by (rule crc_bit_shift) (simp add: bit_simps)
  also have "\<dots> = push_bit k (ucast b)"
    using k by (intro bit_word_eqI) (auto simp: bit_simps dest: bit_imp_le_length)
  finally show ?thesis .
qed

lemma crc8_split: "crc8 x = crc8 (x AND 0xff) XOR drop_bit 8 x"
proof -
  define M :: u32 where "M = 0xff"
  have m: "bit M k \<longleftrightarrow> k < 8" for k unfolding M_def by (auto simp: bit_simps mask_eq_exp_minus_1 [of 8, where 'a = "32 word", simplified, symmetric])
  have "crc8 (x AND NOT M) = drop_bit 8 (x AND NOT M)"
    unfolding crc8_def by (rule crc_bit_shift) (simp add: bit_and_iff bit_not_iff m)
  also have "\<dots> = drop_bit 8 x" by (intro bit_word_eqI) (auto simp: bit_drop_bit_eq bit_and_iff bit_not_iff m dest: bit_imp_le_length)
  finally have "crc8 (x AND NOT M) = drop_bit 8 x" .
  moreover have "x = (x AND M) XOR (x AND NOT M)" by (intro bit_word_eqI) (auto simp: bit_simps)
  ultimately show ?thesis using linear_crc8 unfolding linear_def M_def by metis
qed

subsection \<open>The tables\<close>

text \<open>The table of a linear function from its values at the powers of two, largest first.\<close>

fun span :: "u32 list \<Rightarrow> u32 list" where
  "span [] = [0]"
| "span (b # bs) = (let r = span bs in r @ map (\<lambda>x. x XOR b) r)"

lemma map_span: "linear f \<Longrightarrow> map f (span bs) = span (map f bs)"
proof (induction bs)
  case (Cons b bs)
  have "f (x XOR b) = f x XOR f b" for x using Cons.prems by (simp add: linear_def)
  then show ?case using Cons by (simp add: Let_def comp_def flip: Cons.IH)
qed (simp add: linear_0)

definition powers :: "u32 list" where
  "powers = [128, 64, 32, 16, 8, 4, 2, 1]"

lemma span_powers: "span powers = map of_nat [0..<256]"
  by code_simp

lemma crc_bit_numeral:
  "crc_bit (numeral k) = drop_bit 1 (numeral k) XOR (if bit (numeral k :: u32) 0 then 0x82f63b78 else 0)"
  by (simp only: crc_bit_def)

lemma crc_bit_1: "crc_bit 1 = 0x82f63b78"
  by (simp add: crc_bit_def)

lemma crc8_unfold: "crc8 x = crc_bit (crc_bit (crc_bit (crc_bit (crc_bit (crc_bit (crc_bit (crc_bit x)))))))"
  by (simp add: crc8_def numeral_eq_Suc)

text \<open>The entries at the powers of two, table by table, and the tables from them.\<close>

lemma base_o32: "map crc8 powers = [0x82f63b78, 0x417b1dbc, 0x20bd8ede, 0x105ec76f, 0x8ad958cf, 0xc79a971f, 0xe13b70f7, 0xf26b8303]"
  by (simp add: powers_def crc8_unfold crc_bit_1 crc_bit_numeral)

lemma span_o32: "crc_tableil8_o32 = span [0x82f63b78, 0x417b1dbc, 0x20bd8ede, 0x105ec76f, 0x8ad958cf, 0xc79a971f, 0xe13b70f7, 0xf26b8303]"
  by (simp add: crc_tableil8_o32_def Let_def)

lemma base_o40: "map crc8 [0x82f63b78, 0x417b1dbc, 0x20bd8ede, 0x105ec76f, 0x8ad958cf, 0xc79a971f, 0xe13b70f7, 0xf26b8303] = [0xfbc3faf9, 0xff17c604, 0x7f8be302, 0x3fc5f181, 0x9d14c3b8, 0x4e8a61dc, 0x274530ee, 0x13a29877]"
  by (simp add: crc8_unfold crc_bit_1 crc_bit_numeral)

lemma span_o40: "crc_tableil8_o40 = span [0xfbc3faf9, 0xff17c604, 0x7f8be302, 0x3fc5f181, 0x9d14c3b8, 0x4e8a61dc, 0x274530ee, 0x13a29877]"
  by (simp add: crc_tableil8_o40_def Let_def)

lemma base_o48: "map crc8 [0xfbc3faf9, 0xff17c604, 0x7f8be302, 0x3fc5f181, 0x9d14c3b8, 0x4e8a61dc, 0x274530ee, 0x13a29877] = [0x8b277743, 0xc76580d9, 0xe144fb14, 0x70a27d8a, 0x38513ec5, 0x9edea41a, 0x4f6f520d, 0xa541927e]"
  by (simp add: crc8_unfold crc_bit_1 crc_bit_numeral)

lemma span_o48: "crc_tableil8_o48 = span [0x8b277743, 0xc76580d9, 0xe144fb14, 0x70a27d8a, 0x38513ec5, 0x9edea41a, 0x4f6f520d, 0xa541927e]"
  by (simp add: crc_tableil8_o48_def Let_def)

lemma base_o56: "map crc8 [0x8b277743, 0xc76580d9, 0xe144fb14, 0x70a27d8a, 0x38513ec5, 0x9edea41a, 0x4f6f520d, 0xa541927e] = [0x52a0c93f, 0xaba65fe7, 0xd725148b, 0xe964b13d, 0xf64463e6, 0x7b2231f3, 0xbf672381, 0xdd45aab8]"
  by (simp add: crc8_unfold crc_bit_1 crc_bit_numeral)

lemma span_o56: "crc_tableil8_o56 = span [0x52a0c93f, 0xaba65fe7, 0xd725148b, 0xe964b13d, 0xf64463e6, 0x7b2231f3, 0xbf672381, 0xdd45aab8]"
  by (simp add: crc_tableil8_o56_def Let_def)

lemma base_o64: "map crc8 [0x52a0c93f, 0xaba65fe7, 0xd725148b, 0xe964b13d, 0xf64463e6, 0x7b2231f3, 0xbf672381, 0xdd45aab8] = [0x6ea2d55c, 0x37516aae, 0x1ba8b557, 0x8f2261d3, 0xc5670b91, 0xe045beb0, 0x7022df58, 0x38116fac]"
  by (simp add: crc8_unfold crc_bit_1 crc_bit_numeral)

lemma span_o64: "crc_tableil8_o64 = span [0x6ea2d55c, 0x37516aae, 0x1ba8b557, 0x8f2261d3, 0xc5670b91, 0xe045beb0, 0x7022df58, 0x38116fac]"
  by (simp add: crc_tableil8_o64_def Let_def)

lemma base_o72: "map crc8 [0x6ea2d55c, 0x37516aae, 0x1ba8b557, 0x8f2261d3, 0xc5670b91, 0xe045beb0, 0x7022df58, 0x38116fac] = [0x1c08b7d6, 0x0e045beb, 0x85f4168d, 0xc00c303e, 0x6006181f, 0xb2f53777, 0xdb8ca0c3, 0xef306b19]"
  by (simp add: crc8_unfold crc_bit_1 crc_bit_numeral)

lemma span_o72: "crc_tableil8_o72 = span [0x1c08b7d6, 0x0e045beb, 0x85f4168d, 0xc00c303e, 0x6006181f, 0xb2f53777, 0xdb8ca0c3, 0xef306b19]"
  by (simp add: crc_tableil8_o72_def Let_def)

lemma base_o80: "map crc8 [0x1c08b7d6, 0x0e045beb, 0x85f4168d, 0xc00c303e, 0x6006181f, 0xb2f53777, 0xdb8ca0c3, 0xef306b19] = [0xf56e0ef4, 0x7ab7077a, 0x3d5b83bd, 0x9c5bfaa6, 0x4e2dfd53, 0xa5e0c5d1, 0xd0065990, 0x68032cc8]"
  by (simp add: crc8_unfold crc_bit_1 crc_bit_numeral)

lemma span_o80: "crc_tableil8_o80 = span [0xf56e0ef4, 0x7ab7077a, 0x3d5b83bd, 0x9c5bfaa6, 0x4e2dfd53, 0xa5e0c5d1, 0xd0065990, 0x68032cc8]"
  by (simp add: crc_tableil8_o80_def Let_def)

lemma base_o88: "map crc8 [0xf56e0ef4, 0x7ab7077a, 0x3d5b83bd, 0x9c5bfaa6, 0x4e2dfd53, 0xa5e0c5d1, 0xd0065990, 0x68032cc8] = [0x34019664, 0x1a00cb32, 0x0d006599, 0x847609b4, 0x423b04da, 0x211d826d, 0x9278fa4e, 0x493c7d27]"
  by (simp add: crc8_unfold crc_bit_1 crc_bit_numeral)

lemma span_o88: "crc_tableil8_o88 = span [0x34019664, 0x1a00cb32, 0x0d006599, 0x847609b4, 0x423b04da, 0x211d826d, 0x9278fa4e, 0x493c7d27]"
  by (simp add: crc_tableil8_o88_def Let_def)

lemma powers_step: "map (crc8 ^^ n) powers = bs \<Longrightarrow> map crc8 bs = cs \<Longrightarrow> map (crc8 ^^ Suc n) powers = cs"
  by (auto simp: comp_def)

lemma iter_o32: "map (crc8 ^^ Suc 0) powers = map crc8 powers"
  by simp

lemmas iter_1 = iter_o32 [unfolded base_o32]
lemmas iter_2 = powers_step [OF iter_1 base_o40]
lemmas iter_3 = powers_step [OF iter_2 base_o48]
lemmas iter_4 = powers_step [OF iter_3 base_o56]
lemmas iter_5 = powers_step [OF iter_4 base_o64]
lemmas iter_6 = powers_step [OF iter_5 base_o72]
lemmas iter_7 = powers_step [OF iter_6 base_o80]
lemmas iter_8 = powers_step [OF iter_7 base_o88]

lemma lookup_table:
  assumes "t = span (map (crc8 ^^ n) powers)"
  shows "lookup t x = (crc8 ^^ n) (x AND 0xff)"
proof -
  note unat_and_0xff [of x]
  moreover have "t = map (crc8 ^^ n) (map of_nat [0..<256])"
    by (simp only: assms linear_iter [OF linear_crc8, THEN map_span, symmetric] span_powers)
  ultimately show ?thesis by (simp add: lookup_def)
qed

lemma lookups:
  "lookup crc_tableil8_o32 x = (crc8 ^^ 1) (x AND 0xff)"
  "lookup crc_tableil8_o40 x = (crc8 ^^ 2) (x AND 0xff)"
  "lookup crc_tableil8_o48 x = (crc8 ^^ 3) (x AND 0xff)"
  "lookup crc_tableil8_o56 x = (crc8 ^^ 4) (x AND 0xff)"
  "lookup crc_tableil8_o64 x = (crc8 ^^ 5) (x AND 0xff)"
  "lookup crc_tableil8_o72 x = (crc8 ^^ 6) (x AND 0xff)"
  "lookup crc_tableil8_o80 x = (crc8 ^^ 7) (x AND 0xff)"
  "lookup crc_tableil8_o88 x = (crc8 ^^ 8) (x AND 0xff)"
  subgoal by (rule lookup_table) (simp only: span_o32 iter_1 [symmetric] numeral_eq_Suc pred_numeral_simps One_nat_def BitM.simps)
  subgoal by (rule lookup_table) (simp only: span_o40 iter_2 [symmetric] numeral_eq_Suc pred_numeral_simps One_nat_def BitM.simps)
  subgoal by (rule lookup_table) (simp only: span_o48 iter_3 [symmetric] numeral_eq_Suc pred_numeral_simps One_nat_def BitM.simps)
  subgoal by (rule lookup_table) (simp only: span_o56 iter_4 [symmetric] numeral_eq_Suc pred_numeral_simps One_nat_def BitM.simps)
  subgoal by (rule lookup_table) (simp only: span_o64 iter_5 [symmetric] numeral_eq_Suc pred_numeral_simps One_nat_def BitM.simps)
  subgoal by (rule lookup_table) (simp only: span_o72 iter_6 [symmetric] numeral_eq_Suc pred_numeral_simps One_nat_def BitM.simps)
  subgoal by (rule lookup_table) (simp only: span_o80 iter_7 [symmetric] numeral_eq_Suc pred_numeral_simps One_nat_def BitM.simps)
  subgoal by (rule lookup_table) (simp only: span_o88 iter_8 [symmetric] numeral_eq_Suc pred_numeral_simps One_nat_def BitM.simps)
  done

subsection \<open>The loop\<close>

lemma and_0xff_bytes:
  "be AND 0xff = (ucast (ucast be :: byte) :: u32)"
proof -
  have "be AND 0xff = take_bit 8 be" by (simp add: take_bit_eq_mask mask_eq_exp_minus_1)
  then show ?thesis by (simp only:) (intro bit_word_eqI, auto simp: bit_simps)
qed

lemma crc_byte_eq: "crc_byte crc c = crc8 (crc XOR ucast c)"
proof -
  have "(crc XOR scast c) AND 0xff = (crc XOR ucast c) AND 0xff"
    unfolding and_0xff_bytes by (rule arg_cong [where f = ucast], intro bit_word_eqI) (auto simp: bit_simps)
  moreover have "drop_bit 8 (crc XOR ucast c) = drop_bit 8 crc"
    by (intro bit_word_eqI) (auto simp: bit_simps dest: bit_imp_le_length)
  ultimately show ?thesis by (simp add: crc_byte_def lookups crc8_split [of "crc XOR ucast c"])
qed

text \<open>A byte that is read later is the same byte further up in the word that is read now.\<close>

lemma crc8_later: "k < 4 \<Longrightarrow> (crc8 ^^ k) x XOR ucast (b :: byte) = (crc8 ^^ k) (x XOR push_bit (8 * k) (ucast b))"
proof -
  assume "k < 4"
  then have "(crc8 ^^ k) (push_bit (8 * k) (ucast b)) = ucast b"
  proof (induction k)
    case (Suc k)
    have "crc8 (push_bit (8 * k + 8) (ucast b)) = push_bit (8 * k) (ucast b)" using Suc.prems by (intro crc8_shift) simp
    with Suc show ?case by (simp add: funpow_swap1 ac_simps)
  qed simp
  then show ?thesis using linear_iter [OF linear_crc8, of k] by (simp add: linear_def)
qed

definition word4 :: "byte \<Rightarrow> byte \<Rightarrow> byte \<Rightarrow> byte \<Rightarrow> u32" where
  "word4 a b c d = ucast a XOR push_bit 8 (ucast b) XOR push_bit 16 (ucast c) XOR push_bit 24 (ucast d)"

lemma crc32c_word: "crc32c crc [a, b, c, d] = (crc8 ^^ 4) (crc XOR word4 a b c d)"
proof -
  have "crc32c crc [a, b, c, d] = crc8 ((crc8 ^^ 3) (crc XOR ucast a XOR push_bit 8 (ucast b) XOR push_bit 16 (ucast c)) XOR ucast d)"
    using crc8_later [of 1 "crc XOR ucast a" b] crc8_later [of 2 "crc XOR ucast a XOR push_bit 8 (ucast b)" c]
    by (simp add: crc32c_def numeral_eq_Suc xor.assoc)
  also have "\<dots> = (crc8 ^^ 4) (crc XOR word4 a b c d)"
    using crc8_later [of 3 "crc XOR ucast a XOR push_bit 8 (ucast b) XOR push_bit 16 (ucast c)" d]
    by (simp add: word4_def ac_simps numeral_eq_Suc)
  finally show ?thesis .
qed

lemma crc8_iter_word4:
  assumes "4 \<le> n"
  shows "(crc8 ^^ n) (word4 a b c d) =
    (crc8 ^^ n) (ucast a) XOR (crc8 ^^ (n - 1)) (ucast b) XOR (crc8 ^^ (n - 2)) (ucast c) XOR (crc8 ^^ (n - 3)) (ucast d)"
proof -
  have "(crc8 ^^ n) (push_bit (8 * k) (ucast x)) = (crc8 ^^ (n - k)) (ucast (x :: byte))" if "k < 4" for k x
  proof -
    have "(crc8 ^^ n) y = (crc8 ^^ (n - k)) ((crc8 ^^ k) y)" for y using that assms funpow_add [of "n - k" k crc8] by (simp add: comp_def)
    moreover have "(crc8 ^^ k) (push_bit (8 * k) (ucast x)) = ucast x"
      using crc8_later [OF that, of 0 x] linear_0 [OF linear_iter [OF linear_crc8], of k] by simp
    ultimately show ?thesis by simp
  qed
  from this [of 1 b] this [of 2 c] this [of 3 d] show ?thesis
    using linear_iter [OF linear_crc8, of n] by (simp add: word4_def linear_def)
qed

lemma word4_bytes: "word4 (ucast x) (ucast (drop_bit 8 x)) (ucast (drop_bit 16 x)) (ucast (drop_bit 24 x)) = x"
proof (rule bit_word_eqI)
  fix n
  assume "n < LENGTH(32)"
  then consider "n < 8" | "8 \<le> n" "n < 16" | "16 \<le> n" "n < 24" | "24 \<le> n" "n < 32" by fastforce
  then show "bit (word4 (ucast x) (ucast (drop_bit 8 x)) (ucast (drop_bit 16 x)) (ucast (drop_bit 24 x))) n = bit x n"
    by cases (auto simp: word4_def bit_simps)
qed

lemma crc_load_word4: "crc_load (a # b # c # d # p) = word4 a b c d"
proof -
  have "crc_load (a # b # c # d # p) = ucast a + (push_bit 8 (ucast b) + (push_bit 16 (ucast c) + push_bit 24 (ucast d)))"
    by (simp add: crc_load_def push_bit_eq_mult algebra_simps)
  also have "push_bit 16 (ucast c) + push_bit 24 (ucast d) = push_bit 16 (ucast c) XOR (push_bit 24 (ucast d) :: u32)"
    by (rule disjunctive_add_eq_xor, rule bit_word_eqI) (auto simp: bit_simps dest: bit_imp_le_length)
  also have "push_bit 8 (ucast b) + (push_bit 16 (ucast c) XOR push_bit 24 (ucast d)) =
      push_bit 8 (ucast b) XOR (push_bit 16 (ucast c) XOR (push_bit 24 (ucast d) :: u32))"
    by (rule disjunctive_add_eq_xor, rule bit_word_eqI) (auto simp: bit_simps dest: bit_imp_le_length)
  also have "ucast a + (push_bit 8 (ucast b) XOR (push_bit 16 (ucast c) XOR push_bit 24 (ucast d))) = word4 a b c d"
    unfolding word4_def
    by (rule disjunctive_add_eq_xor, rule bit_word_eqI) (auto simp: bit_simps dest: bit_imp_le_length)
  finally show ?thesis .
qed

lemma lookup_word:
  "(crc8 ^^ 8) x = lookup crc_tableil8_o88 x XOR lookup crc_tableil8_o80 (drop_bit 8 x) XOR
     lookup crc_tableil8_o72 (drop_bit 16 x) XOR lookup crc_tableil8_o64 (drop_bit 24 x)"
  "(crc8 ^^ 4) x = lookup crc_tableil8_o56 x XOR lookup crc_tableil8_o48 (drop_bit 8 x) XOR
     lookup crc_tableil8_o40 (drop_bit 16 x) XOR lookup crc_tableil8_o32 (drop_bit 24 x)"
  by (subst word4_bytes [of x, symmetric], subst crc8_iter_word4, simp, simp add: lookups and_0xff_bytes)+

lemma crc_block_eq:
  assumes "8 \<le> length p"
  shows "crc_block crc p = crc32c crc (take 8 p)"
proof -
  obtain a b c d e f g h q where p: "p = a # b # c # d # e # f # g # h # q"
    using assms by (auto simp: numeral_eq_Suc Suc_le_length_iff)
  let ?x = "crc XOR word4 a b c d" and ?y = "word4 e f g h"
  have "crc32c crc (take 8 p) = crc32c (crc32c crc [a, b, c, d]) [e, f, g, h]" by (simp add: p crc32c_def)
  also have "\<dots> = (crc8 ^^ 4) ((crc8 ^^ 4) ?x) XOR (crc8 ^^ 4) ?y"
    using linear_iter [OF linear_crc8, of 4] by (simp add: crc32c_word linear_def)
  also have "(crc8 ^^ 4) ((crc8 ^^ 4) ?x) = (crc8 ^^ 8) ?x" using funpow_add [of 4 4 crc8] by (simp add: comp_def)
  finally show ?thesis by (simp add: crc_block_def p crc_load_word4 lookup_word drop_bit_drop_bit Let_def xor.assoc)
qed

lemma crc32c_append: "crc32c crc (a @ b) = crc32c (crc32c crc a) b"
  by (simp add: crc32c_def)

lemma crc_blocks_eq: "8 * n \<le> length p \<Longrightarrow> crc_blocks n crc p = crc32c crc (take (8 * n) p)"
proof (induction n arbitrary: crc p)
  case (Suc n)
  have "take (8 * Suc n) p = take 8 p @ take (8 * n) (drop 8 p)" by (simp add: take_add)
  with Suc show ?case by (simp add: crc_block_eq crc32c_append)
qed (simp add: crc32c_def)

text \<open>The published check value of the algorithm.\<close>

lemma crc32c_check_value: "NOT (crc32c 0xffffffff [0x31, 0x32, 0x33, 0x34, 0x35, 0x36, 0x37, 0x38, 0x39]) = 0xe3069283"
  by (simp add: crc32c_def crc8_unfold crc_bit_1 crc_bit_numeral)

text \<open>
  C24. For every alignment of the data in memory, every start value and every input, the checksum by eight tables is the
  CRC-32C computed bit by bit with the reflected polynomial 0x82f63b78; \<^verbatim>\<open>_mm_crc32_u64\<close> is the checksum of the eight
  bytes of its argument. Data in two pieces gives the checksum of the whole. The two copies of the table of bytes agree.
\<close>

theorem crc32c_slicing:
  "crc32cSlicingBy8 address crc data = crc32c crc data \<and>
   mm_crc32_u64 address a b = ucast (crc32c (ucast a) (le_bytes 8 (unat b))) \<and>
   crc32cSlicingBy8 address (crc32cSlicingBy8 address' crc data) data' = crc32cSlicingBy8 address crc (data @ data') \<and>
   crc_c = crc_tableil8_o32"
proof -
  have slicing: "crc32cSlicingBy8 address crc data = crc32c crc data" for address crc data
  proof -
    have bytes: "foldl crc_byte c bs = crc32c c bs" for c bs
      unfolding crc32c_def by (rule foldl_cong) (simp_all add: crc_byte_eq)
    define i where "i = (if length data < unat ((4 - address) AND 3) then length data else unat ((4 - address) AND 3))"
    define r where "r = (length data - i) div 8 * 8"
    have "crc32cSlicingBy8 address crc data =
        crc32c (crc32c (crc32c crc (take i data)) (take r (drop i data))) (drop r (drop i data))"
      by (simp add: crc32cSlicingBy8_def Let_def bytes crc_blocks_eq i_def [symmetric] r_def mult.commute)
    also have "\<dots> = crc32c crc data" by (simp only: append_take_drop_id flip: crc32c_append append_assoc) (simp only: append_take_drop_id append_assoc)
    finally show ?thesis .
  qed
  show ?thesis by (simp add: slicing mm_crc32_u64_def crc32c_append crc_c_def crc_tableil8_o32_def)
qed

end
