(* ===== verification/Digest.thy ===== *)
theory Digest
  imports Fc_Prelude
begin

text \<open>
  The shifts of digests in \<^verbatim>\<open>src/crypto/_digest_common.cpp\<close>, which the hash classes use as numbers of many bytes, most
  significant first. \<open>inp\<close> and \<open>out\<close> are the two arrays of \<open>n\<close> bytes; after the shift by whole bytes the loop reads from the array it writes.
\<close>

definition shift_l_bytes :: "bytes \<Rightarrow> bytes \<Rightarrow> nat \<Rightarrow> nat \<Rightarrow> bytes" where
  "shift_l_bytes inp out n i =
     (let (out, i) = (if i < n then (take (n - i) (drop i inp) @ drop (n - i) out, i) else (out, n))
      in take (n - i) out @ replicate i 0 @ drop n out)"

text \<open>The loop of \<^verbatim>\<open>shift_l\<close> from position \<open>p\<close>; without an array of its own it reads \<open>out\<close>.\<close>

fun shift_l_loop :: "nat \<Rightarrow> nat \<Rightarrow> nat \<Rightarrow> bytes option \<Rightarrow> bytes \<Rightarrow> bytes" where
  "shift_l_loop 0 p i in8 out = (let src = (case in8 of None \<Rightarrow> out | Some s \<Rightarrow> s) in out[p := push_bit i (src ! p)])"
| "shift_l_loop (Suc k) p i in8 out =
     (let src = (case in8 of None \<Rightarrow> out | Some s \<Rightarrow> s)
      in shift_l_loop k (p + 1) i in8 (out[p := push_bit i (src ! p) OR drop_bit (8 - i) (src ! (p + 1))]))"

definition shift_l :: "bytes \<Rightarrow> bytes \<Rightarrow> nat \<Rightarrow> u32 \<Rightarrow> bytes" where
  "shift_l inp out n i =
     (let (in8, out, i) =
        (if i \<ge> 8 then (None, shift_l_bytes inp out n (unat (i div 8)), i AND 7) else (Some inp, out, i))
      in shift_l_loop (n - 1) 0 (unat i) in8 out)"

definition shift_r_bytes :: "bytes \<Rightarrow> bytes \<Rightarrow> nat \<Rightarrow> nat \<Rightarrow> bytes" where
  "shift_r_bytes inp out n i =
     (let (out, i) = (if i < n then (take i out @ take (n - i) inp @ drop n out, i) else (out, n))
      in replicate i 0 @ drop i out)"

fun shift_r_loop :: "nat \<Rightarrow> nat \<Rightarrow> bytes option \<Rightarrow> bytes \<Rightarrow> bytes" where
  "shift_r_loop 0 i in8 out = (let src = (case in8 of None \<Rightarrow> out | Some s \<Rightarrow> s) in out[0 := drop_bit i (src ! 0)])"
| "shift_r_loop (Suc p) i in8 out =
     (let src = (case in8 of None \<Rightarrow> out | Some s \<Rightarrow> s)
      in shift_r_loop p i in8 (out[Suc p := drop_bit i (src ! Suc p) OR push_bit (8 - i) (src ! p)]))"

definition shift_r :: "bytes \<Rightarrow> bytes \<Rightarrow> nat \<Rightarrow> u32 \<Rightarrow> bytes" where
  "shift_r inp out n i =
     (let (in8, out, i) =
        (if i \<ge> 8 then (None, shift_r_bytes inp out n (unat (i div 8)), i AND 7) else (Some inp, out, i))
      in shift_r_loop (n - 1) (unat i) in8 out)"

subsection \<open>The loops without the arrays\<close>

fun shl :: "nat \<Rightarrow> bytes \<Rightarrow> bytes" where
  "shl i [] = []"
| "shl i [a] = [push_bit i a]"
| "shl i (a # b # bs) = (push_bit i a OR drop_bit (8 - i) b) # shl i (b # bs)"

fun shr :: "nat \<Rightarrow> byte option \<Rightarrow> bytes \<Rightarrow> bytes" where
  "shr i c [] = []"
| "shr i c (a # bs) = (drop_bit i a OR (case c of None \<Rightarrow> 0 | Some c \<Rightarrow> push_bit (8 - i) c)) # shr i (Some a) bs"

lemma shl_length [simp]: "length (shl i bs) = length bs"
  by (induction i bs rule: shl.induct) simp_all

text \<open>What the loops compute, reading from another array and from the one they write.\<close>

lemma shift_l_loop_apart:
  "length src = Suc k \<Longrightarrow> length rest = Suc k \<Longrightarrow> length q = length pre \<Longrightarrow>
   shift_l_loop k (length pre) i (Some (q @ src)) (pre @ rest) = pre @ shl i src"
proof (induction k arbitrary: pre q src rest)
  case 0
  then show ?case by (auto simp: length_Suc_conv nth_append)
next
  case (Suc k)
  obtain a b ys where src: "src = a # b # ys" using Suc.prems(1) by (auto simp: length_Suc_conv)
  obtain x xs where rest: "rest = x # xs" using Suc.prems(2) by (auto simp: length_Suc_conv)
  let ?v = "push_bit i a OR drop_bit (8 - i) b"
  have "shift_l_loop k (length (pre @ [?v])) i (Some ((q @ [a]) @ b # ys)) ((pre @ [?v]) @ xs) = (pre @ [?v]) @ shl i (b # ys)"
    using Suc.prems src rest by (intro Suc.IH) simp_all
  then show ?case using Suc.prems(3) by (simp add: src rest nth_append Let_def)
qed

lemma shift_l_loop_same:
  "length src = Suc k \<Longrightarrow> shift_l_loop k (length pre) i None (pre @ src) = pre @ shl i src"
proof (induction k arbitrary: pre src)
  case 0
  then show ?case by (auto simp: length_Suc_conv)
next
  case (Suc k)
  obtain a b ys where src: "src = a # b # ys" using Suc.prems(1) by (auto simp: length_Suc_conv)
  let ?v = "push_bit i a OR drop_bit (8 - i) b"
  have "shift_l_loop k (length (pre @ [?v])) i None ((pre @ [?v]) @ b # ys) = (pre @ [?v]) @ shl i (b # ys)"
    using Suc.prems src by (intro Suc.IH) simp_all
  then show ?case by (simp add: src nth_append Let_def)
qed

lemma shr_snoc:
  "shr i c (bs @ [a]) = shr i c bs @
     [drop_bit i a OR (case (if bs = [] then c else Some (last bs)) of None \<Rightarrow> 0 | Some c \<Rightarrow> push_bit (8 - i) c)]"
  by (induction bs arbitrary: c) auto

lemma shr_length [simp]: "length (shr i c bs) = length bs"
  by (induction bs arbitrary: c) auto

lemma last_nth: "length ys = Suc p \<Longrightarrow> ys ! p = last ys"
  by (cases ys rule: rev_cases) (simp_all add: nth_append)

lemma shift_r_loop_apart:
  "length src = Suc p \<Longrightarrow> length rest = Suc p \<Longrightarrow>
   shift_r_loop p i (Some (src @ q)) (rest @ post) = shr i None src @ post"
proof (induction p arbitrary: q src rest post)
  case 0
  then show ?case by (auto simp: length_Suc_conv)
next
  case (Suc p)
  obtain ys a where src: "src = ys @ [a]" "length ys = Suc p" using Suc.prems(1) by (cases src rule: rev_cases) auto
  obtain xs x where rest: "rest = xs @ [x]" "length xs = Suc p" using Suc.prems(2) by (cases rest rule: rev_cases) auto
  have ne: "ys \<noteq> []" "ys ! p = last ys" using src(2) by (auto simp: last_nth)
  let ?v = "drop_bit i a OR push_bit (8 - i) (last ys)"
  have "shift_r_loop p i (Some (ys @ a # q)) (xs @ ?v # post) = shr i None ys @ ?v # post"
    using src(2) rest(2) by (rule Suc.IH)
  then show ?case using ne src(2) rest(2) by (simp add: src(1) rest(1) nth_append shr_snoc Let_def list_update_append)
qed

lemma shift_r_loop_same:
  "length src = Suc p \<Longrightarrow> shift_r_loop p i None (src @ post) = shr i None src @ post"
proof (induction p arbitrary: src post)
  case 0
  then show ?case by (auto simp: length_Suc_conv)
next
  case (Suc p)
  obtain ys a where src: "src = ys @ [a]" "length ys = Suc p" using Suc.prems(1) by (cases src rule: rev_cases) auto
  have ne: "ys \<noteq> []" "ys ! p = last ys" using src(2) by (auto simp: last_nth)
  let ?v = "drop_bit i a OR push_bit (8 - i) (last ys)"
  have "shift_r_loop p i None (ys @ ?v # post) = shr i None ys @ ?v # post" using src(2) by (rule Suc.IH)
  then show ?case using ne src(2) by (simp add: src(1) nth_append shr_snoc Let_def list_update_append)
qed

lemma word_and_7: "(i :: u32) AND 7 = i mod 8"
  using take_bit_eq_mask [of 3 i] by (simp add: take_bit_eq_mod mask_eq_exp_minus_1)

lemma word_small: "\<not> 8 \<le> (i :: u32) \<Longrightarrow> i div 8 = 0 \<and> i mod 8 = i"
  by (simp add: not_le word_less_nat_alt word_unat_eq_iff unat_div unat_mod)

lemma shift_l_eq:
  assumes "length inp = n" and "length out = n" and "0 < n"
  shows "shift_l inp out n i = (let k = min n (unat (i div 8)) in shl (unat (i mod 8)) (drop k inp @ replicate k 0))"
proof (cases "8 \<le> i")
  case True
  let ?k = "unat (i div 8)"
  have "shift_l_bytes inp out n ?k = drop (min n ?k) inp @ replicate (min n ?k) 0"
    using assms by (simp add: shift_l_bytes_def Let_def min_def)
  with True assms show ?thesis
    using shift_l_loop_same [of "drop (min n ?k) inp @ replicate (min n ?k) 0" "n - 1" "[]" "unat (i mod 8)"]
    by (simp add: shift_l_def word_and_7 Let_def)
next
  case False
  with assms show ?thesis
    using shift_l_loop_apart [of inp "n - 1" out "[]" "[]" "unat i"] word_small [OF False] by (simp add: shift_l_def)
qed

lemma shift_r_eq:
  assumes "length inp = n" and "length out = n" and "0 < n"
  shows "shift_r inp out n i = (let k = min n (unat (i div 8)) in shr (unat (i mod 8)) None (replicate k 0 @ take (n - k) inp))"
proof (cases "8 \<le> i")
  case True
  let ?k = "unat (i div 8)"
  have "shift_r_bytes inp out n ?k = replicate (min n ?k) 0 @ take (n - min n ?k) inp"
    using assms by (simp add: shift_r_bytes_def Let_def min_def)
  with True assms show ?thesis
    using shift_r_loop_same [of "replicate (min n ?k) 0 @ take (n - min n ?k) inp" "n - 1" "unat (i mod 8)" "[]"]
    by (simp add: shift_r_def word_and_7 Let_def)
next
  case False
  with assms show ?thesis
    using shift_r_loop_apart [of inp "n - 1" out "unat i" "[]" "[]"] word_small [OF False] by (simp add: shift_r_def)
qed

subsection \<open>Digests as numbers\<close>

fun be_value :: "bytes \<Rightarrow> nat" where
  "be_value [] = 0"
| "be_value (b # bs) = unat b * 256 ^ length bs + be_value bs"

lemma byte_push: "unat (push_bit i (a :: byte)) = unat a * 2 ^ i mod 256"
  unfolding unsigned_push_bit_eq by (simp add: push_bit_eq_mult [where 'a = nat] take_bit_eq_mod)

lemma byte_drop: "unat (drop_bit i (a :: byte)) = unat a div 2 ^ i"
  unfolding unat_drop_bit_eq by (simp add: drop_bit_eq_div [where 'a = nat])

lemma byte_less: "unat (a :: byte) < 256"
  using unsigned_less [of a, where 'a = nat] by simp

lemma be_value_append: "be_value (as @ bs) = be_value as * 256 ^ length bs + be_value bs"
  by (induction as) (simp_all add: power_add algebra_simps)

lemma be_value_zeros [simp]: "be_value (replicate k 0) = 0"
  by (induction k) simp_all

lemma be_value_less: "be_value bs < 256 ^ length bs"
proof (induction bs)
  case (Cons b bs)
  have "unat b \<le> 255" using byte_less [of b] by simp
  then have "unat b * 256 ^ length bs \<le> 255 * 256 ^ length bs" by (rule mult_le_mono1)
  with Cons show ?case unfolding be_value.simps length_Cons power_Suc by linarith
qed simp

lemma shl_byte:
  assumes "i < 8"
  shows "unat (push_bit i a OR drop_bit (8 - i) (b :: byte)) = (unat a * 2 ^ i + unat b div 2 ^ (8 - i)) mod 256"
proof -
  have "push_bit i a AND drop_bit (8 - i) b = 0"
    by (rule bit_word_eqI) (auto simp: bit_simps dest: bit_imp_le_length)
  then have "push_bit i a OR drop_bit (8 - i) b = push_bit i a + drop_bit (8 - i) b"
    by (simp add: disjunctive_add_eq_or)
  then show ?thesis by (simp add: unat_word_ariths byte_push byte_drop mod_simps)
qed

lemma carry:
  assumes "i < 8"
  shows "be_value (b # bs) * 2 ^ i div 256 ^ length (b # bs) = unat b div 2 ^ (8 - i)"
proof -
  have "(256 :: nat) ^ length (b # bs) = 256 ^ length bs * 2 ^ (8 - i) * 2 ^ i"
    using assms by (simp add: power_add [symmetric])
  then have "be_value (b # bs) * 2 ^ i div 256 ^ length (b # bs) = be_value (b # bs) div (256 ^ length bs * 2 ^ (8 - i))"
    by (simp only: div_mult_mult2 power_not_zero zero_neq_numeral not_False_eq_True)
  also have "\<dots> = unat b div 2 ^ (8 - i)" using be_value_less [of bs] by (simp add: div_mult2_eq)
  finally show ?thesis .
qed

lemma mod_split: "(x * M + V) mod (M * 256) = M * ((x + V div M) mod 256) + V mod M" if "0 < M" for M :: nat
  using that by (simp add: mod_mult2_eq)

lemma div_split: "v * 256 + a = (v mod p * 256 + a) + (v div p * 256) * p" for v p a :: nat
proof -
  have "(q * p + r) * 256 + a = (r * 256 + a) + (q * 256) * p" for q r by (simp add: algebra_simps)
  from this [of "v div p" "v mod p"] show ?thesis by simp
qed

lemma be_value_shl: "i < 8 \<Longrightarrow> be_value (shl i bs) = be_value bs * 2 ^ i mod 256 ^ length bs"
proof (induction i bs rule: shl.induct)
  case (2 i a)
  then show ?case by (simp add: byte_push)
next
  case (3 i a b bs)
  let ?V = "be_value (b # bs) * 2 ^ i" and ?M = "256 ^ length (b # bs) :: nat"
  have "be_value (a # b # bs) * 2 ^ i = unat a * 2 ^ i * ?M + ?V" by (simp add: algebra_simps)
  then have "be_value (a # b # bs) * 2 ^ i mod (?M * 256) = ?M * ((unat a * 2 ^ i + ?V div ?M) mod 256) + ?V mod ?M"
    using mod_split [of ?M "unat a * 2 ^ i" ?V] by simp
  also have "\<dots> = be_value (shl i (a # b # bs))"
    using 3 carry [OF 3(2), of b bs] by (simp add: shl_byte del: be_value.simps(2)) (simp add: shl_byte)
  finally show ?case by (simp add: ac_simps)
qed simp

lemma shr_byte:
  assumes "i < 8"
  shows "unat (drop_bit i a OR push_bit (8 - i) (l :: byte)) = ((unat l mod 2 ^ i) * 256 + unat a) div 2 ^ i"
proof -
  have p: "(256 :: nat) = 2 ^ (8 - i) * 2 ^ i" using assms by (simp flip: power_add)
  have "drop_bit i a AND push_bit (8 - i) l = 0"
    by (rule bit_word_eqI) (auto simp: bit_simps dest: bit_imp_le_length)
  then have "drop_bit i a OR push_bit (8 - i) l = drop_bit i a + push_bit (8 - i) l"
    by (simp add: disjunctive_add_eq_or)
  then have "unat (drop_bit i a OR push_bit (8 - i) l) = (unat a div 2 ^ i + unat l * 2 ^ (8 - i)) mod 256"
    by (simp add: unat_word_ariths byte_push byte_drop mod_simps)
  also have "\<dots> = (unat a div 2 ^ i + unat l * 2 ^ (8 - i) mod 256) mod 256" by (simp add: mod_simps)
  also have "unat l * 2 ^ (8 - i) mod 256 = (unat l mod 2 ^ i) * 2 ^ (8 - i)"
    by (subst p) (simp add: mod_mult_mult2 mult.commute [of "2 ^ (8 - i)"] del: p)
  also have "unat a div 2 ^ i + (unat l mod 2 ^ i) * 2 ^ (8 - i) = ((unat l mod 2 ^ i) * 256 + unat a) div 2 ^ i"
    by (subst p) (simp flip: mult.assoc)
  also have "\<dots> mod 256 = \<dots>"
  proof -
    have "unat l mod 2 ^ i < 2 ^ i" "unat a < 256" using byte_less by simp_all
    then have "(unat l mod 2 ^ i) * 256 + unat a < 256 * 2 ^ i" by linarith
    then show ?thesis by (simp add: less_mult_imp_div_less)
  qed
  finally show ?thesis .
qed

lemma be_value_shr: "i < 8 \<Longrightarrow> be_value (shr i None bs) = be_value bs div 2 ^ i"
proof (induction bs rule: rev_induct)
  case (snoc a bs)
  let ?V = "be_value bs" and ?l = "if bs = [] then 0 else last bs"
  have V: "?V mod 2 ^ i = unat ?l mod 2 ^ i"
  proof (cases bs rule: rev_cases)
    case (snoc cs l)
    have "(2 :: nat) ^ i dvd 256" using snoc.prems le_imp_power_dvd [of i 8 2] by simp
    then have "(be_value cs * 256) mod 2 ^ i = 0" by (simp add: dvd_mult)
    then show ?thesis by (simp add: snoc be_value_append mod_add_eq [symmetric])
  qed simp
  have "be_value (bs @ [a]) = (?V mod 2 ^ i * 256 + unat a) + (?V div 2 ^ i * 256) * 2 ^ i"
    using div_split [of ?V "unat a" "2 ^ i"] by (simp add: be_value_append)
  then have "be_value (bs @ [a]) div 2 ^ i = ?V div 2 ^ i * 256 + (?V mod 2 ^ i * 256 + unat a) div 2 ^ i"
    by simp
  also have "\<dots> = be_value (shr i None bs) * 256 + unat (drop_bit i a OR push_bit (8 - i) ?l)"
    using snoc V by (simp add: shr_byte)
  also have "\<dots> = be_value (shr i None (bs @ [a]))" by (simp add: shr_snoc be_value_append)
  finally show ?case by simp
qed simp

lemma be_value_drop: "k \<le> length bs \<Longrightarrow> be_value (drop k bs @ replicate k 0) = be_value bs * 256 ^ k mod 256 ^ length bs"
proof -
  assume k: "k \<le> length bs"
  let ?M = "256 ^ (length bs - k) :: nat"
  have M: "(256 :: nat) ^ length bs = ?M * 256 ^ k" using k by (simp flip: power_add)
  have "be_value bs = be_value (take k bs) * ?M + be_value (drop k bs)"
    using be_value_append [of "take k bs" "drop k bs"] by simp
  then have "be_value bs mod ?M = be_value (drop k bs)" using be_value_less [of "drop k bs"] by simp
  then show ?thesis by (simp add: be_value_append M mod_mult_mult2)
qed

lemma be_value_take: "k \<le> length bs \<Longrightarrow> be_value (take (length bs - k) bs) = be_value bs div 256 ^ k"
  using be_value_append [of "take (length bs - k) bs" "drop (length bs - k) bs"] be_value_less [of "drop (length bs - k) bs"]
  by simp

text \<open>
  The shifts of a digest are shifts of the number that its bytes represent, most significant first: to the left
  modulo the size of the digest, to the right dropping the lowest bits, for every distance and whatever the output array held.
\<close>

lemma digest_shifts:
  assumes "length inp = n" and "length out = n" and "0 < n"
  shows "length (shift_l inp out n i) = n \<and> be_value (shift_l inp out n i) = be_value inp * 2 ^ unat i mod 2 ^ (8 * n) \<and>
    length (shift_r inp out n i) = n \<and> be_value (shift_r inp out n i) = be_value inp div 2 ^ unat i"
proof -
  define k j where "k = unat (i div 8)" and "j = unat (i mod 8)"
  have i: "unat i = 8 * k + j" and j: "j < 8" by (simp_all add: k_def j_def unat_div unat_mod)
  define m where "m = min n k"
  have m: "m \<le> length inp" using assms by (simp add: m_def)
  have p: "(2 :: nat) ^ unat i = 256 ^ k * 2 ^ j" "(2 :: nat) ^ (8 * n) = 256 ^ n" by (simp_all add: i power_add power_mult)
  have l: "be_value (shift_l inp out n i) = be_value inp * 256 ^ m * 2 ^ j mod 256 ^ n"
    using assms m j be_value_drop [OF m] by (simp add: shift_l_eq be_value_shl Let_def m_def k_def j_def mod_simps)
  moreover have "be_value inp * 256 ^ m * 2 ^ j mod 256 ^ n = be_value inp * (256 ^ k * 2 ^ j) mod 256 ^ n"
  proof (cases "k \<le> n")
    case False
    then have "(256 :: nat) ^ n dvd 256 ^ k" by (simp add: le_imp_power_dvd)
    moreover have "m = n" using False by (simp add: m_def)
    ultimately show ?thesis by (simp add: mod_eq_0_iff_dvd dvd_mult dvd_mult2)
  qed (simp add: m_def mult.assoc)
  moreover have "be_value (shift_r inp out n i) = be_value inp div 256 ^ m div 2 ^ j"
    using assms m j be_value_take [OF m]
    by (simp add: shift_r_eq be_value_shr be_value_append Let_def m_def k_def j_def)
  moreover have "be_value inp div 256 ^ m div 2 ^ j = be_value inp div (256 ^ k * 2 ^ j)"
  proof (cases "k \<le> n")
    case False
    then have "be_value inp < 256 ^ k" using be_value_less [of inp] assms(1)
      by (meson less_le_trans nat_le_linear one_le_numeral power_increasing)
    moreover have "be_value inp < 256 ^ m" using False be_value_less [of inp] assms(1) by (simp add: m_def)
    ultimately show ?thesis by (simp add: div_mult2_eq)
  qed (simp add: m_def div_mult2_eq)
  moreover have "length (shift_l inp out n i) = n" "length (shift_r inp out n i) = n"
    using assms by (auto simp: shift_l_eq shift_r_eq Let_def)
  ultimately show ?thesis by (simp only: p)
qed

end
