(* ===== verification/Sha3.thy ===== *)
theory Sha3
  imports Digest
begin

text \<open>
  The hash function of \<^verbatim>\<open>src/crypto/sha3.cpp\<close>: the permutation on 25 words in place, the absorption of bytes and the
  final block. The state is a union of words and bytes; the model keeps the bytes and converts, little-endian.
\<close>

subsection \<open>The permutation\<close>

definition rotl64 :: "u64 \<Rightarrow> nat \<Rightarrow> u64" where
  "rotl64 x y = push_bit y x OR drop_bit (64 - y) x"

definition round_constants :: "u64 list" where
  "round_constants = [
     0x0000000000000001, 0x0000000000008082, 0x800000000000808a, 0x8000000080008000,
     0x000000000000808b, 0x0000000080000001, 0x8000000080008081, 0x8000000000008009,
     0x000000000000008a, 0x0000000000000088, 0x0000000080008009, 0x000000008000000a,
     0x000000008000808b, 0x800000000000008b, 0x8000000000008089, 0x8000000000008003,
     0x8000000000008002, 0x8000000000000080, 0x000000000000800a, 0x800000008000000a,
     0x8000000080008081, 0x8000000000008080, 0x0000000080000001, 0x8000000080008008]"

definition rot_constants :: "nat list" where
  "rot_constants = [1, 3, 6, 10, 15, 21, 28, 36, 45, 55, 2, 14, 27, 41, 56, 8, 25, 43, 62, 18, 39, 61, 20, 44]"

definition pi_lanes :: "nat list" where
  "pi_lanes = [10, 7, 11, 17, 18, 3, 5, 16, 8, 21, 24, 4, 15, 23, 19, 13, 12, 2, 20, 14, 22, 9, 6, 1]"

definition theta :: "u64 list \<Rightarrow> u64 list" where
  "theta words =
     (let bc = map (\<lambda>j. words ! j XOR words ! (j + 5) XOR words ! (j + 10) XOR words ! (j + 15) XOR words ! (j + 20)) [0..<5]
      in foldl (\<lambda>words j.
           let t = bc ! ((j + 4) mod 5) XOR rotl64 (bc ! ((j + 1) mod 5)) 1
           in foldl (\<lambda>words k. words[k + j := words ! (k + j) XOR t]) words [0, 5, 10, 15, 20]) words [0..<5])"

definition rho_pi :: "u64 list \<Rightarrow> u64 list" where
  "rho_pi words =
     snd (foldl (\<lambda>(t, words) j.
            let p = pi_lanes ! j; bc0 = words ! p in (bc0, words[p := rotl64 t (rot_constants ! j)]))
          (words ! 1, words) [0..<24])"

definition chi :: "u64 list \<Rightarrow> u64 list" where
  "chi words =
     foldl (\<lambda>words j.
       let bc = map (\<lambda>k. words ! (k + j)) [0..<5]
       in foldl (\<lambda>words k. words[k + j := words ! (k + j) XOR (NOT (bc ! ((k + 1) mod 5)) AND bc ! ((k + 2) mod 5))]) words [0..<5])
     words [0, 5, 10, 15, 20]"

definition iota :: "nat \<Rightarrow> u64 list \<Rightarrow> u64 list" where
  "iota i words = words[0 := words ! 0 XOR round_constants ! i]"

definition permute :: "u64 list \<Rightarrow> u64 list" where
  "permute words = foldl (\<lambda>words i. iota i (chi (rho_pi (theta words)))) words [0..<24]"

subsection \<open>The sponge\<close>

record sha3_impl =
  sha3_bytes :: bytes
  keccak :: bool
  sha3_point :: nat
  sha3_size :: nat

fun words_of :: "nat \<Rightarrow> bytes \<Rightarrow> u64 list" where
  "words_of 0 bs = []"
| "words_of (Suc n) bs = of_nat (of_le_bytes (take 8 bs)) # words_of n (drop 8 bs)"

definition bytes_of :: "u64 list \<Rightarrow> bytes" where
  "bytes_of ws = concat (map (\<lambda>w. le_bytes 8 (unat w)) ws)"

definition update_step :: "bytes \<Rightarrow> bytes" where
  "update_step bs = bytes_of (permute (words_of 25 bs))"

definition sha3_init :: sha3_impl where
  "sha3_init = \<lparr>sha3_bytes = replicate 200 0, keccak = False, sha3_point = 0, sha3_size = 136\<rparr>"

definition absorb_byte :: "nat \<Rightarrow> bytes \<times> nat \<Rightarrow> byte \<Rightarrow> bytes \<times> nat" where
  "absorb_byte sz = (\<lambda>(bs, j) d.
     let bs = bs[j := bs ! j XOR d]; j = j + 1 in if j \<ge> sz then (update_step bs, 0) else (bs, j))"

definition sha3_update :: "bytes \<Rightarrow> sha3_impl \<Rightarrow> sha3_impl" where
  "sha3_update data c =
     (let (bs, j) = foldl (absorb_byte (sha3_size c)) (sha3_bytes c, sha3_point c) data
      in c\<lparr>sha3_bytes := bs, sha3_point := j\<rparr>)"

definition finalize :: "sha3_impl \<Rightarrow> bytes \<times> sha3_impl" where
  "finalize c =
     (let bs = sha3_bytes c;
          bs = bs[sha3_point c := bs ! sha3_point c XOR (if keccak c then 0x01 else 0x06)];
          bs = bs[sha3_size c - 1 := bs ! (sha3_size c - 1) XOR 0x80];
          bs = update_step bs
      in (take 32 bs, c\<lparr>sha3_bytes := bs\<rparr>))"

text \<open>The encoder: \<^verbatim>\<open>write\<close>, \<^verbatim>\<open>result\<close> and \<^verbatim>\<open>reset\<close>, and the hash of one string.\<close>

definition sha3_write :: "bytes \<Rightarrow> sha3_impl \<Rightarrow> sha3_impl" where
  "sha3_write d c = sha3_update d c"

definition sha3_result :: "bool \<Rightarrow> sha3_impl \<Rightarrow> bytes \<times> sha3_impl" where
  "sha3_result is_nist c = finalize (c\<lparr>keccak := \<not> is_nist\<rparr>)"

definition sha3_reset :: "sha3_impl \<Rightarrow> sha3_impl" where
  "sha3_reset c = sha3_init"

definition sha3_hash :: "bytes \<Rightarrow> bool \<Rightarrow> bytes" where
  "sha3_hash d is_nist = fst (sha3_result is_nist (sha3_write d sha3_init))"

end
