(* ===== verification/Sha3_Correct.thy ===== *)
theory Sha3_Correct
  imports Sha3
begin

text \<open>
  The permutation in place against the step mappings of the standard (FIPS 202) on a state of five by five lanes, with
  the offsets and constants generated as the standard generates them, and the encoder against the sponge construction.
\<close>

subsection \<open>The step mappings of the standard\<close>

type_synonym lanes = "nat \<Rightarrow> nat \<Rightarrow> u64"

definition column :: "lanes \<Rightarrow> nat \<Rightarrow> u64" where
  "column A x = A x 0 XOR A x 1 XOR A x 2 XOR A x 3 XOR A x 4"

definition step_theta :: "lanes \<Rightarrow> lanes" where
  "step_theta A x y = A x y XOR (column A ((x + 4) mod 5) XOR word_rotl 1 (column A ((x + 1) mod 5)))"

text \<open>The walk over the lanes that gives the offsets of \<open>rho\<close>.\<close>

fun walk :: "nat \<Rightarrow> nat \<times> nat" where
  "walk 0 = (1, 0)"
| "walk (Suc t) = (let (x, y) = walk t in (y, (2 * x + 3 * y) mod 5))"

definition rho_offset :: "nat \<Rightarrow> nat \<Rightarrow> nat" where
  "rho_offset x y =
     (case find (\<lambda>t. walk t = (x, y)) [0..<24] of None \<Rightarrow> 0 | Some t \<Rightarrow> (t + 1) * (t + 2) div 2 mod 64)"

definition step_rho :: "lanes \<Rightarrow> lanes" where
  "step_rho A x y = word_rotl (rho_offset x y) (A x y)"

definition step_pi :: "lanes \<Rightarrow> lanes" where
  "step_pi A x y = A ((x + 3 * y) mod 5) x"

definition step_chi :: "lanes \<Rightarrow> lanes" where
  "step_chi A x y = A x y XOR (NOT (A ((x + 1) mod 5) y) AND A ((x + 2) mod 5) y)"

text \<open>The bits of the round constants come from a linear feedback shift register.\<close>

fun lfsr :: "bool list \<Rightarrow> bool list" where
  "lfsr [a, b, c, d, e, f, g, h] = [h, a, b, c, d \<noteq> h, e \<noteq> h, f \<noteq> h, g]"
| "lfsr r = r"

definition rc_bit :: "nat \<Rightarrow> bool" where
  "rc_bit t = hd ((lfsr ^^ (t mod 255)) [True, False, False, False, False, False, False, False])"

definition round_constant :: "nat \<Rightarrow> u64" where
  "round_constant i = foldl (\<lambda>w j. if rc_bit (j + 7 * i) then w OR push_bit (2 ^ j - 1) 1 else w) 0 [0..<7]"

definition step_iota :: "nat \<Rightarrow> lanes \<Rightarrow> lanes" where
  "step_iota i A x y = (if x = 0 \<and> y = 0 then A x y XOR round_constant i else A x y)"

definition keccak_f :: "lanes \<Rightarrow> lanes" where
  "keccak_f A = foldl (\<lambda>A i. step_iota i (step_chi (step_pi (step_rho (step_theta A))))) A [0..<24]"

subsection \<open>The steps in place\<close>

definition array_of :: "lanes \<Rightarrow> u64 list" where
  "array_of A = map (\<lambda>n. A (n mod 5) (n div 5)) [0..<25]"

lemma rotl64_eq: "y < 64 \<Longrightarrow> rotl64 x y = word_rotl y x"
  by (rule bit_word_eqI) (auto simp: rotl64_def bit_simps bit_word_rotl_iff mod_if add.commute [of 64] dest: bit_imp_le_length)

lemma round_constants_eq: "round_constants = map round_constant [0..<24]"
  by code_simp

lemma rho_offset_values:
  "rho_offset 0 0 = 0" "rho_offset 1 0 = 1" "rho_offset 2 0 = 62" "rho_offset 3 0 = 28" "rho_offset 4 0 = 27"
  "rho_offset 0 1 = 36" "rho_offset 1 1 = 44" "rho_offset 2 1 = 6" "rho_offset 3 1 = 55" "rho_offset 4 1 = 20"
  "rho_offset 0 2 = 3" "rho_offset 1 2 = 10" "rho_offset 2 2 = 43" "rho_offset 3 2 = 25" "rho_offset 4 2 = 39"
  "rho_offset 0 3 = 41" "rho_offset 1 3 = 45" "rho_offset 2 3 = 15" "rho_offset 3 3 = 21" "rho_offset 4 3 = 8"
  "rho_offset 0 4 = 18" "rho_offset 1 4 = 2" "rho_offset 2 4 = 61" "rho_offset 3 4 = 56" "rho_offset 4 4 = 14"
  by code_simp+

lemma two: "Suc (Suc 0) = 2"
  by simp

lemma rotl_0: "word_rotl 0 (x :: u64) = x"
  by (rule bit_word_eqI) (simp add: bit_word_rotl_iff)

lemmas explicit = two Let_def upt_rec

lemma array_of_explicit:
  "array_of A = [A 0 0, A 1 0, A 2 0, A 3 0, A 4 0, A 0 1, A 1 1, A 2 1, A 3 1, A 4 1, A 0 2, A 1 2, A 2 2, A 3 2, A 4 2,
     A 0 3, A 1 3, A 2 3, A 3 3, A 4 3, A 0 4, A 1 4, A 2 4, A 3 4, A 4 4]"
  by (simp add: array_of_def explicit)

lemma theta_eq: "theta (array_of A) = array_of (step_theta A)"
  by (simp add: array_of_explicit theta_def step_theta_def column_def rotl64_eq explicit)

lemma rho_pi_eq: "rho_pi (array_of A) = array_of (step_pi (step_rho A))"
  by (simp add: array_of_explicit rho_pi_def step_pi_def step_rho_def rho_offset_values [simplified] pi_lanes_def rot_constants_def rotl64_eq rotl_0 explicit)

lemma chi_eq: "chi (array_of A) = array_of (step_chi A)"
  by (simp add: array_of_explicit chi_def step_chi_def explicit)

lemma iota_eq: "i < 24 \<Longrightarrow> iota i (array_of A) = array_of (step_iota i A)"
  by (simp add: array_of_explicit iota_def step_iota_def round_constants_eq)

lemma permute_eq: "permute (array_of A) = array_of (keccak_f A)"
proof -
  have "set is \<subseteq> {..<24} \<Longrightarrow> foldl (\<lambda>w i. iota i (chi (rho_pi (theta w)))) (array_of A) is =
      array_of (foldl (\<lambda>A i. step_iota i (step_chi (step_pi (step_rho (step_theta A))))) A is)" for "is" A
    by (induction "is" arbitrary: A) (simp_all add: theta_eq rho_pi_eq chi_eq iota_eq)
  from this [of "[0..<24]" A] show ?thesis unfolding permute_def keccak_f_def by (simp add: atLeast_upt lessThan_def subset_iff)
qed

lemma array_of_lanes: "length ws = 25 \<Longrightarrow> array_of (\<lambda>x y. ws ! (x + 5 * y)) = ws"
  by (rule nth_equalityI) (simp_all add: array_of_def)

subsection \<open>The sponge construction\<close>

text \<open>The permutation on the 200 bytes of the state.\<close>

definition keccak_bytes :: "bytes \<Rightarrow> bytes" where
  "keccak_bytes bs = bytes_of (array_of (keccak_f (\<lambda>x y. of_nat (of_le_bytes (take 8 (drop (8 * (x + 5 * y)) bs))))))"

definition xor_into :: "bytes \<Rightarrow> bytes \<Rightarrow> bytes" where
  "xor_into S p = map2 (XOR) (take (length p) S) p @ drop (length p) S"

text \<open>The padding to whole blocks of 136 bytes: the suffix with its first padding bit, zeros, and the last padding bit.\<close>

definition padding :: "byte \<Rightarrow> nat \<Rightarrow> bytes" where
  "padding suffix n =
     (let q = 136 - n mod 136; p = suffix # replicate (q - 1) 0 in p[q - 1 := p ! (q - 1) XOR 0x80])"

function absorb :: "bytes \<Rightarrow> bytes \<Rightarrow> bytes" where
  "absorb S msg = (if msg = [] then S else absorb (keccak_bytes (xor_into S (take 136 msg))) (drop 136 msg))"
  by pat_completeness auto
termination
  by (relation "measure (\<lambda>(S, msg). length msg)") auto

declare absorb.simps [simp del]

definition sponge :: "byte \<Rightarrow> bytes \<Rightarrow> bytes" where
  "sponge suffix msg = take 32 (absorb (replicate 200 0) (msg @ padding suffix (length msg)))"

lemma words_of_nth: "n < k \<Longrightarrow> words_of k bs ! n = of_nat (of_le_bytes (take 8 (drop (8 * n) bs)))"
proof (induction k arbitrary: n bs)
  case (Suc k)
  then show ?case by (cases n) (simp_all add: add.commute)
qed simp

lemma words_of_length [simp]: "length (words_of k bs) = k"
  by (induction k arbitrary: bs) simp_all

lemma update_step_eq: "update_step bs = keccak_bytes bs"
proof -
  have "words_of 25 bs = array_of (\<lambda>x y. of_nat (of_le_bytes (take 8 (drop (8 * (x + 5 * y)) bs))))"
  proof (rule nth_equalityI)
    fix n :: nat
    have "8 * (n mod 5) + 40 * (n div 5) = 8 * n" using mult_div_mod_eq [of 5 n] by linarith
    then show "n < length (words_of 25 bs) \<Longrightarrow> words_of 25 bs ! n =
        array_of (\<lambda>x y. of_nat (of_le_bytes (take 8 (drop (8 * (x + 5 * y)) bs)))) ! n"
      by (simp add: array_of_def words_of_nth)
  qed (simp add: array_of_def)
  then show ?thesis by (simp add: update_step_def keccak_bytes_def permute_eq)
qed

lemma keccak_bytes_length [simp]: "length (keccak_bytes bs) = 200"
proof -
  have "length (bytes_of ws) = 8 * length ws" for ws by (induction ws) (simp_all add: bytes_of_def)
  then show ?thesis by (simp add: keccak_bytes_def array_of_def)
qed

lemma xor_into_length [simp]: "length p \<le> length S \<Longrightarrow> length (xor_into S p) = length S"
  by (simp add: xor_into_def)

lemma xor_into_nil [simp]: "xor_into S [] = S"
  by (simp add: xor_into_def)

lemma xor_into_nth: "length p \<le> length S \<Longrightarrow> i < length S \<Longrightarrow>
    xor_into S p ! i = (if i < length p then S ! i XOR p ! i else S ! i)"
  by (simp add: xor_into_def nth_append)

lemma xor_into_snoc:
  "length p < length S \<Longrightarrow> (xor_into S p)[length p := xor_into S p ! length p XOR d] = xor_into S (p @ [d])"
  by (rule nth_equalityI) (auto simp: xor_into_nth nth_append nth_list_update less_Suc_eq)

lemma absorb_length: "length S = 200 \<Longrightarrow> length (absorb S msg) = 200"
  by (induction S msg rule: absorb.induct) (simp add: absorb.simps)

lemma absorb_nil [simp]: "absorb S [] = S"
  by (simp add: absorb.simps)

lemma absorb_append: "length a mod 136 = 0 \<Longrightarrow> absorb S (a @ b) = absorb (absorb S a) b"
proof (induction S a rule: absorb.induct)
  case (1 S a)
  show ?case
  proof (cases "a = []")
    case False
    then have l: "136 \<le> length a" using 1(2) by (cases "length a < 136") simp_all
    then have "length (drop 136 a) mod 136 = 0" using 1(2) by (simp add: mod_if [of "length a"])
    from 1(1) [OF False this] False l show ?thesis by (simp add: absorb.simps [of S])
  qed simp
qed

lemma absorb_block: "length b = 136 \<Longrightarrow> absorb S b = keccak_bytes (xor_into S b)"
  by (auto simp: absorb.simps [of S])

text \<open>The state of the encoder after any input: the whole blocks are absorbed and the rest is added to the state.\<close>

definition whole :: "bytes \<Rightarrow> nat" where
  "whole msg = length msg div 136 * 136"

lemma whole_facts: "whole msg \<le> length msg" "length (drop (whole msg) msg) = length msg mod 136" "whole msg mod 136 = 0"
  by (simp_all add: whole_def minus_div_mult_eq_mod)

definition encoder_state :: "bytes \<Rightarrow> bytes \<times> nat" where
  "encoder_state msg = (xor_into (absorb (replicate 200 0) (take (whole msg) msg)) (drop (whole msg) msg), length msg mod 136)"

lemma encoder_step: "absorb_byte 136 (encoder_state msg) d = encoder_state (msg @ [d])"
proof -
  let ?S = "absorb (replicate 200 0) (take (whole msg) msg)" and ?r = "drop (whole msg) msg"
  have S: "length ?S = 200" by (rule absorb_length) simp
  have r: "length ?r = length msg mod 136" by (rule whole_facts)
  then have lt: "length ?r < 136" by simp
  have x: "(xor_into ?S ?r)[length ?r := xor_into ?S ?r ! length ?r XOR d] = xor_into ?S (?r @ [d])"
    using S lt by (intro xor_into_snoc) simp
  show ?thesis
  proof (cases "length msg mod 136 = 135")
    case True
    then have "136 dvd Suc (length msg)" by (simp add: dvd_eq_mod_eq_0 mod_Suc)
    then have w: "whole (msg @ [d]) = length msg + 1" "(length msg + 1) mod 136 = 0"
      by (simp_all add: whole_def)
    have "absorb (replicate 200 0) (msg @ [d]) = absorb ?S (?r @ [d])"
      using absorb_append [of "take (whole msg) msg" "replicate 200 0" "?r @ [d]"] whole_facts [of msg]
      by (simp flip: append_assoc)
    also have "\<dots> = keccak_bytes (xor_into ?S (?r @ [d]))" using True r by (intro absorb_block) simp
    finally show ?thesis using True r w x
      by (simp add: encoder_state_def absorb_byte_def update_step_eq Let_def)
  next
    case False
    then have "length msg mod 136 < 135" using mod_less_divisor [of 136 "length msg"] by linarith
    then have w: "(length msg + 1) mod 136 = length msg mod 136 + 1" "whole (msg @ [d]) = whole msg"
      by (simp_all add: whole_def mod_Suc div_Suc)
    then show ?thesis using False r x whole_facts [of msg]
      by (simp add: encoder_state_def absorb_byte_def Let_def)
  qed
qed

lemma encoder_run: "foldl (absorb_byte 136) (encoder_state msg) data = encoder_state (msg @ data)"
proof (induction data arbitrary: msg)
  case (Cons d data)
  from Cons.IH [of "msg @ [d]"] show ?case by (simp add: encoder_step)
qed simp

lemma padding_length: "length (padding suffix n) = 136 - n mod 136"
  by (simp add: padding_def Let_def del: list_update.simps)

text \<open>The two changes of \<^verbatim>\<open>finalize\<close> add the padding to the state.\<close>

lemma finalize_padding:
  fixes S r :: bytes and n :: nat and suffix :: byte
  assumes "length S = 200" and "length r = n mod 136"
  defines "B \<equiv> xor_into S r"
  defines "B1 \<equiv> B[n mod 136 := B ! (n mod 136) XOR suffix]"
  shows "B1[135 := B1 ! 135 XOR 0x80] = xor_into S (r @ padding suffix n)"
proof -
  have r: "length r < 136" "n mod 136 < 136" using assms by simp_all
  define p where "p = padding suffix n"
  have p: "length p = 136 - length r" using padding_length assms by (simp add: p_def)
  have p_nth: "p ! i = (if i = 0 then suffix else 0) XOR (if i = 135 - length r then 0x80 else 0)" if "i < length p" for i
    using that r assms(2) by (auto simp: p_def padding_def Let_def nth_list_update nth_Cons' simp del: list_update.simps)
  have "(r @ p) ! i = (if i < length r then r ! i else 0) XOR (if i = length r then suffix else 0) XOR (if i = 135 then 0x80 else 0)"
    if "i < 136" for i
    using that p p_nth [of "i - length r"] r by (auto simp: nth_append)
  then show ?thesis
    unfolding p_def [symmetric]
    by (intro nth_equalityI)
      (use assms r p in \<open>auto simp: xor_into_nth nth_list_update B1_def B_def xor.assoc\<close>)
qed

lemma encoder_fold:
  assumes "(sha3_bytes c, sha3_point c) = encoder_state msg" and "sha3_size c = 136"
  shows "(sha3_bytes (fold sha3_write chunks c), sha3_point (fold sha3_write chunks c)) = encoder_state (msg @ concat chunks) \<and>
    sha3_size (fold sha3_write chunks c) = 136"
  using assms
proof (induction chunks arbitrary: c msg)
  case (Cons x xs)
  let ?c = "sha3_write x c"
  have "(sha3_bytes ?c, sha3_point ?c) = encoder_state (msg @ x)" "sha3_size ?c = 136"
    using Cons.prems encoder_run [of msg x] by (simp_all add: sha3_write_def sha3_update_def case_prod_beta)
  from Cons.IH [OF this] show ?case by simp
qed simp

lemma result_sponge:
  assumes "(sha3_bytes c, sha3_point c) = encoder_state msg" and "sha3_size c = 136"
  shows "fst (sha3_result is_nist c) = sponge (if is_nist then 0x06 else 0x01) msg"
proof -
  let ?S = "absorb (replicate 200 0) (take (whole msg) msg)" and ?r = "drop (whole msg) msg"
  let ?p = "padding (if is_nist then 0x06 else 0x01) (length msg)"
  have S: "length ?S = 200" by (rule absorb_length) simp
  have c: "sha3_bytes c = xor_into ?S ?r" "sha3_point c = length msg mod 136" using assms(1) by (simp_all add: encoder_state_def)
  have "fst (sha3_result is_nist c) = take 32 (keccak_bytes (xor_into ?S (?r @ ?p)))"
    using finalize_padding [OF S whole_facts(2) [of msg], where suffix = "0x06"]
      finalize_padding [OF S whole_facts(2) [of msg], where suffix = "0x01"] assms(2)
    by (cases is_nist) (simp_all add: sha3_result_def finalize_def c update_step_eq Let_def)
  also have "keccak_bytes (xor_into ?S (?r @ ?p)) = absorb ?S (?r @ ?p)"
    using whole_facts(2) [of msg] padding_length by (intro absorb_block [symmetric]) simp
  also have "\<dots> = absorb (replicate 200 0) (msg @ ?p)"
    using absorb_append [of "take (whole msg) msg" "replicate 200 0" "?r @ ?p"] whole_facts [of msg]
    by (simp flip: append_assoc)
  finally show ?thesis by (simp add: sponge_def)
qed

lemma sha3_encoder:
  "fst (sha3_result is_nist (fold sha3_write chunks (sha3_reset c))) = sponge (if is_nist then 0x06 else 0x01) (concat chunks)"
proof -
  have "(sha3_bytes sha3_init, sha3_point sha3_init) = encoder_state []" "sha3_size sha3_init = 136"
    by (simp_all add: sha3_init_def encoder_state_def whole_def)
  from encoder_fold [OF this, of chunks] show ?thesis unfolding sha3_reset_def by (intro result_sponge) simp_all
qed

lemma sponge_length: "length (sponge suffix d) = 32"
  using absorb_length [of "replicate 200 0" "d @ padding suffix (length d)"] by (simp add: sponge_def)

lemma sha3_hash_sponge: "sha3_hash d is_nist = sponge (if is_nist then 0x06 else 0x01) d"
  using sha3_encoder [of is_nist "[d]" sha3_init] by (simp add: sha3_hash_def sha3_reset_def)

text \<open>
  C9. The hash function is the one of the standard: however the message is cut into pieces for \<^verbatim>\<open>write\<close>, after \<^verbatim>\<open>reset\<close> the
  encoder's result is the sponge construction with the Keccak permutation on the padded message, with the domain suffix
  of SHA3-256 or, on request, of the original Keccak-256; it has 32 bytes.
\<close>

theorem sha3_is_fips202:
  "fst (sha3_result is_nist (fold sha3_write chunks (sha3_reset c))) = sponge (if is_nist then 0x06 else 0x01) (concat chunks) \<and>
   sha3_hash d is_nist = sponge (if is_nist then 0x06 else 0x01) d \<and> length (sha3_hash d is_nist) = 32"
  by (simp add: sha3_encoder sha3_hash_sponge sponge_length)

end
