(* ===== verification/Hmac.thy ===== *)
theory Hmac
  imports Sha3_Correct
begin

text \<open>
  The keyed hash of \<^verbatim>\<open>fc/crypto/hmac.hpp\<close>, a template over a digest class. What it uses of the class is its encoder; the
  classes it is instantiated with take theirs from OpenSSL, so the encoder is an argument and its contract a locale.
\<close>

subsection \<open>The template\<close>

record 'e encoder_ops =
  enc_reset :: "'e \<Rightarrow> 'e"
  enc_write :: "bytes \<Rightarrow> 'e \<Rightarrow> 'e"
  enc_result :: "'e \<Rightarrow> bytes \<times> 'e"

text \<open>\<^verbatim>\<open>H::hash\<close>: a new encoder, of which \<open>e\<close> is the memory, takes the data.\<close>

definition hash_data :: "'e encoder_ops \<Rightarrow> 'e \<Rightarrow> bytes \<Rightarrow> bytes" where
  "hash_data E e d = fst (enc_result E (enc_write E d (enc_reset E e)))"

definition enc_put :: "'e encoder_ops \<Rightarrow> byte \<Rightarrow> 'e \<Rightarrow> 'e" where
  "enc_put E c = enc_write E [c]"

text \<open>A key longer than a block is hashed and the call repeated with the digest; the first argument bounds the calls.\<close>

fun add_key :: "nat \<Rightarrow> 'e encoder_ops \<Rightarrow> nat \<Rightarrow> 'e \<Rightarrow> bytes \<Rightarrow> byte \<Rightarrow> 'e \<Rightarrow> 'e option" where
  "add_key 0 E block fresh c pad e = None"
| "add_key (Suc n) E block fresh c pad e =
     (if length c > block then add_key n E block fresh (hash_data E fresh c) pad e
      else Some (foldl (\<lambda>e i. enc_put E (pad XOR (if i < length c then c ! i else 0)) e) e [0..<block]))"

definition hmac_digest :: "nat \<Rightarrow> 'e encoder_ops \<Rightarrow> nat \<Rightarrow> 'e \<Rightarrow> bytes \<Rightarrow> bytes \<Rightarrow> 'e \<Rightarrow> (bytes \<times> 'e) option" where
  "hmac_digest n E block fresh c d encoder =
     Option.bind (add_key n E block fresh c 0x36 (enc_reset E encoder)) (\<lambda>e.
       let (intermediate, e) = enc_result E (enc_write E d e)
       in Option.bind (add_key n E block fresh c 0x5c (enc_reset E e)) (\<lambda>e.
            Some (enc_result E (enc_write E intermediate e))))"

definition internal_block_size_sha224 :: nat where
  "internal_block_size_sha224 = 64"

definition internal_block_size_sha256 :: nat where
  "internal_block_size_sha256 = 64"

definition internal_block_size_sha512 :: nat where
  "internal_block_size_sha512 = 128"

subsection \<open>The standard\<close>

definition block_key :: "(bytes \<Rightarrow> bytes) \<Rightarrow> nat \<Rightarrow> bytes \<Rightarrow> bytes" where
  "block_key H block K = (let K' = (if length K > block then H K else K) in K' @ replicate (block - length K') 0)"

definition rfc2104 :: "(bytes \<Rightarrow> bytes) \<Rightarrow> nat \<Rightarrow> bytes \<Rightarrow> bytes \<Rightarrow> bytes" where
  "rfc2104 H block K txt =
     H (map ((XOR) 0x5c) (block_key H block K) @ H (map ((XOR) 0x36) (block_key H block K) @ txt))"

subsection \<open>What the template relies on and computes\<close>

locale hash_encoder =
  fixes E :: "'e encoder_ops" and H :: "bytes \<Rightarrow> bytes" and digest_size :: nat
  assumes encoder_digest: "fst (enc_result E (fold (enc_write E) chunks (enc_reset E e))) = H (concat chunks)"
    and digest_length: "length (H m) = digest_size"
begin

lemma hash_data_digest: "hash_data E e d = H d"
  using encoder_digest [of "[d]" e] by (simp add: hash_data_def)

lemma put_bytes:
  "foldl (\<lambda>e i. enc_put E (f i) e) e is = fold (enc_write E) (map (\<lambda>i. [f i]) is) e"
  by (induction "is" arbitrary: e) (simp_all add: enc_put_def)

lemma padded_key:
  "length c \<le> block \<Longrightarrow>
   concat (map (\<lambda>i. [pad XOR (if i < length c then c ! i else 0)]) [0..<block]) = map ((XOR) pad) (c @ replicate (block - length c) 0)"
  by (intro nth_equalityI) (auto simp: concat_map_singleton nth_append)

lemma add_key_writes:
  assumes "digest_size \<le> block"
  shows "\<exists>chunks. add_key 2 E block fresh c pad e = Some (fold (enc_write E) chunks e) \<and>
    concat chunks = map ((XOR) pad) (block_key H block c)"
proof (cases "length c > block")
  case True
  then show ?thesis using assms padded_key [of "H c" block pad]
    by (auto simp: numeral_2_eq_2 hash_data_digest digest_length put_bytes block_key_def Let_def)
next
  case False
  then show ?thesis using padded_key [of c block pad]
    by (auto simp: numeral_2_eq_2 put_bytes block_key_def Let_def)
qed

lemma hmac_value:
  assumes "digest_size \<le> block"
  shows "\<exists>e'. hmac_digest 2 E block fresh c d e = Some (rfc2104 H block c d, e')"
proof -
  have after: "fst (enc_result E (enc_write E m (fold (enc_write E) chunks (enc_reset E e)))) = H (concat chunks @ m)" for m chunks e
    using encoder_digest [of "chunks @ [m]" e] by simp
  obtain ip where ip: "add_key 2 E block fresh c 0x36 (enc_reset E e) = Some (fold (enc_write E) ip (enc_reset E e))"
    "concat ip = map ((XOR) 0x36) (block_key H block c)" using add_key_writes [OF assms] by blast
  obtain i e1 where i: "enc_result E (enc_write E d (fold (enc_write E) ip (enc_reset E e))) = (i, e1)" by fastforce
  then have i': "i = H (map ((XOR) 0x36) (block_key H block c) @ d)" using after [of d ip e] ip(2) by simp
  obtain op where op: "add_key 2 E block fresh c 0x5c (enc_reset E e1) = Some (fold (enc_write E) op (enc_reset E e1))"
    "concat op = map ((XOR) 0x5c) (block_key H block c)" using add_key_writes [OF assms] by blast
  obtain r e2 where r: "enc_result E (enc_write E i (fold (enc_write E) op (enc_reset E e1))) = (r, e2)" by fastforce
  then have "r = rfc2104 H block c d" using after [of i op e1] op(2) i' by (simp add: rfc2104_def)
  with ip(1) i op(1) r show ?thesis by (simp add: hmac_digest_def)
qed

end

text \<open>The encoder of \<^verbatim>\<open>sha3\<close>, which is code of the library, keeps the contract.\<close>

definition sha3_ops :: "sha3_impl encoder_ops" where
  "sha3_ops = \<lparr>enc_reset = sha3_reset, enc_write = sha3_write, enc_result = sha3_result True\<rparr>"

interpretation sha3: hash_encoder sha3_ops "\<lambda>m. sha3_hash m True" 32
  by unfold_locales (simp_all add: sha3_ops_def sha3_encoder sha3_hash_sponge sponge_length)

text \<open>
  C25. Whatever the digest class, as long as its encoder computes a function of the bytes written since the last reset and
  its digest is not longer than a block, \<^verbatim>\<open>hmac::digest\<close> returns the keyed hash of RFC 2104, for keys shorter than a
  block, of a block and longer, and regardless of what the encoder was used for before.
\<close>

theorem hmac_is_rfc2104:
  assumes "hash_encoder E H n" and "n \<le> block"
  shows "\<exists>e'. hmac_digest 2 E block fresh c d e = Some (rfc2104 H block c d, e')"
  using hash_encoder.hmac_value [OF assms] .

theorem hmac_is_rfc2104_witness:
  "\<exists>e'. hmac_digest 2 sha3_ops internal_block_size_sha256 sha3_init [1, 2, 3] [4, 5] sha3_init =
     Some (rfc2104 (\<lambda>m. sha3_hash m True) internal_block_size_sha256 [1, 2, 3] [4, 5], e')"
  by (rule hmac_is_rfc2104 [OF sha3.hash_encoder_axioms]) (simp add: internal_block_size_sha256_def)

end
