(* ===== verification/Hash_Class.thy ===== *)
theory Hash_Class
  imports Digest Variant_Ops
begin

text \<open>
  The digest classes (\<^verbatim>\<open>src/crypto/sha1.cpp\<close>, \<^verbatim>\<open>sha224.cpp\<close>, \<^verbatim>\<open>sha256.cpp\<close>, \<^verbatim>\<open>sha512.cpp\<close>, \<^verbatim>\<open>ripemd160.cpp\<close>, \<^verbatim>\<open>sha3.cpp\<close>) share
  their operations and differ in the number of bytes \<open>n\<close>; a digest is a list of \<open>n\<close> bytes. The hashing itself is
  OpenSSL, but for \<^verbatim>\<open>sha3\<close>. Only \<^verbatim>\<open>sha256\<close> has the approximate logarithm at the end.
\<close>

subsection \<open>Operations\<close>

definition digest_zero :: "nat \<Rightarrow> bytes" where
  "digest_zero n = replicate n 0"

definition digest_from_data :: "nat \<Rightarrow> bytes \<Rightarrow> u64 \<Rightarrow> bytes result" where
  "digest_from_data n data sz =
     (if unat sz \<noteq> n then Inl (Fc_exception unspecified_exception_code)
      else if length data < n then Inl Undefined_behaviour else Inr (take n data))"

text \<open>\<open>stale\<close> is what the memory of the new object holds.\<close>

definition digest_from_hex :: "nat \<Rightarrow> bytes \<Rightarrow> bytes \<Rightarrow> bytes result" where
  "digest_from_hex n stale hex_str =
     and_then (from_hex hex_str stale) (\<lambda>(bytes_written, h).
       Inr (if bytes_written < n then take bytes_written h @ replicate (n - bytes_written) 0 else h))"

definition digest_str :: "nat \<Rightarrow> bytes \<Rightarrow> bytes" where
  "digest_str n h = to_hex h (of_nat n)"

definition digest_shl :: "nat \<Rightarrow> bytes \<Rightarrow> u32 \<Rightarrow> bytes" where
  "digest_shl n h1 i = shift_l h1 (digest_zero n) n i"

definition digest_shr :: "nat \<Rightarrow> bytes \<Rightarrow> u32 \<Rightarrow> bytes" where
  "digest_shr n h1 i = shift_r h1 (digest_zero n) n i"

definition digest_xor :: "bytes \<Rightarrow> bytes \<Rightarrow> bytes" where
  "digest_xor h1 h2 = map2 (XOR) h1 h2"

text \<open>The sign of \<^verbatim>\<open>memcmp\<close>, which compares unsigned bytes.\<close>

fun memcmp :: "bytes \<Rightarrow> bytes \<Rightarrow> int" where
  "memcmp (a # as) (b # bs) = (if a < b then -1 else if b < a then 1 else memcmp as bs)"
| "memcmp _ _ = 0"

definition digest_less :: "bytes \<Rightarrow> bytes \<Rightarrow> bool" where
  "digest_less h1 h2 = (memcmp h1 h2 < 0)"

definition digest_greater :: "bytes \<Rightarrow> bytes \<Rightarrow> bool" where
  "digest_greater h1 h2 = (memcmp h1 h2 > 0)"

definition digest_greater_eq :: "bytes \<Rightarrow> bytes \<Rightarrow> bool" where
  "digest_greater_eq h1 h2 = (memcmp h1 h2 \<ge> 0)"

definition digest_eq :: "bytes \<Rightarrow> bytes \<Rightarrow> bool" where
  "digest_eq h1 h2 = (memcmp h1 h2 = 0)"

definition digest_to_variant :: "bytes \<Rightarrow> variant result" where
  "digest_to_variant bi = to_variant_bytes bi"

definition digest_from_variant :: "nat \<Rightarrow> variant \<Rightarrow> bytes \<Rightarrow> bytes result" where
  "digest_from_variant n v bi =
     and_then (from_variant_bytes v) (\<lambda>ve.
       Inr (if ve \<noteq> [] then let k = min (length ve) n in take k ve @ drop k bi else replicate n 0))"

subsection \<open>What they mean\<close>

lemma memcmp_value:
  "length a = length b \<Longrightarrow>
   memcmp a b = (if be_value a < be_value b then -1 else if be_value b < be_value a then 1 else 0)"
proof (induction a b rule: memcmp.induct)
  case (1 a as b bs)
  let ?M = "256 ^ length bs :: nat"
  have l: "be_value as < ?M" "be_value bs < ?M" using be_value_less [of as] be_value_less [of bs] 1(2) by simp_all
  have step: "x * ?M + u < y * ?M + v" if "x < y" "u < ?M" for x y u v :: nat
  proof -
    have "x * ?M + ?M \<le> y * ?M" using that(1) mult_le_mono1 [of "x + 1" y ?M] by simp
    with that(2) show ?thesis by linarith
  qed
  consider "a < b" | "b < a" | "a = b" by fastforce
  then show ?case
  proof cases
    case 1
    then show ?thesis using step [of "unat a" "unat b" "be_value as" "be_value bs"] l "1.prems" by (simp add: word_less_nat_alt)
  next
    case 2
    then show ?thesis using step [of "unat b" "unat a" "be_value bs" "be_value as"] l "1.prems"
      by (simp add: word_less_nat_alt)
  next
    case 3
    then show ?thesis using "1.IH" "1.prems" by simp
  qed
qed simp_all

lemma be_value_inj: "length a = length b \<Longrightarrow> be_value a = be_value b \<Longrightarrow> a = b"
proof (induction a b rule: list_induct2)
  case (Cons x xs y ys)
  have "be_value xs < 256 ^ length ys" "be_value ys < 256 ^ length ys"
    using be_value_less [of xs] be_value_less [of ys] Cons by simp_all
  moreover have "(unat x * 256 ^ length ys + be_value xs) div 256 ^ length ys = (unat y * 256 ^ length ys + be_value ys) div 256 ^ length ys"
    using Cons by simp
  ultimately have "unat x = unat y" by simp
  with Cons show ?case by (simp add: word_unat_eq_iff)
qed simp

lemma digest_xor_undo: "length a = length b \<Longrightarrow> digest_xor (digest_xor a b) b = a"
  by (rule nth_equalityI) (simp_all add: digest_xor_def xor.assoc)

lemma digest_hex: "length h = n \<Longrightarrow> n < 2 ^ 32 \<Longrightarrow> length stale = n \<Longrightarrow> digest_from_hex n stale (digest_str n h) = Inr h"
  by (simp add: digest_from_hex_def digest_str_def to_hex_def from_hex_def from_hex_pairs unat_of_nat)

text \<open>
  The operations of a digest of \<open>n\<close> bytes: the hexadecimal form reads back, whatever the new object's memory held; so
  does the variant form; the comparisons order digests as the numbers they represent, most significant byte first, and
  equality is equality; shifting is multiplication modulo the size and division by a power of two; exclusive or is its own inverse.
\<close>

lemma digest_operations:
  assumes "length a = n" and "length b = n" and "length stale = n" and "0 < n" and "n \<le> MAX_SIZE_OF_BYTE_ARRAYS"
  shows "digest_from_hex n stale (digest_str n a) = Inr a \<and>
    and_then (digest_to_variant a) (\<lambda>v. digest_from_variant n v stale) = Inr a \<and>
    digest_less a b = (be_value a < be_value b) \<and> digest_greater a b = (be_value a > be_value b) \<and>
    digest_greater_eq a b = (be_value a \<ge> be_value b) \<and> digest_eq a b = (a = b) \<and>
    be_value (digest_shl n a i) = be_value a * 2 ^ unat i mod 2 ^ (8 * n) \<and>
    be_value (digest_shr n a i) = be_value a div 2 ^ unat i \<and>
    digest_xor (digest_xor a b) b = a"
proof -
  have n: "n < 2 ^ 32" using assms(5) by (simp add: MAX_SIZE_OF_BYTE_ARRAYS_def)
  have v: "and_then (digest_to_variant a) (\<lambda>v. digest_from_variant n v stale) = Inr a"
    using from_variant_hex [of a] assms by (auto simp: digest_to_variant_def to_variant_bytes_def digest_from_variant_def)
  have "be_value a = be_value b \<longleftrightarrow> a = b" using be_value_inj [of a b] assms by auto
  with v n assms show ?thesis
    using digest_shifts [of a n "digest_zero n" i] digest_hex [of a n stale] digest_xor_undo [of a b] memcmp_value [of a b]
    by (simp add: digest_less_def digest_greater_def digest_greater_eq_def digest_eq_def digest_shl_def digest_shr_def
        digest_zero_def not_less) auto
qed

subsection \<open>The approximate logarithm of \<^verbatim>\<open>sha256\<close>\<close>

definition char2lzbits :: "nat list" where
  "char2lzbits = [
     8, 7, 6, 6, 5, 5, 5, 5, 4, 4, 4, 4, 4, 4, 4, 4, 3, 3, 3, 3, 3, 3, 3, 3, 3, 3, 3, 3, 3, 3, 3, 3,
     2, 2, 2, 2, 2, 2, 2, 2, 2, 2, 2, 2, 2, 2, 2, 2, 2, 2, 2, 2, 2, 2, 2, 2, 2, 2, 2, 2, 2, 2, 2, 2,
     1, 1, 1, 1, 1, 1, 1, 1, 1, 1, 1, 1, 1, 1, 1, 1, 1, 1, 1, 1, 1, 1, 1, 1, 1, 1, 1, 1, 1, 1, 1, 1,
     1, 1, 1, 1, 1, 1, 1, 1, 1, 1, 1, 1, 1, 1, 1, 1, 1, 1, 1, 1, 1, 1, 1, 1, 1, 1, 1, 1, 1, 1, 1, 1,
     0, 0, 0, 0, 0, 0, 0, 0, 0, 0, 0, 0, 0, 0, 0, 0, 0, 0, 0, 0, 0, 0, 0, 0, 0, 0, 0, 0, 0, 0, 0, 0,
     0, 0, 0, 0, 0, 0, 0, 0, 0, 0, 0, 0, 0, 0, 0, 0, 0, 0, 0, 0, 0, 0, 0, 0, 0, 0, 0, 0, 0, 0, 0, 0,
     0, 0, 0, 0, 0, 0, 0, 0, 0, 0, 0, 0, 0, 0, 0, 0, 0, 0, 0, 0, 0, 0, 0, 0, 0, 0, 0, 0, 0, 0, 0, 0,
     0, 0, 0, 0, 0, 0, 0, 0, 0, 0, 0, 0, 0, 0, 0, 0, 0, 0, 0, 0, 0, 0, 0, 0, 0, 0, 0, 0, 0, 0, 0, 0]"

text \<open>The bytes from position \<open>i\<close> on; the digest has at least one.\<close>

fun clz_loop :: "bytes \<Rightarrow> nat \<Rightarrow> nat" where
  "clz_loop [] lzbits = 0x100"
| "clz_loop (c # cs) lzbits =
     (let lzbits = lzbits + char2lzbits ! unat c in if c \<noteq> 0 then lzbits else clz_loop cs lzbits)"

definition clz :: "bytes \<Rightarrow> u16" where
  "clz h = of_nat (clz_loop h 0)"

definition approx_log_32 :: "bytes \<Rightarrow> u32" where
  "approx_log_32 h =
     (let lzbits = clz h
      in if lzbits \<ge> 0x100 then 0
         else
           let nzbits = (0xff - ucast lzbits :: byte);
               offset = unat (drop_bit 3 lzbits);
               n = 32;
               y = push_bit 0x18 (ucast (h ! offset))
                   OR push_bit 0x10 (if offset + 1 < n then ucast (h ! (offset + 1)) else 0)
                   OR push_bit 0x08 (if offset + 2 < n then ucast (h ! (offset + 2)) else 0)
                   OR (if offset + 3 < n then ucast (h ! (offset + 3)) else 0);
               y = drop_bit (unat (nzbits AND 7)) y;
               y = y XOR push_bit 0x18 1
           in y OR push_bit 0x18 (ucast nzbits))"

definition set_to_inverse_approx_log_32 :: "u32 \<Rightarrow> bytes" where
  "set_to_inverse_approx_log_32 x =
     (let nzbits = (ucast (drop_bit 0x18 x) :: byte); h = replicate 32 0
      in if nzbits = 0 then h
         else
           let x0 = ucast (x AND 0xff); x1 = ucast (drop_bit 0x08 x AND 0xff); x2 = ucast (drop_bit 0x10 x AND 0xff);
               h = h[0x1f := x0, 0x1e := x1, 0x1d := x2, 0x1c := 1]
           in if nzbits \<le> 0x18 then digest_shr 32 h (0x18 - ucast nzbits) else digest_shl 32 h (ucast nzbits - 0x18))"

lemma char2lzbits_runs:
  "char2lzbits = [8, 7] @ replicate 2 6 @ replicate 4 5 @ replicate 8 4 @ replicate 16 3 @ replicate 32 2 @
     replicate 64 1 @ replicate 128 0"
  by code_simp

lemma char2lzbits_log:
  assumes "c < 256" and "c \<noteq> 0"
  shows "char2lzbits ! c \<le> 7 \<and> 2 ^ (7 - char2lzbits ! c) \<le> c \<and> c < 2 ^ Suc (7 - char2lzbits ! c)"
proof -
  consider "c = 1" | "2 \<le> c" "c < 4" | "4 \<le> c" "c < 8" | "8 \<le> c" "c < 16" | "16 \<le> c" "c < 32" | "32 \<le> c" "c < 64"
    | "64 \<le> c" "c < 128" | "128 \<le> c" using assms by linarith
  then show ?thesis unfolding char2lzbits_runs using assms(1) by cases (simp_all add: nth_append less_diff_conv2)
qed

lemma char2lzbits_0: "char2lzbits ! 0 = 8"
  by (simp add: char2lzbits_def)

text \<open>Leading zeros of a number that is not zero: the position of its highest bit.\<close>

lemma clz_loop_value:
  assumes "be_value h \<noteq> 0"
  shows "\<exists>j k. clz_loop h lz = lz + 8 * j + (7 - k mod 8) \<and> j < length h \<and> take j h = replicate j 0 \<and>
    k div 8 + j + 1 = length h \<and> 2 ^ k \<le> be_value h \<and> be_value h < 2 ^ (k + 1)"
  using assms
proof (induction h arbitrary: lz)
  case (Cons c cs)
  let ?M = "256 ^ length cs :: nat"
  show ?case
  proof (cases "c = 0")
    case True
    then have "be_value cs \<noteq> 0" using Cons.prems by simp
    from Cons.IH [OF this, of "lz + 8"] obtain j k where
      "clz_loop cs (lz + 8) = lz + 8 + 8 * j + (7 - k mod 8)" "j < length cs" "take j cs = replicate j 0"
      "k div 8 + j + 1 = length cs" "2 ^ k \<le> be_value cs" "be_value cs < 2 ^ (k + 1)" by blast
    then show ?thesis using True
      by (intro exI [of _ "Suc j"] exI [of _ k]) (simp add: char2lzbits_0)
  next
    case False
    define t where "t = char2lzbits ! unat c"
    define r where "r = 7 - t"
    have t: "t = 7 - r" "r < 8" "2 ^ r \<le> unat c" "unat c < 2 ^ (r + 1)"
      using char2lzbits_log [of "unat c"] byte_less [of c] False by (simp_all add: t_def r_def unat_eq_0 Suc_diff_le flip: power_Suc)
    let ?k = "8 * length cs + r"
    have M: "?M = 2 ^ (8 * length cs)" by (simp add: power_mult)
    have "2 ^ ?k \<le> unat c * ?M" unfolding M using t(3) by (simp add: power_add mult.commute)
    moreover have "be_value (c # cs) < 2 ^ (?k + 1)"
    proof -
      have "unat c * ?M + ?M \<le> 2 ^ (r + 1) * ?M" using t(4) mult_le_mono1 [of "unat c + 1" "2 ^ (r + 1)" ?M] by simp
      also have "\<dots> = 2 ^ (?k + 1)" unfolding M by (simp add: power_add)
      finally show ?thesis using be_value_less [of cs] by simp
    qed
    moreover have "?k mod 8 = r" "?k div 8 = length cs" using t(2) by simp_all
    ultimately show ?thesis using False t(1,2)
      by (intro exI [of _ 0] exI [of _ ?k]) (simp add: t_def)
  qed
qed simp

end
