(* ===== verification/Approx_Log.thy ===== *)
theory Approx_Log
  imports Hash_Class
begin

text \<open>The approximate logarithm of \<^verbatim>\<open>sha256\<close> and its inverse, as functions of the number that the digest represents.\<close>

subsection \<open>Words from bytes\<close>

lemma word_of_bytes:
  "unat (push_bit 24 (ucast a) OR push_bit 16 (ucast b) OR push_bit 8 (ucast c) OR ucast d :: u32) = be_value [a, b, c, d]"
proof -
  let ?a = "push_bit 24 (ucast a) :: u32" and ?b = "push_bit 16 (ucast b) :: u32" and ?c = "push_bit 8 (ucast c) :: u32"
    and ?d = "ucast d :: u32"
  have "?c OR ?d = ?c + ?d" "?b OR (?c OR ?d) = ?b + (?c OR ?d)" "?a OR (?b OR (?c OR ?d)) = ?a + (?b OR (?c OR ?d))"
    by (subst disjunctive_add_eq_or, rule bit_word_eqI, auto simp: bit_simps dest: bit_imp_le_length)+
  moreover have "of_nat (unat x) = (ucast x :: u32)" for x :: byte by simp
  ultimately have "?a OR ?b OR ?c OR ?d = of_nat (be_value [a, b, c, d])"
    by (simp add: push_bit_eq_mult algebra_simps)
  moreover have "be_value [a, b, c, d] < 2 ^ 32" using be_value_less [of "[a, b, c, d]"] by simp
  ultimately show ?thesis by (simp only: unat_of_nat take_bit_nat_eq_self_iff)
    (simp add: take_bit_nat_eq_self unat_of_nat)
qed

lemma unat_small: "n < 2 ^ 32 \<Longrightarrow> unat (of_nat n :: u32) = n"
  by (simp add: unat_of_nat)

lemma below_bit: "f < 2 ^ m \<Longrightarrow> bit (of_nat f :: u32) n \<Longrightarrow> n < m"
proof -
  assume "f < 2 ^ m"
  then have "(of_nat f :: u32) = take_bit m (of_nat f)"
    by (simp add: take_bit_nat_eq_self flip: of_nat_take_bit)
  then show "bit (of_nat f :: u32) n \<Longrightarrow> n < m" by (metis bit_take_bit_iff)
qed

text \<open>Replacing the leading one of \<open>2 ^ 24 + f\<close> by \<open>k\<close> in the high byte.\<close>

lemma high_byte:
  assumes "f < 2 ^ 24" and "k < 256" and "unat y = 2 ^ 24 + f"
  shows "unat ((y XOR push_bit 24 1) OR push_bit 24 (ucast (of_nat k :: byte) :: u32)) = k * 2 ^ 24 + f"
proof -
  define F P K :: u32 where "F = of_nat f" and "P = push_bit 24 1" and "K = push_bit 24 (ucast (of_nat k :: byte))"
  have F: "bit F n \<Longrightarrow> n < 24" for n using below_bit [OF assms(1)] by (simp only: F_def)
  have P: "bit P n \<Longrightarrow> 24 \<le> n" and K: "bit K n \<Longrightarrow> 24 \<le> n" for n unfolding P_def K_def bit_push_bit_iff by simp_all
  have FP: "P AND F = 0" "K AND F = 0"
    by (rule bit_word_eqI; use F P K in \<open>fastforce simp: bit_and_iff\<close>)+
  have "y = of_nat (unat y)" by simp
  then have "y = of_nat (2 ^ 24 + f)" by (simp only: assms(3))
  then have "y = P + F" by (simp add: P_def F_def push_bit_eq_mult)
  also have "\<dots> = P XOR F" using FP(1) by (rule disjunctive_add_eq_xor)
  finally have "y XOR P = F" by (simp add: xor.commute xor.left_commute)
  moreover have "F OR K = K + F" using FP(2) by (simp add: disjunctive_add_eq_or or.commute)
  moreover have "K = of_nat (k * 2 ^ 24)" using assms(2) by (simp add: K_def push_bit_eq_mult ucast_unat_eq unat_of_nat)
  ultimately have "(y XOR P) OR K = of_nat (k * 2 ^ 24 + f)" by (simp add: F_def)
  moreover have "k * 2 ^ 24 + f < 2 ^ 32" using assms(1,2) by simp
  ultimately show ?thesis unfolding P_def K_def by (simp only: unat_small)
qed

subsection \<open>The logarithm\<close>

lemma clz_value:
  assumes "length h = 32" and "2 ^ k \<le> be_value h" and "be_value h < 2 ^ (k + 1)"
  shows "clz_loop h 0 = 255 - k \<and> k \<le> 255 \<and> take (31 - k div 8) h = replicate (31 - k div 8) 0"
proof -
  have "be_value h \<noteq> 0" using assms(2) by (metis not_less_zero order.strict_iff_not power_le_zero_eq le_zero_eq zero_less_numeral zero_less_power not_le)
  from clz_loop_value [OF this, of 0] obtain j k' where c: "clz_loop h 0 = 8 * j + (7 - k' mod 8)" "j < length h"
    "take j h = replicate j 0" "k' div 8 + j + 1 = length h" "2 ^ k' \<le> be_value h" "be_value h < 2 ^ (k' + 1)" by auto
  have "(2 :: nat) ^ k < 2 ^ (k' + 1)" "(2 :: nat) ^ k' < 2 ^ (k + 1)" using c(5,6) assms(2,3) by linarith+
  then have "k < k' + 1" "k' < k + 1" by (simp_all add: power_strict_increasing_iff del: power_Suc)
  then have k: "k' = k" by simp
  have j: "j = 31 - k div 8" "k div 8 \<le> 31" using c(4) assms(1) by (simp_all add: k)
  have "8 * (k div 8) + k mod 8 = k" "k mod 8 < 8" by simp_all
  with j have "8 * j + (7 - k mod 8) = 255 - k" "k \<le> 255" by linarith+
  with c(1,3) show ?thesis by (simp add: k j(1))
qed

lemma first_word:
  assumes "length h = 32" and "j < 32" and "take j h = replicate j 0"
  shows "be_value (take 4 (drop j (h @ [0, 0, 0]))) = be_value h * 2 ^ 24 div 256 ^ (31 - j)"
proof -
  let ?g = "h @ [0, 0, 0]"
  define u w where "u = take 4 (drop j ?g)" and "w = drop 4 (drop j ?g)"
  have "?g = take j ?g @ u @ w" by (simp only: u_def w_def append_take_drop_id)
  moreover have "take j ?g = replicate j 0" using assms by simp
  ultimately have "be_value ?g = be_value (replicate j 0 @ u @ w)" by metis
  moreover have "be_value ?g = be_value h * 2 ^ 24" by (simp add: be_value_append)
  moreover have "length w = 31 - j" using assms by (simp add: w_def)
  ultimately show ?thesis using be_value_less [of w] unfolding u_def [symmetric] by (simp add: be_value_append)
qed

lemma approx_value:
  assumes "length h = 32" and "2 ^ k \<le> be_value h" and "be_value h < 2 ^ (k + 1)"
  shows "unat (approx_log_32 h) = k * 2 ^ 24 + (be_value h * 2 ^ 24 div 2 ^ k - 2 ^ 24)"
proof -
  define j where "j = 31 - k div 8"
  have l: "clz_loop h 0 = 255 - k" "k \<le> 255" "take j h = replicate j 0" using clz_value [OF assms] by (simp_all add: j_def)
  have kd: "k div 8 \<le> 31" using l(2) by simp
  have clz: "clz h = of_nat (255 - k)" by (simp add: clz_def l(1))
  have "255 - k < 2 ^ 16" by simp
  then have lz: "unat (clz h) = 255 - k" unfolding clz by (simp add: unat_of_nat)
  have "(255 :: nat) - k < 256" by simp
  then have nle: "\<not> 0x100 \<le> clz h" unfolding word_le_nat_alt lz by simp
  have off: "unat (drop_bit 3 (clz h)) = j"
  proof -
    have "8 * (k div 8) + k mod 8 = k" "k mod 8 < 8" by simp_all
    then have "255 - k = (7 - k mod 8) + 8 * j" using kd unfolding j_def by linarith
    then have "(255 - k) div 8 = j" by simp
    then show ?thesis by (simp add: unat_drop_bit_eq drop_bit_eq_div [where 'a = nat] lz)
  qed
  have "(ucast (clz h) :: byte) = of_nat (255 - k)" by (rule ucast_unat_eq [OF lz])
  then have nz: "(0xff - ucast (clz h) :: byte) = of_nat k" using l(2) by (simp add: of_nat_diff)
  have n7: "unat ((of_nat k :: byte) AND 7) = k mod 8"
  proof -
    have "(of_nat k :: byte) AND 7 = take_bit 3 (of_nat k)" by (simp add: take_bit_eq_mask mask_eq_exp_minus_1)
    then show ?thesis using l(2) by (simp add: unsigned_take_bit_eq unat_of_nat take_bit_eq_mod [where 'a = nat] mod_mod_cancel)
  qed
  define g where "g = h @ [0, 0, 0]"
  have j: "j < 32" by (simp add: j_def)
  have d: "drop i g = g ! i # drop (Suc i) g" if "i < 35" for i 
    using Cons_nth_drop_Suc [of i g] that assms(1) by (simp add: g_def del: drop_append)
  have g: "take 4 (drop j g) = [g ! j, g ! (j + 1), g ! (j + 2), g ! (j + 3)]"
    using j d [of j] d [of "Suc j"] d [of "Suc (Suc j)"] d [of "Suc (Suc (Suc j))"] by (simp add: numeral_eq_Suc)
  have g_nth: "(if i < 32 then ucast (h ! i) else 0) = (ucast (g ! i) :: u32)" if "i < 35" for i
    using that assms(1) by (auto simp: g_def nth_append nth_Cons')
  define Y :: u32 where "Y = push_bit 24 (ucast (g ! j)) OR push_bit 16 (ucast (g ! (j + 1))) OR push_bit 8 (ucast (g ! (j + 2))) OR ucast (g ! (j + 3))"
  have "unat Y = be_value h * 2 ^ 24 div 256 ^ (31 - j)"
    using first_word [OF assms(1) _ l(3)] g j unfolding Y_def word_of_bytes by (simp add: g_def)
  moreover have "31 - j = k div 8" using kd by (simp add: j_def)
  ultimately have "unat (drop_bit (k mod 8) Y) = be_value h * 2 ^ 24 div (256 ^ (k div 8) * 2 ^ (k mod 8))"
    by (simp add: unat_drop_bit_eq drop_bit_eq_div [where 'a = nat] div_mult2_eq)
  also have "(256 :: nat) ^ (k div 8) * 2 ^ (k mod 8) = 2 ^ (8 * (k div 8) + k mod 8)"
    unfolding power_add power_mult by simp
  finally have y: "unat (drop_bit (k mod 8) Y) = be_value h * 2 ^ 24 div 2 ^ k" by simp
  have m: "2 ^ 24 \<le> be_value h * 2 ^ 24 div 2 ^ k" "be_value h * 2 ^ 24 div 2 ^ k < 2 ^ 25"
    using assms(2,3) by (simp_all add: less_eq_div_iff_mult_less_eq div_less_iff_less_mult)
  have "approx_log_32 h = (drop_bit (k mod 8) Y XOR push_bit 24 1) OR push_bit 24 (ucast (of_nat k :: byte))"
    using lz g_nth [of j] g_nth [of "j + 1"] g_nth [of "j + 2"] g_nth [of "j + 3"]
    unfolding approx_log_32_def Let_def nz off n7 Y_def using j nle by simp
  then show ?thesis using high_byte [of "be_value h * 2 ^ 24 div 2 ^ k - 2 ^ 24" k "drop_bit (k mod 8) Y"] m y l(2) by simp
qed

subsection \<open>The inverse\<close>

lemma low_bytes:
  fixes x :: u32
  assumes "unat x = k * 2 ^ 24 + f" and "f < 2 ^ 24" and "k < 256"
  shows "unat (ucast (drop_bit 24 x) :: byte) = k"
    and "be_value [1, ucast (drop_bit 16 x AND 0xff), ucast (drop_bit 8 x AND 0xff), ucast (x AND 0xff)] = 2 ^ 24 + f"
proof -
  show "unat (ucast (drop_bit 24 x) :: byte) = k"
    using assms by (simp add: unat_ucast_mod unat_drop_bit_eq drop_bit_eq_div [where 'a = nat])
  have b: "unat (ucast (y AND 0xff) :: byte) = unat y mod 256" for y :: u32
  proof -
    have "y AND 0xff = take_bit 8 y" by (simp add: take_bit_eq_mask mask_eq_exp_minus_1)
    then show ?thesis by (simp add: unat_ucast_mod unsigned_take_bit_eq take_bit_eq_mod [where 'a = nat])
  qed
  have "unat x div 65536 mod 256 * 65536 + unat x div 256 mod 256 * 256 + unat x mod 256 = unat x mod 2 ^ 24"
    using mod_mult2_eq [of "unat x" 256 65536] mod_mult2_eq [of "unat x div 256" 256 256] by (simp add: div_mult2_eq [symmetric])
  also have "unat x mod 2 ^ 24 = f" using assms by simp
  finally show "be_value [1, ucast (drop_bit 16 x AND 0xff), ucast (drop_bit 8 x AND 0xff), ucast (x AND 0xff)] = 2 ^ 24 + f"
    unfolding be_value.simps b by (simp add: unat_drop_bit_eq drop_bit_eq_div [where 'a = nat])
qed

lemma inverse_value:
  fixes x :: u32
  assumes "unat x = k * 2 ^ 24 + f" and "f < 2 ^ 24" and "0 < k" and "k < 256"
  shows "be_value (set_to_inverse_approx_log_32 x) = (2 ^ 24 + f) * 2 ^ k div 2 ^ 24"
proof -
  define nz where "nz = (ucast (drop_bit 24 x) :: byte)"
  define h :: bytes where "h = replicate 28 0 @ [1, ucast (drop_bit 16 x AND 0xff), ucast (drop_bit 8 x AND 0xff), ucast (x AND 0xff)]"
  have nz: "unat nz = k" unfolding nz_def using assms(1,2,4) by (rule low_bytes)
  have h: "be_value h = 2 ^ 24 + f" "length h = 32"
    using low_bytes(2) [OF assms(1,2,4)] by (simp_all add: h_def be_value_append del: be_value.simps)
  have upd: "(replicate 32 0)[0x1f := a, 0x1e := b, 0x1d := c, 0x1c := d] = replicate 28 0 @ [d, c, b, a]" for a b c d :: byte
    by (simp add: numeral_eq_Suc)
  have z: "nz \<noteq> 0" using nz assms(3) by auto
  have "set_to_inverse_approx_log_32 x = (if nz \<le> 0x18 then digest_shr 32 h (0x18 - ucast nz) else digest_shl 32 h (ucast nz - 0x18))"
    using z unfolding set_to_inverse_approx_log_32_def nz_def [symmetric] Let_def upd h_def by simp
  moreover have u: "unat (ucast nz :: u32) = k" using assms(4) by (simp add: unat_ucast_mod nz)
  moreover have "be_value (digest_shr 32 h i) = be_value h div 2 ^ unat i" "be_value (digest_shl 32 h i) = be_value h * 2 ^ unat i mod 2 ^ 256" for i
    using digest_shifts [of h 32 "digest_zero 32" i] h(2) by (simp_all add: digest_shr_def digest_shl_def digest_zero_def)
  ultimately have v: "be_value (set_to_inverse_approx_log_32 x) =
      (if k \<le> 24 then (2 ^ 24 + f) div 2 ^ (24 - k) else (2 ^ 24 + f) * 2 ^ (k - 24) mod 2 ^ 256)"
    using u by (simp add: h(1) word_le_nat_alt nz unat_sub_if')
  show ?thesis
  proof (cases "k \<le> 24")
    case True
    then have "24 = (24 - k) + k" by simp
    then have "(2 :: nat) ^ 24 = 2 ^ (24 - k) * 2 ^ k" by (metis power_add)
    then have "(2 ^ 24 + f) * 2 ^ k div 2 ^ 24 = (2 ^ 24 + f) div 2 ^ (24 - k)" by (metis div_mult_mult2 power_not_zero zero_neq_numeral)
    with True v show ?thesis by simp
  next
    case False
    then have "k = (k - 24) + 24" by simp
    then have p: "(2 :: nat) ^ k = 2 ^ (k - 24) * 2 ^ 24" by (metis power_add)
    have "(2 ^ 24 + f) * 2 ^ (k - 24) < 2 ^ 25 * 2 ^ (k - 24)" using assms(2) by simp
    also have "\<dots> \<le> (2 :: nat) ^ 256" using assms(4) False
      unfolding power_add [symmetric] by (intro power_increasing) simp_all
    finally have "(2 ^ 24 + f) * 2 ^ (k - 24) mod 2 ^ 256 = (2 ^ 24 + f) * 2 ^ (k - 24)" by (rule mod_less)
    with False v show ?thesis unfolding p by simp
  qed
qed

text \<open>
  The approximate logarithm: for a digest that represents a number \<open>V\<close> whose highest bit is \<open>k\<close>, the high byte of
  \<^verbatim>\<open>approx_log_32\<close> is \<open>k\<close> and the low 24 bits are the bits of \<open>V\<close> that follow; zero gives zero. For \<open>k\<close> of at
  least 1, \<^verbatim>\<open>set_to_inverse_approx_log_32\<close> of it is at most \<open>V\<close> and off by less than one part in \<open>2 ^ 24\<close>. The number 1
  gives zero like the number 0, so there the inverse is 0.
\<close>

lemma approx_log_32_correct:
  assumes "length h = 32" and "2 ^ k \<le> be_value h" and "be_value h < 2 ^ (k + 1)"
  shows "unat (approx_log_32 h) = k * 2 ^ 24 + (be_value h * 2 ^ 24 div 2 ^ k - 2 ^ 24) \<and>
    (0 < k \<longrightarrow> be_value (set_to_inverse_approx_log_32 (approx_log_32 h)) \<le> be_value h \<and>
      (be_value h - be_value (set_to_inverse_approx_log_32 (approx_log_32 h))) * 2 ^ 24 < 2 ^ k) \<and>
    (k = 0 \<longrightarrow> approx_log_32 h = 0 \<and> be_value (set_to_inverse_approx_log_32 (approx_log_32 h)) = 0) \<and>
    approx_log_32 (replicate 32 0) = 0"
proof -
  let ?V = "be_value h" and ?a = "approx_log_32 h"
  define m where "m = ?V * 2 ^ 24 div 2 ^ k"
  have a: "unat ?a = k * 2 ^ 24 + (m - 2 ^ 24)" unfolding m_def by (rule approx_value [OF assms])
  have k: "k < 256" using clz_value [OF assms] by simp
  have m: "2 ^ 24 \<le> m" "m < 2 ^ 25" unfolding m_def
    using assms(2,3) by (simp_all add: less_eq_div_iff_mult_less_eq div_less_iff_less_mult)
  have "be_value (set_to_inverse_approx_log_32 ?a) \<le> ?V \<and> (?V - be_value (set_to_inverse_approx_log_32 ?a)) * 2 ^ 24 < 2 ^ k" if "0 < k"
  proof -
    have i: "be_value (set_to_inverse_approx_log_32 ?a) = m * 2 ^ k div 2 ^ 24"
      using inverse_value [OF a _ that k] m by simp
    have lo: "m * 2 ^ k \<le> ?V * 2 ^ 24" unfolding m_def by (simp add: div_times_less_eq_dividend)
    have "?V * 2 ^ 24 mod 2 ^ k < 2 ^ k" by simp
    then have hi: "?V * 2 ^ 24 < m * 2 ^ k + 2 ^ k" unfolding m_def using div_mult_mod_eq [of "?V * 2 ^ 24" "2 ^ k"] by linarith
    show ?thesis
    proof (cases "k \<le> 24")
      case True
      then have "(2 :: nat) ^ k dvd ?V * 2 ^ 24" by (intro dvd_mult le_imp_power_dvd)
      then have "m * 2 ^ k = ?V * 2 ^ 24" unfolding m_def by (rule dvd_div_mult_self)
      then show ?thesis unfolding i by simp
    next
      case False
      then have "(2 :: nat) ^ 24 dvd m * 2 ^ k" by (intro dvd_mult le_imp_power_dvd) simp
      then have e: "m * 2 ^ k div 2 ^ 24 * 2 ^ 24 = m * 2 ^ k" by (rule dvd_div_mult_self)
      then have "m * 2 ^ k div 2 ^ 24 \<le> ?V" using lo by (metis mult_le_cancel2 zero_less_numeral zero_less_power)
      then show ?thesis unfolding i diff_mult_distrib e using hi lo by linarith
    qed
  qed
  moreover have "approx_log_32 (replicate 32 0) = 0" by code_simp
  moreover have "approx_log_32 h = 0 \<and> be_value (set_to_inverse_approx_log_32 (approx_log_32 h)) = 0" if "k = 0"
  proof -
    have "unat ?a = 0" using a assms that by (simp add: m_def)
    then have "?a = 0" by (simp add: unat_eq_0)
    then show ?thesis by (simp add: set_to_inverse_approx_log_32_def)
  qed
  ultimately show ?thesis using a m_def by blast
qed

end
