(* ===== verification/Positional.thy ===== *)
theory Positional
  imports Digest
begin

text \<open>
  Numbers written in a base \<open>b\<close>, most significant digit first and without leading zeros: what the text encodings of
  big numbers compute, stated without bytes and without characters.
\<close>

function digits :: "nat \<Rightarrow> nat \<Rightarrow> nat list" where
  "digits b n = (if b < 2 \<or> n = 0 then [] else digits b (n div b) @ [n mod b])"
  by auto
termination by (relation "measure snd") (auto intro: div_less_dividend)

declare digits.simps [simp del]

fun horner :: "nat \<Rightarrow> nat \<Rightarrow> nat list \<Rightarrow> nat" where
  "horner b a [] = a"
| "horner b a (d # ds) = horner b (a * b + d) ds"

lemma digits_zero [simp]: "digits b 0 = []"
  by (simp add: digits.simps)

lemma digits_step: "2 \<le> b \<Longrightarrow> 0 < n \<Longrightarrow> digits b n = digits b (n div b) @ [n mod b]"
  by (subst digits.simps) simp

lemma digits_less: "2 \<le> b \<Longrightarrow> d \<in> set (digits b n) \<Longrightarrow> d < b"
proof (induction b n rule: digits.induct)
  case (1 b n)
  then show ?case by (cases "n = 0") (auto simp: digits_step)
qed

lemma digits_nil_iff [simp]: "2 \<le> b \<Longrightarrow> digits b n = [] \<longleftrightarrow> n = 0"
  by (cases "n = 0") (simp_all add: digits_step)

lemma digits_hd: "2 \<le> b \<Longrightarrow> 0 < n \<Longrightarrow> hd (digits b n) \<noteq> 0"
proof (induction b n rule: digits.induct)
  case (1 b n)
  show ?case
  proof (cases "n < b")
    case True
    with 1 show ?thesis by (simp add: digits_step)
  next
    case False
    then have "0 < n div b" using 1 by (simp add: div_greater_zero_iff)
    with 1 show ?thesis using digits_step [of b n] by simp
  qed
qed

lemma horner_append [simp]: "horner b a (ds @ es) = horner b (horner b a ds) es"
  by (induction b a ds rule: horner.induct) simp_all

lemma horner_digits: "2 \<le> b \<Longrightarrow> horner b 0 (digits b n) = n"
proof (induction b n rule: digits.induct)
  case (1 b n)
  then show ?case by (cases "n = 0") (simp_all add: digits_step)
qed

lemma digits_horner:
  assumes "2 \<le> b" and "\<forall>d \<in> set ds. d < b" and "0 < a"
  shows "digits b (horner b a ds) = digits b a @ ds"
  using assms(2,3)
proof (induction ds arbitrary: a)
  case (Cons d ds)
  then have "digits b (a * b + d) = digits b a @ [d]" using assms(1) by (simp add: digits_step)
  with Cons assms(1) show ?case by simp
qed simp

text \<open>Writing what was read drops the leading zeros and nothing else.\<close>

lemma digits_of_horner:
  assumes "2 \<le> b" and "\<forall>d \<in> set ds. d < b"
  shows "digits b (horner b 0 ds) = dropWhile (\<lambda>d. d = 0) ds"
  using assms(2)
proof (induction ds)
  case (Cons d ds)
  show ?case
  proof (cases "d = 0")
    case False
    then have "digits b d = [d]" using Cons assms(1) by (simp add: digits_step)
    with False show ?thesis using digits_horner [OF assms(1), of ds d] Cons by simp
  qed (use Cons in simp)
qed simp

lemma takeWhile_digits: "2 \<le> b \<Longrightarrow> takeWhile (\<lambda>d. d = 0) (replicate k 0 @ digits b n) = replicate k 0"
proof (induction k)
  case 0
  then show ?case using digits_hd [of b n] by (cases "digits b n") (cases "n = 0"; auto)+
qed simp

lemma length_digits: "2 \<le> b \<Longrightarrow> n < b ^ k \<Longrightarrow> length (digits b n) \<le> k"
proof (induction k arbitrary: n)
  case (Suc k)
  then have "n div b < b ^ k" by (simp add: less_mult_imp_div_less mult.commute)
  with Suc show ?case by (cases "n = 0") (simp_all add: digits_step)
qed simp

lemma horner_bound: "2 \<le> b \<Longrightarrow> \<forall>d \<in> set ds. d < b \<Longrightarrow> horner b a ds < (a + 1) * b ^ length ds"
proof (induction ds arbitrary: a)
  case (Cons d ds)
  then have "horner b a (d # ds) < (a * b + d + 1) * b ^ length ds" by simp
  also have "\<dots> \<le> ((a + 1) * b) * b ^ length ds" using Cons.prems by (intro mult_right_mono) auto
  finally show ?case by (simp add: algebra_simps)
qed simp

lemma length_digits_iff: "2 \<le> b \<Longrightarrow> length (digits b n) \<le> k \<longleftrightarrow> n < b ^ k"
proof
  assume b: "2 \<le> b" and l: "length (digits b n) \<le> k"
  have "n < b ^ length (digits b n)"
    using horner_bound [of b "digits b n" 0] digits_less [OF b] b by (simp add: horner_digits)
  also have "\<dots> \<le> b ^ k" using l b by (intro power_increasing) auto
  finally show "n < b ^ k" .
qed (rule length_digits)

text \<open>Bytes are digits in base 256.\<close>

lemma be_value_horner: "horner 256 a (map unat bs) = a * 256 ^ length bs + be_value bs"
  by (induction bs arbitrary: a) (simp_all add: algebra_simps)

definition nat_bytes :: "nat \<Rightarrow> bytes" where
  "nat_bytes n = map of_nat (digits 256 n)"

lemma unat_nat_bytes: "map unat (nat_bytes n) = digits 256 n"
  unfolding nat_bytes_def map_map
  by (rule map_idI) (simp add: unat_of_nat_byte digits_less)

lemma be_value_nat_bytes [simp]: "be_value (nat_bytes n) = n"
  using be_value_horner [of 0 "nat_bytes n"] by (simp add: unat_nat_bytes horner_digits)

lemma nat_bytes_be_value: "nat_bytes (be_value bs) = dropWhile (\<lambda>b. b = 0) bs"
proof -
  have "digits 256 (be_value bs) = dropWhile (\<lambda>d. d = 0) (map unat bs)"
    using digits_of_horner [of 256 "map unat bs"] be_value_horner [of 0 bs] by (simp add: unat_byte_lt)
  also have "\<dots> = map unat (dropWhile (\<lambda>b. b = 0) bs)"
    by (simp add: dropWhile_map comp_def unsigned_eq_0_iff)
  finally show ?thesis by (simp add: nat_bytes_def comp_def)
qed

lemma be_value_rev_le: "be_value (rev bs) = of_le_bytes bs"
  by (induction bs) (simp_all add: be_value_append)

lemma nat_bytes_zero [simp]: "nat_bytes 0 = []"
  by (simp add: nat_bytes_def)

lemma nat_bytes_nil_iff [simp]: "nat_bytes n = [] \<longleftrightarrow> n = 0"
  by (simp add: nat_bytes_def)

lemma length_nat_bytes: "n < 256 ^ k \<Longrightarrow> length (nat_bytes n) \<le> k"
  by (simp add: nat_bytes_def length_digits)

subsection \<open>Bytes as numbers in another base\<close>

text \<open>Leading zeros, which a number does not have, become leading zeros of the other side.\<close>

definition lead_digits :: "nat \<Rightarrow> bytes \<Rightarrow> nat list" where
  "lead_digits b d = map (\<lambda>_. 0) (takeWhile (\<lambda>x. x = 0) d) @ digits b (be_value d)"

definition lead_bytes :: "nat \<Rightarrow> nat list \<Rightarrow> bytes" where
  "lead_bytes b ds = map (\<lambda>_. 0) (takeWhile (\<lambda>d. d = 0) ds) @ nat_bytes (horner b 0 ds)"

lemma lead_digits_less: "2 \<le> b \<Longrightarrow> e \<in> set (lead_digits b d) \<Longrightarrow> e < b"
  using digits_less [of b] by (auto simp: lead_digits_def)

lemma lead_bytes_digits:
  assumes "2 \<le> b"
  shows "lead_bytes b (lead_digits b d) = d"
proof -
  let ?k = "length (takeWhile (\<lambda>b. b = 0) d)"
  have z: "horner b 0 (replicate k 0) = 0" for k by (induction k) simp_all
  have "map (\<lambda>_. 0) (takeWhile (\<lambda>b. b = 0) d) = takeWhile (\<lambda>b. b = 0) d"
    by (rule map_idI) (auto dest: set_takeWhileD)
  moreover have "map (\<lambda>_. 0 :: byte) (takeWhile (\<lambda>b. b = 0) d) = replicate ?k 0" by (simp add: map_replicate_const)
  ultimately have "d = replicate ?k 0 @ nat_bytes (be_value d)"
    using takeWhile_dropWhile_id [of "\<lambda>b. b = 0" d] by (simp add: nat_bytes_be_value)
  then show ?thesis using assms
    by (simp add: lead_bytes_def lead_digits_def map_replicate_const takeWhile_digits z horner_digits)
qed

lemma lead_digits_bytes:
  assumes "2 \<le> b" and "\<forall>d \<in> set ds. d < b"
  shows "lead_digits b (lead_bytes b ds) = ds"
proof -
  let ?k = "length (takeWhile (\<lambda>d. d = 0) ds)"
  have tw: "takeWhile (\<lambda>b. b = 0) (lead_bytes b ds) = replicate ?k 0"
  proof -
    have "takeWhile (\<lambda>b. b = 0) (nat_bytes (horner b 0 ds)) = []"
      using nat_bytes_be_value [of "nat_bytes (horner b 0 ds)"]
      by (metis append_self_conv2 be_value_nat_bytes takeWhile_dropWhile_id)
    then show ?thesis by (simp add: lead_bytes_def map_replicate_const takeWhile_append)
  qed
  have v: "be_value (lead_bytes b ds) = horner b 0 ds" by (simp add: lead_bytes_def map_replicate_const be_value_append)
  have "takeWhile (\<lambda>d. d = 0) ds = replicate ?k 0" by (rule replicate_eqI) (auto dest: set_takeWhileD)
  then have "ds = replicate ?k 0 @ dropWhile (\<lambda>d. d = 0) ds"
    using takeWhile_dropWhile_id [of "\<lambda>d. d = 0" ds] by metis
  then show ?thesis
    using digits_of_horner [of b ds] assms by (simp add: lead_digits_def tw v map_replicate_const)
qed

lemma length_nat_bytes_horner:
  assumes "2 \<le> b" and "b \<le> 256" and "\<forall>d \<in> set ds. d < b"
  shows "length (nat_bytes (horner b 0 ds)) \<le> length ds"
proof -
  have "horner b 0 ds < b ^ length ds" using horner_bound [of b ds 0] assms by simp
  also have "\<dots> \<le> 256 ^ length ds" using assms(2) by (rule power_mono) simp
  finally show ?thesis by (rule length_nat_bytes)
qed

lemma length_lead_bytes:
  assumes "2 \<le> b" and "b \<le> 256" and "\<forall>d \<in> set ds. d < b"
  shows "length (lead_bytes b ds) \<le> length ds"
proof -
  have "horner b 0 ds = horner b 0 (dropWhile (\<lambda>d. d = 0) ds)" by (induction ds) simp_all
  then have "length (nat_bytes (horner b 0 ds)) \<le> length (dropWhile (\<lambda>d. d = 0) ds)"
    using length_nat_bytes_horner [of b "dropWhile (\<lambda>d. d = 0) ds"] assms by (auto dest: set_dropWhileD)
  moreover have "length ds = length (takeWhile (\<lambda>d. d = 0) ds) + length (dropWhile (\<lambda>d. d = 0) ds)"
    by (metis length_append takeWhile_dropWhile_id)
  ultimately show ?thesis by (simp add: lead_bytes_def)
qed

end
