(* ===== verification/Bignum.thy ===== *)
theory Bignum
  imports Positional Decimal
begin

text \<open>
  OpenSSL's big numbers as an interface, and \<^verbatim>\<open>CBigNum\<close>, the class of \<^verbatim>\<open>src/crypto/base58.cpp\<close> that wraps them. The
  record \<open>bignum_lib\<close> has the functions of \<^verbatim>\<open>openssl/bn.h\<close> that the repository calls; where the library reports a failure,
  the result is \<open>None\<close>. A function that stores into its first argument returns the new value. The locale
  \<open>bignum\<close> is what the library's manual promises of them: \<open>val\<close> is the number an object stands for.
\<close>

record 'bn bignum_lib =
  bn_new :: 'bn
  bn_ctx_new :: bool
  bn_copy :: "'bn \<Rightarrow> 'bn option"
  bn_set_word :: "u64 \<Rightarrow> 'bn option"
  bn_get_word :: "'bn \<Rightarrow> u64"
  bn_is_negative :: "'bn \<Rightarrow> bool"
  bn_is_zero :: "'bn \<Rightarrow> bool"
  bn_set_negative :: "'bn \<Rightarrow> bool \<Rightarrow> 'bn"
  bn_cmp :: "'bn \<Rightarrow> 'bn \<Rightarrow> int"
  bn_add :: "'bn \<Rightarrow> 'bn \<Rightarrow> 'bn option"
  bn_sub :: "'bn \<Rightarrow> 'bn \<Rightarrow> 'bn option"
  bn_mul :: "'bn \<Rightarrow> 'bn \<Rightarrow> 'bn option"
  bn_div :: "'bn \<Rightarrow> 'bn \<Rightarrow> ('bn \<times> 'bn) option"
  bn_exp :: "'bn \<Rightarrow> 'bn \<Rightarrow> 'bn option"
  bn_lshift :: "'bn \<Rightarrow> nat \<Rightarrow> 'bn option"
  bn_rshift :: "'bn \<Rightarrow> nat \<Rightarrow> 'bn option"
  bn_mpi2bn :: "bytes \<Rightarrow> 'bn option"
  bn_bn2mpi :: "'bn \<Rightarrow> bytes"
  bn_bin2bn :: "bytes \<Rightarrow> 'bn option"
  bn_bn2bin :: "'bn \<Rightarrow> bytes"
  bn_num_bits :: "'bn \<Rightarrow> nat"
  bn_bn2dec :: "'bn \<Rightarrow> bytes option"

text \<open>The big-endian image of a 32-bit number.\<close>

definition be32 :: "u32 \<Rightarrow> bytes" where
  "be32 n = [ucast (drop_bit 24 n AND 0xff), ucast (drop_bit 16 n AND 0xff), ucast (drop_bit 8 n AND 0xff), ucast (n AND 0xff)]"

text \<open>
  The numbers of the format \<^verbatim>\<open>mpi\<close> after its length: the highest bit is the sign, and a magnitude whose own highest bit is
  set has a zero in front.
\<close>

fun mpi_value :: "bytes \<Rightarrow> int" where
  "mpi_value [] = 0"
| "mpi_value (b # bs) =
     (if b AND 0x80 = 0 then int (be_value (b # bs)) else - int (be_value ((b AND 0x7f) # bs)))"

fun mpi_signed :: "bool \<Rightarrow> bytes \<Rightarrow> bytes" where
  "mpi_signed neg [] = []"
| "mpi_signed neg (b # bs) =
     (if b AND 0x80 \<noteq> 0 then (if neg then 0x80 else 0) # b # bs else (if neg then b OR 0x80 else b) # bs)"

definition mpi_bytes :: "int \<Rightarrow> bytes" where
  "mpi_bytes v = mpi_signed (v < 0) (nat_bytes (nat \<bar>v\<bar>))"

definition num_bits :: "nat \<Rightarrow> nat" where
  "num_bits n = length (digits 2 n)"

locale bignum =
  fixes lib :: "'bn bignum_lib" and val :: "'bn \<Rightarrow> int"
  assumes new [simp]: "val (bn_new lib) = 0"
    and ctx [simp]: "bn_ctx_new lib"
    and copy: "map_option val (bn_copy lib a) = Some (val a)"
    and set_word: "map_option val (bn_set_word lib w) = Some (uint w)"
    and get_word: "bn_get_word lib a = (if \<bar>val a\<bar> < 2 ^ 64 then of_int \<bar>val a\<bar> else - 1)"
    and is_negative [simp]: "bn_is_negative lib a \<longleftrightarrow> val a < 0"
    and is_zero [simp]: "bn_is_zero lib a \<longleftrightarrow> val a = 0"
    and set_negative [simp]: "val (bn_set_negative lib a neg) = (if neg then - \<bar>val a\<bar> else \<bar>val a\<bar>)"
    and cmp: "sgn (bn_cmp lib a b) = sgn (val a - val b)"
    and add: "map_option val (bn_add lib a b) = Some (val a + val b)"
    and sub: "map_option val (bn_sub lib a b) = Some (val a - val b)"
    and mul: "map_option val (bn_mul lib a b) = Some (val a * val b)"
    and division: "val b \<noteq> 0 \<Longrightarrow> map_option (map_prod val val) (bn_div lib a b) = Some (tdiv (val a) (val b), trem (val a) (val b))"
    and division_zero: "val b = 0 \<Longrightarrow> bn_div lib a b = None"
    and exp: "0 \<le> val b \<Longrightarrow> map_option val (bn_exp lib a b) = Some (val a ^ nat (val b))"
    and lshift: "map_option val (bn_lshift lib a k) = Some (val a * 2 ^ k)"
    and rshift: "map_option val (bn_rshift lib a k) = Some (tdiv (val a) (2 ^ k))"
    and mpi2bn: "length p < 2 ^ 31 \<Longrightarrow> map_option val (bn_mpi2bn lib (be32 (of_nat (length p)) @ p)) = Some (mpi_value p)"
    and bn2mpi: "length (mpi_bytes (val a)) < 2 ^ 31 \<Longrightarrow>
          bn_bn2mpi lib a = be32 (of_nat (length (mpi_bytes (val a)))) @ mpi_bytes (val a)"
    and bin2bn: "length p < 2 ^ 31 \<Longrightarrow> map_option val (bn_bin2bn lib p) = Some (int (be_value p))"
    and bn2bin: "bn_bn2bin lib a = nat_bytes (nat \<bar>val a\<bar>)"
    and num_bits: "bn_num_bits lib a = num_bits (nat \<bar>val a\<bar>)"
    and bn2dec: "bn_bn2dec lib a = Some (dec_int (val a))"

subsection \<open>The class \<^verbatim>\<open>CBigNum\<close>\<close>

abbreviation Bignum_error :: fc_error where
  "Bignum_error \<equiv> Std_runtime_error"

text \<open>What the class does with a failure of the library.\<close>

definition bn_check :: "'a option \<Rightarrow> 'a result" where
  "bn_check r = (case r of None \<Rightarrow> Inl Bignum_error | Some b \<Rightarrow> Inr b)"

definition auto_bn_ctx :: "'bn bignum_lib \<Rightarrow> unit result" where
  "auto_bn_ctx lib = (if bn_ctx_new lib then Inr () else Inl Bignum_error)"

definition cbn_copy :: "'bn bignum_lib \<Rightarrow> 'bn \<Rightarrow> 'bn result" where
  "cbn_copy lib b = bn_check (bn_copy lib b)"

definition setulong :: "'bn bignum_lib \<Rightarrow> u64 \<Rightarrow> 'bn result" where
  "setulong lib n = bn_check (bn_set_word lib n)"

definition getulong :: "'bn bignum_lib \<Rightarrow> 'bn \<Rightarrow> u64" where
  "getulong lib b = bn_get_word lib b"

definition getuint :: "'bn bignum_lib \<Rightarrow> 'bn \<Rightarrow> u32" where
  "getuint lib b = ucast (bn_get_word lib b)"

definition int_max :: u64 where
  "int_max = 0x7fffffff"

definition getint :: "'bn bignum_lib \<Rightarrow> 'bn \<Rightarrow> u32" where
  "getint lib b =
     (let n = bn_get_word lib b
      in if \<not> bn_is_negative lib b then (if n > int_max then 0x7fffffff else ucast n)
         else (if n > int_max then 0x80000000 else - ucast n))"

text \<open>
  The loops of \<^verbatim>\<open>setint64\<close> and \<^verbatim>\<open>setuint64\<close>, with \<open>i\<close> rounds left; \<open>out\<close> is what was stored after the four bytes of the
  size. The shifts of the signed number are those of two's complement.
\<close>

fun setint64_loop :: "bool \<Rightarrow> nat \<Rightarrow> u64 \<Rightarrow> bool \<Rightarrow> bytes \<Rightarrow> bytes" where
  "setint64_loop fNegative 0 n fLeadingZeroes out = out"
| "setint64_loop fNegative (Suc i) n fLeadingZeroes out =
     (let c = ucast (drop_bit 56 n AND 0xff) :: byte; n = push_bit 8 n
      in if fLeadingZeroes
         then if c = 0 then setint64_loop fNegative i n True out
              else if c AND 0x80 \<noteq> 0
              then setint64_loop fNegative i n False (out @ [if fNegative then 0x80 else 0, c])
              else setint64_loop fNegative i n False (out @ [if fNegative then c OR 0x80 else c])
         else setint64_loop fNegative i n False (out @ [c]))"

fun setuint64_loop :: "nat \<Rightarrow> u64 \<Rightarrow> bool \<Rightarrow> bytes \<Rightarrow> bytes" where
  "setuint64_loop 0 n fLeadingZeroes out = out"
| "setuint64_loop (Suc i) n fLeadingZeroes out =
     (let c = ucast (drop_bit 56 n AND 0xff) :: byte; n = push_bit 8 n
      in if fLeadingZeroes
         then if c = 0 then setuint64_loop i n True out
              else if c AND 0x80 \<noteq> 0 then setuint64_loop i n False (out @ [0, c])
              else setuint64_loop i n False (out @ [c])
         else setuint64_loop i n False (out @ [c]))"

text \<open>A number that \<^verbatim>\<open>BN_mpi2bn\<close> does not accept leaves the object as it was.\<close>

definition set_mpi :: "'bn bignum_lib \<Rightarrow> bytes \<Rightarrow> 'bn \<Rightarrow> 'bn" where
  "set_mpi lib p bn = (case bn_mpi2bn lib (be32 (of_nat (length p)) @ p) of None \<Rightarrow> bn | Some b \<Rightarrow> b)"

definition setint64 :: "'bn bignum_lib \<Rightarrow> u64 \<Rightarrow> 'bn \<Rightarrow> 'bn result" where
  "setint64 lib n bn =
     (let fNegative = sint n < 0
      in if n = 0x8000000000000000 then Inl Undefined_behaviour
         else Inr (set_mpi lib (setint64_loop fNegative 8 (if fNegative then - n else n) True []) bn))"

definition setuint64 :: "'bn bignum_lib \<Rightarrow> u64 \<Rightarrow> 'bn \<Rightarrow> 'bn" where
  "setuint64 lib n bn = set_mpi lib (setuint64_loop 8 n True []) bn"

definition setvch :: "'bn bignum_lib \<Rightarrow> bytes \<Rightarrow> 'bn \<Rightarrow> 'bn" where
  "setvch lib vch bn = set_mpi lib (rev vch) bn"

definition getvch :: "'bn bignum_lib \<Rightarrow> 'bn \<Rightarrow> bytes" where
  "getvch lib bn = (let vch = bn_bn2mpi lib bn in if length vch \<le> 4 then [] else rev (drop 4 vch))"

definition SetCompact :: "'bn bignum_lib \<Rightarrow> u32 \<Rightarrow> 'bn \<Rightarrow> 'bn" where
  "SetCompact lib nCompact bn =
     (let nSize = unat (drop_bit 24 nCompact);
          m = [ucast (drop_bit 16 nCompact AND 0xff), ucast (drop_bit 8 nCompact AND 0xff), ucast (nCompact AND 0xff)]
      in case bn_mpi2bn lib ([0, 0, 0, of_nat nSize] @ take nSize m @ replicate (nSize - 3) 0) of None \<Rightarrow> bn | Some b \<Rightarrow> b)"

definition GetCompact :: "'bn bignum_lib \<Rightarrow> 'bn \<Rightarrow> u32" where
  "GetCompact lib bn =
     (let vch = bn_bn2mpi lib bn; nSize = length vch - 4
      in push_bit 24 (of_nat nSize)
         OR (if nSize \<ge> 1 then push_bit 16 (ucast (vch ! 4)) else 0)
         OR (if nSize \<ge> 2 then push_bit 8 (ucast (vch ! 5)) else 0)
         OR (if nSize \<ge> 3 then ucast (vch ! 6) else 0))"

definition cbn_of_int64 :: "'bn bignum_lib \<Rightarrow> u64 \<Rightarrow> 'bn result" where
  "cbn_of_int64 lib n = setint64 lib n (bn_new lib)"

definition cbn_of_uint64 :: "'bn bignum_lib \<Rightarrow> u64 \<Rightarrow> 'bn" where
  "cbn_of_uint64 lib n = setuint64 lib n (bn_new lib)"

text \<open>The constructor from \<^verbatim>\<open>int\<close>; those from \<^verbatim>\<open>short\<close> and \<^verbatim>\<open>signed char\<close> have the same body.\<close>

definition cbn_of_int :: "'bn bignum_lib \<Rightarrow> u32 \<Rightarrow> 'bn result" where
  "cbn_of_int lib n = (if 0 \<le> sint n then setulong lib (ucast n) else setint64 lib (scast n) (bn_new lib))"

subsection \<open>Text\<close>

text \<open>Subscripting a string literal; the terminating zero belongs to it.\<close>

definition literal_at :: "bytes \<Rightarrow> nat \<Rightarrow> byte result" where
  "literal_at s i = (if i < length s then Inr (s ! i) else if i = length s then Inr 0 else Inl Undefined_behaviour)"

definition isspace :: "byte \<Rightarrow> bool" where
  "isspace c \<longleftrightarrow> c = 0x20 \<or> 0x09 \<le> c \<and> c \<le> 0x0d"

definition isxdigit :: "byte \<Rightarrow> bool" where
  "isxdigit c \<longleftrightarrow> 0x30 \<le> c \<and> c \<le> 0x39 \<or> 0x41 \<le> c \<and> c \<le> 0x46 \<or> 0x61 \<le> c \<and> c \<le> 0x66"

text \<open>The table \<^verbatim>\<open>phexdigit\<close>.\<close>

definition phexdigit :: "byte \<Rightarrow> nat" where
  "phexdigit c =
     (if 0x30 \<le> c \<and> c \<le> 0x39 then unat c - 0x30
      else if 0x41 \<le> c \<and> c \<le> 0x46 then unat c - 0x41 + 10
      else if 0x61 \<le> c \<and> c \<le> 0x66 then unat c - 0x61 + 10 else 0)"

subsection \<open>Operators\<close>

definition cbn_not :: "'bn bignum_lib \<Rightarrow> 'bn \<Rightarrow> bool" where
  "cbn_not lib a \<longleftrightarrow> bn_is_zero lib a"

definition cbn_add :: "'bn bignum_lib \<Rightarrow> 'bn \<Rightarrow> 'bn \<Rightarrow> 'bn result" where
  "cbn_add lib a b = bn_check (bn_add lib a b)"

definition cbn_sub :: "'bn bignum_lib \<Rightarrow> 'bn \<Rightarrow> 'bn \<Rightarrow> 'bn result" where
  "cbn_sub lib a b = bn_check (bn_sub lib a b)"

definition cbn_mul :: "'bn bignum_lib \<Rightarrow> 'bn \<Rightarrow> 'bn \<Rightarrow> 'bn result" where
  "cbn_mul lib a b = and_then (auto_bn_ctx lib) (\<lambda>_. bn_check (bn_mul lib a b))"

definition cbn_div :: "'bn bignum_lib \<Rightarrow> 'bn \<Rightarrow> 'bn \<Rightarrow> 'bn result" where
  "cbn_div lib a b = and_then (auto_bn_ctx lib) (\<lambda>_. bn_check (map_option fst (bn_div lib a b)))"

definition cbn_mod :: "'bn bignum_lib \<Rightarrow> 'bn \<Rightarrow> 'bn \<Rightarrow> 'bn result" where
  "cbn_mod lib a b = and_then (auto_bn_ctx lib) (\<lambda>_. bn_check (map_option snd (bn_div lib a b)))"

definition cbn_shl :: "'bn bignum_lib \<Rightarrow> 'bn \<Rightarrow> nat \<Rightarrow> 'bn result" where
  "cbn_shl lib a shift = bn_check (bn_lshift lib a shift)"

definition cbn_shr :: "'bn bignum_lib \<Rightarrow> 'bn \<Rightarrow> nat \<Rightarrow> 'bn result" where
  "cbn_shr lib b shift =
     and_then (cbn_of_int lib 1) (\<lambda>a.
       and_then (cbn_shl lib a shift) (\<lambda>a.
         if bn_cmp lib a b > 0 then and_then (cbn_of_int lib 0) (cbn_copy lib)
         else bn_check (bn_rshift lib b shift)))"

definition cbn_neg :: "'bn bignum_lib \<Rightarrow> 'bn \<Rightarrow> 'bn result" where
  "cbn_neg lib a = and_then (cbn_copy lib a) (\<lambda>r. Inr (bn_set_negative lib r (\<not> bn_is_negative lib r)))"

text \<open>\<^verbatim>\<open>++\<close> adds the library's constant one, which is the number the constructor makes of 1.\<close>

definition cbn_inc :: "'bn bignum_lib \<Rightarrow> 'bn \<Rightarrow> 'bn result" where
  "cbn_inc lib a = and_then (setulong lib 1) (cbn_add lib a)"

definition cbn_dec :: "'bn bignum_lib \<Rightarrow> 'bn \<Rightarrow> 'bn result" where
  "cbn_dec lib a = and_then (and_then (setulong lib 1) (cbn_sub lib a)) (cbn_copy lib)"

definition cbn_less :: "'bn bignum_lib \<Rightarrow> 'bn \<Rightarrow> 'bn \<Rightarrow> bool" where
  "cbn_less lib a b \<longleftrightarrow> bn_cmp lib a b < 0"

definition cbn_eq :: "'bn bignum_lib \<Rightarrow> 'bn \<Rightarrow> 'bn \<Rightarrow> bool" where
  "cbn_eq lib a b \<longleftrightarrow> bn_cmp lib a b = 0"

definition cbn_greater :: "'bn bignum_lib \<Rightarrow> 'bn \<Rightarrow> 'bn \<Rightarrow> bool" where
  "cbn_greater lib a b \<longleftrightarrow> bn_cmp lib a b > 0"

subsection \<open>Hexadecimal text of big numbers\<close>

fun set_hex_loop :: "'bn bignum_lib \<Rightarrow> bytes \<Rightarrow> 'bn \<Rightarrow> 'bn result" where
  "set_hex_loop lib [] b = Inr b"
| "set_hex_loop lib (c # cs) b =
     (if isxdigit c
      then and_then (cbn_shl lib b 4) (\<lambda>b.
             and_then (cbn_of_int lib (of_nat (phexdigit c))) (\<lambda>n.
               and_then (cbn_add lib b n) (set_hex_loop lib cs)))
      else Inr b)"

definition SetHex :: "'bn bignum_lib \<Rightarrow> bytes \<Rightarrow> 'bn result" where
  "SetHex lib str =
     (let psz = dropWhile isspace (c_str str);
          fNegative = (psz \<noteq> [] \<and> hd psz = 0x2d);
          psz = (if fNegative then tl psz else psz);
          psz = (if take 1 psz = [0x30] \<and> (take 1 (tl psz) = [0x78] \<or> take 1 (tl psz) = [0x58]) then drop 2 psz else psz);
          psz = dropWhile isspace psz
      in and_then (and_then (cbn_of_int lib 0) (cbn_copy lib)) (\<lambda>b.
           and_then (set_hex_loop lib psz b) (\<lambda>b.
             Inr (if fNegative then bn_set_negative lib b True else b))))"

partial_function (option) to_string_loop ::
  "'bn bignum_lib \<Rightarrow> 'bn \<Rightarrow> 'bn \<Rightarrow> 'bn \<Rightarrow> bytes \<Rightarrow> bytes result option" where
  "to_string_loop lib bnBase bn0 b str =
     (if bn_cmp lib b bn0 > 0
      then case bn_div lib b bnBase of
             None \<Rightarrow> Some (Inl Bignum_error)
           | Some (dv, rem) \<Rightarrow>
               (case cbn_copy lib dv of
                  Inl e \<Rightarrow> Some (Inl e)
                | Inr b \<Rightarrow>
                    (case literal_at (ascii ''0123456789abcdef'') (unat (ucast (getulong lib rem) :: u32)) of
                       Inl e \<Rightarrow> Some (Inl e)
                     | Inr c \<Rightarrow> to_string_loop lib bnBase bn0 b (str @ [c])))
      else Some (Inr str))"

definition ToString :: "'bn bignum_lib \<Rightarrow> 'bn \<Rightarrow> u32 \<Rightarrow> bytes result option" where
  "ToString lib this nBase =
     (case and_then (auto_bn_ctx lib) (\<lambda>_. and_then (cbn_of_int lib nBase) (\<lambda>bnBase.
             and_then (cbn_of_int lib 0) (\<lambda>bn0. and_then (cbn_copy lib this) (\<lambda>b. Inr (bnBase, bn0, b))))) of
        Inl e \<Rightarrow> Some (Inl e)
      | Inr (bnBase, bn0, b) \<Rightarrow>
          (let b = bn_set_negative lib b False
           in if bn_cmp lib b bn0 = 0 then Some (Inr (ascii ''0''))
              else map_option (\<lambda>r. and_then r (\<lambda>str.
                     Inr (rev (if bn_is_negative lib this then str @ ascii ''-'' else str))))
                     (to_string_loop lib bnBase bn0 b [])))"

definition GetHex :: "'bn bignum_lib \<Rightarrow> 'bn \<Rightarrow> bytes result option" where
  "GetHex lib this = ToString lib this 16"

end
