(* ===== verification/Bignum_Correct.thy ===== *)
theory Bignum_Correct
  imports Bignum
begin

text \<open>
  What the class \<^verbatim>\<open>CBigNum\<close> computes, proved in the locale \<open>bignum\<close>, and the locale's interpretation by integers.
\<close>

subsection \<open>The conversions byte by byte\<close>

text \<open>The highest \<open>k\<close> bytes of a 64-bit number.\<close>

fun top_bytes :: "nat \<Rightarrow> u64 \<Rightarrow> bytes" where
  "top_bytes 0 n = []"
| "top_bytes (Suc k) n = ucast (drop_bit 56 n AND 0xff) # top_bytes k (push_bit 8 n)"

lemma length_top_bytes [simp]: "length (top_bytes k n) = k"
  by (induction k arbitrary: n) simp_all

lemma unat_top_byte: "unat (ucast (drop_bit 56 n AND 0xff) :: byte) = unat (n :: u64) div 2 ^ 56"
proof -
  have "unat n div 2 ^ 56 < 256" using word_unat_lt [of n] by (simp add: less_mult_imp_div_less)
  then show ?thesis using unat_and_mask [of "drop_bit 56 n" 8]
    by (simp add: unat_ucast_mod unat_drop_bit mask_eq_exp_minus_1)
qed

lemma be_value_top_bytes: "k \<le> 8 \<Longrightarrow> be_value (top_bytes k n) = unat n div 2 ^ (64 - 8 * k)"
proof (induction k arbitrary: n)
  case 0
  then show ?case using word_unat_lt [of n] by simp
next
  case (Suc k)
  define q r where "q = unat n div 2 ^ 56" and "r = unat n mod 2 ^ 56"
  have n: "unat n = q * 2 ^ 56 + r" by (simp add: q_def r_def)
  have "r < 2 ^ 56" by (simp add: r_def)
  then have "(unat n * 256) mod 2 ^ 64 = r * 256" by (simp add: n algebra_simps)
  then have push: "unat (push_bit 8 n) = r * 256" by (simp add: push_bit_eq_mult unat_word_ariths mult.commute)
  have e: "64 - 8 * k = (56 - 8 * k) + 8" "56 = (56 - 8 * k) + 8 * k" using Suc.prems by auto
  have "r * 256 div 2 ^ (64 - 8 * k) = r div 2 ^ (56 - 8 * k)"
    by (simp add: e(1) power_add)
  moreover have "unat n div 2 ^ (56 - 8 * k) = q * 2 ^ (8 * k) + r div 2 ^ (56 - 8 * k)"
  proof -
    have "q * 2 ^ 56 + r = r + (q * 2 ^ (8 * k)) * 2 ^ (56 - 8 * k)"
      using arg_cong [OF e(2), of "\<lambda>x. (2 :: nat) ^ x"] by (simp add: power_add mult.commute)
    then show ?thesis unfolding n by (simp only: div_mult_self1) simp
  qed
  moreover have "(256 :: nat) ^ k = 2 ^ (8 * k)" by (simp add: power_mult)
  moreover have "64 - 8 * Suc k = 56 - 8 * k" by simp
  ultimately show ?case using Suc by (simp add: unat_top_byte push del: power_mult) (simp add: q_def)
qed

lemma setint64_loop_tail: "setint64_loop neg k n False out = out @ top_bytes k n"
  by (induction k arbitrary: n out) (simp_all add: Let_def)

lemma setint64_loop_eq: "setint64_loop neg k n True [] = mpi_signed neg (dropWhile (\<lambda>b. b = 0) (top_bytes k n))"
  by (induction k arbitrary: n) (simp_all add: Let_def setint64_loop_tail)

lemma setuint64_loop_eq: "setuint64_loop k n z out = setint64_loop False k n z out"
  by (induction k arbitrary: n z out) (simp_all add: Let_def)

lemma byte_sign_set:
  fixes b :: byte
  assumes "b AND 0x80 = 0"
  shows "(b OR 0x80) AND 0x80 \<noteq> 0" and "(b OR 0x80) AND 0x7f = b"
proof -
  have b: "\<not> bit b 7" using assms and_exp_eq_0_iff_not_bit [of b 7] by simp
  have "bit ((b OR 0x80) AND 0x80) 7" by (simp add: bit_simps)
  then show "(b OR 0x80) AND 0x80 \<noteq> 0" by auto
  have "bit ((b OR 0x80) AND 0x7f) i = bit b i" for i
  proof (cases "i < 8")
    case True
    then consider "i = 0" | "i = 1" | "i = 2" | "i = 3" | "i = 4" | "i = 5" | "i = 6" | "i = 7" by linarith
    then show ?thesis by cases (simp_all add: b bit_simps)
  next
    case False
    then show ?thesis using bit_imp_le_length by fastforce
  qed
  then show "(b OR 0x80) AND 0x7f = b" by (simp add: bit_eq_iff)
qed

lemma mpi_value_signed:
  "mpi_value (mpi_signed neg bs) = (if neg then - int (be_value bs) else int (be_value bs))"
  by (cases bs) (simp_all add: byte_sign_set)

lemma mpi_value_bytes [simp]: "mpi_value (mpi_bytes v) = v"
  by (simp add: mpi_bytes_def mpi_value_signed)

lemma be_value_strip [simp]: "be_value (dropWhile (\<lambda>b. b = 0) bs) = be_value bs"
  by (induction bs) simp_all

lemma mpi_value_loop: "mpi_value (setint64_loop neg 8 n True []) = (if neg then - int (unat n) else int (unat n))"
  by (simp add: setint64_loop_eq mpi_value_signed be_value_top_bytes)

lemma length_mpi_signed: "length (mpi_signed neg bs) \<le> Suc (length bs)"
  by (cases bs) simp_all

lemma length_setint64_loop: "length (setint64_loop neg 8 n True []) \<le> 9"
  using length_mpi_signed [of neg "dropWhile (\<lambda>b. b = 0) (top_bytes 8 n)"] length_dropWhile_le [of "\<lambda>b. b = 0" "top_bytes 8 n"]
  unfolding setint64_loop_eq length_top_bytes by linarith

lemma uint_eq_sint: "0 \<le> sint n \<Longrightarrow> uint (n :: 'a::len word) = sint n"
  using sint_less [of n] by (cases "LENGTH('a)") (simp_all add: uint_sint take_bit_int_eq_self)

subsection \<open>Calls that return an object of a given value\<close>

definition gives :: "('bn \<Rightarrow> int) \<Rightarrow> 'bn result \<Rightarrow> int \<Rightarrow> bool" where
  "gives val r v \<longleftrightarrow> (\<exists>b. r = Inr b \<and> val b = v)"

lemma gives_Inr [simp]: "gives val (Inr b) v \<longleftrightarrow> val b = v"
  by (auto simp: gives_def)

lemma gives_and_then:
  assumes "gives val r v" and "\<And>b. val b = v \<Longrightarrow> gives val' (f b) w"
  shows "gives val' (and_then r f) w"
  using assms by (auto simp: gives_def)

lemma gives_check: "map_option val r = Some v \<Longrightarrow> gives val (bn_check r) v"
  by (auto simp: gives_def bn_check_def)

lemma givesE:
  assumes "gives val r v"
  obtains b where "r = Inr b" and "val b = v"
  using assms by (auto simp: gives_def)

context bignum
begin

lemma cmp_less [simp]: "bn_cmp lib a b < 0 \<longleftrightarrow> val a < val b"
  using cmp [of a b] by (auto simp: sgn_if split: if_splits)

lemma cmp_greater [simp]: "0 < bn_cmp lib a b \<longleftrightarrow> val b < val a"
  using cmp [of a b] by (auto simp: sgn_if split: if_splits)

lemma cmp_eq [simp]: "bn_cmp lib a b = 0 \<longleftrightarrow> val a = val b"
  using cmp [of a b] by (auto simp: sgn_if split: if_splits)

lemma ctx_ok [simp]: "auto_bn_ctx lib = Inr ()"
  by (simp add: auto_bn_ctx_def)

lemma gives_copy: "gives val (cbn_copy lib a) (val a)"
  by (simp add: cbn_copy_def gives_check copy)

lemma gives_setulong: "gives val (setulong lib w) (uint w)"
  by (simp add: setulong_def gives_check set_word)

lemma gives_add: "gives val (cbn_add lib a b) (val a + val b)"
  by (simp add: cbn_add_def gives_check add)

lemma gives_sub: "gives val (cbn_sub lib a b) (val a - val b)"
  by (simp add: cbn_sub_def gives_check sub)

lemma gives_mul: "gives val (cbn_mul lib a b) (val a * val b)"
  by (simp add: cbn_mul_def gives_check mul)

lemma gives_shl: "gives val (cbn_shl lib a k) (val a * 2 ^ k)"
  by (simp add: cbn_shl_def gives_check lshift)

lemma div_ok:
  assumes "val b \<noteq> 0"
  obtains q r where "bn_div lib a b = Some (q, r)" and "val q = tdiv (val a) (val b)" and "val r = trem (val a) (val b)"
  using division [OF assms, of a] by (cases "bn_div lib a b") auto

lemma gives_div: "val b \<noteq> 0 \<Longrightarrow> gives val (cbn_div lib a b) (tdiv (val a) (val b))"
  by (rule div_ok [of b a]) (auto simp: cbn_div_def bn_check_def)

lemma gives_mod: "val b \<noteq> 0 \<Longrightarrow> gives val (cbn_mod lib a b) (trem (val a) (val b))"
  by (rule div_ok [of b a]) (auto simp: cbn_mod_def bn_check_def)

lemma div_zero: "val b = 0 \<Longrightarrow> cbn_div lib a b = Inl Bignum_error \<and> cbn_mod lib a b = Inl Bignum_error"
  by (simp add: cbn_div_def cbn_mod_def division_zero bn_check_def)

lemma val_set_mpi: "length p < 2 ^ 31 \<Longrightarrow> val (set_mpi lib p b) = mpi_value p"
  using mpi2bn [of p] by (auto simp: set_mpi_def split: option.splits)

lemma gives_setint64:
  assumes "n \<noteq> 0x8000000000000000"
  shows "gives val (setint64 lib n b) (sint n)"
proof -
  have len: "length (setint64_loop neg 8 m True []) < 2 ^ 31" for neg m
    using length_setint64_loop [of neg m] by simp
  have "int (unat (- n)) = - sint n" if "sint n < 0"
  proof -
    have "(- n :: u64) = of_int (- sint n)" by simp
    moreover have "- sint n < 2 ^ 64" using sint_greater_eq [of n] by simp
    ultimately have "uint (- n) = - sint n" using that
      by (simp only: uint_word_of_int_eq) (simp add: take_bit_int_eq_self)
    then show ?thesis by simp
  qed
  moreover have "int (unat n) = sint n" if "\<not> sint n < 0"
    using that uint_eq_sint [of n] by simp
  ultimately show ?thesis using assms
    by (simp add: setint64_def Let_def val_set_mpi [OF len] mpi_value_loop)
qed

lemma val_setuint64: "val (setuint64 lib n b) = uint n"
  using length_setint64_loop [of False n]
  by (simp add: setuint64_def setuint64_loop_eq val_set_mpi mpi_value_loop)

lemma val_setvch: "length vch < 2 ^ 31 \<Longrightarrow> val (setvch lib vch b) = mpi_value (rev vch)"
  by (simp add: setvch_def val_set_mpi)

lemma getvch_eq: "length (mpi_bytes (val a)) < 2 ^ 31 \<Longrightarrow> getvch lib a = rev (mpi_bytes (val a))"
  by (auto simp: getvch_def Let_def bn2mpi be32_def)

lemma gives_of_int: "gives val (cbn_of_int lib n) (sint n)"
proof (cases "0 \<le> sint n")
  case True
  have "uint (ucast n :: u64) = uint n" using uint_lt2p [of n] by (simp add: unsigned_ucast_eq take_bit_int_eq_self)
  then have "uint (ucast n :: u64) = sint n" using uint_eq_sint [OF True] by simp
  with True show ?thesis using gives_setulong [of "ucast n"] by (simp add: cbn_of_int_def)
next
  case False
  have s: "sint (scast n :: u64) = sint n"
    using sint_less [of n] sint_greater_eq [of n]
    by (simp add: signed_scast_eq signed_take_bit_int_eq_self)
  have "(scast n :: u64) \<noteq> 0x8000000000000000"
  proof
    assume "(scast n :: u64) = 0x8000000000000000"
    then have "sint n = sint (0x8000000000000000 :: u64)" using s by simp
    then show False using sint_greater_eq [of n] by simp
  qed
  then show ?thesis using False gives_setint64 [of "scast n" "bn_new lib"] by (simp add: cbn_of_int_def s)
qed

lemma getint_clamps: "sint (getint lib a) = max (- (2 ^ 31)) (min (2 ^ 31 - 1) (val a))"
proof -
  define w where "w = bn_get_word lib a"
  have w: "uint w = min \<bar>val a\<bar> (2 ^ 64 - 1)"
    using get_word [of a] unfolding w_def
    by (auto simp: min_def uint_word_of_int_eq take_bit_int_eq_self unsigned_minus_1_eq_mask mask_eq_exp_minus_1)
  have gt: "int_max < w \<longleftrightarrow> 2 ^ 31 \<le> \<bar>val a\<bar>"
    unfolding word_less_alt w by (auto simp: int_max_def min_def)
  have small: "sint (ucast w :: u32) = \<bar>val a\<bar> \<and> sint (- ucast w :: u32) = - \<bar>val a\<bar>" if "\<bar>val a\<bar> < 2 ^ 31"
  proof -
    have "uint w = \<bar>val a\<bar>" using w that by (simp add: min_def)
    then have u: "(ucast w :: u32) = of_int \<bar>val a\<bar>" by (simp add: ucast_eq)
    have "- (ucast w :: u32) = of_int (- \<bar>val a\<bar>)" unfolding u by simp
    with u that show ?thesis by (simp only: signed_of_int) (simp add: signed_take_bit_int_eq_self)
  qed
  have g: "getint lib a = (if \<not> val a < 0 then (if 2 ^ 31 \<le> \<bar>val a\<bar> then 0x7fffffff else ucast w)
      else (if 2 ^ 31 \<le> \<bar>val a\<bar> then 0x80000000 else - ucast w))"
    unfolding getint_def Let_def is_negative gt [symmetric] w_def ..
  show ?thesis
  proof (cases "2 ^ 31 \<le> \<bar>val a\<bar>")
    case True
    then show ?thesis unfolding g by (auto simp: max_def min_def)
  next
    case False
    then have "\<bar>val a\<bar> < 2 ^ 31" by simp
    then show ?thesis unfolding g using small by (auto simp: max_def min_def)
  qed
qed

end

subsection \<open>Hexadecimal text\<close>

definition hex_digit :: "nat \<Rightarrow> byte" where
  "hex_digit d = ascii ''0123456789abcdef'' ! d"

definition hex_text :: "int \<Rightarrow> bytes" where
  "hex_text v = (if v = 0 then ascii ''0'' else (if v < 0 then [0x2d] else []) @ map hex_digit (digits 16 (nat \<bar>v\<bar>)))"

lemma hex_digit_ok:
  assumes "d < 16"
  shows "isxdigit (hex_digit d)" and "phexdigit (hex_digit d) = d" and "\<not> isspace (hex_digit d)"
    and "hex_digit d \<noteq> 0" and "hex_digit d \<noteq> 0x2d" and "hex_digit d \<noteq> 0x78" and "hex_digit d \<noteq> 0x58"
    and "hex_digit d = 0x30 \<longleftrightarrow> d = 0" and "literal_at (ascii ''0123456789abcdef'') d = Inr (hex_digit d)"
proof -
  have "\<forall>d \<in> set [0..<16]. isxdigit (hex_digit d) \<and> phexdigit (hex_digit d) = d \<and> \<not> isspace (hex_digit d) \<and>
     hex_digit d \<noteq> 0 \<and> hex_digit d \<noteq> 0x2d \<and> hex_digit d \<noteq> 0x78 \<and> hex_digit d \<noteq> 0x58 \<and> (hex_digit d = 0x30 \<longleftrightarrow> d = 0)"
    by code_simp
  moreover have "d \<in> set [0..<16]" using assms by simp
  ultimately show "isxdigit (hex_digit d)" "phexdigit (hex_digit d) = d" "\<not> isspace (hex_digit d)"
    "hex_digit d \<noteq> 0" "hex_digit d \<noteq> 0x2d" "hex_digit d \<noteq> 0x78" "hex_digit d \<noteq> 0x58"
    "hex_digit d = 0x30 \<longleftrightarrow> d = 0" by blast+
  show "literal_at (ascii ''0123456789abcdef'') d = Inr (hex_digit d)"
    using assms by (simp add: literal_at_def hex_digit_def ascii_def)
qed

context bignum
begin

lemma get_small:
  assumes "0 \<le> val a" and "val a < 2 ^ 32"
  shows "unat (ucast (getulong lib a) :: u32) = nat (val a)"
proof -
  have "uint (of_int (val a) :: u64) = val a"
    using assms by (simp add: uint_word_of_int_eq take_bit_int_eq_self)
  then have "unat (of_int (val a) :: u64) = nat (val a)" by (metis nat_uint_eq)
  then show ?thesis using assms by (simp add: getulong_def get_word unat_ucast_mod)
qed

text \<open>One step of the division loops, at the value of the number.\<close>

lemma div_step:
  assumes "val base = int b" and "2 \<le> b" and "b < 2 ^ 32" and "0 < val a"
  obtains q r c where "bn_div lib a base = Some (q, r)" and "cbn_copy lib q = Inr c" and "val c = val a div int b"
    and "unat (ucast (getulong lib r) :: u32) = nat (val a) mod b"
proof -
  have "val base \<noteq> 0" using assms by simp
  then obtain q r where d: "bn_div lib a base = Some (q, r)" and q: "val q = tdiv (val a) (val base)"
    and r: "val r = trem (val a) (val base)" by (rule div_ok)
  obtain c where c: "cbn_copy lib q = Inr c" and vc: "val c = val q"
    using gives_copy [of q] by (rule givesE)
  have "val r = int (nat (val a) mod b)" using assms by (simp add: r trem_nonneg zmod_int)
  moreover have "nat (val a) mod b < 2 ^ 32" using assms by (meson less_trans mod_less_divisor order_less_le_trans zero_less_numeral)
  ultimately have "unat (ucast (getulong lib r) :: u32) = nat (val a) mod b" using get_small [of r] by simp
  with d c vc q assms show ?thesis by (intro that) (simp_all add: tdiv_nonneg)
qed

lemma to_string_loop_eq:
  assumes "val base = int b" and "2 \<le> b" and "b \<le> 16" and "val z = 0" and "0 \<le> val a"
  shows "to_string_loop lib base z a str = Some (Inr (str @ rev (map hex_digit (digits b (nat (val a))))))"
  using assms(5)
proof (induction "nat (val a)" arbitrary: a str rule: less_induct)
  case less
  show ?case
  proof (cases "val a = 0")
    case True
    then show ?thesis using assms by (simp add: to_string_loop.simps)
  next
    case False
    then have pos: "0 < val a" using less.prems by simp
    obtain q r c where d: "bn_div lib a base = Some (q, r)" "cbn_copy lib q = Inr c" and v: "val c = val a div int b"
      and m: "unat (ucast (getulong lib r) :: u32) = nat (val a) mod b"
      using div_step [OF assms(1,2) _ pos] assms(3) by auto
    have "nat (val a) mod b < 16" using assms(2,3) by (meson mod_less_divisor less_le_trans zero_less_numeral)
    then have l: "literal_at (ascii ''0123456789abcdef'') (nat (val a) mod b) = Inr (hex_digit (nat (val a) mod b))"
      by (rule hex_digit_ok)
    have n: "nat (val c) = nat (val a) div b" using pos v by (simp add: nat_div_distrib)
    then have "nat (val c) < nat (val a)" using assms(2) pos by simp
    moreover have "0 \<le> val c" using v pos assms(2) by (simp add: pos_imp_zdiv_nonneg_iff)
    ultimately show ?thesis using less.hyps [of c "str @ [hex_digit (nat (val a) mod b)]"] assms(2,4) pos
      by (subst to_string_loop.simps) (simp add: d m l n digits_step)
  qed
qed

lemma set_hex_loop_gives:
  "\<forall>d \<in> set ds. d < 16 \<Longrightarrow> 0 \<le> val b \<Longrightarrow> gives val (set_hex_loop lib (map hex_digit ds) b) (int (horner 16 (nat (val b)) ds))"
proof (induction ds arbitrary: b)
  case (Cons d ds)
  have "sint (of_nat d :: u32) = int d" using Cons.prems by (intro sint_of_nat_u32) simp
  then have n: "gives val (cbn_of_int lib (of_nat d)) (int d)" using gives_of_int by metis
  have "gives val (set_hex_loop lib (map hex_digit ds) b') (int (horner 16 (nat (val b) * 16 + d) ds))"
    if "val b' = val b * 16 + int d" for b'
  proof -
    have "nat (val b') = nat (val b) * 16 + d" using that Cons.prems by (simp add: nat_add_distrib nat_mult_distrib)
    then show ?thesis using Cons.IH [of b'] Cons.prems that by simp
  qed
  then have "gives val (and_then (cbn_shl lib b 4) (\<lambda>b. and_then (cbn_of_int lib (of_nat d)) (\<lambda>n.
      and_then (cbn_add lib b n) (set_hex_loop lib (map hex_digit ds))))) (int (horner 16 (nat (val b) * 16 + d) ds))"
    by (auto intro!: gives_and_then [OF gives_shl] gives_and_then [OF n] gives_and_then [OF gives_add])
  with Cons.prems show ?case by (simp add: hex_digit_ok)
qed simp

lemma GetHex_eq: "GetHex lib a = Some (Inr (hex_text (val a)))"
proof -
  have s16: "sint (16 :: u32) = int 16" by simp
  obtain base where b: "cbn_of_int lib 16 = Inr base" "val base = int 16"
    using gives_of_int [of 16] unfolding s16 by (rule givesE)
  obtain z where z: "cbn_of_int lib 0 = Inr z" "val z = 0"
    using gives_of_int [of 0] unfolding sint_0 by (rule givesE)
  obtain c where c: "cbn_copy lib a = Inr c" "val c = val a"
    using gives_copy [of a] by (rule givesE)
  have "to_string_loop lib base z (bn_set_negative lib c False) [] = Some (Inr (rev (map hex_digit (digits 16 (nat \<bar>val a\<bar>)))))"
    using to_string_loop_eq [OF b(2) _ _ z(2), of "bn_set_negative lib c False" "[]"] c(2) by simp
  then show ?thesis by (simp add: GetHex_def ToString_def b c z hex_text_def Let_def ascii_def)
qed

lemma SetHex_hex_text: "gives val (SetHex lib (hex_text v)) v"
proof -
  define ds where "ds = (if v = 0 then [0] else digits 16 (nat \<bar>v\<bar>))"
  have ds: "\<forall>d \<in> set ds. d < 16" using digits_less [of 16] by (auto simp: ds_def)
  have t: "hex_text v = (if v < 0 then [0x2d] else []) @ map hex_digit ds"
    by (simp add: hex_text_def ds_def) (simp add: hex_digit_def ascii_def)
  have nz: "c_str (map hex_digit ds) = map hex_digit ds"
    unfolding c_str_def using ds by (auto simp: takeWhile_eq_all_conv hex_digit_ok)
  then have c: "c_str (hex_text v) = hex_text v" by (auto simp: t c_str_def)
  have ne: "ds \<noteq> []" by (simp add: ds_def)
  have first: "dropWhile isspace (map hex_digit ds) = map hex_digit ds"
    "hd (map hex_digit ds) \<noteq> 0x2d"
    "\<not> (take 1 (tl (map hex_digit ds)) = [0x78] \<or> take 1 (tl (map hex_digit ds)) = [0x58])"
    using ds ne by (cases ds; cases "tl ds"; force simp: hex_digit_ok)+
  have sp: "\<not> isspace 0x2d" by (simp add: isspace_def)
  have z: "gives val (and_then (cbn_of_int lib 0) (cbn_copy lib)) 0"
    using gives_of_int [of 0] gives_copy unfolding sint_0 by (metis gives_and_then)
  have h: "int (horner 16 0 ds) = \<bar>v\<bar>" by (simp add: ds_def horner_digits)
  have l: "gives val (set_hex_loop lib (map hex_digit ds) b) \<bar>v\<bar>" if "val b = 0" for b
    using set_hex_loop_gives [OF ds, of b] that h by simp
  have body: "gives val (and_then (and_then (cbn_of_int lib 0) (cbn_copy lib)) (\<lambda>b.
      and_then (set_hex_loop lib (map hex_digit ds) b) (\<lambda>b. Inr (if v < 0 then bn_set_negative lib b True else b)))) v"
    by (intro gives_and_then [OF z] gives_and_then [OF l]) auto
  have "SetHex lib (hex_text v) = and_then (and_then (cbn_of_int lib 0) (cbn_copy lib)) (\<lambda>b.
      and_then (set_hex_loop lib (map hex_digit ds) b) (\<lambda>b. Inr (if v < 0 then bn_set_negative lib b True else b)))"
    unfolding SetHex_def Let_def c unfolding t using first sp by (cases "v < 0") simp_all
  with body show ?thesis by simp
qed

end

subsection \<open>Integers as the library\<close>

definition int_lib :: "int bignum_lib" where
  "int_lib = \<lparr> bn_new = 0, bn_ctx_new = True, bn_copy = Some, bn_set_word = (\<lambda>w. Some (uint w)),
     bn_get_word = (\<lambda>a. if \<bar>a\<bar> < 2 ^ 64 then of_int \<bar>a\<bar> else - 1), bn_is_negative = (\<lambda>a. a < 0),
     bn_is_zero = (\<lambda>a. a = 0),
     bn_set_negative = (\<lambda>a neg. if neg then - \<bar>a\<bar> else \<bar>a\<bar>), bn_cmp = (\<lambda>a b. sgn (a - b)),
     bn_add = (\<lambda>a b. Some (a + b)), bn_sub = (\<lambda>a b. Some (a - b)), bn_mul = (\<lambda>a b. Some (a * b)),
     bn_div = (\<lambda>a b. if b = 0 then None else Some (tdiv a b, trem a b)),
     bn_exp = (\<lambda>a b. if b < 0 then None else Some (a ^ nat b)),
     bn_lshift = (\<lambda>a k. Some (a * 2 ^ k)), bn_rshift = (\<lambda>a k. Some (tdiv a (2 ^ k))),
     bn_mpi2bn = (\<lambda>p. Some (mpi_value (drop 4 p))),
     bn_bn2mpi = (\<lambda>a. be32 (of_nat (length (mpi_bytes a))) @ mpi_bytes a),
     bn_bin2bn = (\<lambda>p. Some (int (be_value p))), bn_bn2bin = (\<lambda>a. nat_bytes (nat \<bar>a\<bar>)),
     bn_num_bits = (\<lambda>a. num_bits (nat \<bar>a\<bar>)), bn_bn2dec = (\<lambda>a. Some (dec_int a)) \<rparr>"

interpretation int_bignum: bignum int_lib "\<lambda>v. v"
  by unfold_locales (simp_all add: int_lib_def be32_def)

text \<open>
  The conversions of \<^verbatim>\<open>CBigNum\<close> are exact, on every library of big numbers that keeps its promises: an object set from a
  64-bit integer has its value; what \<^verbatim>\<open>getvch\<close> returns sets any object to the same number, and so does the
  text of \<^verbatim>\<open>GetHex\<close>, whatever the sign, while its loop ends; \<^verbatim>\<open>getint\<close> returns the nearest \<^verbatim>\<open>int\<close>.
\<close>

lemma cbignum_conversions:
  assumes "bignum lib val" and "n \<noteq> 0x8000000000000000" and "length (mpi_bytes (val a)) < 2 ^ 31"
  shows "gives val (setint64 lib n b) (sint n) \<and> val (setuint64 lib m b) = uint m
    \<and> val (setvch lib (getvch lib a) b) = val a
    \<and> (\<exists>t. GetHex lib a = Some (Inr t) \<and> gives val (SetHex lib t) (val a))
    \<and> sint (getint lib a) = max (- (2 ^ 31)) (min (2 ^ 31 - 1) (val a))"
proof (intro conjI)
  show "val (setvch lib (getvch lib a) b) = val a"
    using bignum.val_setvch [OF assms(1), of "getvch lib a" b] bignum.getvch_eq [OF assms(1,3)] assms(3) by simp
  show "\<exists>t. GetHex lib a = Some (Inr t) \<and> gives val (SetHex lib t) (val a)"
    using bignum.GetHex_eq [OF assms(1), of a] bignum.SetHex_hex_text [OF assms(1), of "val a"] by blast
qed (rule bignum.gives_setint64 [OF assms(1,2)] bignum.val_setuint64 [OF assms(1)] bignum.getint_clamps [OF assms(1)])+

end
