(* ===== verification/Base58.thy ===== *)
theory Base58
  imports Bignum_Correct
begin

text \<open>
  \<^verbatim>\<open>src/crypto/base58.cpp\<close> on the interface \<open>bignum\<close>. \<open>yield k\<close> is what the \<open>k\<close>-th call of the caller's check does: return or
  throw. The loop of the encoder runs while the library's comparison says so, so it is a partial function; that it returns
  follows from the laws of the library.
\<close>

definition pszBase58 :: bytes where
  "pszBase58 = ascii ''123456789ABCDEFGHJKLMNPQRSTUVWXYZabcdefghijkmnopqrstuvwxyz''"

partial_function (option) encode58_loop ::
  "'bn bignum_lib \<Rightarrow> 'bn \<Rightarrow> 'bn \<Rightarrow> yield_calls \<Rightarrow> nat \<Rightarrow> 'bn \<Rightarrow> bytes \<Rightarrow> (nat \<times> bytes) result option" where
  "encode58_loop lib bn58 bn0 yield k bn str =
     (if cbn_greater lib bn bn0
      then case yield k of
             Inl e \<Rightarrow> Some (Inl e)
           | Inr _ \<Rightarrow>
               (case bn_div lib bn bn58 of
                  None \<Rightarrow> Some (Inl Bignum_error)
                | Some (dv, rem) \<Rightarrow>
                    (case cbn_copy lib dv of
                       Inl e \<Rightarrow> Some (Inl e)
                     | Inr bn \<Rightarrow>
                         (case literal_at pszBase58 (unat (ucast (getulong lib rem) :: u32)) of
                            Inl e \<Rightarrow> Some (Inl e)
                          | Inr c \<Rightarrow> encode58_loop lib bn58 bn0 yield (k + 1) bn (str @ [c]))))
      else Some (Inr (k, str)))"

definition EncodeBase58 :: "'bn bignum_lib \<Rightarrow> bytes \<Rightarrow> yield_calls \<Rightarrow> bytes result option" where
  "EncodeBase58 lib d yield =
     (case and_then (auto_bn_ctx lib) (\<lambda>_. and_then (cbn_of_int lib 58) (\<lambda>bn58. and_then (cbn_of_int lib 0) (\<lambda>bn0.
             and_then (yield 0) (\<lambda>_. and_then (yield 1) (\<lambda>_. Inr (bn58, bn0)))))) of
        Inl e \<Rightarrow> Some (Inl e)
      | Inr (bn58, bn0) \<Rightarrow>
          (let vchTmp = rev d @ [0];
               bn = setvch lib vchTmp (bn_new lib)
           in map_option (\<lambda>r. and_then r (\<lambda>(k, str).
                let str = str @ map (\<lambda>_. hd pszBase58) (takeWhile (\<lambda>b. b = 0) d)
                in and_then (yield k) (\<lambda>_. and_then (yield (k + 1)) (\<lambda>_. Inr (rev str)))))
                (encode58_loop lib bn58 bn0 yield 2 bn [])))"

text \<open>\<^verbatim>\<open>strchr\<close> in the alphabet; \<open>i\<close> is the position of the rest of it.\<close>

fun alphabet_index :: "bytes \<Rightarrow> nat \<Rightarrow> byte \<Rightarrow> nat option" where
  "alphabet_index [] i c = None"
| "alphabet_index (a # as) i c = (if a = c then Some i else alphabet_index as (i + 1) c)"

fun decode58_loop :: "'bn bignum_lib \<Rightarrow> 'bn \<Rightarrow> bytes \<Rightarrow> 'bn \<Rightarrow> 'bn option result" where
  "decode58_loop lib bn58 [] bn = Inr (Some bn)"
| "decode58_loop lib bn58 (c # p) bn =
     (case alphabet_index pszBase58 0 c of
        None \<Rightarrow> Inr (if dropWhile isspace (c # p) = [] then Some bn else None)
      | Some i \<Rightarrow>
          and_then (setulong lib (of_nat i)) (\<lambda>bnChar.
            and_then (bn_check (bn_mul lib bn bn58)) (\<lambda>bn.
              and_then (cbn_add lib bn bnChar) (decode58_loop lib bn58 p))))"

text \<open>The argument is the C string, without its end; \<open>None\<close> is the value \<^verbatim>\<open>false\<close>.\<close>

definition DecodeBase58 :: "'bn bignum_lib \<Rightarrow> bytes \<Rightarrow> bytes option result" where
  "DecodeBase58 lib psz =
     and_then (auto_bn_ctx lib) (\<lambda>_. and_then (cbn_of_int lib 58) (\<lambda>bn58. and_then (cbn_of_int lib 0) (\<lambda>bn.
       let psz = dropWhile isspace psz
       in and_then (decode58_loop lib bn58 psz bn) (\<lambda>r.
            case r of
              None \<Rightarrow> Inr None
            | Some bn \<Rightarrow>
                (let vchTmp = getvch lib bn; n = length vchTmp;
                     vchTmp = (if 2 \<le> n \<and> vchTmp ! (n - 1) = 0 \<and> 0x80 \<le> vchTmp ! (n - 2) then butlast vchTmp else vchTmp);
                     nLeadingZeros = length (takeWhile (\<lambda>c. c = hd pszBase58) psz)
                 in Inr (Some (replicate nLeadingZeros 0 @ rev vchTmp)))))))"

definition to_base58 :: "'bn bignum_lib \<Rightarrow> bytes \<Rightarrow> yield_calls \<Rightarrow> bytes result option" where
  "to_base58 lib d yield = (if d \<noteq> [] then EncodeBase58 lib d yield else Some (Inr []))"

abbreviation Parse_error :: fc_error where
  "Parse_error \<equiv> Fc_exception parse_error_exception_code"

definition from_base58 :: "'bn bignum_lib \<Rightarrow> bytes \<Rightarrow> bytes result" where
  "from_base58 lib base58_str =
     and_then (DecodeBase58 lib (c_str base58_str)) (\<lambda>out. case out of None \<Rightarrow> Inl Parse_error | Some out \<Rightarrow> Inr out)"

text \<open>The overload that stores into the caller's array.\<close>

definition from_base58_into :: "'bn bignum_lib \<Rightarrow> bytes \<Rightarrow> bytes \<Rightarrow> (nat \<times> bytes) result" where
  "from_base58_into lib base58_str out_data =
     and_then (DecodeBase58 lib (c_str base58_str)) (\<lambda>out.
       case out of
         None \<Rightarrow> Inl Parse_error
       | Some out \<Rightarrow> fc_assert (length out \<le> length out_data) (Inr (length out, out @ drop (length out) out_data)))"

subsection \<open>The alphabet\<close>

definition char58 :: "nat \<Rightarrow> byte" where
  "char58 d = pszBase58 ! d"

lemma length_pszBase58 [simp]: "length pszBase58 = 58"
  by (simp add: pszBase58_def ascii_def)

lemma hd_pszBase58: "hd pszBase58 = char58 0"
  by (simp add: char58_def pszBase58_def ascii_def)

lemma alphabet58: "distinct pszBase58 \<and> 0 \<notin> set pszBase58 \<and> list_all (\<lambda>c. \<not> isspace c) pszBase58"
  by code_simp

lemma alphabet_index_nth:
  "distinct as \<Longrightarrow> k < length as \<Longrightarrow> alphabet_index as i (as ! k) = Some (i + k)"
proof (induction as arbitrary: i k)
  case (Cons a as)
  then show ?case by (cases k) auto
qed simp

lemma alphabet_index_Some: "alphabet_index as i c = Some j \<Longrightarrow> \<exists>k < length as. j = i + k \<and> c = as ! k"
proof (induction as arbitrary: i)
  case (Cons a as)
  then show ?case by (cases "a = c") (force split: if_splits)+
qed simp

lemma char58_index: "d < 58 \<Longrightarrow> alphabet_index pszBase58 0 (char58 d) = Some d"
  using alphabet_index_nth [of pszBase58 d 0] alphabet58 by (simp add: char58_def)

lemma char58_inj: "d < 58 \<Longrightarrow> e < 58 \<Longrightarrow> char58 d = char58 e \<longleftrightarrow> d = e"
  using alphabet58 by (simp add: char58_def nth_eq_iff_index_eq)

lemma char58_plain: "d < 58 \<Longrightarrow> \<not> isspace (char58 d) \<and> char58 d \<noteq> 0"
  using alphabet58 nth_mem [of d pszBase58] unfolding char58_def length_pszBase58 list_all_iff by metis

lemma char58_literal: "d < 58 \<Longrightarrow> literal_at pszBase58 d = Inr (char58 d)"
  by (simp add: literal_at_def char58_def)

subsection \<open>What the loops compute\<close>

abbreviation text58 :: "bytes \<Rightarrow> bytes" where
  "text58 d \<equiv> map char58 (lead_digits 58 d)"

lemma mpi_bytes_nonneg:
  "0 \<le> v \<Longrightarrow> mpi_bytes v = (let b = nat_bytes (nat v) in if b \<noteq> [] \<and> hd b AND 0x80 \<noteq> 0 then 0 # b else b)"
  by (cases "nat_bytes (nat v)") (simp_all add: mpi_bytes_def)

lemma high_bit_byte: "(b :: byte) AND 0x80 \<noteq> 0 \<longleftrightarrow> 0x80 \<le> b"
  using byte_and_128 [of b] by (auto simp: word_le_nat_alt not_less)

text \<open>Removing the sign byte from the little-endian form.\<close>

lemma strip_sign:
  assumes "0 \<le> v"
  shows "(let t = rev (mpi_bytes v); n = length t
          in rev (if 2 \<le> n \<and> t ! (n - 1) = 0 \<and> 0x80 \<le> t ! (n - 2) then butlast t else t)) = nat_bytes (nat v)"
proof (cases "nat_bytes (nat v)")
  case Nil
  then show ?thesis using assms by (simp add: mpi_bytes_nonneg Let_def)
next
  case (Cons b bs)
  have "nat_bytes (be_value (b # bs)) = b # bs" using Cons be_value_nat_bytes [of "nat v"] by simp
  then have "b \<noteq> 0" unfolding nat_bytes_be_value by (metis dropWhile_eq_self_iff list.distinct(1) list.sel(1))
  with Cons assms show ?thesis
    by (simp add: mpi_bytes_nonneg Let_def high_bit_byte nth_append rev_nth)
qed

lemma leading_ones:
  assumes "\<forall>d \<in> set ds. d < 58" and "list_all isspace ws" and "\<not> isspace (char58 0) \<and> char58 0 \<noteq> 0"
  shows "length (takeWhile (\<lambda>x. x = char58 0) (map char58 ds @ ws)) = length (takeWhile (\<lambda>d. d = 0) ds)"
  using assms(1)
proof (induction ds)
  case Nil
  then show ?case using assms(2,3) by (cases ws) auto
qed (simp add: char58_inj)

context bignum
begin

lemma encode58_loop_eq:
  assumes "val b58 = 58" and "val z = 0" and "\<And>k. yield k = Inr ()" and "0 \<le> val a"
  shows "\<exists>k'. encode58_loop lib b58 z yield k a str = Some (Inr (k', str @ rev (map char58 (digits 58 (nat (val a))))))"
  using assms(4)
proof (induction "nat (val a)" arbitrary: a k str rule: less_induct)
  case less
  show ?case
  proof (cases "val a = 0")
    case True
    then show ?thesis using assms by (simp add: encode58_loop.simps cbn_greater_def)
  next
    case False
    then have pos: "0 < val a" using less.prems by simp
    have "val b58 = int 58" using assms by simp
    then obtain q r c where d: "bn_div lib a b58 = Some (q, r)" "cbn_copy lib q = Inr c" and v: "val c = val a div int 58"
      and m: "unat (ucast (getulong lib r) :: u32) = nat (val a) mod 58"
      using div_step [OF _ _ _ pos, of b58 58] by auto
    have l: "literal_at pszBase58 (nat (val a) mod 58) = Inr (char58 (nat (val a) mod 58))" by (rule char58_literal) simp
    have n: "nat (val c) = nat (val a) div 58" using pos v by (simp add: nat_div_distrib)
    then have "nat (val c) < nat (val a)" using pos by simp
    moreover have "0 \<le> val c" using v pos by (simp add: pos_imp_zdiv_nonneg_iff)
    ultimately show ?thesis
      using less.hyps [of c "k + 1" "str @ [char58 (nat (val a) mod 58)]"] assms(2,3) pos
      by (subst encode58_loop.simps) (simp add: d m l n digits_step cbn_greater_def)
  qed
qed

lemma val_of_58 [simp]: "sint (58 :: u32) = 58" by simp

lemma of_58E:
  obtains b z where "cbn_of_int lib 58 = Inr b" and "val b = 58" and "cbn_of_int lib 0 = Inr z" and "val z = 0"
  using gives_of_int [of 58] gives_of_int [of 0] unfolding gives_def sint_0 val_of_58 by blast

lemma EncodeBase58_eq:
  assumes "length d < 2 ^ 31 - 1" and "\<And>k. yield k = Inr ()"
  shows "EncodeBase58 lib d yield = Some (Inr (text58 d))"
proof -
  obtain b z where b: "cbn_of_int lib 58 = Inr b" "val b = 58" and z: "cbn_of_int lib 0 = Inr z" "val z = 0"
    by (rule of_58E)
  have v: "val (setvch lib (rev d @ [0]) (bn_new lib)) = int (be_value d)"
    using assms(1) by (subst val_setvch) simp_all
  obtain k' where "encode58_loop lib b z yield 2 (setvch lib (rev d @ [0]) (bn_new lib)) [] =
      Some (Inr (k', rev (map char58 (digits 58 (be_value d)))))"
    using encode58_loop_eq [where yield = yield and a = "setvch lib (rev d @ [0]) (bn_new lib)" and k = 2 and str = "[]", OF b(2) z(2) assms(2)] v by auto
  then show ?thesis
    by (simp add: EncodeBase58_def b z assms(2) lead_digits_def hd_pszBase58 map_replicate_const)
qed

lemma decode58_loop_eq:
  assumes "val b58 = 58" and "\<forall>d \<in> set ds. d < 58" and "list_all isspace ws" and "0 \<le> val a"
  shows "\<exists>c. decode58_loop lib b58 (map char58 ds @ ws) a = Inr (Some c) \<and> val c = int (horner 58 (nat (val a)) ds)"
  using assms(2,4)
proof (induction ds arbitrary: a)
  case Nil
  show ?case
  proof (cases ws)
    case (Cons c cs)
    then have "isspace c" using assms(3) by simp
    then have "alphabet_index pszBase58 0 c = None"
      using alphabet_index_Some [of pszBase58 0 c] alphabet58
      by (cases "alphabet_index pszBase58 0 c") (auto simp: list_all_length)
    moreover have "dropWhile isspace (c # cs) = []" using assms(3) Cons by (simp add: dropWhile_eq_Nil_conv list_all_iff)
    ultimately show ?thesis using Cons Nil by simp
  qed (use Nil in simp)
next
  case (Cons d ds)
  then have d: "d < 58" by simp
  then have "uint (of_nat d :: u64) = int d" by (simp add: uint_nat unat_of_nat)
  then obtain n where n: "setulong lib (of_nat d) = Inr n" "val n = int d"
    using gives_setulong [of "of_nat d"] by (auto simp: gives_def)
  obtain m where m: "bn_check (bn_mul lib a b58) = Inr m" "val m = val a * 58"
    using gives_check [OF mul [of a b58]] assms(1) by (auto simp: gives_def)
  obtain s where s: "cbn_add lib m n = Inr s" "val s = val a * 58 + int d"
    using gives_add [of m n] n m by (auto simp: gives_def)
  have "nat (val s) = nat (val a) * 58 + d" using s Cons.prems by (simp add: nat_add_distrib nat_mult_distrib)
  then show ?case using Cons.IH [of s] Cons.prems s n m d by (simp add: char58_index)
qed

lemma decode58_loop_rejects:
  assumes "val b58 = 58" and "0 \<le> val a"
    and "\<nexists>ds ws. cs = map char58 ds @ ws \<and> (\<forall>d \<in> set ds. d < 58) \<and> list_all isspace ws"
  shows "decode58_loop lib b58 cs a = Inr None"
  using assms(2,3)
proof (induction cs arbitrary: a)
  case Nil
  then show ?case by (metis append_Nil list.map(1) list.pred_inject(1) empty_iff empty_set)
next
  case (Cons c cs)
  show ?case
  proof (cases "alphabet_index pszBase58 0 c")
    case None
    have "\<not> list_all isspace (c # cs)" using Cons.prems(2)
      by (metis append_Nil list.map(1) empty_iff empty_set)
    then have "dropWhile isspace (c # cs) \<noteq> []" by (simp only: dropWhile_eq_Nil_conv list_all_iff simp_thms)
    with None show ?thesis by simp
  next
    case (Some d)
    then have d: "d < 58" "c = char58 d"
      using alphabet_index_Some [OF Some] by (auto simp: char58_def)
    then have "uint (of_nat d :: u64) = int d" by (simp add: uint_nat unat_of_nat)
    then obtain n where n: "setulong lib (of_nat d) = Inr n" "val n = int d"
      using gives_setulong [of "of_nat d"] by (auto simp: gives_def)
    obtain m where m: "bn_check (bn_mul lib a b58) = Inr m" "val m = val a * 58"
      using gives_check [OF mul [of a b58]] assms(1) by (auto simp: gives_def)
    obtain s where s: "cbn_add lib m n = Inr s" "val s = val a * 58 + int d"
      using gives_add [of m n] n m by (auto simp: gives_def)
    have "\<nexists>ds ws. cs = map char58 ds @ ws \<and> (\<forall>d \<in> set ds. d < 58) \<and> list_all isspace ws"
    proof
      assume "\<exists>ds ws. cs = map char58 ds @ ws \<and> (\<forall>d \<in> set ds. d < 58) \<and> list_all isspace ws"
      then obtain ds ws where "c # cs = map char58 (d # ds) @ ws" "\<forall>e \<in> set (d # ds). e < 58" "list_all isspace ws"
        using d by auto
      then show False using Cons.prems(2) by blast
    qed
    then have "decode58_loop lib b58 cs s = Inr None" using Cons s by simp
    with Some n m s show ?thesis by simp
  qed
qed

lemma DecodeBase58_eq:
  assumes "\<forall>d \<in> set ds. d < 58" and "list_all isspace us" and "list_all isspace ws"
    and "length (nat_bytes (horner 58 0 ds)) < 2 ^ 31 - 1"
  shows "DecodeBase58 lib (us @ map char58 ds @ ws) = Inr (Some (lead_bytes 58 ds))"
proof -
  obtain b z where b: "cbn_of_int lib 58 = Inr b" "val b = 58" and z: "cbn_of_int lib 0 = Inr z" "val z = 0"
    by (rule of_58E)
  define vs where "vs = (if ds = [] then [] else ws)"
  have vs: "list_all isspace vs" using assms(3) by (simp add: vs_def)
  have "dropWhile isspace us = []" "dropWhile isspace ws = []"
    using assms(2,3) by (simp_all add: dropWhile_eq_Nil_conv list_all_iff)
  then have drop: "dropWhile isspace (us @ map char58 ds @ ws) = map char58 ds @ vs"
    using assms(1,2) char58_plain by (cases ds) (simp_all add: vs_def dropWhile_append list_all_iff)
  obtain c where c: "decode58_loop lib b (map char58 ds @ vs) z = Inr (Some c)" "val c = int (horner 58 0 ds)"
    using decode58_loop_eq [OF b(2) assms(1) vs, of z] z(2) by auto
  have "length (mpi_bytes (val c)) \<le> Suc (length (nat_bytes (horner 58 0 ds)))"
    using length_mpi_signed [of "val c < 0" "nat_bytes (nat \<bar>val c\<bar>)"] by (simp add: mpi_bytes_def c)
  then have g: "getvch lib c = rev (mpi_bytes (val c))" using assms(4) by (intro getvch_eq) simp
  have t: "(let t = getvch lib c; n = length t
      in rev (if 2 \<le> n \<and> t ! (n - 1) = 0 \<and> 0x80 \<le> t ! (n - 2) then butlast t else t)) = nat_bytes (horner 58 0 ds)"
    using strip_sign [of "val c"] c(2) by (simp add: g)
  have "length (takeWhile (\<lambda>x. x = char58 0) (map char58 ds @ vs)) = length (takeWhile (\<lambda>d. d = 0) ds)"
    using assms(1) vs char58_plain [of 0] by (intro leading_ones) simp_all
  then have "lead_bytes 58 ds = replicate (length (takeWhile (\<lambda>x. x = hd pszBase58) (map char58 ds @ vs))) 0 @
      (let t = getvch lib c; n = length t
       in rev (if 2 \<le> n \<and> t ! (n - 1) = 0 \<and> 0x80 \<le> t ! (n - 2) then butlast t else t))"
    unfolding t hd_pszBase58 lead_bytes_def by (simp add: map_replicate_const)
  then show ?thesis by (simp add: DecodeBase58_def b z c drop Let_def)
qed

end

subsection \<open>Texts and bytes\<close>

lemma text58_chars: "list_all (\<lambda>c. c \<in> set pszBase58) (text58 d)"
  using lead_digits_less [of 58 _ d] by (auto simp: list_all_iff char58_def)

lemma c_str_char58: "\<forall>d \<in> set ds. d < 58 \<Longrightarrow> c_str (map char58 ds) = map char58 ds"
  using char58_plain by (simp add: c_str_def takeWhile_eq_all_conv)

lemma filter_spaces:
  assumes "\<forall>d \<in> set ds. d < 58" and "list_all isspace us" and "list_all isspace ws"
  shows "filter (\<lambda>c. \<not> isspace c) (us @ map char58 ds @ ws) = map char58 ds"
proof -
  have "filter (\<lambda>c. \<not> isspace c) us = []" "filter (\<lambda>c. \<not> isspace c) ws = []"
    using assms(2,3) by (simp_all add: filter_empty_conv list_all_iff)
  moreover have "filter (\<lambda>c. \<not> isspace c) (map char58 ds) = map char58 ds"
    using assms(1) char58_plain by (simp add: filter_id_conv)
  ultimately show ?thesis by simp
qed

context bignum
begin

lemma to_base58_eq:
  assumes "length d < 2 ^ 31 - 1" and "\<And>k. yield k = Inr ()"
  shows "to_base58 lib d yield = Some (Inr (text58 d))"
  using EncodeBase58_eq [OF assms] by (simp add: to_base58_def lead_digits_def)

lemma from_base58_text:
  assumes "length d < 2 ^ 31 - 1"
  shows "from_base58 lib (text58 d) = Inr d"
proof -
  define ds where "ds = lead_digits 58 d"
  have ds: "\<forall>e \<in> set ds. e < 58" using lead_digits_less [of 58 _ d] by (simp add: ds_def)
  have t: "text58 d = map char58 ds" by (simp add: ds_def)
  have b: "lead_bytes 58 ds = d" unfolding ds_def by (rule lead_bytes_digits) simp
  then have "length (nat_bytes (horner 58 0 ds)) < 2 ^ 31 - 1"
    using assms unfolding lead_bytes_def by (metis add_lessD1 add.commute length_append)
  then show ?thesis using DecodeBase58_eq [OF ds, of "[]" "[]"] ds
    by (simp add: from_base58_def t c_str_char58 b)
qed

lemma from_base58_cases:
  assumes "length s < 2 ^ 31 - 1"
  obtains (rejected) "from_base58 lib s = Inl Parse_error"
  | (accepted) ds us ws where "c_str s = us @ map char58 ds @ ws" "\<forall>d \<in> set ds. d < 58" "list_all isspace us"
      "list_all isspace ws" "from_base58 lib s = Inr (lead_bytes 58 ds)" "length (lead_bytes 58 ds) < 2 ^ 31 - 1"
proof -
  obtain us where us: "us = takeWhile isspace (c_str s)" by simp
  let ?r = "dropWhile isspace (c_str s)"
  show ?thesis
  proof (cases "\<exists>ds ws. ?r = map char58 ds @ ws \<and> (\<forall>d \<in> set ds. d < 58) \<and> list_all isspace ws")
    case True
    then obtain ds ws where r: "?r = map char58 ds @ ws" and ds: "\<forall>d \<in> set ds. d < 58" and ws: "list_all isspace ws"
      by auto
    have c: "c_str s = us @ map char58 ds @ ws" using r us by (metis takeWhile_dropWhile_id)
    have u: "list_all isspace us" by (auto simp: us list_all_iff dest: set_takeWhileD)
    have "length ds \<le> length (c_str s)" unfolding c by simp
    also have "\<dots> \<le> length s" by (simp add: c_str_def length_takeWhile_le)
    finally have len: "length ds < 2 ^ 31 - 1" using assms by simp
    have "length (nat_bytes (horner 58 0 ds)) < 2 ^ 31 - 1" using length_nat_bytes_horner [of 58 ds] ds len by simp
    then have "from_base58 lib s = Inr (lead_bytes 58 ds)"
      using DecodeBase58_eq [OF ds u ws] unfolding c [symmetric] by (simp add: from_base58_def)
    moreover have "length (lead_bytes 58 ds) < 2 ^ 31 - 1" using length_lead_bytes [of 58 ds] ds len by simp
    ultimately show ?thesis using accepted c ds u ws by blast
  next
    case False
    obtain b z where b: "cbn_of_int lib 58 = Inr b" "val b = 58" and z: "cbn_of_int lib 0 = Inr z" "val z = 0"
      by (rule of_58E)
    have "decode58_loop lib b ?r z = Inr None"
      using decode58_loop_rejects [OF b(2) _ False, of z] z(2) by simp
    then have "from_base58 lib s = Inl Parse_error"
      by (simp add: from_base58_def DecodeBase58_def b z Let_def)
    then show ?thesis by (rule rejected)
  qed
qed

end

text \<open>
  C26. Base 58 is a bijection. With a library of big numbers that keeps its promises and a check that does not throw, every
  sequence of bytes has a text in the alphabet, the encoder returns it and the decoder reads it back; and every
  text either is rejected or decodes to bytes whose encoding is the text up to its end of string, without the white space around it.
\<close>

theorem base58_bijective:
  assumes "bignum lib val" and "\<And>k. yield k = Inr ()"
    and "length d < 2 ^ 31 - 1" and "length s < 2 ^ 31 - 1"
  shows "(\<exists>t. to_base58 lib d yield = Some (Inr t) \<and> list_all (\<lambda>c. c \<in> set pszBase58) t \<and> from_base58 lib t = Inr d)
    \<and> (from_base58 lib s = Inl Parse_error \<or>
        (\<exists>e. from_base58 lib s = Inr e \<and> to_base58 lib e yield = Some (Inr (filter (\<lambda>c. \<not> isspace c) (c_str s)))))"
proof
  show "\<exists>t. to_base58 lib d yield = Some (Inr t) \<and> list_all (\<lambda>c. c \<in> set pszBase58) t \<and> from_base58 lib t = Inr d"
    using bignum.to_base58_eq [where yield = yield, OF assms(1,3,2)] bignum.from_base58_text [OF assms(1,3)] text58_chars by blast
  show "from_base58 lib s = Inl Parse_error \<or>
      (\<exists>e. from_base58 lib s = Inr e \<and> to_base58 lib e yield = Some (Inr (filter (\<lambda>c. \<not> isspace c) (c_str s))))"
  proof (rule bignum.from_base58_cases [OF assms(1,4)])
    fix ds us ws
    assume a: "c_str s = us @ map char58 ds @ ws" "\<forall>d \<in> set ds. d < 58" "list_all isspace us" "list_all isspace ws"
      "from_base58 lib s = Inr (lead_bytes 58 ds)" and l: "length (lead_bytes 58 ds) < 2 ^ 31 - 1"
    show ?thesis
      using bignum.to_base58_eq [where yield = yield, OF assms(1) l assms(2)] filter_spaces [of ds us ws] a
      by (simp add: lead_digits_bytes)
  qed simp
qed

theorem base58_bijective_witness:
  "(\<exists>t. to_base58 int_lib [0, 0xff, 7] (\<lambda>k. Inr ()) = Some (Inr t) \<and> list_all (\<lambda>c. c \<in> set pszBase58) t \<and>
      from_base58 int_lib t = Inr [0, 0xff, 7])
    \<and> (from_base58 int_lib (ascii '' 12z '') = Inl Parse_error \<or>
        (\<exists>e. from_base58 int_lib (ascii '' 12z '') = Inr e \<and>
          to_base58 int_lib e (\<lambda>k. Inr ()) = Some (Inr (filter (\<lambda>c. \<not> isspace c) (c_str (ascii '' 12z ''))))))"
  using base58_bijective [OF int_bignum.bignum_axioms, of "\<lambda>k. Inr ()" "[0, 0xff, 7]" "ascii '' 12z ''"]
  by (simp add: ascii_def)

end
