(* ===== verification/Bigint.thy ===== *)
theory Bigint
  imports Bignum_Correct Variant_Ops Text_Codecs
begin

text \<open>
  \<^verbatim>\<open>fc::bigint\<close> of \<^verbatim>\<open>src/crypto/bigint.cpp\<close> on the interface \<open>bignum\<close>. The class ignores most failures of the library: the
  object it would have stored into keeps what it held, the copy of an operand or the zero of a new number. An
  object without a number, which only a constructor out of memory makes, is undefined behaviour at once.
\<close>

definition bigint_of_bytes :: "'bn bignum_lib \<Rightarrow> bytes \<Rightarrow> u32 \<Rightarrow> 'bn result" where
  "bigint_of_bytes lib bige l = (case bn_bin2bn lib (take (unat l) bige) of None \<Rightarrow> Inl Assert_failed | Some n \<Rightarrow> Inr n)"

definition bigint_of_vector :: "'bn bignum_lib \<Rightarrow> bytes \<Rightarrow> 'bn result" where
  "bigint_of_vector lib bige = (case bn_bin2bn lib bige of None \<Rightarrow> Inl Assert_failed | Some n \<Rightarrow> Inr n)"

definition bigint_of_uint64 :: "'bn bignum_lib \<Rightarrow> u64 \<Rightarrow> 'bn result" where
  "bigint_of_uint64 lib value =
     (case bn_bin2bn lib (rev (le_bytes 8 (unat value))) of None \<Rightarrow> Inl Undefined_behaviour | Some n \<Rightarrow> Inr n)"

definition bigint_to_int64 :: "'bn bignum_lib \<Rightarrow> 'bn \<Rightarrow> u64 result" where
  "bigint_to_int64 lib n =
     fc_assert (bn_num_bits lib n \<le> 63)
       (let size = (bn_num_bits lib n + 7) div 8;
            abs_value = replicate (8 - size) 0 @ bn_bn2bin lib n
        in Inr (if bn_is_negative lib n then - of_nat (be_value abs_value) else of_nat (be_value abs_value)))"

definition bigint_log2 :: "'bn bignum_lib \<Rightarrow> 'bn \<Rightarrow> int" where
  "bigint_log2 lib n = int (bn_num_bits lib n)"

definition bigint_less :: "'bn bignum_lib \<Rightarrow> 'bn \<Rightarrow> 'bn \<Rightarrow> bool" where
  "bigint_less lib n c \<longleftrightarrow> bn_cmp lib n c < 0"

definition bigint_greater :: "'bn bignum_lib \<Rightarrow> 'bn \<Rightarrow> 'bn \<Rightarrow> bool" where
  "bigint_greater lib n c \<longleftrightarrow> bn_cmp lib n c > 0"

definition bigint_greater_eq :: "'bn bignum_lib \<Rightarrow> 'bn \<Rightarrow> 'bn \<Rightarrow> bool" where
  "bigint_greater_eq lib n c \<longleftrightarrow> bn_cmp lib n c \<ge> 0"

definition bigint_eq :: "'bn bignum_lib \<Rightarrow> 'bn \<Rightarrow> 'bn \<Rightarrow> bool" where
  "bigint_eq lib n c \<longleftrightarrow> bn_cmp lib n c = 0"

definition bigint_bool :: "'bn bignum_lib \<Rightarrow> 'bn \<Rightarrow> bool" where
  "bigint_bool lib n \<longleftrightarrow> \<not> bn_is_zero lib n"

text \<open>What a result object holds after a call of the library that may fail.\<close>

definition stored :: "'bn \<Rightarrow> 'bn option \<Rightarrow> 'bn" where
  "stored tmp r = (case r of None \<Rightarrow> tmp | Some n \<Rightarrow> n)"

definition bigint_add :: "'bn bignum_lib \<Rightarrow> 'bn \<Rightarrow> 'bn \<Rightarrow> 'bn" where
  "bigint_add lib n a = stored n (bn_add lib n a)"

definition bigint_sub :: "'bn bignum_lib \<Rightarrow> 'bn \<Rightarrow> 'bn \<Rightarrow> 'bn" where
  "bigint_sub lib n a = stored (bn_new lib) (bn_sub lib n a)"

definition bigint_sub_assign :: "'bn bignum_lib \<Rightarrow> 'bn \<Rightarrow> 'bn \<Rightarrow> 'bn" where
  "bigint_sub_assign lib n a = stored n (bn_sub lib n a)"

definition bigint_mul :: "'bn bignum_lib \<Rightarrow> 'bn \<Rightarrow> 'bn \<Rightarrow> 'bn" where
  "bigint_mul lib n a = stored n (bn_mul lib n a)"

definition bigint_div :: "'bn bignum_lib \<Rightarrow> 'bn \<Rightarrow> 'bn \<Rightarrow> 'bn" where
  "bigint_div lib n a = stored (bn_new lib) (map_option fst (bn_div lib n a))"

definition bigint_mod :: "'bn bignum_lib \<Rightarrow> 'bn \<Rightarrow> 'bn \<Rightarrow> 'bn" where
  "bigint_mod lib n a = stored (bn_new lib) (map_option snd (bn_div lib n a))"

definition bigint_exp :: "'bn bignum_lib \<Rightarrow> 'bn \<Rightarrow> 'bn \<Rightarrow> 'bn" where
  "bigint_exp lib n a = stored (bn_new lib) (bn_exp lib n a)"

definition bigint_shr_assign :: "'bn bignum_lib \<Rightarrow> 'bn \<Rightarrow> u32 \<Rightarrow> 'bn" where
  "bigint_shr_assign lib n i = stored (bn_new lib) (bn_rshift lib n (unat i))"

definition bigint_shl_assign :: "'bn bignum_lib \<Rightarrow> 'bn \<Rightarrow> u32 \<Rightarrow> 'bn" where
  "bigint_shl_assign lib n i = stored (bn_new lib) (bn_lshift lib n (unat i))"

text \<open>
  \<^verbatim>\<open>operator /=\<close>: the value it returns and the object afterwards. The quotient is swapped into the object, so the
  temporary that is returned holds the dividend.
\<close>

definition bigint_div_assign :: "'bn bignum_lib \<Rightarrow> 'bn \<Rightarrow> 'bn \<Rightarrow> 'bn \<times> 'bn" where
  "bigint_div_assign lib n a = (n, stored (bn_new lib) (map_option fst (bn_div lib n a)))"

definition bigint_inc :: "'bn bignum_lib \<Rightarrow> 'bn \<Rightarrow> 'bn result" where
  "bigint_inc lib n = and_then (bigint_of_uint64 lib 1) (\<lambda>one. Inr (bigint_add lib n one))"

definition bigint_dec :: "'bn bignum_lib \<Rightarrow> 'bn \<Rightarrow> 'bn result" where
  "bigint_dec lib n = and_then (bigint_of_uint64 lib 1) (\<lambda>one. Inr (bigint_sub lib n one))"

definition bigint_to_string :: "'bn bignum_lib \<Rightarrow> 'bn \<Rightarrow> bytes result" where
  "bigint_to_string lib n = (case bn_bn2dec lib n of None \<Rightarrow> Inl Undefined_behaviour | Some s \<Rightarrow> Inr s)"

definition bigint_to_vector :: "'bn bignum_lib \<Rightarrow> 'bn \<Rightarrow> bytes" where
  "bigint_to_vector lib n = bn_bn2bin lib n"

definition bigint_to_variant :: "'bn bignum_lib \<Rightarrow> 'bn \<Rightarrow> variant" where
  "bigint_to_variant lib bi = String (base64_encode (bigint_to_vector lib bi))"

definition bigint_from_variant :: "platform \<Rightarrow> 'bn bignum_lib \<Rightarrow> variant \<Rightarrow> 'bn result" where
  "bigint_from_variant p lib v =
     (if is_numeric v then and_then (as_uint64 p v) (bigint_of_uint64 lib)
      else and_then (as_string p v) (\<lambda>b64. and_then (base64_decode b64) (\<lambda>bin.
             bigint_of_bytes lib bin (of_nat (length bin)))))"

context bignum
begin

lemma val_stored: "map_option val r = Some v \<Longrightarrow> val (stored t r) = v"
  by (auto simp: stored_def)

lemma val_bigint_ops [simp]:
  "val (bigint_add lib a b) = val a + val b" "val (bigint_sub lib a b) = val a - val b"
  "val (bigint_sub_assign lib a b) = val a - val b" "val (bigint_mul lib a b) = val a * val b"
  "val (bigint_shl_assign lib a i) = val a * 2 ^ unat i" "val (bigint_shr_assign lib a i) = tdiv (val a) (2 ^ unat i)"
  by (simp_all add: bigint_add_def bigint_sub_def bigint_sub_assign_def bigint_mul_def bigint_shl_assign_def
      bigint_shr_assign_def val_stored add sub mul lshift rshift)

lemma val_bigint_div:
  "val (bigint_div lib a b) = (if val b = 0 then 0 else tdiv (val a) (val b))"
  "val (bigint_mod lib a b) = (if val b = 0 then 0 else trem (val a) (val b))"
  "val (snd (bigint_div_assign lib a b)) = (if val b = 0 then 0 else tdiv (val a) (val b))"
  using division [of b a] by (auto simp: bigint_div_def bigint_mod_def bigint_div_assign_def stored_def division_zero)

lemma val_bigint_exp: "0 \<le> val b \<Longrightarrow> val (bigint_exp lib a b) = val a ^ nat (val b)"
  by (simp add: bigint_exp_def val_stored exp)

lemma bigint_bool_iff [simp]: "bigint_bool lib a \<longleftrightarrow> val a \<noteq> 0"
  by (simp add: bigint_bool_def)

lemma gives_of_uint64: "gives val (bigint_of_uint64 lib w) (uint w)"
proof -
  have "unat w mod 256 ^ 8 = unat w" using word_unat_lt [of w] by simp
  then show ?thesis using bin2bn [of "rev (le_bytes 8 (unat w))"]
    by (auto simp: bigint_of_uint64_def gives_def be_value_rev_le of_le_bytes_le_bytes simp del: of_le_bytes.simps le_bytes.simps split: option.splits)
qed

lemma gives_of_bytes:
  assumes "length bs < 2 ^ 31"
  shows "gives val (bigint_of_bytes lib bs (of_nat (length bs))) (int (be_value bs))"
proof -
  have "unat (of_nat (length bs) :: u32) = length bs" using assms by (simp add: unat_of_nat)
  then show ?thesis using bin2bn [OF assms] by (auto simp: bigint_of_bytes_def gives_def split: option.splits)
qed

lemma to_int64_eq:
  "bigint_to_int64 lib a = (if \<bar>val a\<bar> < 2 ^ 63 then Inr (of_int (val a)) else Inl Assert_failed)"
proof -
  have "bn_num_bits lib a \<le> 63 \<longleftrightarrow> nat \<bar>val a\<bar> < 2 ^ 63" by (simp add: num_bits num_bits_def length_digits_iff)
  also have "\<dots> \<longleftrightarrow> \<bar>val a\<bar> < 2 ^ 63" by (simp add: nat_less_iff)
  finally have b: "bn_num_bits lib a \<le> 63 \<longleftrightarrow> \<bar>val a\<bar> < 2 ^ 63" .
  have "be_value (replicate k 0 @ bn_bn2bin lib a) = nat \<bar>val a\<bar>" for k by (simp add: be_value_append bn2bin)
  then show ?thesis unfolding bigint_to_int64_def b Let_def is_negative by (auto simp: fc_assert_def)
qed

lemma gives_inc: "gives val (bigint_inc lib a) (val a + 1)"
  using gives_of_uint64 [of 1] by (auto simp: bigint_inc_def gives_def)

end

text \<open>
  What \<^verbatim>\<open>fc::bigint\<close> keeps. Through a variant a number comes back without its sign, for the encoding is that of the
  magnitude; \<^verbatim>\<open>to_int64\<close> is exact or fails its assertion; \<^verbatim>\<open>operator /=\<close> leaves the truncated quotient in the
  object but returns the dividend, and division by zero gives zero instead of an error.
\<close>

lemma bigint_values:
  assumes "bignum lib val" and "length (nat_bytes (nat \<bar>val a\<bar>)) < 3 * 2 ^ 29 - 2"
  shows "gives val (bigint_from_variant p lib (bigint_to_variant lib a)) \<bar>val a\<bar>
    \<and> bigint_to_int64 lib a = (if \<bar>val a\<bar> < 2 ^ 63 then Inr (of_int (val a)) else Inl Assert_failed)
    \<and> fst (bigint_div_assign lib a b) = a
    \<and> val (snd (bigint_div_assign lib a b)) = (if val b = 0 then 0 else tdiv (val a) (val b))"
proof (intro conjI)
  let ?bs = "nat_bytes (nat \<bar>val a\<bar>)"
  have bs: "bigint_to_vector lib a = ?bs" by (simp add: bigint_to_vector_def bignum.bn2bin [OF assms(1)])
  have "base64_decode (base64_encode ?bs) = Inr ?bs" by (rule base64.decode_encode [OF assms(2)])
  then have "bigint_from_variant p lib (bigint_to_variant lib a) = bigint_of_bytes lib ?bs (of_nat (length ?bs))"
    by (simp add: bigint_from_variant_def bigint_to_variant_def bs is_numeric_def)
  then show "gives val (bigint_from_variant p lib (bigint_to_variant lib a)) \<bar>val a\<bar>"
    using bignum.gives_of_bytes [OF assms(1), of ?bs] assms(2) by simp
  show "fst (bigint_div_assign lib a b) = a" by (simp add: bigint_div_assign_def)
qed (rule bignum.to_int64_eq [OF assms(1)] bignum.val_bigint_div(3) [OF assms(1)])+

end
