(* ===== verification/Base36.thy ===== *)
theory Base36
  imports Bigint
begin

text \<open>
  \<^verbatim>\<open>src/crypto/base36.cpp\<close> on \<^verbatim>\<open>fc::bigint\<close>. The encoder fills an array from its end; a store in front of the array is
  undefined behaviour. The size of the array is computed in floating point, \<^verbatim>\<open>len * 1.6\<close> rounded down, which for every
  length of an object in memory is \<open>8 * len div 5\<close>.
\<close>

definition base36_chars :: bytes where
  "base36_chars = ascii ''0123456789abcdefghijklmnopqrstuvwxyz''"

text \<open>\<^verbatim>\<open>out[--pos] = c\<close>\<close>

definition put_front :: "byte \<Rightarrow> nat \<times> bytes \<Rightarrow> (nat \<times> bytes) result" where
  "put_front c = (\<lambda>(pos, out). if pos = 0 then Inl Undefined_behaviour else Inr (pos - 1, out[pos - 1 := c]))"

definition put_digit36 :: "'bn bignum_lib \<Rightarrow> 'bn \<Rightarrow> 'bn \<Rightarrow> nat \<times> bytes \<Rightarrow> (nat \<times> bytes) result" where
  "put_digit36 lib b36 value st =
     (if bigint_bool lib value
      then and_then (bigint_to_int64 lib (bigint_mod lib value b36)) (\<lambda>i.
             and_then (literal_at base36_chars (unat i)) (\<lambda>c. put_front c st))
      else Inr st)"

partial_function (option) to_base36_loop ::
  "'bn bignum_lib \<Rightarrow> 'bn \<Rightarrow> 'bn \<Rightarrow> nat \<times> bytes \<Rightarrow> (nat \<times> bytes) result option" where
  "to_base36_loop lib b36 value st =
     (case put_digit36 lib b36 value st of
        Inl e \<Rightarrow> Some (Inl e)
      | Inr st \<Rightarrow>
          (case bigint_div_assign lib value b36 of
             (returned, value) \<Rightarrow> if bigint_bool lib returned then to_base36_loop lib b36 value st else Some (Inr st)))"

fun put_zeros36 :: "bytes \<Rightarrow> nat \<times> bytes \<Rightarrow> (nat \<times> bytes) result" where
  "put_zeros36 [] st = Inr st"
| "put_zeros36 (b # bs) st = (if b = 0 then and_then (put_front 0x30 st) (put_zeros36 bs) else Inr st)"

definition to_base36 :: "'bn bignum_lib \<Rightarrow> bytes \<Rightarrow> bytes result option" where
  "to_base36 lib data =
     (if data = [] then Some (Inr [])
      else
        (let src = (if hd data AND 0x80 \<noteq> 0 then 0 # data else data);
             size = 8 * length data div 5 + 2
         in case and_then (bigint_of_bytes lib src (of_nat (length src))) (\<lambda>value.
                   and_then (bigint_of_uint64 lib 36) (\<lambda>b36. Inr (value, b36))) of
              Inl e \<Rightarrow> Some (Inl e)
            | Inr (value, b36) \<Rightarrow>
                map_option (\<lambda>r. and_then r (\<lambda>st. and_then (put_zeros36 data st) (\<lambda>(pos, out). Inr (c_str (drop pos out)))))
                  (to_base36_loop lib b36 value (size - 1, replicate size 0))))"

definition digit36 :: "byte \<Rightarrow> nat option" where
  "digit36 c =
     (if 0x30 \<le> c \<and> c \<le> 0x39 then Some (unat c - 0x30)
      else if 0x61 \<le> c \<and> c \<le> 0x7a then Some (10 + unat c - 0x61)
      else if 0x41 \<le> c \<and> c \<le> 0x5a then Some (10 + unat c - 0x41)
      else None)"

text \<open>The loop over the characters from the last to the first; an unknown character is logged and counts as a position.\<close>

fun from_base36_loop :: "'bn bignum_lib \<Rightarrow> 'bn \<Rightarrow> bytes \<Rightarrow> 'bn \<Rightarrow> 'bn \<Rightarrow> 'bn result" where
  "from_base36_loop lib b36 [] pos value = Inr value"
| "from_base36_loop lib b36 (c # cs) pos value =
     and_then (case digit36 c of
                 None \<Rightarrow> Inr value
               | Some d \<Rightarrow> and_then (bigint_of_uint64 lib (of_nat d)) (\<lambda>d.
                   Inr (bigint_add lib value (bigint_mul lib (bigint_exp lib b36 pos) d)))) (\<lambda>value.
       and_then (bigint_inc lib pos) (\<lambda>pos. from_base36_loop lib b36 cs pos value))"

definition from_base36 :: "'bn bignum_lib \<Rightarrow> bytes \<Rightarrow> bytes result" where
  "from_base36 lib b36_str =
     (if b36_str = [] then Inr []
      else and_then (bigint_of_uint64 lib 0) (\<lambda>pos. and_then (bigint_of_uint64 lib 36) (\<lambda>b36.
             and_then (from_base36_loop lib b36 (rev b36_str) pos (bn_new lib)) (\<lambda>value.
               let bs = bigint_to_vector lib value;
                   leading_zeros = length (takeWhile (\<lambda>c. c = 0x30) (c_str b36_str))
               in Inr (replicate leading_zeros 0 @ dropWhile (\<lambda>b. b = 0) bs)))))"

subsection \<open>The alphabet\<close>

definition char36 :: "nat \<Rightarrow> byte" where
  "char36 d = base36_chars ! d"

lemma char36_ok:
  assumes "d < 36"
  shows "digit36 (char36 d) = Some d" and "char36 d \<noteq> 0" and "char36 d = 0x30 \<longleftrightarrow> d = 0"
    and "literal_at base36_chars d = Inr (char36 d)"
proof -
  have "\<forall>d \<in> set [0..<36]. digit36 (char36 d) = Some d \<and> char36 d \<noteq> 0 \<and> (char36 d = 0x30 \<longleftrightarrow> d = 0)" by code_simp
  moreover have "d \<in> set [0..<36]" using assms by simp
  ultimately show "digit36 (char36 d) = Some d" "char36 d \<noteq> 0" "char36 d = 0x30 \<longleftrightarrow> d = 0" by blast+
  show "literal_at base36_chars d = Inr (char36 d)"
    using assms by (simp add: literal_at_def char36_def base36_chars_def ascii_def)
qed

lemma digit36_zero: "digit36 c = Some d \<Longrightarrow> d = 0 \<longleftrightarrow> c = 0x30"
  by (auto simp: digit36_def word_le_nat_alt word_unat_eq_iff split: if_splits)

lemma digit36_less: "digit36 c = Some d \<Longrightarrow> d < 36"
  by (auto simp: digit36_def word_le_nat_alt split: if_splits)

text \<open>The lower-case form of a letter or digit.\<close>

definition lower36 :: "byte \<Rightarrow> byte" where
  "lower36 c = (if 0x41 \<le> c \<and> c \<le> 0x5a then c + 0x20 else c)"

lemma char36_code:
  assumes "d < 36"
  shows "char36 d = of_nat (if d < 10 then 48 + d else 87 + d)"
proof -
  have "\<forall>d \<in> set [0..<36]. char36 d = of_nat (if d < 10 then 48 + d else 87 + d)" by code_simp
  then show ?thesis using assms by simp
qed

lemma digit36_lower:
  assumes "digit36 c = Some d"
  shows "char36 d = lower36 c"
proof -
  have c: "(of_nat (unat c) :: byte) = c" by simp
  have u: "0x41 \<le> c \<and> c \<le> 0x5a \<longleftrightarrow> 65 \<le> unat c \<and> unat c \<le> 90" by (simp add: word_le_nat_alt)
  consider "48 \<le> unat c" "unat c \<le> 57" "d = unat c - 48" | "97 \<le> unat c" "unat c \<le> 122" "d = unat c - 87"
    | "65 \<le> unat c" "unat c \<le> 90" "d = unat c - 55"
    using assms by (auto simp: digit36_def word_le_nat_alt split: if_splits)
  then show ?thesis
  proof cases
    case 1
    then have "d < 10" "48 + d = unat c" "d < 36" "\<not> (65 \<le> unat c \<and> unat c \<le> 90)" by linarith+
    then show ?thesis by (simp only: char36_code if_True lower36_def u if_False c)
  next
    case 2
    then have "\<not> d < 10" "87 + d = unat c" "d < 36" "\<not> (65 \<le> unat c \<and> unat c \<le> 90)" by linarith+
    then show ?thesis by (simp only: char36_code lower36_def u if_False c)
  next
    case 3
    then have "\<not> d < 10" "87 + d = unat c + 32" "d < 36" by linarith+
    then have "char36 d = of_nat (unat c + 32)" by (simp only: char36_code if_False)
    then show ?thesis using 3 u unfolding lower36_def of_nat_add c by simp
  qed
qed

subsection \<open>The array\<close>

text \<open>Room for the digits of the bytes after the leading zeros, and for those zeros.\<close>

lemma digits36_fit:
  assumes "v < 256 ^ m"
  shows "length (digits 36 v) \<le> 8 * m div 5 + 1"
proof -
  have "v < 2 ^ (8 * m)" using assms by (simp add: power_mult)
  also have "\<dots> \<le> 2 ^ (5 * (8 * m div 5 + 1))"
  proof (rule power_increasing)
    have "x \<le> 5 * (x div 5 + 1)" for x :: nat by presburger
    then show "8 * m \<le> 5 * (8 * m div 5 + 1)" .
  qed simp
  also have "\<dots> = 32 ^ (8 * m div 5 + 1)" by (simp only: power_mult) simp
  also have "\<dots> \<le> 36 ^ (8 * m div 5 + 1)" by (rule power_mono) simp_all
  finally show ?thesis by (intro length_digits) simp_all
qed

lemma text36_fits:
  fixes d :: bytes
  defines "k \<equiv> length (takeWhile (\<lambda>b. b = 0) d)"
  shows "k + length (digits 36 (be_value d)) \<le> 8 * length d div 5 + 1"
proof -
  have split: "d = takeWhile (\<lambda>b. b = 0) d @ dropWhile (\<lambda>b. b = 0) d" by simp
  have "length d = k + length (dropWhile (\<lambda>b. b = 0) d)" unfolding k_def by (metis length_append split)
  moreover have "be_value d < 256 ^ length (dropWhile (\<lambda>b. b = 0) d)"
    using be_value_less [of "dropWhile (\<lambda>b. b = 0) d"] by simp
  ultimately have "length (digits 36 (be_value d)) \<le> 8 * (length d - k) div 5 + 1" "k \<le> length d"
    using digits36_fit by auto
  then show ?thesis by linarith
qed

lemma put_front_suffix:
  assumes "pos \<le> length out" and "0 < pos"
  shows "put_front c (pos, out) = Inr (pos - 1, out[pos - 1 := c])"
    and "drop (pos - 1) (out[pos - 1 := c]) = c # drop pos out"
proof -
  show "put_front c (pos, out) = Inr (pos - 1, out[pos - 1 := c])" using assms by (simp add: put_front_def)
  have "drop (pos - 1) (out[pos - 1 := c]) = (out[pos - 1 := c]) ! (pos - 1) # drop (Suc (pos - 1)) (out[pos - 1 := c])"
    using assms by (intro Cons_nth_drop_Suc [symmetric]) simp
  then show "drop (pos - 1) (out[pos - 1 := c]) = c # drop pos out" using assms by simp
qed

lemma put_zeros36_eq:
  assumes "length (takeWhile (\<lambda>b. b = 0) bs) \<le> pos" and "pos \<le> length out"
  shows "\<exists>out'. put_zeros36 bs (pos, out) = Inr (pos - length (takeWhile (\<lambda>b. b = 0) bs), out') \<and>
     drop (pos - length (takeWhile (\<lambda>b. b = 0) bs)) out' = map (\<lambda>_. 0x30) (takeWhile (\<lambda>b. b = 0) bs) @ drop pos out"
  using assms
proof (induction bs arbitrary: pos out)
  case (Cons b bs)
  show ?case
  proof (cases "b = 0")
    case True
    then have p: "0 < pos" "pos \<le> length out" using Cons.prems by simp_all
    have "\<exists>out'. put_zeros36 bs (pos - 1, out[pos - 1 := 0x30]) = Inr (pos - 1 - length (takeWhile (\<lambda>b. b = 0) bs), out') \<and>
        drop (pos - 1 - length (takeWhile (\<lambda>b. b = 0) bs)) out' =
          map (\<lambda>_. 0x30) (takeWhile (\<lambda>b. b = 0) bs) @ drop (pos - 1) (out[pos - 1 := 0x30])"
      using Cons.prems True by (intro Cons.IH) simp_all
    moreover have e: "map (\<lambda>_. 0x30) xs @ 0x30 # ys = 0x30 # map (\<lambda>_. 0x30) xs @ ys" for xs ys :: bytes
      by (induction xs) simp_all
    ultimately show ?thesis using True put_front_suffix [OF p(2,1)] by (simp add: e)
  qed simp
qed simp

context bignum
begin

lemma to_base36_loop_eq:
  assumes "val b36 = 36" and "0 \<le> val a" and "length (digits 36 (nat (val a))) \<le> pos" and "pos \<le> length out"
  shows "\<exists>out'. to_base36_loop lib b36 a (pos, out) = Some (Inr (pos - length (digits 36 (nat (val a))), out')) \<and>
     length out' = length out \<and>
     drop (pos - length (digits 36 (nat (val a)))) out' = map char36 (digits 36 (nat (val a))) @ drop pos out"
  using assms(2-4)
proof (induction "nat (val a)" arbitrary: a pos out rule: less_induct)
  case less
  have q: "val (snd (bigint_div_assign lib a b36)) = val a div 36"
    using less.prems(1) assms(1) by (simp add: val_bigint_div tdiv_nonneg)
  show ?case
  proof (cases "val a = 0")
    case True
    then show ?thesis by (subst to_base36_loop.simps) (simp add: put_digit36_def bigint_div_assign_def)
  next
    case False
    then have pos: "0 < val a" using less.prems by simp
    let ?n = "nat (val a)" and ?q = "snd (bigint_div_assign lib a b36)"
    have "val (bigint_mod lib a b36) = val a mod 36" using pos assms(1) by (simp add: val_bigint_div trem_nonneg)
    moreover have "\<bar>val a mod 36\<bar> < 2 ^ 63" by (rule order.strict_trans1 [of _ 36]) (simp_all add: abs_le_iff less_imp_le)
    ultimately have "bigint_to_int64 lib (bigint_mod lib a b36) = Inr (of_int (val a mod 36))" by (simp add: to_int64_eq)
    moreover have "unat (of_int (val a mod 36) :: u64) = ?n mod 36"
    proof -
      have "uint (of_int (val a mod 36) :: u64) = val a mod 36"
        using pos_mod_bound [of 36 "val a"] by (subst uint_word_of_int_eq, intro take_bit_int_eq_self) (simp_all add: less_le_trans)
      then show ?thesis using pos by (metis nat_mod_distrib nat_numeral nat_uint_eq order_less_imp_le zero_le_numeral)
    qed
    ultimately have put: "put_digit36 lib b36 a (pos, out) = put_front (char36 (?n mod 36)) (pos, out)" for pos out
      using pos by (simp add: put_digit36_def char36_ok)
    have dig: "digits 36 ?n = digits 36 (?n div 36) @ [?n mod 36]" using pos by (simp add: digits_step)
    have n: "nat (val ?q) = ?n div 36" using pos q by (simp add: nat_div_distrib)
    have p: "0 < pos" "pos \<le> length out" using less.prems dig by simp_all
    have "to_base36_loop lib b36 a (pos, out) = to_base36_loop lib b36 ?q (pos - 1, out[pos - 1 := char36 (?n mod 36)])"
      using pos by (subst to_base36_loop.simps) (simp add: put put_front_suffix [OF p(2,1)] bigint_div_assign_def)
    moreover have "\<exists>out'. to_base36_loop lib b36 ?q (pos - 1, out[pos - 1 := char36 (?n mod 36)]) =
        Some (Inr (pos - 1 - length (digits 36 (nat (val ?q))), out')) \<and> length out' = length (out[pos - 1 := char36 (?n mod 36)]) \<and>
        drop (pos - 1 - length (digits 36 (nat (val ?q)))) out' =
          map char36 (digits 36 (nat (val ?q))) @ drop (pos - 1) (out[pos - 1 := char36 (?n mod 36)])"
      using less.prems pos dig by (intro less.hyps) (simp_all add: q nat_div_distrib pos_imp_zdiv_nonneg_iff)
    ultimately show ?thesis using put_front_suffix [OF p(2,1)] by (simp add: n dig)
  qed
qed

lemma from_base36_loop_gives:
  assumes "val b36 = 36" and "list_all (\<lambda>c. digit36 c \<noteq> None) cs" and "0 \<le> val pos"
  shows "gives val (from_base36_loop lib b36 cs pos a)
     (val a + 36 ^ nat (val pos) * int (horner 36 0 (rev (map (the \<circ> digit36) cs))))"
  using assms(2,3)
proof (induction cs arbitrary: a pos)
  case (Cons c cs)
  then obtain d where d: "digit36 c = Some d" by auto
  then have "d < 2 ^ 64" by (auto simp: digit36_def word_le_nat_alt split: if_splits)
  then have "uint (of_nat d :: u64) = int d" by (simp add: uint_nat unat_of_nat)
  then obtain n where n: "bigint_of_uint64 lib (of_nat d) = Inr n" "val n = int d"
    using gives_of_uint64 [of "of_nat d"] by (auto simp: gives_def)
  obtain p where p: "bigint_inc lib pos = Inr p" "val p = val pos + 1"
    using gives_inc [of pos] by (rule givesE)
  let ?a = "bigint_add lib a (bigint_mul lib (bigint_exp lib b36 pos) n)"
  have a: "val ?a = val a + 36 ^ nat (val pos) * int d" using Cons.prems assms(1) n by (simp add: val_bigint_exp)
  have e: "nat (val p) = Suc (nat (val pos))" using p Cons.prems by (simp add: nat_add_distrib)
  have "gives val (from_base36_loop lib b36 cs p ?a)
     (val ?a + 36 ^ nat (val p) * int (horner 36 0 (rev (map (the \<circ> digit36) cs))))"
    using Cons.prems p by (intro Cons.IH) simp_all
  then show ?case unfolding a e by (simp add: d n p algebra_simps comp_def)
qed simp

lemma to_base36_eq:
  assumes "length d < 2 ^ 31 - 1"
  shows "to_base36 lib d = Some (Inr (map (\<lambda>_. 0x30) (takeWhile (\<lambda>b. b = 0) d) @ map char36 (digits 36 (be_value d))))"
proof (cases "d = []")
  case False
  define src where "src = (if hd d AND 0x80 \<noteq> 0 then 0 # d else d)"
  have src: "length src < 2 ^ 31" "be_value src = be_value d" using assms by (simp_all add: src_def)
  obtain v where v: "bigint_of_bytes lib src (of_nat (length src)) = Inr v" "val v = int (be_value d)"
    using gives_of_bytes [OF src(1)] src(2) by (auto simp: gives_def)
  obtain b where b: "bigint_of_uint64 lib 36 = Inr b" "val b = 36"
    using gives_of_uint64 [of 36] by (auto simp: gives_def)
  obtain n where n: "8 * length d div 5 = n" by simp
  let ?size = "n + 2" and ?k = "length (takeWhile (\<lambda>b. b = 0) d)" and ?l = "length (digits 36 (be_value d))"
  have fits: "?k + ?l \<le> ?size - 1" using text36_fits [of d] n by simp
  have nat: "nat (val v) = be_value d" by (simp add: v)
  have last: "drop (?size - 1) (replicate ?size (0 :: byte)) = [0]" by (subst drop_replicate) simp
  have "\<exists>out. to_base36_loop lib b v (?size - 1, replicate ?size 0) = Some (Inr (?size - 1 - ?l, out)) \<and>
      length out = length (replicate ?size (0 :: byte)) \<and>
      drop (?size - 1 - ?l) out = map char36 (digits 36 (be_value d)) @ drop (?size - 1) (replicate ?size 0)"
    using to_base36_loop_eq [of b v "?size - 1" "replicate ?size 0"] fits b(2) unfolding nat by (simp add: v)
  then obtain out where o: "to_base36_loop lib b v (?size - 1, replicate ?size 0) = Some (Inr (?size - 1 - ?l, out))"
    "length out = ?size" "drop (?size - 1 - ?l) out = map char36 (digits 36 (be_value d)) @ [0]" unfolding last length_replicate by blast
  have room: "?k \<le> ?size - 1 - ?l" "?size - 1 - ?l \<le> length out" using fits o(2) by linarith+
  obtain out' where o': "put_zeros36 d (?size - 1 - ?l, out) = Inr (?size - 1 - ?l - ?k, out')"
    "drop (?size - 1 - ?l - ?k) out' = map (\<lambda>_. 0x30) (takeWhile (\<lambda>b. b = 0) d) @ drop (?size - 1 - ?l) out"
    using put_zeros36_eq [OF room] by blast
  let ?t = "map (\<lambda>_. 0x30) (takeWhile (\<lambda>b. b = 0) d) @ map char36 (digits 36 (be_value d))"
  have "char36 e \<noteq> 0" if "e \<in> set (digits 36 (be_value d))" for e
    by (rule char36_ok(2), rule digits_less [OF _ that]) simp
  then have "\<forall>c \<in> set ?t. c \<noteq> 0" by (simp add: ball_Un)
  then have "takeWhile (\<lambda>c. c \<noteq> 0) (?t @ [0]) = ?t @ takeWhile (\<lambda>c. c \<noteq> 0) [0]"
    by (intro takeWhile_append2) blast
  moreover have "drop (?size - 1 - ?l - ?k) out' = ?t @ [0]" using o'(2) o(3) by (simp only: append_assoc)
  ultimately have "c_str (drop (?size - 1 - ?l - ?k) out') = ?t" by (simp add: c_str_def)
  then show ?thesis
    by (simp only: to_base36_def Let_def n src_def [symmetric] v b False if_False and_then_simps sum.case prod.case
        o(1) o'(1) option.map)
qed (simp add: to_base36_def)

lemma to_base36_text: "length d < 2 ^ 31 - 1 \<Longrightarrow> to_base36 lib d = Some (Inr (map char36 (lead_digits 36 d)))"
  using to_base36_eq [of d] char36_ok(3) [of 0] by (simp add: lead_digits_def comp_def)

lemma from_base36_eq:
  assumes "list_all (\<lambda>c. digit36 c \<noteq> None) s"
  shows "from_base36 lib s = Inr (lead_bytes 36 (map (the \<circ> digit36) s))"
proof (cases "s = []")
  case False
  let ?ds = "map (the \<circ> digit36) s"
  obtain z where z: "bigint_of_uint64 lib 0 = Inr z" "val z = 0"
    using gives_of_uint64 [of 0] by (auto simp: gives_def)
  obtain b where b: "bigint_of_uint64 lib 36 = Inr b" "val b = 36"
    using gives_of_uint64 [of 36] by (auto simp: gives_def)
  have r: "list_all (\<lambda>c. digit36 c \<noteq> None) (rev s)" using assms by simp
  obtain v where v: "from_base36_loop lib b (rev s) z (bn_new lib) = Inr v" "val v = int (horner 36 0 ?ds)"
    using from_base36_loop_gives [OF b(2) r, of z "bn_new lib"] z(2) by (auto simp: gives_def rev_map)
  have c: "c_str s = s" using assms by (auto simp: c_str_def takeWhile_eq_all_conv list_all_iff digit36_def)
  have "length (takeWhile (\<lambda>c. c = 0x30) s) = length (takeWhile (\<lambda>d. d = 0) ?ds)"
    using assms by (induction s) (auto simp: digit36_zero)
  moreover have "dropWhile (\<lambda>b. b = 0) (nat_bytes n) = nat_bytes n" for n
    using nat_bytes_be_value [of "nat_bytes n"] by simp
  ultimately show ?thesis using False
    by (simp add: from_base36_def z b v c lead_bytes_def bigint_to_vector_def bn2bin map_replicate_const)
qed (simp add: from_base36_def lead_bytes_def)

end

text \<open>
  Base 36 round trip, on every library of big numbers that keeps its promises. The encoder returns for every sequence of
  bytes, never stores outside of its array although that is sized by an estimate, and the decoder gives
  the bytes back; conversely a text of letters and digits decodes to bytes whose text is its lower-case form.
\<close>

lemma base36_bijective:
  assumes "bignum lib val" and "length d < 2 ^ 31 - 1" and "length s < 2 ^ 31 - 1" and "list_all (\<lambda>c. digit36 c \<noteq> None) s"
  shows "(\<exists>t. to_base36 lib d = Some (Inr t) \<and> from_base36 lib t = Inr d)
    \<and> (\<exists>e. from_base36 lib s = Inr e \<and> to_base36 lib e = Some (Inr (map lower36 s)))"
proof
  have t: "to_base36 lib d = Some (Inr (map char36 (lead_digits 36 d)))" if "length d < 2 ^ 31 - 1" for d
    by (rule bignum.to_base36_text [OF assms(1) that])
  have "list_all (\<lambda>c. digit36 c \<noteq> None) (map char36 (lead_digits 36 d))"
    "map (the \<circ> digit36) (map char36 (lead_digits 36 d)) = lead_digits 36 d"
    using lead_digits_less [of 36 _ d] by (auto simp: list_all_iff char36_ok intro!: map_idI)
  then have "from_base36 lib (map char36 (lead_digits 36 d)) = Inr d"
    using bignum.from_base36_eq [OF assms(1), of "map char36 (lead_digits 36 d)"] by (simp only: lead_bytes_digits)
  with t [OF assms(2)] show "\<exists>t. to_base36 lib d = Some (Inr t) \<and> from_base36 lib t = Inr d" by blast
  let ?ds = "map (the \<circ> digit36) s"
  have ds: "\<forall>e \<in> set ?ds. e < 36" using assms(4) digit36_less by (fastforce simp: list_all_iff)
  have "map char36 ?ds = map lower36 s" using assms(4) by (auto simp: list_all_iff digit36_lower)
  moreover have "length (lead_bytes 36 ?ds) < 2 ^ 31 - 1" using length_lead_bytes [OF _ _ ds] assms(3) by simp
  ultimately have "to_base36 lib (lead_bytes 36 ?ds) = Some (Inr (map lower36 s))"
    using t ds by (simp only: lead_digits_bytes)
  then show "\<exists>e. from_base36 lib s = Inr e \<and> to_base36 lib e = Some (Inr (map lower36 s))"
    using bignum.from_base36_eq [OF assms(1,4)] by blast
qed

end
