(* ===== verification/Blake2.thy ===== *)
theory Blake2
  imports Fc_Prelude
begin

text \<open>
  The compression function of BLAKE2b in \<^verbatim>\<open>src/crypto/blake2.cpp\<close>, as EIP-152 exposes it: the number of rounds, the state and the
  offsets are arguments. The arrays \<open>m\<close> and \<open>v\<close> of the wrapper class are lists of 16 words.
\<close>

definition blake2b_IV :: "u64 list" where
  "blake2b_IV = [0x6a09e667f3bcc908, 0xbb67ae8584caa73b, 0x3c6ef372fe94f82b, 0xa54ff53a5f1d36f1,
     0x510e527fade682d1, 0x9b05688c2b3e6c1f, 0x1f83d9abfb41bd6b, 0x5be0cd19137e2179]"

definition blake2b_sigma :: "nat list list" where
  "blake2b_sigma = [
     [0, 1, 2, 3, 4, 5, 6, 7, 8, 9, 10, 11, 12, 13, 14, 15], [14, 10, 4, 8, 9, 15, 13, 6, 1, 12, 0, 2, 11, 7, 5, 3],
     [11, 8, 12, 0, 5, 2, 15, 13, 10, 14, 3, 6, 7, 1, 9, 4], [7, 9, 3, 1, 13, 12, 11, 14, 2, 6, 5, 10, 4, 0, 15, 8],
     [9, 0, 5, 7, 2, 4, 10, 15, 14, 1, 11, 12, 6, 8, 3, 13], [2, 12, 6, 10, 0, 11, 8, 3, 4, 13, 7, 5, 15, 14, 1, 9],
     [12, 5, 1, 15, 14, 13, 4, 10, 0, 7, 6, 3, 9, 2, 8, 11], [13, 11, 7, 14, 12, 1, 3, 9, 5, 0, 15, 4, 8, 6, 2, 10],
     [6, 15, 14, 9, 11, 3, 0, 8, 12, 2, 13, 7, 1, 4, 10, 5], [10, 2, 8, 4, 7, 6, 1, 5, 15, 11, 9, 14, 3, 12, 13, 0],
     [0, 1, 2, 3, 4, 5, 6, 7, 8, 9, 10, 11, 12, 13, 14, 15], [14, 10, 4, 8, 9, 15, 13, 6, 1, 12, 0, 2, 11, 7, 5, 3]]"

definition load64 :: "bytes \<Rightarrow> u64" where
  "load64 src = of_nat (of_le_bytes (take 8 src))"

definition rotr64 :: "u64 \<Rightarrow> nat \<Rightarrow> u64" where
  "rotr64 w c = drop_bit c w OR push_bit (64 - c) w"

record blake2b_state =
  st_h :: "u64 list"
  st_t :: "u64 list"
  st_f :: "u64 list"

text \<open>\<^verbatim>\<open>G(r, i, a, b, c, d)\<close>: the four words it leaves.\<close>

definition mix_G :: "u64 list \<Rightarrow> nat \<Rightarrow> nat \<Rightarrow> u64 \<Rightarrow> u64 \<Rightarrow> u64 \<Rightarrow> u64 \<Rightarrow> u64 \<times> u64 \<times> u64 \<times> u64" where
  "mix_G m r i a b c d =
     (let a = a + b + m ! (blake2b_sigma ! r ! (2 * i + 0));
          d = rotr64 (d XOR a) 32;
          c = c + d;
          b = rotr64 (b XOR c) 24;
          a = a + b + m ! (blake2b_sigma ! r ! (2 * i + 1));
          d = rotr64 (d XOR a) 16;
          c = c + d;
          b = rotr64 (b XOR c) 63
      in (a, b, c, d))"

text \<open>The call with references to four places of \<open>v\<close>.\<close>

definition G_at :: "u64 list \<Rightarrow> nat \<Rightarrow> nat \<Rightarrow> nat \<Rightarrow> nat \<Rightarrow> nat \<Rightarrow> nat \<Rightarrow> u64 list \<Rightarrow> u64 list" where
  "G_at m r i ia ib ic ie v =
     (case mix_G m r i (v ! ia) (v ! ib) (v ! ic) (v ! ie) of (a, b, c, d) \<Rightarrow> v[ia := a, ib := b, ic := c, ie := d])"

definition ROUND :: "u64 list \<Rightarrow> nat \<Rightarrow> u64 list \<Rightarrow> u64 list" where
  "ROUND m r v =
     (let v = G_at m r 0 0 4 8 12 v;
          v = G_at m r 1 1 5 9 13 v;
          v = G_at m r 2 2 6 10 14 v;
          v = G_at m r 3 3 7 11 15 v;
          v = G_at m r 4 0 5 10 15 v;
          v = G_at m r 5 1 6 11 12 v;
          v = G_at m r 6 2 7 8 13 v;
          v = G_at m r 7 3 4 9 14 v
      in v)"

definition compress_init_m :: "bytes \<Rightarrow> u64 list" where
  "compress_init_m block = map (\<lambda>i. load64 (drop (i * 8) block)) [0..<16]"

definition compress_init_v :: "blake2b_state \<Rightarrow> u64 list" where
  "compress_init_v S =
     take 8 (st_h S) @ [blake2b_IV ! 0, blake2b_IV ! 1, blake2b_IV ! 2, blake2b_IV ! 3,
       blake2b_IV ! 4 XOR st_t S ! 0, blake2b_IV ! 5 XOR st_t S ! 1, blake2b_IV ! 6 XOR st_f S ! 0, blake2b_IV ! 7]"

definition compress_end :: "u64 list \<Rightarrow> blake2b_state \<Rightarrow> blake2b_state" where
  "compress_end v S = S \<lparr> st_h := map (\<lambda>i. st_h S ! i XOR v ! i XOR v ! (i + 8)) [0..<8] \<rparr>"

text \<open>The rounds from \<open>i\<close> on, \<open>n\<close> of them; \<open>k\<close> counts the calls of \<open>yield\<close>.\<close>

fun compress_rounds :: "u64 list \<Rightarrow> yield_calls \<Rightarrow> nat \<Rightarrow> nat \<Rightarrow> nat \<Rightarrow> u64 list \<Rightarrow> u64 list result" where
  "compress_rounds m yield 0 i k v = Inr v"
| "compress_rounds m yield (Suc n) i k v =
     (let v = ROUND m (i mod 10) v
      in if i mod 100 \<noteq> 0
         then and_then (yield k) (\<lambda>_. compress_rounds m yield n (i + 1) (k + 1) v)
         else compress_rounds m yield n (i + 1) k v)"

definition blake2b_compress :: "blake2b_state \<Rightarrow> bytes \<Rightarrow> nat \<Rightarrow> yield_calls \<Rightarrow> blake2b_state result" where
  "blake2b_compress S block r yield =
     and_then (compress_rounds (compress_init_m block) yield r 0 0 (compress_init_v S)) (\<lambda>v. Inr (compress_end v S))"

datatype blake2b_error = input_len_error

definition blake2b ::
  "u32 \<Rightarrow> bytes \<Rightarrow> bytes \<Rightarrow> bytes \<Rightarrow> bytes \<Rightarrow> bool \<Rightarrow> yield_calls \<Rightarrow> (blake2b_error + bytes) result" where
  "blake2b rounds h m t0_offset t1_offset f yield =
     (if length h \<noteq> 64 \<or> length m \<noteq> 128 \<or> length t0_offset \<noteq> 8 \<or> length t1_offset \<noteq> 8
      then Inr (Inl input_len_error)
      else
        (let S = \<lparr> st_h = map (\<lambda>i. load64 (drop (i * 8) h)) [0..<8],
                   st_t = [load64 t0_offset, load64 t1_offset],
                   st_f = [if f then - 1 else 0] \<rparr>
         in and_then (blake2b_compress S m (unat rounds) yield) (\<lambda>S.
              Inr (Inr (concat (map (\<lambda>w. le_bytes 8 (unat w)) (st_h S)))))))"

subsection \<open>RFC 7693\<close>

text \<open>
  The standard's description: \<open>v\<close> is a square of four rows; a round mixes its columns, then its diagonals, which are the columns
  after row \<open>k\<close> has been rotated by \<open>k\<close> places. The words of the message are taken in the order of a permutation.
\<close>

definition rfc_rotr :: "nat \<Rightarrow> u64 \<Rightarrow> u64" where
  "rfc_rotr c w = word_rotr c w"

definition rfc_half :: "nat \<Rightarrow> nat \<Rightarrow> u64 \<Rightarrow> u64 \<times> u64 \<times> u64 \<times> u64 \<Rightarrow> u64 \<times> u64 \<times> u64 \<times> u64" where
  "rfc_half p q x = (\<lambda>(a, b, c, d).
     let a' = a + b + x; d' = rfc_rotr p (d XOR a'); c' = c + d'; b' = rfc_rotr q (b XOR c') in (a', b', c', d'))"

definition rfc_G :: "u64 \<Rightarrow> u64 \<Rightarrow> u64 \<times> u64 \<times> u64 \<times> u64 \<Rightarrow> u64 \<times> u64 \<times> u64 \<times> u64" where
  "rfc_G x y = rfc_half 16 63 y \<circ> rfc_half 32 24 x"

type_synonym square = "u64 list \<times> u64 list \<times> u64 list \<times> u64 list"

definition rfc_columns :: "u64 list \<Rightarrow> square \<Rightarrow> square" where
  "rfc_columns ms = (\<lambda>(as, bs, cs, ds).
     let qs = map (\<lambda>j. rfc_G (ms ! (2 * j)) (ms ! (2 * j + 1)) (as ! j, bs ! j, cs ! j, ds ! j)) [0..<4]
     in (map fst qs, map (fst \<circ> snd) qs, map (fst \<circ> snd \<circ> snd) qs, map (snd \<circ> snd \<circ> snd) qs))"

definition rfc_round :: "u64 list \<Rightarrow> nat \<Rightarrow> square \<Rightarrow> square" where
  "rfc_round m r sq =
     (let ms = map ((!) m) (blake2b_sigma ! (r mod 10));
          (as, bs, cs, ds) = rfc_columns (take 8 ms) sq;
          (as, bs, cs, ds) = rfc_columns (drop 8 ms) (as, rotate 1 bs, rotate 2 cs, rotate 3 ds)
      in (as, rotate 3 bs, rotate 2 cs, rotate 1 ds))"

fun rfc_rounds :: "u64 list \<Rightarrow> nat \<Rightarrow> nat \<Rightarrow> square \<Rightarrow> square" where
  "rfc_rounds m r 0 sq = sq"
| "rfc_rounds m r (Suc n) sq = rfc_rounds m (r + 1) n (rfc_round m r sq)"

definition rfc_F :: "u64 list \<Rightarrow> u64 list \<Rightarrow> u64 \<Rightarrow> u64 \<Rightarrow> bool \<Rightarrow> nat \<Rightarrow> u64 list" where
  "rfc_F h m t0 t1 final rounds =
     (let d = [blake2b_IV ! 4 XOR t0, blake2b_IV ! 5 XOR t1, (if final then NOT (blake2b_IV ! 6) else blake2b_IV ! 6), blake2b_IV ! 7];
          (as, bs, cs, ds) = rfc_rounds m 0 rounds (take 4 h, drop 4 h, take 4 blake2b_IV, d)
      in map2 (XOR) (map2 (XOR) h (as @ bs)) (cs @ ds))"

definition words :: "nat \<Rightarrow> bytes \<Rightarrow> u64 list" where
  "words n bs = map (\<lambda>i. of_nat (of_le_bytes (take 8 (drop (8 * i) bs)))) [0..<n]"

subsection \<open>The code is the standard's function\<close>

lemma rotr64_eq: "0 < c \<Longrightarrow> c < 64 \<Longrightarrow> rotr64 w c = rfc_rotr c w"
proof (rule bit_word_eqI)
  fix n
  assume c: "0 < c" "c < 64" and n: "n < LENGTH(64)"
  show "bit (rotr64 w c) n = bit (rfc_rotr c w) n"
  proof (cases "n + c < 64")
    case True
    then have "\<not> 64 - c \<le> n" by linarith
    then show ?thesis using True c n by (simp add: rotr64_def rfc_rotr_def bit_word_rotr_iff bit_simps add.commute)
  next
    case False
    then have "(n + c) mod 64 = n - (64 - c)" using c n by (simp add: mod_if)
    moreover have "64 - c \<le> n" using False by linarith
    moreover have "\<not> bit w (c + n)" using False bit_imp_le_length [of w "c + n"] by auto
    ultimately show ?thesis using False c n by (simp add: rotr64_def rfc_rotr_def bit_word_rotr_iff bit_simps)
  qed
qed

lemma mix_G_eq:
  "mix_G m r i a b c d = rfc_G (m ! (blake2b_sigma ! r ! (2 * i))) (m ! (blake2b_sigma ! r ! (2 * i + 1))) (a, b, c, d)"
  by (simp add: mix_G_def rfc_G_def rfc_half_def rotr64_eq Let_def)

definition flat :: "square \<Rightarrow> u64 list" where
  "flat = (\<lambda>(as, bs, cs, ds). as @ bs @ cs @ ds)"

lemma sigma_row: "r < 10 \<Longrightarrow> length (blake2b_sigma ! r) = 16"
  by (auto simp: blake2b_sigma_def less_Suc_eq numeral_eq_Suc)

lemma length4E:
  assumes "length xs = 4"
  obtains a b c d where "xs = [a, b, c, d]"
  using assms by (auto simp: numeral_eq_Suc length_Suc_conv)

definition is_square :: "square \<Rightarrow> bool" where
  "is_square = (\<lambda>(as, bs, cs, ds). length as = 4 \<and> length bs = 4 \<and> length cs = 4 \<and> length ds = 4)"

lemma G_at_step:
  assumes "rfc_G (m ! (blake2b_sigma ! r ! (2 * i))) (m ! (blake2b_sigma ! r ! (2 * i + 1))) (v ! ia, v ! ib, v ! ic, v ! ie) = (a, b, c, d)"
  shows "G_at m r i ia ib ic ie v = v[ia := a, ib := b, ic := c, ie := d]"
  using assms by (simp add: G_at_def mix_G_eq)

lemma columns_step:
  assumes "\<And>j. j < 4 \<Longrightarrow> rfc_G (ms ! (2 * j)) (ms ! (2 * j + 1)) (as ! j, bs ! j, cs ! j, ds ! j) = (as' ! j, bs' ! j, cs' ! j, ds' ! j)"
    and "is_square (as', bs', cs', ds')"
  shows "rfc_columns ms (as, bs, cs, ds) = (as', bs', cs', ds')"
proof -
  have eq: "map (\<lambda>j. rfc_G (ms ! (2 * j)) (ms ! (2 * j + 1)) (as ! j, bs ! j, cs ! j, ds ! j)) [0..<4] =
      map (\<lambda>j. (as' ! j, bs' ! j, cs' ! j, ds' ! j)) [0..<4]" using assms(1) by simp
  have "map ((!) xs) [0..<4] = xs" if "length xs = 4" for xs :: "u64 list" using map_nth [of xs] that by simp
  then show ?thesis using assms(2) unfolding rfc_columns_def prod.case Let_def eq by (simp add: is_square_def comp_def)
qed

lemma rotate_row: "rotate 1 [a, b, c, d] = [b, c, d, a]" "rotate 2 [a, b, c, d] = [c, d, a, b]" "rotate 3 [a, b, c, d] = [d, a, b, c]"
  by (simp_all add: numeral_eq_Suc)

lemma less_4E: "j < (4 :: nat) \<Longrightarrow> (j = 0 \<Longrightarrow> P) \<Longrightarrow> (j = 1 \<Longrightarrow> P) \<Longrightarrow> (j = 2 \<Longrightarrow> P) \<Longrightarrow> (j = 3 \<Longrightarrow> P) \<Longrightarrow> P"
  by linarith

lemma ROUND_eq:
  assumes "is_square sq" and "r < 10"
  shows "ROUND m r (flat sq) = flat (rfc_round m r sq)"
proof -
  obtain a0 a1 a2 a3 b0 b1 b2 b3 c0 c1 c2 c3 d0 d1 d2 d3
    where sq: "sq = ([a0, a1, a2, a3], [b0, b1, b2, b3], [c0, c1, c2, c3], [d0, d1, d2, d3])"
    using assms(1) by (auto simp: is_square_def elim!: length4E)
  let ?x = "\<lambda>i. m ! (blake2b_sigma ! r ! (2 * i))" and ?y = "\<lambda>i. m ! (blake2b_sigma ! r ! (2 * i + 1))"
  obtain e0 f0 g0 h0 where q0: "rfc_G (?x 0) (?y 0) (a0, b0, c0, d0) = (e0, f0, g0, h0)" by (metis prod.exhaust)
  obtain e1 f1 g1 h1 where q1: "rfc_G (?x 1) (?y 1) (a1, b1, c1, d1) = (e1, f1, g1, h1)" by (metis prod.exhaust)
  obtain e2 f2 g2 h2 where q2: "rfc_G (?x 2) (?y 2) (a2, b2, c2, d2) = (e2, f2, g2, h2)" by (metis prod.exhaust)
  obtain e3 f3 g3 h3 where q3: "rfc_G (?x 3) (?y 3) (a3, b3, c3, d3) = (e3, f3, g3, h3)" by (metis prod.exhaust)
  obtain p4 q4 s4 t4 where q4: "rfc_G (?x 4) (?y 4) (e0, f1, g2, h3) = (p4, q4, s4, t4)" by (metis prod.exhaust)
  obtain p5 q5 s5 t5 where q5: "rfc_G (?x 5) (?y 5) (e1, f2, g3, h0) = (p5, q5, s5, t5)" by (metis prod.exhaust)
  obtain p6 q6 s6 t6 where q6: "rfc_G (?x 6) (?y 6) (e2, f3, g0, h1) = (p6, q6, s6, t6)" by (metis prod.exhaust)
  obtain p7 q7 s7 t7 where q7: "rfc_G (?x 7) (?y 7) (e3, f0, g1, h2) = (p7, q7, s7, t7)" by (metis prod.exhaust)
  have g0: "G_at m r 0 0 4 8 12 [a0, a1, a2, a3, b0, b1, b2, b3, c0, c1, c2, c3, d0, d1, d2, d3] = [e0, a1, a2, a3, f0, b1, b2, b3, g0, c1, c2, c3, h0, d1, d2, d3]"
    using q0 by (subst G_at_step) simp_all
  have g1: "G_at m r 1 1 5 9 13 [e0, a1, a2, a3, f0, b1, b2, b3, g0, c1, c2, c3, h0, d1, d2, d3] = [e0, e1, a2, a3, f0, f1, b2, b3, g0, g1, c2, c3, h0, h1, d2, d3]"
    using q1 by (subst G_at_step) simp_all
  have g2: "G_at m r 2 2 6 10 14 [e0, e1, a2, a3, f0, f1, b2, b3, g0, g1, c2, c3, h0, h1, d2, d3] = [e0, e1, e2, a3, f0, f1, f2, b3, g0, g1, g2, c3, h0, h1, h2, d3]"
    using q2 by (subst G_at_step) simp_all
  have g3: "G_at m r 3 3 7 11 15 [e0, e1, e2, a3, f0, f1, f2, b3, g0, g1, g2, c3, h0, h1, h2, d3] = [e0, e1, e2, e3, f0, f1, f2, f3, g0, g1, g2, g3, h0, h1, h2, h3]"
    using q3 by (subst G_at_step) simp_all
  have g4: "G_at m r 4 0 5 10 15 [e0, e1, e2, e3, f0, f1, f2, f3, g0, g1, g2, g3, h0, h1, h2, h3] = [p4, e1, e2, e3, f0, q4, f2, f3, g0, g1, s4, g3, h0, h1, h2, t4]"
    using q4 by (subst G_at_step) simp_all
  have g5: "G_at m r 5 1 6 11 12 [p4, e1, e2, e3, f0, q4, f2, f3, g0, g1, s4, g3, h0, h1, h2, t4] = [p4, p5, e2, e3, f0, q4, q5, f3, g0, g1, s4, s5, t5, h1, h2, t4]"
    using q5 by (subst G_at_step) simp_all
  have g6: "G_at m r 6 2 7 8 13 [p4, p5, e2, e3, f0, q4, q5, f3, g0, g1, s4, s5, t5, h1, h2, t4] = [p4, p5, p6, e3, f0, q4, q5, q6, s6, g1, s4, s5, t5, t6, h2, t4]"
    using q6 by (subst G_at_step) simp_all
  have g7: "G_at m r 7 3 4 9 14 [p4, p5, p6, e3, f0, q4, q5, q6, s6, g1, s4, s5, t5, t6, h2, t4] = [p4, p5, p6, p7, q7, q4, q5, q6, s6, s7, s4, s5, t5, t6, t7, t4]"
    using q7 by (subst G_at_step) simp_all
  have "ROUND m r (flat sq) = [p4, p5, p6, p7, q7, q4, q5, q6, s6, s7, s4, s5, t5, t6, t7, t4]"
    unfolding ROUND_def Let_def sq flat_def prod.case append.simps g0 g1 g2 g3 g4 g5 g6 g7 ..
  moreover have "rfc_columns (take 8 (map ((!) m) (blake2b_sigma ! r))) sq = ([e0, e1, e2, e3], [f0, f1, f2, f3], [g0, g1, g2, g3], [h0, h1, h2, h3])"
    unfolding sq by (rule columns_step) (auto elim!: less_4E simp: sigma_row assms(2) is_square_def q0 [simplified] q1 [simplified] q2 [simplified] q3 [simplified])
  moreover have "rfc_columns (drop 8 (map ((!) m) (blake2b_sigma ! r))) ([e0, e1, e2, e3], [f1, f2, f3, f0], [g2, g3, g0, g1], [h3, h0, h1, h2]) = ([p4, p5, p6, p7], [q4, q5, q6, q7], [s4, s5, s6, s7], [t4, t5, t6, t7])"
    by (rule columns_step) (auto elim!: less_4E simp: sigma_row assms(2) is_square_def q4 [simplified] q5 [simplified] q6 [simplified] q7 [simplified])
  moreover have "r mod 10 = r" using assms(2) by simp
  ultimately show ?thesis by (simp only: rfc_round_def flat_def Let_def prod.case rotate_row append.simps)
qed

lemma rfc_round_square: "is_square (rfc_round m r sq)"
  by (auto simp: is_square_def rfc_round_def rfc_columns_def Let_def split: prod.splits)

subsection \<open>The calls of \<^verbatim>\<open>yield\<close>\<close>

text \<open>How often the first \<open>i\<close> rounds call it: after every round but those whose number is a multiple of a hundred.\<close>

definition yields :: "nat \<Rightarrow> nat" where
  "yields i = i - (i + 99) div 100"

lemma ceiling_100: "(i + 99) div 100 = i div 100 + (if i mod 100 = 0 then 0 else 1 :: nat)"
proof -
  have "(i + 99) div 100 = i div 100 + (i mod 100 + 99) div 100" by (simp add: div_add1_eq [of i 99])
  moreover have "(i mod 100 + 99) div 100 = 1" if "i mod 100 \<noteq> 0"
    using that by (intro div_nat_eqI) (simp_all add: less_imp_le)
  ultimately show ?thesis by simp
qed

lemma yields_Suc: "yields (Suc i) = (if i mod 100 \<noteq> 0 then Suc (yields i) else yields i)"
proof -
  have s: "(Suc i + 99) div 100 = i div 100 + 1" by simp
  have "i div 100 + (if i mod 100 = 0 then 0 else 1) \<le> i"
    using div_mult_mod_eq [of i 100] by (cases "i mod 100") auto
  moreover have "yields (Suc i) = Suc i - (i div 100 + 1)" by (simp only: yields_def s)
  moreover have "yields i = i - (i div 100 + (if i mod 100 = 0 then 0 else 1))" by (simp only: yields_def ceiling_100)
  ultimately show ?thesis by (simp split: if_splits) linarith
qed

lemma yields_mono: "yields i \<le> yields (i + n)"
proof (induction n)
  case (Suc n)
  then show ?case using yields_Suc [of "i + n"] by (auto intro: le_SucI)
qed simp

lemma compress_rounds_eq:
  assumes "is_square sq" and "\<forall>k < yields (i + n). yield k = Inr ()"
  shows "compress_rounds m yield n i (yields i) (flat sq) = Inr (flat (rfc_rounds m i n sq))"
  using assms
proof (induction n arbitrary: i sq)
  case (Suc n)
  have "rfc_round m i sq = rfc_round m (i mod 10) sq" by (simp add: rfc_round_def)
  then have R: "ROUND m (i mod 10) (flat sq) = flat (rfc_round m i sq)" using ROUND_eq [OF Suc.prems(1), of "i mod 10"] by simp
  have IH: "compress_rounds m yield n (i + 1) (yields (i + 1)) (flat (rfc_round m i sq)) = Inr (flat (rfc_rounds m i (Suc n) sq))"
    using Suc.IH [of "rfc_round m i sq" "i + 1"] Suc.prems rfc_round_square by simp
  show ?case
  proof (cases "i mod 100 = 0")
    case False
    then have "yields i < yields (i + Suc n)" using yields_Suc [of i] yields_mono [of "Suc i" n] by simp
    then have "yield (yields i) = Inr ()" using Suc.prems by simp
    with False IH R show ?thesis by (simp add: yields_Suc)
  qed (use IH R in \<open>simp add: yields_Suc\<close>)
qed simp

lemma compress_rounds_error:
  assumes "yield k = Inl e" and "\<forall>j < k. yield j = Inr ()" and "yields i \<le> k" and "k < yields (i + n)"
  shows "compress_rounds m yield n i (yields i) v = Inl e"
  using assms(3,4)
proof (induction n arbitrary: i v)
  case (Suc n)
  consider "i mod 100 = 0" | "i mod 100 \<noteq> 0" "yields i = k" | "i mod 100 \<noteq> 0" "yields i < k" using Suc.prems by linarith
  then show ?case
  proof cases
    case 1
    then show ?thesis using Suc.IH [of "Suc i"] Suc.prems by (simp add: yields_Suc)
  next
    case 2
    then show ?thesis using assms(1) by simp
  next
    case 3
    then show ?thesis using Suc.IH [of "Suc i"] Suc.prems assms(2) by (simp add: yields_Suc)
  qed
qed simp

subsection \<open>Before and after the rounds\<close>

lemma compress_init_v_eq:
  assumes "length h = 8"
  shows "compress_init_v \<lparr> st_h = h, st_t = [t0, t1], st_f = [if f then - 1 else 0] \<rparr> =
     flat (take 4 h, drop 4 h, take 4 blake2b_IV,
       [blake2b_IV ! 4 XOR t0, blake2b_IV ! 5 XOR t1, (if f then NOT (blake2b_IV ! 6) else blake2b_IV ! 6), blake2b_IV ! 7])"
  using assms by (simp add: compress_init_v_def flat_def blake2b_IV_def)

lemma rfc_rounds_square: "is_square sq \<Longrightarrow> is_square (rfc_rounds m r n sq)"
  by (induction n arbitrary: r sq) (simp_all add: rfc_round_square)

lemma compress_end_eq:
  assumes "length h = 8" and "is_square (as, bs, cs, ds)"
  shows "st_h (compress_end (flat (as, bs, cs, ds)) (S \<lparr> st_h := h \<rparr>)) = map2 (XOR) (map2 (XOR) h (as @ bs)) (cs @ ds)"
proof (rule nth_equalityI)
  fix i
  assume "i < length (st_h (compress_end (flat (as, bs, cs, ds)) (S \<lparr> st_h := h \<rparr>)))"
  then have i: "i < 8" by (simp add: compress_end_def)
  have "(as @ bs @ cs @ ds) ! i = (as @ bs) ! i" "(as @ bs @ cs @ ds) ! (i + 8) = (cs @ ds) ! i"
    using i assms(2) nth_append [of "as @ bs" "cs @ ds"] by (simp_all add: is_square_def)
  then show "st_h (compress_end (flat (as, bs, cs, ds)) (S \<lparr> st_h := h \<rparr>)) ! i = map2 (XOR) (map2 (XOR) h (as @ bs)) (cs @ ds) ! i"
    using i assms by (simp add: compress_end_def flat_def is_square_def xor.assoc)
qed (use assms in \<open>simp add: compress_end_def is_square_def\<close>)

lemma blake2b_words:
  assumes "length h = 64" and "length m = 128" and "length t0 = 8" and "length t1 = 8"
  shows "blake2b rounds h m t0 t1 f yield =
     and_then (compress_rounds (words 16 m) yield (unat rounds) 0 (yields 0)
        (compress_init_v \<lparr> st_h = words 8 h, st_t = [of_nat (of_le_bytes t0), of_nat (of_le_bytes t1)], st_f = [if f then - 1 else 0] \<rparr>))
       (\<lambda>v. Inr (Inr (concat (map (\<lambda>w. le_bytes 8 (unat w))
          (st_h (compress_end v \<lparr> st_h = words 8 h, st_t = [of_nat (of_le_bytes t0), of_nat (of_le_bytes t1)], st_f = [if f then - 1 else 0] \<rparr>))))))"
  using assms
  by (simp add: blake2b_def blake2b_compress_def compress_init_m_def words_def load64_def mult.commute Let_def and_then_assoc yields_def)

text \<open>
  C23. \<^verbatim>\<open>blake2b\<close> is the compression function F of RFC 7693. On arguments of any other lengths it returns the error; otherwise, if the
  calls of \<^verbatim>\<open>yield\<close> it makes return, it returns the new state of the standard's rounds on columns and diagonals for any
  number of rounds; and if one of them throws, the exception leaves the function. It makes one call per round except for one round in a hundred.
\<close>

theorem blake2b_is_rfc7693:
  fixes rounds :: u32
  defines "calls \<equiv> unat rounds - (unat rounds + 99) div 100"
  shows "(length h \<noteq> 64 \<or> length m \<noteq> 128 \<or> length t0 \<noteq> 8 \<or> length t1 \<noteq> 8 \<longrightarrow>
        blake2b rounds h m t0 t1 f yield = Inr (Inl input_len_error))
    \<and> (length h = 64 \<and> length m = 128 \<and> length t0 = 8 \<and> length t1 = 8 \<and> (\<forall>k < calls. yield k = Inr ()) \<longrightarrow>
        blake2b rounds h m t0 t1 f yield = Inr (Inr (concat (map (\<lambda>w. le_bytes 8 (unat w))
          (rfc_F (words 8 h) (words 16 m) (of_nat (of_le_bytes t0)) (of_nat (of_le_bytes t1)) f (unat rounds))))))
    \<and> (length h = 64 \<and> length m = 128 \<and> length t0 = 8 \<and> length t1 = 8 \<and> n < calls \<and> (\<forall>k < n. yield k = Inr ()) \<and> yield n = Inl e \<longrightarrow>
        blake2b rounds h m t0 t1 f yield = Inl e)"
proof (intro conjI impI, goal_cases)
  case 1
  then show ?case by (simp add: blake2b_def)
next
  case 2
  have c: "calls = yields (0 + unat rounds)" by (simp add: calls_def yields_def)
  define h8 where "h8 = words 8 h"
  have h8: "length h8 = 8" by (simp add: h8_def words_def)
  define sq where "sq = (take 4 h8, drop 4 h8, take 4 blake2b_IV, [blake2b_IV ! 4 XOR of_nat (of_le_bytes t0), blake2b_IV ! 5 XOR of_nat (of_le_bytes t1),
      (if f then NOT (blake2b_IV ! 6) else blake2b_IV ! 6), blake2b_IV ! 7])"
  have sq: "is_square sq" using h8 by (simp add: sq_def is_square_def blake2b_IV_def)
  obtain as bs cs ds where r: "rfc_rounds (words 16 m) 0 (unat rounds) sq = (as, bs, cs, ds)" by (metis prod.exhaust)
  have s: "is_square (as, bs, cs, ds)" using rfc_rounds_square [OF sq, of "words 16 m" 0 "unat rounds"] r by simp
  have "\<forall>k < yields (0 + unat rounds). yield k = Inr ()" using 2 c by simp
  note loop = compress_rounds_eq [OF sq this, of "words 16 m"]
  have init: "compress_init_v \<lparr> st_h = h8, st_t = [of_nat (of_le_bytes t0), of_nat (of_le_bytes t1)], st_f = [if f then - 1 else 0] \<rparr> = flat sq"
    unfolding sq_def by (rule compress_init_v_eq [OF h8])
  have "rfc_F h8 (words 16 m) (of_nat (of_le_bytes t0)) (of_nat (of_le_bytes t1)) f (unat rounds) = map2 (XOR) (map2 (XOR) h8 (as @ bs)) (cs @ ds)"
    using r by (simp add: rfc_F_def sq_def)
  then show ?case
    using compress_end_eq [OF h8 s, of "\<lparr> st_h = h8, st_t = [of_nat (of_le_bytes t0), of_nat (of_le_bytes t1)], st_f = [if f then - 1 else 0] \<rparr>"] 2
    by (simp add: blake2b_words init loop r flip: h8_def)
next
  case 3
  then have "yields 0 \<le> n" "n < yields (0 + unat rounds)" by (simp_all add: calls_def yields_def)
  with 3 show ?case by (simp add: blake2b_words compress_rounds_error [where k = n])
qed

theorem blake2b_is_rfc7693_witness:
  "blake2b 12 [] [] [] [] False (\<lambda>k. Inr ()) = Inr (Inl input_len_error)
    \<and> blake2b 12 (replicate 64 7) (replicate 128 1) (replicate 8 3) (replicate 8 0) True (\<lambda>k. Inr ()) =
        Inr (Inr (concat (map (\<lambda>w. le_bytes 8 (unat w))
          (rfc_F (words 8 (replicate 64 7)) (words 16 (replicate 128 1)) (of_nat (of_le_bytes (replicate 8 3)))
            (of_nat (of_le_bytes (replicate 8 0))) True 12))))
    \<and> blake2b 12 (replicate 64 7) (replicate 128 1) (replicate 8 3) (replicate 8 0) True
        (\<lambda>k. if k = 5 then Inl (Fc_exception timeout_exception_code) else Inr ()) = Inl (Fc_exception timeout_exception_code)"
proof -
  have u: "unat (12 :: u32) = 12" by simp
  show ?thesis
    using blake2b_is_rfc7693 [of "[]" "[]" "[]" "[]" 12 False "\<lambda>k. Inr ()"]
      blake2b_is_rfc7693 [of "replicate 64 7" "replicate 128 1" "replicate 8 3" "replicate 8 0" 12 True "\<lambda>k. Inr ()"]
      blake2b_is_rfc7693 [of "replicate 64 7" "replicate 128 1" "replicate 8 3" "replicate 8 0" 12 True
        "\<lambda>k. if k = 5 then Inl (Fc_exception timeout_exception_code) else Inr ()" 5 "Fc_exception timeout_exception_code"]
    unfolding u length_replicate by simp
qed

end
