(* ===== verification/Url.thy ===== *)
theory Url
  imports Variant_Ops
begin

text \<open>
  \<^verbatim>\<open>src/network/url.cpp\<close>. A path is its generic text; \<open>path_append\<close> is the operator \<^verbatim>\<open>/\<close> of Boost's paths. A string stream that is read
  with \<^verbatim>\<open>getline\<close> is what is left of it and whether it is still good; a stream that reached its end leaves the
  string it should read into as it was.
\<close>

record url_impl =
  url_proto :: bytes
  url_host :: "bytes option"
  url_user :: "bytes option"
  url_pass :: "bytes option"
  url_path :: "bytes option"
  url_query :: "bytes option"
  url_args :: "(bytes \<times> variant) list option"
  url_port :: "u16 option"

type_synonym text_stream = "bytes \<times> bool"

definition getline :: "byte \<Rightarrow> bytes \<Rightarrow> text_stream \<Rightarrow> bytes \<times> text_stream" where
  "getline delim old = (\<lambda>(inp, good).
     if \<not> good then (old, inp, False)
     else if delim \<in> set inp then (takeWhile (\<lambda>c. c \<noteq> delim) inp, tl (dropWhile (\<lambda>c. c \<noteq> delim) inp), True)
     else (inp, [], False))"

definition default_url_impl :: url_impl where
  "default_url_impl = \<lparr> url_proto = [], url_host = None, url_user = None, url_pass = None, url_path = None, url_query = None,
     url_args = None, url_port = None \<rparr>"

definition parse_user :: "bytes \<Rightarrow> url_impl \<Rightarrow> url_impl" where
  "parse_user user_pass u =
     (if 0x3a \<in> set user_pass
      then let (luser, upss) = getline 0x3a [] (user_pass, True);
               (lpass, upss) = getline 0x3a [] upss
           in u \<lparr> url_user := Some luser, url_pass := Some lpass \<rparr>
      else u \<lparr> url_user := Some user_pass \<rparr>)"

definition parse_host :: "platform \<Rightarrow> bytes \<Rightarrow> url_impl \<Rightarrow> url_impl result" where
  "parse_host p host_port u =
     (if 0x3a \<in> set host_port
      then case to_uint64 p (tl (dropWhile (\<lambda>c. c \<noteq> 0x3a) host_port)) of
             Inl e \<Rightarrow> Inl Parse_error
           | Inr port \<Rightarrow> Inr (u \<lparr> url_port := Some (ucast port), url_host := Some (takeWhile (\<lambda>c. c \<noteq> 0x3a) host_port) \<rparr>)
      else Inr (u \<lparr> url_host := Some host_port \<rparr>))"

definition url_parse :: "platform \<Rightarrow> (bytes \<Rightarrow> bytes \<Rightarrow> bytes) \<Rightarrow> bytes \<Rightarrow> url_impl \<Rightarrow> url_impl result" where
  "url_parse p path_append s u =
     (let (proto, ss) = getline 0x3a (url_proto u) (s, True);
          u = u \<lparr> url_proto := proto \<rparr>;
          (skip, ss) = getline 0x2f [] ss;
          (skip, ss) = getline 0x2f skip ss;
          (u, ss) = (if 0x40 \<in> set s
                     then let (user_pass, ss) = getline 0x40 [] ss in (parse_user user_pass u, ss)
                     else (u, ss));
          (host_port, ss) = getline 0x2f [] ss
      in and_then (parse_host p host_port u) (\<lambda>u.
           let (lpath, ss) = getline 0x3f [] ss;
               u = u \<lparr> url_path := Some (path_append [0x2f] lpath) \<rparr>;
               (largs, ss) = getline 0x0a [] ss
           in Inr (case url_args u of
                     Some args \<Rightarrow> (if args \<noteq> [] then u \<lparr> url_query := Some largs \<rparr> else u)
                   | None \<Rightarrow> u)))"

definition url_of_string :: "platform \<Rightarrow> (bytes \<Rightarrow> bytes \<Rightarrow> bytes) \<Rightarrow> bytes \<Rightarrow> url_impl result" where
  "url_of_string p path_append s = url_parse p path_append s default_url_impl"

definition url_to_string :: "url_impl \<Rightarrow> bytes" where
  "url_to_string u =
     url_proto u @ ascii ''://''
     @ (case url_user u of
          Some user \<Rightarrow> user @ (case url_pass u of Some pass \<Rightarrow> ascii '':'' @ pass | None \<Rightarrow> []) @ ascii ''@''
        | None \<Rightarrow> [])
     @ (case url_host u of Some host \<Rightarrow> host | None \<Rightarrow> [])
     @ (case url_port u of Some port \<Rightarrow> ascii '':'' @ dec (unat port) | None \<Rightarrow> [])
     @ (case url_path u of Some path \<Rightarrow> path | None \<Rightarrow> [])
     @ (case url_query u of Some query \<Rightarrow> ascii ''?'' @ query | None \<Rightarrow> [])"

definition url_to_variant :: "url_impl \<Rightarrow> variant" where
  "url_to_variant u = String (url_to_string u)"

definition url_from_variant :: "platform \<Rightarrow> (bytes \<Rightarrow> bytes \<Rightarrow> bytes) \<Rightarrow> variant \<Rightarrow> url_impl result" where
  "url_from_variant p path_append v = and_then (as_string p v) (url_of_string p path_append)"

subsection \<open>Reading what was written\<close>

definition without :: "string \<Rightarrow> bytes \<Rightarrow> bool" where
  "without cs s \<longleftrightarrow> list_all (\<lambda>c. c \<notin> set (ascii cs)) s"

text \<open>
  The addresses whose text means them: no part has a character that ends it, there is a host, the path is absolute, there is no
  query, and an at sign stands only behind a user.
\<close>

definition wf_url :: "url_impl \<Rightarrow> bool" where
  "wf_url u \<longleftrightarrow>
     without '':@'' (url_proto u)
     \<and> (case url_host u of None \<Rightarrow> False | Some h \<Rightarrow> without '':/@'' h)
     \<and> (case url_user u of None \<Rightarrow> url_pass u = None | Some x \<Rightarrow> without '':@'' x)
     \<and> (case url_pass u of None \<Rightarrow> True | Some x \<Rightarrow> without '':@'' x)
     \<and> (case url_path u of None \<Rightarrow> False | Some x \<Rightarrow> take 1 x = [0x2f] \<and> take 1 (drop 1 x) \<noteq> [0x2f] \<and> without ''?@'' x)
     \<and> url_query u = None \<and> url_args u = None"

text \<open>What Boost documents of joining the root and a relative path.\<close>

definition joins_root :: "(bytes \<Rightarrow> bytes \<Rightarrow> bytes) \<Rightarrow> bool" where
  "joins_root path_append \<longleftrightarrow> (\<forall>s. take 1 s \<noteq> [0x2f] \<longrightarrow> path_append [0x2f] s = 0x2f # s)"

lemma split_at_char: "d \<notin> set x \<Longrightarrow> takeWhile (\<lambda>c. c \<noteq> d) (x @ d # ys) = x \<and> dropWhile (\<lambda>c. c \<noteq> d) (x @ d # ys) = d # ys"
  by (induction x) auto

lemma getline_found: "delim \<notin> set x \<Longrightarrow> getline delim old (x @ delim # ys, True) = (x, ys, True)"
  by (simp add: getline_def split_at_char)

lemma getline_end: "delim \<notin> set x \<Longrightarrow> getline delim old (x, True) = (x, [], False)"
  by (simp add: getline_def)

lemma getline_ended: "getline delim old (ys, False) = (old, ys, False)"
  by (simp add: getline_def)

lemma without_iff: "without cs s \<longleftrightarrow> (\<forall>c \<in> set (ascii cs). c \<notin> set s)"
  by (auto simp: without_def list_all_iff)

lemma dec_without: "c \<in> set (dec n) \<Longrightarrow> 48 \<le> c \<and> c \<le> 57"
  using dec_digits [of n] by (auto simp: list_all_iff is_digit_def)

lemma parse_host_text:
  assumes "decimal_casts p" and "without '':/@'' h"
  shows "parse_host p (h @ (case port of Some n \<Rightarrow> ascii '':'' @ dec (unat (n :: u16)) | None \<Rightarrow> [])) u =
     Inr (case port of Some n \<Rightarrow> u \<lparr> url_port := Some n, url_host := Some h \<rparr> | None \<Rightarrow> u \<lparr> url_host := Some h \<rparr>)"
proof (cases port)
  case None
  then show ?thesis using assms(2) by (simp add: parse_host_def without_iff ascii_def)
next
  case (Some n)
  have "unat (ucast n :: u64) = unat n" using word_unat_lt [of n] by (simp add: unat_ucast_mod)
  then have "to_uint64 p (dec (unat n)) = Inr (ucast n)"
    using assms(1) unfolding decimal_casts_def to_uint64_def by (metis option.simps(5))
  moreover have "(ucast (ucast n :: u64) :: u16) = n"
    using word_unat_lt [of n] by (simp add: word_unat_eq_iff unat_ucast_mod)
  ultimately show ?thesis using Some assms(2) split_at_char [of "0x3a" h "dec (unat n)"]
    by (simp add: parse_host_def without_iff ascii_def)
qed

lemma parse_user_text:
  assumes "without '':@'' x" and "case pw of None \<Rightarrow> True | Some y \<Rightarrow> without '':@'' y" and "url_pass u = None"
  shows "parse_user (x @ (case pw of Some y \<Rightarrow> ascii '':'' @ y | None \<Rightarrow> [])) u = u \<lparr> url_user := Some x, url_pass := pw \<rparr>"
proof (cases pw)
  case None
  then show ?thesis using assms by (simp add: parse_user_def without_iff ascii_def)
next
  case (Some y)
  then show ?thesis using assms
    by (simp add: parse_user_def without_iff ascii_def getline_found getline_end)
qed



text \<open>What follows the question mark is read and dropped: a URL made from a text never has a query.\<close>

lemma url_query_lost: "url_of_string p path_append s = Inr u \<Longrightarrow> url_query u = None"
  by (auto simp: url_of_string_def url_parse_def default_url_impl_def parse_user_def parse_host_def Let_def
      split: if_splits prod.splits sum.splits elim!: and_then_InrE)

end
