(* ===== verification/Ip.thy ===== *)
theory Ip
  imports Variant_Ops
begin

text \<open>
  \<^verbatim>\<open>src/network/ip.cpp\<close>: addresses, end points and the ranges of private and multicast addresses. The record \<open>asio_lib\<close> has what the
  code calls of Boost: the text of an address, which it parses also to initialize its constants, and the cast to a port. The locale
  \<open>v4_text\<close> states that this text is the dotted decimal notation. An exception of Boost leaves these functions as an \<^verbatim>\<open>fc\<close> exception.
\<close>

record asio_lib =
  parse_v4 :: "bytes \<Rightarrow> u32 option"
  show_v4 :: "u32 \<Rightarrow> bytes"
  lex_uint16 :: "bytes \<Rightarrow> u16 option"

abbreviation Std_wrapped :: fc_error where
  "Std_wrapped \<equiv> Fc_exception std_exception_code"

definition rethrow_none :: "'a option \<Rightarrow> 'a result" where
  "rethrow_none r = (case r of None \<Rightarrow> Inl Std_wrapped | Some x \<Rightarrow> Inr x)"

definition address_of_string :: "asio_lib \<Rightarrow> bytes \<Rightarrow> u32 result" where
  "address_of_string lib s = rethrow_none (parse_v4 lib (c_str s))"

definition address_to_string :: "asio_lib \<Rightarrow> u32 \<Rightarrow> bytes" where
  "address_to_string lib ip = c_str (show_v4 lib ip)"

record endpoint =
  ep_port :: u32
  ep_ip :: u32

definition endpoint_make :: "u32 \<Rightarrow> u16 \<Rightarrow> endpoint" where
  "endpoint_make a p = \<lparr> ep_port = ucast p, ep_ip = a \<rparr>"

definition endpoint_eq :: "endpoint \<Rightarrow> endpoint \<Rightarrow> bool" where
  "endpoint_eq a b \<longleftrightarrow> ep_port a = ep_port b \<and> ep_ip a = ep_ip b"

definition endpoint_port :: "endpoint \<Rightarrow> u16" where
  "endpoint_port e = ucast (ep_port e)"

definition endpoint_less :: "endpoint \<Rightarrow> endpoint \<Rightarrow> bool" where
  "endpoint_less a b \<longleftrightarrow> ep_ip a < ep_ip b \<or> (ep_ip a = ep_ip b \<and> (ucast (endpoint_port a) :: u32) < ucast (endpoint_port b))"

text \<open>Without a colon both parts are the whole text: \<^verbatim>\<open>npos + 1\<close> is 0.\<close>

definition endpoint_from_string :: "asio_lib \<Rightarrow> bytes \<Rightarrow> endpoint result" where
  "endpoint_from_string lib s =
     and_then (rethrow_none (parse_v4 lib (takeWhile (\<lambda>c. c \<noteq> 0x3a) s))) (\<lambda>ip.
       and_then (rethrow_none (lex_uint16 lib (if 0x3a \<in> set s then tl (dropWhile (\<lambda>c. c \<noteq> 0x3a) s) else s))) (\<lambda>p.
         Inr \<lparr> ep_port = ucast p, ep_ip = ip \<rparr>))"

definition endpoint_to_string :: "asio_lib \<Rightarrow> endpoint \<Rightarrow> bytes" where
  "endpoint_to_string lib e = address_to_string lib (ep_ip e) @ ascii '':'' @ dec (unat (ep_port e))"

text \<open>The static addresses are all made before the first comparison.\<close>

definition is_private_address :: "asio_lib \<Rightarrow> u32 \<Rightarrow> bool result" where
  "is_private_address lib ip =
     and_then (address_of_string lib (ascii ''10.0.0.0'')) (\<lambda>min10_ip.
     and_then (address_of_string lib (ascii ''10.255.255.255'')) (\<lambda>max10_ip.
     and_then (address_of_string lib (ascii ''172.16.0.0'')) (\<lambda>min172_ip.
     and_then (address_of_string lib (ascii ''172.31.255.255'')) (\<lambda>max172_ip.
     and_then (address_of_string lib (ascii ''192.168.0.0'')) (\<lambda>min192_ip.
     and_then (address_of_string lib (ascii ''192.168.255.255'')) (\<lambda>max192_ip.
     and_then (address_of_string lib (ascii ''169.254.0.0'')) (\<lambda>min169_ip.
     and_then (address_of_string lib (ascii ''169.254.255.255'')) (\<lambda>max169_ip.
       Inr (if ip \<ge> min10_ip \<and> ip \<le> max10_ip then True
            else if ip \<ge> min172_ip \<and> ip \<le> max172_ip then True
            else if ip \<ge> min192_ip \<and> ip \<le> max192_ip then True
            else if ip \<ge> min169_ip \<and> ip \<le> max169_ip then True
            else False)))))))))"

definition is_multicast_address :: "asio_lib \<Rightarrow> u32 \<Rightarrow> bool result" where
  "is_multicast_address lib ip =
     and_then (address_of_string lib (ascii ''224.0.0.0'')) (\<lambda>min_ip.
     and_then (address_of_string lib (ascii ''239.255.255.255'')) (\<lambda>max_ip.
       Inr (ip \<ge> min_ip \<and> ip \<le> max_ip)))"

definition is_public_address :: "asio_lib \<Rightarrow> u32 \<Rightarrow> bool result" where
  "is_public_address lib ip =
     and_then (is_private_address lib ip) (\<lambda>private.
       if private then Inr False else and_then (is_multicast_address lib ip) (\<lambda>multicast. Inr (\<not> multicast)))"

definition endpoint_to_variant :: "asio_lib \<Rightarrow> endpoint \<Rightarrow> variant" where
  "endpoint_to_variant lib e = String (endpoint_to_string lib e)"

definition endpoint_from_variant :: "platform \<Rightarrow> asio_lib \<Rightarrow> variant \<Rightarrow> endpoint result" where
  "endpoint_from_variant p lib v = and_then (as_string p v) (endpoint_from_string lib)"

definition address_to_variant :: "asio_lib \<Rightarrow> u32 \<Rightarrow> variant" where
  "address_to_variant lib ip = String (address_to_string lib ip)"

definition address_from_variant :: "platform \<Rightarrow> asio_lib \<Rightarrow> variant \<Rightarrow> u32 result" where
  "address_from_variant p lib v = and_then (as_string p v) (address_of_string lib)"

subsection \<open>Dotted decimal notation\<close>

definition octets :: "nat \<Rightarrow> nat list" where
  "octets n = [n div 2 ^ 24, n div 2 ^ 16 mod 256, n div 2 ^ 8 mod 256, n mod 256]"

definition dotted :: "u32 \<Rightarrow> bytes" where
  "dotted a = (case map dec (octets (unat a)) of [x, y, z, w] \<Rightarrow> x @ ascii ''.'' @ y @ ascii ''.'' @ z @ ascii ''.'' @ w)"

locale v4_text =
  fixes lib :: asio_lib
  assumes show_dotted: "show_v4 lib a = dotted a"
    and parse_dotted: "parse_v4 lib (dotted a) = Some a"
    and lex_port: "lex_uint16 lib (dec (unat p)) = Some p"

lemma dotted_chars: "c \<in> set (dotted a) \<Longrightarrow> c = 0x2e \<or> 48 \<le> c \<and> c \<le> 57"
  using dec_digits by (auto simp: dotted_def octets_def ascii_def list_all_iff is_digit_def)

lemma c_str_dotted: "c_str (dotted a) = dotted a"
  unfolding c_str_def takeWhile_eq_all_conv using dotted_chars [of _ a] by force

lemma dotted_ranges:
  "dotted 0x0a000000 = ascii ''10.0.0.0''" "dotted 0x0affffff = ascii ''10.255.255.255''"
  "dotted 0xac100000 = ascii ''172.16.0.0''" "dotted 0xac1fffff = ascii ''172.31.255.255''"
  "dotted 0xc0a80000 = ascii ''192.168.0.0''" "dotted 0xc0a8ffff = ascii ''192.168.255.255''"
  "dotted 0xa9fe0000 = ascii ''169.254.0.0''" "dotted 0xa9feffff = ascii ''169.254.255.255''"
  "dotted 0xe0000000 = ascii ''224.0.0.0''" "dotted 0xefffffff = ascii ''239.255.255.255''"
  by (simp_all add: dotted_def octets_def dec_def decimal.simps ascii_def)

lemma in_block: "n div 2 ^ k = q \<longleftrightarrow> q * 2 ^ k \<le> n \<and> n < Suc q * 2 ^ k" for n k q :: nat
  by (auto simp: div_times_less_eq_dividend dividend_less_times_div mult.commute intro!: div_nat_eqI)

context v4_text
begin

lemma parse_text: "dotted a = s \<Longrightarrow> address_of_string lib s = Inr a"
  by (auto simp: address_of_string_def rethrow_none_def c_str_dotted parse_dotted)

lemma address_text: "address_of_string lib (address_to_string lib a) = Inr a"
  by (simp add: address_to_string_def show_dotted c_str_dotted parse_text)

lemma endpoint_text:
  assumes "ep_port e < 2 ^ 16"
  shows "endpoint_from_string lib (endpoint_to_string lib e) = Inr e"
proof -
  have "0x3a \<notin> set (dotted a)" for a using dotted_chars [of "0x3a" a] by auto
  then have split: "takeWhile (\<lambda>c. c \<noteq> 0x3a) (dotted a @ 0x3a # t) = dotted a"
    "dropWhile (\<lambda>c. c \<noteq> 0x3a) (dotted a @ 0x3a # t) = 0x3a # t" for a t
    by (simp_all add: takeWhile_append dropWhile_append)
  have p: "unat (ucast (ep_port e) :: u16) = unat (ep_port e)"
    using assms by (simp add: unat_ucast_mod word_less_nat_alt)
  then have "(ucast (ucast (ep_port e) :: u16) :: u32) = ep_port e" by (simp add: word_unat_eq_iff unat_ucast_mod)
  then show ?thesis using lex_port [of "ucast (ep_port e)"] p
    by (simp add: endpoint_from_string_def endpoint_to_string_def address_to_string_def show_dotted c_str_dotted ascii_def split
        parse_dotted rethrow_none_def)
qed

lemma private_eq:
  "is_private_address lib ip = Inr (unat ip div 2 ^ 24 = 10 \<or> unat ip div 2 ^ 20 = 0xac1 \<or>
     unat ip div 2 ^ 16 = 0xc0a8 \<or> unat ip div 2 ^ 16 = 0xa9fe)"
  unfolding is_private_address_def dotted_ranges [THEN parse_text] in_block
  by (simp add: word_le_nat_alt) linarith

lemma multicast_eq: "is_multicast_address lib ip = Inr (unat ip div 2 ^ 28 = 0xe)"
  unfolding is_multicast_address_def dotted_ranges [THEN parse_text] in_block
  by (simp add: word_le_nat_alt) linarith

end

subsection \<open>An instance of the interface\<close>

text \<open>Read the digits up to a dot.\<close>

definition take_octet :: "bytes \<Rightarrow> nat \<times> bytes" where
  "take_octet s = (digits_value 0 (takeWhile (\<lambda>c. c \<noteq> 0x2e) s), tl (dropWhile (\<lambda>c. c \<noteq> 0x2e) s))"

definition dotted_lib :: asio_lib where
  "dotted_lib = \<lparr> parse_v4 = (\<lambda>s. let (x, s) = take_octet s; (y, s) = take_octet s; (z, s) = take_octet s; (w, s) = take_octet s
                     in Some (of_nat (((x * 256 + y) * 256 + z) * 256 + w))),
     show_v4 = dotted, lex_uint16 = (\<lambda>s. Some (of_nat (digits_value 0 s))) \<rparr>"

lemma take_octet_dec: "take_octet (dec n @ 0x2e # s) = (n, s)" "take_octet (dec n) = (n, [])"
proof -
  have d: "0x2e \<notin> set (dec n)" using dec_digits [of n] by (auto simp: list_all_iff is_digit_def)
  then have t: "takeWhile (\<lambda>c. c \<noteq> 0x2e) (dec n) = dec n" "dropWhile (\<lambda>c. c \<noteq> 0x2e) (dec n) = []"
    by (auto simp: takeWhile_eq_all_conv dropWhile_eq_Nil_conv)
  show "take_octet (dec n @ 0x2e # s) = (n, s)" "take_octet (dec n) = (n, [])"
    using d by (simp_all add: take_octet_def t takeWhile_append dropWhile_append dec_value)
qed

lemma octets_value: "((n div 2 ^ 24 * 256 + n div 2 ^ 16 mod 256) * 256 + n div 2 ^ 8 mod 256) * 256 + n mod 256 = (n :: nat)"
proof -
  have "n div 2 ^ 24 = n div 2 ^ 16 div 256" "n div 2 ^ 16 = n div 2 ^ 8 div 256" by (simp_all flip: div_mult2_eq)
  then have "n div 2 ^ 24 * 256 + n div 2 ^ 16 mod 256 = n div 2 ^ 16" "n div 2 ^ 16 * 256 + n div 2 ^ 8 mod 256 = n div 2 ^ 8"
    using div_mult_mod_eq [of "n div 2 ^ 16" 256] div_mult_mod_eq [of "n div 2 ^ 8" 256] by metis+
  moreover have "n div 2 ^ 8 * 256 + n mod 256 = n" using div_mult_mod_eq [of n 256] by simp
  ultimately show ?thesis by metis
qed

interpretation dotted: v4_text dotted_lib
proof
  show "parse_v4 dotted_lib (dotted a) = Some a" for a
    using octets_value [of "unat a"] by (simp add: dotted_lib_def dotted_def octets_def ascii_def take_octet_dec del: of_nat_add of_nat_mult)
qed (simp_all add: dotted_lib_def dec_value)

text \<open>
  Addresses and end points. The text of an end point reads back as the same end point; the three classifications agree with
  the address blocks 10/8, 172.16/12, 192.168/16, 169.254/16 and 224/4 that their comments name; and end points with 16-bit ports are totally
  ordered by address and then port.
\<close>

lemma endpoints_and_ranges:
  assumes "v4_text lib" and "ep_port e < 2 ^ 16" and "ep_port d < 2 ^ 16"
  shows "endpoint_from_string lib (endpoint_to_string lib e) = Inr e
    \<and> is_private_address lib ip = Inr (unat ip div 2 ^ 24 = 10 \<or> unat ip div 2 ^ 20 = 0xac1 \<or>
         unat ip div 2 ^ 16 = 0xc0a8 \<or> unat ip div 2 ^ 16 = 0xa9fe)
    \<and> is_multicast_address lib ip = Inr (unat ip div 2 ^ 28 = 0xe)
    \<and> is_public_address lib ip = Inr (\<not> (unat ip div 2 ^ 24 = 10 \<or> unat ip div 2 ^ 20 = 0xac1 \<or>
         unat ip div 2 ^ 16 = 0xc0a8 \<or> unat ip div 2 ^ 16 = 0xa9fe \<or> unat ip div 2 ^ 28 = 0xe))
    \<and> (endpoint_less e d \<longleftrightarrow> ep_ip e < ep_ip d \<or> ep_ip e = ep_ip d \<and> ep_port e < ep_port d)
    \<and> (endpoint_eq e d \<longleftrightarrow> \<not> endpoint_less e d \<and> \<not> endpoint_less d e)"
proof -
  have p: "(ucast (endpoint_port x) :: u32) = ep_port x" if "ep_port x < 2 ^ 16" for x
    using that by (simp add: endpoint_port_def word_unat_eq_iff unat_ucast_mod word_less_nat_alt)
  have less: "endpoint_less e d \<longleftrightarrow> ep_ip e < ep_ip d \<or> ep_ip e = ep_ip d \<and> ep_port e < ep_port d"
    "endpoint_less d e \<longleftrightarrow> ep_ip d < ep_ip e \<or> ep_ip d = ep_ip e \<and> ep_port d < ep_port e"
    by (simp_all only: endpoint_less_def p [OF assms(2)] p [OF assms(3)])
  show ?thesis
  proof (intro conjI)
    show "endpoint_eq e d \<longleftrightarrow> \<not> endpoint_less e d \<and> \<not> endpoint_less d e"
      unfolding less endpoint_eq_def by auto
  qed (rule v4_text.endpoint_text [OF assms(1,2)] v4_text.private_eq [OF assms(1)] v4_text.multicast_eq [OF assms(1)] less(1)
      | simp add: is_public_address_def v4_text.private_eq [OF assms(1)] v4_text.multicast_eq [OF assms(1)])+
qed

end
