(* ===== verification/Time.thy ===== *)
theory Time
  imports Variant_Ops
begin

text \<open>
  \<^verbatim>\<open>fc/time.hpp\<close> and \<^verbatim>\<open>src/time.cpp\<close>. A signed 64-bit count is a word; an operation on it that overflows is undefined behaviour.
  The record \<open>posix_lib\<close> has the functions of Boost's dates that print and parse calendar times: a text for
  seconds since 1970, and the seconds of a text, \<open>None\<close> if it throws.
\<close>

definition int64_value :: "int \<Rightarrow> u64 result" where
  "int64_value i = (if - (2 ^ 63) \<le> i \<and> i < 2 ^ 63 then Inr (of_int i) else Inl Undefined_behaviour)"

subsection \<open>Durations\<close>

type_synonym microseconds = u64

definition micros_maximum :: microseconds where
  "micros_maximum = 0x7fffffffffffffff"

definition micros_add :: "microseconds \<Rightarrow> microseconds \<Rightarrow> microseconds result" where
  "micros_add l r = int64_value (sint l + sint r)"

definition micros_sub :: "microseconds \<Rightarrow> microseconds \<Rightarrow> microseconds result" where
  "micros_sub l r = int64_value (sint l - sint r)"

definition micros_less :: "microseconds \<Rightarrow> microseconds \<Rightarrow> bool" where
  "micros_less a b \<longleftrightarrow> sint a < sint b"

definition to_seconds :: "microseconds \<Rightarrow> u64" where
  "to_seconds c = of_int (tdiv (sint c) 1000000)"

definition seconds :: "u64 \<Rightarrow> microseconds result" where
  "seconds s = int64_value (sint s * 1000000)"

definition milliseconds :: "u64 \<Rightarrow> microseconds result" where
  "milliseconds s = int64_value (sint s * 1000)"

definition minutes :: "u64 \<Rightarrow> microseconds result" where
  "minutes m = and_then (int64_value (60 * sint m)) seconds"

definition hours :: "u64 \<Rightarrow> microseconds result" where
  "hours h = and_then (int64_value (60 * sint h)) minutes"

definition days :: "u64 \<Rightarrow> microseconds result" where
  "days d = and_then (int64_value (24 * sint d)) hours"

subsection \<open>Times\<close>

record time_point =
  elapsed :: microseconds

record time_point_sec =
  utc_seconds :: u32

definition tp_sec_since_epoch :: "time_point \<Rightarrow> u32" where
  "tp_sec_since_epoch t = of_int (tdiv (sint (elapsed t)) 1000000)"

definition tp_add :: "time_point \<Rightarrow> microseconds \<Rightarrow> time_point result" where
  "tp_add t m = and_then (micros_add (elapsed t) m) (\<lambda>e. Inr \<lparr> elapsed = e \<rparr>)"

definition tp_sub :: "time_point \<Rightarrow> microseconds \<Rightarrow> time_point result" where
  "tp_sub t m = and_then (micros_sub (elapsed t) m) (\<lambda>e. Inr \<lparr> elapsed = e \<rparr>)"

definition tp_diff :: "time_point \<Rightarrow> time_point \<Rightarrow> microseconds result" where
  "tp_diff t m = micros_sub (elapsed t) (elapsed m)"

definition tp_less :: "time_point \<Rightarrow> time_point \<Rightarrow> bool" where
  "tp_less t m \<longleftrightarrow> sint (elapsed t) < sint (elapsed m)"

definition sec_of_time_point :: "time_point \<Rightarrow> time_point_sec" where
  "sec_of_time_point t = \<lparr> utc_seconds = of_int (tdiv (sint (elapsed t)) 1000000) \<rparr>"

definition time_point_of_sec :: "time_point_sec \<Rightarrow> time_point result" where
  "time_point_of_sec t = and_then (seconds (ucast (utc_seconds t))) (\<lambda>e. Inr \<lparr> elapsed = e \<rparr>)"

definition sec_add :: "time_point_sec \<Rightarrow> u32 \<Rightarrow> time_point_sec" where
  "sec_add t m = \<lparr> utc_seconds = utc_seconds t + m \<rparr>"

definition sec_sub :: "time_point_sec \<Rightarrow> u32 \<Rightarrow> time_point_sec" where
  "sec_sub t m = \<lparr> utc_seconds = utc_seconds t - m \<rparr>"

definition sec_add_micros :: "time_point_sec \<Rightarrow> microseconds \<Rightarrow> time_point_sec" where
  "sec_add_micros t m = \<lparr> utc_seconds = utc_seconds t + ucast (to_seconds m) \<rparr>"

definition sec_plus_micros :: "time_point_sec \<Rightarrow> microseconds \<Rightarrow> time_point result" where
  "sec_plus_micros t m = and_then (time_point_of_sec t) (\<lambda>t. tp_add t m)"

definition sec_diff :: "time_point_sec \<Rightarrow> time_point_sec \<Rightarrow> microseconds result" where
  "sec_diff t m = and_then (time_point_of_sec t) (\<lambda>t. and_then (time_point_of_sec m) (tp_diff t))"

subsection \<open>Texts\<close>

record posix_lib =
  iso_text :: "u64 \<Rightarrow> bytes"
  iso_extended_text :: "u64 \<Rightarrow> bytes"
  duration_text :: "u64 \<Rightarrow> bytes"
  parse_delimited :: "bytes \<Rightarrow> int option"
  parse_iso :: "bytes \<Rightarrow> int option"

definition to_non_delimited_iso_string :: "posix_lib \<Rightarrow> time_point_sec \<Rightarrow> bytes" where
  "to_non_delimited_iso_string lib t = iso_text lib (ucast (utc_seconds t))"

definition to_iso_string :: "posix_lib \<Rightarrow> time_point_sec \<Rightarrow> bytes" where
  "to_iso_string lib t = iso_extended_text lib (ucast (utc_seconds t))"

definition sec_from_iso_string :: "posix_lib \<Rightarrow> bytes \<Rightarrow> time_point_sec result" where
  "sec_from_iso_string lib s =
     (case (if length s \<ge> 5 \<and> s ! 4 = 0x2d then parse_delimited lib s else parse_iso lib s) of
        None \<Rightarrow> Inl (Fc_exception std_exception_code)
      | Some total_seconds \<Rightarrow> Inr \<lparr> utc_seconds = of_int total_seconds \<rparr>)"

definition tp_to_string :: "posix_lib \<Rightarrow> time_point \<Rightarrow> bytes" where
  "tp_to_string lib t =
     (let count = elapsed t
      in if 0 \<le> sint count
         then let secs = count div 1000000;
                  msec = (count mod 1000000) div 1000;
                  padded_ms = tl (dec (unat (msec + 1000)))
              in iso_extended_text lib secs @ ascii ''.'' @ padded_ms
         else duration_text lib count)"

definition tp_from_iso_string :: "platform \<Rightarrow> posix_lib \<Rightarrow> bytes \<Rightarrow> time_point result" where
  "tp_from_iso_string p lib s =
     (if 0x2e \<notin> set s then and_then (sec_from_iso_string lib s) time_point_of_sec
      else
        (let ms = 0x31 # tl (dropWhile (\<lambda>c. c \<noteq> 0x2e) s);
             ms = ms @ replicate (4 - length ms) 0x30
         in and_then (sec_from_iso_string lib s) (\<lambda>t. and_then (time_point_of_sec t) (\<lambda>t.
              and_then (to_int64 p ms) (\<lambda>n. and_then (int64_value (sint n - 1000)) (\<lambda>n.
                and_then (milliseconds n) (tp_add t)))))))"

definition tp_to_variant :: "posix_lib \<Rightarrow> time_point \<Rightarrow> variant" where
  "tp_to_variant lib t = String (tp_to_string lib t)"

definition tp_from_variant :: "platform \<Rightarrow> posix_lib \<Rightarrow> variant \<Rightarrow> time_point result" where
  "tp_from_variant p lib v = and_then (as_string p v) (tp_from_iso_string p lib)"

definition sec_to_variant :: "posix_lib \<Rightarrow> time_point_sec \<Rightarrow> variant" where
  "sec_to_variant lib t = String (to_iso_string lib t)"

definition sec_from_variant :: "platform \<Rightarrow> posix_lib \<Rightarrow> variant \<Rightarrow> time_point_sec result" where
  "sec_from_variant p lib v = and_then (as_string p v) (sec_from_iso_string lib)"

definition micros_to_variant :: "microseconds \<Rightarrow> variant" where
  "micros_to_variant m = Int64 m"

definition micros_from_variant :: "platform \<Rightarrow> variant \<Rightarrow> microseconds result" where
  "micros_from_variant p v = as_int64 p v"

subsection \<open>Approximate relative times\<close>

definition quantity :: "u32 \<Rightarrow> string \<Rightarrow> bytes" where
  "quantity n unit = dec (unat n) @ ascii unit @ (if n > 1 then ascii ''s'' else [])"

definition get_approximate_relative_time_string :: "time_point_sec \<Rightarrow> time_point_sec \<Rightarrow> bytes \<Rightarrow> bytes result" where
  "get_approximate_relative_time_string event_time relative_to_time default_ago =
     (let seconds_ago = utc_seconds relative_to_time - utc_seconds event_time;
          future = (sint seconds_ago < 0);
          ago = (if future then ascii '' in the future'' else default_ago)
      in if seconds_ago = 0x80000000 then Inl Undefined_behaviour
         else
           (let seconds_ago = (if future then - seconds_ago else seconds_ago)
            in if sint seconds_ago < 90 then Inr (quantity seconds_ago '' second'' @ ago)
               else if sint seconds_ago + 30 \<ge> 2 ^ 31 then Inl Undefined_behaviour
               else let minutes_ago = (seconds_ago + 30) div 60
               in if minutes_ago < 90 then Inr (quantity minutes_ago '' minute'' @ ago)
               else let hours_ago = (minutes_ago + 30) div 60
               in if hours_ago < 90 then Inr (quantity hours_ago '' hour'' @ ago)
               else let days_ago = (hours_ago + 12) div 24
               in if days_ago < 90 then Inr (quantity days_ago '' day'' @ ago)
               else let weeks_ago = (days_ago + 3) div 7
               in if weeks_ago < 70 then Inr (quantity weeks_ago '' week'' @ ago)
               else let months_ago = (days_ago + 15) div 30
               in if months_ago < 12 then Inr (quantity months_ago '' month'' @ ago)
               else let years_ago = days_ago div 365;
                        plural = (if months_ago > 1 then ascii ''s'' else []);
                        years = dec (unat years_ago) @ ascii '' year'' @ plural;
                        leftover_days = days_ago - years_ago * 365;
                        leftover_months = (leftover_days + 15) div 30
               in if months_ago < 12 * 5 \<and> leftover_months \<noteq> 0
                  then Inr (years @ dec (unat leftover_months) @ ascii '' month'' @ plural @ ago)
                  else Inr (years @ ago)))"

subsection \<open>Texts read back\<close>

text \<open>
  What Boost documents of its calendar texts, for times up to the year 9999: the extended form has a dash after the year and no
  dot, and parsing it, alone or with a fraction of three digits, gives its seconds.
\<close>

definition last_second :: nat where
  "last_second = 253402300799"

definition posix_texts :: "posix_lib \<Rightarrow> bool" where
  "posix_texts lib \<longleftrightarrow>
     (\<forall>w. unat w \<le> last_second \<longrightarrow>
        length (iso_extended_text lib w) \<ge> 5 \<and> iso_extended_text lib w ! 4 = 0x2d \<and> 0x2e \<notin> set (iso_extended_text lib w) \<and>
        parse_delimited lib (iso_extended_text lib w) = Some (int (unat w)) \<and>
        (\<forall>ds. length ds = 3 \<and> list_all is_digit ds \<longrightarrow>
           parse_delimited lib (iso_extended_text lib w @ 0x2e # ds) = Some (int (unat w))))"

lemma padded_millis:
  assumes "m < 1000"
  obtains ds where "dec (m + 1000) = 0x31 # ds" and "length ds = 3" and "list_all is_digit ds"
proof -
  have d: "dec (m + 1000) = [of_nat (48 + (m + 1000) div 1000 mod 10), of_nat (48 + (m + 1000) div 100 mod 10),
      of_nat (48 + (m + 1000) div 10 mod 10), of_nat (48 + (m + 1000) mod 10)]"
    using assms by (simp add: dec_def decimal.simps div_greater_zero_iff div_mult2_eq [symmetric] del: of_nat_add)
  moreover have "(m + 1000) div 1000 = 1" using assms by simp
  ultimately have e: "dec (m + 1000) = 0x31 # [of_nat (48 + (m + 1000) div 100 mod 10),
      of_nat (48 + (m + 1000) div 10 mod 10), of_nat (48 + (m + 1000) mod 10)]" by simp
  show ?thesis using that [OF e] dec_digits [of "m + 1000"] unfolding e by simp
qed

lemma int64_value_nat: "n < 2 ^ 63 \<Longrightarrow> int64_value (int n) = Inr (of_nat n)"
  by (simp add: int64_value_def)

lemma sint_of_nat_u64: "n < 2 ^ 63 \<Longrightarrow> sint (of_nat n :: u64) = int n"
  by (simp add: signed_of_nat signed_take_bit_int_eq_self_iff)

lemma to_int64_dec:
  assumes "decimal_casts p" and "n < 2 ^ 63"
  shows "to_int64 p (dec n) = Inr (of_nat n)"
proof -
  have "lex_int64 p (dec_int (sint (of_nat n :: u64))) = Some (of_nat n)" using assms(1) by (simp add: decimal_casts_def)
  then show ?thesis using assms(2) by (simp add: sint_of_nat_u64 dec_int_def to_int64_def)
qed

lemma time_point_of_sec_eq: "time_point_of_sec t = Inr \<lparr> elapsed = of_nat (unat (utc_seconds t) * 1000000) \<rparr>"
proof -
  have u: "unat (utc_seconds t) < 2 ^ 32" using word_unat_lt [of "utc_seconds t"] by simp
  have "(ucast (utc_seconds t) :: u64) = of_nat (unat (utc_seconds t))" by (rule ucast_unat_eq) simp
  moreover have "sint (of_nat (unat (utc_seconds t)) :: u64) = int (unat (utc_seconds t))" using u by (intro sint_of_nat_u64) simp
  ultimately have "sint (ucast (utc_seconds t) :: u64) = int (unat (utc_seconds t))" by simp
  then have "seconds (ucast (utc_seconds t)) = int64_value (int (unat (utc_seconds t) * 1000000))" by (simp add: seconds_def)
  moreover have "unat (utc_seconds t) * 1000000 < 2 ^ 63" using u by simp
  ultimately show ?thesis by (simp only: time_point_of_sec_def int64_value_nat and_then_simps)
qed

lemma sec_from_extended:
  assumes "posix_texts lib" and "unat w \<le> last_second"
  shows "sec_from_iso_string lib (iso_extended_text lib w) = Inr \<lparr> utc_seconds = of_nat (unat w) \<rparr>"
    and "length ds = 3 \<Longrightarrow> list_all is_digit ds \<Longrightarrow>
      sec_from_iso_string lib (iso_extended_text lib w @ 0x2e # ds) = Inr \<lparr> utc_seconds = of_nat (unat w) \<rparr>"
  using assms by (auto simp: posix_texts_def sec_from_iso_string_def nth_append)

text \<open>The parts of a text with a fraction put together.\<close>

lemma tp_from_text:
  assumes "decimal_casts p" and "posix_texts lib" and "unat w \<le> last_second" and "m < 1000" and "dec (m + 1000) = 0x31 # ds"
  shows "tp_from_iso_string p lib (iso_extended_text lib w @ 0x2e # ds) = Inr \<lparr> elapsed = of_nat (unat w mod 2 ^ 32 * 1000000 + m * 1000) \<rparr>"
proof -
  obtain ds' where ds': "dec (m + 1000) = 0x31 # ds'" "length ds' = 3" "list_all is_digit ds'" using assms(4) by (rule padded_millis)
  then have ds: "length ds = 3" "list_all is_digit ds" using assms(5) by simp_all
  have nodot: "0x2e \<notin> set (iso_extended_text lib w)" using assms(2,3) by (simp add: posix_texts_def)
  then have drop: "dropWhile (\<lambda>c. c \<noteq> 0x2e) (iso_extended_text lib w @ 0x2e # ds) = 0x2e # ds" by (simp add: dropWhile_append)
  let ?s = "unat w mod 2 ^ 32"
  have s: "?s < 4294967296" by simp
  have sec: "and_then (sec_from_iso_string lib (iso_extended_text lib w @ 0x2e # ds)) time_point_of_sec = Inr \<lparr> elapsed = of_nat (?s * 1000000) \<rparr>"
  proof -
    have "unat (of_nat (unat w) :: u32) = ?s" by (simp add: unat_ucast_mod)
    then show ?thesis
      by (simp only: sec_from_extended(2) [OF assms(2,3) ds] and_then_simps time_point_of_sec_eq time_point_sec.simps)
  qed
  have ms: "to_int64 p (0x31 # ds) = Inr (of_nat (m + 1000))"
    using to_int64_dec [OF assms(1), of "m + 1000"] assms(4,5) by simp
  have n: "int64_value (sint (of_nat (m + 1000) :: u64) - 1000) = Inr (of_nat m)"
    using assms(4) int64_value_nat [of m] by (subst sint_of_nat_u64) simp_all
  have ml: "milliseconds (of_nat m) = Inr (of_nat (m * 1000))"
    using assms(4) int64_value_nat [of "m * 1000"] unfolding milliseconds_def by (subst sint_of_nat_u64) simp_all
  have "tp_add \<lparr> elapsed = of_nat (?s * 1000000) \<rparr> (of_nat (m * 1000)) = Inr \<lparr> elapsed = of_nat (?s * 1000000 + m * 1000) \<rparr>"
  proof -
    have "?s * 1000000 < 2 ^ 63" "m * 1000 < 2 ^ 63" "?s * 1000000 + m * 1000 < 2 ^ 63" using s assms(4) by simp_all
    then show ?thesis
      by (simp only: tp_add_def micros_add_def time_point.simps sint_of_nat_u64 of_nat_add [symmetric] int64_value_nat and_then_simps)
  qed
  moreover have "tp_from_iso_string p lib (iso_extended_text lib w @ 0x2e # ds) =
      and_then (and_then (sec_from_iso_string lib (iso_extended_text lib w @ 0x2e # ds)) time_point_of_sec) (\<lambda>t.
        and_then (to_int64 p (0x31 # ds)) (\<lambda>n. and_then (int64_value (sint n - 1000)) (\<lambda>n. and_then (milliseconds n) (tp_add t))))"
    using ds(1) by (simp add: tp_from_iso_string_def drop and_then_assoc)
  ultimately show ?thesis by (simp only: sec ms n ml and_then_simps)
qed

lemma uint_eq_sint_nonneg: "0 \<le> sint n \<Longrightarrow> sint n = int (unat (n :: u64))"
  using sint_less [of n] by (simp add: uint_sint take_bit_int_eq_self)

lemma seconds_and_back: "of_int (tdiv (sint (of_nat (unat (s :: u32) * 1000000) :: u64)) 1000000) = s"
proof -
  have "unat s * 1000000 < 2 ^ 63" using word_unat_lt [of s] by simp
  then have "sint (of_nat (unat s * 1000000) :: u64) = int (unat s * 1000000)" by (rule sint_of_nat_u64)
  moreover have "tdiv (int (unat s * 1000000)) 1000000 = int (unat s)" by (simp add: tdiv_nonneg)
  ultimately show ?thesis by (simp del: of_nat_mult)
qed

text \<open>The milliseconds of a count are all that a cut of its seconds to 32 bits keeps, when it keeps the seconds.\<close>

lemma millis_kept:
  fixes e :: u64
  shows "unat e div 1000000 < 2 ^ 32 \<longleftrightarrow>
     of_nat (unat e div 1000000 mod 2 ^ 32 * 1000000 + unat e mod 1000000 div 1000 * 1000) = e - e mod 1000"
proof -
  let ?c = "unat e"
  let ?S = "?c div 1000000" and ?M = "?c mod 1000000 div 1000"
  have c: "?c = ?S * 1000000 + ?M * 1000 + ?c mod 1000"
  proof -
    have "?c mod 1000000 mod 1000 = ?c mod 1000" by (simp add: mod_mod_cancel)
    then show ?thesis using div_mult_mod_eq [of ?c 1000000] div_mult_mod_eq [of "?c mod 1000000" 1000] by linarith
  qed
  have "unat (e - e mod 1000) = ?c - ?c mod 1000"
    using unat_sub [of "e mod 1000" e] by (simp add: word_le_nat_alt unat_mod)
  then have "unat (e - e mod 1000) = ?S * 1000000 + ?M * 1000" using c by linarith
  moreover have "?S mod 2 ^ 32 * 1000000 + ?M * 1000 < 2 ^ 64"
  proof -
    have "?S mod 2 ^ 32 \<le> ?S" by (rule mod_less_eq_dividend)
    then show ?thesis using c word_unat_lt [of e] by simp
  qed
  ultimately have "of_nat (?S mod 2 ^ 32 * 1000000 + ?M * 1000) = e - e mod 1000 \<longleftrightarrow> ?S mod 2 ^ 32 = ?S"
    by (simp add: word_unat_eq_iff unat_of_nat del: of_nat_add of_nat_mult)
  also have "\<dots> \<longleftrightarrow> ?S < 2 ^ 32" by (simp only: mod_eq_self_iff_div_eq_0 div_eq_0_iff) simp
  finally show ?thesis by blast
qed

lemma tp_text_read:
  assumes "decimal_casts p" and "posix_texts lib" and "0 \<le> sint (elapsed t)" and "sint (elapsed t) div 1000000 \<le> int last_second"
  defines "c \<equiv> unat (elapsed t)"
  shows "tp_from_iso_string p lib (tp_to_string lib t) =
    Inr \<lparr> elapsed = of_nat (c div 1000000 mod 2 ^ 32 * 1000000 + c mod 1000000 div 1000 * 1000) \<rparr>"
proof -
  have sc: "sint (elapsed t) = int c" using uint_eq_sint_nonneg [OF assms(3)] by (simp add: c_def)
  let ?S = "c div 1000000" and ?M = "c mod 1000000 div 1000"
  have "int ?S \<le> int last_second" using assms(4) by (simp add: sc zdiv_int)
  then have S: "?S \<le> last_second" by (simp only: of_nat_le_iff)
  have w: "unat (elapsed t div 1000000) = ?S" by (simp add: c_def unat_div)
  have m: "unat (elapsed t mod 1000000 div 1000 + 1000) = ?M + 1000"
    by (subst unat_add_lt) (simp_all add: c_def unat_div unat_mod)
  have M: "?M < 1000" by (rule less_mult_imp_div_less) simp
  obtain ds where ds: "dec (?M + 1000) = 0x31 # ds" using padded_millis [OF M] by metis
  have "tp_to_string lib t = iso_extended_text lib (elapsed t div 1000000) @ 0x2e # ds"
    using assms(3) by (simp add: tp_to_string_def m ds ascii_def)
  then show ?thesis
    using tp_from_text [OF assms(1,2) _ M ds, of "elapsed t div 1000000"] S unfolding w by simp
qed


definition numbered_posix :: posix_lib where
  "numbered_posix = \<lparr> iso_text = (\<lambda>w. dec (unat w)), iso_extended_text = (\<lambda>w. ascii ''1970-'' @ dec (unat w)), duration_text = (\<lambda>w. dec_int (sint w)),
     parse_delimited = (\<lambda>s. Some (int (digits_value 0 (takeWhile (\<lambda>c. c \<noteq> 0x2e) (drop 5 s))))),
     parse_iso = (\<lambda>s. Some (int (digits_value 0 s))) \<rparr>"

lemma numbered_posix_texts: "posix_texts numbered_posix"
proof -
  have d: "0x2e \<notin> set (dec n)" for n using dec_digits [of n] by (auto simp: list_all_iff is_digit_def)
  have t: "takeWhile (\<lambda>c. c \<noteq> 0x2e) (dec n) = dec n" for n using d [of n] by (auto simp: takeWhile_eq_all_conv)
  show ?thesis by (simp add: posix_texts_def numbered_posix_def ascii_def takeWhile_append dec_value d t)
qed


text \<open>The plural of the years follows the months, and nothing separates the two numbers.\<close>

lemma relative_time_of_490_days:
  "get_approximate_relative_time_string \<lparr> utc_seconds = 0 \<rparr> \<lparr> utc_seconds = 490 * 86400 \<rparr> (ascii '' ago'') = Inr (ascii ''1 years4 months ago'')"
  by (simp add: get_approximate_relative_time_string_def Let_def dec_def decimal.simps ascii_def)

end
