(* ===== verification/Raw_Typed.thy ===== *)
theory Raw_Typed
  imports Raw_Api
begin

text \<open>
  What an unpacker returns is a value of its type. The proof is compositional: \<open>typed d P\<close> says of an unpacker that whatever
  it returns satisfies \<open>P\<close>, and the combinators of the serializer keep it.
\<close>

lemma is_ok_and_then: "is_ok (and_then r f) \<longleftrightarrow> (\<exists>x. r = Inr x \<and> is_ok (f x))"
  by (cases r) simp_all

lemma is_ok_enc_list: "is_ok (enc_list enc vs) \<longleftrightarrow> list_all (\<lambda>v. is_ok (enc v)) vs"
  by (induction vs) (auto simp: is_ok_and_then is_ok_def split: sum.splits)

lemma is_ok_enc_sized: "is_ok (enc_sized n r) \<longleftrightarrow> is_ok r"
  by (cases r) (simp_all add: enc_sized_def)

context in_stream
begin

definition typed :: "('s \<Rightarrow> ('a \<times> 's) result) \<Rightarrow> ('a \<Rightarrow> bool) \<Rightarrow> bool" where
  "typed d P \<longleftrightarrow> (\<forall>s v s'. invar s \<longrightarrow> d s = Inr (v, s') \<longrightarrow> invar s' \<and> P v)"

lemma typedI: "(\<And>s v s'. invar s \<Longrightarrow> d s = Inr (v, s') \<Longrightarrow> invar s' \<and> P v) \<Longrightarrow> typed d P"
  by (auto simp: typed_def)

lemma typedD: "typed d P \<Longrightarrow> invar s \<Longrightarrow> d s = Inr (v, s') \<Longrightarrow> invar s' \<and> P v"
  by (auto simp: typed_def)

lemma typed_tame: "tame d \<Longrightarrow> typed d (\<lambda>_. True)"
  by (auto intro!: typedI dest: tame_Inr)

lemma typed_mono: "typed d P \<Longrightarrow> (\<And>v. P v \<Longrightarrow> Q v) \<Longrightarrow> typed d Q"
  by (auto simp: typed_def)

lemma typed_return: "P x \<Longrightarrow> typed (\<lambda>s. Inr (x, s)) P"
  by (simp add: typed_def)

lemma typed_assert: "(b \<Longrightarrow> typed d P) \<Longrightarrow> typed (\<lambda>s. fc_assert b (d s)) P"
  by (cases b) (simp_all add: typed_def)

lemma typed_then:
  assumes "typed d P" and "\<And>x. P x \<Longrightarrow> typed (f x) Q"
  shows "typed (\<lambda>s. and_then (d s) (\<lambda>(x, s'). f x s')) Q"
proof (rule typedI)
  fix s v s'
  assume s: "invar s" and r: "and_then (d s) (\<lambda>(x, s'). f x s') = Inr (v, s')"
  then obtain x t where x: "d s = Inr (x, t)" and v: "f x t = Inr (v, s')" by (auto elim!: and_then_InrE)
  then show "invar s' \<and> Q v" using typedD [OF assms(1) s x] typedD [OF assms(2) _ v] by blast
qed

lemma typed_map: "typed d P \<Longrightarrow> (\<And>x. P x \<Longrightarrow> Q (c x)) \<Longrightarrow> typed (\<lambda>s. and_then (d s) (\<lambda>(x, s'). Inr (c x, s'))) Q"
  by (rule typed_then [where P = P]) (auto intro: typed_return)

lemma typed_read: "n < 2 ^ 63 \<Longrightarrow> typed (read n) (\<lambda>bs. length bs = n)"
proof (rule typedI)
  fix s v s'
  assume n: "n < 2 ^ 63" and s: "invar s" and r: "read n s = Inr (v, s')"
  have "n \<le> length (pending s)" using read_short [OF s _ n] r by (cases "n \<le> length (pending s)") auto
  with read_ok [OF s, of "take n (pending s)" "drop n (pending s)"] r show "invar s' \<and> length v = n" by auto
qed

lemma typed_times: "typed d P \<Longrightarrow> typed (times_then d n) (\<lambda>vs. length vs = n \<and> list_all P vs)"
proof (induction n)
  case (Suc n)
  have "typed (\<lambda>s. and_then (d s) (\<lambda>(x, s'). and_then (times_then d n s') (\<lambda>(xs, s''). Inr (x # xs, s''))))
      (\<lambda>vs. length vs = Suc n \<and> list_all P vs)"
    by (rule typed_then [OF Suc.prems], rule typed_map [OF Suc.IH [OF Suc.prems]]) simp
  then show ?case by (simp add: typed_def)
qed (simp add: typed_def)

lemma typed_scalar: "n < 2 ^ 63 \<Longrightarrow> typed (unpack_scalar read n) (\<lambda>v. v < 256 ^ n)"
  unfolding unpack_scalar_def [abs_def] using of_le_bytes_bound by (auto intro!: typed_map [OF typed_read])

lemma typed_size:
  "(\<And>n. typed (k n) P) \<Longrightarrow> typed (\<lambda>s. and_then (unpack_unsigned_int get s) (\<lambda>(size, s'). k size s')) P"
  by (rule typed_then [OF typed_tame [OF tame_unsigned_int]])

lemma typed_bytes: "typed (unpack_bytes read get) (\<lambda>bs. length bs \<le> MAX_SIZE_OF_BYTE_ARRAYS)"
  unfolding unpack_bytes_def [abs_def]
proof (intro typed_size typed_assert)
  fix n :: u32
  assume n: "unat n \<le> MAX_SIZE_OF_BYTE_ARRAYS"
  show "typed (\<lambda>s'. if unat n \<noteq> 0 then read (unat n) s' else Inr ([], s')) (\<lambda>bs. length bs \<le> MAX_SIZE_OF_BYTE_ARRAYS)"
  proof (cases "unat n = 0")
    case False
    have "typed (read (unat n)) (\<lambda>bs. length bs \<le> MAX_SIZE_OF_BYTE_ARRAYS)"
      by (rule typed_mono [OF typed_read]) (use n array_limits(2) [OF n] in simp_all)
    with False show ?thesis by simp
  qed (simp add: typed_return)
qed

lemma typed_string: "typed (unpack_string read get) (\<lambda>bs. length bs \<le> MAX_SIZE_OF_BYTE_ARRAYS)"
  unfolding unpack_string_def [abs_def] by (rule typed_map [OF typed_bytes]) simp

lemma typed_optional: "typed d P \<Longrightarrow> typed (unpack_optional read d None) (\<lambda>v. \<forall>x. v = Some x \<longrightarrow> P x)"
  unfolding unpack_optional_def [abs_def]
  by (rule typed_then [OF typed_tame [OF tame_bool]], rename_tac b, case_tac b) (auto intro: typed_return typed_map)

lemma typed_vector: "typed d P \<Longrightarrow> typed (unpack_vector get d) (\<lambda>vs. length vs \<le> MAX_NUM_ARRAY_ELEMENTS \<and> list_all P vs)"
  unfolding unpack_vector_def [abs_def] by (intro typed_size typed_assert typed_mono [OF typed_times]) auto

lemma typed_c_array: "typed d P \<Longrightarrow> typed (unpack_c_array get n d) (\<lambda>vs. length vs = n \<and> list_all P vs)"
  unfolding unpack_c_array_def [abs_def] by (intro typed_size typed_assert typed_times)

lemma typed_pair: "typed d P \<Longrightarrow> typed e Q \<Longrightarrow> typed (unpack_pair d e) (\<lambda>(v, w). P v \<and> Q w)"
  unfolding unpack_pair_def [abs_def] by (rule typed_then, assumption, rule typed_map) auto

lemma typed_fields:
  "(\<And>t. t \<in> set ts \<Longrightarrow> typed (unpack_val read get t) (\<lambda>v. is_ok (enc_val t v))) \<Longrightarrow>
   typed (unpack_fields read get ts) (\<lambda>vs. is_ok (enc_fields ts vs))"
proof (induction ts)
  case (Cons t ts)
  show ?case unfolding unpack_fields.simps
    by (rule typed_then [OF Cons.prems], simp, rule typed_map [OF Cons.IH]) (use Cons.prems in \<open>auto simp: is_ok_and_then is_ok_def split: sum.splits\<close>)
qed (simp add: typed_def)

lemma typed_variant:
  assumes "\<And>t. t \<in> set ts \<Longrightarrow> typed (unpack_val read get t) (\<lambda>v. is_ok (enc_val t v))"
  shows "typed (unpack_val read get (TVariant ts)) (\<lambda>v. is_ok (enc_val (TVariant ts) v))"
  unfolding unpack_val.simps
proof (intro typed_size typed_assert)
  fix n :: u32
  assume n: "unat n < length ts"
  then have "typed (unpack_val read get (ts ! unat n)) (\<lambda>v. is_ok (enc_val (ts ! unat n) v))" using assms by simp
  then have "typed (\<lambda>s'. and_then (unpack_val read get (ts ! unat n) s') (\<lambda>(v, s''). Inr (VVariant (unat n) v, s'')))
      (\<lambda>v. is_ok (enc_val (TVariant ts) v))"
    using n by (auto intro: typed_map simp: is_ok_enc_sized)
  then show "typed (\<lambda>s'. if unat n < length ts
      then and_then (unpack_val read get (ts ! unat n) s') (\<lambda>(v, s''). Inr (VVariant (unat n) v, s''))
      else Inl Undefined_behaviour) (\<lambda>v. is_ok (enc_val (TVariant ts) v))"
    using n by simp
qed

lemma typed_wrap:
  "typed d P \<Longrightarrow> (\<And>s. unpack_val read get t s = and_then (d s) (\<lambda>(v, s'). Inr (c v, s'))) \<Longrightarrow>
   (\<And>v. P v \<Longrightarrow> is_ok (enc_val t (c v))) \<Longrightarrow> typed (unpack_val read get t) (\<lambda>v. is_ok (enc_val t v))"
  using typed_map [of d P "\<lambda>v. is_ok (enc_val t v)" c] by (simp add: typed_def)

lemma typed_val: "wf_type t \<Longrightarrow> no_signed_int t \<Longrightarrow> typed (unpack_val read get t) (\<lambda>v. is_ok (enc_val t v))"
proof (induction t)
  case (TScalar n)
  then have "typed (unpack_scalar read n) (\<lambda>v. v < 256 ^ n)" by (intro typed_scalar) simp
  then show ?case by (rule typed_wrap [where c = VScalar]) simp_all
next
  case TBool
  show ?case by (rule typed_wrap [where c = VBool, OF typed_tame [OF tame_bool]]) (simp_all add: enc_bool_def)
next
  case TUnsigned_int
  show ?case by (rule typed_wrap [where c = VInt, OF typed_tame [OF tame_unsigned_int]]) (simp_all add: enc_unsigned_int_def)
next
  case TTime_point_sec
  have "tame (unpack_time_point_sec read)"
    unfolding unpack_time_point_sec_def [abs_def] by (intro tame_map tame_read) simp
  then show ?case by (rule typed_wrap [where c = VInt, OF typed_tame]) simp_all
next
  case TBytes
  show ?case by (rule typed_wrap [where c = VBytes, OF typed_bytes]) (simp_all add: enc_blob_def is_ok_enc_sized)
next
  case TString
  show ?case by (rule typed_wrap [where c = VBytes, OF typed_string]) (simp_all add: enc_blob_def is_ok_enc_sized)
next
  case TEnum
  have "typed (unpack_scalar read 8) (\<lambda>v. v < 256 ^ 8)" by (rule typed_scalar) simp
  then show ?case by (rule typed_wrap [where c = VScalar]) simp_all
next
  case (TOptional t)
  then have "typed (unpack_val read get t) (\<lambda>v. is_ok (enc_val t v))" by simp
  from typed_optional [OF this] show ?case
    by (rule typed_wrap [where c = VOptional]) (auto simp: enc_optional_def is_ok_and_then is_ok_iff split: option.splits)
next
  case (TArray n t)
  then have "typed (unpack_val read get t) (\<lambda>v. is_ok (enc_val t v))" by simp
  from typed_times [OF this, of n] show ?case
    by (rule typed_wrap [where c = VList]) (simp_all add: unpack_array_def is_ok_enc_list)
next
  case (TCArray n t)
  then have "typed (unpack_val read get t) (\<lambda>v. is_ok (enc_val t v))" by simp
  from typed_c_array [OF this, of n] show ?case
    by (rule typed_wrap [where c = VList]) (simp_all add: is_ok_enc_sized is_ok_enc_list)
next
  case (TVector t)
  then have "typed (unpack_val read get t) (\<lambda>v. is_ok (enc_val t v))" by simp
  from typed_vector [OF this] show ?case
    by (rule typed_wrap [where c = VList]) (simp_all add: enc_seq_def is_ok_enc_sized is_ok_enc_list)
next
  case (TPair t u)
  then have "typed (unpack_val read get t) (\<lambda>v. is_ok (enc_val t v))" "typed (unpack_val read get u) (\<lambda>v. is_ok (enc_val u v))"
    by simp_all
  from typed_pair [OF this] show ?case
    by (rule typed_wrap [where c = "\<lambda>(v, w). VPair v w"]) (auto simp: split_def enc_pair_def is_ok_and_then is_ok_iff)
next
  case (TStruct ts)
  then have "typed (unpack_fields read get ts) (\<lambda>vs. is_ok (enc_fields ts vs))"
    by (intro typed_fields) (auto simp: list_all_iff)
  then show ?case by (rule typed_wrap [where c = VStruct]) simp_all
next
  case (TVariant ts)
  then show ?case by (intro typed_variant) (auto simp: list_all_iff)
qed simp

end



end
