(* ===== verification/Keys.thy ===== *)
theory Keys
  imports Raw_Api Base58 Hash_Class
begin

text \<open>
  The texts of public keys, private keys and signatures (\<^verbatim>\<open>fc/crypto/common.hpp\<close>, \<^verbatim>\<open>public_key.cpp\<close>, \<^verbatim>\<open>private_key.cpp\<close>,
  \<^verbatim>\<open>signature.cpp\<close>): the alternative held by the variant is serialized with a checksum, written in base 58 and given
  a prefix that says which alternative it is. Here the serializer, base 58 and the variants meet. \<^verbatim>\<open>ripemd160\<close> and \<^verbatim>\<open>sha256\<close> are
  OpenSSL: arguments, of which only the size of the digest is assumed.
\<close>

subsection \<open>Key types\<close>

text \<open>
  The \<^verbatim>\<open>data_type\<close> of an alternative: the trivial arrays and digests behind a \<^verbatim>\<open>shim\<close>, which are written as the bytes of the
  object, or one of the two classes of \<^verbatim>\<open>elliptic_webauthn.hpp\<close>.
\<close>

datatype key_data = Shim nat | Webauthn_public_key | Webauthn_signature

fun data_type :: "key_data \<Rightarrow> raw_type" where
  "data_type (Shim n) = TScalar n"
| "data_type Webauthn_public_key = TStruct [TScalar 33, TScalar 1, TString]"
| "data_type Webauthn_signature = TStruct [TScalar 65, TVector (TScalar 1), TString]"

text \<open>The index of the alternative in the \<^verbatim>\<open>std::variant\<close> and its data.\<close>

type_synonym key_storage = "nat \<times> raw_value"

type_synonym key_types = "(bytes \<times> key_data) list"

definition public_key_types :: key_types where
  "public_key_types = [(ascii ''K1'', Shim 33), (ascii ''R1'', Shim 33), (ascii ''WA'', Webauthn_public_key)]"

definition private_key_types :: key_types where
  "private_key_types = [(ascii ''K1'', Shim 32), (ascii ''R1'', Shim 32)]"

definition signature_types :: key_types where
  "signature_types = [(ascii ''K1'', Shim 65), (ascii ''R1'', Shim 65), (ascii ''WA'', Webauthn_signature)]"

definition public_key_legacy_prefix :: bytes where
  "public_key_legacy_prefix = ascii ''EOS''"

definition public_key_base_prefix :: bytes where
  "public_key_base_prefix = ascii ''PUB''"

definition private_key_base_prefix :: bytes where
  "private_key_base_prefix = ascii ''PVT''"

definition signature_base_prefix :: bytes where
  "signature_base_prefix = ascii ''SIG''"

abbreviation delimiter :: byte where
  "delimiter \<equiv> 0x5f"

definition find_char :: "bytes \<Rightarrow> byte \<Rightarrow> nat option" where
  "find_char s c = (let n = length (takeWhile (\<lambda>x. x \<noteq> c) s) in if n < length s then Some n else None)"

text \<open>The members of the two classes, and what the values of their types hold.\<close>

definition member :: "nat \<Rightarrow> raw_value \<Rightarrow> raw_value" where
  "member i v = (case v of VStruct vs \<Rightarrow> vs ! i | _ \<Rightarrow> v)"

definition scalar_of :: "raw_value \<Rightarrow> nat" where
  "scalar_of v = (case v of VScalar n \<Rightarrow> n | _ \<Rightarrow> 0)"

definition string_of :: "raw_value \<Rightarrow> bytes" where
  "string_of v = (case v of VBytes s \<Rightarrow> s | _ \<Rightarrow> [])"

definition octets_of :: "raw_value \<Rightarrow> bytes" where
  "octets_of v = (case v of VList vs \<Rightarrow> map (\<lambda>x. of_nat (scalar_of x)) vs | _ \<Rightarrow> [])"

subsection \<open>Checksums\<close>

text \<open>\<^verbatim>\<open>ripemd160::encoder\<close>, of which the state is what has been written to it. The length is a \<^verbatim>\<open>uint32_t\<close>.\<close>

definition ripemd160_write :: "bytes \<Rightarrow> bytes \<Rightarrow> bytes result" where
  "ripemd160_write d ctx = Inr (ctx @ take (length d mod 2 ^ 32) d)"

definition calculate_checksum :: "(bytes \<Rightarrow> bytes) \<Rightarrow> key_data \<Rightarrow> raw_value \<Rightarrow> bytes option \<Rightarrow> u32 result" where
  "calculate_checksum ripemd160 kind data prefix =
     and_then (pack_val ripemd160_write (data_type kind) data []) (\<lambda>encoder.
       and_then (case prefix of None \<Rightarrow> Inr encoder | Some p \<Rightarrow> ripemd160_write p encoder) (\<lambda>encoder.
         Inr (of_nat (of_le_bytes (take 4 (ripemd160 encoder))))))"

text \<open>\<^verbatim>\<open>checksummed_data\<close> is reflected as \<^verbatim>\<open>(data)(check)\<close>.\<close>

definition pack_checksummed :: "key_data \<Rightarrow> raw_value \<Rightarrow> u32 \<Rightarrow> bytes result" where
  "pack_checksummed kind data check = pack (TStruct [data_type kind, TScalar 4]) (VStruct [data, VScalar (unat check)])"

text \<open>The unpacker of a web authentication key ends with its \<^verbatim>\<open>post_init\<close>.\<close>

definition post_init :: "key_data \<Rightarrow> raw_value \<Rightarrow> unit result" where
  "post_init kind data = (if kind = Webauthn_public_key then fc_assert (string_of (member 2 data) \<noteq> []) (Inr ()) else Inr ())"

definition unpack_key_data :: "key_data \<Rightarrow> (raw_value, char_stream) unpacker" where
  "unpack_key_data kind s =
     and_then (unpack_val cs_read cs_get (data_type kind) s) (\<lambda>(data, s). and_then (post_init kind data) (\<lambda>_. Inr (data, s)))"

definition unpack_checksummed :: "key_data \<Rightarrow> (raw_value \<times> u32, char_stream) unpacker" where
  "unpack_checksummed kind s =
     and_then (unpack_key_data kind s) (\<lambda>(data, s).
       and_then (unpack_scalar cs_read 4 s) (\<lambda>(check, s). Inr ((data, of_nat check), s)))"

definition prefix_matches :: "bytes \<Rightarrow> bytes \<Rightarrow> bool" where
  "prefix_matches prefix str = (length str > length prefix \<and> take (length prefix) str = prefix)"

subsection \<open>Parsers\<close>

fun base58_str_parser_impl ::
  "'bn bignum_lib \<Rightarrow> (bytes \<Rightarrow> bytes) \<Rightarrow> nat \<Rightarrow> key_types \<Rightarrow> bytes \<Rightarrow> bytes \<Rightarrow> key_storage result" where
  "base58_str_parser_impl lib ripemd160 position [] prefix_str data_str = fc_assert False (Inl Undefined_behaviour)"
| "base58_str_parser_impl lib ripemd160 position ((prefix, kind) # types) prefix_str data_str =
     (if prefix = prefix_str
      then and_then (from_base58 lib data_str) (\<lambda>bin.
             and_then (unpack_checksummed kind (cs_new bin)) (\<lambda>((data, check), unpacker).
               fc_assert (cs_remaining unpacker = 0)
                 (and_then (calculate_checksum ripemd160 kind data (Some prefix)) (\<lambda>checksum.
                    fc_assert (checksum = check) (Inr (position, data))))))
      else base58_str_parser_impl lib ripemd160 (position + 1) types prefix_str data_str)"

definition base58_str_parser :: "'bn bignum_lib \<Rightarrow> (bytes \<Rightarrow> bytes) \<Rightarrow> key_types \<Rightarrow> bytes \<Rightarrow> key_storage result" where
  "base58_str_parser lib ripemd160 types base58str =
     (case find_char base58str delimiter of
        None \<Rightarrow> fc_assert False (Inl Undefined_behaviour)
      | Some pivot \<Rightarrow>
          (let prefix_str = take pivot base58str; data_str = drop (pivot + 1) base58str
           in fc_assert (data_str \<noteq> []) (base58_str_parser_impl lib ripemd160 0 types prefix_str data_str)))"

text \<open>The part the three parsers share: the base prefix, the delimiter and the rest.\<close>

definition parse_prefixed :: "'bn bignum_lib \<Rightarrow> (bytes \<Rightarrow> bytes) \<Rightarrow> bytes \<Rightarrow> key_types \<Rightarrow> bytes \<Rightarrow> key_storage result" where
  "parse_prefixed lib ripemd160 prefix types base58str =
     (case find_char base58str delimiter of
        None \<Rightarrow> fc_assert False (Inl Undefined_behaviour)
      | Some pivot \<Rightarrow>
          (let prefix_str = take pivot base58str; data_str = drop (pivot + 1) base58str
           in fc_assert (prefix = prefix_str) (fc_assert (data_str \<noteq> []) (base58_str_parser lib ripemd160 types data_str))))"

definition parse_base58 :: "'bn bignum_lib \<Rightarrow> (bytes \<Rightarrow> bytes) \<Rightarrow> bytes \<Rightarrow> key_storage result" where
  "parse_base58 lib ripemd160 base58str =
     (if prefix_matches public_key_legacy_prefix base58str \<and> find_char base58str delimiter = None
      then let sub_str = drop (length public_key_legacy_prefix) base58str
           in and_then (from_base58 lib sub_str) (\<lambda>bin.
                fc_assert (length bin = 33 + 4)
                  (and_then (unpack_checksummed (Shim 33) (cs_new bin)) (\<lambda>((data, check), _).
                     and_then (calculate_checksum ripemd160 (Shim 33) data None) (\<lambda>checksum.
                       fc_assert (checksum = check) (Inr (0, data))))))
      else parse_prefixed lib ripemd160 public_key_base_prefix public_key_types base58str)"

text \<open>A wallet import format; \<^verbatim>\<open>memcmp\<close> over four bytes of each digest.\<close>

definition from_wif :: "'bn bignum_lib \<Rightarrow> (bytes \<Rightarrow> bytes) \<Rightarrow> bytes \<Rightarrow> raw_value result" where
  "from_wif lib sha256 wif_key =
     and_then (from_base58 lib wif_key) (\<lambda>wif_bytes.
       fc_assert (length wif_bytes \<ge> 5)
         (let n = length wif_bytes - 4;
              key_bytes = tl (take n wif_bytes);
              check = sha256 (take n wif_bytes);
              check2 = sha256 check
          in fc_assert (take 4 check = drop n wif_bytes \<or> take 4 check2 = drop n wif_bytes)
               (and_then (to_variant_bytes key_bytes) (\<lambda>v.
                  and_then (digest_from_variant 32 v (digest_zero 32)) (\<lambda>h. Inr (VScalar (of_le_bytes h)))))))"

definition priv_parse_base58 :: "'bn bignum_lib \<Rightarrow> (bytes \<Rightarrow> bytes) \<Rightarrow> (bytes \<Rightarrow> bytes) \<Rightarrow> bytes \<Rightarrow> key_storage result" where
  "priv_parse_base58 lib ripemd160 sha256 base58str =
     (if find_char base58str delimiter = None
      then and_then (from_wif lib sha256 base58str) (\<lambda>data. Inr (0, data))
      else parse_prefixed lib ripemd160 private_key_base_prefix private_key_types base58str)"

definition sig_parse_base58 :: "'bn bignum_lib \<Rightarrow> (bytes \<Rightarrow> bytes) \<Rightarrow> bytes \<Rightarrow> key_storage result" where
  "sig_parse_base58 lib ripemd160 base58str =
     parse_prefixed lib ripemd160 signature_base_prefix signature_types base58str"

subsection \<open>Printers\<close>

text \<open>
  The caller's check: \<open>yield p k\<close> is its \<open>k\<close>-th call in the phase \<open>p\<close>, before base 58 (0), in base 58 (1),
  in the rest of the visitor (2) and after it (3).
\<close>

definition base58str_visitor ::
  "'bn bignum_lib \<Rightarrow> (bytes \<Rightarrow> bytes) \<Rightarrow> key_types \<Rightarrow> nat option \<Rightarrow> (nat \<Rightarrow> yield_calls) \<Rightarrow> key_storage \<Rightarrow> bytes result option" where
  "base58str_visitor lib ripemd160 types default_position yield storage =
     (let (position, data) = storage; is_default = (default_position = Some position)
      in if position < length types
         then let (prefix, kind) = types ! position
              in case and_then (yield 0 0) (\<lambda>_.
                        and_then (calculate_checksum ripemd160 kind data (if is_default then None else Some prefix)) (\<lambda>check.
                          and_then (yield 0 1) (\<lambda>_.
                            and_then (pack_checksummed kind data check) (\<lambda>packed.
                              and_then (yield 0 2) (\<lambda>_. Inr packed))))) of
                   Inl e \<Rightarrow> Some (Inl e)
                 | Inr packed \<Rightarrow>
                     map_option (\<lambda>r. and_then r (\<lambda>data_str.
                       and_then (yield 2 0) (\<lambda>_.
                         let data_str = (if is_default then data_str else prefix @ delimiter # data_str)
                         in and_then (yield 2 1) (\<lambda>_. Inr data_str))))
                       (to_base58 lib packed (yield 1))
         else Some (Inl Undefined_behaviour))"

definition public_key_to_string ::
  "'bn bignum_lib \<Rightarrow> (bytes \<Rightarrow> bytes) \<Rightarrow> (nat \<Rightarrow> yield_calls) \<Rightarrow> key_storage \<Rightarrow> bytes result option" where
  "public_key_to_string lib ripemd160 yield storage =
     map_option (\<lambda>r. and_then r (\<lambda>data_str.
       Inr (if fst storage = 0 then public_key_legacy_prefix @ data_str
            else public_key_base_prefix @ delimiter # data_str)))
       (base58str_visitor lib ripemd160 public_key_types (Some 0) yield storage)"

definition to_wif :: "'bn bignum_lib \<Rightarrow> (bytes \<Rightarrow> bytes) \<Rightarrow> (nat \<Rightarrow> yield_calls) \<Rightarrow> raw_value \<Rightarrow> bytes result option" where
  "to_wif lib sha256 yield secret =
     (case secret of
        VScalar v \<Rightarrow>
          (let data = 0x80 # le_bytes 32 v; digest = sha256 data; digest = sha256 digest
           in to_base58 lib (data @ take 4 digest) (yield 1))
      | _ \<Rightarrow> Some ill_typed)"

definition private_key_to_string ::
  "'bn bignum_lib \<Rightarrow> (bytes \<Rightarrow> bytes) \<Rightarrow> (bytes \<Rightarrow> bytes) \<Rightarrow> (nat \<Rightarrow> yield_calls) \<Rightarrow> key_storage \<Rightarrow> bytes result option" where
  "private_key_to_string lib ripemd160 sha256 yield storage =
     (if fst storage = 0 then to_wif lib sha256 yield (snd storage)
      else map_option (\<lambda>r. and_then r (\<lambda>data_str. Inr (private_key_base_prefix @ delimiter # data_str)))
             (base58str_visitor lib ripemd160 private_key_types None yield storage))"

definition signature_to_string ::
  "'bn bignum_lib \<Rightarrow> (bytes \<Rightarrow> bytes) \<Rightarrow> (nat \<Rightarrow> yield_calls) \<Rightarrow> key_storage \<Rightarrow> bytes result option" where
  "signature_to_string lib ripemd160 yield storage =
     map_option (\<lambda>r. and_then r (\<lambda>data_str.
       and_then (yield 3 0) (\<lambda>_. Inr (signature_base_prefix @ delimiter # data_str))))
       (base58str_visitor lib ripemd160 signature_types None yield storage)"

subsection \<open>Comparison and hash\<close>

text \<open>Strings and vectors compare as sequences of unsigned bytes, arrays and digests by \<^verbatim>\<open>memcmp\<close>.\<close>

fun bytes_less :: "bytes \<Rightarrow> bytes \<Rightarrow> bool" where
  "bytes_less as [] = False"
| "bytes_less [] (b # bs) = True"
| "bytes_less (a # as) (b # bs) = (a < b \<or> \<not> b < a \<and> bytes_less as bs)"

definition array_eq :: "nat \<Rightarrow> nat \<Rightarrow> nat \<Rightarrow> bool" where
  "array_eq n a b = (memcmp (le_bytes n a) (le_bytes n b) = 0)"

definition array_less :: "nat \<Rightarrow> nat \<Rightarrow> nat \<Rightarrow> bool" where
  "array_less n a b = (memcmp (le_bytes n a) (le_bytes n b) < 0)"

definition key_data_eq :: "key_data \<Rightarrow> raw_value \<Rightarrow> raw_value \<Rightarrow> bool" where
  "key_data_eq kind a b =
     (case kind of
        Shim n \<Rightarrow> array_eq n (scalar_of a) (scalar_of b)
      | Webauthn_public_key \<Rightarrow>
          array_eq 33 (scalar_of (member 0 a)) (scalar_of (member 0 b)) \<and>
          scalar_of (member 1 a) = scalar_of (member 1 b) \<and> string_of (member 2 a) = string_of (member 2 b)
      | Webauthn_signature \<Rightarrow>
          array_eq 65 (scalar_of (member 0 a)) (scalar_of (member 0 b)) \<and>
          octets_of (member 1 a) = octets_of (member 1 b) \<and> string_of (member 2 a) = string_of (member 2 b))"

text \<open>\<^verbatim>\<open>std::tie\<close> compares the first pair of members of which one is less.\<close>

definition key_data_less :: "key_data \<Rightarrow> raw_value \<Rightarrow> raw_value \<Rightarrow> bool" where
  "key_data_less kind a b =
     (case kind of
        Shim n \<Rightarrow> array_less n (scalar_of a) (scalar_of b)
      | Webauthn_public_key \<Rightarrow>
          array_less 33 (scalar_of (member 0 a)) (scalar_of (member 0 b)) \<or>
          \<not> array_less 33 (scalar_of (member 0 b)) (scalar_of (member 0 a)) \<and>
          (scalar_of (member 1 a) < scalar_of (member 1 b) \<or>
           \<not> scalar_of (member 1 b) < scalar_of (member 1 a) \<and>
           bytes_less (string_of (member 2 a)) (string_of (member 2 b)))
      | Webauthn_signature \<Rightarrow>
          array_less 65 (scalar_of (member 0 a)) (scalar_of (member 0 b)) \<or>
          \<not> array_less 65 (scalar_of (member 0 b)) (scalar_of (member 0 a)) \<and>
          (bytes_less (octets_of (member 1 a)) (octets_of (member 1 b)) \<or>
           \<not> bytes_less (octets_of (member 1 b)) (octets_of (member 1 a)) \<and>
           bytes_less (string_of (member 2 a)) (string_of (member 2 b))))"

text \<open>\<^verbatim>\<open>std::visit\<close> of a variant that holds no alternative throws; such a variant is never made here.\<close>

definition key_eq :: "key_types \<Rightarrow> key_storage \<Rightarrow> key_storage \<Rightarrow> bool" where
  "key_eq types a b = (fst a = fst b \<and> fst a < length types \<and> key_data_eq (snd (types ! fst a)) (snd a) (snd b))"

definition key_less :: "key_types \<Rightarrow> key_storage \<Rightarrow> key_storage \<Rightarrow> bool" where
  "key_less types a b =
     (fst a < fst b \<or> fst a = fst b \<and> fst a < length types \<and> key_data_less (snd (types ! fst a)) (snd a) (snd b))"

text \<open>Both overloads of the hash add two words of the 65 bytes, read in the byte order of the machine.\<close>

definition signature_hash_value :: "key_storage \<Rightarrow> u64" where
  "signature_hash_value b =
     (let data = le_bytes 65 (scalar_of (case snd b of VScalar v \<Rightarrow> VScalar v | d \<Rightarrow> member 0 d))
      in of_nat (of_le_bytes (take 8 (drop (32 - 8) data))) + of_nat (of_le_bytes (take 8 (drop (64 - 8) data))))"

definition signature_variable_size :: "key_storage \<Rightarrow> nat" where
  "signature_variable_size b =
     (case snd b of VStruct _ \<Rightarrow> length (octets_of (member 1 (snd b))) + length (string_of (member 2 (snd b))) | _ \<Rightarrow> 0)"

subsection \<open>Variants\<close>

definition public_key_to_variant ::
  "'bn bignum_lib \<Rightarrow> (bytes \<Rightarrow> bytes) \<Rightarrow> (nat \<Rightarrow> yield_calls) \<Rightarrow> key_storage \<Rightarrow> variant result option" where
  "public_key_to_variant lib ripemd160 yield var =
     map_option (\<lambda>r. and_then r (\<lambda>s. Inr (String s))) (public_key_to_string lib ripemd160 yield var)"

definition public_key_from_variant :: "'bn bignum_lib \<Rightarrow> (bytes \<Rightarrow> bytes) \<Rightarrow> platform \<Rightarrow> variant \<Rightarrow> key_storage result" where
  "public_key_from_variant lib ripemd160 p var = and_then (as_string p var) (parse_base58 lib ripemd160)"

definition private_key_to_variant ::
  "'bn bignum_lib \<Rightarrow> (bytes \<Rightarrow> bytes) \<Rightarrow> (bytes \<Rightarrow> bytes) \<Rightarrow> (nat \<Rightarrow> yield_calls) \<Rightarrow> key_storage \<Rightarrow> variant result option" where
  "private_key_to_variant lib ripemd160 sha256 yield var =
     map_option (\<lambda>r. and_then r (\<lambda>s. Inr (String s))) (private_key_to_string lib ripemd160 sha256 yield var)"

definition private_key_from_variant ::
  "'bn bignum_lib \<Rightarrow> (bytes \<Rightarrow> bytes) \<Rightarrow> (bytes \<Rightarrow> bytes) \<Rightarrow> platform \<Rightarrow> variant \<Rightarrow> key_storage result" where
  "private_key_from_variant lib ripemd160 sha256 p var = and_then (as_string p var) (priv_parse_base58 lib ripemd160 sha256)"

definition signature_to_variant ::
  "'bn bignum_lib \<Rightarrow> (bytes \<Rightarrow> bytes) \<Rightarrow> (nat \<Rightarrow> yield_calls) \<Rightarrow> key_storage \<Rightarrow> variant result option" where
  "signature_to_variant lib ripemd160 yield var =
     map_option (\<lambda>r. and_then r (\<lambda>s. Inr (String s))) (signature_to_string lib ripemd160 yield var)"

definition signature_from_variant :: "'bn bignum_lib \<Rightarrow> (bytes \<Rightarrow> bytes) \<Rightarrow> platform \<Rightarrow> variant \<Rightarrow> key_storage result" where
  "signature_from_variant lib ripemd160 p var = and_then (as_string p var) (sig_parse_base58 lib ripemd160)"

end
