(* ===== verification/Keys_Correct.thy ===== *)
theory Keys_Correct
  imports Keys Raw_Typed
begin

text \<open>
  Properties of the texts of keys. The hash behind the checksum is a stream that is written, so the serializer's lemmas
  say what it has seen; the laws of base 58 and of the serializer then give the round trips.
\<close>

subsection \<open>Checksums\<close>

interpretation ripemd_out: out_stream ripemd160_write "\<lambda>_ n. n < 2 ^ 32"
  by unfold_locales (auto simp: ripemd160_write_def)

definition kind_ok :: "key_data \<Rightarrow> bool" where
  "kind_ok kind = (case kind of Shim n \<Rightarrow> n < 2 ^ 20 | _ \<Rightarrow> True)"

lemma wf_data_type: "kind_ok kind \<Longrightarrow> wf_type (data_type kind) \<and> no_signed_int (data_type kind)"
  by (cases kind) (simp_all add: kind_ok_def)

definition check_of :: "(bytes \<Rightarrow> bytes) \<Rightarrow> bytes \<Rightarrow> bytes option \<Rightarrow> u32" where
  "check_of ripemd160 bs prefix = of_nat (of_le_bytes (take 4 (ripemd160 (bs @ (case prefix of None \<Rightarrow> [] | Some p \<Rightarrow> p)))))"

lemma calculate_checksum_eq:
  assumes "wf_type (data_type kind)" and "enc_val (data_type kind) d = Inr bs" and "length bs < 2 ^ 32"
    and "\<And>p. prefix = Some p \<Longrightarrow> length p < 2 ^ 32"
  shows "calculate_checksum ripemd160 kind d prefix = Inr (check_of ripemd160 bs prefix)"
proof -
  have "pack_val ripemd160_write (data_type kind) d [] = ripemd160_write bs []"
    by (rule ripemd_out.writesD [OF ripemd_out.writes_val [OF assms(1)] assms(2,3)])
  then show ?thesis using assms(3,4)
    by (cases prefix) (simp_all add: calculate_checksum_def ripemd160_write_def check_of_def)
qed

definition sealed :: "(bytes \<Rightarrow> bytes) \<Rightarrow> bytes \<Rightarrow> bytes option \<Rightarrow> bytes" where
  "sealed ripemd160 bs prefix = bs @ le_bytes 4 (unat (check_of ripemd160 bs prefix))"

lemma pack_checksummed_eq:
  assumes "wf_type (data_type kind)" and "enc_val (data_type kind) d = Inr bs" and "length bs < 2 ^ 31"
  shows "pack_checksummed kind d check = Inr (bs @ le_bytes 4 (unat check))"
proof -
  have "enc_val (TStruct [data_type kind, TScalar 4]) (VStruct [d, VScalar (unat check)]) = Inr (bs @ le_bytes 4 (unat check))"
    using assms(2) unsigned_less [of check] by simp
  then show ?thesis
    using pack_enc [of "TStruct [data_type kind, TScalar 4]"] assms(1,3) by (simp add: pack_checksummed_def)
qed

lemma unpack_checksummed_eq:
  assumes "wf_type (data_type kind)" and "enc_val (data_type kind) d = Inr bs" and "post_init kind d = Inr ()"
    and "length bs < 2 ^ 31"
  shows "\<exists>s. unpack_checksummed kind (cs_new (bs @ le_bytes 4 (unat check))) = Inr ((d, check), s) \<and> cs_remaining s = 0"
proof -
  let ?b = "le_bytes 4 (unat check)"
  have ok: "cs_ok (cs_new (bs @ ?b))" using assms(4) by (intro cs_new_ok) simp
  obtain s where s: "unpack_val cs_read cs_get (data_type kind) (cs_new (bs @ ?b)) = Inr (d, s)" "cs_ok s" "cs_pending s = ?b @ []"
    using char_in.readsE [OF char_in.reads_val [OF assms(1)] assms(2) ok, of ?b] by auto
  have "(if unat check < 256 ^ 4 then Inr ?b else ill_typed) = Inr ?b" using unsigned_less [of check] by simp
  then obtain t where t: "unpack_scalar cs_read 4 s = Inr (unat check, t)" "cs_ok t" "cs_pending t = []"
    using char_in.readsE [OF char_in.reads_scalar _ s(2,3)] by metis
  have "cs_remaining t = 0" using t(2,3) by (simp add: cs_remaining_def cs_ok_def cs_pending_def)
  then show ?thesis using s t assms(3) by (simp add: unpack_checksummed_def unpack_key_data_def)
qed

subsection \<open>Texts\<close>

lemma find_char_at: "c \<notin> set xs \<Longrightarrow> find_char (xs @ c # ys) c = Some (length xs)"
proof -
  assume "c \<notin> set xs"
  then have "takeWhile (\<lambda>x. x \<noteq> c) (xs @ c # ys) = xs" by (subst takeWhile_append2) auto
  then show ?thesis by (simp add: find_char_def Let_def)
qed

lemma find_char_none: "c \<notin> set xs \<Longrightarrow> find_char xs c = None"
proof -
  assume "c \<notin> set xs"
  then have w: "takeWhile (\<lambda>x. x \<noteq> c) xs = xs" by (auto simp: takeWhile_eq_all_conv)
  show ?thesis by (simp only: find_char_def w Let_def less_irrefl if_False)
qed

lemma delimiter_text58: "delimiter \<notin> set (text58 d)"
proof -
  have "list_all (\<lambda>c. c \<noteq> delimiter) pszBase58" by code_simp
  then show ?thesis using text58_chars [of d] by (auto simp: list_all_iff)
qed

lemma text58_empty: "text58 d = [] \<Longrightarrow> d = []"
  using lead_bytes_digits [of 58 d] by (simp add: lead_bytes_def)

lemma sealed_not_empty: "text58 (sealed ripemd160 bs prefix) \<noteq> []"
  using text58_empty [of "sealed ripemd160 bs prefix"] by (auto simp: sealed_def le_bytes_numeral)

text \<open>
  A key that can be printed: an alternative of the class, of its type, and, if a web authentication key, with
  the name of its relying party.
\<close>

definition storage_ok :: "key_types \<Rightarrow> key_storage \<Rightarrow> bool" where
  "storage_ok types st =
     (fst st < length types \<and>
      (let kind = snd (types ! fst st)
       in post_init kind (snd st) = Inr () \<and>
          (case enc_val (data_type kind) (snd st) of Inl _ \<Rightarrow> False | Inr bs \<Rightarrow> length bs < 2 ^ 30)))"

definition types_ok :: "key_types \<Rightarrow> bool" where
  "types_ok types =
     (distinct (map fst types) \<and>
      list_all (\<lambda>(p, kind). delimiter \<notin> set p \<and> length p < 2 ^ 30 \<and> kind_ok kind) types)"

lemma types_okD:
  assumes "types_ok types" and "i < length types" and "types ! i = (p, kind)"
  shows "delimiter \<notin> set p" and "length p < 2 ^ 30" and "wf_type (data_type kind)"
  using assms wf_data_type [of kind] by (auto simp: types_ok_def list_all_length split: prod.splits)

lemma key_types_ok: "types_ok public_key_types" "types_ok private_key_types" "types_ok signature_types"
  by (simp_all add: types_ok_def public_key_types_def private_key_types_def signature_types_def ascii_def kind_ok_def)

lemma storage_okE:
  assumes "storage_ok types (i, d)"
  obtains p kind bs where "i < length types" "types ! i = (p, kind)" "post_init kind d = Inr ()"
    "enc_val (data_type kind) d = Inr bs" "length bs < 2 ^ 30"
  using assms by (cases "types ! i") (auto simp: storage_ok_def Let_def split: sum.splits)

context bignum
begin

lemma visitor_eq:
  assumes "types_ok types" and "i < length types" and "types ! i = (p, kind)"
    and "enc_val (data_type kind) d = Inr bs" and "length bs < 2 ^ 30" and "\<And>q k. yield q k = Inr ()"
  shows "base58str_visitor lib ripemd160 types default_position yield (i, d) =
    Some (Inr (if default_position = Some i then text58 (sealed ripemd160 bs None)
               else p @ delimiter # text58 (sealed ripemd160 bs (Some p))))"
proof -
  note t = types_okD [OF assms(1-3)]
  have c: "calculate_checksum ripemd160 kind d q = Inr (check_of ripemd160 bs q)" if "q = None \<or> q = Some p" for q
    using that t(2) assms(5) by (intro calculate_checksum_eq [OF t(3) assms(4)]) auto
  have k: "pack_checksummed kind d check = Inr (bs @ le_bytes 4 (unat check))" for check
    using assms(5) by (intro pack_checksummed_eq [OF t(3) assms(4)]) simp
  have b: "to_base58 lib (sealed ripemd160 bs q) (yield 1) = Some (Inr (text58 (sealed ripemd160 bs q)))" for q
    using assms(5,6) by (intro to_base58_eq) (simp_all add: sealed_def)
  show ?thesis using assms(2,3,6) b [of None] b [of "Some p"]
    by (simp add: base58str_visitor_def c k sealed_def)
qed

lemma parser_impl_eq:
  assumes "types_ok types" and "i < length types" and "types ! i = (p, kind)" and "post_init kind d = Inr ()"
    and "enc_val (data_type kind) d = Inr bs" and "length bs < 2 ^ 30"
  shows "base58_str_parser_impl lib ripemd160 pos types p (text58 (sealed ripemd160 bs (Some p))) = Inr (pos + i, d)"
  using assms(1-3)
proof (induction types arbitrary: i pos)
  case (Cons x types)
  obtain q knd where x: "x = (q, knd)" by (cases x)
  show ?case
  proof (cases i)
    case 0
    note t = types_okD [OF Cons.prems]
    have "from_base58 lib (text58 (sealed ripemd160 bs (Some p))) = Inr (sealed ripemd160 bs (Some p))"
      using assms(6) by (intro from_base58_text) (simp add: sealed_def)
    moreover obtain s where "unpack_checksummed kind (cs_new (sealed ripemd160 bs (Some p))) =
        Inr ((d, check_of ripemd160 bs (Some p)), s)" "cs_remaining s = 0"
      using unpack_checksummed_eq [OF t(3) assms(5,4)] assms(6) unfolding sealed_def by force
    moreover have "calculate_checksum ripemd160 kind d (Some p) = Inr (check_of ripemd160 bs (Some p))"
      using t(2) assms(6) by (intro calculate_checksum_eq [OF t(3) assms(5)]) simp_all
    ultimately show ?thesis using 0 Cons.prems x by simp
  next
    case (Suc j)
    have "types_ok types" using Cons.prems(1) by (simp add: types_ok_def)
    moreover have "p \<noteq> q" using Cons.prems x Suc nth_mem [of j types] by (force simp: types_ok_def image_iff)
    ultimately show ?thesis using Cons.IH [of j "pos + 1"] Cons.prems x Suc by simp
  qed
qed simp

lemma parse_prefixed_eq:
  assumes "types_ok types" and "i < length types" and "types ! i = (p, kind)" and "post_init kind d = Inr ()"
    and "enc_val (data_type kind) d = Inr bs" and "length bs < 2 ^ 30" and "delimiter \<notin> set base"
  shows "parse_prefixed lib ripemd160 base types (base @ delimiter # p @ delimiter # text58 (sealed ripemd160 bs (Some p))) = Inr (i, d)"
proof -
  note t = types_okD [OF assms(1-3)]
  show ?thesis
    unfolding parse_prefixed_def base58_str_parser_def find_char_at [OF assms(7)] option.case Let_def
    using parser_impl_eq [OF assms(1-6), of ripemd160 0] sealed_not_empty [of ripemd160 bs "Some p"]
    by (simp add: find_char_at [OF t(1)])
qed

lemma public_key_text:
  assumes "storage_ok public_key_types k" and "\<And>q n. yield q n = Inr ()"
  shows "\<exists>t. public_key_to_string lib ripemd160 yield k = Some (Inr t) \<and> parse_base58 lib ripemd160 t = Inr k"
proof -
  obtain i d where k: "k = (i, d)" by (cases k)
  obtain p kind bs where a: "i < length public_key_types" "public_key_types ! i = (p, kind)" "post_init kind d = Inr ()"
    "enc_val (data_type kind) d = Inr bs" "length bs < 2 ^ 30"
    using storage_okE assms(1) unfolding k by metis
  note v = visitor_eq [where yield = yield, OF key_types_ok(1) a(1,2,4,5) assms(2)]
  show ?thesis
  proof (cases "i = 0")
    case True
    let ?t = "text58 (sealed ripemd160 bs None)"
    have kind: "kind = Shim 33" using a(2) True by (simp add: public_key_types_def)
    have w: "wf_type (data_type kind)" by (simp add: kind)
    have "length bs = 33" using a(4) by (auto simp: kind split: raw_value.splits if_splits)
    moreover have "from_base58 lib ?t = Inr (sealed ripemd160 bs None)"
      using a(5) by (intro from_base58_text) (simp add: sealed_def)
    moreover obtain s where "unpack_checksummed kind (cs_new (sealed ripemd160 bs None)) = Inr ((d, check_of ripemd160 bs None), s)"
      using unpack_checksummed_eq [OF w a(4,3)] a(5) unfolding sealed_def by force
    moreover have "calculate_checksum ripemd160 kind d None = Inr (check_of ripemd160 bs None)"
      using a(5) by (intro calculate_checksum_eq [OF w a(4)]) simp_all
    moreover have "delimiter \<notin> set (public_key_legacy_prefix @ ?t)"
      using delimiter_text58 [of "sealed ripemd160 bs None"] by (simp add: public_key_legacy_prefix_def ascii_def)
    moreover have "prefix_matches public_key_legacy_prefix (public_key_legacy_prefix @ ?t)"
      using sealed_not_empty [of ripemd160 bs None] by (simp add: prefix_matches_def)
    ultimately have "parse_base58 lib ripemd160 (public_key_legacy_prefix @ ?t) = Inr (0, d)"
      by (simp add: parse_base58_def find_char_none kind [symmetric]) (simp add: sealed_def)
    then show ?thesis using v [of ripemd160 "Some 0"] True by (auto simp: public_key_to_string_def k)
  next
    case False
    let ?t = "public_key_base_prefix @ delimiter # p @ delimiter # text58 (sealed ripemd160 bs (Some p))"
    have b: "delimiter \<notin> set public_key_base_prefix" by (simp add: public_key_base_prefix_def ascii_def)
    have "parse_base58 lib ripemd160 ?t = Inr (i, d)"
      using parse_prefixed_eq [OF key_types_ok(1) a b] find_char_at [OF b] by (simp add: parse_base58_def)
    then show ?thesis using v [of ripemd160 "Some 0"] False by (auto simp: public_key_to_string_def k)
  qed
qed

lemma signature_text:
  assumes "storage_ok signature_types k" and "\<And>q n. yield q n = Inr ()"
  shows "\<exists>t. signature_to_string lib ripemd160 yield k = Some (Inr t) \<and> sig_parse_base58 lib ripemd160 t = Inr k"
proof -
  obtain i d where k: "k = (i, d)" by (cases k)
  obtain p kind bs where a: "i < length signature_types" "signature_types ! i = (p, kind)" "post_init kind d = Inr ()"
    "enc_val (data_type kind) d = Inr bs" "length bs < 2 ^ 30"
    using storage_okE assms(1) unfolding k by metis
  have b: "delimiter \<notin> set signature_base_prefix" by (simp add: signature_base_prefix_def ascii_def)
  show ?thesis
    using parse_prefixed_eq [OF key_types_ok(3) a b] assms(2)
      visitor_eq [where yield = yield, OF key_types_ok(3) a(1,2,4,5) assms(2), of ripemd160 None]
    by (auto simp: signature_to_string_def sig_parse_base58_def k)
qed

lemma wif_text:
  assumes "v < 256 ^ 32" and "\<And>x. length (sha256 x) = 32" and "\<And>q n. yield q n = Inr ()"
  shows "\<exists>t. to_wif lib sha256 yield (VScalar v) = Some (Inr t) \<and> delimiter \<notin> set t \<and> from_wif lib sha256 t = Inr (VScalar v)"
proof -
  obtain l where l: "le_bytes 32 v = l" by simp
  have ll: "length l = 32" "l \<noteq> []" and lv: "of_le_bytes l = v"
    using assms(1) by (auto simp: l [symmetric] of_le_bytes_le_bytes simp flip: length_greater_0_conv)
  obtain c where c: "take 4 (sha256 (sha256 (0x80 # l))) = c" by simp
  have lc: "length c = 4" using assms(2) by (simp add: c [symmetric])
  let ?w = "(0x80 # l) @ c"
  have b: "to_base58 lib ?w (yield 1) = Some (Inr (text58 ?w))"
    using ll lc assms(3) by (intro to_base58_eq) simp_all
  have f: "from_base58 lib (text58 ?w) = Inr ?w" using ll lc by (intro from_base58_text) simp
  have h: "and_then (to_variant_bytes l) (\<lambda>x. digest_from_variant 32 x (digest_zero 32)) = Inr l"
    using from_variant_hex [of l] ll by (simp add: to_variant_bytes_def digest_from_variant_def MAX_SIZE_OF_BYTE_ARRAYS_def digest_zero_def)
  have "from_wif lib sha256 (text58 ?w) =
      and_then (to_variant_bytes l) (\<lambda>v. and_then (digest_from_variant 32 v (digest_zero 32)) (\<lambda>h. Inr (VScalar (of_le_bytes h))))"
    unfolding from_wif_def f and_then_simps Let_def using ll lc c by simp
  also have "\<dots> = Inr (VScalar v)"
    using h lv by (cases "to_variant_bytes l") simp_all
  finally show ?thesis using b c delimiter_text58 [of ?w] unfolding to_wif_def raw_value.case Let_def l by blast
qed

lemma private_key_text:
  assumes "storage_ok private_key_types k" and "\<And>x. length (sha256 x) = 32" and "\<And>q n. yield q n = Inr ()"
  shows "\<exists>t. private_key_to_string lib ripemd160 sha256 yield k = Some (Inr t) \<and> priv_parse_base58 lib ripemd160 sha256 t = Inr k"
proof -
  obtain i d where k: "k = (i, d)" by (cases k)
  obtain p kind bs where a: "i < length private_key_types" "private_key_types ! i = (p, kind)" "post_init kind d = Inr ()"
    "enc_val (data_type kind) d = Inr bs" "length bs < 2 ^ 30"
    using storage_okE assms(1) unfolding k by metis
  show ?thesis
  proof (cases "i = 0")
    case True
    then have "kind = Shim 32" using a(2) by (simp add: private_key_types_def)
    then obtain v where "d = VScalar v" "v < 256 ^ 32"
      using a(4) by (auto split: raw_value.splits if_splits)
    then show ?thesis
      using wif_text [where yield = yield and ?sha256.0 = sha256, OF _ assms(2,3), of v] True
      by (auto simp: private_key_to_string_def priv_parse_base58_def find_char_none k)
  next
    case False
    have b: "delimiter \<notin> set private_key_base_prefix" by (simp add: private_key_base_prefix_def ascii_def)
    show ?thesis
      using parse_prefixed_eq [OF key_types_ok(2) a b] False find_char_at [OF b]
        visitor_eq [where yield = yield, OF key_types_ok(2) a(1,2,4,5) assms(3), of ripemd160 None]
      by (auto simp: private_key_to_string_def priv_parse_base58_def k)
  qed
qed

end

subsection \<open>Arbitrary texts\<close>

lemma length_varint_bytes: "length (varint_bytes n) \<le> n + 1"
proof (induction n rule: varint_bytes.induct)
  case (1 n)
  then show ?case by (subst varint_bytes.simps) auto
qed

lemma length_enc_list:
  "(\<And>v bs. enc v = Inr bs \<Longrightarrow> length bs = k) \<Longrightarrow> enc_list enc vs = Inr cs \<Longrightarrow> length cs = k * length vs"
proof (induction vs arbitrary: cs)
  case (Cons v vs)
  then show ?case by (fastforce elim!: and_then_InrE)
qed simp

lemma length_enc_blob: "enc_blob v = Inr bs \<Longrightarrow> length bs \<le> 2 * MAX_SIZE_OF_BYTE_ARRAYS + 1"
  using length_varint_bytes [of "length v"] by (auto simp: enc_blob_def fc_assert_def enc_sized_def split: if_splits)

lemma length_enc_octets: "enc_seq (enc_val (TScalar 1)) vs = Inr bs \<Longrightarrow> length bs \<le> 2 * MAX_NUM_ARRAY_ELEMENTS + 1"
proof -
  assume a: "enc_seq (enc_val (TScalar 1)) vs = Inr bs"
  then obtain cs where cs: "enc_list (enc_val (TScalar 1)) vs = Inr cs" "bs = varint_bytes (length vs) @ cs"
    and n: "length vs \<le> MAX_NUM_ARRAY_ELEMENTS"
    by (auto simp: enc_seq_def fc_assert_def enc_sized_def split: if_splits elim!: and_then_InrE)
  have "length cs = 1 * length vs"
    by (rule length_enc_list [OF _ cs(1)]) (auto split: raw_value.splits if_splits)
  then show ?thesis using cs(2) n length_varint_bytes [of "length vs"] by simp
qed

lemma length_enc_scalar: "enc_val (TScalar n) v = Inr bs \<Longrightarrow> length bs = n"
  by (auto split: raw_value.splits if_splits)

lemma enc_fields_3:
  assumes "enc_fields [t, u, w] vs = Inr bs"
  obtains a b c as bs' cs where "vs = [a, b, c]" "enc_val t a = Inr as" "enc_val u b = Inr bs'" "enc_val w c = Inr cs" "bs = as @ bs' @ cs"
  using assms by (auto split: list.splits elim!: and_then_InrE)

lemma enc_data_length:
  assumes "kind_ok kind" and "enc_val (data_type kind) d = Inr bs"
  shows "length bs < 2 ^ 30"
proof (cases kind)
  case (Shim n)
  then show ?thesis using assms length_enc_scalar [of n d bs] by (simp add: kind_ok_def)
next
  case Webauthn_public_key
  then obtain vs where "enc_fields [TScalar 33, TScalar 1, TString] vs = Inr bs"
    using assms(2) by (auto simp del: enc_fields.simps split: raw_value.splits)
  then obtain a b c as bs' cs where "enc_val (TScalar 33) a = Inr as" "enc_val (TScalar 1) b = Inr bs'"
    "enc_val TString c = Inr cs" and bs: "bs = as @ bs' @ cs" by (rule enc_fields_3)
  then show ?thesis using length_enc_scalar [of 33 a as] length_enc_scalar [of 1 b bs']
    by (auto simp: MAX_SIZE_OF_BYTE_ARRAYS_def dest!: length_enc_blob split: raw_value.splits)
next
  case Webauthn_signature
  then obtain vs where "enc_fields [TScalar 65, TVector (TScalar 1), TString] vs = Inr bs"
    using assms(2) by (auto simp del: enc_fields.simps split: raw_value.splits)
  then obtain a b c as bs' cs where e: "enc_val (TScalar 65) a = Inr as" "enc_val (TVector (TScalar 1)) b = Inr bs'"
    "enc_val TString c = Inr cs" and bs: "bs = as @ bs' @ cs" by (rule enc_fields_3)
  have "length bs' \<le> 2 * MAX_NUM_ARRAY_ELEMENTS + 1" using e(2) length_enc_octets
    by (auto simp del: enc_val.simps(1) split: raw_value.splits)
  moreover have "length cs \<le> 2 * MAX_SIZE_OF_BYTE_ARRAYS + 1" using e(3)
    by (auto dest!: length_enc_blob split: raw_value.splits)
  ultimately show ?thesis using bs length_enc_scalar [OF e(1)]
    by (simp add: MAX_SIZE_OF_BYTE_ARRAYS_def MAX_NUM_ARRAY_ELEMENTS_def)
qed

text \<open>What the parsers return is a key of the class; what they throw is an exception of the library.\<close>

definition parsed :: "key_types \<Rightarrow> key_storage result \<Rightarrow> bool" where
  "parsed types r = (case r of Inl e \<Rightarrow> (\<exists>c. e = Fc_exception c) | Inr k \<Rightarrow> storage_ok types k)"

lemma parsed_simps [simp]:
  "parsed types (Inl e) \<longleftrightarrow> (\<exists>c. e = Fc_exception c)"
  "parsed types (Inr k) = storage_ok types k"
  by (simp_all add: parsed_def)

lemma parsed_assert: "(b \<Longrightarrow> parsed types r) \<Longrightarrow> parsed types (fc_assert b r)"
  by (cases b) simp_all

lemma unpack_checksummed_cases:
  assumes "kind_ok kind" and "length bin < 2 ^ 63"
  obtains c where "unpack_checksummed kind (cs_new bin) = Inl (Fc_exception c)"
  | d check s bs where "unpack_checksummed kind (cs_new bin) = Inr ((d, check), s)" "post_init kind d = Inr ()"
      "enc_val (data_type kind) d = Inr bs" "length bs < 2 ^ 30"
proof -
  note w = wf_data_type [OF assms(1)]
  have t: "char_in.typed (unpack_key_data kind) (\<lambda>d. is_ok (enc_val (data_type kind) d) \<and> post_init kind d = Inr ())"
  proof (rule char_in.typedI)
    fix s v s'
    assume s: "cs_ok s" and r: "unpack_key_data kind s = Inr (v, s')"
    then have u: "unpack_val cs_read cs_get (data_type kind) s = Inr (v, s')" and p: "post_init kind v = Inr ()"
      by (auto simp: unpack_key_data_def elim!: and_then_InrE)
    show "cs_ok s' \<and> is_ok (enc_val (data_type kind) v) \<and> post_init kind v = Inr ()"
      using char_in.typedD [OF char_in.typed_val s u] w p by blast
  qed
  have tame_init: "char_in.tame (\<lambda>s. and_then (post_init kind x) (\<lambda>_. Inr (x, s)))" for x
    by (cases "post_init kind x") (auto simp: post_init_def fc_assert_def split: if_splits intro!: char_in.tame_return char_in.tame_throw)
  have k: "char_in.tame (unpack_key_data kind)"
    unfolding unpack_key_data_def [abs_def] using w by (intro char_in.tame_then char_in.tame_val tame_init) simp_all
  have m: "char_in.tame (unpack_checksummed kind)"
    unfolding unpack_checksummed_def [abs_def]
    by (intro char_in.tame_then k char_in.tame_map char_in.tame_scalar) simp
  show thesis
  proof (cases "unpack_checksummed kind (cs_new bin)")
    case (Inl e)
    then show thesis using char_in.tame_Inl [OF m cs_new_ok [OF assms(2)] Inl] that(1) by auto
  next
    case (Inr r)
    obtain d check s where r: "r = ((d, check), s)" by (metis surj_pair)
    then obtain u where "unpack_key_data kind (cs_new bin) = Inr (d, u)"
      using Inr by (auto simp: unpack_checksummed_def elim!: and_then_InrE)
    from char_in.typedD [OF t cs_new_ok [OF assms(2)] this] show thesis
      using that(2) Inr enc_data_length [OF assms(1)] unfolding r is_ok_iff by blast
  qed
qed

context bignum
begin

lemma parser_impl_parsed:
  assumes "list_all (\<lambda>(p, kind). length p < 2 ^ 30 \<and> kind_ok kind) types" and "length data_str < 2 ^ 31 - 1"
    and "\<And>i d. i < length types \<Longrightarrow> storage_ok types (i, d) \<Longrightarrow> storage_ok all (pos + i, d)"
  shows "parsed all (base58_str_parser_impl lib ripemd160 pos types prefix_str data_str)"
  using assms
proof (induction types arbitrary: pos)
  case (Cons x types)
  obtain p kind where x: "x = (p, kind)" by (cases x)
  have ok: "kind_ok kind" "length p < 2 ^ 30" using Cons.prems(1) x by simp_all
  have rest: "parsed all (base58_str_parser_impl lib ripemd160 (pos + 1) types prefix_str data_str)"
  proof (rule Cons.IH)
    fix i d
    assume "i < length types" "storage_ok types (i, d)"
    then show "storage_ok all (pos + 1 + i, d)" using Cons.prems(3) [of "Suc i" d] by (simp add: storage_ok_def)
  qed (use Cons.prems in simp_all)
  have here: "parsed all (and_then (unpack_checksummed kind (cs_new bin)) (\<lambda>((data, check), unpacker).
      fc_assert (cs_remaining unpacker = 0) (and_then (calculate_checksum ripemd160 kind data (Some p)) (\<lambda>checksum.
        fc_assert (checksum = check) (Inr (pos, data))))))" if b: "length bin < 2 ^ 31 - 1" for bin
  proof -
    have "length bin < 2 ^ 63" using b by simp
    then show ?thesis
    proof (rule unpack_checksummed_cases [OF ok(1)])
      fix d check s bs
      assume u: "unpack_checksummed kind (cs_new bin) = Inr ((d, check), s)" and d: "post_init kind d = Inr ()"
        "enc_val (data_type kind) d = Inr bs" "length bs < 2 ^ 30"
      have "storage_ok (x # types) (0, d)" using d by (simp add: storage_ok_def x)
      then have "storage_ok all (pos, d)" using Cons.prems(3) [of 0 d] by simp
      moreover have "calculate_checksum ripemd160 kind d (Some p) = Inr (check_of ripemd160 bs (Some p))"
        using wf_data_type [OF ok(1)] d ok(2) by (intro calculate_checksum_eq) simp_all
      ultimately show ?thesis by (simp add: u parsed_assert)
    qed simp
  qed
  have "parsed all (and_then (from_base58 lib data_str) (\<lambda>bin. and_then (unpack_checksummed kind (cs_new bin)) (\<lambda>((data, check), unpacker).
      fc_assert (cs_remaining unpacker = 0) (and_then (calculate_checksum ripemd160 kind data (Some p)) (\<lambda>checksum.
        fc_assert (checksum = check) (Inr (pos, data)))))))"
    by (rule from_base58_cases [OF Cons.prems(2)]) (use here in simp_all)
  then show ?case using rest by (cases "p = prefix_str") (simp_all add: x)
qed simp

lemma parse_prefixed_parsed:
  assumes "types_ok types" and "length str < 2 ^ 31 - 1"
  shows "parsed types (parse_prefixed lib ripemd160 base types str)"
proof -
  have "parsed types (base58_str_parser_impl lib ripemd160 0 types p s)" if "length s < 2 ^ 31 - 1" for p s
    by (rule parser_impl_parsed) (use assms(1) that in \<open>auto simp: types_ok_def list_all_iff\<close>)
  then have "parsed types (base58_str_parser lib ripemd160 types s)" if "length s < 2 ^ 31 - 1" for s
    using that by (auto simp: base58_str_parser_def Let_def split: option.splits intro!: parsed_assert)
  then show ?thesis
    using assms(2) by (auto simp: parse_prefixed_def Let_def split: option.splits intro!: parsed_assert)
qed

lemma parse_base58_parsed:
  assumes "length str < 2 ^ 31 - 1"
  shows "parsed public_key_types (parse_base58 lib ripemd160 str)"
proof -
  let ?sub = "drop (length public_key_legacy_prefix) str"
  have ok: "kind_ok (Shim 33)" by (simp add: kind_ok_def)
  have here: "parsed public_key_types (fc_assert (length bin = 33 + 4) (and_then (unpack_checksummed (Shim 33) (cs_new bin)) (\<lambda>((data, check), _).
      and_then (calculate_checksum ripemd160 (Shim 33) data None) (\<lambda>checksum. fc_assert (checksum = check) (Inr (0, data))))))" for bin
  proof (rule parsed_assert)
    assume "length bin = 33 + 4"
    then have "length bin < 2 ^ 63" by simp
    then show "parsed public_key_types (and_then (unpack_checksummed (Shim 33) (cs_new bin)) (\<lambda>((data, check), _).
      and_then (calculate_checksum ripemd160 (Shim 33) data None) (\<lambda>checksum. fc_assert (checksum = check) (Inr (0, data)))))"
    proof (rule unpack_checksummed_cases [OF ok])
      fix d check s bs
      assume u: "unpack_checksummed (Shim 33) (cs_new bin) = Inr ((d, check), s)" and d: "post_init (Shim 33) d = Inr ()"
        "enc_val (data_type (Shim 33)) d = Inr bs" "length bs < 2 ^ 30"
      have "storage_ok public_key_types (0, d)" using d by (simp add: storage_ok_def public_key_types_def del: data_type.simps)
      moreover have "calculate_checksum ripemd160 (Shim 33) d None = Inr (check_of ripemd160 bs None)"
        using wf_data_type [OF ok] d by (intro calculate_checksum_eq) simp_all
      ultimately show ?thesis by (simp add: u parsed_assert)
    qed simp
  qed
  have "length ?sub < 2 ^ 31 - 1" using assms by simp
  then have "parsed public_key_types (and_then (from_base58 lib ?sub) (\<lambda>bin. fc_assert (length bin = 33 + 4)
      (and_then (unpack_checksummed (Shim 33) (cs_new bin)) (\<lambda>((data, check), _).
        and_then (calculate_checksum ripemd160 (Shim 33) data None) (\<lambda>checksum. fc_assert (checksum = check) (Inr (0, data)))))))"
    by (rule from_base58_cases) (use here in simp_all)
  then show ?thesis using parse_prefixed_parsed [OF key_types_ok(1) assms] by (simp add: parse_base58_def Let_def)
qed

lemma priv_parse_base58_parsed:
  assumes "length str < 2 ^ 31 - 1"
  shows "parsed private_key_types (priv_parse_base58 lib ripemd160 sha256 str)"
proof -
  have digest: "parsed private_key_types (and_then (and_then (to_variant_bytes l) (\<lambda>v.
      and_then (digest_from_variant 32 v (digest_zero 32)) (\<lambda>h. Inr (VScalar (of_le_bytes h))))) (\<lambda>data. Inr (0, data)))" for l
  proof (cases "length l \<le> MAX_SIZE_OF_BYTE_ARRAYS")
    case True
    obtain h where "and_then (to_variant_bytes l) (\<lambda>v. digest_from_variant 32 v (digest_zero 32)) = Inr h" "length h = 32"
      using from_variant_hex [OF True] True by (simp add: to_variant_bytes_def digest_from_variant_def digest_zero_def Let_def)
    moreover have "of_le_bytes h < 256 ^ 32" if "length h = 32" for h using of_le_bytes_bound [of h] that by simp
    ultimately show ?thesis using True
      by (simp add: to_variant_bytes_def storage_ok_def private_key_types_def post_init_def)
  qed (simp add: to_variant_bytes_def)
  have "parsed private_key_types (and_then (from_wif lib sha256 str) (\<lambda>data. Inr (0, data)))"
  proof (rule from_base58_cases [OF assms])
    fix ds us ws
    assume "from_base58 lib str = Inr (lead_bytes 58 ds)"
    then show ?thesis using digest unfolding from_wif_def Let_def by (simp add: fc_assert_def)
  qed (simp add: from_wif_def)
  then show ?thesis using parse_prefixed_parsed [OF key_types_ok(2) assms] by (simp add: priv_parse_base58_def)
qed

end

subsection \<open>Properties\<close>

text \<open>
  C7. Keys survive their texts. With a library of big numbers that keeps its promises, a \<^verbatim>\<open>sha256\<close> with digests of 32 bytes, any
  function in place of \<^verbatim>\<open>ripemd160\<close> and a check that does not throw, every public key, private key and signature, of every
  curve and in its old and new format, prints to a text that parses to the same alternative with the same data.
\<close>

theorem key_texts_roundtrip:
  assumes "bignum lib val" and "\<And>q n. yield q n = Inr ()" and "\<And>x. length (sha256 x) = 32"
  shows "(storage_ok public_key_types k \<longrightarrow>
      (\<exists>t. public_key_to_string lib ripemd160 yield k = Some (Inr t) \<and> parse_base58 lib ripemd160 t = Inr k))
    \<and> (storage_ok private_key_types k \<longrightarrow>
      (\<exists>t. private_key_to_string lib ripemd160 sha256 yield k = Some (Inr t) \<and> priv_parse_base58 lib ripemd160 sha256 t = Inr k))
    \<and> (storage_ok signature_types k \<longrightarrow>
      (\<exists>t. signature_to_string lib ripemd160 yield k = Some (Inr t) \<and> sig_parse_base58 lib ripemd160 t = Inr k))"
  using bignum.public_key_text [where yield = yield, OF assms(1) _ assms(2)]
    bignum.private_key_text [where yield = yield and ?sha256.0 = sha256, OF assms(1) _ assms(3,2)]
    bignum.signature_text [where yield = yield, OF assms(1) _ assms(2)] by blast

theorem key_texts_roundtrip_witness:
  "let y = \<lambda>_ _. Inr (); rm = \<lambda>x. [of_nat (length x), 2, 3, 4]; sh = \<lambda>x. replicate 31 5 @ [of_nat (length x)]; k = (1, VScalar 7)
   in (\<exists>t. public_key_to_string int_lib rm y k = Some (Inr t) \<and> parse_base58 int_lib rm t = Inr k) \<and>
    (\<exists>t. private_key_to_string int_lib rm sh y k = Some (Inr t) \<and> priv_parse_base58 int_lib rm sh t = Inr k) \<and>
    (\<exists>t. signature_to_string int_lib rm y k = Some (Inr t) \<and> sig_parse_base58 int_lib rm t = Inr k)"
  using key_texts_roundtrip [OF int_bignum.bignum_axioms, of "\<lambda>_ _. Inr ()" "\<lambda>x. replicate 31 5 @ [of_nat (length x)]"
      "(1, VScalar 7)" "\<lambda>x. [of_nat (length x), 2, 3, 4]"]
  by (simp add: storage_ok_def public_key_types_def private_key_types_def signature_types_def post_init_def Let_def)



end
