(* ===== verification/Keys_Order.thy ===== *)
theory Keys_Order
  imports Keys_Correct "HOL-Library.List_Lexorder" "HOL-Library.Product_Lexorder"
begin

text \<open>
  The comparison operators of the key classes. Every alternative has a rank in the lexicographic order of the library, and
  the operators of the code compare ranks; so keys can be the keys of ordered containers.
\<close>

definition array_rank :: "nat \<Rightarrow> nat \<Rightarrow> nat" where
  "array_rank n v = be_value (le_bytes n v)"

definition key_rank :: "key_data \<Rightarrow> raw_value \<Rightarrow> nat \<times> bytes \<times> bytes" where
  "key_rank kind d =
     (case kind of
        Shim n \<Rightarrow> (array_rank n (scalar_of d), [], [])
      | Webauthn_public_key \<Rightarrow> (array_rank 33 (scalar_of (member 0 d)), [of_nat (scalar_of (member 1 d))], string_of (member 2 d))
      | Webauthn_signature \<Rightarrow> (array_rank 65 (scalar_of (member 0 d)), octets_of (member 1 d), string_of (member 2 d)))"

lemma array_less_rank: "array_less n a b \<longleftrightarrow> array_rank n a < array_rank n b"
  using memcmp_value [of "le_bytes n a" "le_bytes n b"] by (simp add: array_less_def array_rank_def)

lemma array_rank_inj: "a < 256 ^ n \<Longrightarrow> b < 256 ^ n \<Longrightarrow> array_rank n a = array_rank n b \<longleftrightarrow> a = b"
proof
  assume a: "a < 256 ^ n" "b < 256 ^ n" and "array_rank n a = array_rank n b"
  then have "le_bytes n a = le_bytes n b" using be_value_inj [of "le_bytes n a" "le_bytes n b"] by (simp add: array_rank_def)
  then have "a mod 256 ^ n = b mod 256 ^ n" by (metis of_le_bytes_le_bytes)
  with a show "a = b" by simp
qed simp

lemma array_eq_rank: "array_eq n a b \<longleftrightarrow> array_rank n a = array_rank n b"
  using memcmp_value [of "le_bytes n a" "le_bytes n b"] by (auto simp: array_eq_def array_rank_def)

lemma bytes_less_iff: "bytes_less as bs \<longleftrightarrow> as < bs"
  by (induction as bs rule: bytes_less.induct) (auto simp: not_less_iff_gr_or_eq)

lemma of_nat_byte_less: "a < 256 \<Longrightarrow> b < 256 \<Longrightarrow> (of_nat a :: byte) < of_nat b \<longleftrightarrow> a < b"
  by (simp add: word_less_nat_alt unat_of_nat)

lemma of_nat_byte_eq: "a < 256 \<Longrightarrow> b < 256 \<Longrightarrow> (of_nat a :: byte) = of_nat b \<longleftrightarrow> a = b"
  by (metis of_nat_byte_less nat_neq_iff order_less_irrefl)

text \<open>What a value of one of the types looks like.\<close>

fun key_value :: "key_data \<Rightarrow> raw_value \<Rightarrow> bool" where
  "key_value (Shim n) d = (\<exists>v < 256 ^ n. d = VScalar v)"
| "key_value Webauthn_public_key d = (\<exists>a < 256 ^ 33. \<exists>t < 256. \<exists>r. d = VStruct [VScalar a, VScalar t, VBytes r])"
| "key_value Webauthn_signature d =
     (\<exists>a < 256 ^ 65. \<exists>t r. d = VStruct [VScalar a, VList t, VBytes r] \<and> list_all (\<lambda>x. \<exists>n < 256. x = VScalar n) t)"

lemma enc_scalarD: "enc_val (TScalar n) d = Inr bs \<Longrightarrow> \<exists>v < 256 ^ n. d = VScalar v"
  by (auto split: raw_value.splits if_splits)

lemma enc_stringD: "enc_val TString d = Inr bs \<Longrightarrow> \<exists>r. d = VBytes r"
  by (auto split: raw_value.splits)

lemma enc_octetsD: "enc_val (TVector (TScalar 1)) d = Inr bs \<Longrightarrow> \<exists>t. d = VList t \<and> list_all (\<lambda>x. \<exists>n < 256. x = VScalar n) t"
proof -
  assume e: "enc_val (TVector (TScalar 1)) d = Inr bs"
  then obtain t where t: "d = VList t" "enc_seq (enc_val (TScalar 1)) t = Inr bs"
    by (auto simp del: enc_val.simps(1) split: raw_value.splits)
  then have "is_ok (enc_list (enc_val (TScalar 1)) t)"
    by (auto simp: enc_seq_def enc_sized_def fc_assert_def simp del: enc_val.simps split: if_splits elim!: and_then_InrE)
  then have "\<forall>x \<in> set t. is_ok (enc_val (TScalar 1) x)" by (simp only: is_ok_enc_list list_all_iff)
  then have "\<forall>x \<in> set t. \<exists>n < 256 ^ 1. x = VScalar n" unfolding is_ok_iff using enc_scalarD by blast
  with t show ?thesis by (simp add: list_all_iff)
qed

lemma enc_struct_3:
  assumes "enc_val (TStruct [t, u, w]) d = Inr bs"
  obtains a b c as bs' cs where "d = VStruct [a, b, c]" "enc_val t a = Inr as" "enc_val u b = Inr bs'" "enc_val w c = Inr cs"
  using assms by (auto simp del: enc_fields.simps split: raw_value.splits elim!: enc_fields_3)

lemma enc_key_value:
  assumes "enc_val (data_type kind) d = Inr bs"
  shows "key_value kind d"
proof (cases kind)
  case (Shim n)
  then show ?thesis using assms enc_scalarD [of n d bs] by simp
next
  case Webauthn_public_key
  then obtain a b c as bs' cs where d: "d = VStruct [a, b, c]" and "enc_val (TScalar 33) a = Inr as"
    "enc_val (TScalar 1) b = Inr bs'" "enc_val TString c = Inr cs"
    using assms unfolding Webauthn_public_key data_type.simps by (elim enc_struct_3)
  then show ?thesis using Webauthn_public_key enc_scalarD [of 33 a as] enc_scalarD [of 1 b bs'] enc_stringD [of c cs] by auto
next
  case Webauthn_signature
  then obtain a b c as bs' cs where d: "d = VStruct [a, b, c]" and "enc_val (TScalar 65) a = Inr as"
    "enc_val (TVector (TScalar 1)) b = Inr bs'" "enc_val TString c = Inr cs"
    using assms unfolding Webauthn_signature data_type.simps by (elim enc_struct_3)
  then show ?thesis using Webauthn_signature enc_scalarD [of 65 a as] enc_octetsD [of b bs'] enc_stringD [of c cs] by auto
qed

lemma octets_of_inj:
  "list_all (\<lambda>x. \<exists>n < 256. x = VScalar n) t \<Longrightarrow> list_all (\<lambda>x. \<exists>n < 256. x = VScalar n) u \<Longrightarrow>
   octets_of (VList t) = octets_of (VList u) \<longleftrightarrow> t = u"
proof (induction t arbitrary: u)
  case (Cons x t)
  then show ?case by (cases u) (auto simp: octets_of_def scalar_of_def of_nat_byte_eq)
qed (auto simp: octets_of_def)

lemma key_data_less_rank:
  "key_value kind a \<Longrightarrow> key_value kind b \<Longrightarrow> key_data_less kind a b \<longleftrightarrow> key_rank kind a < key_rank kind b"
  by (cases kind)
    (auto simp: key_data_less_def key_rank_def array_less_rank bytes_less_iff less_prod_def' of_nat_byte_less of_nat_byte_eq
      member_def scalar_of_def not_less_iff_gr_or_eq)

lemma key_rank_inj: "key_value kind a \<Longrightarrow> key_value kind b \<Longrightarrow> key_rank kind a = key_rank kind b \<longleftrightarrow> a = b"
  by (cases kind)
    (auto simp: key_rank_def array_rank_inj of_nat_byte_eq member_def scalar_of_def string_of_def octets_of_inj)

lemma key_data_eq_rank:
  "key_value kind a \<Longrightarrow> key_value kind b \<Longrightarrow> key_data_eq kind a b \<longleftrightarrow> key_rank kind a = key_rank kind b"
  by (cases kind)
    (auto simp: key_data_eq_def key_rank_def array_eq_rank of_nat_byte_eq member_def scalar_of_def)

definition storage_rank :: "key_types \<Rightarrow> key_storage \<Rightarrow> nat \<times> nat \<times> bytes \<times> bytes" where
  "storage_rank types a = (fst a, key_rank (snd (types ! fst a)) (snd a))"

lemma storage_key_value: "storage_ok types a \<Longrightarrow> fst a < length types \<and> key_value (snd (types ! fst a)) (snd a)"
  using enc_key_value by (auto simp: storage_ok_def Let_def split: sum.splits)

lemma storage_ranks:
  assumes "storage_ok types a" and "storage_ok types b"
  shows "key_less types a b \<longleftrightarrow> storage_rank types a < storage_rank types b"
    and "key_eq types a b \<longleftrightarrow> storage_rank types a = storage_rank types b"
    and "storage_rank types a = storage_rank types b \<longleftrightarrow> a = b"
  using storage_key_value [OF assms(1)] storage_key_value [OF assms(2)]
  by (cases a; cases b; auto simp: key_less_def key_eq_def storage_rank_def less_prod_simp key_data_less_rank key_data_eq_rank key_rank_inj)+

text \<open>
  The operators on keys. For keys of one class, \<^verbatim>\<open>==\<close> holds exactly of equal keys, and \<^verbatim>\<open><\<close>, which compares the
  alternatives, then arrays by \<^verbatim>\<open>memcmp\<close> and members in turn, is a strict total order: what the ordered containers ask of it.
\<close>

lemma key_operators_order:
  assumes "storage_ok types a" and "storage_ok types b" and "storage_ok types c"
  shows "(key_eq types a b \<longleftrightarrow> a = b) \<and> \<not> key_less types a a \<and>
    (key_less types a b \<longrightarrow> key_less types b c \<longrightarrow> key_less types a c) \<and>
    (key_less types a b \<or> a = b \<or> key_less types b a)"
  unfolding storage_ranks(2) [OF assms(1,2)] storage_ranks(1) [OF assms(1,2)] storage_ranks(1) [OF assms(2,1)]
    storage_ranks(1) [OF assms(1,1)] storage_ranks(1) [OF assms(2,3)] storage_ranks(1) [OF assms(1,3)]
    storage_ranks(3) [OF assms(1,2), symmetric]
  by auto

end
