(* ===== verification/Webauthn.thy ===== *)
theory Webauthn
  imports Keys
begin

text \<open>
  \<^verbatim>\<open>src/crypto/elliptic_webauthn.cpp\<close>: the public key that a web authentication assertion was signed with. The client's JSON is
  read by a state machine that is called back for every token; the tokenizer is rapidjson, an argument, and so are
  the hash and the recovery of the point, which is OpenSSL.
\<close>

subsection \<open>The handler\<close>

datatype parse_stat_t =
    EXPECT_FIRST_OBJECT_START
  | EXPECT_FIRST_OBJECT_KEY
  | EXPECT_FIRST_OBJECT_DONTCARE_VALUE
  | EXPECT_CHALLENGE_VALUE
  | EXPECT_ORIGIN_VALUE
  | EXPECT_TYPE_VALUE
  | IN_NESTED_CONTAINER

record webauthn_json_handler =
  found_challenge :: bytes
  found_origin :: bytes
  found_type :: bytes
  current_state :: parse_stat_t
  current_nested_container_depth :: u32

definition new_handler :: webauthn_json_handler where
  "new_handler = \<lparr>found_challenge = [], found_origin = [], found_type = [],
     current_state = EXPECT_FIRST_OBJECT_START, current_nested_container_depth = 0\<rparr>"

text \<open>The callbacks of the reader and what they get; the counts of members and elements are not used.\<close>

datatype sax_atom = Sax_Null | Sax_Bool bool | Sax_Int int | Sax_Uint nat | Sax_Int64 int | Sax_Uint64 nat | Sax_Double u64

datatype sax_event =
    Atom sax_atom
  | Sax_String bytes
  | Start_Object
  | Key bytes
  | End_Object nat
  | Start_Array
  | End_Array nat

type_synonym callback = "webauthn_json_handler \<Rightarrow> bool \<times> webauthn_json_handler"

definition basic_stuff :: callback where
  "basic_stuff h =
     (if current_state h = IN_NESTED_CONTAINER then (True, h)
      else if current_state h = EXPECT_FIRST_OBJECT_DONTCARE_VALUE
      then (True, h\<lparr>current_state := EXPECT_FIRST_OBJECT_KEY\<rparr>)
      else (False, h))"

definition on_String :: "bytes \<Rightarrow> callback" where
  "on_String str h =
     (case current_state h of
        EXPECT_FIRST_OBJECT_START \<Rightarrow> (False, h)
      | EXPECT_FIRST_OBJECT_KEY \<Rightarrow> (False, h)
      | EXPECT_CHALLENGE_VALUE \<Rightarrow> (True, h\<lparr>found_challenge := str, current_state := EXPECT_FIRST_OBJECT_KEY\<rparr>)
      | EXPECT_ORIGIN_VALUE \<Rightarrow> (True, h\<lparr>found_origin := str, current_state := EXPECT_FIRST_OBJECT_KEY\<rparr>)
      | EXPECT_TYPE_VALUE \<Rightarrow> (True, h\<lparr>found_type := str, current_state := EXPECT_FIRST_OBJECT_KEY\<rparr>)
      | EXPECT_FIRST_OBJECT_DONTCARE_VALUE \<Rightarrow> (True, h\<lparr>current_state := EXPECT_FIRST_OBJECT_KEY\<rparr>)
      | IN_NESTED_CONTAINER \<Rightarrow> (True, h))"

definition on_StartObject :: callback where
  "on_StartObject h =
     (case current_state h of
        EXPECT_FIRST_OBJECT_START \<Rightarrow> (True, h\<lparr>current_state := EXPECT_FIRST_OBJECT_KEY\<rparr>)
      | EXPECT_FIRST_OBJECT_DONTCARE_VALUE \<Rightarrow>
          (True, h\<lparr>current_state := IN_NESTED_CONTAINER,
                   current_nested_container_depth := current_nested_container_depth h + 1\<rparr>)
      | IN_NESTED_CONTAINER \<Rightarrow>
          (True, h\<lparr>current_nested_container_depth := current_nested_container_depth h + 1\<rparr>)
      | _ \<Rightarrow> (False, h))"

text \<open>\<^verbatim>\<open>"challenge"s == str\<close> sees the key up to its first zero.\<close>

definition on_Key :: "bytes \<Rightarrow> callback" where
  "on_Key str h =
     (case current_state h of
        EXPECT_FIRST_OBJECT_KEY \<Rightarrow>
          (if c_str str = ascii ''challenge'' then (True, h\<lparr>current_state := EXPECT_CHALLENGE_VALUE\<rparr>)
           else if c_str str = ascii ''origin'' then (True, h\<lparr>current_state := EXPECT_ORIGIN_VALUE\<rparr>)
           else if c_str str = ascii ''type'' then (True, h\<lparr>current_state := EXPECT_TYPE_VALUE\<rparr>)
           else (True, h\<lparr>current_state := EXPECT_FIRST_OBJECT_DONTCARE_VALUE\<rparr>))
      | IN_NESTED_CONTAINER \<Rightarrow> (True, h)
      | _ \<Rightarrow> (False, h))"

definition leave_container :: callback where
  "leave_container h =
     (let d = current_nested_container_depth h - 1; h = h\<lparr>current_nested_container_depth := d\<rparr>
      in (True, if d = 0 then h\<lparr>current_state := EXPECT_FIRST_OBJECT_KEY\<rparr> else h))"

definition on_EndObject :: callback where
  "on_EndObject h =
     (case current_state h of
        IN_NESTED_CONTAINER \<Rightarrow> leave_container h
      | EXPECT_FIRST_OBJECT_KEY \<Rightarrow> (True, h)
      | _ \<Rightarrow> (False, h))"

definition on_StartArray :: callback where
  "on_StartArray h =
     (case current_state h of
        EXPECT_FIRST_OBJECT_DONTCARE_VALUE \<Rightarrow>
          (True, h\<lparr>current_state := IN_NESTED_CONTAINER,
                   current_nested_container_depth := current_nested_container_depth h + 1\<rparr>)
      | IN_NESTED_CONTAINER \<Rightarrow>
          (True, h\<lparr>current_nested_container_depth := current_nested_container_depth h + 1\<rparr>)
      | _ \<Rightarrow> (False, h))"

definition on_EndArray :: callback where
  "on_EndArray h = (case current_state h of IN_NESTED_CONTAINER \<Rightarrow> leave_container h | _ \<Rightarrow> (False, h))"

fun on_event :: "sax_event \<Rightarrow> callback" where
  "on_event (Atom a) = basic_stuff"
| "on_event (Sax_String s) = on_String s"
| "on_event Start_Object = on_StartObject"
| "on_event (Key k) = on_Key k"
| "on_event (End_Object n) = on_EndObject"
| "on_event Start_Array = on_StartArray"
| "on_event (End_Array n) = on_EndArray"

text \<open>A callback that returns false ends the parse.\<close>

fun run_handler :: "sax_event list \<Rightarrow> webauthn_json_handler \<Rightarrow> webauthn_json_handler option" where
  "run_handler [] h = Some h"
| "run_handler (e # es) h = (let (ok, h) = on_event e h in if ok then run_handler es h else None)"

text \<open>
  The reader: the tokens it finds in a C string, up to the first error, and whether there was none.
\<close>

type_synonym sax_reader = "bytes \<Rightarrow> sax_event list \<times> bool"

definition parse_client_json :: "sax_reader \<Rightarrow> bytes \<Rightarrow> webauthn_json_handler option" where
  "parse_client_json reader client_json =
     (let (events, ok) = reader (c_str client_json)
      in case run_handler events new_handler of None \<Rightarrow> None | Some h \<Rightarrow> if ok then Some h else None)"

subsection \<open>The key of an assertion\<close>

datatype user_presence_t = USER_PRESENCE_NONE | USER_PRESENCE_PRESENT | USER_PRESENCE_VERIFIED

record webauthn_public_key =
  public_key_data :: bytes
  user_verification_type :: user_presence_t
  wa_rpid :: bytes

record webauthn_signature =
  compact_signature :: bytes
  auth_data :: bytes
  client_json :: bytes

definition rfind_char :: "bytes \<Rightarrow> byte \<Rightarrow> u64" where
  "rfind_char s c =
     (let n = length (takeWhile (\<lambda>x. x \<noteq> c) (rev s)) in if n < length s then of_nat (length s - 1 - n) else - 1)"

definition required_origin_scheme :: bytes where
  "required_origin_scheme = ascii ''https://''"

text \<open>The difference of two \<^verbatim>\<open>size_t\<close> wraps when the last colon is the one of the scheme.\<close>

definition origin_rpid :: "bytes \<Rightarrow> bytes" where
  "origin_rpid origin =
     (let https_len = length required_origin_scheme
      in take (unat (rfind_char origin 0x3a - of_nat https_len)) (drop https_len origin))"

definition presence_of :: "byte \<Rightarrow> user_presence_t" where
  "presence_of flags =
     (let t = USER_PRESENCE_NONE;
          t = (if flags AND 1 \<noteq> 0 then USER_PRESENCE_PRESENT else t)
      in if flags AND 4 \<noteq> 0 then USER_PRESENCE_VERIFIED else t)"

text \<open>The length of a write is a \<^verbatim>\<open>uint32_t\<close>.\<close>

definition sha256_write :: "bytes \<Rightarrow> bytes \<Rightarrow> bytes" where
  "sha256_write d e = e @ take (length d mod 2 ^ 32) d"

abbreviation Exception :: fc_error where
  "Exception \<equiv> Fc_exception unspecified_exception_code"

text \<open>
  \<open>recover_key r s digest recid\<close> is \<^verbatim>\<open>ECDSA_SIG_recover_key_GFp\<close> followed by \<^verbatim>\<open>EC_POINT_point2oct\<close>: the compressed
  point, if there is one.
\<close>

definition webauthn_recover ::
  "sax_reader \<Rightarrow> (bytes \<Rightarrow> bytes) \<Rightarrow> (bytes \<Rightarrow> bytes \<Rightarrow> bytes \<Rightarrow> nat \<Rightarrow> bytes option) \<Rightarrow>
   webauthn_signature \<Rightarrow> bytes \<Rightarrow> webauthn_public_key result" where
  "webauthn_recover reader sha256 recover_key c digest =
     (case parse_client_json reader (client_json c) of
        None \<Rightarrow> Inl Assert_failed
      | Some handler \<Rightarrow>
          fc_assert (found_type handler = ascii ''webauthn.get'')
            (and_then (base64url_decode (found_challenge handler)) (\<lambda>challenge_bytes.
               and_then (digest_from_data 32 challenge_bytes (of_nat (length challenge_bytes))) (\<lambda>challenge.
                 fc_assert (digest_eq challenge digest)
                   (fc_assert (take (length required_origin_scheme) (found_origin handler) = required_origin_scheme)
                     (let rpid = origin_rpid (found_origin handler)
                      in fc_assert (length (auth_data c) \<ge> 37)
                        (let presence = presence_of (auth_data c ! 32)
                         in fc_assert (memcmp (take 32 (auth_data c)) (sha256 (sha256_write rpid [])) = 0)
                           (let client_data_hash = sha256 (sha256_write (client_json c) []);
                                signed_digest = sha256 (sha256_write client_data_hash (sha256_write (auth_data c) []));
                                nV = unat (compact_signature c ! 0)
                            in if nV < 31 \<or> nV \<ge> 35 then Inl Exception
                               else case recover_key (take 32 (drop 1 (compact_signature c))) (take 32 (drop 33 (compact_signature c)))
                                           signed_digest (nV - 4 - 27) of
                                      None \<Rightarrow> Inl Exception
                                    | Some octets \<Rightarrow>
                                        if length octets = 33
                                        then Inr \<lparr>public_key_data = octets, user_verification_type = presence, wa_rpid = rpid\<rparr>
                                        else Inl Exception))))))))"

end
