(* ===== verification/Webauthn_Correct.thy ===== *)
theory Webauthn_Correct
  imports Webauthn
begin

text \<open>
  The handler against JSON itself. A reader of JSON calls back for the tokens of a value, so the tokens of a tree are the
  inputs that matter; the handler then computes a function of the members of the outermost object.
\<close>

subsection \<open>JSON values and their tokens\<close>

datatype json_tree =
    J_Atom sax_atom
  | J_String bytes
  | J_Array "json_tree list"
  | J_Object "(bytes \<times> json_tree) list"

fun tokens :: "json_tree \<Rightarrow> sax_event list" where
  "tokens (J_Atom a) = [Atom a]"
| "tokens (J_String s) = [Sax_String s]"
| "tokens (J_Array ts) = Start_Array # concat (map tokens ts) @ [End_Array (length ts)]"
| "tokens (J_Object ms) = Start_Object # concat (map (\<lambda>(k, t). Key k # tokens t) ms) @ [End_Object (length ms)]"

fun json_nesting :: "json_tree \<Rightarrow> nat" where
  "json_nesting (J_Array ts) = 1 + fold max (map json_nesting ts) 0"
| "json_nesting (J_Object ms) = 1 + fold max (map (\<lambda>(k, t). json_nesting t) ms) 0"
| "json_nesting _ = 0"

lemma fold_max_le: "fold max xs (a :: nat) \<le> n \<longleftrightarrow> a \<le> n \<and> (\<forall>x \<in> set xs. x \<le> n)"
  by (induction xs arbitrary: a) auto

lemma json_nesting_elem: "t \<in> set ts \<Longrightarrow> json_nesting t < json_nesting (J_Array ts)"
  using fold_max_le [of "map json_nesting ts" 0 "fold max (map json_nesting ts) 0"] by (auto simp: less_Suc_eq_le)

lemma json_nesting_member: "(k, t) \<in> set ms \<Longrightarrow> json_nesting t < json_nesting (J_Object ms)"
  using fold_max_le [of "map (\<lambda>(k, t). json_nesting t) ms" 0 "fold max (map (\<lambda>(k, t). json_nesting t) ms) 0"]
  by (auto simp: less_Suc_eq_le)

subsection \<open>What the handler computes\<close>

text \<open>The members it looks at, and the last of each.\<close>

definition wanted :: "bytes \<Rightarrow> bool" where
  "wanted k = (c_str k = ascii ''challenge'' \<or> c_str k = ascii ''origin'' \<or> c_str k = ascii ''type'')"

definition client_members :: "(bytes \<times> json_tree) list \<Rightarrow> bool" where
  "client_members ms = list_all (\<lambda>(k, t). wanted k \<longrightarrow> (case t of J_String _ \<Rightarrow> True | _ \<Rightarrow> False)) ms"

fun last_string :: "bytes \<Rightarrow> (bytes \<times> json_tree) list \<Rightarrow> bytes \<Rightarrow> bytes" where
  "last_string name [] s = s"
| "last_string name ((k, t) # ms) s =
     last_string name ms (if c_str k = name then (case t of J_String v \<Rightarrow> v | _ \<Rightarrow> s) else s)"

definition nested :: "webauthn_json_handler \<Rightarrow> nat \<Rightarrow> bool" where
  "nested h n = (current_state h = IN_NESTED_CONTAINER \<and> 0 < unat (current_nested_container_depth h) \<and>
     unat (current_nested_container_depth h) + n < 2 ^ 32)"

lemma nested_enter: "nested h (Suc n) \<Longrightarrow>
  nested (h\<lparr>current_nested_container_depth := current_nested_container_depth h + 1\<rparr>) n"
  by (simp add: nested_def unat_plus_if_size word_size)

lemma nested_leave: "nested h (Suc n) \<Longrightarrow>
  leave_container (h\<lparr>current_nested_container_depth := current_nested_container_depth h + 1\<rparr>) = (True, h)"
  by (auto simp: nested_def leave_container_def Let_def)

text \<open>Inside a container that nobody asked for, every value is skipped.\<close>

lemma skip_nested: "nested h (json_nesting t) \<Longrightarrow> run_handler (tokens t @ es) h = run_handler es h"
proof (induction t arbitrary: h es)
  case (J_Atom a)
  then show ?case by (simp add: nested_def basic_stuff_def)
next
  case (J_String s)
  then show ?case by (simp add: nested_def on_String_def)
next
  case (J_Array ts)
  obtain n where n: "json_nesting (J_Array ts) = Suc n" by simp
  let ?h = "h\<lparr>current_nested_container_depth := current_nested_container_depth h + 1\<rparr>"
  have en: "nested ?h n" using J_Array.prems n by (intro nested_enter) simp
  have el: "t \<in> set ts \<Longrightarrow> json_nesting t \<le> n" for t using json_nesting_elem [of t ts] n by simp
  have ih: "run_handler (tokens t @ es) ?h = run_handler es ?h" if "t \<in> set ts" for t es
    using J_Array.IH [OF that] en el [OF that] by (simp add: nested_def)
  then have "run_handler (concat (map tokens us) @ es) ?h = run_handler es ?h" if "set us \<subseteq> set ts" for us es
    using that by (induction us) auto
  moreover have "current_state h = IN_NESTED_CONTAINER" using J_Array.prems by (simp add: nested_def)
  ultimately show ?case using nested_leave [of h n] J_Array.prems n
    by (simp add: on_StartArray_def on_EndArray_def)
next
  case (J_Object ms)
  obtain n where n: "json_nesting (J_Object ms) = Suc n" by simp
  let ?h = "h\<lparr>current_nested_container_depth := current_nested_container_depth h + 1\<rparr>"
  have en: "nested ?h n" using J_Object.prems n by (intro nested_enter) simp
  have el: "(k, t) \<in> set ms \<Longrightarrow> json_nesting t \<le> n" for k t using json_nesting_member [of k t ms] n by simp
  have st: "current_state h = IN_NESTED_CONTAINER" using J_Object.prems by (simp add: nested_def)
  have ih: "run_handler (tokens t @ es) ?h = run_handler es ?h" if "(k, t) \<in> set ms" for k t es
    using J_Object.IH [OF that, of t] en el [OF that] by (simp add: nested_def)
  then have "run_handler (concat (map (\<lambda>(k, t). Key k # tokens t) us) @ es) ?h = run_handler es ?h" if "set us \<subseteq> set ms" for us es
    using that st by (induction us) (auto simp: on_Key_def)
  then show ?case using nested_leave [of h n] J_Object.prems n st
    by (simp add: on_StartObject_def on_EndObject_def)
qed

definition at_key :: "webauthn_json_handler \<Rightarrow> bool" where
  "at_key h = (current_state h = EXPECT_FIRST_OBJECT_KEY \<and> current_nested_container_depth h = 0)"

lemma skip_container:
  assumes "at_key h" and "json_nesting t < 2 ^ 32"
  shows "run_handler (tokens t @ es) (h\<lparr>current_state := EXPECT_FIRST_OBJECT_DONTCARE_VALUE\<rparr>) = run_handler es h"
proof -
  have h: "h\<lparr>current_state := EXPECT_FIRST_OBJECT_KEY\<rparr> = h" using assms(1) by (simp add: at_key_def)
  let ?h = "h\<lparr>current_state := IN_NESTED_CONTAINER, current_nested_container_depth := 1\<rparr>"
  have l: "leave_container ?h = (True, h)"
    using assms(1) by (simp add: leave_container_def at_key_def)
  show ?thesis
  proof (cases t)
    case (J_Atom a)
    then show ?thesis using h by (simp add: basic_stuff_def)
  next
    case (J_String s)
    then show ?thesis using h by (simp add: on_String_def)
  next
    case (J_Array ts)
    have "nested ?h (json_nesting u)" if "u \<in> set ts" for u
      using json_nesting_elem [OF that] assms(2) J_Array by (simp add: nested_def)
    then have "run_handler (concat (map tokens us) @ es) ?h = run_handler es ?h" if "set us \<subseteq> set ts" for us es
      using that by (induction us) (auto simp: skip_nested)
    then show ?thesis using l assms(1) J_Array by (simp add: on_StartArray_def on_EndArray_def at_key_def)
  next
    case (J_Object ms)
    have "nested ?h (json_nesting u)" if "(k, u) \<in> set ms" for k u
      using json_nesting_member [OF that] assms(2) J_Object by (simp add: nested_def)
    then have "run_handler (concat (map (\<lambda>(k, t). Key k # tokens t) us) @ es) ?h = run_handler es ?h" if "set us \<subseteq> set ms" for us es
      using that by (induction us) (auto simp: skip_nested on_Key_def)
    then show ?thesis using l assms(1) J_Object by (simp add: on_StartObject_def on_EndObject_def at_key_def)
  qed
qed

definition take_members :: "(bytes \<times> json_tree) list \<Rightarrow> webauthn_json_handler \<Rightarrow> webauthn_json_handler" where
  "take_members ms h =
     h\<lparr>found_challenge := last_string (ascii ''challenge'') ms (found_challenge h),
       found_origin := last_string (ascii ''origin'') ms (found_origin h),
       found_type := last_string (ascii ''type'') ms (found_type h)\<rparr>"

lemma names_differ:
  "ascii ''challenge'' \<noteq> ascii ''origin''" "ascii ''challenge'' \<noteq> ascii ''type''" "ascii ''origin'' \<noteq> ascii ''type''"
  by (simp_all add: ascii_def)

lemma take_members_Cons:
  "take_members ((k, t) # ms) h = take_members ms (take_members [(k, t)] h)"
  by (simp add: take_members_def)

lemma one_member:
  assumes "at_key h" and "json_nesting t < 2 ^ 32"
  shows "run_handler (Key k # tokens t @ es) h =
    (if client_members [(k, t)] then run_handler es (take_members [(k, t)] h) else None)"
proof (cases "wanted k")
  case False
  then have "run_handler (Key k # tokens t @ es) h = run_handler (tokens t @ es) (h\<lparr>current_state := EXPECT_FIRST_OBJECT_DONTCARE_VALUE\<rparr>)"
    using assms(1) by (simp add: on_Key_def at_key_def wanted_def)
  then show ?thesis using skip_container [OF assms] False by (simp add: client_members_def take_members_def wanted_def)
next
  case True
  then show ?thesis using assms(1) names_differ
    by (cases h; cases t) (auto simp: wanted_def client_members_def on_Key_def at_key_def basic_stuff_def on_String_def on_StartArray_def
        on_StartObject_def take_members_def)
qed

lemma at_key_take [simp]: "at_key (take_members ms h) = at_key h"
  by (simp add: at_key_def take_members_def)

lemma run_members:
  "at_key h \<Longrightarrow> (\<And>k t. (k, t) \<in> set ms \<Longrightarrow> json_nesting t < 2 ^ 32) \<Longrightarrow>
   run_handler (concat (map (\<lambda>(k, t). Key k # tokens t) ms) @ es) h =
     (if client_members ms then run_handler es (take_members ms h) else None)"
proof (induction ms arbitrary: h)
  case Nil
  then show ?case by (simp add: client_members_def take_members_def)
next
  case (Cons m ms)
  obtain k t where m: "m = (k, t)" by (cases m)
  have s: "client_members (m # ms) \<longleftrightarrow> client_members [m] \<and> client_members ms" by (simp add: client_members_def)
  have n: "json_nesting t < 2 ^ 32" using Cons.prems(2) [of k t] m by simp
  have ih: "run_handler (concat (map (\<lambda>(k, t). Key k # tokens t) ms) @ es) (take_members [m] h) =
      (if client_members ms then run_handler es (take_members ms (take_members [m] h)) else None)"
    by (rule Cons.IH) (use Cons.prems in auto)
  have "run_handler (concat (map (\<lambda>(k, t). Key k # tokens t) (m # ms)) @ es) h =
      run_handler (Key k # tokens t @ concat (map (\<lambda>(k, t). Key k # tokens t) ms) @ es) h" by (simp add: m)
  also have "\<dots> = (if client_members [m] then run_handler (concat (map (\<lambda>(k, t). Key k # tokens t) ms) @ es) (take_members [m] h) else None)"
    unfolding m by (rule one_member [OF Cons.prems(1) n])
  also have "\<dots> = (if client_members (m # ms) then run_handler es (take_members (m # ms) h) else None)"
    using ih s by (simp add: m take_members_Cons [of k t ms])
  finally show ?case .
qed

text \<open>The whole run, for any JSON value: only an object is accepted.\<close>

definition client_data :: "json_tree \<Rightarrow> webauthn_json_handler option" where
  "client_data t =
     (case t of
        J_Object ms \<Rightarrow>
          if client_members ms
          then Some (take_members ms (new_handler\<lparr>current_state := EXPECT_FIRST_OBJECT_KEY\<rparr>)) else None
      | _ \<Rightarrow> None)"

lemma run_tokens:
  assumes "json_nesting t \<le> 2 ^ 32"
  shows "run_handler (tokens t) new_handler = client_data t"
proof (cases t)
  case (J_Object ms)
  let ?h = "new_handler\<lparr>current_state := EXPECT_FIRST_OBJECT_KEY\<rparr>"
  have k: "at_key ?h" by (simp add: at_key_def new_handler_def)
  have "json_nesting u < 2 ^ 32" if "(k, u) \<in> set ms" for k u using json_nesting_member [OF that] assms J_Object by simp
  then have "run_handler (concat (map (\<lambda>(k, t). Key k # tokens t) ms) @ [End_Object (length ms)]) ?h =
      (if client_members ms then run_handler [End_Object (length ms)] (take_members ms ?h) else None)"
    by (rule run_members [OF k])
  moreover have "run_handler [End_Object (length ms)] (take_members ms ?h) = Some (take_members ms ?h)"
    using k by (simp add: on_EndObject_def at_key_def take_members_def)
  moreover have "on_StartObject new_handler = (True, ?h)" by (simp add: on_StartObject_def new_handler_def)
  ultimately show ?thesis using J_Object by (simp add: client_data_def)
qed (simp_all add: client_data_def new_handler_def basic_stuff_def on_String_def on_StartArray_def)

subsection \<open>The origin\<close>

text \<open>What stands between the scheme and the last colon, if there is one after the scheme.\<close>

definition host_of :: "bytes \<Rightarrow> bytes" where
  "host_of r = (if 0x3a \<in> set r then rev (tl (dropWhile (\<lambda>c. c \<noteq> 0x3a) (rev r))) else r)"

lemma length_before_last: "c \<in> set xs \<Longrightarrow> length (takeWhile (\<lambda>x. x \<noteq> c) (rev xs)) < length xs"
  using takeWhile_append1 [of c "rev xs" "\<lambda>x. x \<noteq> c" "[c]"] length_takeWhile_le [of "\<lambda>x. x \<noteq> c" "rev xs"]
  by (metis (mono_tags, lifting) le_neq_implies_less length_rev set_rev takeWhile_eq_all_conv takeWhile_eq_take take_all_iff nle_le)

lemma scheme_rfind: "rfind_char (required_origin_scheme @ r) 0x3a =
    (if 0x3a \<in> set r then of_nat (8 + length r - 1 - length (takeWhile (\<lambda>x. x \<noteq> 0x3a) (rev r))) else 5)"
proof (cases "0x3a \<in> set r")
  case True
  have w: "takeWhile (\<lambda>x. x \<noteq> 0x3a) (rev (required_origin_scheme @ r)) = takeWhile (\<lambda>x. x \<noteq> 0x3a) (rev r)"
    unfolding rev_append using True by (intro takeWhile_append1 [of "0x3a"]) simp_all
  have l: "length (required_origin_scheme @ r) = 8 + length r" by (simp add: required_origin_scheme_def ascii_def)
  show ?thesis unfolding rfind_char_def w l Let_def using True length_before_last [OF True] by simp
next
  case False
  have "takeWhile (\<lambda>x. x \<noteq> 0x3a) (rev (required_origin_scheme @ r)) = rev r @ [0x2f, 0x2f]"
    unfolding rev_append using False by (subst takeWhile_append2) (auto simp: required_origin_scheme_def ascii_def)
  then show ?thesis using False by (simp add: rfind_char_def required_origin_scheme_def ascii_def)
qed

lemma origin_rpid_eq:
  assumes "length r < 2 ^ 62"
  shows "origin_rpid (required_origin_scheme @ r) = host_of r"
proof -
  have d: "length required_origin_scheme = 8" by (simp add: required_origin_scheme_def ascii_def)
  show ?thesis
  proof (cases "0x3a \<in> set r")
    case True
    obtain n where n: "length (takeWhile (\<lambda>x. x \<noteq> 0x3a) (rev r)) = n" by simp
    have lt: "n < length r" using length_before_last [OF True] n by simp
    obtain m where m: "length r - 1 - n = m" by simp
    have "8 + length r - 1 - n = 8 + m" using lt m by simp
    then have "rfind_char (required_origin_scheme @ r) 0x3a = of_nat (8 + m)" using True n scheme_rfind [of r] by simp
    then have "rfind_char (required_origin_scheme @ r) 0x3a - of_nat (length required_origin_scheme) = of_nat m"
      unfolding d of_nat_add by simp
    moreover have "unat (of_nat m :: u64) = m" using assms m by (intro unat_of_nat_lt) simp
    ultimately have u: "unat (rfind_char (required_origin_scheme @ r) 0x3a - of_nat (length required_origin_scheme)) = m" by simp
    have "host_of r = rev (tl (drop n (rev r)))" using True n by (simp add: host_of_def dropWhile_eq_drop)
    also have "\<dots> = take m r" using m by (simp add: tl_drop rev_drop flip: drop_Suc)
    finally show ?thesis unfolding origin_rpid_def u Let_def by simp
  next
    case False
    have "unat ((5 :: u64) - of_nat 8) = 2 ^ 64 - 3" by simp
    then have "unat (rfind_char (required_origin_scheme @ r) 0x3a - of_nat (length required_origin_scheme)) = 2 ^ 64 - 3"
      using False scheme_rfind [of r] unfolding d by simp
    then show ?thesis using False assms unfolding origin_rpid_def Let_def by (simp add: host_of_def)
  qed
qed

subsection \<open>The challenge and the hash\<close>

lemma length_decode_quad: "decode_quad b arr = Inr r \<Longrightarrow> length r = 3"
  by (auto simp: decode_quad_def from_sextets_def elim!: and_then_InrE)

lemma length_decode_tail: "decode_tail b arr = Inr r \<Longrightarrow> length r \<le> length arr"
  by (auto simp: decode_tail_def split: if_splits elim!: and_then_InrE)

lemma length_decode_loop: "decode_loop b n arr cs = Inr r \<Longrightarrow> length arr < 4 \<Longrightarrow> length r \<le> length arr + length cs"
proof (induction b n arr cs arbitrary: r rule: decode_loop.induct)
  case (1 b n arr)
  then show ?case by (auto simp: length_decode_tail split: if_splits elim!: and_then_InrE)
next
  case (2 b n arr c cs)
  show ?case
  proof (cases "n = 0 \<or> n = - (2 ^ 31) \<or> c = 0x3d")
    case True
    then show ?thesis using 2(3) length_decode_tail [of b arr r] by (auto split: if_splits)
  next
    case False
    then obtain u where t: "throw_on_nonbase64 c b = Inr u" using 2(3) by (auto elim!: and_then_InrE)
    show ?thesis
    proof (cases "length (arr @ [c]) = 4")
      case True
      then obtain d e where "decode_quad b (arr @ [c]) = Inr d" "decode_loop b (n - 1) [] cs = Inr e" "r = d @ e"
        using 2(3) False t by (auto elim!: and_then_InrE)
      then show ?thesis using 2(1) [of u "arr @ [c]" d e] length_decode_quad [of b "arr @ [c]" d] False True t by simp
    next
      case neq: False
      then have "decode_loop b (n - 1) (arr @ [c]) cs = Inr r" using 2(3) False t by simp
      then show ?thesis using 2(2) [of u "arr @ [c]" r] False neq t 2(4) by simp
    qed
  qed
qed

lemma length_base64url: "base64url_decode s = Inr r \<Longrightarrow> length r \<le> length s"
  using length_decode_loop [of base64url_chars _ "[]" s r] by (simp add: base64url_decode_def base64_decode_impl_def)

lemma memcmp_0: "length a = length b \<Longrightarrow> memcmp a b = 0 \<longleftrightarrow> a = b"
  using memcmp_value [of a b] be_value_inj [of a b] by (auto split: if_splits)

lemma challenge_iff:
  assumes "length s < 2 ^ 32" and "length digest = 32"
  shows "(\<exists>b d. base64url_decode s = Inr b \<and> digest_from_data 32 b (of_nat (length b)) = Inr d \<and> digest_eq d digest) \<longleftrightarrow>
    base64url_decode s = Inr digest"
proof -
  have n: "unat (of_nat (length b) :: u64) = length b" if "base64url_decode s = Inr b" for b
    using length_base64url [OF that] assms(1) by (intro unat_of_nat_lt) simp
  show ?thesis
  proof
    assume "base64url_decode s = Inr digest"
    moreover from this have "digest_from_data 32 digest (of_nat (length digest)) = Inr digest"
      using n assms(2) by (simp add: digest_from_data_def)
    moreover have "digest_eq digest digest" by (simp add: digest_eq_def memcmp_0)
    ultimately show "\<exists>b d. base64url_decode s = Inr b \<and> digest_from_data 32 b (of_nat (length b)) = Inr d \<and> digest_eq d digest"
      by blast
  qed (use n assms(2) in \<open>auto simp: digest_from_data_def digest_eq_def memcmp_0 split: if_splits\<close>)
qed

subsection \<open>Assertions\<close>

text \<open>
  What a relying party checks of an assertion with the client data \<open>ms\<close>, and the key it then has.
\<close>

definition assertion_of ::
  "(bytes \<Rightarrow> bytes) \<Rightarrow> (bytes \<Rightarrow> bytes \<Rightarrow> bytes \<Rightarrow> nat \<Rightarrow> bytes option) \<Rightarrow> (bytes \<times> json_tree) list \<Rightarrow>
   webauthn_signature \<Rightarrow> bytes \<Rightarrow> webauthn_public_key \<Rightarrow> bool" where
  "assertion_of sha256 recover_key ms c digest key \<longleftrightarrow>
     last_string (ascii ''type'') ms [] = ascii ''webauthn.get'' \<and>
     base64url_decode (last_string (ascii ''challenge'') ms []) = Inr digest \<and>
     (\<exists>r. last_string (ascii ''origin'') ms [] = ascii ''https://'' @ r \<and> wa_rpid key = host_of r) \<and>
     37 \<le> length (auth_data c) \<and>
     take 32 (auth_data c) = sha256 (wa_rpid key) \<and>
     user_verification_type key = presence_of (auth_data c ! 32) \<and>
     unat (compact_signature c ! 0) \<in> {31..<35} \<and>
     recover_key (take 32 (drop 1 (compact_signature c))) (take 32 (drop 33 (compact_signature c)))
       (sha256 (auth_data c @ sha256 (client_json c))) (unat (compact_signature c ! 0) - 31) = Some (public_key_data key) \<and>
     length (public_key_data key) = 33"

definition strings_fit :: "json_tree \<Rightarrow> bool" where
  "strings_fit t = list_all (\<lambda>e. case e of Sax_String s \<Rightarrow> length s < 2 ^ 32 | _ \<Rightarrow> True) (tokens t)"

lemma last_string_fits:
  "list_all (\<lambda>e. case e of Sax_String s \<Rightarrow> length s < 2 ^ 32 | _ \<Rightarrow> True) (concat (map (\<lambda>(k, t). Key k # tokens t) ms)) \<Longrightarrow>
   length s < 2 ^ 32 \<Longrightarrow> length (last_string name ms s) < 2 ^ 32"
  by (induction ms arbitrary: s) (auto split: json_tree.splits)

lemma scheme_prefix:
  "take (length required_origin_scheme) s = required_origin_scheme \<longleftrightarrow> (\<exists>r. s = required_origin_scheme @ r)"
  by (metis append_eq_conv_conj append_take_drop_id)

lemma host_of_length: "length (host_of r) \<le> length r"
  using length_dropWhile_le [of "\<lambda>c. c \<noteq> 0x3a" "rev r"] by (auto simp: host_of_def)

lemma sha256_write_small: "length d < 2 ^ 32 \<Longrightarrow> sha256_write d e = e @ d"
  by (simp add: sha256_write_def)

lemma and_then_Inr_eq: "and_then r f = Inr x \<longleftrightarrow> (\<exists>y. r = Inr y \<and> f y = Inr x)"
  by (cases r) auto

lemma fc_assert_Inr_eq: "fc_assert b r = Inr x \<longleftrightarrow> b \<and> r = Inr x"
  by (cases b) auto

lemma recovered_iff:
  "(if nV < 31 \<or> nV \<ge> (35 :: nat) then Inl Exception
    else case rk of None \<Rightarrow> Inl Exception
      | Some octets \<Rightarrow> if length octets = 33 then Inr \<lparr>public_key_data = octets, user_verification_type = pr, wa_rpid = rp\<rparr> else Inl Exception) = Inr key
   \<longleftrightarrow> nV \<in> {31..<35} \<and> rk = Some (public_key_data key) \<and> length (public_key_data key) = 33 \<and>
     user_verification_type key = pr \<and> wa_rpid key = rp"
  by (cases key) (auto split: option.splits)

text \<open>
  C16. A key from an assertion. When the tokenizer finds the JSON value \<open>t\<close> in the client's text, the constructor
  returns the key \<open>key\<close> exactly if \<open>t\<close> is an object whose members of interest are strings, and its last \<^verbatim>\<open>type\<close>, \<^verbatim>\<open>challenge\<close> and
  \<^verbatim>\<open>origin\<close>, the authenticator's data and the signature pass every check of a relying party and lead to \<open>key\<close>:
  the challenge decodes to the digest, the origin is secure, the hash of its host stands in the signed data, and the point is
  recovered from the hash of what was signed. Values nested in other members never count.
\<close>

theorem webauthn_assertions:
  assumes "reader (c_str (client_json c)) = (tokens t, True)" and "json_nesting t \<le> 2 ^ 32" and "strings_fit t"
    and "\<And>x. length (sha256 x) = 32" and "length digest = 32"
    and "length (auth_data c) < 2 ^ 32" and "length (client_json c) < 2 ^ 32"
  shows "webauthn_recover reader sha256 recover_key c digest = Inr key \<longleftrightarrow>
    (\<exists>ms. t = J_Object ms \<and> client_members ms \<and> assertion_of sha256 recover_key ms c digest key)"
proof (cases "client_data t")
  case None
  then have "\<not> (\<exists>ms. t = J_Object ms \<and> client_members ms)" by (auto simp: client_data_def split: json_tree.splits)
  with None run_tokens [OF assms(2)] assms(1) show ?thesis by (auto simp: webauthn_recover_def parse_client_json_def)
next
  case (Some h)
  then obtain ms where t: "t = J_Object ms" "client_members ms" and h: "h = take_members ms (new_handler\<lparr>current_state := EXPECT_FIRST_OBJECT_KEY\<rparr>)"
    by (auto simp: client_data_def split: json_tree.splits if_splits)
  have p: "parse_client_json reader (client_json c) = Some h"
    using run_tokens [OF assms(2)] assms(1) Some by (simp add: parse_client_json_def)
  have f: "found_type h = last_string (ascii ''type'') ms []" "found_challenge h = last_string (ascii ''challenge'') ms []"
    "found_origin h = last_string (ascii ''origin'') ms []"
    by (simp_all add: h take_members_def new_handler_def)
  have l: "length (last_string name ms []) < 2 ^ 32" for name
    using assms(3) t by (intro last_string_fits) (simp_all add: strings_fit_def)
  have o: "length r < 2 ^ 32 \<and> origin_rpid (required_origin_scheme @ r) = host_of r"
    if "last_string (ascii ''origin'') ms [] = required_origin_scheme @ r" for r
    using l [of "ascii ''origin''"] that origin_rpid_eq [of r] by simp
  show ?thesis
  proof (cases "\<exists>r. last_string (ascii ''origin'') ms [] = required_origin_scheme @ r")
    case False
    then have "webauthn_recover reader sha256 recover_key c digest \<noteq> Inr key"
      unfolding webauthn_recover_def p option.case f and_then_Inr_eq fc_assert_Inr_eq Let_def scheme_prefix by blast
    moreover have "\<not> assertion_of sha256 recover_key ms c digest key"
      unfolding assertion_of_def required_origin_scheme_def [symmetric] using False by blast
    ultimately show ?thesis using t by simp
  next
    case True
    then obtain r where r: "last_string (ascii ''origin'') ms [] = required_origin_scheme @ r" by blast
    have rp: "origin_rpid (required_origin_scheme @ r) = host_of r" "sha256_write (host_of r) [] = host_of r"
      using o [OF r] host_of_length [of r] by (simp_all add: sha256_write_small)
    have m: "memcmp (take 32 (auth_data c)) (sha256 x) = 0 \<longleftrightarrow> take 32 (auth_data c) = sha256 x" if "37 \<le> length (auth_data c)" for x
      using that assms(4) by (intro memcmp_0) simp
    have w: "sha256_write (client_json c) [] = client_json c" "sha256_write (auth_data c) [] = auth_data c"
      "sha256_write (sha256 x) e = e @ sha256 x" for x e
      using assms(4,6,7) by (simp_all add: sha256_write_small)
    have sub: "nV - 4 - 27 = nV - (31 :: nat)" for nV by simp
    have c: "(\<exists>b. base64url_decode s = Inr b \<and> (\<exists>d. digest_from_data 32 b (of_nat (length b)) = Inr d \<and> digest_eq d digest \<and> X)) \<longleftrightarrow>
        base64url_decode s = Inr digest \<and> X" if "length s < 2 ^ 32" for s X
      using challenge_iff [OF that assms(5)] by blast
    have x: "(\<exists>q. required_origin_scheme @ r = required_origin_scheme @ q \<and> P q) \<longleftrightarrow> P r" for P by simp
    have e: "(\<exists>q. required_origin_scheme @ r = required_origin_scheme @ q) \<longleftrightarrow> True" by simp
    have "webauthn_recover reader sha256 recover_key c digest = Inr key \<longleftrightarrow> assertion_of sha256 recover_key ms c digest key"
      unfolding webauthn_recover_def p option.case f and_then_Inr_eq fc_assert_Inr_eq Let_def scheme_prefix c [OF l] r rp w recovered_iff sub e
      unfolding assertion_of_def r required_origin_scheme_def [symmetric] x
      using m by (cases "37 \<le> length (auth_data c)"; cases "wa_rpid key = host_of r") (simp_all only: simp_thms; blast)+
    then show ?thesis using t by simp
  qed
qed

theorem webauthn_assertions_witness:
  "let ms = [(ascii ''type'', J_String (ascii ''webauthn.get'')), (ascii ''x'', J_Array [J_Object [(ascii ''type'', J_Atom Sax_Null)]]),
        (ascii ''origin'', J_String (ascii ''https://a:1'')), (ascii ''challenge'', J_String (replicate 43 0x41))];
      c = \<lparr>compact_signature = 31 # replicate 64 0, auth_data = replicate 37 0, client_json = [1]\<rparr>;
      key = \<lparr>public_key_data = replicate 33 2, user_verification_type = USER_PRESENCE_NONE, wa_rpid = ascii ''a''\<rparr>
   in webauthn_recover (\<lambda>_. (tokens (J_Object ms), True)) (\<lambda>x. replicate 32 0) (\<lambda>r s d i. Some (replicate 33 2)) c (replicate 32 0) = Inr key"
proof -
  define ms where "ms = [(ascii ''type'', J_String (ascii ''webauthn.get'')), (ascii ''x'', J_Array [J_Object [(ascii ''type'', J_Atom Sax_Null)]]),
        (ascii ''origin'', J_String (ascii ''https://a:1'')), (ascii ''challenge'', J_String (replicate 43 0x41))]"
  define c where "c = \<lparr>compact_signature = 31 # replicate 64 0, auth_data = replicate 37 0, client_json = [1]\<rparr>"
  define key where "key = \<lparr>public_key_data = replicate 33 2, user_verification_type = USER_PRESENCE_NONE, wa_rpid = ascii ''a''\<rparr>"
  have b: "base64url_decode (replicate 43 0x41) = Inr (replicate 32 0)" by code_simp
  have m: "client_members ms" by (simp add: ms_def client_members_def wanted_def c_str_def ascii_def)
  have f: "strings_fit (J_Object ms)" "json_nesting (J_Object ms) \<le> 2 ^ 32" by (simp_all add: ms_def strings_fit_def ascii_def)
  have l: "last_string (ascii ''type'') ms [] = ascii ''webauthn.get''" "last_string (ascii ''challenge'') ms [] = replicate 43 0x41"
    "last_string (ascii ''origin'') ms [] = ascii ''https://'' @ ascii ''a:1''"
    by (simp_all add: ms_def ascii_def c_str_def)
  have "host_of (ascii ''a:1'') = ascii ''a''" by (simp add: host_of_def ascii_def)
  then have "assertion_of (\<lambda>x. replicate 32 0) (\<lambda>r s d i. Some (replicate 33 2)) ms c (replicate 32 0) key"
    unfolding assertion_of_def l using b by (auto simp: c_def key_def presence_of_def nth_Cons')
  then have "webauthn_recover (\<lambda>_. (tokens (J_Object ms), True)) (\<lambda>x. replicate 32 0) (\<lambda>r s d i. Some (replicate 33 2)) c (replicate 32 0) = Inr key"
    using m f by (subst webauthn_assertions) (auto simp: c_def)
  then show ?thesis unfolding ms_def c_def key_def Let_def .
qed

end
