(* ===== verification/City.thy ===== *)
theory City
  imports Uint128 Crc "HOL-Library.Monad_Syntax"
begin

text \<open>
  CityHash (\<^verbatim>\<open>src/crypto/city.cpp\<close>). The code reads its input through pointers that it moves and steps back from, at
  offsets that depend on the length; a fetch is therefore a partial function of the buffer \<open>m\<close> and a position, and
  \<open>None\<close> is a read outside of it.
\<close>

subsection \<open>Fetches\<close>

definition Fetch :: "nat \<Rightarrow> bytes \<Rightarrow> int \<Rightarrow> nat option" where
  "Fetch n m p = (if 0 \<le> p \<and> p + int n \<le> int (length m) then Some (of_le_bytes (take n (drop (nat p) m))) else None)"

definition Fetch64 :: "bytes \<Rightarrow> int \<Rightarrow> u64 option" where
  "Fetch64 m p = map_option of_nat (Fetch 8 m p)"

definition Fetch32 :: "bytes \<Rightarrow> int \<Rightarrow> u32 option" where
  "Fetch32 m p = map_option of_nat (Fetch 4 m p)"

definition Fetch8 :: "bytes \<Rightarrow> int \<Rightarrow> byte option" where
  "Fetch8 m p = map_option of_nat (Fetch 1 m p)"

subsection \<open>Constants and mixing\<close>

definition k0 :: u64 where "k0 = 0xc3a5c85c97cb3127"
definition k1 :: u64 where "k1 = 0xb492b66fbe98f273"
definition k2 :: u64 where "k2 = 0x9ae16a3b2f90404f"
definition c1 :: u32 where "c1 = 0xcc9e2d51"
definition c2 :: u32 where "c2 = 0x1b873593"

definition bswap_32 :: "u32 \<Rightarrow> u32" where
  "bswap_32 x = of_nat (of_le_bytes (rev (le_bytes 4 (unat x))))"

definition bswap_64 :: "u64 \<Rightarrow> u64" where
  "bswap_64 x = of_nat (of_le_bytes (rev (le_bytes 8 (unat x))))"

definition Hash128to64 :: "uint128 \<Rightarrow> u64" where
  "Hash128to64 x =
     (let kMul = 0x9ddfea08eb382d69;
          a = (lo x XOR hi x) * kMul; a = a XOR drop_bit 47 a;
          b = (hi x XOR a) * kMul; b = b XOR drop_bit 47 b
      in b * kMul)"

definition fmix :: "u32 \<Rightarrow> u32" where
  "fmix h =
     (let h = h XOR drop_bit 16 h; h = h * 0x85ebca6b; h = h XOR drop_bit 13 h; h = h * 0xc2b2ae35
      in h XOR drop_bit 16 h)"

definition Rotate32 :: "u32 \<Rightarrow> nat \<Rightarrow> u32" where
  "Rotate32 x shift = (if shift = 0 then x else drop_bit shift x OR push_bit (32 - shift) x)"

definition Rotate :: "u64 \<Rightarrow> nat \<Rightarrow> u64" where
  "Rotate x shift = (if shift = 0 then x else drop_bit shift x OR push_bit (64 - shift) x)"

definition PERMUTE3 :: "'a \<times> 'a \<times> 'a \<Rightarrow> 'a \<times> 'a \<times> 'a" where
  "PERMUTE3 t = (case t of (a, b, c) \<Rightarrow> (let (a, b) = (b, a); (a, c) = (c, a) in (a, b, c)))"

definition Mur :: "u32 \<Rightarrow> u32 \<Rightarrow> u32" where
  "Mur a h =
     (let a = a * c1; a = Rotate32 a 17; a = a * c2; h = h XOR a; h = Rotate32 h 19
      in h * 5 + 0xe6546b64)"

definition ShiftMix :: "u64 \<Rightarrow> u64" where
  "ShiftMix x = x XOR drop_bit 47 x"

text \<open>\<^verbatim>\<open>uint128(u, v)\<close> has \<^verbatim>\<open>u\<close> as its high half.\<close>

definition HashLen16 :: "u64 \<Rightarrow> u64 \<Rightarrow> u64" where
  "HashLen16 u v = Hash128to64 (u128 u v)"

definition HashLen16_mul :: "u64 \<Rightarrow> u64 \<Rightarrow> u64 \<Rightarrow> u64" where
  "HashLen16_mul u v mul =
     (let a = (u XOR v) * mul; a = a XOR drop_bit 47 a;
          b = (v XOR a) * mul; b = b XOR drop_bit 47 b
      in b * mul)"

subsection \<open>Thirty-two bits\<close>

definition Hash32Len13to24 :: "bytes \<Rightarrow> int \<Rightarrow> nat \<Rightarrow> u32 option" where
  "Hash32Len13to24 m s len =
     do {
       a \<leftarrow> Fetch32 m (s - 4 + int (len div 2));
       b \<leftarrow> Fetch32 m (s + 4);
       c \<leftarrow> Fetch32 m (s + int len - 8);
       d \<leftarrow> Fetch32 m (s + int (len div 2));
       e \<leftarrow> Fetch32 m s;
       f \<leftarrow> Fetch32 m (s + int len - 4);
       let h = of_nat len;
       Some (fmix (Mur f (Mur e (Mur d (Mur c (Mur b (Mur a h)))))))
     }"

text \<open>A \<^verbatim>\<open>signed char\<close> is extended with its sign.\<close>

fun hash32_bytes :: "bytes \<Rightarrow> int \<Rightarrow> nat \<Rightarrow> u32 \<Rightarrow> u32 \<Rightarrow> (u32 \<times> u32) option" where
  "hash32_bytes m p 0 b c = Some (b, c)"
| "hash32_bytes m p (Suc n) b c =
     do {
       v \<leftarrow> Fetch8 m p;
       let b = b * c1 + scast v;
       hash32_bytes m (p + 1) n b (c XOR b)
     }"

definition Hash32Len0to4 :: "bytes \<Rightarrow> int \<Rightarrow> nat \<Rightarrow> u32 option" where
  "Hash32Len0to4 m s len =
     do {
       (b, c) \<leftarrow> hash32_bytes m s len 0 9;
       Some (fmix (Mur b (Mur (of_nat len) c)))
     }"

definition Hash32Len5to12 :: "bytes \<Rightarrow> int \<Rightarrow> nat \<Rightarrow> u32 option" where
  "Hash32Len5to12 m s len =
     do {
       let a = of_nat len; let b = of_nat (len * 5); let c = 9; let d = b;
       x \<leftarrow> Fetch32 m s;
       let a = a + x;
       x \<leftarrow> Fetch32 m (s + int len - 4);
       let b = b + x;
       x \<leftarrow> Fetch32 m (s + int ((len div 2) AND 4));
       let c = c + x;
       Some (fmix (Mur c (Mur b (Mur a d))))
     }"

definition hash32_mix :: "u32 \<Rightarrow> u32 \<Rightarrow> nat \<Rightarrow> u32" where
  "hash32_mix h a r = Rotate32 (h XOR a) r * 5 + 0xe6546b64"

definition hash32_key :: "u32 \<Rightarrow> u32" where
  "hash32_key x = Rotate32 (x * c1) 17 * c2"

text \<open>The body of the loop; \<open>iters\<close> counts what is left of it.\<close>

definition hash32_step :: "bytes \<Rightarrow> int \<Rightarrow> u32 \<times> u32 \<times> u32 \<Rightarrow> (u32 \<times> u32 \<times> u32) option" where
  "hash32_step m s fhg =
     do {
       let (f, h, g) = fhg;
       x0 \<leftarrow> Fetch32 m s; let a0 = hash32_key x0;
       a1 \<leftarrow> Fetch32 m (s + 4);
       x2 \<leftarrow> Fetch32 m (s + 8); let a2 = hash32_key x2;
       x3 \<leftarrow> Fetch32 m (s + 12); let a3 = hash32_key x3;
       a4 \<leftarrow> Fetch32 m (s + 16);
       let h = hash32_mix h a0 18;
       let f = f + a1; let f = Rotate32 f 19; let f = f * c1;
       let g = g + a2; let g = Rotate32 g 18; let g = g * 5 + 0xe6546b64;
       let h = hash32_mix h (a3 + a1) 19;
       let g = g XOR a4; let g = bswap_32 g * 5;
       let h = h + a4 * 5; let h = bswap_32 h;
       let f = f + a0;
       Some (PERMUTE3 (f, h, g))
     }"

fun hash32_loop :: "bytes \<Rightarrow> int \<Rightarrow> nat \<Rightarrow> u32 \<times> u32 \<times> u32 \<Rightarrow> (u32 \<times> u32 \<times> u32) option" where
  "hash32_loop m s 0 fhg = Some fhg"
| "hash32_loop m s (Suc iters) fhg = do { fhg \<leftarrow> hash32_step m s fhg; hash32_loop m (s + 20) iters fhg }"

definition city_hash32 :: "bytes \<Rightarrow> u32 option" where
  "city_hash32 m =
     (let s = 0; len = length m
      in if len \<le> 24
         then (if len \<le> 12 then (if len \<le> 4 then Hash32Len0to4 m s len else Hash32Len5to12 m s len)
               else Hash32Len13to24 m s len)
         else do {
           let h = of_nat len; let g = c1 * of_nat len; let f = g;
           x \<leftarrow> Fetch32 m (s + int len - 4); let a0 = hash32_key x;
           x \<leftarrow> Fetch32 m (s + int len - 8); let a1 = hash32_key x;
           x \<leftarrow> Fetch32 m (s + int len - 16); let a2 = hash32_key x;
           x \<leftarrow> Fetch32 m (s + int len - 12); let a3 = hash32_key x;
           x \<leftarrow> Fetch32 m (s + int len - 20); let a4 = hash32_key x;
           let h = hash32_mix h a0 19; let h = hash32_mix h a2 19;
           let g = hash32_mix g a1 19; let g = hash32_mix g a3 19;
           let f = f + a4; let f = Rotate32 f 19; let f = f * 5 + 0xe6546b64;
           (f, h, g) \<leftarrow> hash32_loop m s ((len - 1) div 20) (f, h, g);
           let g = Rotate32 g 11 * c1; let g = Rotate32 g 17 * c1;
           let f = Rotate32 f 11 * c1; let f = Rotate32 f 17 * c1;
           let h = Rotate32 (h + g) 19; let h = h * 5 + 0xe6546b64; let h = Rotate32 h 17 * c1;
           let h = Rotate32 (h + f) 19; let h = h * 5 + 0xe6546b64;
           Some (Rotate32 h 17 * c1)
         })"

subsection \<open>Sixty-four bits\<close>

definition HashLen0to16 :: "bytes \<Rightarrow> int \<Rightarrow> nat \<Rightarrow> u64 option" where
  "HashLen0to16 m s len =
     (if len \<ge> 8 then do {
        let mul = k2 + of_nat len * 2;
        x \<leftarrow> Fetch64 m s; let a = x + k2;
        b \<leftarrow> Fetch64 m (s + int len - 8);
        let c = Rotate b 37 * mul + a;
        let d = (Rotate a 25 + b) * mul;
        Some (HashLen16_mul c d mul)
      }
      else if len \<ge> 4 then do {
        let mul = k2 + of_nat len * 2;
        x \<leftarrow> Fetch32 m s; let a = (ucast x :: u64);
        y \<leftarrow> Fetch32 m (s + int len - 4);
        Some (HashLen16_mul (of_nat len + push_bit 3 a) (ucast y) mul)
      }
      else if len > 0 then do {
        a \<leftarrow> Fetch8 m s;
        b \<leftarrow> Fetch8 m (s + int (len div 2));
        c \<leftarrow> Fetch8 m (s + int len - 1);
        let y = (ucast a :: u32) + push_bit 8 (ucast b);
        let z = (of_nat len :: u32) + push_bit 2 (ucast c);
        Some (ShiftMix (ucast y * k2 XOR ucast z * k0) * k2)
      }
      else Some k2)"

definition HashLen17to32 :: "bytes \<Rightarrow> int \<Rightarrow> nat \<Rightarrow> u64 option" where
  "HashLen17to32 m s len =
     do {
       let mul = k2 + of_nat len * 2;
       x \<leftarrow> Fetch64 m s; let a = x * k1;
       b \<leftarrow> Fetch64 m (s + 8);
       x \<leftarrow> Fetch64 m (s + int len - 8); let c = x * mul;
       x \<leftarrow> Fetch64 m (s + int len - 16); let d = x * k2;
       Some (HashLen16_mul (Rotate (a + b) 43 + Rotate c 30 + d) (a + Rotate (b + k2) 18 + c) mul)
     }"

definition WeakHash :: "u64 \<Rightarrow> u64 \<Rightarrow> u64 \<Rightarrow> u64 \<Rightarrow> u64 \<Rightarrow> u64 \<Rightarrow> u64 \<times> u64" where
  "WeakHash w x y z a b =
     (let a = a + w; b = Rotate (b + a + z) 21; c = a; a = a + x; a = a + y; b = b + Rotate a 44
      in (a + z, b + c))"

definition WeakHashLen32WithSeeds :: "bytes \<Rightarrow> int \<Rightarrow> u64 \<Rightarrow> u64 \<Rightarrow> (u64 \<times> u64) option" where
  "WeakHashLen32WithSeeds m s a b =
     do {
       w \<leftarrow> Fetch64 m s;
       x \<leftarrow> Fetch64 m (s + 8);
       y \<leftarrow> Fetch64 m (s + 16);
       z \<leftarrow> Fetch64 m (s + 24);
       Some (WeakHash w x y z a b)
     }"

definition HashLen33to64 :: "bytes \<Rightarrow> int \<Rightarrow> nat \<Rightarrow> u64 option" where
  "HashLen33to64 m s len =
     do {
       let mul = k2 + of_nat len * 2;
       x \<leftarrow> Fetch64 m s; let a = x * k2;
       b \<leftarrow> Fetch64 m (s + 8);
       c \<leftarrow> Fetch64 m (s + int len - 24);
       d \<leftarrow> Fetch64 m (s + int len - 32);
       x \<leftarrow> Fetch64 m (s + 16); let e = x * k2;
       x \<leftarrow> Fetch64 m (s + 24); let f = x * 9;
       g \<leftarrow> Fetch64 m (s + int len - 8);
       x \<leftarrow> Fetch64 m (s + int len - 16); let h = x * mul;
       let u = Rotate (a + g) 43 + (Rotate b 30 + c) * 9;
       let v = ((a + g) XOR d) + f + 1;
       let w = bswap_64 ((u + v) * mul) + h;
       let x = Rotate (e + f) 42 + c;
       let y = (bswap_64 ((v + w) * mul) + g) * mul;
       let z = e + f + c;
       let a = bswap_64 ((x + z) * mul + y) + b;
       let b = ShiftMix ((z + a) * mul + d + h) * mul;
       Some (b + x)
     }"

text \<open>The 56 bytes of state of the long loops.\<close>

record city_state =
  cv :: "u64 \<times> u64"
  cw :: "u64 \<times> u64"
  cx :: u64
  cy :: u64
  cz :: u64

definition city_step :: "bytes \<Rightarrow> int \<Rightarrow> city_state \<Rightarrow> city_state option" where
  "city_step m s st =
     do {
       let v = cv st; let w = cw st; let x = cx st; let y = cy st; let z = cz st;
       t \<leftarrow> Fetch64 m (s + 8); let x = Rotate (x + y + fst v + t) 37 * k1;
       t \<leftarrow> Fetch64 m (s + 48); let y = Rotate (y + snd v + t) 42 * k1;
       let x = x XOR snd w;
       t \<leftarrow> Fetch64 m (s + 40); let y = y + (fst v + t);
       let z = Rotate (z + fst w) 33 * k1;
       v \<leftarrow> WeakHashLen32WithSeeds m s (snd v * k1) (x + fst w);
       t \<leftarrow> Fetch64 m (s + 16);
       w \<leftarrow> WeakHashLen32WithSeeds m (s + 32) (z + snd w) (y + t);
       let (z, x) = (x, z);
       Some \<lparr>cv = v, cw = w, cx = x, cy = y, cz = z\<rparr>
     }"

text \<open>The length left is a multiple of 64; the argument counts the multiples.\<close>

fun city_loop :: "bytes \<Rightarrow> int \<Rightarrow> nat \<Rightarrow> city_state \<Rightarrow> city_state option" where
  "city_loop m s 0 st = Some st"
| "city_loop m s (Suc n) st = do { st \<leftarrow> city_step m s st; city_loop m (s + 64) n st }"

definition city_hash64 :: "bytes \<Rightarrow> u64 option" where
  "city_hash64 m =
     (let s = 0; len = length m
      in if len \<le> 32
         then (if len \<le> 16 then HashLen0to16 m s len else HashLen17to32 m s len)
         else if len \<le> 64 then HashLen33to64 m s len
         else do {
           x \<leftarrow> Fetch64 m (s + int len - 40);
           t \<leftarrow> Fetch64 m (s + int len - 16); t' \<leftarrow> Fetch64 m (s + int len - 56); let y = t + t';
           t \<leftarrow> Fetch64 m (s + int len - 48); t' \<leftarrow> Fetch64 m (s + int len - 24);
           let z = HashLen16 (t + of_nat len) t';
           v \<leftarrow> WeakHashLen32WithSeeds m (s + int len - 64) (of_nat len) z;
           w \<leftarrow> WeakHashLen32WithSeeds m (s + int len - 32) (y + k1) x;
           t \<leftarrow> Fetch64 m s; let x = x * k1 + t;
           st \<leftarrow> city_loop m s ((len - 1) div 64) \<lparr>cv = v, cw = w, cx = x, cy = y, cz = z\<rparr>;
           Some (HashLen16 (HashLen16 (fst (cv st)) (fst (cw st)) + ShiftMix (cy st) * k1 + cz st)
                   (HashLen16 (snd (cv st)) (snd (cw st)) + cx st))
         })"

definition CityHash64WithSeeds :: "bytes \<Rightarrow> u64 \<Rightarrow> u64 \<Rightarrow> u64 option" where
  "CityHash64WithSeeds m seed0 seed1 = do { h \<leftarrow> city_hash64 m; Some (HashLen16 (h - seed0) seed1) }"

definition CityHash64WithSeed :: "bytes \<Rightarrow> u64 \<Rightarrow> u64 option" where
  "CityHash64WithSeed m seed = CityHash64WithSeeds m k2 seed"

end
