(* ===== verification/City_Long.thy ===== *)
theory City_Long
  imports City
begin

text \<open>
  The 128- and 256-bit hashes of \<^verbatim>\<open>src/crypto/city.cpp\<close>. Their tails step back over bytes already hashed, also in front of
  the pointer the function was given.
\<close>

subsection \<open>CityMurmur\<close>

text \<open>The loop runs as long as the \<^verbatim>\<open>signed long\<close> \<open>l\<close> is positive.\<close>

definition murmur_step :: "bytes \<Rightarrow> int \<Rightarrow> u64 \<times> u64 \<times> u64 \<times> u64 \<Rightarrow> (u64 \<times> u64 \<times> u64 \<times> u64) option" where
  "murmur_step m s st =
     do {
       let (a, b, c, d) = st;
       t \<leftarrow> Fetch64 m s; let a = a XOR ShiftMix (t * k1) * k1; let a = a * k1;
       let b = b XOR a;
       t \<leftarrow> Fetch64 m (s + 8); let c = c XOR ShiftMix (t * k1) * k1; let c = c * k1;
       let d = d XOR c;
       Some (a, b, c, d)
     }"

function murmur_loop :: "bytes \<Rightarrow> int \<Rightarrow> int \<Rightarrow> u64 \<times> u64 \<times> u64 \<times> u64 \<Rightarrow> (u64 \<times> u64 \<times> u64 \<times> u64) option" where
  "murmur_loop m s l st =
     do {
       st \<leftarrow> murmur_step m s st;
       if l - 16 > 0 then murmur_loop m (s + 16) (l - 16) st else Some st
     }"
  by pat_completeness auto
termination
  by (relation "measure (\<lambda>(m, s, l, st). nat l)") auto

definition CityMurmur :: "bytes \<Rightarrow> int \<Rightarrow> nat \<Rightarrow> uint128 \<Rightarrow> uint128 option" where
  "CityMurmur m s len seed =
     do {
       let a = lo seed; let b = hi seed;
       let l = int len - 16;
       (a, b, c, d) \<leftarrow>
         (if l \<le> 0 then do {
            let a = ShiftMix (a * k1) * k1;
            t \<leftarrow> HashLen0to16 m s len; let c = b * k1 + t;
            t \<leftarrow> (if len \<ge> 8 then Fetch64 m s else Some c); let d = ShiftMix (a + t);
            Some (a, b, c, d)
          }
          else do {
            t \<leftarrow> Fetch64 m (s + int len - 8); let c = HashLen16 (t + k1) a;
            t \<leftarrow> Fetch64 m (s + int len - 16); let d = HashLen16 (b + of_nat len) (c + t);
            let a = a + d;
            murmur_loop m s l (a, b, c, d)
          });
       let a = HashLen16 a c;
       let b = HashLen16 d b;
       Some (u128 (a XOR b) (HashLen16 b a))
     }"

subsection \<open>CityHash128\<close>

function city128_loop :: "bytes \<Rightarrow> int \<Rightarrow> nat \<Rightarrow> city_state \<Rightarrow> (int \<times> nat \<times> city_state) option" where
  "city128_loop m s len st =
     do {
       st \<leftarrow> city_step m s st;
       let s = s + 64;
       st \<leftarrow> city_step m s st;
       let s = s + 64;
       let len = len - 128;
       if len \<ge> 128 then city128_loop m s len st else Some (s, len, st)
     }"
  by pat_completeness auto
termination
  by (relation "measure (\<lambda>(m, s, len, st). len)") auto

text \<open>Up to four pieces of 32 bytes, from the end backwards.\<close>

function city128_tail :: "bytes \<Rightarrow> int \<Rightarrow> nat \<Rightarrow> nat \<Rightarrow> city_state \<Rightarrow> city_state option" where
  "city128_tail m s len tail_done st =
     (if tail_done < len then do {
        let tail_done = tail_done + 32;
        let v = cv st; let w = cw st; let x = cx st; let y = cy st; let z = cz st;
        let y = Rotate (x + y) 42 * k0 + snd v;
        t \<leftarrow> Fetch64 m (s + int len - int tail_done + 16); let w = (fst w + t, snd w);
        let x = x * k0 + fst w;
        t \<leftarrow> Fetch64 m (s + int len - int tail_done); let z = z + (snd w + t);
        let w = (fst w, snd w + fst v);
        v \<leftarrow> WeakHashLen32WithSeeds m (s + int len - int tail_done) (fst v + z) (snd v);
        let v = (fst v * k0, snd v);
        city128_tail m s len tail_done \<lparr>cv = v, cw = w, cx = x, cy = y, cz = z\<rparr>
      }
      else Some st)"
  by pat_completeness auto
termination
  by (relation "measure (\<lambda>(m, s, len, tail_done, st). len - tail_done)") auto

definition CityHash128WithSeed :: "bytes \<Rightarrow> int \<Rightarrow> nat \<Rightarrow> uint128 \<Rightarrow> uint128 option" where
  "CityHash128WithSeed m s len seed =
     (if len < 128 then CityMurmur m s len seed
      else do {
        let x = lo seed; let y = hi seed; let z = of_nat len * k1;
        t \<leftarrow> Fetch64 m s; let v1 = Rotate (y XOR k1) 49 * k1 + t;
        t \<leftarrow> Fetch64 m (s + 8); let v2 = Rotate v1 42 * k1 + t;
        let w1 = Rotate (y + z) 35 * k1 + x;
        t \<leftarrow> Fetch64 m (s + 88); let w2 = Rotate (x + t) 53 * k1;
        (s, len, st) \<leftarrow> city128_loop m s len \<lparr>cv = (v1, v2), cw = (w1, w2), cx = x, cy = y, cz = z\<rparr>;
        let v = cv st; let w = cw st; let x = cx st; let y = cy st; let z = cz st;
        let x = x + Rotate (fst v + z) 49 * k0;
        let y = y * k0 + Rotate (snd w) 37;
        let z = z * k0 + Rotate (fst w) 27;
        let w = (fst w * 9, snd w);
        let v = (fst v * k0, snd v);
        st \<leftarrow> city128_tail m s len 0 \<lparr>cv = v, cw = w, cx = x, cy = y, cz = z\<rparr>;
        let v = cv st; let w = cw st; let x = cx st; let y = cy st; let z = cz st;
        let x = HashLen16 x (fst v);
        let y = HashLen16 (y + z) (fst w);
        Some (u128 (HashLen16 (x + snd v) (snd w) + y) (HashLen16 (x + snd w) (y + snd v)))
      })"

definition city_hash128 :: "bytes \<Rightarrow> uint128 option" where
  "city_hash128 m =
     (let s = 0; len = length m
      in if len \<ge> 16
         then do {
           a \<leftarrow> Fetch64 m s; b \<leftarrow> Fetch64 m (s + 8);
           CityHash128WithSeed m (s + 16) (len - 16) (u128 a (b + k0))
         }
         else CityHash128WithSeed m s len (u128 k0 k1))"

subsection \<open>CityHashCrc256\<close>

text \<open>\<open>crc\<close> is \<^verbatim>\<open>_mm_crc32_u64\<close>: the instruction, or the function of \<^verbatim>\<open>crc.cpp\<close>.\<close>

record crc_vars =
  va :: u64
  vb :: u64
  vc :: u64
  vd :: u64
  ve :: u64
  vf :: u64
  vg :: u64
  vh :: u64
  vx :: u64
  vy :: u64
  vz :: u64

definition CHUNK :: "(u64 \<Rightarrow> u64 \<Rightarrow> u64) \<Rightarrow> bytes \<Rightarrow> nat \<Rightarrow> int \<times> crc_vars \<Rightarrow> (int \<times> crc_vars) option" where
  "CHUNK crc m r sq =
     do {
       let (s, q) = sq;
       let a = va q; let b = vb q; let c = vc q; let d = vd q; let e = ve q; let f = vf q; let g = vg q; let h = vh q;
       let (x, z, y) = PERMUTE3 (vx q, vz q, vy q);
       t \<leftarrow> Fetch64 m s; let b = b + t;
       t \<leftarrow> Fetch64 m (s + 8); let c = c + t;
       t \<leftarrow> Fetch64 m (s + 16); let d = d + t;
       t \<leftarrow> Fetch64 m (s + 24); let e = e + t;
       t \<leftarrow> Fetch64 m (s + 32); let f = f + t;
       let a = a + b;
       let h = h + f;
       let b = b + c;
       let f = f + d;
       let g = g + e;
       let e = e + z;
       let g = g + x;
       let z = crc z (b + g);
       let y = crc y (e + h);
       let x = crc x (f + a);
       let e = Rotate e r;
       let c = c + e;
       Some (s + 40, \<lparr>va = a, vb = b, vc = c, vd = d, ve = e, vf = f, vg = g, vh = h, vx = x, vy = y, vz = z\<rparr>)
     }"

definition permute_ahc :: "crc_vars \<Rightarrow> crc_vars" where
  "permute_ahc q = (let (a, h, c) = PERMUTE3 (va q, vh q, vc q) in q\<lparr>va := a, vh := h, vc := c\<rparr>)"

definition permute_ahf :: "crc_vars \<Rightarrow> crc_vars" where
  "permute_ahf q = (let (a, h, f) = PERMUTE3 (va q, vh q, vf q) in q\<lparr>va := a, vh := h, vf := f\<rparr>)"

definition permute_bhf :: "crc_vars \<Rightarrow> crc_vars" where
  "permute_bhf q = (let (b, h, f) = PERMUTE3 (vb q, vh q, vf q) in q\<lparr>vb := b, vh := h, vf := f\<rparr>)"

definition permute_bhd :: "crc_vars \<Rightarrow> crc_vars" where
  "permute_bhd q = (let (b, h, d) = PERMUTE3 (vb q, vh q, vd q) in q\<lparr>vb := b, vh := h, vd := d\<rparr>)"

definition permute_bhe :: "crc_vars \<Rightarrow> crc_vars" where
  "permute_bhe q = (let (b, h, e) = PERMUTE3 (vb q, vh q, ve q) in q\<lparr>vb := b, vh := h, ve := e\<rparr>)"

definition permute_ahe :: "crc_vars \<Rightarrow> crc_vars" where
  "permute_ahe q = (let (a, h, e) = PERMUTE3 (va q, vh q, ve q) in q\<lparr>va := a, vh := h, ve := e\<rparr>)"

definition permute_chg :: "crc_vars \<Rightarrow> crc_vars" where
  "permute_chg q = (let (c, h, g) = PERMUTE3 (vc q, vh q, vg q) in q\<lparr>vc := c, vh := h, vg := g\<rparr>)"

text \<open>240 bytes in each iteration.\<close>

fun crc_long_loop :: "(u64 \<Rightarrow> u64 \<Rightarrow> u64) \<Rightarrow> bytes \<Rightarrow> nat \<Rightarrow> int \<times> crc_vars \<Rightarrow> (int \<times> crc_vars) option" where
  "crc_long_loop crc m 0 sq = Some sq"
| "crc_long_loop crc m (Suc iters) sq =
     do {
       (s, q) \<leftarrow> CHUNK crc m 0 sq;
       (s, q) \<leftarrow> CHUNK crc m 33 (s, permute_ahc q);
       (s, q) \<leftarrow> CHUNK crc m 0 (s, permute_ahf q);
       (s, q) \<leftarrow> CHUNK crc m 42 (s, permute_bhf q);
       (s, q) \<leftarrow> CHUNK crc m 0 (s, permute_bhd q);
       (s, q) \<leftarrow> CHUNK crc m 33 (s, permute_bhe q);
       crc_long_loop crc m iters (s, permute_ahe q)
     }"

function crc_forty_loop :: "(u64 \<Rightarrow> u64 \<Rightarrow> u64) \<Rightarrow> bytes \<Rightarrow> nat \<Rightarrow> int \<times> crc_vars \<Rightarrow> (nat \<times> int \<times> crc_vars) option" where
  "crc_forty_loop crc m len sq =
     (if len \<ge> 40 then do {
        (s, q) \<leftarrow> CHUNK crc m 29 sq;
        let q = q\<lparr>ve := ve q XOR Rotate (va q) 20\<rparr>;
        let q = q\<lparr>vh := vh q + Rotate (vb q) 30\<rparr>;
        let q = q\<lparr>vg := vg q XOR Rotate (vc q) 40\<rparr>;
        let q = q\<lparr>vf := vf q + Rotate (vd q) 34\<rparr>;
        crc_forty_loop crc m (len - 40) (s, permute_chg q)
      }
      else Some (len, sq))"
  by pat_completeness auto
termination
  by (relation "measure (\<lambda>(crc, m, len, sq). len)") auto

definition crc_last :: "(u64 \<Rightarrow> u64 \<Rightarrow> u64) \<Rightarrow> bytes \<Rightarrow> nat \<Rightarrow> int \<times> crc_vars \<Rightarrow> crc_vars option" where
  "crc_last crc m len sq =
     (if len > 0 then do {
        let (s, q) = sq;
        (s, q) \<leftarrow> CHUNK crc m 33 (s + int len - 40, q);
        let q = q\<lparr>ve := ve q XOR Rotate (va q) 43\<rparr>;
        let q = q\<lparr>vh := vh q + Rotate (vb q) 42\<rparr>;
        let q = q\<lparr>vg := vg q XOR Rotate (vc q) 41\<rparr>;
        Some (q\<lparr>vf := vf q + Rotate (vd q) 40\<rparr>)
      }
      else Some (snd sq))"

text \<open>What the end of the function makes of the variables and of the first two words of the result.\<close>

definition crc_finish :: "crc_vars \<Rightarrow> u64 \<Rightarrow> u64 \<Rightarrow> u64 list" where
  "crc_finish q r0 r1 =
     (let a = va q; b = vb q; c = vc q; d = vd q; e = ve q; f = vf q; g = vg q; h = vh q; x = vx q; y = vy q; z = vz q;
          r0 = r0 XOR h; r1 = r1 XOR g;
          g = g + h;
          a = HashLen16 a (g + z);
          x = x + push_bit 32 y;
          b = b + x;
          c = HashLen16 c z + h;
          d = HashLen16 d (e + r0);
          g = g + e;
          h = h + HashLen16 x f;
          e = HashLen16 a d + g;
          z = HashLen16 b c + a;
          y = HashLen16 g h + c;
          r0 = e + z + y + x;
          a = ShiftMix ((a + y) * k0) * k0 + b;
          r1 = r1 + (a + r0);
          a = ShiftMix (a * k0) * k0 + c;
          r2 = a + r1;
          a = ShiftMix ((a + e) * k0) * k0;
          r3 = a + r2
      in [r0, r1, r2, r3])"

definition CityHashCrc256Long :: "(u64 \<Rightarrow> u64 \<Rightarrow> u64) \<Rightarrow> bytes \<Rightarrow> u32 \<Rightarrow> u64 list option" where
  "CityHashCrc256Long crc m seed =
     do {
       let s = 0; let len = length m;
       t \<leftarrow> Fetch64 m (s + 56); let a = t + k0;
       t \<leftarrow> Fetch64 m (s + 96); let b = t + k0;
       let c = HashLen16 b (of_nat len); let r0 = c;
       t \<leftarrow> Fetch64 m (s + 120); let d = t * k0 + of_nat len; let r1 = d;
       t \<leftarrow> Fetch64 m (s + 184); let e = t + ucast seed;
       let q = \<lparr>va = a, vb = b, vc = c, vd = d, ve = e, vf = 0, vg = 0, vh = c + d, vx = ucast seed, vy = 0, vz = 0\<rparr>;
       sq \<leftarrow> crc_long_loop crc m (len div 240) (s, q);
       (len, sq) \<leftarrow> crc_forty_loop crc m (len - len div 240 * 240) sq;
       q \<leftarrow> crc_last crc m len sq;
       Some (crc_finish q r0 r1)
     }"

definition CityHashCrc256Short :: "(u64 \<Rightarrow> u64 \<Rightarrow> u64) \<Rightarrow> bytes \<Rightarrow> u64 list option" where
  "CityHashCrc256Short crc m =
     (let buf = m @ replicate (240 - length m) 0
      in CityHashCrc256Long crc buf (NOT (of_nat (length m))))"

definition CityHashCrc256 :: "(u64 \<Rightarrow> u64 \<Rightarrow> u64) \<Rightarrow> bytes \<Rightarrow> u64 list option" where
  "CityHashCrc256 crc m =
     (if length m \<ge> 240 then CityHashCrc256Long crc m 0 else CityHashCrc256Short crc m)"

definition city_hash_crc_256 :: "(u64 \<Rightarrow> u64 \<Rightarrow> u64) \<Rightarrow> bytes \<Rightarrow> u64 list option" where
  "city_hash_crc_256 crc m = CityHashCrc256 crc m"

definition CityHashCrc128WithSeed :: "(u64 \<Rightarrow> u64 \<Rightarrow> u64) \<Rightarrow> bytes \<Rightarrow> uint128 \<Rightarrow> uint128 option" where
  "CityHashCrc128WithSeed crc m seed =
     (if length m \<le> 900 then CityHash128WithSeed m 0 (length m) seed
      else do {
        result \<leftarrow> CityHashCrc256 crc m;
        let u = hi seed + result ! 0;
        let v = lo seed + result ! 1;
        Some (u128 (HashLen16 u (v + result ! 2)) (HashLen16 (Rotate v 32) (u * k0 + result ! 3)))
      })"

definition city_hash_crc_128 :: "(u64 \<Rightarrow> u64 \<Rightarrow> u64) \<Rightarrow> bytes \<Rightarrow> uint128 option" where
  "city_hash_crc_128 crc m =
     (if length m \<le> 900 then city_hash128 m
      else do { result \<leftarrow> CityHashCrc256 crc m; Some (u128 (result ! 2) (result ! 3)) })"

declare murmur_loop.simps [simp del] city128_loop.simps [simp del] city128_tail.simps [simp del] crc_forty_loop.simps [simp del]

end
