(* ===== verification/City_Correct.thy ===== *)
theory City_Correct
  imports City_Long
begin

text \<open>
  Every fetch of CityHash lies in its input, for inputs of every length. A function is \<open>defined\<close> at its arguments if none of
  its fetches fails; the rules follow the structure of the code, and only the loops need invariants.
\<close>

named_theorems city_rules

definition defined :: "'a option \<Rightarrow> bool" where
  "defined x \<longleftrightarrow> x \<noteq> None"

lemma defined_Some [city_rules]: "defined (Some x)"
  by (simp add: defined_def)

lemma defined_bind [city_rules]: "defined x \<Longrightarrow> (\<And>y. x = Some y \<Longrightarrow> defined (f y)) \<Longrightarrow> defined (Option.bind x f)"
  by (auto simp: defined_def)

lemma defined_let [city_rules]: "(\<And>x. x = t \<Longrightarrow> defined (f x)) \<Longrightarrow> defined (Let t f)"
  by simp

lemma defined_if [city_rules]: "(b \<Longrightarrow> defined x) \<Longrightarrow> (\<not> b \<Longrightarrow> defined y) \<Longrightarrow> defined (if b then x else y)"
  by simp

lemma defined_case_prod [city_rules]: "(\<And>a b. p = (a, b) \<Longrightarrow> defined (f a b)) \<Longrightarrow> defined (case p of (a, b) \<Rightarrow> f a b)"
  by (cases p) simp

lemma definedE: "defined x \<Longrightarrow> (\<And>y. x = Some y \<Longrightarrow> P) \<Longrightarrow> P"
  by (auto simp: defined_def)

lemma defined_Fetch64 [city_rules]: "0 \<le> p \<Longrightarrow> p + 8 \<le> int (length m) \<Longrightarrow> defined (Fetch64 m p)"
  by (simp add: defined_def Fetch64_def Fetch_def)

lemma defined_Fetch32 [city_rules]: "0 \<le> p \<Longrightarrow> p + 4 \<le> int (length m) \<Longrightarrow> defined (Fetch32 m p)"
  by (simp add: defined_def Fetch32_def Fetch_def)

lemma defined_Fetch8 [city_rules]: "0 \<le> p \<Longrightarrow> p < int (length m) \<Longrightarrow> defined (Fetch8 m p)"
  by (simp add: defined_def Fetch8_def Fetch_def)

subsection \<open>Thirty-two bits\<close>

lemma defined_hash32_bytes: "0 \<le> p \<Longrightarrow> p + int n \<le> int (length m) \<Longrightarrow> defined (hash32_bytes m p n b c)"
proof (induction n arbitrary: p b c)
  case (Suc n)
  show ?case unfolding hash32_bytes.simps using Suc.prems by (intro city_rules Suc.IH) simp_all
qed (simp add: defined_def)

lemma half_and_4: "5 \<le> len \<Longrightarrow> len \<le> 12 \<Longrightarrow> (len div 2) AND 4 \<le> (len - 4 :: nat)"
proof -
  assume "5 \<le> len" "len \<le> 12"
  then have "len \<in> {5, 6, 7, 8, 9, 10, 11, 12}" by auto
  then show ?thesis by auto
qed

lemma defined_hash32_loop:
  "0 \<le> s \<Longrightarrow> s + 20 * int n \<le> int (length m) \<Longrightarrow> defined (hash32_loop m s n fhg)"
proof (induction n arbitrary: s fhg)
  case (Suc n)
  have "defined (hash32_step m s fhg)"
    unfolding hash32_step_def using Suc.prems by (intro city_rules) simp_all
  then show ?case unfolding hash32_loop.simps using Suc.prems by (intro city_rules Suc.IH) simp_all
qed (simp add: defined_def)

lemma defined_city_hash32: "defined (city_hash32 m)"
proof -
  let ?n = "length m"
  have a: "defined (Hash32Len0to4 m 0 ?n)"
    unfolding Hash32Len0to4_def by (intro city_rules defined_hash32_bytes) simp_all
  have b: "defined (Hash32Len5to12 m 0 ?n)" if "5 \<le> ?n" "?n \<le> 12"
    unfolding Hash32Len5to12_def using that half_and_4 [OF that] by (intro city_rules) (auto simp: nat_le_iff)
  have c: "defined (Hash32Len13to24 m 0 ?n)" if "13 \<le> ?n"
    unfolding Hash32Len13to24_def using that by (intro city_rules) simp_all
  have d: "20 * int ((?n - 1) div 20) \<le> int ?n" using times_div_less_eq_dividend [of 20 "?n - 1"] by linarith
  show ?thesis
    unfolding city_hash32_def Let_def [of "0 :: int"] Let_def [of "length m"]
    using b c d by (intro city_rules a defined_hash32_loop) simp_all
qed

subsection \<open>Sixty-four bits\<close>

lemma defined_Weak [city_rules]: "0 \<le> s \<Longrightarrow> s + 32 \<le> int (length m) \<Longrightarrow> defined (WeakHashLen32WithSeeds m s a b)"
  unfolding WeakHashLen32WithSeeds_def by (intro city_rules) simp_all

lemma defined_HashLen0to16 [city_rules]:
  "0 \<le> s \<Longrightarrow> s + int len \<le> int (length m) \<Longrightarrow> defined (HashLen0to16 m s len)"
  unfolding HashLen0to16_def by (intro city_rules) simp_all

lemma defined_city_step [city_rules]: "0 \<le> s \<Longrightarrow> s + 64 \<le> int (length m) \<Longrightarrow> defined (city_step m s st)"
  unfolding city_step_def by (intro city_rules) simp_all

lemma defined_city_loop: "0 \<le> s \<Longrightarrow> s + 64 * int n \<le> int (length m) \<Longrightarrow> defined (city_loop m s n st)"
proof (induction n arbitrary: s st)
  case (Suc n)
  show ?case unfolding city_loop.simps using Suc.prems by (intro city_rules Suc.IH) simp_all
qed (simp add: defined_def)

lemma defined_city_hash64: "defined (city_hash64 m)"
proof -
  let ?n = "length m"
  have a: "defined (HashLen17to32 m 0 ?n)" if "17 \<le> ?n"
    unfolding HashLen17to32_def using that by (intro city_rules) simp_all
  have b: "defined (HashLen33to64 m 0 ?n)" if "33 \<le> ?n"
    unfolding HashLen33to64_def using that by (intro city_rules) simp_all
  have d: "64 * int ((?n - 1) div 64) \<le> int ?n" using times_div_less_eq_dividend [of 64 "?n - 1"] by linarith
  show ?thesis
    unfolding city_hash64_def Let_def [of "0 :: int"] Let_def [of "length m"]
    using a b d by (intro city_rules defined_city_loop) simp_all
qed

subsection \<open>A hundred and twenty-eight bits\<close>

lemma defined_murmur_step [city_rules]: "0 \<le> s \<Longrightarrow> s + 16 \<le> int (length m) \<Longrightarrow> defined (murmur_step m s st)"
  unfolding murmur_step_def by (intro city_rules) simp_all

lemma defined_murmur_loop:
  "0 \<le> s \<Longrightarrow> 0 < l \<Longrightarrow> s + l + 16 \<le> int (length m) \<Longrightarrow> defined (murmur_loop m s l st)"
proof (induction m s l st rule: murmur_loop.induct)
  case (1 m s l st)
  show ?case
    by (subst murmur_loop.simps) (intro city_rules 1(1); use 1(2-4) in simp)
qed

lemma defined_CityMurmur:
  "0 \<le> s \<Longrightarrow> s + int len \<le> int (length m) \<Longrightarrow> defined (CityMurmur m s len seed)"
  unfolding CityMurmur_def by (intro city_rules defined_murmur_loop) simp_all

lemma city128_loop_moves:
  "0 \<le> s \<Longrightarrow> 128 \<le> len \<Longrightarrow> s + int len \<le> int (length m) \<Longrightarrow>
   \<exists>s' len' st'. city128_loop m s len st = Some (s', len', st') \<and> s' + int len' = s + int len \<and> s + 128 \<le> s'"
proof (induction m s len st rule: city128_loop.induct)
  case (1 m s len st)
  obtain t where t: "city_step m s st = Some t"
    using defined_city_step [of s m st] 1(2-4) by (auto elim!: definedE)
  obtain u where u: "city_step m (s + 64) t = Some u"
    using defined_city_step [of "s + 64" m t] 1(2-4) by (auto elim!: definedE)
  show ?case
  proof (cases "128 \<le> len - 128")
    case True
    then show ?thesis using 1(1) [OF t refl u refl refl True] 1(2-4) t u by (subst city128_loop.simps) (auto simp: Let_def)
  next
    case False
    then show ?thesis using 1(2-4) t u by (subst city128_loop.simps) (auto simp: Let_def)
  qed
qed

lemma defined_city128_tail:
  "128 \<le> s \<Longrightarrow> s + int len \<le> int (length m) \<Longrightarrow> defined (city128_tail m s len tail_done st)"
proof (induction m s len tail_done st rule: city128_tail.induct)
  case (1 m s len tail_done st)
  show ?case
    by (subst city128_tail.simps) (intro city_rules 1(1); (assumption | use 1(2-3) in simp))
qed

lemma defined_CityHash128WithSeed:
  assumes "0 \<le> s" and "s + int len \<le> int (length m)"
  shows "defined (CityHash128WithSeed m s len seed)"
proof -
  have l: "defined (city128_loop m s len st)" if "128 \<le> len" for st
    using city128_loop_moves [OF assms(1) that assms(2), of st] by (auto simp: defined_def)
  have t: "defined (city128_tail m s' len' 0 st')"
    if "\<not> len < 128" "city128_loop m s len st = Some p" "p = (s', r)" "r = (len', st'')" for st p r s' len' st'' st'
    using city128_loop_moves [OF assms(1) _ assms(2), of st] that assms by (intro defined_city128_tail) auto
  show ?thesis
    unfolding CityHash128WithSeed_def
    by (intro city_rules defined_CityMurmur l; (rule t, assumption+)?) (use assms in simp_all)
qed

lemma defined_city_hash128: "defined (city_hash128 m)"
  unfolding city_hash128_def Let_def [of "0 :: int"] Let_def [of "length m"]
  by (intro city_rules defined_CityHash128WithSeed) simp_all

subsection \<open>The hashes with a checksum\<close>

text \<open>The same rules with what is returned.\<close>

definition returns :: "'a option \<Rightarrow> ('a \<Rightarrow> bool) \<Rightarrow> bool" where
  "returns x P \<longleftrightarrow> (\<exists>y. x = Some y \<and> P y)"

lemma returns_Some: "P x \<Longrightarrow> returns (Some x) P"
  by (simp add: returns_def)

lemma returns_bind: "defined x \<Longrightarrow> (\<And>y. x = Some y \<Longrightarrow> returns (f y) P) \<Longrightarrow> returns (Option.bind x f) P"
  by (auto simp: defined_def)

lemma returns_then: "returns x P \<Longrightarrow> (\<And>y. P y \<Longrightarrow> returns (f y) Q) \<Longrightarrow> returns (Option.bind x f) Q"
  by (auto simp: returns_def)

lemma returns_let: "(\<And>x. x = t \<Longrightarrow> returns (f x) P) \<Longrightarrow> returns (Let t f) P"
  by simp

lemma returns_case_prod: "(\<And>a b. p = (a, b) \<Longrightarrow> returns (f a b) P) \<Longrightarrow> returns (case p of (a, b) \<Rightarrow> f a b) P"
  by (cases p) simp

lemma returns_defined: "returns x P \<Longrightarrow> defined x"
  by (auto simp: returns_def defined_def)

lemma CHUNK_moves:
  assumes "0 \<le> fst sq" and "fst sq + 40 \<le> int (length m)"
  shows "returns (CHUNK crc m r sq) (\<lambda>p. fst p = fst sq + 40)"
proof -
  obtain s q where sq: "sq = (s, q)" by (cases sq)
  show ?thesis
    unfolding CHUNK_def sq by (intro returns_bind returns_let returns_case_prod returns_Some city_rules) (use assms in \<open>auto simp: sq\<close>)
qed

lemma returnsD: "returns x P \<Longrightarrow> x = Some y \<Longrightarrow> P y"
  by (simp add: returns_def)

lemma chunk_then:
  assumes "0 \<le> s" and "s + 40 \<le> int (length m)" and "\<And>q'. returns (f (s + 40) q') P"
  shows "returns (Option.bind (CHUNK crc m r (s, q)) (\<lambda>(s, q). f s q)) P"
  using CHUNK_moves [of "(s, q)" m crc r] assms by (auto simp: returns_def)

lemma returns_mono: "returns x P \<Longrightarrow> (\<And>y. P y \<Longrightarrow> Q y) \<Longrightarrow> returns x Q"
  by (auto simp: returns_def)

lemma crc_long_loop_moves:
  "0 \<le> s \<Longrightarrow> s + 240 * int n \<le> int (length m) \<Longrightarrow>
   returns (crc_long_loop crc m n (s, q)) (\<lambda>p. fst p = s + 240 * int n)"
proof (induction n arbitrary: s q)
  case (Suc n)
  have ih: "returns (crc_long_loop crc m n (s + 40 + 40 + 40 + 40 + 40 + 40, q)) (\<lambda>p. fst p = s + 240 * int (Suc n))" for q
    by (rule returns_mono [OF Suc.IH]) (use Suc.prems in simp_all)
  show ?case unfolding crc_long_loop.simps by (intro chunk_then ih) (use Suc.prems in simp_all)
qed (simp add: returns_def)

lemma crc_forty_loop_moves:
  "0 \<le> s \<Longrightarrow> s + int len \<le> int (length m) \<Longrightarrow>
   returns (crc_forty_loop crc m len (s, q)) (\<lambda>(len', s', q'). s' + int len' = s + int len \<and> s \<le> s')"
proof (induction len arbitrary: s q rule: less_induct)
  case (less len)
  show ?case
  proof (cases "40 \<le> len")
    case True
    have ih: "returns (crc_forty_loop crc m (len - 40) (s + 40, q)) (\<lambda>(len', s', q'). s' + int len' = s + int len \<and> s \<le> s')" for q
      by (rule returns_mono [OF less.IH]) (use less.prems True in \<open>auto simp: of_nat_diff\<close>)
    show ?thesis
      by (subst crc_forty_loop.simps, simp only: True if_True, rule chunk_then) (use less.prems True in \<open>simp_all add: ih Let_def\<close>)
  next
    case False
    then show ?thesis by (subst crc_forty_loop.simps) (simp add: returns_def)
  qed
qed

lemma defined_CityHashCrc256Long:
  assumes "240 \<le> length m"
  shows "defined (CityHashCrc256Long crc m seed)"
proof -
  have n: "240 * (length m div 240) + length m mod 240 = length m" by simp
  have k: "length m - length m div 240 * 240 = length m mod 240" by (simp add: minus_div_mult_eq_mod)
  have q: "0 < length m div 240" using assms by (simp add: div_greater_zero_iff)
  have l: "returns (crc_long_loop crc m (length m div 240) (0, q)) (\<lambda>p. fst p = 240 * int (length m div 240))" for q
    using crc_long_loop_moves [of 0 "length m div 240" m crc q] n by simp
  have f: "returns (crc_forty_loop crc m (length m mod 240) sq) (\<lambda>r. fst (snd r) + int (fst r) = int (length m) \<and> 240 \<le> fst (snd r))"
    if "fst sq = 240 * int (length m div 240)" for sq
  proof -
    have "0 \<le> fst sq" "fst sq + int (length m mod 240) = int (length m)" "240 \<le> fst sq" using that n q by linarith+
    then show ?thesis
      using crc_forty_loop_moves [of "fst sq" "length m mod 240" m crc "snd sq"] by (auto elim!: returns_mono)
  qed
  have e: "defined (crc_last crc m len sq)" if "fst sq + int len = int (length m)" "240 \<le> fst sq" for len sq
  proof -
    have "returns (CHUNK crc m 33 (fst sq + int len - 40, q)) (\<lambda>p. True)" for q
      by (rule returns_mono [OF CHUNK_moves]) (use that in simp_all)
    then show ?thesis unfolding crc_last_def by (intro city_rules) (auto simp: returns_def defined_def)
  qed
  show ?thesis
    unfolding CityHashCrc256Long_def k Let_def [of "0 :: int"] Let_def [of "length m"]
  proof (intro city_rules, goal_cases)
    case (9 t1 a t2 b c r0 t3 d r1 t4 e q)
    show ?case by (rule returns_defined [OF l])
  next
    case (10 t1 a t2 b c r0 t3 d r1 t4 e q sq)
    then show ?case using returnsD [OF l] by (intro returns_defined [OF f]) blast
  next
    case (11 t1 a t2 b c r0 t3 d r1 t4 e q sq r len sq')
    then have "fst sq = 240 * int (length m div 240)" using returnsD [OF l] by blast
    from returnsD [OF f [OF this]] 11 have "fst (snd r) + int (fst r) = int (length m) \<and> 240 \<le> fst (snd r)" by blast
    with 11 show ?case by (intro e) simp_all
  qed (use assms in simp_all)
qed

lemma defined_CityHashCrc256: "defined (CityHashCrc256 crc m)"
proof (cases "240 \<le> length m")
  case True
  then show ?thesis by (simp add: CityHashCrc256_def defined_CityHashCrc256Long)
next
  case False
  then show ?thesis by (simp add: CityHashCrc256_def CityHashCrc256Short_def defined_CityHashCrc256Long)
qed

text \<open>
  The two functions of the same name mix their arguments alike but for their order: \<^verbatim>\<open>uint128\<close> takes its high half first.
\<close>

lemma HashLen16_swapped: "HashLen16 u v = HashLen16_mul v u 0x9ddfea08eb382d69"
  by (simp add: HashLen16_def HashLen16_mul_def Hash128to64_def u128_def Let_def)

text \<open>
  C35. CityHash stays in its input. For every buffer, empty, short or long, each of the six hashes returns, and every one of its
  fetches, those at offsets from the end and those the tails make behind their own pointer included, lies inside the buffer;
  and the mixing of two words into one, the last step of the hashes of more than 64 bytes, is the keyed mixing
  with its arguments exchanged.
\<close>

theorem city_hashes_in_bounds:
  "city_hash32 m \<noteq> None \<and> city_hash64 m \<noteq> None \<and> CityHash64WithSeed m seed \<noteq> None \<and> city_hash128 m \<noteq> None \<and>
   city_hash_crc_128 crc m \<noteq> None \<and> city_hash_crc_256 crc m \<noteq> None \<and>
   CityHashCrc128WithSeed crc m (u128 seed seed') \<noteq> None \<and>
   HashLen16 seed seed' = HashLen16_mul seed' seed 0x9ddfea08eb382d69"
proof (intro conjI HashLen16_swapped; fold defined_def)
  show "defined (CityHash64WithSeed m seed)"
    unfolding CityHash64WithSeed_def CityHash64WithSeeds_def by (intro city_rules defined_city_hash64)
  show "defined (city_hash_crc_128 crc m)"
    unfolding city_hash_crc_128_def by (intro city_rules defined_city_hash128 defined_CityHashCrc256)
  show "defined (city_hash_crc_256 crc m)"
    unfolding city_hash_crc_256_def by (rule defined_CityHashCrc256)
  show "defined (CityHashCrc128WithSeed crc m (u128 seed seed'))"
    unfolding CityHashCrc128WithSeed_def by (intro city_rules defined_CityHash128WithSeed defined_CityHashCrc256) simp_all
qed (rule defined_city_hash32 defined_city_hash64 defined_city_hash128)+

end
