(* ===== verification/Variant_Memory.thy ===== *)
theory Variant_Memory
  imports Variant
begin

text \<open>
  The representation of a variant in memory, the first part of \<^verbatim>\<open>src/variant.cpp\<close>: a word that is a number or the
  address of an object of the variant's own, and the type in its last byte. Constructors, copies, moves, assignment and
  destruction work on a store of such objects. \<open>Undefined_behaviour\<close> is a use or a deletion of an object that
  is not there, or a word taken for what it is not.
\<close>

subsection \<open>Memory\<close>

datatype payload = Bits u64 | Ptr nat

datatype slot = Slot (payload_of: payload) (type_of: type_id)

text \<open>
  What stands at an address. A \<^verbatim>\<open>variant_object\<close> is a handle of its own and here its entries; a \<^verbatim>\<open>variants\<close> is the
  sequence of the variants in it.
\<close>

datatype heap_obj = H_string bytes | H_blob bytes | H_object "(bytes \<times> variant) list" | H_array "slot list"

record heap =
  hp_next :: nat
  hp_obj :: "nat \<rightharpoonup> heap_obj"

definition heap_empty :: heap where
  "heap_empty = \<lparr>hp_next = 0, hp_obj = Map.empty\<rparr>"

definition new_obj :: "heap_obj \<Rightarrow> heap \<Rightarrow> nat \<times> heap" where
  "new_obj x h = (hp_next h, \<lparr>hp_next = hp_next h + 1, hp_obj = (hp_obj h)(hp_next h \<mapsto> x)\<rparr>)"

definition delete_obj :: "nat \<Rightarrow> heap \<Rightarrow> heap result" where
  "delete_obj a h =
     (if hp_obj h a = None then Inl Undefined_behaviour else Inr (h\<lparr>hp_obj := (hp_obj h)(a := None)\<rparr>))"

definition obj_at :: "payload \<Rightarrow> heap \<Rightarrow> (nat \<times> heap_obj) result" where
  "obj_at p h =
     (case p of Bits _ \<Rightarrow> Inl Undefined_behaviour
      | Ptr a \<Rightarrow> (case hp_obj h a of None \<Rightarrow> Inl Undefined_behaviour | Some x \<Rightarrow> Inr (a, x)))"

definition string_at :: "payload \<Rightarrow> heap \<Rightarrow> (nat \<times> bytes) result" where
  "string_at p h = and_then (obj_at p h) (\<lambda>(a, x). case x of H_string s \<Rightarrow> Inr (a, s) | _ \<Rightarrow> Inl Undefined_behaviour)"

definition blob_at :: "payload \<Rightarrow> heap \<Rightarrow> (nat \<times> bytes) result" where
  "blob_at p h = and_then (obj_at p h) (\<lambda>(a, x). case x of H_blob s \<Rightarrow> Inr (a, s) | _ \<Rightarrow> Inl Undefined_behaviour)"

definition object_at :: "payload \<Rightarrow> heap \<Rightarrow> (nat \<times> (bytes \<times> variant) list) result" where
  "object_at p h = and_then (obj_at p h) (\<lambda>(a, x). case x of H_object s \<Rightarrow> Inr (a, s) | _ \<Rightarrow> Inl Undefined_behaviour)"

definition array_at :: "payload \<Rightarrow> heap \<Rightarrow> (nat \<times> slot list) result" where
  "array_at p h = and_then (obj_at p h) (\<lambda>(a, x). case x of H_array s \<Rightarrow> Inr (a, s) | _ \<Rightarrow> Inl Undefined_behaviour)"

subsection \<open>Constructors\<close>

text \<open>\<open>mem\<close> is the memory the variant is made in. Numbers are extended to eight bytes by the rules of their type.\<close>

definition set_variant_type :: "slot \<Rightarrow> type_id \<Rightarrow> slot" where
  "set_variant_type v t = Slot (payload_of v) t"

definition variant_default :: "slot \<Rightarrow> slot" where
  "variant_default mem = set_variant_type mem null_type"

definition variant_uint8 :: "byte \<Rightarrow> slot" where
  "variant_uint8 x = Slot (Bits (ucast x)) uint64_type"

definition variant_int8 :: "byte \<Rightarrow> slot" where
  "variant_int8 x = Slot (Bits (scast x)) int64_type"

definition variant_uint16 :: "u16 \<Rightarrow> slot" where
  "variant_uint16 x = Slot (Bits (ucast x)) uint64_type"

definition variant_int16 :: "u16 \<Rightarrow> slot" where
  "variant_int16 x = Slot (Bits (scast x)) int64_type"

definition variant_uint32 :: "u32 \<Rightarrow> slot" where
  "variant_uint32 x = Slot (Bits (ucast x)) uint64_type"

definition variant_int32 :: "u32 \<Rightarrow> slot" where
  "variant_int32 x = Slot (Bits (scast x)) int64_type"

definition variant_uint64 :: "u64 \<Rightarrow> slot" where
  "variant_uint64 x = Slot (Bits x) uint64_type"

definition variant_int64 :: "u64 \<Rightarrow> slot" where
  "variant_int64 x = Slot (Bits x) int64_type"

definition variant_double :: "u64 \<Rightarrow> slot" where
  "variant_double x = Slot (Bits x) double_type"

text \<open>A \<^verbatim>\<open>bool\<close> fills one byte; the rest of the word is what was there.\<close>

definition variant_bool :: "slot \<Rightarrow> bool \<Rightarrow> slot" where
  "variant_bool mem b =
     Slot (Bits ((case payload_of mem of Bits w \<Rightarrow> w AND NOT 0xff | Ptr a \<Rightarrow> 0) OR of_bool b)) bool_type"

definition variant_string :: "bytes \<Rightarrow> heap \<Rightarrow> slot \<times> heap" where
  "variant_string s h = (let (a, h) = new_obj (H_string s) h in (Slot (Ptr a) string_type, h))"

text \<open>The constructors from C strings; those from \<^verbatim>\<open>wchar_t\<close> keep the low byte of every character.\<close>

definition variant_c_string :: "bytes \<Rightarrow> heap \<Rightarrow> slot \<times> heap" where
  "variant_c_string str = variant_string (c_str str)"

definition variant_wide_string :: "u32 list \<Rightarrow> heap \<Rightarrow> slot \<times> heap" where
  "variant_wide_string str = variant_string (map ucast (takeWhile (\<lambda>c. c \<noteq> 0) str))"

definition variant_blob :: "bytes \<Rightarrow> heap \<Rightarrow> slot \<times> heap" where
  "variant_blob s h = (let (a, h) = new_obj (H_blob s) h in (Slot (Ptr a) blob_type, h))"

definition variant_of_object :: "(bytes \<times> variant) list \<Rightarrow> heap \<Rightarrow> slot \<times> heap" where
  "variant_of_object s h = (let (a, h) = new_obj (H_object s) h in (Slot (Ptr a) object_type, h))"

text \<open>The elements are moved into the new vector.\<close>

definition variant_array :: "slot list \<Rightarrow> heap \<Rightarrow> slot \<times> heap" where
  "variant_array s h = (let (a, h) = new_obj (H_array s) h in (Slot (Ptr a) array_type, h))"

subsection \<open>Destruction and copies\<close>

text \<open>
  \<^verbatim>\<open>delete\<close> of an array destroys its elements, which may be arrays again: the first argument bounds the
  depth of the calls, and \<open>None\<close> is running out of it.
\<close>

fun variant_clear :: "nat \<Rightarrow> slot \<Rightarrow> heap \<Rightarrow> (slot \<times> heap) result option"
  and destroy_all :: "nat \<Rightarrow> slot list \<Rightarrow> heap \<Rightarrow> heap result option" where
  "variant_clear 0 v h = None"
| "variant_clear (Suc n) v h =
     map_option (\<lambda>r. and_then r (\<lambda>h. Inr (set_variant_type v null_type, h)))
       (case type_of v of
          object_type \<Rightarrow> Some (and_then (object_at (payload_of v) h) (\<lambda>(a, _). delete_obj a h))
        | array_type \<Rightarrow>
            (case array_at (payload_of v) h of
               Inl e \<Rightarrow> Some (Inl e)
             | Inr (a, elems) \<Rightarrow> map_option (\<lambda>r. and_then r (delete_obj a)) (destroy_all n elems h))
        | string_type \<Rightarrow> Some (and_then (string_at (payload_of v) h) (\<lambda>(a, _). delete_obj a h))
        | blob_type \<Rightarrow> Some (and_then (blob_at (payload_of v) h) (\<lambda>(a, _). delete_obj a h))
        | _ \<Rightarrow> Some (Inr h))"
| "destroy_all n [] h = Some (Inr h)"
| "destroy_all n (v # vs) h =
     (case variant_clear n v h of
        None \<Rightarrow> None
      | Some (Inl e) \<Rightarrow> Some (Inl e)
      | Some (Inr (_, h)) \<Rightarrow> destroy_all n vs h)"

definition variant_destroy :: "nat \<Rightarrow> slot \<Rightarrow> heap \<Rightarrow> heap result option" where
  "variant_destroy n v h = map_option (\<lambda>r. and_then r (\<lambda>(_, h). Inr h)) (variant_clear n v h)"

fun variant_copy :: "nat \<Rightarrow> slot \<Rightarrow> heap \<Rightarrow> (slot \<times> heap) result option"
  and copy_all :: "nat \<Rightarrow> slot list \<Rightarrow> heap \<Rightarrow> (slot list \<times> heap) result option" where
  "variant_copy 0 v h = None"
| "variant_copy (Suc n) v h =
     (case type_of v of
        object_type \<Rightarrow> Some (and_then (object_at (payload_of v) h) (\<lambda>(_, s). Inr (variant_of_object s h)))
      | array_type \<Rightarrow>
          (case array_at (payload_of v) h of
             Inl e \<Rightarrow> Some (Inl e)
           | Inr (_, elems) \<Rightarrow>
               map_option (\<lambda>r. and_then r (\<lambda>(elems, h). Inr (variant_array elems h))) (copy_all n elems h))
      | string_type \<Rightarrow> Some (and_then (string_at (payload_of v) h) (\<lambda>(_, s). Inr (variant_string s h)))
      | blob_type \<Rightarrow> Some (and_then (blob_at (payload_of v) h) (\<lambda>(_, s). Inr (variant_blob s h)))
      | _ \<Rightarrow> Some (Inr (v, h)))"
| "copy_all n [] h = Some (Inr ([], h))"
| "copy_all n (v # vs) h =
     (case variant_copy n v h of
        None \<Rightarrow> None
      | Some (Inl e) \<Rightarrow> Some (Inl e)
      | Some (Inr (w, h)) \<Rightarrow>
          map_option (\<lambda>r. and_then r (\<lambda>(ws, h). Inr (w # ws, h))) (copy_all n vs h))"

text \<open>A move takes the memory of the source, which is left with the type null.\<close>

definition variant_move :: "slot \<Rightarrow> slot \<times> slot" where
  "variant_move v = (v, set_variant_type v null_type)"

text \<open>What a visitor is given.\<close>

fun variant_visit :: "nat \<Rightarrow> slot \<Rightarrow> heap \<Rightarrow> variant result option"
  and visit_all :: "nat \<Rightarrow> slot list \<Rightarrow> heap \<Rightarrow> variant list result option" where
  "variant_visit 0 v h = None"
| "variant_visit (Suc n) v h =
     (case type_of v of
        null_type \<Rightarrow> Some (Inr Null)
      | int64_type \<Rightarrow> Some (case payload_of v of Bits w \<Rightarrow> Inr (Int64 w) | _ \<Rightarrow> Inl Undefined_behaviour)
      | uint64_type \<Rightarrow> Some (case payload_of v of Bits w \<Rightarrow> Inr (Uint64 w) | _ \<Rightarrow> Inl Undefined_behaviour)
      | double_type \<Rightarrow> Some (case payload_of v of Bits w \<Rightarrow> Inr (Double w) | _ \<Rightarrow> Inl Undefined_behaviour)
      | bool_type \<Rightarrow> Some (case payload_of v of Bits w \<Rightarrow> Inr (Bool (w AND 0xff \<noteq> 0)) | _ \<Rightarrow> Inl Undefined_behaviour)
      | string_type \<Rightarrow> Some (and_then (string_at (payload_of v) h) (\<lambda>(_, s). Inr (String s)))
      | array_type \<Rightarrow>
          (case array_at (payload_of v) h of
             Inl e \<Rightarrow> Some (Inl e)
           | Inr (_, elems) \<Rightarrow> map_option (\<lambda>r. and_then r (\<lambda>vs. Inr (Array vs))) (visit_all n elems h))
      | object_type \<Rightarrow> Some (and_then (object_at (payload_of v) h) (\<lambda>(_, s). Inr (Object s)))
      | blob_type \<Rightarrow> Some (and_then (blob_at (payload_of v) h) (\<lambda>(_, s). Inr (Blob s))))"
| "visit_all n [] h = Some (Inr [])"
| "visit_all n (v # vs) h =
     (case variant_visit n v h of
        None \<Rightarrow> None
      | Some (Inl e) \<Rightarrow> Some (Inl e)
      | Some (Inr x) \<Rightarrow> map_option (\<lambda>r. and_then r (\<lambda>xs. Inr (x # xs))) (visit_all n vs h))"

subsection \<open>Assignment between variables\<close>

text \<open>
  The variants of a program, by name. The source of an assignment is one of them or an element of an array that one
  of them holds; \<^verbatim>\<open>this == &v\<close> compares addresses.
\<close>

record store =
  st_var :: "nat \<rightharpoonup> slot"
  st_heap :: heap

datatype lvalue = Var nat | Elem nat nat

definition slot_of :: "lvalue \<Rightarrow> store \<Rightarrow> slot result" where
  "slot_of l s =
     (case l of
        Var x \<Rightarrow> (case st_var s x of None \<Rightarrow> Inl Undefined_behaviour | Some v \<Rightarrow> Inr v)
      | Elem x i \<Rightarrow>
          (case st_var s x of None \<Rightarrow> Inl Undefined_behaviour
           | Some v \<Rightarrow>
               if type_of v \<noteq> array_type then Inl Undefined_behaviour
               else and_then (array_at (payload_of v) (st_heap s)) (\<lambda>(_, elems).
                      if i < length elems then Inr (elems ! i) else Inl Undefined_behaviour)))"

definition opt_then :: "'a result option \<Rightarrow> ('a \<Rightarrow> 'b result option) \<Rightarrow> 'b result option" where
  "opt_then r f = (case r of None \<Rightarrow> None | Some (Inl e) \<Rightarrow> Some (Inl e) | Some (Inr x) \<Rightarrow> f x)"

definition put_var :: "nat \<Rightarrow> slot \<times> heap \<Rightarrow> store \<Rightarrow> store" where
  "put_var x vh s = s\<lparr>st_var := (st_var s)(x \<mapsto> fst vh), st_heap := snd vh\<rparr>"

definition assign_copy :: "nat \<Rightarrow> nat \<Rightarrow> lvalue \<Rightarrow> store \<Rightarrow> store result option" where
  "assign_copy n x l s =
     (if l = Var x then Some (Inr s)
      else opt_then (Some (slot_of (Var x) s)) (\<lambda>v.
             opt_then (variant_clear n v (st_heap s)) (\<lambda>vh.
               let s = put_var x vh s
               in opt_then (Some (slot_of l s)) (\<lambda>w.
                    opt_then (variant_copy n w (st_heap s)) (\<lambda>vh. Some (Inr (put_var x vh s)))))))"

definition assign_move :: "nat \<Rightarrow> nat \<Rightarrow> nat \<Rightarrow> store \<Rightarrow> store result option" where
  "assign_move n x y s =
     (if x = y then Some (Inr s)
      else opt_then (Some (slot_of (Var x) s)) (\<lambda>v.
             opt_then (variant_clear n v (st_heap s)) (\<lambda>vh.
               let s = put_var x vh s
               in opt_then (Some (slot_of (Var y) s)) (\<lambda>w.
                    let (new, old) = variant_move w
                    in Some (Inr (s\<lparr>st_var := (st_var s)(x \<mapsto> new, y \<mapsto> old)\<rparr>))))))"

subsection \<open>Programs\<close>

text \<open>
  Programs over variables of type \<^verbatim>\<open>variant\<close>: the life of a variable starts with one of the constructors and ends with the
  destructor. \<open>Make_array\<close> moves the variables into a vector and the vector into the new variant. The memory a
  variable gets is arbitrary.
\<close>

datatype literal =
    L_null | L_uint8 byte | L_int8 byte | L_uint16 u16 | L_int16 u16 | L_uint32 u32 | L_int32 u32
  | L_uint64 u64 | L_int64 u64 | L_double u64 | L_bool bool
  | L_c_string bytes | L_wide_string "u32 list" | L_string bytes | L_blob bytes | L_object "(bytes \<times> variant) list"

datatype command =
    Make nat slot literal | Make_array nat "nat list" | Make_copy nat lvalue | Make_move nat nat
  | Assign nat lvalue | Assign_move nat nat | Clear nat | Destroy nat

fun construct :: "slot \<Rightarrow> literal \<Rightarrow> heap \<Rightarrow> slot \<times> heap" where
  "construct mem L_null h = (variant_default mem, h)"
| "construct mem (L_uint8 x) h = (variant_uint8 x, h)"
| "construct mem (L_int8 x) h = (variant_int8 x, h)"
| "construct mem (L_uint16 x) h = (variant_uint16 x, h)"
| "construct mem (L_int16 x) h = (variant_int16 x, h)"
| "construct mem (L_uint32 x) h = (variant_uint32 x, h)"
| "construct mem (L_int32 x) h = (variant_int32 x, h)"
| "construct mem (L_uint64 x) h = (variant_uint64 x, h)"
| "construct mem (L_int64 x) h = (variant_int64 x, h)"
| "construct mem (L_double x) h = (variant_double x, h)"
| "construct mem (L_bool b) h = (variant_bool mem b, h)"
| "construct mem (L_c_string s) h = variant_c_string s h"
| "construct mem (L_wide_string s) h = variant_wide_string s h"
| "construct mem (L_string s) h = variant_string s h"
| "construct mem (L_blob s) h = variant_blob s h"
| "construct mem (L_object s) h = variant_of_object s h"

definition moved_from :: "nat list \<Rightarrow> store \<Rightarrow> store" where
  "moved_from ys s =
     s\<lparr>st_var := (\<lambda>y. if y \<in> set ys then map_option (\<lambda>v. snd (variant_move v)) (st_var s y) else st_var s y)\<rparr>"

definition on_var :: "nat \<Rightarrow> store \<Rightarrow> (slot \<Rightarrow> store result option) \<Rightarrow> store result option" where
  "on_var x s f = opt_then (Some (slot_of (Var x) s)) f"

fun execute :: "nat \<Rightarrow> command \<Rightarrow> store \<Rightarrow> store result option" where
  "execute n (Make x mem lit) s = Some (Inr (put_var x (construct mem lit (st_heap s)) s))"
| "execute n (Make_array x ys) s =
     Some (Inr (put_var x (variant_array (map (\<lambda>y. fst (variant_move (the (st_var s y)))) ys) (st_heap s)) (moved_from ys s)))"
| "execute n (Make_copy x l) s =
     opt_then (Some (slot_of l s)) (\<lambda>v.
       opt_then (variant_copy n v (st_heap s)) (\<lambda>vh. Some (Inr (put_var x vh s))))"
| "execute n (Make_move x y) s =
     on_var y s (\<lambda>v. let (new, old) = variant_move v in Some (Inr (s\<lparr>st_var := (st_var s)(x \<mapsto> new, y \<mapsto> old)\<rparr>)))"
| "execute n (Assign x l) s = assign_copy n x l s"
| "execute n (Assign_move x y) s = assign_move n x y s"
| "execute n (Clear x) s =
     on_var x s (\<lambda>v. opt_then (variant_clear n v (st_heap s)) (\<lambda>vh. Some (Inr (put_var x vh s))))"
| "execute n (Destroy x) s =
     on_var x s (\<lambda>v. opt_then (variant_destroy n v (st_heap s)) (\<lambda>h.
       Some (Inr \<lparr>st_var = (st_var s)(x := None), st_heap = h\<rparr>)))"

fun execute_all :: "nat \<Rightarrow> command list \<Rightarrow> store \<Rightarrow> store result option" where
  "execute_all n [] s = Some (Inr s)"
| "execute_all n (c # cs) s = opt_then (execute n c s) (execute_all n cs)"

subsection \<open>The values of a program\<close>

text \<open>
  The specification: variables hold values. \<open>None\<close> is a program C++ does not allow, of which one reads a variable outside its
  life, or one that assigns to a variant an element of its own.
\<close>

type_synonym env = "nat \<rightharpoonup> variant"

fun literal_value :: "literal \<Rightarrow> variant" where
  "literal_value L_null = Null"
| "literal_value (L_uint8 x) = Uint64 (of_nat (unat x))"
| "literal_value (L_int8 x) = Int64 (of_int (sint x))"
| "literal_value (L_uint16 x) = Uint64 (of_nat (unat x))"
| "literal_value (L_int16 x) = Int64 (of_int (sint x))"
| "literal_value (L_uint32 x) = Uint64 (of_nat (unat x))"
| "literal_value (L_int32 x) = Int64 (of_int (sint x))"
| "literal_value (L_uint64 x) = Uint64 x"
| "literal_value (L_int64 x) = Int64 x"
| "literal_value (L_double x) = Double x"
| "literal_value (L_bool b) = Bool b"
| "literal_value (L_c_string s) = String (c_str s)"
| "literal_value (L_wide_string s) = String (map ucast (takeWhile (\<lambda>c. c \<noteq> 0) s))"
| "literal_value (L_string s) = String s"
| "literal_value (L_blob s) = Blob s"
| "literal_value (L_object s) = Object s"

fun lvalue_var :: "lvalue \<Rightarrow> nat" where
  "lvalue_var (Var x) = x"
| "lvalue_var (Elem x i) = x"

fun value_in :: "lvalue \<Rightarrow> env \<Rightarrow> variant option" where
  "value_in (Var x) e = e x"
| "value_in (Elem x i) e =
     (case e x of Some (Array vs) \<Rightarrow> if i < length vs then Some (vs ! i) else None | _ \<Rightarrow> None)"

fun spec :: "command \<Rightarrow> env \<Rightarrow> env option" where
  "spec (Make x mem lit) e = (if e x = None then Some (e(x \<mapsto> literal_value lit)) else None)"
| "spec (Make_array x ys) e =
     (if e x = None \<and> distinct ys \<and> set ys \<subseteq> dom e
      then Some ((\<lambda>y. if y \<in> set ys then Some Null else e y)(x \<mapsto> Array (map (\<lambda>y. the (e y)) ys))) else None)"
| "spec (Make_copy x l) e = (if e x = None then map_option (\<lambda>v. e(x \<mapsto> v)) (value_in l e) else None)"
| "spec (Make_move x y) e = (if e x = None then map_option (\<lambda>v. e(x \<mapsto> v, y \<mapsto> Null)) (e y) else None)"
| "spec (Assign x l) e =
     (if e x = None then None
      else if l = Var x then Some e
      else if lvalue_var l = x then None
      else map_option (\<lambda>v. e(x \<mapsto> v)) (value_in l e))"
| "spec (Assign_move x y) e =
     (if e x = None then None
      else if x = y then Some e else map_option (\<lambda>v. e(x \<mapsto> v, y \<mapsto> Null)) (e y))"
| "spec (Clear x) e = (if e x = None then None else Some (e(x \<mapsto> Null)))"
| "spec (Destroy x) e = (if e x = None then None else Some (e(x := None)))"

fun spec_all :: "command list \<Rightarrow> env \<Rightarrow> env option" where
  "spec_all [] e = Some e"
| "spec_all (c # cs) e = Option.bind (spec c e) (spec_all cs)"

end
