(* ===== verification/Variant_Memory_Correct.thy ===== *)
theory Variant_Memory_Correct
  imports Variant_Memory
begin

text \<open>
  Ownership. \<open>rep H c v A\<close>: with the objects \<open>H\<close>, the memory \<open>c\<close> of a variant represents the value \<open>v\<close> and owns exactly the
  objects at the addresses \<open>A\<close>. Every operation of the class keeps the owned sets of the variants of a program apart and
  the store without any other object; therefore the rest of the development may take a variant for a value.
\<close>

subsection \<open>Representation\<close>

inductive rep :: "(nat \<rightharpoonup> heap_obj) \<Rightarrow> slot \<Rightarrow> variant \<Rightarrow> nat set \<Rightarrow> bool"
  and reps :: "(nat \<rightharpoonup> heap_obj) \<Rightarrow> slot list \<Rightarrow> variant list \<Rightarrow> nat set \<Rightarrow> bool"
  for H :: "nat \<rightharpoonup> heap_obj" where
  rep_null: "rep H (Slot p null_type) Null {}"
| rep_int64: "rep H (Slot (Bits w) int64_type) (Int64 w) {}"
| rep_uint64: "rep H (Slot (Bits w) uint64_type) (Uint64 w) {}"
| rep_double: "rep H (Slot (Bits w) double_type) (Double w) {}"
| rep_bool: "rep H (Slot (Bits w) bool_type) (Bool (w AND 0xff \<noteq> 0)) {}"
| rep_string: "H a = Some (H_string s) \<Longrightarrow> rep H (Slot (Ptr a) string_type) (String s) {a}"
| rep_blob: "H a = Some (H_blob s) \<Longrightarrow> rep H (Slot (Ptr a) blob_type) (Blob s) {a}"
| rep_object: "H a = Some (H_object s) \<Longrightarrow> rep H (Slot (Ptr a) object_type) (Object s) {a}"
| rep_array: "H a = Some (H_array cs) \<Longrightarrow> reps H cs vs A \<Longrightarrow> a \<notin> A \<Longrightarrow> rep H (Slot (Ptr a) array_type) (Array vs) (insert a A)"
| reps_nil: "reps H [] [] {}"
| reps_cons: "rep H c v A \<Longrightarrow> reps H cs vs B \<Longrightarrow> A \<inter> B = {} \<Longrightarrow> reps H (c # cs) (v # vs) (A \<union> B)"

lemmas rep_intros = rep_reps.intros

lemma rep_dom: "rep H c v A \<Longrightarrow> A \<subseteq> dom H" and reps_dom: "reps H cs vs A \<Longrightarrow> A \<subseteq> dom H"
  by (induction rule: rep_reps.inducts) auto

lemma rep_frame: "rep H c v A \<Longrightarrow> (\<And>a. a \<in> A \<Longrightarrow> H' a = H a) \<Longrightarrow> rep H' c v A"
  and reps_frame: "reps H cs vs A \<Longrightarrow> (\<And>a. a \<in> A \<Longrightarrow> H' a = H a) \<Longrightarrow> reps H' cs vs A"
  by (induction rule: rep_reps.inducts) (auto intro!: rep_intros)

lemma reps_length: "reps H cs vs A \<Longrightarrow> length cs = length vs"
  by (induction cs arbitrary: vs A) (auto elim: reps.cases)

lemma reps_nth: "reps H cs vs A \<Longrightarrow> i < length vs \<Longrightarrow> \<exists>B. rep H (cs ! i) (vs ! i) B"
proof (induction cs arbitrary: vs A i)
  case (Cons c cs)
  from Cons.prems(1) show ?case using Cons.IH Cons.prems(2) by (cases rule: reps.cases) (auto simp: nth_Cons split: nat.splits)
qed (auto elim: reps.cases)

definition heap_ok :: "heap \<Rightarrow> bool" where
  "heap_ok h \<longleftrightarrow> (\<forall>a \<in> dom (hp_obj h). a < hp_next h)"

subsection \<open>Destruction\<close>

lemmas at_defs = obj_at_def string_at_def blob_at_def object_at_def array_at_def delete_obj_def

lemma clear_frees:
  "rep H c v A \<Longrightarrow> (\<And>h n. (\<And>a. a \<in> A \<Longrightarrow> hp_obj h a = H a) \<Longrightarrow> nesting v < n \<Longrightarrow>
     variant_clear n c h = Some (Inr (set_variant_type c null_type, h\<lparr>hp_obj := hp_obj h |` (- A)\<rparr>)))"
  and destroy_frees:
  "reps H cs vs A \<Longrightarrow> (\<And>h n. (\<And>a. a \<in> A \<Longrightarrow> hp_obj h a = H a) \<Longrightarrow> (\<And>v. v \<in> set vs \<Longrightarrow> nesting v < n) \<Longrightarrow>
     destroy_all n cs h = Some (Inr (h\<lparr>hp_obj := hp_obj h |` (- A)\<rparr>)))"
proof (induction rule: rep_reps.inducts)
  case (rep_array a cs vs A)
  obtain m where n: "n = Suc m" using rep_array.prems(2) by (cases n) auto
  have "\<And>v. v \<in> set vs \<Longrightarrow> nesting v < m" using nesting_item rep_array.prems(2) n by fastforce
  then have d: "destroy_all m cs h = Some (Inr (h\<lparr>hp_obj := hp_obj h |` (- A)\<rparr>))"
    using rep_array.prems(1) by (intro rep_array.IH) auto
  have e: "(hp_obj h |` (- A))(a := None) = hp_obj h |` (- insert a A)" by (auto simp: restrict_map_def fun_eq_iff)
  have "hp_obj h a = Some (H_array cs)" using rep_array.prems(1) [of a] rep_array(1) by simp
  then show ?case using d rep_array(3,4) e by (simp add: n at_defs restrict_map_def)
next
  case (reps_cons c v A cs vs B)
  let ?h = "h\<lparr>hp_obj := hp_obj h |` (- A)\<rparr>"
  have c: "variant_clear n c h = Some (Inr (set_variant_type c null_type, ?h))"
    using reps_cons.prems by (intro reps_cons(2)) auto
  have "destroy_all n cs ?h = Some (Inr (?h\<lparr>hp_obj := hp_obj ?h |` (- B)\<rparr>))"
    using reps_cons.prems reps_cons(5) by (intro reps_cons(4)) (auto simp: restrict_map_def)
  moreover have "hp_obj h |` (- A) |` (- B) = hp_obj h |` (- (A \<union> B))" by (simp add: Compl_Un)
  ultimately show ?case using c by simp
next
  case (rep_string a s)
  then show ?case by (cases n) (auto simp: at_defs restrict_map_def fun_eq_iff)
next
  case (rep_blob a s)
  then show ?case by (cases n) (auto simp: at_defs restrict_map_def fun_eq_iff)
next
  case (rep_object a s)
  then show ?case by (cases n) (auto simp: at_defs restrict_map_def fun_eq_iff)
qed (case_tac n; simp add: restrict_map_def)+

subsection \<open>Copies and visits\<close>

text \<open>\<open>extends h h' A\<close>: \<open>h'\<close> is \<open>h\<close> with new objects at the addresses \<open>A\<close>.\<close>

definition extends :: "heap \<Rightarrow> heap \<Rightarrow> nat set \<Rightarrow> bool" where
  "extends h h' A \<longleftrightarrow>
     heap_ok h' \<and> A \<inter> dom (hp_obj h) = {} \<and> dom (hp_obj h') = dom (hp_obj h) \<union> A \<and>
     (\<forall>a \<in> dom (hp_obj h). hp_obj h' a = hp_obj h a)"

lemma extends_refl: "heap_ok h \<Longrightarrow> extends h h {}"
  by (simp add: extends_def)

lemma extends_trans: "extends h h1 A \<Longrightarrow> extends h1 h2 B \<Longrightarrow> extends h h2 (A \<union> B)"
  unfolding extends_def by (simp add: Int_Un_distrib2 Un_assoc) blast

lemma extends_new: "heap_ok h \<Longrightarrow> extends h (snd (new_obj x h)) {hp_next h}"
  by (auto simp: extends_def new_obj_def heap_ok_def intro: less_SucI)

lemma extends_agree: "extends h h' B \<Longrightarrow> a \<in> dom (hp_obj h) \<Longrightarrow> hp_obj h' a = hp_obj h a"
  by (simp add: extends_def)

lemma rep_extends:
  assumes "rep (hp_obj h) c v A" and "extends h h' B"
  shows "rep (hp_obj h') c v A"
  by (rule rep_frame [OF assms(1)]) (rule extends_agree [OF assms(2) subsetD [OF rep_dom [OF assms(1)]]])

lemma reps_extends:
  assumes "reps (hp_obj h) cs vs A" and "extends h h' B"
  shows "reps (hp_obj h') cs vs A"
  by (rule reps_frame [OF assms(1)]) (rule extends_agree [OF assms(2) subsetD [OF reps_dom [OF assms(1)]]])

lemma visit_value:
  "rep H c v A \<Longrightarrow> (\<And>h n. (\<And>a. a \<in> A \<Longrightarrow> hp_obj h a = H a) \<Longrightarrow> nesting v < n \<Longrightarrow> variant_visit n c h = Some (Inr v))"
  and visit_values:
  "reps H cs vs A \<Longrightarrow> (\<And>h n. (\<And>a. a \<in> A \<Longrightarrow> hp_obj h a = H a) \<Longrightarrow> (\<And>v. v \<in> set vs \<Longrightarrow> nesting v < n) \<Longrightarrow>
     visit_all n cs h = Some (Inr vs))"
proof (induction rule: rep_reps.inducts)
  case (rep_array a cs vs A)
  obtain m where n: "n = Suc m" using rep_array.prems(2) by (cases n) auto
  have "\<And>v. v \<in> set vs \<Longrightarrow> nesting v < m" using nesting_item rep_array.prems(2) n by fastforce
  then have d: "visit_all m cs h = Some (Inr vs)" using rep_array.prems(1) by (intro rep_array.IH) auto
  have "hp_obj h a = Some (H_array cs)" using rep_array.prems(1) [of a] rep_array(1) by simp
  then show ?case using d by (simp add: n at_defs)
next
  case (reps_cons c v A cs vs B)
  have "variant_visit n c h = Some (Inr v)" using reps_cons.prems by (intro reps_cons(2)) auto
  moreover have "visit_all n cs h = Some (Inr vs)" using reps_cons.prems by (intro reps_cons(4)) auto
  ultimately show ?case by simp
next
  case (rep_string a s)
  then show ?case by (cases n) (auto simp: at_defs)
next
  case (rep_blob a s)
  then show ?case by (cases n) (auto simp: at_defs)
next
  case (rep_object a s)
  then show ?case by (cases n) (auto simp: at_defs)
qed (case_tac n; simp)+

lemma new_rep:
  "heap_ok h \<Longrightarrow> extends h (snd (variant_string s h)) {hp_next h} \<and>
     rep (hp_obj (snd (variant_string s h))) (fst (variant_string s h)) (String s) {hp_next h}"
  "heap_ok h \<Longrightarrow> extends h (snd (variant_blob s h)) {hp_next h} \<and>
     rep (hp_obj (snd (variant_blob s h))) (fst (variant_blob s h)) (Blob s) {hp_next h}"
  "heap_ok h \<Longrightarrow> extends h (snd (variant_of_object m h)) {hp_next h} \<and>
     rep (hp_obj (snd (variant_of_object m h))) (fst (variant_of_object m h)) (Object m) {hp_next h}"
  using extends_new [of h]
  by (auto simp: variant_string_def variant_blob_def variant_of_object_def new_obj_def intro!: rep_intros)

lemma new_array_rep:
  assumes "heap_ok h" and "reps (hp_obj h) cs vs A"
  shows "extends h (snd (variant_array cs h)) {hp_next h} \<and>
    rep (hp_obj (snd (variant_array cs h))) (fst (variant_array cs h)) (Array vs) (insert (hp_next h) A)"
proof -
  have e: "extends h (snd (variant_array cs h)) {hp_next h}"
    using extends_new [OF assms(1), of "H_array cs"] by (simp add: variant_array_def new_obj_def)
  have "hp_next h \<notin> A" using reps_dom [OF assms(2)] assms(1) by (auto simp: heap_ok_def)
  then show ?thesis
    using e reps_extends [OF assms(2) e] by (auto simp: variant_array_def new_obj_def intro!: rep_intros)
qed

definition copied :: "heap \<Rightarrow> (slot \<times> heap) result option \<Rightarrow> variant \<Rightarrow> bool" where
  "copied h r v \<longleftrightarrow> (\<exists>c' h' A'. r = Some (Inr (c', h')) \<and> extends h h' A' \<and> rep (hp_obj h') c' v A')"

lemma copiedI: "extends h (snd ch) A \<and> rep (hp_obj (snd ch)) (fst ch) v A \<Longrightarrow> copied h (Some (Inr ch)) v"
  by (cases ch) (auto simp: copied_def)

lemmas copied_new = copiedI [OF new_rep(1)] copiedI [OF new_rep(2)] copiedI [OF new_rep(3)]

lemma copy_fresh:
  "rep H c v A \<Longrightarrow> (\<And>h n. (\<And>a. a \<in> A \<Longrightarrow> hp_obj h a = H a) \<Longrightarrow> heap_ok h \<Longrightarrow> nesting v < n \<Longrightarrow>
     copied h (variant_copy n c h) v)"
  and copy_all_fresh:
  "reps H cs vs A \<Longrightarrow> (\<And>h n. (\<And>a. a \<in> A \<Longrightarrow> hp_obj h a = H a) \<Longrightarrow> heap_ok h \<Longrightarrow> (\<And>v. v \<in> set vs \<Longrightarrow> nesting v < n) \<Longrightarrow>
     \<exists>cs' h' A'. copy_all n cs h = Some (Inr (cs', h')) \<and> extends h h' A' \<and> reps (hp_obj h') cs' vs A')"
proof (induction rule: rep_reps.inducts)
  case (rep_array a cs vs A)
  obtain m where n: "n = Suc m" using rep_array.prems(3) by (cases n) auto
  have "\<And>v. v \<in> set vs \<Longrightarrow> nesting v < m" using nesting_item rep_array.prems(3) n by fastforce
  then have "\<exists>cs' h' A'. copy_all m cs h = Some (Inr (cs', h')) \<and> extends h h' A' \<and> reps (hp_obj h') cs' vs A'"
    using rep_array.prems(1,2) by (intro rep_array.IH) auto
  then obtain cs' h' A' where c: "copy_all m cs h = Some (Inr (cs', h'))" "extends h h' A'" "reps (hp_obj h') cs' vs A'" by blast
  have ok: "heap_ok h'" using c(2) by (simp add: extends_def)
  have "hp_obj h a = Some (H_array cs)" using rep_array.prems(1) [of a] rep_array(1) by simp
  then have "variant_copy n (Slot (Ptr a) array_type) h = Some (Inr (variant_array cs' h'))" using c(1) by (simp add: n at_defs)
  moreover have "copied h (Some (Inr (variant_array cs' h'))) (Array vs)"
    using new_array_rep [OF ok c(3)] extends_trans [OF c(2), of _ "{hp_next h'}"]
    by (intro copiedI [of _ _ "A' \<union> {hp_next h'}"]) simp
  ultimately show ?case by simp
next
  case (reps_cons c v A cs vs B)
  have "copied h (variant_copy n c h) v" using reps_cons.prems by (intro reps_cons(2)) auto
  then obtain c' h1 A1 where c: "variant_copy n c h = Some (Inr (c', h1))" "extends h h1 A1" "rep (hp_obj h1) c' v A1"
    by (auto simp: copied_def)
  have "\<And>a. a \<in> B \<Longrightarrow> hp_obj h1 a = H a"
    using extends_agree [OF c(2)] reps_cons.prems(1) reps_dom [OF reps_cons(3)] by (metis UnCI domIff subsetD)
  then have "\<exists>cs' h' A'. copy_all n cs h1 = Some (Inr (cs', h')) \<and> extends h1 h' A' \<and> reps (hp_obj h') cs' vs A'"
    using reps_cons.prems c(2) by (intro reps_cons(4)) (auto simp: extends_def)
  then obtain cs' h' A' where d: "copy_all n cs h1 = Some (Inr (cs', h'))" "extends h1 h' A'" "reps (hp_obj h') cs' vs A'" by blast
  have "A1 \<inter> A' = {}" using c(2) d(2) by (auto simp: extends_def)
  then have "reps (hp_obj h') (c' # cs') (v # vs) (A1 \<union> A')" using rep_extends [OF c(3) d(2)] d(3) by (auto intro: rep_intros)
  then show ?case using c(1) d(1) extends_trans [OF c(2) d(2)] by auto
next
  case (rep_string a s)
  then show ?case by (cases n) (auto simp: at_defs intro!: copied_new)
next
  case (rep_blob a s)
  then show ?case by (cases n) (auto simp: at_defs intro!: copied_new)
next
  case (rep_object a s)
  then show ?case by (cases n) (auto simp: at_defs intro!: copied_new)
qed (case_tac n; auto simp: copied_def intro: extends_refl rep_intros)+

end
