(* ===== verification/Variant_Programs.thy ===== *)
theory Variant_Programs
  imports Variant_Memory_Correct
begin

text \<open>
  Programs over variants refine programs over values: the variables own disjoint parts of the memory and together
  all of it.
\<close>

subsection \<open>Ownership of a store\<close>

definition owned :: "store \<Rightarrow> env \<Rightarrow> (nat \<Rightarrow> nat set) \<Rightarrow> bool" where
  "owned s e own \<longleftrightarrow>
     heap_ok (st_heap s) \<and> dom (st_var s) = dom e \<and>
     (\<forall>x v. e x = Some v \<longrightarrow> rep (hp_obj (st_heap s)) (the (st_var s x)) v (own x)) \<and>
     (\<forall>x. e x = None \<longrightarrow> own x = {}) \<and> (\<forall>x y. x \<noteq> y \<longrightarrow> own x \<inter> own y = {}) \<and>
     dom (hp_obj (st_heap s)) = (\<Union>x. own x)"

lemma ownedD:
  assumes "owned s e own"
  shows "heap_ok (st_heap s)" and "dom (st_var s) = dom e" and "dom (hp_obj (st_heap s)) = (\<Union>x. own x)"
    and "e x = Some v \<Longrightarrow> rep (hp_obj (st_heap s)) (the (st_var s x)) v (own x)"
    and "e x = None \<Longrightarrow> own x = {}" and "x \<noteq> y \<Longrightarrow> own x \<inter> own y = {}"
  using assms by (simp_all add: owned_def)

lemma owned_rep:
  assumes "owned s e own" and "e x = Some v"
  obtains c where "st_var s x = Some c" and "rep (hp_obj (st_heap s)) c v (own x)"
  using assms unfolding owned_def by (metis domD domI option.sel)

lemma owned_slot:
  assumes o: "owned s e own" and "value_in l e = Some v"
  obtains c A where "slot_of l s = Inr c" and "rep (hp_obj (st_heap s)) c v A"
proof (cases l)
  case (Var x)
  obtain c where "st_var s x = Some c" "rep (hp_obj (st_heap s)) c v (own x)"
    using owned_rep [OF o, of x v] assms(2) Var by auto
  then show ?thesis using that by (simp add: Var slot_of_def)
next
  case (Elem x i)
  then obtain vs where v: "e x = Some (Array vs)" "i < length vs" "v = vs ! i"
    using assms(2) by (auto split: option.splits variant.splits if_splits)
  obtain c where c: "st_var s x = Some c" "rep (hp_obj (st_heap s)) c (Array vs) (own x)" using owned_rep [OF o v(1)] .
  obtain a cs A where a: "c = Slot (Ptr a) array_type" "hp_obj (st_heap s) a = Some (H_array cs)"
    "reps (hp_obj (st_heap s)) cs vs A" using c(2) by (cases rule: rep.cases) auto
  obtain B where "rep (hp_obj (st_heap s)) (cs ! i) (vs ! i) B" using reps_nth [OF a(3) v(2)] by blast
  then show ?thesis using that c(1) a v reps_length [OF a(3)] by (simp add: Elem slot_of_def at_defs)
qed

text \<open>One variable changes; the objects of the others stay.\<close>

lemma owned_update:
  assumes o: "owned s e own" and ok: "heap_ok h'"
    and frame: "\<And>y a. y \<noteq> x \<Longrightarrow> a \<in> own y \<Longrightarrow> hp_obj h' a = hp_obj (st_heap s) a"
    and r: "rep (hp_obj h') c v A" and fresh: "\<And>y. y \<noteq> x \<Longrightarrow> A \<inter> own y = {}"
    and d: "dom (hp_obj h') = A \<union> (\<Union>y \<in> - {x}. own y)"
  shows "owned (put_var x (c, h') s) (e(x \<mapsto> v)) (own(x := A))"
proof -
  have "rep (hp_obj h') (the (st_var s y)) w (own y)" if "y \<noteq> x" "e y = Some w" for y w
    using owned_rep [OF o that(2)] rep_frame frame [OF that(1)] by (metis option.sel)
  moreover have "(\<Union>y. (own(x := A)) y) = A \<union> (\<Union>y \<in> - {x}. own y)" by auto
  ultimately show ?thesis using o ok r fresh d unfolding owned_def put_var_def
    by (auto simp: Int_commute split: if_splits)
qed

lemma owned_clear:
  assumes o: "owned s e own" and "e x = Some v" and n: "nesting v < n"
  obtains c h' where "st_var s x = Some c" and "variant_clear n c (st_heap s) = Some (Inr (set_variant_type c null_type, h'))"
    and "owned (put_var x (set_variant_type c null_type, h') s) (e(x \<mapsto> Null)) (own(x := {}))"
proof -
  obtain c where c: "st_var s x = Some c" "rep (hp_obj (st_heap s)) c v (own x)" using owned_rep [OF assms(1,2)] .
  define h' where "h' = (st_heap s)\<lparr>hp_obj := hp_obj (st_heap s) |` (- own x)\<rparr>"
  have k: "variant_clear n c (st_heap s) = Some (Inr (set_variant_type c null_type, h'))"
    using clear_frees [OF c(2) _ n] by (simp add: h'_def)
  have apart: "own x \<inter> own y = {}" if "y \<noteq> x" for y using o that unfolding owned_def by blast
  have d: "dom (hp_obj h') = dom (hp_obj (st_heap s)) - own x" "hp_next h' = hp_next (st_heap s)" by (auto simp: h'_def)
  have "dom (hp_obj (st_heap s)) = (\<Union>y. own y)" using o by (simp add: owned_def)
  then have "dom (hp_obj h') = {} \<union> (\<Union>y \<in> - {x}. own y)" using apart unfolding d(1) by auto
  moreover have "heap_ok (st_heap s)" using o by (simp add: owned_def)
  then have "heap_ok h'" unfolding heap_ok_def d by blast
  moreover have "hp_obj h' a = hp_obj (st_heap s) a" if "y \<noteq> x" "a \<in> own y" for y a
    using apart that by (auto simp: h'_def restrict_map_def)
  ultimately have "owned (put_var x (set_variant_type c null_type, h') s) (e(x \<mapsto> Null)) (own(x := {}))"
    by (intro owned_update [OF o]) (auto simp: set_variant_type_def intro: rep_intros)
  then show thesis using that c(1) k by blast
qed

lemma owned_new:
  assumes o: "owned s e own" and "own x = {}" and "extends (st_heap s) h' A" and "rep (hp_obj h') c v A"
  shows "owned (put_var x (c, h') s) (e(x \<mapsto> v)) (own(x := A))"
proof (rule owned_update [OF o])
  have d: "dom (hp_obj (st_heap s)) = (\<Union>y. own y)" using o by (simp add: owned_def)
  have u: "(\<Union>y. own y) = (\<Union>y \<in> - {x}. own y)" using assms(2) by auto
  show "dom (hp_obj h') = A \<union> (\<Union>y \<in> - {x}. own y)" using assms(3) d u by (auto simp: extends_def)
  show "hp_obj h' a = hp_obj (st_heap s) a" if "a \<in> own y" for y a
    using extends_agree [OF assms(3), of a] d that by blast
  show "A \<inter> own y = {}" for y using assms(3) d by (auto simp: extends_def)
qed (use assms in \<open>auto simp: extends_def\<close>)

lemma owned_copy:
  assumes o: "owned s e own" and "own x = {}" and "value_in l e = Some v" and "nesting v < n"
  obtains c c' h' A where "slot_of l s = Inr c" and "variant_copy n c (st_heap s) = Some (Inr (c', h'))"
    and "owned (put_var x (c', h') s) (e(x \<mapsto> v)) (own(x := A))"
proof -
  obtain c B where c: "slot_of l s = Inr c" "rep (hp_obj (st_heap s)) c v B" using owned_slot [OF o assms(3)] .
  have "heap_ok (st_heap s)" using o by (simp add: owned_def)
  then have "copied (st_heap s) (variant_copy n c (st_heap s)) v" using copy_fresh [OF c(2) _ _ assms(4)] by blast
  then show thesis using that [OF c(1)] owned_new [OF o assms(2)] unfolding copied_def by blast
qed

lemma owned_move:
  assumes o: "owned s e own" and "own x = {}" and "x \<noteq> y" and "e y = Some v"
  obtains c where "st_var s y = Some c"
    and "owned (s\<lparr>st_var := (st_var s)(x \<mapsto> c, y \<mapsto> set_variant_type c null_type)\<rparr>) (e(x \<mapsto> v, y \<mapsto> Null))
           (own(x := own y, y := {}))"
proof -
  obtain c where c: "st_var s y = Some c" "rep (hp_obj (st_heap s)) c v (own y)" using owned_rep [OF assms(1,4)] .
  have u: "(\<Union>z. (own(x := own y, y := {})) z) = (\<Union>z. own z)" using assms(2,3) by (auto split: if_splits)
  have "owned (s\<lparr>st_var := (st_var s)(x \<mapsto> c, y \<mapsto> set_variant_type c null_type)\<rparr>) (e(x \<mapsto> v, y \<mapsto> Null))
           (own(x := own y, y := {}))"
    unfolding owned_def u using o c assms(2,3) unfolding owned_def
    by (auto simp: set_variant_type_def Int_commute intro: rep_intros)
  then show thesis using that c(1) by blast
qed

lemma reps_gather:
  assumes "\<And>y. y \<in> set ys \<Longrightarrow> rep H (c y) (v y) (own y)" and "distinct ys"
    and "\<And>x y. x \<noteq> y \<Longrightarrow> own x \<inter> own y = {}"
  shows "reps H (map c ys) (map v ys) (\<Union>y \<in> set ys. own y)"
  using assms(1,2)
proof (induction ys)
  case (Cons y ys)
  then have "own y \<inter> (\<Union>y \<in> set ys. own y) = {}" using assms(3) by fastforce
  then show ?case using Cons by (auto intro!: rep_intros)
qed (simp add: rep_intros)

text \<open>The variables in \<open>ys\<close> give up what they own.\<close>

definition gathered :: "(nat \<Rightarrow> nat set) \<Rightarrow> nat \<Rightarrow> nat list \<Rightarrow> nat \<Rightarrow> nat \<Rightarrow> nat set" where
  "gathered own x ys a = (\<lambda>y. if y = x then insert a (\<Union>y \<in> set ys. own y) else if y \<in> set ys then {} else own y)"

lemma gathered_union:
  assumes "own x = {}"
  shows "(\<Union>y. gathered own x ys a y) = insert a (\<Union>y. own y)"
proof
  show "(\<Union>y. gathered own x ys a y) \<subseteq> insert a (\<Union>y. own y)"
    by (rule UN_least) (auto simp: gathered_def)
  have "own y \<subseteq> gathered own x ys a (if y \<in> set ys then x else y)" for y using assms by (auto simp: gathered_def)
  moreover have "a \<in> gathered own x ys a x" by (simp add: gathered_def)
  ultimately show "insert a (\<Union>y. own y) \<subseteq> (\<Union>y. gathered own x ys a y)" by blast
qed

lemma gathered_apart:
  assumes "\<And>x y. x \<noteq> y \<Longrightarrow> own x \<inter> own y = {}" and "\<And>y. a \<notin> own y" and "y \<noteq> z"
  shows "gathered own x ys a y \<inter> gathered own x ys a z = {}"
proof -
  define B where "B = insert a (\<Union>y \<in> set ys. own y)"
  have u: "B \<inter> own u = {}" "own u \<inter> B = {}" if "u \<notin> set ys" for u
    unfolding B_def using assms(1) [of u] assms(2) [of u] that by fastforce+
  have yz: "own y \<inter> own z = {}" using assms(1,3) by blast
  show ?thesis unfolding gathered_def B_def [symmetric] using u yz assms(3) by simp
qed

lemma owned_array:
  assumes o: "owned s e own" and x: "e x = None" and ys: "distinct ys" "set ys \<subseteq> dom e"
  shows "\<exists>own'. owned (put_var x (variant_array (map (\<lambda>y. the (st_var s y)) ys) (st_heap s)) (moved_from ys s))
      ((\<lambda>y. if y \<in> set ys then Some Null else e y)(x \<mapsto> Array (map (\<lambda>y. the (e y)) ys))) own'"
proof -
  let ?H = "hp_obj (st_heap s)" and ?cs = "map (\<lambda>y. the (st_var s y)) ys" and ?vs = "map (\<lambda>y. the (e y)) ys"
  let ?e = "\<lambda>y. if y \<in> set ys then Some Null else e y"
  define A where "A = (\<Union>y \<in> set ys. own y)"
  note d = ownedD(3) [OF o] ownedD(1,2) [OF o] and r = ownedD(4) [OF o] and none = ownedD(5) [OF o] and apart = ownedD(6) [OF o]
  have "reps ?H ?cs ?vs A" unfolding A_def using ys r apart by (intro reps_gather) auto
  then have n: "extends (st_heap s) (snd (variant_array ?cs (st_heap s))) {hp_next (st_heap s)}"
      "rep (hp_obj (snd (variant_array ?cs (st_heap s)))) (fst (variant_array ?cs (st_heap s))) (Array ?vs)
         (insert (hp_next (st_heap s)) A)"
    using new_array_rep [OF d(2)] by blast+
  obtain c h' where ch: "variant_array ?cs (st_heap s) = (c, h')" by fastforce
  let ?own = "gathered own x ys (hp_next (st_heap s))"
  have new: "hp_next (st_heap s) \<notin> own y" for y using d(1,2) by (auto simp: heap_ok_def)
  have "rep (hp_obj h') (the (st_var (moved_from ys s) y)) v (?own y)" if y: "y \<noteq> x" "?e y = Some v" for y v
  proof (cases "y \<in> set ys")
    case True
    then obtain w where "st_var s y = Some w" using ys(2) d(3) by blast
    then show ?thesis using True y
      by (simp add: moved_from_def variant_move_def set_variant_type_def gathered_def rep_null)
  next
    case False
    then have "rep ?H (the (st_var s y)) v (own y)" using y by (intro r) simp
    then show ?thesis using y False rep_extends [OF _ n(1)] by (simp add: moved_from_def gathered_def ch)
  qed
  moreover have "dom (st_var (moved_from ys s)) = dom ?e"
    using d(3) ys(2) unfolding moved_from_def dom_def set_eq_iff by (simp add: subset_iff)
  ultimately have "owned (put_var x (c, h') (moved_from ys s)) (?e(x \<mapsto> Array ?vs)) ?own"
    using n d(1) none gathered_union [where own = own and x = x, OF none [OF x]]
      gathered_apart [where own = own and a = "hp_next (st_heap s)", OF apart new]
    unfolding owned_def put_var_def ch by (simp add: extends_def A_def gathered_def)
  then show ?thesis using ch by metis
qed

subsection \<open>One command\<close>

lemma bool_byte: "(((w :: u64) AND NOT 0xff OR of_bool b) AND 0xff \<noteq> 0) = b"
proof -
  have m: "(0xff :: u64) = mask 8" by (simp add: mask_eq_exp_minus_1)
  have "(w AND NOT (mask 8) OR of_bool b) AND mask 8 = of_bool b AND mask 8"
    by (rule bit_eqI) (auto simp: bit_simps)
  then show ?thesis unfolding m by (cases b) (simp_all add: m [symmetric])
qed

lemma rep_bool_byte: "rep H (Slot (Bits (w AND NOT 0xff OR of_bool b)) bool_type) (Bool b) {}"
  using rep_bool [of H "w AND NOT 0xff OR of_bool b"] unfolding bool_byte .

lemmas number_defs = variant_default_def variant_uint8_def variant_int8_def variant_uint16_def variant_int16_def
  variant_uint32_def variant_int32_def variant_uint64_def variant_int64_def variant_double_def set_variant_type_def

lemma construct_rep:
  assumes "heap_ok h"
  obtains c h' A where "construct mem lit h = (c, h')" and "extends h h' A" and "rep (hp_obj h') c (literal_value lit) A"
proof -
  note found = that
  have num: thesis if "construct mem lit h = (c, h)" "rep (hp_obj h) c (literal_value lit) {}" for c
    by (rule found [OF that(1) extends_refl [OF assms] that(2)])
  have new: thesis if "extends h (snd ch) A \<and> rep (hp_obj (snd ch)) (fst ch) (literal_value lit) A" "construct mem lit h = ch"
    for ch A using that found by (cases ch) auto
  show thesis
  proof (cases lit)
    case (L_bool b)
    have "rep (hp_obj h) (variant_bool mem b) (Bool b) {}"
      unfolding variant_bool_def
      by (cases "payload_of mem") (simp_all only: payload.case rep_bool_byte rep_bool_byte [of _ 0, unfolded zero_and_eq])
    then show ?thesis using L_bool by (intro num) simp_all
  next
    case (L_c_string s)
    then show ?thesis using new_rep(1) [OF assms] by (intro new) (auto simp: variant_c_string_def)
  next
    case (L_wide_string s)
    then show ?thesis using new_rep(1) [OF assms] by (intro new) (auto simp: variant_wide_string_def)
  next
    case (L_string s)
    then show ?thesis using new_rep(1) [OF assms] by (intro new) auto
  next
    case (L_blob s)
    then show ?thesis using new_rep(2) [OF assms] by (intro new) auto
  next
    case (L_object s)
    then show ?thesis using new_rep(3) [OF assms] by (intro new) auto
  qed (rule num, simp add: number_defs, simp add: rep_intros)+
qed

definition fits :: "nat \<Rightarrow> env \<Rightarrow> bool" where
  "fits n e \<longleftrightarrow> (\<forall>v \<in> ran e. nesting v < n)"

lemma fits_var: "fits n e \<Longrightarrow> e x = Some v \<Longrightarrow> nesting v < n"
  by (auto simp: fits_def ran_def)

lemma fits_value:
  assumes "fits n e" and "value_in l e = Some v"
  shows "nesting v < n"
proof (cases l)
  case (Var x)
  then show ?thesis using assms fits_var by simp
next
  case (Elem x i)
  then obtain vs where "e x = Some (Array vs)" "v \<in> set vs"
    using assms(2) by (auto split: option.splits variant.splits if_splits)
  then show ?thesis using fits_var [OF assms(1), of x] nesting_item [of v vs] by force
qed

lemma value_in_other: "lvalue_var l \<noteq> x \<Longrightarrow> value_in l (e(x := v)) = value_in l e"
  by (cases l) auto

definition simulated :: "store result option \<Rightarrow> env \<Rightarrow> bool" where
  "simulated r e \<longleftrightarrow> (\<exists>s own. r = Some (Inr s) \<and> owned s e own)"

lemma simulatedI: "owned s e own \<Longrightarrow> simulated (Some (Inr s)) e"
  by (auto simp: simulated_def)

lemma slot_of_var: "st_var s x = Some c \<Longrightarrow> slot_of (Var x) s = Inr c"
  by (simp add: slot_of_def)

lemma assign_copy_simulated:
  assumes o: "owned s e own" and n: "fits n e" and "spec (Assign x l) e = Some e'"
  shows "simulated (assign_copy n x l s) e'"
proof (cases "l = Var x")
  case True
  then show ?thesis using assms by (auto simp: assign_copy_def intro: simulatedI split: if_splits)
next
  case False
  then obtain u v where uv: "e x = Some u" "lvalue_var l \<noteq> x" "value_in l e = Some v" "e' = e(x \<mapsto> v)"
    using assms(3) by (auto split: if_splits)
  obtain c h' where c: "st_var s x = Some c" "variant_clear n c (st_heap s) = Some (Inr (set_variant_type c null_type, h'))"
    "owned (put_var x (set_variant_type c null_type, h') s) (e(x \<mapsto> Null)) (own(x := {}))" (is "owned ?s _ _")
    by (rule owned_clear [OF o uv(1) fits_var [OF n uv(1)]])
  have w: "value_in l (e(x \<mapsto> Null)) = Some v" using uv(2,3) by (simp add: value_in_other)
  obtain d d' h2 A where d: "slot_of l ?s = Inr d" "variant_copy n d (st_heap ?s) = Some (Inr (d', h2))"
    "owned (put_var x (d', h2) ?s) (e(x \<mapsto> Null, x \<mapsto> v)) (own(x := {}, x := A))"
    by (rule owned_copy [OF c(3) fun_upd_same w fits_value [OF n uv(3)]])
  then show ?thesis using False c(1,2) uv(4)
    by (auto simp: assign_copy_def opt_then_def slot_of_var Let_def intro!: simulatedI)
qed

lemma assign_move_simulated:
  assumes o: "owned s e own" and n: "fits n e" and "spec (Assign_move x y) e = Some e'"
  shows "simulated (assign_move n x y s) e'"
proof (cases "x = y")
  case True
  then show ?thesis using assms by (auto simp: assign_move_def intro: simulatedI split: if_splits)
next
  case False
  then obtain u v where uv: "e x = Some u" "e y = Some v" "e' = e(x \<mapsto> v, y \<mapsto> Null)"
    using assms(3) by (auto split: if_splits)
  obtain c h' where c: "st_var s x = Some c" "variant_clear n c (st_heap s) = Some (Inr (set_variant_type c null_type, h'))"
    "owned (put_var x (set_variant_type c null_type, h') s) (e(x \<mapsto> Null)) (own(x := {}))" (is "owned ?s _ _")
    by (rule owned_clear [OF o uv(1) fits_var [OF n uv(1)]])
  have "(e(x \<mapsto> Null)) y = Some v" using uv(2) False by simp
  then obtain d where "st_var ?s y = Some d"
    "owned (?s\<lparr>st_var := (st_var ?s)(x \<mapsto> d, y \<mapsto> set_variant_type d null_type)\<rparr>) (e(x \<mapsto> Null, x \<mapsto> v, y \<mapsto> Null))
       (own(x := {}, x := (own(x := {})) y, y := {}))"
    using owned_move [OF c(3), of x y v] False by (metis fun_upd_same)
  then show ?thesis using False c(1,2) uv(3)
    by (auto simp: assign_move_def opt_then_def slot_of_var Let_def variant_move_def intro!: simulatedI)
qed

lemma owned_destroyed:
  assumes o: "owned s e own" and "own x = {}"
  shows "owned (s\<lparr>st_var := (st_var s)(x := None)\<rparr>) (e(x := None)) own"
  using o assms(2) by (auto simp: owned_def)

lemma execute_simulated:
  assumes o: "owned s e own" and n: "fits n e" and c: "spec c e = Some e'"
  shows "simulated (execute n c s) e'"
proof (cases c)
  case (Make x mem lit)
  then have e: "e x = None" "e' = e(x \<mapsto> literal_value lit)" using c by (auto split: if_splits)
  obtain d h' A where d: "construct mem lit (st_heap s) = (d, h')" "extends (st_heap s) h' A" "rep (hp_obj h') d (literal_value lit) A"
    by (rule construct_rep [OF ownedD(1) [OF o]])
  then show ?thesis using simulatedI [OF owned_new [OF o ownedD(5) [OF o e(1)] d(2,3)]] e(2) by (simp add: Make)
next
  case (Make_array x ys)
  then show ?thesis using c owned_array [OF o, of x ys] by (auto simp: variant_move_def intro: simulatedI split: if_splits)
next
  case (Make_copy x l)
  then obtain v where v: "e x = None" "value_in l e = Some v" "e' = e(x \<mapsto> v)" using c by (auto split: if_splits)
  obtain d d' h' A where "slot_of l s = Inr d" "variant_copy n d (st_heap s) = Some (Inr (d', h'))"
    "owned (put_var x (d', h') s) (e(x \<mapsto> v)) (own(x := A))"
    by (rule owned_copy [OF o ownedD(5) [OF o v(1)] v(2) fits_value [OF n v(2)]])
  then show ?thesis using v(3) by (auto simp: Make_copy opt_then_def intro: simulatedI)
next
  case (Make_move x y)
  then obtain v where v: "e x = None" "e y = Some v" "e' = e(x \<mapsto> v, y \<mapsto> Null)" using c by (auto split: if_splits)
  then have "x \<noteq> y" by auto
  then obtain d where "st_var s y = Some d"
    "owned (s\<lparr>st_var := (st_var s)(x \<mapsto> d, y \<mapsto> set_variant_type d null_type)\<rparr>) (e(x \<mapsto> v, y \<mapsto> Null))
       (own(x := own y, y := {}))"
    by (rule owned_move [OF o ownedD(5) [OF o v(1)] _ v(2)])
  then show ?thesis using v(3) by (auto simp: Make_move on_var_def opt_then_def slot_of_var variant_move_def intro: simulatedI)
next
  case (Assign x l)
  then show ?thesis using assign_copy_simulated [OF o n] c by simp
next
  case (Assign_move x y)
  then show ?thesis using assign_move_simulated [OF o n] c by simp
next
  case (Clear x)
  then obtain v where v: "e x = Some v" "e' = e(x \<mapsto> Null)" using c by (auto split: if_splits)
  obtain d h' where "st_var s x = Some d" "variant_clear n d (st_heap s) = Some (Inr (set_variant_type d null_type, h'))"
    "owned (put_var x (set_variant_type d null_type, h') s) (e(x \<mapsto> Null)) (own(x := {}))"
    by (rule owned_clear [OF o v(1) fits_var [OF n v(1)]])
  then show ?thesis using v(2) by (auto simp: Clear on_var_def opt_then_def slot_of_var intro: simulatedI)
next
  case (Destroy x)
  then obtain v where v: "e x = Some v" "e' = e(x := None)" using c by (auto split: if_splits)
  obtain d h' where d: "st_var s x = Some d" "variant_clear n d (st_heap s) = Some (Inr (set_variant_type d null_type, h'))"
    "owned (put_var x (set_variant_type d null_type, h') s) (e(x \<mapsto> Null)) (own(x := {}))"
    by (rule owned_clear [OF o v(1) fits_var [OF n v(1)]])
  have "owned \<lparr>st_var = (st_var s)(x := None), st_heap = h'\<rparr> e' (own(x := {}))"
    using owned_destroyed [OF d(3), of x] v(2) by (cases s) (simp add: put_var_def)
  then show ?thesis using d by (auto simp: Destroy on_var_def opt_then_def slot_of_var variant_destroy_def intro: simulatedI)
qed

subsection \<open>Whole programs\<close>

lemma spec_finite: "spec c e = Some e' \<Longrightarrow> finite (dom e) \<Longrightarrow> finite (dom e')"
proof (cases c)
  case (Make_array x ys)
  assume a: "spec c e = Some e'" "finite (dom e)"
  then have "dom e' \<subseteq> insert x (set ys \<union> dom e)" using Make_array by (auto split: if_splits)
  then show ?thesis using a(2) finite_subset by blast
qed (auto split: if_splits)

lemma fits_ex: "finite (dom e) \<Longrightarrow> \<exists>N. \<forall>n \<ge> N. fits n e"
proof -
  assume "finite (dom e)"
  then have "finite (nesting ` ran e)" by (simp add: finite_ran)
  then obtain N where "\<forall>m \<in> nesting ` ran e. m < N" using finite_nat_set_iff_bounded by blast
  then show ?thesis by (intro exI [of _ N]) (auto simp: fits_def)
qed

lemma execute_all_simulated:
  "spec_all cs e = Some e' \<Longrightarrow> finite (dom e) \<Longrightarrow>
     \<exists>N. \<forall>n \<ge> N. \<forall>s own. owned s e own \<longrightarrow> simulated (execute_all n cs s) e'"
proof (induction cs arbitrary: e)
  case Nil
  then show ?case by (auto intro: simulatedI)
next
  case (Cons c cs)
  then obtain e1 where e1: "spec c e = Some e1" "spec_all cs e1 = Some e'" by (auto split: bind_splits)
  obtain N where N: "\<forall>n \<ge> N. \<forall>s own. owned s e1 own \<longrightarrow> simulated (execute_all n cs s) e'"
    using Cons.IH [OF e1(2)] spec_finite [OF e1(1) Cons.prems(2)] by blast
  obtain M where M: "\<forall>n \<ge> M. fits n e" using fits_ex [OF Cons.prems(2)] by blast
  have "simulated (execute_all n (c # cs) s) e'" if t: "n \<ge> max M N" "owned s e own" for n s own
  proof -
    have fit: "fits n e" using M t(1) by simp
    obtain s1 own1 where "execute n c s = Some (Inr s1)" "owned s1 e1 own1"
      using execute_simulated [OF t(2) fit e1(1)] by (auto simp: simulated_def)
    then show ?thesis using N t(1) by (auto simp: opt_then_def)
  qed
  then show ?case by blast
qed

text \<open>The objects a value takes.\<close>

fun objects :: "variant \<Rightarrow> nat" where
  "objects (String s) = 1"
| "objects (Blob b) = 1"
| "objects (Object kvs) = 1"
| "objects (Array vs) = Suc (sum_list (map objects vs))"
| "objects _ = 0"

lemma rep_card: "rep H c v A \<Longrightarrow> finite A \<and> card A = objects v"
  and reps_card: "reps H cs vs A \<Longrightarrow> finite A \<and> card A = sum_list (map objects vs)"
  by (induction rule: rep_reps.inducts) (auto simp: card_Un_disjoint)

lemma owned_card:
  assumes o: "owned s e own" and "finite (dom e)"
  shows "card (dom (hp_obj (st_heap s))) = (\<Sum>x \<in> dom e. objects (the (e x)))"
proof -
  have c: "finite (own x) \<and> card (own x) = objects (the (e x))" if "x \<in> dom e" for x
    using that rep_card [OF ownedD(4) [OF o]] by auto
  have "(\<Union>x. own x) = (\<Union>x \<in> dom e. own x)" using ownedD(5) [OF o] by blast
  then have "card (dom (hp_obj (st_heap s))) = card (\<Union>x \<in> dom e. own x)" using ownedD(3) [OF o] by simp
  also have "\<dots> = (\<Sum>x \<in> dom e. card (own x))"
    using assms(2) c ownedD(6) [OF o] by (intro card_UN_disjoint) auto
  finally show ?thesis using c by simp
qed

subsection \<open>Variants are values\<close>

definition store_empty :: store where
  "store_empty = \<lparr>st_var = Map.empty, st_heap = heap_empty\<rparr>"

lemma owned_empty: "owned store_empty Map.empty (\<lambda>x. {})"
  by (simp add: owned_def store_empty_def heap_empty_def heap_ok_def)

lemma spec_all_finite: "spec_all cs e = Some e' \<Longrightarrow> finite (dom e) \<Longrightarrow> finite (dom e')"
  by (induction cs arbitrary: e) (auto split: bind_splits dest: spec_finite)

lemma owned_final:
  assumes o: "owned s e own" and fit: "fits n e" and f: "finite (dom e)"
  shows "dom (st_var s) = dom e \<and>
    (\<forall>x v. e x = Some v \<longrightarrow> variant_visit n (the (st_var s x)) (st_heap s) = Some (Inr v)) \<and>
    finite (dom (hp_obj (st_heap s))) \<and> card (dom (hp_obj (st_heap s))) = (\<Sum>x \<in> dom e. objects (the (e x)))"
proof (intro conjI allI impI)
  show "variant_visit n (the (st_var s x)) (st_heap s) = Some (Inr v)" if "e x = Some v" for x v
    by (rule visit_value [OF ownedD(4) [OF o that] _ fits_var [OF fit that]]) simp
  have "dom (hp_obj (st_heap s)) \<subseteq> {..< hp_next (st_heap s)}" using ownedD(1) [OF o] unfolding heap_ok_def by blast
  then show "finite (dom (hp_obj (st_heap s)))" using finite_subset by blast
qed (use ownedD(2) [OF o] owned_card [OF o f] in simp_all)

text \<open>
  C13. A program that makes variants, copies, moves, assigns, clears and destroys them, over any number of variables,
  never uses or deletes an object that is not there, provided that it does not assign to a variant an element of its own.
  At its end every variable holds the value the same program over plain values gives it, and the memory has exactly the objects that those values
  take: nothing is shared, nothing is lost, and after the last destructor nothing is left.
\<close>

theorem variants_are_values:
  assumes "spec_all prog Map.empty = Some e"
  shows "\<exists>N. \<forall>n \<ge> N. \<exists>s. execute_all n prog store_empty = Some (Inr s) \<and> dom (st_var s) = dom e \<and>
    (\<forall>x v. e x = Some v \<longrightarrow> variant_visit n (the (st_var s x)) (st_heap s) = Some (Inr v)) \<and>
    finite (dom (hp_obj (st_heap s))) \<and>
    card (dom (hp_obj (st_heap s))) = (\<Sum>x \<in> dom e. objects (the (e x)))"
    (is "\<exists>N. \<forall>n \<ge> N. \<exists>s. ?P n s")
proof -
  have f: "finite (dom e)" using spec_all_finite [OF assms] by simp
  have "finite (dom (Map.empty :: env))" by simp
  from execute_all_simulated [OF assms this]
  obtain N where N: "\<forall>n \<ge> N. simulated (execute_all n prog store_empty) e" using owned_empty by blast
  obtain M where M: "\<forall>n \<ge> M. fits n e" using fits_ex [OF f] by blast
  have "\<exists>s. ?P n s" if n: "n \<ge> max M N" for n
  proof -
    have "simulated (execute_all n prog store_empty) e" and fit: "fits n e" using M N n by auto
    then obtain s own where s: "execute_all n prog store_empty = Some (Inr s)" "owned s e own" unfolding simulated_def by blast
    from s(1) owned_final [OF s(2) fit f] show ?thesis by blast
  qed
  then show ?thesis by (intro exI [of _ "max M N"]) simp
qed

theorem variants_are_values_witness:
  "let prog = [Make 0 (Slot (Ptr 7) null_type) (L_c_string [104, 105, 0]), Make_copy 1 (Var 0),
       Make 2 (Slot (Bits 9) null_type) (L_int8 255), Make_array 3 [1, 2], Assign 0 (Elem 3 1), Assign_move 1 3,
       Destroy 0, Destroy 2, Clear 3, Destroy 3, Destroy 1]
   in \<exists>N. \<forall>n \<ge> N. \<exists>s. execute_all n prog store_empty = Some (Inr s) \<and> dom (st_var s) = {} \<and> dom (hp_obj (st_heap s)) = {}"
proof -
  define prog where "prog = [Make 0 (Slot (Ptr 7) null_type) (L_c_string [104, 105, 0]), Make_copy 1 (Var 0),
       Make 2 (Slot (Bits 9) null_type) (L_int8 255), Make_array 3 [1, 2], Assign 0 (Elem 3 1), Assign_move 1 3,
       Destroy 0, Destroy 2, Clear 3, Destroy 3, Destroy 1]"
  have "spec_all prog Map.empty = Some Map.empty" by (auto simp: prog_def fun_eq_iff)
  from variants_are_values [OF this]
  have "\<exists>N. \<forall>n \<ge> N. \<exists>s. execute_all n prog store_empty = Some (Inr s) \<and> dom (st_var s) = {} \<and> dom (hp_obj (st_heap s)) = {}"
    by (elim ex_forward all_forward imp_forward) (auto simp: card_eq_0_iff)
  then show ?thesis by (simp only: prog_def Let_def)
qed

text \<open>
  The case left out: \<^verbatim>\<open>clear()\<close> of the target destroys the array that holds the source, which is read afterwards.
\<close>

lemma assign_own_element_undefined:
  "execute_all 5 [Make 0 (Slot (Bits 0) null_type) (L_string [104]), Make_array 1 [0], Assign 1 (Elem 1 0)] store_empty =
     Some (Inl Undefined_behaviour)"
  by (simp add: store_empty_def heap_empty_def numeral_eq_Suc put_var_def moved_from_def variant_move_def assign_copy_def
      opt_then_def slot_of_def at_defs variant_string_def variant_array_def new_obj_def set_variant_type_def)

end
