(* ===== verification/Cfile.thy ===== *)
theory Cfile
  imports Raw_Correct
begin

text \<open>
  \<^verbatim>\<open>fc/io/cfile.hpp\<close>: the wrapper of a C file and the stream that unpacks from it. The file is what the C standard
  says of a binary update stream: bytes, a position, the end-of-file flag and the direction of the last access, since a
  read may not follow a write, nor a write a read, without a flush or a seek in between. The device may be full.
\<close>

subsection \<open>C files\<close>

datatype direction = Neutral | Reading | Writing

record c_file =
  f_data :: bytes
  f_pos :: nat
  f_append :: bool
  f_eof :: bool
  f_dir :: direction
  f_limit :: nat

definition fread :: "nat \<Rightarrow> c_file \<Rightarrow> (bytes \<times> c_file) result" where
  "fread n f =
     (if n = 0 then Inr ([], f)
      else if f_dir f = Writing then Inl Undefined_behaviour
      else let d = take n (drop (f_pos f) (f_data f))
           in Inr (d, f\<lparr>f_pos := f_pos f + length d, f_eof := f_eof f \<or> length d < n, f_dir := Reading\<rparr>))"

text \<open>Bytes between the old end and the place of a write are zero.\<close>

definition put_at :: "nat \<Rightarrow> bytes \<Rightarrow> bytes \<Rightarrow> bytes" where
  "put_at p d data = take p (data @ replicate (p - length data) 0) @ d @ drop (p + length d) data"

definition fwrite :: "bytes \<Rightarrow> c_file \<Rightarrow> (nat \<times> c_file) result" where
  "fwrite d f =
     (if d = [] then Inr (0, f)
      else if f_dir f = Reading \<and> \<not> f_eof f then Inl Undefined_behaviour
      else let p = (if f_append f then length (f_data f) else f_pos f);
               w = take (f_limit f - p) d
           in Inr (length w, f\<lparr>f_data := (if w = [] then f_data f else put_at p w (f_data f)), f_pos := p + length w, f_dir := Writing\<rparr>))"

text \<open>\<^verbatim>\<open>fseek\<close> refuses a position before the start.\<close>

definition fseek :: "int \<Rightarrow> c_file \<Rightarrow> c_file option" where
  "fseek p f = (if p < 0 then None else Some (f\<lparr>f_pos := nat p, f_eof := False, f_dir := Neutral\<rparr>))"

definition fflush :: "c_file \<Rightarrow> c_file" where
  "fflush f = f\<lparr>f_dir := Neutral\<rparr>"

subsection \<open>The wrapper\<close>

record cfile =
  cf_open :: bool
  cf_blk_size :: u64
  cf_file :: "c_file option"

definition cfile_new :: cfile where
  "cfile_new = \<lparr>cf_open = False, cf_blk_size = 4096, cf_file = None\<rparr>"

text \<open>The three modes the header names. The path's contents, if any, are an argument; \<open>blk\<close> is what \<^verbatim>\<open>fstat\<close> reports.\<close>

datatype open_mode = create_or_update_rw_mode | update_rw_mode | truncate_rw_mode

definition fopen :: "open_mode \<Rightarrow> bytes option \<Rightarrow> nat \<Rightarrow> c_file option" where
  "fopen mode contents limit =
     (case mode of
        create_or_update_rw_mode \<Rightarrow>
          Some \<lparr>f_data = (case contents of Some d \<Rightarrow> d | None \<Rightarrow> []), f_pos = 0, f_append = True, f_eof = False, f_dir = Neutral, f_limit = limit\<rparr>
      | update_rw_mode \<Rightarrow>
          (case contents of None \<Rightarrow> None
           | Some d \<Rightarrow> Some \<lparr>f_data = d, f_pos = 0, f_append = False, f_eof = False, f_dir = Neutral, f_limit = limit\<rparr>)
      | truncate_rw_mode \<Rightarrow>
          Some \<lparr>f_data = [], f_pos = 0, f_append = False, f_eof = False, f_dir = Neutral, f_limit = limit\<rparr>)"

definition cf_open_file :: "open_mode \<Rightarrow> bytes option \<Rightarrow> nat \<Rightarrow> u64 option \<Rightarrow> cfile \<Rightarrow> cfile result" where
  "cf_open_file mode contents limit blk c =
     (case fopen mode contents limit of
        None \<Rightarrow> Inl Std_ios_failure
      | Some f \<Rightarrow> Inr (c\<lparr>cf_file := Some f, cf_blk_size := (case blk of Some b \<Rightarrow> b | None \<Rightarrow> 4096), cf_open := True\<rparr>))"

definition with_file :: "cfile \<Rightarrow> (c_file \<Rightarrow> 'a result) \<Rightarrow> 'a result" where
  "with_file c k = (case cf_file c of None \<Rightarrow> Inl Undefined_behaviour | Some f \<Rightarrow> k f)"

definition cf_tellp :: "cfile \<Rightarrow> u64 result" where
  "cf_tellp c = with_file c (\<lambda>f. Inr (of_nat (f_pos f)))"

definition cf_seek_to :: "int \<Rightarrow> cfile \<Rightarrow> c_file \<Rightarrow> cfile result" where
  "cf_seek_to p c f = (case fseek p f of None \<Rightarrow> Inl Std_ios_failure | Some f \<Rightarrow> Inr (c\<lparr>cf_file := Some f\<rparr>))"

definition cf_seek :: "int \<Rightarrow> cfile \<Rightarrow> cfile result" where
  "cf_seek loc c = with_file c (\<lambda>f. cf_seek_to loc c f)"

definition cf_seek_end :: "int \<Rightarrow> cfile \<Rightarrow> cfile result" where
  "cf_seek_end loc c = with_file c (\<lambda>f. cf_seek_to (int (length (f_data f)) + loc) c f)"

definition cf_skip :: "int \<Rightarrow> cfile \<Rightarrow> cfile result" where
  "cf_skip loc c = with_file c (\<lambda>f. cf_seek_to (int (f_pos f) + loc) c f)"

text \<open>A read also shows the file after an exception.\<close>

definition cf_read :: "nat \<Rightarrow> cfile \<Rightarrow> bytes result \<times> cfile" where
  "cf_read n c =
     (case with_file c (fread n) of
        Inl e \<Rightarrow> (Inl e, c)
      | Inr (d, f) \<Rightarrow> (if length d \<noteq> n then Inl Std_ios_failure else Inr d, c\<lparr>cf_file := Some f\<rparr>))"

definition cf_write :: "bytes \<Rightarrow> cfile \<Rightarrow> cfile result" where
  "cf_write d c =
     with_file c (\<lambda>f. and_then (fwrite d f) (\<lambda>(n, f).
       if n \<noteq> length d then Inl Std_ios_failure else Inr (c\<lparr>cf_file := Some f\<rparr>)))"

definition cf_flush :: "cfile \<Rightarrow> cfile result" where
  "cf_flush c = with_file c (\<lambda>f. Inr (c\<lparr>cf_file := Some (fflush f)\<rparr>))"

definition cf_eof :: "cfile \<Rightarrow> bool result" where
  "cf_eof c = with_file c (\<lambda>f. Inr (f_eof f))"

definition cf_getc :: "cfile \<Rightarrow> byte result \<times> cfile" where
  "cf_getc c =
     (case with_file c (fread 1) of
        Inl e \<Rightarrow> (Inl e, c)
      | Inr (d, f) \<Rightarrow> (if d = [] then Inl Std_ios_failure else Inr (hd d), c\<lparr>cf_file := Some f\<rparr>))"

definition cf_close :: "cfile \<Rightarrow> cfile" where
  "cf_close c = c\<lparr>cf_file := None, cf_open := False\<rparr>"

text \<open>
  \<^verbatim>\<open>fallocate\<close> with \<^verbatim>\<open>FALLOC_FL_PUNCH_HOLE\<close> and \<^verbatim>\<open>FALLOC_FL_KEEP_SIZE\<close> zeroes the range and keeps the size, or fails where
  the file system cannot (\<open>supported\<close>), which is only logged. It works on the file itself, and the flush comes after: the bytes
  at the positions \<open>late\<close>, written before and still in the C library's buffer, are written over the hole.
\<close>

definition zero_range :: "(nat \<Rightarrow> bool) \<Rightarrow> nat \<Rightarrow> nat \<Rightarrow> bytes \<Rightarrow> bytes" where
  "zero_range late b e data = map (\<lambda>i. if b \<le> i \<and> i < e \<and> \<not> late i then 0 else data ! i) [0 ..< length data]"

definition cf_punch_hole :: "bool \<Rightarrow> (nat \<Rightarrow> bool) \<Rightarrow> u64 \<Rightarrow> u64 \<Rightarrow> cfile \<Rightarrow> cfile result" where
  "cf_punch_hole supported late b0 e0 c =
     (let blk = cf_blk_size c
      in if blk = 0 then Inl Undefined_behaviour
         else let b = (if b0 mod blk \<noteq> 0 then (b0 AND NOT (blk - 1)) + blk else b0);
                  e = e0 AND NOT (blk - 1)
              in if b \<ge> e then Inr c
                 else with_file c (\<lambda>f.
                   let kept = (if f_dir f = Writing then late else (\<lambda>_. False));
                       f = (if supported then f\<lparr>f_data := zero_range kept (unat b) (unat e) (f_data f)\<rparr> else f)
                   in cf_flush (c\<lparr>cf_file := Some f\<rparr>)))"

subsection \<open>The stream for unpacking\<close>

definition thrown :: "'a result \<times> cfile \<Rightarrow> ('a \<times> cfile) result" where
  "thrown r = and_then (fst r) (\<lambda>x. Inr (x, snd r))"

definition cfds_read :: "nat \<Rightarrow> cfile \<Rightarrow> (bytes \<times> cfile) result" where
  "cfds_read s c = thrown (cf_read s c)"

definition cfds_get :: "cfile \<Rightarrow> (byte \<times> cfile) result" where
  "cfds_get c = and_then (cfds_read 1 c) (\<lambda>(d, c). Inr (hd d, c))"

text \<open>The bytes skipped go to a vector, whose first element does not exist when there are none.\<close>

definition cfds_skip :: "nat \<Rightarrow> cfile \<Rightarrow> cfile result" where
  "cfds_skip s c =
     (if s \<ge> 2 ^ 63 then Inl Std_length_error
      else if s = 0 then Inl Undefined_behaviour
      else and_then (cfds_read s c) (\<lambda>(_, c). Inr c))"

text \<open>The stream of \<^verbatim>\<open>datastream<fc::cfile>\<close>, which also writes, gets a character through \<^verbatim>\<open>getc\<close>.\<close>

definition cfs_get :: "cfile \<Rightarrow> (byte \<times> cfile) result" where
  "cfs_get c = thrown (cf_getc c)"

definition cfs_seekp :: "u64 \<Rightarrow> cfile \<Rightarrow> cfile result" where
  "cfs_seekp p c = cf_seek (sint p) c"

end
