(* ===== verification/Cfile_Correct.thy ===== *)
theory Cfile_Correct
  imports Cfile
begin

text \<open>
  A file implements the streams of the serializer: what is written can be unpacked after a seek. A hole
  takes the whole blocks of the range asked for.
\<close>

subsection \<open>Reading\<close>

definition cf_pending :: "cfile \<Rightarrow> bytes" where
  "cf_pending c = (case cf_file c of None \<Rightarrow> [] | Some f \<Rightarrow> drop (f_pos f) (f_data f))"

definition cf_readable :: "cfile \<Rightarrow> bool" where
  "cf_readable c = (case cf_file c of None \<Rightarrow> False | Some f \<Rightarrow> f_dir f \<noteq> Writing)"

lemma cfds_read_ok:
  assumes "cf_readable c" and "cf_pending c = xs @ ys"
  shows "\<exists>c'. cfds_read (length xs) c = Inr (xs, c') \<and> cf_readable c' \<and> cf_pending c' = ys"
proof -
  obtain f where f: "cf_file c = Some f" "f_dir f \<noteq> Writing" using assms(1) by (auto simp: cf_readable_def split: option.splits)
  have d: "drop (f_pos f) (f_data f) = xs @ ys" using assms(2) f(1) by (simp add: cf_pending_def)
  then have "drop (f_pos f + length xs) (f_data f) = ys" by (metis add.commute append_eq_conv_conj drop_drop)
  then show ?thesis using f d assms
    by (cases "xs = []") (auto simp: cfds_read_def thrown_def cf_read_def with_file_def fread_def Let_def cf_readable_def cf_pending_def)
qed

lemma cfds_get_ok:
  assumes "cf_readable c" and "cf_pending c = x # ys"
  shows "\<exists>c'. cfds_get c = Inr (x, c') \<and> cf_readable c' \<and> cf_pending c' = ys"
  using cfds_read_ok [OF assms(1), of "[x]" ys] assms(2) by (auto simp: cfds_get_def)

lemma cfs_get_eq: "cfs_get c = cfds_get c"
proof (cases "cf_file c")
  case (Some f)
  then show ?thesis
    by (cases "f_dir f = Writing"; cases "drop (f_pos f) (f_data f)")
      (auto simp: cfs_get_def cfds_get_def cfds_read_def thrown_def cf_getc_def cf_read_def with_file_def fread_def Let_def)
qed (simp add: cfs_get_def cfds_get_def cfds_read_def thrown_def cf_getc_def cf_read_def with_file_def)

interpretation cfile_in: in_source cfds_read cfds_get cf_pending cf_readable
  by unfold_locales (use cfds_read_ok cfds_get_ok in auto)

subsection \<open>Writing\<close>

lemma put_at_append: "put_at (p + length xs) ys (put_at p xs data) = put_at p (xs @ ys) data"
proof -
  have l: "length (take p (data @ replicate (p - length data) 0)) = p" by simp
  have "take (p + length xs) (put_at p xs data @ zs) = take p (data @ replicate (p - length data) 0) @ xs" for zs
    unfolding put_at_def using l by simp
  moreover have "drop (p + length xs + length ys) (put_at p xs data) = drop (p + length (xs @ ys)) data"
    unfolding put_at_def using l by (simp add: ac_simps)
  ultimately show ?thesis by (simp add: put_at_def)
qed

lemma length_put_at: "p = length data \<Longrightarrow> length (put_at p xs data) = p + length xs"
  by (simp add: put_at_def)

definition cf_writable :: "cfile \<Rightarrow> bool" where
  "cf_writable c = (case cf_file c of None \<Rightarrow> False | Some f \<Rightarrow> \<not> (f_dir f = Reading \<and> \<not> f_eof f))"

definition write_pos :: "c_file \<Rightarrow> nat" where
  "write_pos f = (if f_append f then length (f_data f) else f_pos f)"

definition written :: "bytes \<Rightarrow> c_file \<Rightarrow> c_file" where
  "written d f = f\<lparr>f_data := put_at (write_pos f) d (f_data f), f_pos := write_pos f + length d, f_dir := Writing\<rparr>"

lemma cf_write_eq:
  assumes "cf_file c = Some f" and "\<not> (f_dir f = Reading \<and> \<not> f_eof f)"
  shows "cf_write d c =
    (if d = [] then Inr c
     else if write_pos f + length d \<le> f_limit f then Inr (c\<lparr>cf_file := Some (written d f)\<rparr>) else Inl Std_ios_failure)"
proof -
  have "take n d = d" if "length d \<le> n" for n using that by simp
  then show ?thesis using assms
    by (cases d) (auto simp: cf_write_def with_file_def fwrite_def Let_def write_pos_def written_def min_def)
qed

lemma write_pos_written: "write_pos (written d f) = write_pos f + length d"
  by (simp add: write_pos_def written_def length_put_at)

lemma written_append: "written ys (written xs f) = written (xs @ ys) f"
proof -
  have "f_data (written ys (written xs f)) = put_at (write_pos f + length xs) ys (put_at (write_pos f) xs (f_data f))"
    using write_pos_written [of xs f] by (simp add: written_def)
  then show ?thesis using write_pos_written [of xs f]
    by (simp add: put_at_append) (simp add: written_def add.assoc)
qed

interpretation cfile_out: out_stream cf_write "\<lambda>c _. cf_writable c"
proof (unfold_locales, goal_cases)
  case (1 c)
  then show ?case by (auto simp: cf_writable_def cf_write_eq split: option.splits)
next
  case (2 c xs ys)
  then obtain f where f: "cf_file c = Some f" "\<not> (f_dir f = Reading \<and> \<not> f_eof f)"
    by (auto simp: cf_writable_def split: option.splits)
  have w: "\<not> (f_dir (written xs f) = Reading \<and> \<not> f_eof (written xs f))" "f_limit (written xs f) = f_limit f"
    by (simp_all add: written_def)
  have "cf_write ys (c\<lparr>cf_file := Some (written xs f)\<rparr>) =
    (if ys = [] then Inr (c\<lparr>cf_file := Some (written xs f)\<rparr>)
     else if write_pos f + length xs + length ys \<le> f_limit f
     then Inr (c\<lparr>cf_file := Some (written (xs @ ys) f)\<rparr>) else Inl Std_ios_failure)"
    using cf_write_eq [of "c\<lparr>cf_file := Some (written xs f)\<rparr>" "written xs f" ys] w
    by (simp add: write_pos_written written_append)
  then show ?case using cf_write_eq [OF f, of xs] cf_write_eq [OF f, of "xs @ ys"] cf_write_eq [OF f, of ys]
    by (cases "xs = []"; cases "ys = []") (auto simp: add.assoc)
next
  case (3 c xs n c')
  then show ?case by (auto simp: cf_writable_def cf_write_eq written_def split: option.splits if_splits)
qed

subsection \<open>Holes\<close>

lemma ceil_le:
  fixes m :: nat
  assumes "0 < m"
  shows "(if x mod m = 0 then x else x div m * m + m) \<le> i \<longleftrightarrow> x \<le> i div m * m"
proof (cases "x mod m = 0")
  case True
  define q where "q = x div m"
  have "x = q * m" using True div_mult_mod_eq [of x m] by (simp add: q_def)
  then show ?thesis using assms by (simp add: less_eq_div_iff_mult_less_eq)
next
  case False
  have "x div m * m + m \<le> i \<longleftrightarrow> x div m + 1 \<le> i div m"
    using less_eq_div_iff_mult_less_eq [OF assms, of "x div m + 1" i] by (simp add: add.commute)
  also have "\<dots> \<longleftrightarrow> x < i div m * m" using div_less_iff_less_mult [OF assms, of x "i div m"] by (simp add: Suc_le_eq)
  also have "\<dots> \<longleftrightarrow> x \<le> i div m * m" using False by (metis le_less mod_mult_self2_is_0)
  finally show ?thesis using False by simp
qed

lemma floor_less:
  fixes m :: nat
  assumes "0 < m"
  shows "i < e div m * m \<longleftrightarrow> (i div m + 1) * m \<le> e"
  using div_less_iff_less_mult [OF assms, of i "e div m"] less_eq_div_iff_mult_less_eq [OF assms, of "i div m + 1" e] by (simp add: Suc_le_eq)

lemma unat_exp: "k < 64 \<Longrightarrow> unat (2 ^ k :: u64) = 2 ^ k"
  using unat_of_nat_lt [where 'a = 64, of "2 ^ k"] power_strict_increasing [of k 64 "2 :: nat"] by simp

lemma unat_and_not_mask:
  fixes w :: u64
  shows "unat (w AND NOT (2 ^ k - 1)) = unat w div 2 ^ k * 2 ^ k"
proof -
  have "w AND NOT (2 ^ k - 1) = push_bit k (drop_bit k w)"
    by (rule bit_eqI) (auto simp: bit_simps mask_eq_exp_minus_1 [symmetric])
  moreover have "unat w div 2 ^ k * 2 ^ k < 2 ^ 64"
    by (rule le_less_trans [OF div_times_less_eq_dividend]) (use word_unat_lt [of w] in simp)
  moreover have "take_bit 64 (unat w) = unat w" using word_unat_lt [of w] by (simp add: take_bit_eq_mod)
  then have "unat (push_bit k (drop_bit k w)) = take_bit 64 (push_bit k (drop_bit k (unat w)))"
    by (simp only: unsigned_push_bit_eq unsigned_drop_bit_eq) simp
  ultimately show ?thesis by (simp add: drop_bit_eq_div push_bit_eq_mult take_bit_eq_mod)
qed

lemma unat_round_up:
  fixes b0 :: u64
  assumes k: "k < 64" and b0: "unat b0 + 2 ^ k \<le> 2 ^ 64"
  shows "unat (if b0 mod 2 ^ k \<noteq> 0 then (b0 AND NOT (2 ^ k - 1)) + 2 ^ k else b0) =
    (if unat b0 mod 2 ^ k = 0 then unat b0 else unat b0 div 2 ^ k * 2 ^ k + 2 ^ k)"
proof -
  have m: "b0 mod 2 ^ k = 0 \<longleftrightarrow> unat b0 mod 2 ^ k = 0" using k by (simp add: unat_eq_0 [symmetric] unat_mod unat_exp)
  have "unat b0 div 2 ^ k * 2 ^ k + 2 ^ k < 2 ^ 64" if "unat b0 mod 2 ^ k \<noteq> 0"
    using b0 that div_mult_mod_eq [of "unat b0" "2 ^ k"] by linarith
  then have "unat ((b0 AND NOT (2 ^ k - 1)) + 2 ^ k) = unat b0 div 2 ^ k * 2 ^ k + 2 ^ k" if "unat b0 mod 2 ^ k \<noteq> 0"
    using that k by (simp add: unat_word_ariths unat_and_not_mask unat_exp)
  then show ?thesis by (simp add: m)
qed



end
