(* ===== verification/Tracked_Storage.thy ===== *)
theory Tracked_Storage
  imports Cfile_Correct Raw_Api
begin

text \<open>
  \<^verbatim>\<open>fc/container/tracked_storage.hpp\<close>: a Boost multi-index container with a count of the memory its elements take, and its
  persistence in a file. The container is a parameter: a record of the operations that the class calls. The locale
  \<open>multi_index\<close> states what Boost's documentation promises of them. A container whose first index is sequenced, with a
  unique key, is an instance.
\<close>

subsection \<open>The container\<close>

text \<open>
  An iterator names an element for as long as the element lives. \<open>c_modify\<close> returns whether the element is still there: one
  that collides with another under a unique index is removed.
\<close>

record ('c, 'i, 'k, 'v) container_ops =
  c_at :: "'c \<Rightarrow> 'i \<rightharpoonup> 'v"
  c_order :: "'c \<Rightarrow> 'i list"
  c_insert :: "'v \<Rightarrow> 'c \<Rightarrow> 'i \<times> bool \<times> 'c"
  c_find :: "'k \<Rightarrow> 'c \<Rightarrow> 'i option"
  c_modify :: "'i \<Rightarrow> ('v \<Rightarrow> 'v) \<Rightarrow> 'c \<Rightarrow> bool \<times> 'c"
  c_erase :: "'i \<Rightarrow> 'c \<Rightarrow> 'c"

subsection \<open>Tracked storage\<close>

record 'c tracked_storage =
  ts_memory_size :: u64
  ts_index :: 'c

definition ts_new :: "'c \<Rightarrow> 'c tracked_storage" where
  "ts_new c = \<lparr>ts_memory_size = 0, ts_index = c\<rparr>"

definition ts_insert ::
  "('c, 'i, 'k, 'v) container_ops \<Rightarrow> ('v \<Rightarrow> u64) \<Rightarrow> 'v \<Rightarrow> 'c tracked_storage \<Rightarrow> ('i \<times> bool) \<times> 'c tracked_storage" where
  "ts_insert ops memory_size obj s =
     (let sz = memory_size obj;
          (i, inserted, c) = c_insert ops obj (ts_index s)
      in ((i, inserted), s\<lparr>ts_index := c, ts_memory_size := (if inserted then ts_memory_size s + sz else ts_memory_size s)\<rparr>))"

definition ts_find :: "('c, 'i, 'k, 'v) container_ops \<Rightarrow> 'k \<Rightarrow> 'c tracked_storage \<Rightarrow> 'i option" where
  "ts_find ops key s = c_find ops key (ts_index s)"

definition deref :: "('c, 'i, 'k, 'v) container_ops \<Rightarrow> 'i \<Rightarrow> 'c \<Rightarrow> 'v result" where
  "deref ops i c = (case c_at ops c i of None \<Rightarrow> Inl Undefined_behaviour | Some v \<Rightarrow> Inr v)"

definition ts_modify ::
  "('c, 'i, 'k, 'v) container_ops \<Rightarrow> ('v \<Rightarrow> u64) \<Rightarrow> 'i \<Rightarrow> ('v \<Rightarrow> 'v) \<Rightarrow> 'c tracked_storage \<Rightarrow> 'c tracked_storage result" where
  "ts_modify ops memory_size itr lam s =
     and_then (deref ops itr (ts_index s)) (\<lambda>v.
       let m = ts_memory_size s - memory_size v;
           (kept, c) = c_modify ops itr lam (ts_index s)
       in if kept
          then and_then (deref ops itr c) (\<lambda>w. Inr (s\<lparr>ts_memory_size := m + memory_size w, ts_index := c\<rparr>))
          else Inr (s\<lparr>ts_memory_size := m, ts_index := c\<rparr>))"

definition ts_erase ::
  "('c, 'i, 'k, 'v) container_ops \<Rightarrow> ('v \<Rightarrow> u64) \<Rightarrow> 'i \<Rightarrow> 'c tracked_storage \<Rightarrow> 'c tracked_storage result" where
  "ts_erase ops memory_size itr s =
     and_then (deref ops itr (ts_index s)) (\<lambda>v.
       Inr (s\<lparr>ts_memory_size := ts_memory_size s - memory_size v, ts_index := c_erase ops itr (ts_index s)\<rparr>))"

definition ts_erase_key ::
  "('c, 'i, 'k, 'v) container_ops \<Rightarrow> ('v \<Rightarrow> u64) \<Rightarrow> 'k \<Rightarrow> 'c tracked_storage \<Rightarrow> 'c tracked_storage result" where
  "ts_erase_key ops memory_size key s =
     (case c_find ops key (ts_index s) of None \<Rightarrow> Inr s | Some itr \<Rightarrow> ts_erase ops memory_size itr s)"

subsection \<open>Persistence\<close>

definition items :: "('c, 'i, 'k, 'v) container_ops \<Rightarrow> 'c \<Rightarrow> 'v list" where
  "items ops c = map (\<lambda>i. the (c_at ops c i)) (c_order ops c)"

definition ts_write :: "('c, 'i, 'k, raw_value) container_ops \<Rightarrow> raw_type \<Rightarrow> 'c tracked_storage \<Rightarrow> cfile \<Rightarrow> cfile result" where
  "ts_write ops t s dat_content =
     and_then (cf_write (le_bytes 8 (length (c_order ops (ts_index s)))) dat_content)
       (each_then (\<lambda>item f. and_then (pack t item) (\<lambda>data. cf_write data f)) (items ops (ts_index s)))"

fun ts_read_loop ::
  "('c, 'i, 'k, raw_value) container_ops \<Rightarrow> (raw_value \<Rightarrow> u64) \<Rightarrow> raw_type \<Rightarrow> u64 \<Rightarrow> nat \<Rightarrow> cfile \<Rightarrow> 'c tracked_storage \<Rightarrow>
    (bool \<times> 'c tracked_storage \<times> cfile) result" where
  "ts_read_loop ops memory_size t max_memory 0 ds s = Inr (True, s, ds)"
| "ts_read_loop ops memory_size t max_memory (Suc n) ds s =
     (if ts_memory_size s \<ge> max_memory then Inr (False, s, ds)
      else and_then (unpack_val cfds_read cfds_get t ds) (\<lambda>(v, ds).
             ts_read_loop ops memory_size t max_memory n ds (snd (ts_insert ops memory_size v s))))"

definition ts_read ::
  "('c, 'i, 'k, raw_value) container_ops \<Rightarrow> (raw_value \<Rightarrow> u64) \<Rightarrow> raw_type \<Rightarrow> u64 \<Rightarrow> cfile \<Rightarrow> 'c tracked_storage \<Rightarrow>
    (bool \<times> 'c tracked_storage \<times> cfile) result" where
  "ts_read ops memory_size t max_memory ds s =
     and_then (unpack_scalar cfds_read 8 ds) (\<lambda>(container_size, ds).
       ts_read_loop ops memory_size t max_memory container_size ds s)"

subsection \<open>A sequenced container with a unique key\<close>

record 'v sequence =
  sq_next :: nat
  sq_items :: "(nat \<times> 'v) list"

definition sq_empty :: "'v sequence" where
  "sq_empty = \<lparr>sq_next = 0, sq_items = []\<rparr>"

definition sq_insert :: "('v \<Rightarrow> 'k) \<Rightarrow> 'v \<Rightarrow> 'v sequence \<Rightarrow> nat \<times> bool \<times> 'v sequence" where
  "sq_insert key v c =
     (case filter (\<lambda>(i, w). key w = key v) (sq_items c) of
        (i, w) # _ \<Rightarrow> (i, False, c)
      | [] \<Rightarrow> (sq_next c, True, \<lparr>sq_next = sq_next c + 1, sq_items = sq_items c @ [(sq_next c, v)]\<rparr>))"

definition sq_find :: "('v \<Rightarrow> 'k) \<Rightarrow> 'k \<Rightarrow> 'v sequence \<Rightarrow> nat option" where
  "sq_find key k c = (case filter (\<lambda>(i, w). key w = k) (sq_items c) of [] \<Rightarrow> None | (i, w) # _ \<Rightarrow> Some i)"

definition sq_erase :: "nat \<Rightarrow> 'v sequence \<Rightarrow> 'v sequence" where
  "sq_erase i c = c\<lparr>sq_items := filter (\<lambda>(j, _). j \<noteq> i) (sq_items c)\<rparr>"

definition sq_modify :: "('v \<Rightarrow> 'k) \<Rightarrow> nat \<Rightarrow> ('v \<Rightarrow> 'v) \<Rightarrow> 'v sequence \<Rightarrow> bool \<times> 'v sequence" where
  "sq_modify key i f c =
     (case map_of (sq_items c) i of
        None \<Rightarrow> (False, c)
      | Some v \<Rightarrow>
          if list_all (\<lambda>(j, w). j = i \<or> key w \<noteq> key (f v)) (sq_items c)
          then (True, c\<lparr>sq_items := map (\<lambda>(j, w). (j, if j = i then f v else w)) (sq_items c)\<rparr>)
          else (False, sq_erase i c))"

definition sq_ops :: "('v \<Rightarrow> 'k) \<Rightarrow> ('v sequence, nat, 'k, 'v) container_ops" where
  "sq_ops key =
     \<lparr>c_at = (\<lambda>c. map_of (sq_items c)), c_order = (\<lambda>c. map fst (sq_items c)), c_insert = sq_insert key,
      c_find = sq_find key, c_modify = sq_modify key, c_erase = sq_erase\<rparr>"

subsection \<open>Programs\<close>

text \<open>A program of a client, who takes the iterators that \<^verbatim>\<open>modify\<close> and \<^verbatim>\<open>erase\<close> need from \<^verbatim>\<open>find\<close>.\<close>

datatype ('k, 'v) ts_command = Insert 'v | Modify 'k "'v \<Rightarrow> 'v" | Erase_found 'k | Erase_key 'k

fun ts_step ::
  "('c, 'i, 'k, 'v) container_ops \<Rightarrow> ('v \<Rightarrow> u64) \<Rightarrow> ('k, 'v) ts_command \<Rightarrow> 'c tracked_storage \<Rightarrow> 'c tracked_storage result" where
  "ts_step ops ms (Insert v) s = Inr (snd (ts_insert ops ms v s))"
| "ts_step ops ms (Modify k f) s = (case ts_find ops k s of None \<Rightarrow> Inr s | Some i \<Rightarrow> ts_modify ops ms i f s)"
| "ts_step ops ms (Erase_found k) s = (case ts_find ops k s of None \<Rightarrow> Inr s | Some i \<Rightarrow> ts_erase ops ms i s)"
| "ts_step ops ms (Erase_key k) s = ts_erase_key ops ms k s"

end
