(* ===== verification/Tracked_Storage_Correct.thy ===== *)
theory Tracked_Storage_Correct
  imports Tracked_Storage
begin

text \<open>
  The count is the sum of the sizes of the elements, in 64-bit arithmetic, after any sequence of operations; what is
  written to a file is read back.
\<close>

subsection \<open>What a container promises\<close>

text \<open>\<open>clash\<close>: two values that no container holds together, since they are equal under a unique index.\<close>

locale multi_index =
  fixes ops :: "('c, 'i, 'k, 'v) container_ops" and c_empty :: 'c and clash :: "'v \<Rightarrow> 'v \<Rightarrow> bool" and valid :: "'c \<Rightarrow> bool"
  assumes valid_empty: "valid c_empty" "c_at ops c_empty = Map.empty"
    and order_dom: "valid c \<Longrightarrow> distinct (c_order ops c) \<and> set (c_order ops c) = dom (c_at ops c)"
    and insert_new: "valid c \<Longrightarrow> (\<And>w. w \<in> ran (c_at ops c) \<Longrightarrow> \<not> clash v w) \<Longrightarrow>
      \<exists>i c'. c_insert ops v c = (i, True, c') \<and> valid c' \<and> c_at ops c i = None \<and> c_at ops c' = (c_at ops c)(i \<mapsto> v)"
    and insert_old: "valid c \<Longrightarrow> w \<in> ran (c_at ops c) \<Longrightarrow> clash v w \<Longrightarrow> \<exists>i. c_insert ops v c = (i, False, c)"
    and find_at: "valid c \<Longrightarrow> c_find ops k c = Some i \<Longrightarrow> i \<in> dom (c_at ops c)"
    and modify_at: "valid c \<Longrightarrow> c_at ops c i = Some v \<Longrightarrow> \<exists>kept c'. c_modify ops i f c = (kept, c') \<and> valid c' \<and>
      c_at ops c' = (if kept then (c_at ops c)(i \<mapsto> f v) else (c_at ops c)(i := None))"
    and erase_at: "valid c \<Longrightarrow> i \<in> dom (c_at ops c) \<Longrightarrow>
      valid (c_erase ops i c) \<and> c_at ops (c_erase ops i c) = (c_at ops c)(i := None)"
    and no_clash: "valid c \<Longrightarrow> c_at ops c i = Some v \<Longrightarrow> c_at ops c j = Some w \<Longrightarrow> i \<noteq> j \<Longrightarrow> \<not> clash v w"
begin

lemma finite_at: "valid c \<Longrightarrow> finite (dom (c_at ops c))"
  using order_dom by (metis List.finite_set)

definition total :: "('v \<Rightarrow> u64) \<Rightarrow> 'c \<Rightarrow> u64" where
  "total ms c = (\<Sum>i \<in> dom (c_at ops c). ms (the (c_at ops c i)))"

definition tracked :: "('v \<Rightarrow> u64) \<Rightarrow> 'c tracked_storage \<Rightarrow> bool" where
  "tracked ms s \<longleftrightarrow> valid (ts_index s) \<and> ts_memory_size s = total ms (ts_index s)"

lemma total_split:
  assumes "valid c"
  shows "total ms c = (case c_at ops c i of None \<Rightarrow> 0 | Some w \<Rightarrow> ms w) + (\<Sum>j \<in> dom (c_at ops c) - {i}. ms (the (c_at ops c j)))"
proof (cases "c_at ops c i")
  case None
  then have "dom (c_at ops c) - {i} = dom (c_at ops c)" by auto
  then show ?thesis using None by (simp add: total_def)
next
  case (Some w)
  then show ?thesis unfolding total_def
    using sum.remove [OF finite_at [OF assms], of i "\<lambda>j. ms (the (c_at ops c j))"] by (simp add: domI)
qed

lemma total_put:
  assumes "valid c" and "c_at ops c' = (c_at ops c)(i \<mapsto> v)"
  shows "total ms c' = total ms c - (case c_at ops c i of None \<Rightarrow> 0 | Some w \<Rightarrow> ms w) + ms v"
proof -
  let ?S = "\<Sum>j \<in> dom (c_at ops c) - {i}. ms (the (c_at ops c j))"
  have f: "finite (dom (c_at ops c) - {i})" using finite_at [OF assms(1)] by simp
  have "total ms c' = ms v + (\<Sum>j \<in> dom (c_at ops c) - {i}. ms (the (c_at ops c' j)))"
    unfolding total_def using f assms(2) by (simp add: sum.insert_remove [OF finite_at [OF assms(1)]])
  also have "(\<Sum>j \<in> dom (c_at ops c) - {i}. ms (the (c_at ops c' j))) = ?S" by (rule sum.cong) (auto simp: assms(2))
  finally show ?thesis using total_split [OF assms(1), of ms i] by simp
qed

lemma total_drop:
  assumes "valid c" and "c_at ops c i = Some w" and "c_at ops c' = (c_at ops c)(i := None)"
  shows "total ms c' = total ms c - ms w"
proof -
  have "total ms c' = (\<Sum>j \<in> dom (c_at ops c) - {i}. ms (the (c_at ops c j)))"
    unfolding total_def by (rule sum.cong) (auto simp: assms(3))
  then show ?thesis using total_split [OF assms(1), of ms i] assms(2) by simp
qed

lemma tracked_new: "tracked ms (ts_new c_empty)"
  by (simp add: tracked_def ts_new_def valid_empty total_def)

lemma tracked_insert:
  assumes "tracked ms s"
  shows "tracked ms (snd (ts_insert ops ms v s))"
proof (cases "\<exists>w \<in> ran (c_at ops (ts_index s)). clash v w")
  case True
  then show ?thesis using assms insert_old [of "ts_index s" _ v]
    by (fastforce simp: tracked_def ts_insert_def)
next
  case False
  then obtain i c' where c: "c_insert ops v (ts_index s) = (i, True, c')" "valid c'" "c_at ops (ts_index s) i = None"
      "c_at ops c' = (c_at ops (ts_index s))(i \<mapsto> v)"
    using assms insert_new [of "ts_index s" v] by (auto simp: tracked_def)
  then show ?thesis using assms total_put [OF _ c(4), of ms] by (simp add: tracked_def ts_insert_def)
qed

lemma tracked_modify:
  assumes "tracked ms s" and "i \<in> dom (c_at ops (ts_index s))"
  shows "\<exists>s'. ts_modify ops ms i f s = Inr s' \<and> tracked ms s'"
proof -
  obtain v where v: "c_at ops (ts_index s) i = Some v" using assms(2) by blast
  have ok: "valid (ts_index s)" using assms(1) by (simp add: tracked_def)
  obtain kept c' where c: "c_modify ops i f (ts_index s) = (kept, c')" "valid c'"
      "c_at ops c' = (if kept then (c_at ops (ts_index s))(i \<mapsto> f v) else (c_at ops (ts_index s))(i := None))"
    using modify_at [OF ok v, of f] by blast
  show ?thesis
  proof (cases kept)
    case True
    then show ?thesis using c v assms(1) total_put [OF ok, of c' i "f v" ms] by (simp add: ts_modify_def deref_def tracked_def)
  next
    case False
    then show ?thesis using c v assms(1) total_drop [OF ok v, of c' ms] by (simp add: ts_modify_def deref_def tracked_def)
  qed
qed

lemma tracked_erase:
  assumes "tracked ms s" and "i \<in> dom (c_at ops (ts_index s))"
  shows "\<exists>s'. ts_erase ops ms i s = Inr s' \<and> tracked ms s'"
proof -
  obtain v where v: "c_at ops (ts_index s) i = Some v" using assms(2) by blast
  have ok: "valid (ts_index s)" using assms(1) by (simp add: tracked_def)
  note e = erase_at [OF ok assms(2)]
  then show ?thesis using v assms(1) total_drop [OF ok v, of "c_erase ops i (ts_index s)" ms]
    by (simp add: ts_erase_def deref_def tracked_def)
qed

lemma tracked_erase_key:
  assumes "tracked ms s"
  shows "\<exists>s'. ts_erase_key ops ms k s = Inr s' \<and> tracked ms s'"
proof (cases "c_find ops k (ts_index s)")
  case (Some i)
  then show ?thesis using tracked_erase [OF assms find_at] assms by (simp add: ts_erase_key_def tracked_def)
qed (use assms in \<open>simp add: ts_erase_key_def\<close>)

lemma tracked_step:
  assumes "tracked ms s"
  shows "\<exists>s'. ts_step ops ms cmd s = Inr s' \<and> tracked ms s'"
proof -
  have at: "i \<in> dom (c_at ops (ts_index s))" if "ts_find ops k s = Some i" for k i
    using that find_at assms by (simp add: ts_find_def tracked_def)
  show ?thesis
    using assms tracked_insert [OF assms] tracked_modify [OF assms at] tracked_erase [OF assms at] tracked_erase_key [OF assms]
    by (cases cmd) (auto split: option.splits)
qed

lemma tracked_run:
  assumes "tracked ms s"
  shows "\<exists>s'. each_then (ts_step ops ms) cmds s = Inr s' \<and> tracked ms s'"
  using assms
proof (induction cmds arbitrary: s)
  case (Cons cmd cmds)
  obtain t where "ts_step ops ms cmd s = Inr t" "tracked ms t" using tracked_step [OF Cons.prems] by blast
  then show ?case using Cons.IH by simp
qed simp

lemma items_mset: "valid c \<Longrightarrow> mset (items ops c) = image_mset (\<lambda>i. the (c_at ops c i)) (mset_set (dom (c_at ops c)))"
  using order_dom [of c] by (auto simp: items_def simp flip: mset_set_set)

lemma total_items: "valid c \<Longrightarrow> total ms c = sum_list (map ms (items ops c))"
  using order_dom [of c] by (auto simp: items_def total_def o_def sum_list_distinct_conv_sum_set)

lemma set_items: "valid c \<Longrightarrow> set (items ops c) = ran (c_at ops c)"
  using order_dom [of c] by (force simp: items_def ran_def image_iff dom_def)

lemma items_apart: "valid c \<Longrightarrow> sorted_wrt (\<lambda>v w. \<not> clash w v) (items ops c)"
  unfolding items_def sorted_wrt_map
proof -
  assume c: "valid c"
  have "sorted_wrt (\<lambda>i j. \<not> clash (the (c_at ops c j)) (the (c_at ops c i))) is"
    if "distinct is" "set is \<subseteq> dom (c_at ops c)" for "is"
    using that by (induction "is") (use no_clash [OF c] in \<open>fastforce+\<close>)
  then show "sorted_wrt (\<lambda>i j. \<not> clash (the (c_at ops c j)) (the (c_at ops c i))) (c_order ops c)"
    using order_dom [OF c] by simp
qed

lemma insert_item:
  assumes "tracked ms s" and "\<And>w. w \<in> set (items ops (ts_index s)) \<Longrightarrow> \<not> clash v w"
  shows "ts_memory_size (snd (ts_insert ops ms v s)) = ts_memory_size s + ms v"
    and "mset (items ops (ts_index (snd (ts_insert ops ms v s)))) = add_mset v (mset (items ops (ts_index s)))"
proof -
  have ok: "valid (ts_index s)" using assms(1) by (simp add: tracked_def)
  obtain i c' where c: "c_insert ops v (ts_index s) = (i, True, c')" "valid c'" "c_at ops (ts_index s) i = None"
      "c_at ops c' = (c_at ops (ts_index s))(i \<mapsto> v)"
    using insert_new [OF ok, of v] assms(2) set_items [OF ok] by auto
  show "ts_memory_size (snd (ts_insert ops ms v s)) = ts_memory_size s + ms v" using c(1) by (simp add: ts_insert_def)
  have "image_mset (\<lambda>j. the (c_at ops c' j)) (mset_set (dom (c_at ops (ts_index s)))) =
      image_mset (\<lambda>j. the (c_at ops (ts_index s) j)) (mset_set (dom (c_at ops (ts_index s))))"
    using c(3,4) finite_at [OF ok] by (intro image_mset_cong) auto
  then show "mset (items ops (ts_index (snd (ts_insert ops ms v s)))) = add_mset v (mset (items ops (ts_index s)))"
    using c finite_at [OF ok] by (simp add: ts_insert_def items_mset ok domIff)
qed

end

subsection \<open>The sequenced container\<close>

definition sq_valid :: "('v \<Rightarrow> 'k) \<Rightarrow> 'v sequence \<Rightarrow> bool" where
  "sq_valid key c \<longleftrightarrow> distinct (map fst (sq_items c)) \<and> distinct (map (key \<circ> snd) (sq_items c)) \<and>
     (\<forall>i \<in> set (map fst (sq_items c)). i < sq_next c)"

lemma map_of_without: "map_of (filter (\<lambda>(j, _). j \<noteq> i) xs) = (map_of xs)(i := None)"
  by (induction xs) (auto simp: fun_eq_iff)

lemma map_of_changed:
  "i \<in> fst ` set xs \<Longrightarrow> map_of (map (\<lambda>(j, w). (j, if j = i then u else w)) xs) = (map_of xs)(i \<mapsto> u)"
proof -
  have "map_of (map (\<lambda>(j, w). (j, if j = i then u else w)) xs) j = (if j = i then map_option (\<lambda>_. u) (map_of xs i) else map_of xs j)" for j
    by (induction xs) auto
  moreover assume "i \<in> fst ` set xs"
  then have "map_of xs i \<noteq> None" by (simp add: map_of_eq_None_iff)
  ultimately show ?thesis by (auto simp: fun_eq_iff)
qed

lemma keys_changed:
  assumes ids: "distinct (map fst xs)" and keys: "distinct (map (key \<circ> snd) xs)"
    and new: "list_all (\<lambda>(j, w). j = i \<or> key w \<noteq> key u) xs"
  shows "distinct (map (key \<circ> snd) (map (\<lambda>(j, w). (j, if j = i then u else w)) xs))"
proof -
  have d: "distinct xs" using ids by (simp add: distinct_map)
  have "inj_on (\<lambda>(j, w). key (if j = i then u else w)) (set xs)"
  proof (rule inj_onI)
    fix x y
    assume xy: "x \<in> set xs" "y \<in> set xs"
      "(case x of (j, w) \<Rightarrow> key (if j = i then u else w)) = (case y of (j, w) \<Rightarrow> key (if j = i then u else w))"
    have "fst x = i \<longleftrightarrow> fst y = i" using new xy by (cases x; cases y) (fastforce simp: list_all_iff split: if_splits)
    then have "fst x = fst y \<or> key (snd x) = key (snd y)" using xy(3) by (auto split: prod.splits)
    then show "x = y" using xy(1,2) ids keys by (auto simp: distinct_map inj_on_def)
  qed
  moreover have "(key \<circ> snd) \<circ> (\<lambda>(j, w). (j, if j = i then u else w)) = (\<lambda>(j, w). key (if j = i then u else w))" by auto
  ultimately show ?thesis using d by (simp add: distinct_map del: if_split)
qed

lemma sq_at_iff: "sq_valid key c \<Longrightarrow> map_of (sq_items c) i = Some v \<longleftrightarrow> (i, v) \<in> set (sq_items c)"
  by (simp add: sq_valid_def)

lemma sq_ran: "sq_valid key c \<Longrightarrow> w \<in> ran (map_of (sq_items c)) \<longleftrightarrow> w \<in> snd ` set (sq_items c)"
  by (force simp: ran_def sq_at_iff)

lemma sq_filter_key: "filter (\<lambda>(i, w). key w = k) xs = [] \<longleftrightarrow> (\<forall>w \<in> snd ` set xs. key w \<noteq> k)"
  by (auto simp: filter_empty_conv)

lemma sq_filter_in: "filter (\<lambda>(i, w). key w = k) xs = (i, w) # ys \<Longrightarrow> (i, w) \<in> set xs"
proof -
  assume e: "filter (\<lambda>(i, w). key w = k) xs = (i, w) # ys"
  have "(i, w) \<in> set (filter (\<lambda>(i, w). key w = k) xs)" unfolding e by simp
  then show ?thesis by simp
qed

lemma sq_validI:
  "distinct (map fst xs) \<Longrightarrow> distinct (map (key \<circ> snd) xs) \<Longrightarrow> \<forall>i \<in> set (map fst xs). i < sq_next c \<Longrightarrow> sq_valid key (c\<lparr>sq_items := xs\<rparr>)"
  by (simp add: sq_valid_def)

lemma sq_erase_valid: "sq_valid key c \<Longrightarrow> sq_valid key (sq_erase i c)"
  by (auto simp: sq_valid_def sq_erase_def distinct_map inj_on_def distinct_map_filter)

interpretation sequenced: multi_index "sq_ops key" sq_empty "\<lambda>v w. key v = key w" "sq_valid key" for key :: "'v \<Rightarrow> 'k"
proof (unfold_locales, goal_cases)
  case 1
  show ?case by (simp add: sq_valid_def sq_empty_def)
next
  case 2
  show ?case by (simp add: sq_ops_def sq_empty_def)
next
  case (3 c)
  then show ?case by (simp add: sq_ops_def sq_valid_def dom_map_of_conv_image_fst)
next
  case (4 c v)
  then have "filter (\<lambda>(i, w). key w = key v) (sq_items c) = []"
    unfolding sq_filter_key using sq_ran [of key c] by (force simp: sq_ops_def)
  moreover have n: "sq_next c \<notin> fst ` set (sq_items c)" using 4(1) by (auto simp: sq_valid_def)
  moreover have "\<forall>w \<in> snd ` set (sq_items c). key w \<noteq> key v" using calculation(1) sq_filter_key by metis
  ultimately show ?case using 4(1)
    by (auto simp: sq_ops_def sq_insert_def sq_valid_def map_of_eq_None_iff map_add_def fun_eq_iff less_SucI split: option.splits)
      (metis map_of_eq_None_iff)
next
  case (5 c w v)
  then have "filter (\<lambda>(i, w). key w = key v) (sq_items c) \<noteq> []"
    unfolding sq_filter_key using sq_ran [of key c] by (auto simp: sq_ops_def)
  then show ?case by (auto simp: sq_ops_def sq_insert_def split: list.splits)
next
  case (6 c k i)
  then show ?case using sq_filter_in [of key k "sq_items c"] by (auto simp: sq_ops_def sq_find_def sq_at_iff dom_def split: list.splits)
next
  case (7 c i v f)
  show ?case
  proof (cases "list_all (\<lambda>(j, w). j = i \<or> key w \<noteq> key (f v)) (sq_items c)")
    case True
    have "i \<in> fst ` set (sq_items c)" using 7 by (force simp: sq_ops_def sq_at_iff)
    moreover have "map fst (map (\<lambda>(j, w). (j, if j = i then f v else w)) (sq_items c)) = map fst (sq_items c)" by auto
    then have "sq_valid key (c\<lparr>sq_items := map (\<lambda>(j, w). (j, if j = i then f v else w)) (sq_items c)\<rparr>)"
      using 7(1) True keys_changed [of "sq_items c" key i "f v"] unfolding sq_valid_def [of key c] by (intro sq_validI) metis+
    ultimately show ?thesis using 7 True by (simp add: sq_ops_def sq_modify_def map_of_changed) blast
  next
    case False
    then show ?thesis using 7 sq_erase_valid by (auto simp: sq_ops_def sq_modify_def sq_erase_def map_of_without)
  qed
next
  case (8 c i)
  then show ?case using sq_erase_valid by (auto simp: sq_ops_def sq_erase_def map_of_without)
next
  case (9 c i v j w)
  then show ?case by (fastforce simp: sq_ops_def sq_at_iff sq_valid_def distinct_map inj_on_def)
qed

subsection \<open>Files\<close>

lemma drop_put_at: "drop p (put_at p d data) = d @ drop (p + length d) data"
  by (simp add: put_at_def)

lemma cf_write_done:
  "cf_file c = Some f \<Longrightarrow> f_dir f \<noteq> Reading \<Longrightarrow> d \<noteq> [] \<Longrightarrow> write_pos f + length d \<le> f_limit f \<Longrightarrow>
     cf_write d c = Inr (c\<lparr>cf_file := Some (written d f)\<rparr>)"
  using cf_write_eq by simp

lemma write_items:
  assumes "wf_type t"
  shows "cf_writable f \<Longrightarrow> enc_list (enc_val t) vs = Inr bs \<Longrightarrow> length bs < 2 ^ 63 \<Longrightarrow>
    each_then (\<lambda>item f. and_then (pack t item) (\<lambda>data. cf_write data f)) vs f = cf_write bs f"
proof (induction vs arbitrary: f bs)
  case Nil
  then show ?case using cfile_out.write_nil by simp
next
  case (Cons v vs)
  then obtain xs ys where x: "enc_val t v = Inr xs" and y: "enc_list (enc_val t) vs = Inr ys" and bs: "bs = xs @ ys"
    by (auto elim!: and_then_InrE)
  have p: "pack t v = Inr xs" using pack_enc [OF assms x] Cons.prems(3) bs by simp
  have "cf_writable f'" if "cf_write xs f = Inr f'" for f' using cfile_out.room_write [OF Cons.prems(1) that] .
  then show ?case using Cons.IH [OF _ y] Cons.prems bs cfile_out.write_append [OF Cons.prems(1), of xs ys]
    by (cases "cf_write xs f") (simp_all add: p)
qed

lemma write_storage:
  assumes t: "wf_type t" and enc: "enc_list (enc_val t) (items ops (ts_index s)) = Inr bs" "length bs < 2 ^ 63"
    and f: "cf_file c = Some f" "f_dir f = Neutral" "\<not> f_append f" "f_pos f + 8 + length bs \<le> f_limit f"
  shows "\<exists>c1 c2 rest. ts_write ops t s c = Inr c1 \<and> cf_seek (int (f_pos f)) c1 = Inr c2 \<and> cf_readable c2 \<and>
    cf_pending c2 = le_bytes 8 (length (items ops (ts_index s))) @ (bs @ rest)"
proof -
  define w where "w = le_bytes 8 (length (items ops (ts_index s))) @ bs"
  let ?c1 = "c\<lparr>cf_file := Some (written w f)\<rparr>"
  let ?c2 = "c\<lparr>cf_file := Some ((written w f)\<lparr>f_pos := f_pos f, f_eof := False, f_dir := Neutral\<rparr>)\<rparr>"
  have c: "cf_writable c" using f by (simp add: cf_writable_def)
  have "cf_write xs c = Inr c' \<Longrightarrow> cf_writable c'" for c' xs using cfile_out.room_write [OF c] .
  then have "ts_write ops t s c = cf_write w c"
    using write_items [OF t _ enc] cfile_out.write_append [OF c] unfolding w_def
    by (cases "cf_write (le_bytes 8 (length (items ops (ts_index s)))) c") (simp_all add: ts_write_def items_def)
  moreover have l: "length w = 8 + length bs" by (simp add: w_def)
  then have "w \<noteq> []" "write_pos f + length w \<le> f_limit f" using f(3,4) by (auto simp: write_pos_def)
  ultimately have "ts_write ops t s c = Inr ?c1" using cf_write_done [OF f(1)] f(2) by simp
  moreover have "cf_seek (int (f_pos f)) ?c1 = Inr ?c2" by (simp add: cf_seek_def with_file_def cf_seek_to_def fseek_def)
  moreover have "cf_pending ?c2 = w @ drop (f_pos f + length w) (f_data f)"
    using f(3) by (simp add: cf_pending_def written_def write_pos_def drop_put_at)
  moreover have "cf_readable ?c2" by (simp add: cf_readable_def)
  ultimately show ?thesis unfolding w_def append_assoc by blast
qed

lemma read_items:
  assumes m: "multi_index ops c_empty clash valid" and t: "wf_type t"
  shows "multi_index.tracked ops valid ms s \<Longrightarrow> cf_readable ds \<Longrightarrow> cf_pending ds = bs @ rest \<Longrightarrow>
    enc_list (enc_val t) vs = Inr bs \<Longrightarrow> sorted_wrt (\<lambda>v w. \<not> clash w v) vs \<Longrightarrow>
    (\<forall>v \<in> set vs. \<forall>w \<in> set (items ops (ts_index s)). \<not> clash v w) \<Longrightarrow>
    unat (ts_memory_size s) + sum_list (map (\<lambda>v. unat (ms v)) vs) < unat max_memory \<Longrightarrow>
    \<exists>s' ds'. ts_read_loop ops ms t max_memory (length vs) ds s = Inr (True, s', ds') \<and>
      multi_index.tracked ops valid ms s' \<and> cf_pending ds' = rest \<and>
      mset (items ops (ts_index s')) = mset (items ops (ts_index s)) + mset vs"
proof (induction vs arbitrary: s ds bs)
  case (Cons v vs)
  obtain xs ys where x: "enc_val t v = Inr xs" and y: "enc_list (enc_val t) vs = Inr ys" and bs: "bs = xs @ ys"
    using Cons.prems(4) by (auto elim!: and_then_InrE)
  have pend: "cf_pending ds = xs @ (ys @ rest)" using Cons.prems(3) bs by simp
  obtain ds1 where u: "unpack_val cfds_read cfds_get t ds = Inr (v, ds1)" "cf_readable ds1" "cf_pending ds1 = ys @ rest"
    by (rule cfile_in.readsE [OF cfile_in.reads_val [OF t] x Cons.prems(2) pend])
  let ?s = "snd (ts_insert ops ms v s)"
  have i: "ts_memory_size ?s = ts_memory_size s + ms v"
      "mset (items ops (ts_index ?s)) = add_mset v (mset (items ops (ts_index s)))"
    using multi_index.insert_item [OF m Cons.prems(1), of v] Cons.prems(6) by simp_all
  have si: "set (items ops (ts_index ?s)) = insert v (set (items ops (ts_index s)))"
    using arg_cong [OF i(2), of set_mset] by simp
  have "unat (ts_memory_size s) + unat (ms v) < 2 ^ 64"
    using Cons.prems(7) word_unat_lt [of max_memory] by simp
  then have "unat (ts_memory_size ?s) = unat (ts_memory_size s) + unat (ms v)" by (simp add: i(1) unat_word_ariths)
  then have "\<exists>s' ds'. ts_read_loop ops ms t max_memory (length vs) ds1 ?s = Inr (True, s', ds') \<and>
      multi_index.tracked ops valid ms s' \<and> cf_pending ds' = rest \<and>
      mset (items ops (ts_index s')) = mset (items ops (ts_index ?s)) + mset vs"
    using Cons.prems u y si by (intro Cons.IH multi_index.tracked_insert [OF m]) auto
  moreover have "\<not> ts_memory_size s \<ge> max_memory" using Cons.prems(7) by (simp add: word_le_nat_alt)
  ultimately show ?case using u(1) i(2) by auto
qed simp

text \<open>
  C18. The count of a tracked storage. Whatever a client inserts, modifies and erases, in any container that behaves as Boost's
  documentation says, the operations return and the count is the sum of the sizes of the elements held, in 64-bit arithmetic;
  also when an element is refused for its key or dropped by a modification that makes it collide.
\<close>

theorem tracked_storage_counts:
  assumes "multi_index ops c_empty clash valid"
  shows "\<exists>s. each_then (ts_step ops ms) cmds (ts_new c_empty) = Inr s \<and>
    ts_memory_size s = sum_list (map ms (items ops (ts_index s)))"
  using multi_index.tracked_run [OF assms multi_index.tracked_new [OF assms], of ms cmds] multi_index.total_items [OF assms]
  unfolding multi_index.tracked_def [OF assms] by metis

theorem tracked_storage_counts_witness:
  "\<exists>s. each_then (ts_step (sq_ops fst) snd) [Insert (1 :: nat, 5), Insert (2, 7), Insert (1, 9), Modify 2 (\<lambda>(k, v). (1, v)), Erase_key 3]
       (ts_new sq_empty) = Inr s \<and>
     ts_memory_size s = sum_list (map snd (items (sq_ops fst) (ts_index s)))"
  by (rule tracked_storage_counts) (rule sequenced.multi_index_axioms)

text \<open>
  C19. Persistence. A tracked storage written to a file and read into an empty one, from the same position, is read entirely, and has the same
  elements and the same count, provided that the memory allowed is more than what the elements take.
\<close>

theorem tracked_storage_persists:
  assumes m: "multi_index ops c_empty clash valid"
    and s: "each_then (ts_step ops ms) cmds (ts_new c_empty) = Inr s"
    and t: "wf_type t" and enc: "enc_list (enc_val t) (items ops (ts_index s)) = Inr bs" "length bs < 2 ^ 63"
    and n: "length (items ops (ts_index s)) < 2 ^ 64"
    and f: "cf_file c = Some f" "f_dir f = Neutral" "\<not> f_append f" "f_pos f + 8 + length bs \<le> f_limit f"
    and mem: "sum_list (map (\<lambda>v. unat (ms v)) (items ops (ts_index s))) < unat max_memory"
  shows "\<exists>c1 c2 c3 s'. ts_write ops t s c = Inr c1 \<and> cf_seek (int (f_pos f)) c1 = Inr c2 \<and>
    ts_read ops ms t max_memory c2 (ts_new c_empty) = Inr (True, s', c3) \<and>
    mset (items ops (ts_index s')) = mset (items ops (ts_index s)) \<and> ts_memory_size s' = ts_memory_size s"
proof -
  have tr: "multi_index.tracked ops valid ms s"
    using multi_index.tracked_run [OF m multi_index.tracked_new [OF m], of ms cmds] s by simp
  then have ok: "valid (ts_index s)" by (simp add: multi_index.tracked_def [OF m])
  let ?n = "length (items ops (ts_index s))"
  obtain c1 c2 rest where c: "ts_write ops t s c = Inr c1" "cf_seek (int (f_pos f)) c1 = Inr c2" "cf_readable c2"
      "cf_pending c2 = le_bytes 8 ?n @ (bs @ rest)"
    using write_storage [OF t enc f] by blast
  have "(if ?n < 256 ^ 8 then Inr (le_bytes 8 ?n) else ill_typed) = Inr (le_bytes 8 ?n)" using n by simp
  then obtain ds where u: "unpack_scalar cfds_read 8 c2 = Inr (?n, ds)" "cf_readable ds" "cf_pending ds = bs @ rest"
    using cfile_in.readsE [OF cfile_in.reads_scalar _ c(3,4)] by metis
  have e: "items ops (ts_index (ts_new c_empty)) = []" "unat (ts_memory_size (ts_new c_empty)) = 0"
    using multi_index.order_dom [OF m multi_index.valid_empty(1) [OF m]] multi_index.valid_empty(2) [OF m]
    by (simp_all add: ts_new_def items_def)
  obtain s' c3 where r: "ts_read_loop ops ms t max_memory ?n ds (ts_new c_empty) = Inr (True, s', c3)"
      "multi_index.tracked ops valid ms s'" "mset (items ops (ts_index s')) = mset (items ops (ts_index s))"
    using read_items [OF m t multi_index.tracked_new [OF m] u(2,3) enc(1) multi_index.items_apart [OF m ok],
        where ms = ms and max_memory = max_memory] mem e by auto
  have "ts_memory_size s' = ts_memory_size s"
    using r(2,3) tr multi_index.total_items [OF m] unfolding multi_index.tracked_def [OF m]
    by (metis mset_map sum_mset_sum_list)
  moreover have "ts_read ops ms t max_memory c2 (ts_new c_empty) = Inr (True, s', c3)" using u(1) r(1) by (simp add: ts_read_def)
  ultimately show ?thesis using c(1,2) r(3) by blast
qed

theorem tracked_storage_persists_witness:
  "let key = (\<lambda>v. case v of VPair k _ \<Rightarrow> k | _ \<Rightarrow> v); ms = (\<lambda>_. 10);
       c = \<lparr>cf_open = True, cf_blk_size = 4096, cf_file = Some \<lparr>f_data = [1, 2, 3], f_pos = 1, f_append = False, f_eof = False,
              f_dir = Neutral, f_limit = 1000\<rparr>\<rparr>
   in \<exists>s c1 c2 c3 s'. each_then (ts_step (sq_ops key) ms)
         [Insert (VPair (VScalar 4) (VBool True)), Insert (VPair (VScalar 4) (VBool False)), Insert (VPair (VScalar 5) (VBool False))]
         (ts_new sq_empty) = Inr s \<and>
       ts_write (sq_ops key) (TPair (TScalar 1) TBool) s c = Inr c1 \<and> cf_seek 1 c1 = Inr c2 \<and>
       ts_read (sq_ops key) ms (TPair (TScalar 1) TBool) 21 c2 (ts_new sq_empty) = Inr (True, s', c3) \<and>
       mset (items (sq_ops key) (ts_index s')) = mset (items (sq_ops key) (ts_index s)) \<and> ts_memory_size s' = ts_memory_size s"
proof -
  define key where "key = (\<lambda>v. case v of VPair k _ \<Rightarrow> k | _ \<Rightarrow> v)"
  define ms :: "raw_value \<Rightarrow> u64" where "ms = (\<lambda>_. 10)"
  let ?f = "\<lparr>f_data = [1, 2, 3], f_pos = 1, f_append = False, f_eof = False, f_dir = Neutral, f_limit = 1000\<rparr>"
  let ?c = "\<lparr>cf_open = True, cf_blk_size = 4096, cf_file = Some ?f\<rparr>"
  let ?cmds = "[Insert (VPair (VScalar 4) (VBool True)), Insert (VPair (VScalar 4) (VBool False)), Insert (VPair (VScalar 5) (VBool False))]"
  let ?s = "\<lparr>ts_memory_size = 20, ts_index = \<lparr>sq_next = 2, sq_items = [(0, VPair (VScalar 4) (VBool True)), (1, VPair (VScalar 5) (VBool False))]\<rparr>\<rparr>"
  have s: "each_then (ts_step (sq_ops key) ms) ?cmds (ts_new sq_empty) = Inr ?s"
    by (simp add: key_def ms_def ts_insert_def ts_new_def sq_ops_def sq_insert_def sq_empty_def)
  have "items (sq_ops key) (ts_index ?s) = [VPair (VScalar 4) (VBool True), VPair (VScalar 5) (VBool False)]"
    by (simp add: items_def sq_ops_def)
  then have "\<exists>c1 c2 c3 s'. ts_write (sq_ops key) (TPair (TScalar 1) TBool) ?s ?c = Inr c1 \<and> cf_seek (int (f_pos ?f)) c1 = Inr c2 \<and>
       ts_read (sq_ops key) ms (TPair (TScalar 1) TBool) 21 c2 (ts_new sq_empty) = Inr (True, s', c3) \<and>
       mset (items (sq_ops key) (ts_index s')) = mset (items (sq_ops key) (ts_index ?s)) \<and> ts_memory_size s' = ts_memory_size ?s"
    by (intro tracked_storage_persists [OF sequenced.multi_index_axioms s, of _ "[4, 1, 5, 0]"])
      (simp_all add: ms_def enc_pair_def enc_bool_def fc_eval)
  then show ?thesis using s unfolding Let_def key_def ms_def by auto
qed

end
