(* ===== verification/Format.thy ===== *)
theory Format
  imports Json_Print
begin

text \<open>
  \<^verbatim>\<open>format_string\<close> of \<^verbatim>\<open>src/variant.cpp\<close>, which makes the text of every log message and every exception: a template in
  which \<^verbatim>\<open>${key}\<close> stands for an argument, optionally held to a size.
\<close>

definition minimize_max_size :: nat where
  "minimize_max_size = 1024"

text \<open>Positions in a string; \<open>None\<close> is \<^verbatim>\<open>npos\<close>.\<close>

definition find_from :: "byte \<Rightarrow> nat \<Rightarrow> bytes \<Rightarrow> nat option" where
  "find_from c pos s =
     (let k = pos + length (takeWhile (\<lambda>x. x \<noteq> c) (drop pos s)) in if k < length s then Some k else None)"

definition substr :: "bytes \<Rightarrow> nat \<Rightarrow> nat option \<Rightarrow> bytes result" where
  "substr s pos len =
     (if pos > length s then Inl Std_out_of_range
      else Inr (case len of None \<Rightarrow> drop pos s | Some n \<Rightarrow> take n (drop pos s)))"

definition clean_append :: "bytes \<Rightarrow> bytes \<Rightarrow> nat \<Rightarrow> nat option \<Rightarrow> bytes result" where
  "clean_append app s pos len =
     and_then (substr s pos len) (\<lambda>sub. and_then (escape_string sub (\<lambda>_. Inr ()) False) (\<lambda>e. Inr (app @ e)))"

text \<open>The check of \<^verbatim>\<open>json::to_string\<close> with a limit on the length and no deadline.\<close>

definition limit_yield :: "nat \<Rightarrow> yield_function" where
  "limit_yield max_len s = fc_assert (s \<le> max_len) (Inr ())"

definition json_to_limited_string :: "platform \<Rightarrow> nat \<Rightarrow> variant \<Rightarrow> bytes result" where
  "json_to_limited_string p max_len v = json_to_string p (limit_yield max_len) stringify_large_ints_and_doubles v"

text \<open>
  The argument of a key is appended, or it is not for its size or an exception of the generator. The space
  left is a difference in 64 bits.
\<close>

definition append_arg :: "platform \<Rightarrow> bool \<Rightarrow> nat \<Rightarrow> variant \<Rightarrow> bytes \<Rightarrow> (bool \<times> bytes) result" where
  "append_arg p minimize sub_max v result =
     (if is_object v \<or> is_array v then
        if minimize \<and> length result \<ge> minimize_max_size then Inr (False, result)
        else (case json_to_limited_string p (if minimize then sub_max else 2 ^ 64 - 1) v of
                Inr s \<Rightarrow> Inr (True, result @ s)
              | Inl Undefined_behaviour \<Rightarrow> Inl Undefined_behaviour
              | Inl _ \<Rightarrow> Inr (False, result))
      else (case v of
        Blob d \<Rightarrow>
          if minimize \<and> length d > sub_max then Inr (False, result)
          else and_then (as_string p v) (\<lambda>s. and_then (clean_append result s 0 None) (\<lambda>r. Inr (True, r)))
      | String s \<Rightarrow>
          if minimize \<and> length s > sub_max
          then let sz = min sub_max (unat (of_nat minimize_max_size - of_nat (length result) :: u64))
               in and_then (clean_append result s 0 (Some sz)) (\<lambda>r. Inr (True, r @ ascii ''...''))
          else and_then (clean_append result s 0 None) (\<lambda>r. Inr (True, r))
      | _ \<Rightarrow> and_then (as_string p v) (\<lambda>s. and_then (clean_append result s 0 None) (\<lambda>r. Inr (True, r)))))"

definition append_key :: "platform \<Rightarrow> bool \<Rightarrow> nat \<Rightarrow> (bytes \<times> variant) list \<Rightarrow> bytes \<Rightarrow> bytes \<Rightarrow> bytes result" where
  "append_key p minimize sub_max args key result =
     and_then (case map_of args key of None \<Rightarrow> Inr (False, result) | Some v \<Rightarrow> append_arg p minimize sub_max v result)
       (\<lambda>(replaced, result).
          if replaced then Inr result
          else and_then (clean_append (result @ ascii ''${'') key 0 None) (\<lambda>r. Inr (r @ ascii ''}'')))"

text \<open>
  The loop. At its head the position of the next \<^verbatim>\<open>$\<close> is the first one from \<open>prev\<close> on, or none after
  a brace that does not close (\<open>searching\<close>).
\<close>

function format_loop :: "platform \<Rightarrow> bool \<Rightarrow> nat \<Rightarrow> (bytes \<times> variant) list \<Rightarrow> bytes \<Rightarrow> nat \<Rightarrow> bool \<Rightarrow> bytes \<Rightarrow> bytes result" where
  "format_loop p minimize sub_max args format prev searching result =
     (if prev < length format then
        let next = (if searching then find_from 0x24 prev format else None)
        in and_then (clean_append result format prev (map_option (\<lambda>n. n - prev) next)) (\<lambda>result.
             case next of
               None \<Rightarrow> Inr result
             | Some n \<Rightarrow>
                 if minimize \<and> length result > minimize_max_size then Inr (result @ ascii ''...'')
                 else if n + 1 < length format \<and> format ! (n + 1) = 0x7b then
                   (case find_from 0x7d (n + 1) format of
                      Some close \<Rightarrow>
                        and_then (substr format (n + 2) (Some (close - (n + 1) - 1))) (\<lambda>key.
                          and_then (append_key p minimize sub_max args key result)
                            (format_loop p minimize sub_max args format (close + 1) True))
                    | None \<Rightarrow> format_loop p minimize sub_max args format (n + 1) False result)
                 else and_then (clean_append result format (n + 1) (Some 1))
                        (format_loop p minimize sub_max args format (n + 2) True))
      else Inr result)"
  by pat_completeness auto
termination
  by (relation "measure (\<lambda>(_, _, _, _, format, prev, _, _). length format - prev)")
    (auto simp: find_from_def Let_def split: if_splits)

declare format_loop.simps [simp del]

definition format_string :: "platform \<Rightarrow> bytes \<Rightarrow> (bytes \<times> variant) list \<Rightarrow> bool \<Rightarrow> bytes result" where
  "format_string p frmt args minimize =
     (let format = (if minimize \<and> length frmt > minimize_max_size then take minimize_max_size frmt @ ascii ''...'' else frmt);
          arg_num = (if length args = 0 then 1 else length args);
          max_format_size = max minimize_max_size (length format);
          minimize_sub_max_size = (if minimize then (max_format_size - length format) div arg_num else minimize_max_size)
      in format_loop p minimize minimize_sub_max_size args format 0 True [])"

end
