(* ===== verification/Exceptions.thy ===== *)
theory Exceptions
  imports Time Format
begin

text \<open>
  Log messages and exceptions: \<^verbatim>\<open>src/log/log_message.cpp\<close> and \<^verbatim>\<open>src/exception.cpp\<close>. An exception carries the messages
  of the places it passed; it crosses process boundaries as a variant and is thrown again as the class of its code. A context is the object that the
  handles of the class share.
\<close>

subsection \<open>Log messages\<close>

datatype log_level = ll_all | ll_debug | ll_info | ll_warn | ll_error | ll_off

record log_context =
  lc_level :: log_level
  lc_file :: bytes
  lc_line :: u64
  lc_method :: bytes
  lc_thread_name :: bytes
  lc_task_name :: bytes
  lc_hostname :: bytes
  lc_context :: bytes
  lc_timestamp :: time_point

record log_message =
  lm_context :: log_context
  lm_format :: bytes
  lm_args :: "(bytes \<times> variant) list"

fun log_level_to_string :: "log_level \<Rightarrow> bytes" where
  "log_level_to_string ll_all = ascii ''all''"
| "log_level_to_string ll_debug = ascii ''debug''"
| "log_level_to_string ll_info = ascii ''info''"
| "log_level_to_string ll_warn = ascii ''warn''"
| "log_level_to_string ll_error = ascii ''error''"
| "log_level_to_string ll_off = ascii ''off''"

fun log_level_to_variant :: "log_level \<Rightarrow> variant" where
  "log_level_to_variant ll_all = String (ascii ''all'')"
| "log_level_to_variant ll_debug = String (ascii ''debug'')"
| "log_level_to_variant ll_info = String (ascii ''info'')"
| "log_level_to_variant ll_warn = String (ascii ''warn'')"
| "log_level_to_variant ll_error = String (ascii ''error'')"
| "log_level_to_variant ll_off = String (ascii ''off'')"

definition log_level_from_variant :: "platform \<Rightarrow> variant \<Rightarrow> log_level result" where
  "log_level_from_variant p v =
     and_then (as_string p v) (\<lambda>s.
       if s = ascii ''all'' then Inr ll_all
       else if s = ascii ''debug'' then Inr ll_debug
       else if s = ascii ''info'' then Inr ll_info
       else if s = ascii ''warn'' then Inr ll_warn
       else if s = ascii ''error'' then Inr ll_error
       else if s = ascii ''off'' then Inr ll_off
       else Inl Bad_cast)"

definition log_context_to_string :: "log_context \<Rightarrow> bytes" where
  "log_context_to_string c =
     lc_thread_name c @ ascii ''  '' @ lc_file c @ ascii '':'' @ dec (unat (lc_line c)) @ ascii '' '' @ lc_method c"

definition append_context :: "bytes \<Rightarrow> log_context \<Rightarrow> log_context" where
  "append_context s c = c\<lparr>lc_context := (if lc_context c \<noteq> [] then lc_context c @ ascii '' -> '' else lc_context c) @ s\<rparr>"

text \<open>\<^verbatim>\<open>obj[key]\<close> throws for a key that is not there.\<close>

definition obj_member :: "(bytes \<times> variant) list \<Rightarrow> string \<Rightarrow> (variant \<Rightarrow> 'a result) \<Rightarrow> 'a result" where
  "obj_member obj k f = (case map_of obj (ascii k) of None \<Rightarrow> Inl Key_not_found | Some v \<Rightarrow> f v)"

definition opt_member :: "(bytes \<times> variant) list \<Rightarrow> string \<Rightarrow> 'a \<Rightarrow> (variant \<Rightarrow> 'a result) \<Rightarrow> 'a result" where
  "opt_member obj k d f = (case map_of obj (ascii k) of None \<Rightarrow> Inr d | Some v \<Rightarrow> f v)"

definition log_context_to_variant :: "posix_lib \<Rightarrow> log_context \<Rightarrow> variant" where
  "log_context_to_variant lib c =
     Object ([(ascii ''level'', log_level_to_variant (lc_level c)), (ascii ''file'', String (lc_file c)), (ascii ''line'', Uint64 (lc_line c)),
       (ascii ''method'', String (lc_method c)), (ascii ''hostname'', String (lc_hostname c)),
       (ascii ''thread_name'', String (lc_thread_name c)), (ascii ''timestamp'', tp_to_variant lib (lc_timestamp c))] @
       (if lc_context c \<noteq> [] then [(ascii ''context'', String (lc_context c))] else []))"

definition log_context_from_variant :: "platform \<Rightarrow> posix_lib \<Rightarrow> variant \<Rightarrow> log_context result" where
  "log_context_from_variant p lib v =
     and_then (get_object v) (\<lambda>obj.
     and_then (obj_member obj ''level'' (log_level_from_variant p)) (\<lambda>level.
     and_then (obj_member obj ''file'' (as_string p)) (\<lambda>file.
     and_then (obj_member obj ''line'' (as_uint64 p)) (\<lambda>line.
     and_then (obj_member obj ''method'' (as_string p)) (\<lambda>mth.
     and_then (obj_member obj ''hostname'' (as_string p)) (\<lambda>hostname.
     and_then (obj_member obj ''thread_name'' (as_string p)) (\<lambda>thread_name.
     and_then (opt_member obj ''task_name'' [] (as_string p)) (\<lambda>task_name.
     and_then (obj_member obj ''timestamp'' (tp_from_variant p lib)) (\<lambda>timestamp.
     and_then (opt_member obj ''context'' [] (as_string p)) (\<lambda>ctx.
       Inr \<lparr>lc_level = level, lc_file = file, lc_line = line, lc_method = mth, lc_thread_name = thread_name, lc_task_name = task_name,
         lc_hostname = hostname, lc_context = ctx, lc_timestamp = timestamp\<rparr>))))))))))"

definition log_message_to_variant :: "posix_lib \<Rightarrow> log_message \<Rightarrow> variant" where
  "log_message_to_variant lib m =
     Object [(ascii ''context'', log_context_to_variant lib (lm_context m)), (ascii ''format'', String (lm_format m)),
       (ascii ''data'', Object (lm_args m))]"

definition log_message_from_variant :: "platform \<Rightarrow> posix_lib \<Rightarrow> variant \<Rightarrow> log_message result" where
  "log_message_from_variant p lib v =
     and_then (get_object v) (\<lambda>obj.
     and_then (obj_member obj ''context'' (log_context_from_variant p lib)) (\<lambda>ctx.
     and_then (obj_member obj ''format'' (as_string p)) (\<lambda>format.
     and_then (obj_member obj ''data'' get_object) (\<lambda>args.
       Inr \<lparr>lm_context = ctx, lm_format = format, lm_args = args\<rparr>))))"

definition get_message :: "platform \<Rightarrow> log_message \<Rightarrow> bytes result" where
  "get_message p m = format_string p (lm_format m) (lm_args m) False"

definition get_limited_message :: "platform \<Rightarrow> log_message \<Rightarrow> bytes result" where
  "get_limited_message p m = format_string p (lm_format m) (lm_args m) True"

subsection \<open>Exceptions\<close>

record exception_impl =
  ex_name :: bytes
  ex_what :: bytes
  ex_code :: u64
  ex_elog :: "log_message list"

definition append_log :: "log_message \<Rightarrow> exception_impl \<Rightarrow> exception_impl" where
  "append_log m e = e\<lparr>ex_elog := ex_elog e @ [m]\<rparr>"

text \<open>The name and the text go through \<^verbatim>\<open>name()\<close> and \<^verbatim>\<open>what()\<close>, which are C strings.\<close>

definition exception_to_variant :: "posix_lib \<Rightarrow> exception_impl \<Rightarrow> variant result" where
  "exception_to_variant lib e =
     and_then (to_variant_vector (log_message_to_variant lib) (ex_elog e)) (\<lambda>stack.
       Inr (Object [(ascii ''code'', Int64 (ex_code e)), (ascii ''name'', String (c_str (ex_name e))),
         (ascii ''message'', String (c_str (ex_what e))), (ascii ''stack'', stack)]))"

definition exception_from_variant :: "platform \<Rightarrow> posix_lib \<Rightarrow> variant \<Rightarrow> exception_impl \<Rightarrow> exception_impl result" where
  "exception_from_variant p lib v ll =
     and_then (get_object v) (\<lambda>obj.
     and_then (opt_member obj ''stack'' (ex_elog ll) (from_variant_vector (log_message_from_variant p lib))) (\<lambda>elog.
     and_then (opt_member obj ''code'' (ex_code ll) (as_int64 p)) (\<lambda>code.
     and_then (opt_member obj ''name'' (ex_name ll) (as_string p)) (\<lambda>name.
     and_then (opt_member obj ''message'' (ex_what ll) (as_string p)) (\<lambda>what.
       Inr \<lparr>ex_name = name, ex_what = what, ex_code = code, ex_elog = elog\<rparr>)))))"

text \<open>\<open>late i\<close>: the time limit has passed at message \<open>i\<close>.\<close>

fun report_loop :: "platform \<Rightarrow> (nat \<Rightarrow> bool) \<Rightarrow> nat \<Rightarrow> log_message list \<Rightarrow> bytes \<Rightarrow> bytes" where
  "report_loop p late i [] ss = ss"
| "report_loop p late i (m # ms) ss =
     (if late i then ss @ ascii ''<- timeout exception in to_string: '' @ ascii ''Timeout''
      else report_loop p late (i + 1) ms
        (case get_limited_message p m of
           Inr s \<Rightarrow> ss @ s @ [0x0a]
         | Inl _ \<Rightarrow> ss @ ascii ''<- exception in to_string.'' @ [0x0a]))"

definition exception_to_string :: "platform \<Rightarrow> (nat \<Rightarrow> bool) \<Rightarrow> exception_impl \<Rightarrow> bytes" where
  "exception_to_string p late e =
     report_loop p late 0 (ex_elog e) (ex_what e @ ascii '' ('' @
       (case as_string p (Int64 (ex_code e)) of Inr s \<Rightarrow> s @ ascii '')'' @ [0x0a] | Inl _ \<Rightarrow> ascii ''<- exception in to_string.'' @ [0x0a]))"

fun top_message_loop :: "platform \<Rightarrow> log_message list \<Rightarrow> bytes result" where
  "top_message_loop p [] = Inr []"
| "top_message_loop p (m # ms) = and_then (get_message p m) (\<lambda>s. if s \<noteq> [] then Inr s else top_message_loop p ms)"

definition top_message :: "platform \<Rightarrow> exception_impl \<Rightarrow> bytes result" where
  "top_message p e = top_message_loop p (ex_elog e)"

subsection \<open>Classes\<close>

fun code_value :: "exception_code \<Rightarrow> u64" where
  "code_value unspecified_exception_code = 0"
| "code_value unhandled_exception_code = 1"
| "code_value timeout_exception_code = 2"
| "code_value file_not_found_exception_code = 3"
| "code_value parse_error_exception_code = 4"
| "code_value invalid_arg_exception_code = 5"
| "code_value key_not_found_exception_code = 6"
| "code_value bad_cast_exception_code = 7"
| "code_value out_of_range_exception_code = 8"
| "code_value canceled_exception_code = 9"
| "code_value assert_exception_code = 10"
| "code_value eof_exception_code = 11"
| "code_value std_exception_code = 13"
| "code_value invalid_operation_exception_code = 14"
| "code_value unknown_host_exception_code = 15"
| "code_value null_optional_code = 16"
| "code_value udt_error_code = 17"
| "code_value aes_error_code = 18"
| "code_value overflow_code = 19"
| "code_value underflow_code = 20"
| "code_value divide_by_zero_code = 21"

text \<open>A class is named by its code. These are registered, in this order.\<close>

definition registered :: "exception_code list" where
  "registered =
     [timeout_exception_code, file_not_found_exception_code, parse_error_exception_code, invalid_arg_exception_code,
      invalid_operation_exception_code, key_not_found_exception_code, bad_cast_exception_code, out_of_range_exception_code,
      canceled_exception_code, assert_exception_code, eof_exception_code, unknown_host_exception_code, null_optional_code,
      udt_error_code, aes_error_code, overflow_code, underflow_code, divide_by_zero_code]"

text \<open>The class thrown; \<open>None\<close> is \<^verbatim>\<open>fc::exception\<close> itself. Every class copies the exception unchanged.\<close>

definition factory_rethrow :: "exception_impl \<Rightarrow> exception_code option" where
  "factory_rethrow e = find (\<lambda>c. code_value c = ex_code e) registered"

definition dynamic_rethrow :: "exception_code option \<Rightarrow> exception_impl \<Rightarrow> exception_code option" where
  "dynamic_rethrow cls e =
     (case cls of
        None \<Rightarrow> factory_rethrow e
      | Some c \<Rightarrow> if ex_code e = code_value c then Some c else factory_rethrow e)"

end
