(* ===== verification/Format_Correct.thy ===== *)
theory Format_Correct
  imports Format Json_Roundtrip
begin

text \<open>
  Every template with every arguments gives a text, and the text is valid UTF-8; a template made of literal pieces and holes
  gives the pieces with the holes filled.
\<close>

subsection \<open>Valid text\<close>

definition good_text :: "bytes \<Rightarrow> bool" where
  "good_text s \<longleftrightarrow> is_valid_utf8 s = Inr True"

lemma good_append: "good_text s \<Longrightarrow> good_text t \<Longrightarrow> good_text (s @ t)"
proof -
  assume "good_text s" "good_text t"
  then obtain cs ds where "list_all (\<lambda>cp. is_code_point_valid cp \<and> \<not> c1_control cp) (cs @ ds)" "s @ t = encodes (cs @ ds)"
    by (auto simp: good_text_def is_valid_utf8_iff)
  then show ?thesis unfolding good_text_def is_valid_utf8_iff by blast
qed

lemma good_ascii: "list_all (\<lambda>b. unat b < 128) s \<Longrightarrow> good_text s"
  using ascii_encodes [of s] unfolding good_text_def is_valid_utf8_iff by blast

lemma good_literals [simp]:
  "good_text []" "good_text (ascii ''...'')" "good_text (ascii ''${'')" "good_text (ascii ''}'')" "good_text (ascii ''null'')"
  "good_text (ascii ''true'')" "good_text (ascii ''false'')"
  by (rule good_ascii; simp add: ascii_def)+

lemma good_byte: "unat b < 128 \<Longrightarrow> good_text [b]"
  by (rule good_ascii) simp

definition limiting :: "yield_function \<Rightarrow> bool" where
  "limiting yield \<longleftrightarrow> (\<forall>n. yield n = Inr () \<or> yield n = Inl Assert_failed)"

lemma limitingD: "limiting yield \<Longrightarrow> yield n = Inr () \<or> yield n = Inl Assert_failed"
  by (simp add: limiting_def)

text \<open>A step of the generator: text after text, or the exception of the check.\<close>

definition good_step :: "bytes result \<Rightarrow> bool" where
  "good_step r = (case r of Inl e \<Rightarrow> e = Assert_failed | Inr s \<Rightarrow> good_text s)"

lemma good_step_simps [simp]: "good_step (Inl e) \<longleftrightarrow> e = Assert_failed" "good_step (Inr s) \<longleftrightarrow> good_text s"
  by (simp_all add: good_step_def)

lemma good_then: "good_step r \<Longrightarrow> (\<And>s. good_text s \<Longrightarrow> good_step (f s)) \<Longrightarrow> good_step (and_then r f)"
  by (cases r) simp_all

lemma good_yield: "limiting yield \<Longrightarrow> (yield n = Inr () \<Longrightarrow> good_step r) \<Longrightarrow> good_step (and_then (yield n) (\<lambda>_. r))"
  by (auto simp: limiting_def dest: spec [of _ n])

lemma good_prune: "good_step (and_then (is_valid_utf8 r) (\<lambda>valid. if valid then Inr r else prune_invalid_utf8 r))"
  using prune_invalid_utf8_eq [of r] by (simp add: is_valid_utf8_eq good_text_def)

lemma good_escape:
  assumes "limiting yield"
  shows "good_step (escape_string s yield esc)"
proof -
  have "escape_loop yield esc sz i r t = Inl Assert_failed \<or> (\<exists>r'. escape_loop yield esc sz i r t = Inr r')" for sz i r t
  proof (induction t arbitrary: i r)
    case (Cons c t)
    show ?case using Cons.IH [of "i + 1" "r @ escape_char esc c"] limitingD [OF assms, of "sz + length r"] by (auto split: if_splits)
  qed simp
  from this [of "length s" 0 "[]" s] show ?thesis using good_prune by (auto simp: escape_string_def)
qed

subsection \<open>The generator\<close>

text \<open>What the text of a number must be.\<close>

definition shows_text :: "platform \<Rightarrow> bool" where
  "shows_text p \<longleftrightarrow> (\<forall>w. good_text (show_int64 p w) \<and> good_text (show_uint64 p w) \<and> good_text (show_double p w))"

lemma good_dec: "good_text (dec n)"
  using dec_digits [of n]
  by (intro good_ascii) (auto simp: list_all_iff is_digit_def word_le_nat_alt elim!: ballE)

lemma good_dec_int: "good_text (dec_int i)"
  using good_append [OF good_byte good_dec, of "0x2d"] good_dec by (simp add: dec_int_def)

lemma good_quoted: "good_text s \<Longrightarrow> good_text (quoted s)"
  unfolding quoted_def by (intro good_append good_byte) simp_all

lemma good_scalar:
  assumes "shows_text p" and "limiting yield" and "good_text os"
  shows "good_step (scalar_to_stream p yield format v os)"
  using assms good_dec good_dec_int
  by (cases v) (auto simp: shows_text_def intro!: good_append good_quoted good_then [OF good_escape])

lemma good_put: "good_text os \<Longrightarrow> unat c < 128 \<Longrightarrow> good_text (os @ [c])"
  by (intro good_append good_byte)

lemma good_to_stream:
  "shows_text p \<Longrightarrow> limiting yield \<Longrightarrow> good_text os \<Longrightarrow> good_step (to_stream p yield format v os)"
  "shows_text p \<Longrightarrow> limiting yield \<Longrightarrow> good_text os \<Longrightarrow> good_step (variants_to_stream p yield format vs os)"
  "shows_text p \<Longrightarrow> limiting yield \<Longrightarrow> good_text os \<Longrightarrow> good_step (entries_to_stream p yield format kvs os)"
proof (induction p yield format v os and p yield format vs os and p yield format kvs os
    rule: to_stream_variants_to_stream_entries_to_stream.induct)
  case (1 p yield format a os)
  then show ?case using good_put [OF 1(4), of "0x5b"] by (auto intro!: good_yield good_then good_put)
next
  case (2 p yield format kvs os)
  then show ?case using good_put [OF 2(4), of "0x7b"] by (auto intro!: good_yield good_then good_put)
next
  case (5 p yield format v vs os)
  have "good_step (variants_to_stream p yield format vs (if vs \<noteq> [] then os' @ [0x2c] else os'))"
    if "to_stream p yield format v os = Inr os'" "good_text os'" for os'
    using that good_put [OF that(2), of "0x2c"] 5 by auto
  then show ?case using 5(1) [OF 5(3,4,5)] by (cases "to_stream p yield format v os") simp_all
next
  case (7 p yield format k v kvs os)
  let ?os = "\<lambda>e. os @ quoted e @ [0x3a]"
  have k: "good_step (escape_string k yield True)" by (rule good_escape [OF 7(4)])
  have "good_step (and_then (to_stream p yield format v (?os e)) (\<lambda>os'.
      entries_to_stream p yield format kvs (if kvs \<noteq> [] then os' @ [0x2c] else os')))"
    if e: "escape_string k yield True = Inr e" "good_text e" for e
  proof -
    have o: "good_text (?os e)" using 7(5) e(2) by (intro good_append good_quoted good_byte) simp_all
    have t: "good_step (to_stream p yield format v (?os e))" by (rule 7(1) [OF e(1) 7(3,4) o])
    have "good_step (entries_to_stream p yield format kvs (if kvs \<noteq> [] then os' @ [0x2c] else os'))"
      if "to_stream p yield format v (?os e) = Inr os'" "good_text os'" for os'
      using that good_put [OF that(2), of "0x2c"] 7(2) [OF e(1) that(1) 7(3,4)] by auto
    then show ?thesis using t by (cases "to_stream p yield format v (?os e)") simp_all
  qed
  then show ?case using k by (cases "escape_string k yield True") simp_all
qed (simp_all add: good_yield good_scalar del: scalar_to_stream.simps)

lemma limiting_limit: "limiting (limit_yield n)"
  by (simp add: limiting_def limit_yield_def fc_assert_def)

lemma good_json:
  assumes "shows_text p"
  shows "good_step (json_to_limited_string p n v)"
  unfolding json_to_limited_string_def json_to_string_def
  by (rule good_then [OF good_to_stream(1) [OF assms limiting_limit]]) (auto intro: good_yield [OF limiting_limit])

subsection \<open>Every template gives a text\<close>

definition cleaned :: "bytes \<Rightarrow> bytes" where
  "cleaned s = pruned (concat (map (escape_char False) s))"

lemma escape_cleaned: "escape_string s (\<lambda>_. Inr ()) False = Inr (cleaned s)" and good_cleaned: "good_text (cleaned s)"
proof -
  have a: "always (\<lambda>_. Inr ())" by (simp add: always_def)
  show "escape_string s (\<lambda>_. Inr ()) False = Inr (cleaned s)"
    using prune_invalid_utf8_eq [of "concat (map (escape_char False) s)"]
    by (simp add: escape_string_def escape_loop_eq [OF a] cleaned_def is_valid_utf8_eq split: if_splits)
  show "good_text (cleaned s)"
    using prune_invalid_utf8_eq [of "concat (map (escape_char False) s)"] by (simp add: cleaned_def good_text_def)
qed

lemma clean_append_eq:
  "pos \<le> length s \<Longrightarrow>
     clean_append app s pos len = Inr (app @ cleaned (case len of None \<Rightarrow> drop pos s | Some n \<Rightarrow> take n (drop pos s)))"
  by (simp add: clean_append_def substr_def escape_cleaned)

lemma append_arg_good:
  assumes "shows_text p" and "good_text result"
  shows "\<exists>b r. append_arg p minimize sub_max v result = Inr (b, r) \<and> good_text r"
  using assms(2) good_json [OF assms(1), of "if minimize then sub_max else 2 ^ 64 - 1" v]
  by (cases v; cases "json_to_limited_string p (if minimize then sub_max else 2 ^ 64 - 1) v")
    (auto simp: append_arg_def is_object_def is_array_def clean_append_eq Let_def intro!: good_append good_cleaned)

lemma append_key_good:
  assumes "shows_text p" and "good_text result"
  shows "\<exists>r. append_key p minimize sub_max args key result = Inr r \<and> good_text r"
proof -
  have "\<exists>b r. (case map_of args key of None \<Rightarrow> Inr (False, result) | Some v \<Rightarrow> append_arg p minimize sub_max v result) = Inr (b, r) \<and>
      good_text r"
    using assms append_arg_good by (auto split: option.splits)
  then show ?thesis by (auto simp: append_key_def clean_append_eq intro!: good_append good_cleaned)
qed

lemma find_from_bounds: "find_from c pos s = Some n \<Longrightarrow> pos \<le> n \<and> n < length s"
  by (auto simp: find_from_def Let_def split: if_splits)

lemma format_loop_good:
  assumes p: "shows_text p"
  shows "good_text result \<Longrightarrow>
     \<exists>r. format_loop p minimize sub_max args format prev searching result = Inr r \<and> good_text r"
proof (induction "length format - prev" arbitrary: prev searching result rule: less_induct)
  case less
  define goal where "goal = (\<lambda>x :: bytes result. \<exists>r. x = Inr r \<and> good_text r)"
  let ?next = "if searching then find_from 0x24 prev format else None"
  have go: "goal (format_loop p minimize sub_max args format m s r)" if "prev < m" "prev < length format" "good_text r" for m s r
    using less.hyps [of m r s] that by (simp add: goal_def)
  have "goal (format_loop p minimize sub_max args format prev searching result)"
  proof (cases "prev < length format")
    case True
    have a: "\<exists>r. clean_append result format prev l = Inr r \<and> good_text r" for l
      using True less.prems by (auto simp: clean_append_eq intro!: good_append good_cleaned)
    obtain r1 where r1: "clean_append result format prev (map_option (\<lambda>n. n - prev) ?next) = Inr r1" "good_text r1"
      using a by blast
    show ?thesis
    proof (cases ?next)
      case None
      then show ?thesis using True r1 by (subst format_loop.simps) (simp add: goal_def Let_def)
    next
      case (Some n)
      then have n: "prev \<le> n" "n < length format" using find_from_bounds by (auto split: if_splits)
      have g: "goal (and_then (clean_append r1 format (n + 1) (Some 1)) (format_loop p minimize sub_max args format (n + 2) True))"
        using n True r1(2) by (auto simp: clean_append_eq intro!: go good_append good_cleaned)
      have h: "goal (case find_from 0x7d (n + 1) format of
            Some close \<Rightarrow> and_then (substr format (n + 2) (Some (close - (n + 1) - 1))) (\<lambda>key.
                and_then (append_key p minimize sub_max args key r1) (format_loop p minimize sub_max args format (close + 1) True))
          | None \<Rightarrow> format_loop p minimize sub_max args format (n + 1) False r1)" if "n + 1 < length format"
      proof (cases "find_from 0x7d (n + 1) format")
        case None
        then show ?thesis using go n True r1(2) by simp
      next
        case (Some close)
        then have c: "n + 1 \<le> close" using find_from_bounds by blast
        have "goal (and_then (append_key p minimize sub_max args key r1) (format_loop p minimize sub_max args format (close + 1) True))" for key
          using append_key_good [OF p r1(2), of minimize sub_max args key] go [of "close + 1"] n c True by auto
        then show ?thesis using Some that by (simp add: substr_def)
      qed
      have "goal (Inr (r1 @ ascii ''...''))" using r1(2) by (simp add: goal_def good_append)
      then show ?thesis using True r1(1) Some g h by (subst format_loop.simps) (simp add: Let_def)
    qed
  qed (use less.prems in \<open>simp add: goal_def format_loop.simps\<close>)
  then show ?case by (simp add: goal_def)
qed

subsection \<open>Holes and pieces\<close>

fun template :: "(bytes \<times> bytes) list \<Rightarrow> bytes \<Rightarrow> bytes" where
  "template [] end = end"
| "template ((s, k) # ps) end = s @ ascii ''${'' @ k @ ascii ''}'' @ template ps end"

definition fill :: "platform \<Rightarrow> (bytes \<times> variant) list \<Rightarrow> bytes \<Rightarrow> bytes" where
  "fill p args k =
     (let hole = ascii ''${'' @ cleaned k @ ascii ''}''
      in case map_of args k of
           None \<Rightarrow> hole
         | Some v \<Rightarrow>
             (case as_string p v of
                Inr s \<Rightarrow> cleaned s
              | Inl _ \<Rightarrow> (case json_to_limited_string p (2 ^ 64 - 1) v of Inr s \<Rightarrow> s | Inl _ \<Rightarrow> hole)))"

fun filled :: "platform \<Rightarrow> (bytes \<times> variant) list \<Rightarrow> (bytes \<times> bytes) list \<Rightarrow> bytes \<Rightarrow> bytes" where
  "filled p args [] end = cleaned end"
| "filled p args ((s, k) # ps) end = cleaned s @ fill p args k @ filled p args ps end"

lemma append_key_fill:
  assumes "shows_text p"
  shows "append_key p False sub_max args key result = Inr (result @ fill p args key)"
proof (cases "map_of args key")
  case (Some v)
  then show ?thesis using good_json [OF assms, of "2 ^ 64 - 1" v]
    by (cases v; cases "json_to_limited_string p (2 ^ 64 - 1) v")
      (auto simp: append_key_def append_arg_def is_object_def is_array_def clean_append_eq fill_def)
qed (simp add: append_key_def clean_append_eq fill_def)

lemma cleaned_nil [simp]: "cleaned [] = []"
  using prune_invalid_utf8_eq [of "[]"] good_literals(1) by (simp add: cleaned_def good_text_def)

lemma find_from_first: "c \<notin> set s \<Longrightarrow> find_from c (length pre) (pre @ s @ c # rest) = Some (length pre + length s)"
  by (simp add: find_from_def takeWhile_append)

lemma find_from_none: "c \<notin> set s \<Longrightarrow> find_from c (length pre) (pre @ s) = None"
proof -
  assume "c \<notin> set s"
  then have e: "takeWhile (\<lambda>x. x \<noteq> c) s = s" by (auto simp: takeWhile_eq_all_conv)
  show ?thesis by (simp add: find_from_def e)
qed

lemma format_loop_template:
  assumes p: "shows_text p"
  shows "list_all (\<lambda>(s, k). 0x24 \<notin> set s \<and> 0x7d \<notin> set k) ps \<Longrightarrow> 0x24 \<notin> set end \<Longrightarrow>
    format_loop p False sub_max args (pre @ template ps end) (length pre) True result = Inr (result @ filled p args ps end)"
proof (induction ps arbitrary: pre result)
  case Nil
  then show ?case using find_from_none [of "0x24" "end" pre] by (auto simp: clean_append_eq format_loop.simps [where prev = "length pre"])
next
  case (Cons q ps)
  obtain s k where q: "q = (s, k)" by (cases q)
  then have sk: "0x24 \<notin> set s" "0x7d \<notin> set k" using Cons.prems(1) by auto
  define f where "f = pre @ template (q # ps) end"
  have f1: "f = pre @ s @ 0x24 # (0x7b # k @ 0x7d # template ps end)"
    and f2: "f = (pre @ s @ [0x24]) @ (0x7b # k) @ 0x7d # template ps end"
    and f3: "f = (pre @ s @ [0x24, 0x7b] @ k @ [0x7d]) @ template ps end"
    by (simp_all add: f_def q ascii_def)
  have dollar: "find_from 0x24 (length pre) f = Some (length pre + length s)"
    unfolding f1 by (rule find_from_first [OF sk(1)])
  have close: "find_from 0x7d (length pre + length s + 1) f = Some (length pre + length s + 1 + (length k + 1))"
    using find_from_first [of "0x7d" "0x7b # k" "pre @ s @ [0x24]" "template ps end"] sk(2) unfolding f2 by simp
  have len: "length pre < length f" "length pre + length s + 1 < length f" "f ! (length pre + length s + 1) = 0x7b"
    unfolding f1 by (simp_all add: nth_append)
  have key: "substr f (length pre + length s + 2) (Some (length k)) = Inr k" unfolding f1 by (simp add: substr_def)
  have app: "clean_append result f (length pre) (Some (length s)) = Inr (result @ cleaned s)"
    unfolding f1 by (simp add: clean_append_eq)
  have "format_loop p False sub_max args f (length pre) True result =
      format_loop p False sub_max args f (length pre + length s + 1 + (length k + 1) + 1) True (result @ cleaned s @ fill p args k)"
    using dollar close len key app append_key_fill [OF p] by (subst format_loop.simps) simp
  also have "\<dots> = Inr ((result @ cleaned s @ fill p args k) @ filled p args ps end)"
    using Cons.IH [of "pre @ s @ [0x24, 0x7b] @ k @ [0x7d]"] Cons.prems unfolding f3 by (simp add: add.assoc)
  finally show ?case by (simp add: f_def q)
qed

text \<open>
  C14. The text of a log message or an exception. Every template with every arguments, at full length or held to a size, gives a text, whatever the keys, braces and bytes in it;
  no position leaves the template, no exception of the JSON generator gets out, and the text is valid UTF-8 even where the template, an argument or a cut is not.
  At full length a template of literal pieces and holes gives the pieces, cleaned, with every hole replaced by its argument,
  or left as it is where there is none.
\<close>

theorem format_string_correct:
  assumes "shows_text p"
  shows "(\<exists>r. format_string p frmt args minimize = Inr r \<and> is_valid_utf8 r = Inr True) \<and>
    (list_all (\<lambda>(s, k). 0x24 \<notin> set s \<and> 0x7d \<notin> set k) ps \<and> 0x24 \<notin> set end \<longrightarrow>
       format_string p (template ps end) args False = Inr (filled p args ps end))"
proof (rule conjI)
  show "\<exists>r. format_string p frmt args minimize = Inr r \<and> is_valid_utf8 r = Inr True"
    unfolding format_string_def Let_def good_text_def [symmetric] by (rule format_loop_good [OF assms]) simp
  show "list_all (\<lambda>(s, k). 0x24 \<notin> set s \<and> 0x7d \<notin> set k) ps \<and> 0x24 \<notin> set end \<longrightarrow>
       format_string p (template ps end) args False = Inr (filled p args ps end)"
    using format_loop_template [OF assms, of ps "end" _ args "[]" "[]"] by (simp add: format_string_def Let_def)
qed

lemma decimal_shows_text: "shows_text decimal_platform"
proof -
  have "good_text (ascii ''0.0'')" by (rule good_ascii) (simp add: ascii_def)
  then show ?thesis by (simp add: shows_text_def decimal_platform_def good_dec good_dec_int)
qed

theorem format_string_correct_witness:
  "(\<exists>r. format_string decimal_platform [255, 36, 123, 36] [] True = Inr r \<and> is_valid_utf8 r = Inr True) \<and>
   format_string decimal_platform (template [(ascii ''got '', ascii ''n'')] (ascii '' of it'')) [(ascii ''n'', Uint64 7)] False =
     Inr (filled decimal_platform [(ascii ''n'', Uint64 7)] [(ascii ''got '', ascii ''n'')] (ascii '' of it''))"
  using format_string_correct [OF decimal_shows_text, of "[255, 36, 123, 36]" "[]" True "[]" "[]"]
    format_string_correct [OF decimal_shows_text, of "[]" "[(ascii ''n'', Uint64 7)]" True "[(ascii ''got '', ascii ''n'')]" "ascii '' of it''"]
  by (simp_all add: ascii_def)

end
