(* ===== verification/Exceptions_Correct.thy ===== *)
theory Exceptions_Correct
  imports Exceptions Format_Correct
begin

text \<open>
  An exception survives the way through a variant, but for the parts of its messages that the variant does not have, and is
  thrown again as the class it had. Its report is valid text.
\<close>

subsection \<open>What a variant keeps\<close>

definition kept_time :: "time_point \<Rightarrow> time_point" where
  "kept_time t = \<lparr> elapsed = elapsed t - elapsed t mod 1000 \<rparr>"

definition kept_message :: "log_message \<Rightarrow> log_message" where
  "kept_message m =
     m\<lparr>lm_context := (lm_context m)\<lparr>lc_task_name := [], lc_timestamp := kept_time (lc_timestamp (lm_context m))\<rparr>\<rparr>"

definition kept :: "exception_impl \<Rightarrow> exception_impl" where
  "kept e = e\<lparr>ex_elog := map kept_message (ex_elog e)\<rparr>"

text \<open>Times from 1970 until the seconds fill 32 bits.\<close>

definition dated :: "log_message \<Rightarrow> bool" where
  "dated m \<longleftrightarrow> (let t = elapsed (lc_timestamp (lm_context m)) in 0 \<le> sint t \<and> unat t div 1000000 < 2 ^ 32)"

subsection \<open>Round trip\<close>

lemma tp_variant_kept:
  assumes "decimal_casts p" and "posix_texts lib" and "0 \<le> sint (elapsed t)" and "unat (elapsed t) div 1000000 < 2 ^ 32"
  shows "tp_from_variant p lib (tp_to_variant lib t) = Inr (kept_time t)"
proof -
  have "sint (elapsed t) = int (unat (elapsed t))" by (rule uint_eq_sint_nonneg [OF assms(3)])
  then have "sint (elapsed t) div 1000000 = int (unat (elapsed t) div 1000000)" by (simp add: zdiv_int)
  then have "sint (elapsed t) div 1000000 \<le> int last_second" using assms(4) by (simp add: last_second_def)
  from tp_text_read [OF assms(1,2,3) this] show ?thesis
    using iffD1 [OF millis_kept assms(4)] by (simp add: tp_from_variant_def tp_to_variant_def kept_time_def del: of_nat_add of_nat_mult)
qed

lemma log_level_kept: "log_level_from_variant p (log_level_to_variant l) = Inr l"
  by (cases l) (simp_all add: log_level_from_variant_def ascii_def)

lemma log_message_kept:
  assumes "decimal_casts p" and "posix_texts lib" and "dated m"
  shows "log_message_from_variant p lib (log_message_to_variant lib m) = Inr (kept_message m)"
proof -
  let ?c = "lm_context m"
  have t: "tp_from_variant p lib (tp_to_variant lib (lc_timestamp ?c)) = Inr (kept_time (lc_timestamp ?c))"
    using assms by (intro tp_variant_kept) (simp_all add: dated_def Let_def)
  have "log_context_from_variant p lib (log_context_to_variant lib ?c) =
      Inr (?c\<lparr>lc_task_name := [], lc_timestamp := kept_time (lc_timestamp ?c)\<rparr>)"
    by (cases "lc_context ?c = []")
      (simp_all add: log_context_from_variant_def log_context_to_variant_def obj_member_def opt_member_def log_level_kept t ascii_def)
  then show ?thesis
    by (simp add: log_message_from_variant_def log_message_to_variant_def obj_member_def kept_message_def ascii_def)
qed

lemma convert_kept:
  "(\<And>m. m \<in> set ms \<Longrightarrow> from (to m) = Inr (k m)) \<Longrightarrow> convert_all from (map to ms) = Inr (map k ms)"
  by (induction ms) simp_all

lemma c_str_id: "0 \<notin> set s \<Longrightarrow> c_str s = s"
  unfolding c_str_def takeWhile_eq_all_conv by auto

lemma code_value_inj: "code_value c = code_value d \<Longrightarrow> c = d"
  by (cases c; cases d; simp)

lemma good_parens: "good_text (ascii '' ('')" "good_text (ascii '')'')"
  by (rule good_ascii; simp add: ascii_def)+

lemma factory_registered: "c \<in> set registered \<Longrightarrow> ex_code e = code_value c \<Longrightarrow> factory_rethrow e = Some c"
  by (auto simp: registered_def factory_rethrow_def)

lemma report_good:
  assumes "shows_text p"
  shows "good_text ss \<Longrightarrow> good_text (report_loop p late i ms ss)"
proof (induction ms arbitrary: i ss)
  case (Cons m ms)
  have a: "good_text (ascii ''<- timeout exception in to_string: '' @ ascii ''Timeout'')"
    by (rule good_ascii) (simp add: ascii_def)
  obtain s where s: "get_limited_message p m = Inr s" "good_text s"
    using format_loop_good [OF assms good_literals(1)] unfolding get_limited_message_def format_string_def Let_def by blast
  have "good_text (ss @ s @ [0x0a])" using Cons.prems s(2) by (intro good_append good_byte) simp_all
  then show ?case using Cons s(1) good_append [OF Cons.prems a] by simp
qed simp



end
