(* ===== verification/Spec2Isabelle.thy ===== *)
theory Spec2Isabelle
  imports Raw_Api Message_Buffer_Write Smaz Uint128 Safe_Int Utf8_Strings Variant_Ops Raw_Variant Json_Pretty Json_Depth
    Bloom_Correct Blowfish_Correct Crc_Correct Hmac Approx_Log Base58 Base36
    Blake2 Url Ip Time Raw_Typed Keys_Order Webauthn_Correct City_Correct Variant_Programs Tracked_Storage_Correct Exceptions_Correct
begin

text \<open>
  Verification of the fc library: how it turns values into bytes and text and back.

  \<^bold>\<open>The program.\<close> fc is a library of C++ utilities for a blockchain node. Its core is a chain of components through
  which data passes: data streams and the network's message buffer carry bytes; the binary serializer packs C++ values
  into them; the variant is the dynamically typed value in between, and the JSON parsers and generator turn it into text
  and back. Around this core stand the wide and the checked integers, UTF-8, the text codecs, a string compressor, a
  Bloom filter, ciphers and hashes, the texts of keys and signatures and the check of a browser's assertion. Input comes from other machines, so the questions are the same everywhere: does decoding undo encoding,
  does arbitrary input end in a value or an exception of the library and never outside of memory, do the loops end.

  \<^bold>\<open>Conventions.\<close> \<open>Fc_Prelude\<close> has the types of fixed width (\<open>byte\<close>, \<open>u32\<close>, \<open>u64\<close>: words), the
  errors (\<open>Fc_exception\<close> with the codes of \<^verbatim>\<open>fc/exception/exception.hpp\<close>, the exceptions of the
  standard library, \<open>Undefined_behaviour\<close> for an access outside of memory or a signed overflow), the \<open>result\<close> of a call
  that may throw, and the sequencing \<open>and_then\<close>. A mutating member takes the object and returns it. A template's
  type argument is data (\<open>raw_type\<close>, \<open>int_type\<close>); the functions a template calls on its stream are arguments.
  Definitions compute.

  \<^bold>\<open>Streams and the serializer.\<close>
  \<^item> \<open>Stream_Interfaces\<close>: the locales \<open>out_stream\<close> (a \<^verbatim>\<open>write\<close> that appends while there is room), \<open>in_source\<close>
    (\<^verbatim>\<open>read\<close> and \<^verbatim>\<open>get\<close> consume a prefix of what is left) and its extension \<open>in_stream\<close> (or throw at the end). \<open>Datastream\<close> models \<^verbatim>\<open>fc/io/datastream.hpp\<close>
    and interprets them for the streams over an array, a counter and a vector; \<open>Message_Buffer\<close> does for the network buffer.
  \<^item> \<open>Varint\<close>: \<^verbatim>\<open>fc/io/varint.hpp\<close>. \<open>Raw\<close>: the templates of \<^verbatim>\<open>fc/io/raw.hpp\<close> for scalars and containers.
    \<open>Raw_Types\<close>: which template is called for which type. \<open>Raw_Correct\<close>: packing writes the wire format and
    unpacking reads it, proved in the locales, type by type. \<open>Raw_Api\<close>: the entry points and, through the interpretations,
    the round trip, safety on arbitrary bytes, prefix freeness of the format, exact sizes and the size limits.
    \<open>Raw_Typed\<close>: whatever the bytes, what is unpacked is a value of the type asked for.
  \<^item> \<open>Message_Buffer\<close>, \<open>_Correct\<close>, \<open>_Write\<close>: \<^verbatim>\<open>fc/network/message_buffer.hpp\<close>. The chain of blocks refines a queue of
    bytes under the invariant \<open>mb_ok\<close>; unpacking from it agrees with unpacking from an array.

  \<^item> \<open>Cfile\<close>, \<open>Cfile_Correct\<close>: \<^verbatim>\<open>fc/io/cfile.hpp\<close> over a file of the C library, an interpretation of \<open>in_source\<close> and \<open>out_stream\<close>; holes take
    whole blocks. \<open>Tracked_Storage\<close>, \<open>_Correct\<close>: \<^verbatim>\<open>fc/container/tracked_storage.hpp\<close> over any container that the locale
    \<open>multi_index\<close> describes: the count of memory is right after any program, and what is written to a file is read back.

  \<^bold>\<open>Variants and JSON.\<close>
  \<^item> \<open>Variant\<close>, \<open>Variant_Ops\<close>: \<^verbatim>\<open>fc/variant.hpp\<close> and \<^verbatim>\<open>src/variant.cpp\<close>, the kinds, the conversions between
    them, comparison, arithmetic and the \<^verbatim>\<open>to_variant\<close> / \<^verbatim>\<open>from_variant\<close> pairs. Boost's
    \<^verbatim>\<open>lexical_cast\<close> and floating point are the fields of a record \<open>platform\<close>; \<open>decimal_casts\<close> says what integers need of it.
    \<open>Variant_Memory\<close>: the same class as memory, a word and a type byte that own objects of a heap, with its constructors,
    copies, moves, assignments and destructor. \<open>Variant_Memory_Correct\<close>, \<open>Variant_Programs\<close>: programs over it refine
    programs over values and leak nothing, which is why the other theories may take a variant for a value.
    \<open>Variant_Object\<close>: both dictionaries of \<^verbatim>\<open>src/variant_object.cpp\<close>, on a store that shows which objects share
    their entries; the mutable one refines an ordered finite map.
  \<^item> \<open>Raw_Variant\<close>: \<^verbatim>\<open>fc/io/raw_variant.hpp\<close>, on the locales of the streams. Unpacking recurses on the input, so the
    stack is an argument; the depth needed is bounded by the length of the input, and a megabyte can need a million frames.
  \<^item> \<open>Json_Parse\<close>, \<open>Json_Relaxed\<close>: the two parsers of \<^verbatim>\<open>src/io/json.cpp\<close> and \<^verbatim>\<open>fc/io/json_relaxed.hpp\<close> on a stream
    that is the list of bytes left. \<open>Json_Print\<close>: the generator, escaping and indentation, with the \<^verbatim>\<open>yield\<close> callback as
    an argument. \<open>Json_Total\<close> and \<open>Json_Relaxed_Total\<close>: both parsers return on every input, with one exception, a
    string in triple quotes that does not end. \<open>Json_Numbers\<close>: the integer literals. \<open>Json_Grammar\<close>,
    \<open>Json_Relaxed_Grammar\<close>, \<open>Json_Relaxed_Read\<close>: a grammar of JSON texts with white space that every parser reads
    as the value the text stands for. \<open>Json_Roundtrip\<close>, \<open>Json_Pretty\<close>: the generator's texts belong to it, so printing
    and parsing are inverse in every mode. \<open>Json_Depth\<close>: what the limit on nesting admits.

  \<^item> \<open>Format\<close>, \<open>Format_Correct\<close>: \<^verbatim>\<open>format_string\<close> of \<^verbatim>\<open>src/variant.cpp\<close>, which fills templates: it always ends, in valid UTF-8. \<open>Exceptions\<close>,
    \<open>Exceptions_Correct\<close>: the log messages and exceptions of \<^verbatim>\<open>src/log/log_message.cpp\<close> and \<^verbatim>\<open>src/exception.cpp\<close>; they survive the way
    through a variant and are thrown again as the class of their code.

  \<^bold>\<open>The components around.\<close>
  \<^item> \<open>Uint128\<close>: \<^verbatim>\<open>src/uint128.cpp\<close> refines 128-bit words; its division loop is division and ends. \<open>Decimal\<close> is the
    notation it prints. \<open>Safe_Int\<close>: \<^verbatim>\<open>fc/safe.hpp\<close>, exact or an exception at every width.
  \<^item> \<open>Utf8\<close>, \<open>Utf8_Strings\<close>: \<^verbatim>\<open>src/utf8.cpp\<close> and the part of \<^verbatim>\<open>src/utf8/\<close> it uses, against the definition of the encoding.
  \<^item> \<open>Text_Codecs\<close>: \<^verbatim>\<open>src/crypto/hex.cpp\<close> and \<^verbatim>\<open>base64.cpp\<close>. \<open>Smaz\<close>: \<^verbatim>\<open>src/compress/smaz.cpp\<close> with its code books.
  \<^item> \<open>Bloom_Filter\<close>, \<open>Bloom_Correct\<close>: \<^verbatim>\<open>fc/bloom_filter.hpp\<close>. The filter is a set of bit positions; no false negatives,
    the set operations, and when the table covers the indices computed for it.
  \<^item> \<open>Blowfish\<close>, \<open>Blowfish_Correct\<close>: \<^verbatim>\<open>src/crypto/blowfish.cpp\<close>. The unrolled rounds are the textbook network; a locale
    states what a mode of operation promises, and the three modes are interpretations of it. \<open>Crc\<close>, \<open>Crc_Correct\<close>:
    \<^verbatim>\<open>src/crypto/crc.cpp\<close> against the checksum bit by bit.
  \<^item> \<open>Digest\<close>, \<open>Hash_Class\<close>, \<open>Approx_Log\<close>: \<^verbatim>\<open>src/crypto/_digest_common.cpp\<close> and what the digest classes share, as
    numbers of a fixed width; the two approximate logarithms of \<^verbatim>\<open>sha256.cpp\<close>. \<open>Sha3\<close>, \<open>Sha3_Correct\<close>:
    \<^verbatim>\<open>src/crypto/sha3.cpp\<close> is the sponge of FIPS 202. \<open>Hmac\<close>: \<^verbatim>\<open>fc/crypto/hmac.hpp\<close> for any hash that
    the locale \<open>hash_encoder\<close> describes, and SHA-3 as its interpretation. \<open>Blake2\<close>: \<^verbatim>\<open>src/crypto/blake2.cpp\<close> is the
    compression function of RFC 7693.
  \<^item> \<open>Positional\<close>: numbers in any base. \<open>Bignum\<close>, \<open>Bignum_Correct\<close>: the locale \<open>bignum\<close> states what OpenSSL's manual says of its big
    numbers, and the class \<^verbatim>\<open>CBigNum\<close> is proved on it; the integers interpret it. \<open>Base58\<close>: \<^verbatim>\<open>src/crypto/base58.cpp\<close>, a
    bijection between bytes and texts. \<open>Bigint\<close>, \<open>Base36\<close>: \<^verbatim>\<open>fc::bigint\<close> and the encoding built on it. Their loops are
    partial functions of the library's comparisons; that they return follows from the laws.
  \<^item> \<open>Keys\<close>, \<open>Keys_Correct\<close>, \<open>Keys_Order\<close>: the texts of public keys, private keys and signatures
    (\<^verbatim>\<open>fc/crypto/common.hpp\<close>, \<^verbatim>\<open>public_key.cpp\<close>, \<^verbatim>\<open>private_key.cpp\<close>, \<^verbatim>\<open>signature.cpp\<close>) over base 58 and a checksum; printing and
    parsing are inverse, any text gives a key or an exception, and the operators order keys. The hashes and the validity of a
    curve's data are parameters. \<open>Webauthn\<close>, \<open>Webauthn_Correct\<close>: \<^verbatim>\<open>elliptic_webauthn.cpp\<close>, the state machine
    that reads the client's JSON through rapidjson's callbacks and the checks before a key is recovered, against the
    members of the outermost object.
  \<^item> \<open>City\<close>, \<open>City_Long\<close>, \<open>City_Correct\<close>: \<^verbatim>\<open>src/crypto/city.cpp\<close>, where every read is an access into the buffer that may fail;
    none does, at any length.
  \<^item> \<open>Url\<close>, \<open>Ip\<close>, \<open>Time\<close>: \<^verbatim>\<open>src/network/url.cpp\<close>, \<^verbatim>\<open>ip.cpp\<close> and \<^verbatim>\<open>src/time.cpp\<close>. Their texts read back, with the limits that the
    theorems state: no query, times before 2106. What Boost parses and prints is a parameter.

  \<^bold>\<open>Fuel and bounds.\<close> Loops that consume input recurse on it. Where a loop does not shrink its argument visibly, a
  bound is an argument and \<open>None\<close> is running out of it. The parsers run with the length of the input, and the
  totality theorems show that this is enough because every iteration reads a character. The loop on triple quotes has the
  same bound; it runs out exactly where the code does not stop. The salts a Bloom filter draws from \<^verbatim>\<open>rand\<close> have no bound, since
  the sequence is a parameter; up to 128 hash functions none are drawn. \<open>hmac\<close> calls itself once at most, for a hashed key fits a block.
  Copying, clearing and visiting a variant in memory take the nesting of its value as bound.

  \<^bold>\<open>Not modelled.\<close> The hashes other than SHA-3, BLAKE2, CityHash and the checksum, the arithmetic on the curves, AES and zlib
  are calls into OpenSSL, libsecp256k1, libff and zlib; files, sockets, processes and consoles are calls into Boost and the
  operating system; loggers and appenders are output. The remote procedure calls and the rate limiting of sockets are in the repository but
  in no target of its build, and need headers it no longer has. Reflection is metaprogramming whose effect, the list of members, is an argument of the model.
  Of the modelled files, these parts are missing: the streambuf stream, which forwards to the standard library; the
  serialization of exceptions, paths and multiprecision integers; JSON files and deadlines. The buffered streams are not in the build, and their base
  class is no longer in the repository.
\<close>

end
